(* ===== verification/Prelude.thy ===== *)
theory Prelude
  imports Main "HOL-Library.Word"
begin

text \<open>
  Shared vocabulary of the development: the C integer types of \<^verbatim>\<open>inc/types.h\<close> as words, the
  result type of kernel code that can panic, the loop combinators the handlers use, and the
  generic lemmas on lists, functions and words that the component theories share. The
  collections \<open>fos_defs\<close> (small definitions unfolded during evaluation) and \<open>fos_inv\<close>
  (preservation lemmas) are filled by the component theories.
\<close>

unbundle bit_operations_syntax

named_theorems fos_defs "small definitions that proofs and evaluations unfold"
named_theorems fos_inv "preservation of invariants by operations"

section \<open>C integer types\<close>

type_synonym uint8 = "8 word"
type_synonym uint16 = "16 word"
type_synonym uint32 = "32 word"
type_synonym uint64 = "64 word"

text \<open>
  A C \<open>int\<close> is a 32-bit two's complement number. Where only its mathematical value matters
  the models use \<open>int\<close>; where it can wrap they go through \<open>wrap32\<close>.
\<close>

definition wrap32 :: "int \<Rightarrow> int" where
  "wrap32 x = (x + 2 ^ 31) mod 2 ^ 32 - 2 ^ 31"

lemma wrap32_id: "- (2 ^ 31) \<le> x \<Longrightarrow> x < 2 ^ 31 \<Longrightarrow> wrap32 x = x"
  by (simp add: wrap32_def)

lemma wrap32_add_multiple: "wrap32 (x + k * 2 ^ 32) = wrap32 x"
proof -
  have "(x + k * 2 ^ 32 + 2 ^ 31) mod 2 ^ 32 = (x + 2 ^ 31 + k * 2 ^ 32) mod 2 ^ 32"
    by (simp only: ac_simps)
  then show ?thesis by (simp only: wrap32_def mod_mult_self1)
qed

lemma wrap32_shift: "\<exists>k. wrap32 x = x + k * 2 ^ 32"
proof -
  have "wrap32 x = x + (- ((x + 2 ^ 31) div 2 ^ 32)) * 2 ^ 32"
    unfolding wrap32_def minus_div_mult_eq_mod [symmetric] by simp
  then show ?thesis by blast
qed

lemma wrap32_mod: "wrap32 (wrap32 x + y) = wrap32 (x + y)" "wrap32 (wrap32 x * y + z) = wrap32 (x * y + z)"
proof -
  obtain k where k: "wrap32 x = x + k * 2 ^ 32" using wrap32_shift by blast
  have "x + k * 2 ^ 32 + y = x + y + k * 2 ^ 32" by simp
  then show "wrap32 (wrap32 x + y) = wrap32 (x + y)"
    by (simp only: k wrap32_add_multiple)
  have "(x + k * 2 ^ 32) * y + z = x * y + z + (k * y) * 2 ^ 32" by (simp add: algebra_simps)
  then show "wrap32 (wrap32 x * y + z) = wrap32 (x * y + z)"
    by (simp only: k wrap32_add_multiple)
qed

lemma wrap32_cong: "x mod 2 ^ 32 = y mod 2 ^ 32 \<Longrightarrow> wrap32 x = wrap32 y"
  unfolding wrap32_def by (metis mod_add_left_eq)

lemma wrap32_mod_eq: "wrap32 x mod 2 ^ 32 = x mod 2 ^ 32"
proof -
  have "wrap32 x mod 2 ^ 32 = (x + 2 ^ 31 - 2 ^ 31) mod 2 ^ 32" unfolding wrap32_def by (rule mod_diff_left_eq)
  then show ?thesis by simp
qed

text \<open>C division and remainder truncate towards zero.\<close>

definition c_div :: "int \<Rightarrow> int \<Rightarrow> int" where
  "c_div a b = sgn a * sgn b * (\<bar>a\<bar> div \<bar>b\<bar>)"

definition c_mod :: "int \<Rightarrow> int \<Rightarrow> int" where
  "c_mod a b = a - b * c_div a b"

section \<open>Results of code that can panic\<close>

text \<open>
  \<open>panic\<close> and \<open>assert\<close> do not return to their caller. An operation that can reach one
  returns \<open>Inl\<close> with the reason and the state in which it stopped, or \<open>Inr\<close> with its
  result; \<open>bindE\<close> is the sequencing of C statements for such results.
\<close>

datatype halt =
    Panic string          \<comment> \<open>\<open>panic(...)\<close>, with the message\<close>
  | AssertFailed string   \<comment> \<open>\<open>assert(...)\<close> on a false condition\<close>
  | PageFault             \<comment> \<open>the kernel touched a user address that is not mapped\<close>
  | NullDeref             \<comment> \<open>a null pointer was dereferenced\<close>
  | ListMisuse            \<comment> \<open>a list macro was used outside its contract\<close>
  | OutOfBounds           \<comment> \<open>an array was accessed outside its bounds\<close>
  | OutOfFuel             \<comment> \<open>a loop did not end within the fuel of the model\<close>

definition bindE :: "'e + 'a \<Rightarrow> ('a \<Rightarrow> 'e + 'b) \<Rightarrow> 'e + 'b" where
  "bindE r f = (case r of Inl e \<Rightarrow> Inl e | Inr a \<Rightarrow> f a)"

fun foldE :: "('x \<Rightarrow> 's \<Rightarrow> 'e + 's) \<Rightarrow> 'x list \<Rightarrow> 's \<Rightarrow> 'e + 's" where
  "foldE f [] s = Inr s"
| "foldE f (x # xs) s = bindE (f x s) (foldE f xs)"

definition okE :: "('a \<Rightarrow> bool) \<Rightarrow> 'e + 'a \<Rightarrow> bool" where
  "okE P r = (case r of Inl _ \<Rightarrow> True | Inr a \<Rightarrow> P a)"

definition succeeds :: "'e + 'a \<Rightarrow> bool" where
  "succeeds r = (case r of Inl _ \<Rightarrow> False | Inr _ \<Rightarrow> True)"

lemma bindE_Inl [simp]: "bindE (Inl e) f = Inl e"
  by (simp add: bindE_def)

lemma bindE_Inr [simp]: "bindE (Inr a) f = f a"
  by (simp add: bindE_def)

lemma bindE_eq_Inr: "bindE r f = Inr b \<longleftrightarrow> (\<exists>a. r = Inr a \<and> f a = Inr b)"
  by (cases r) auto

lemma bindE_eq_Inl: "bindE r f = Inl e \<longleftrightarrow> r = Inl e \<or> (\<exists>a. r = Inr a \<and> f a = Inl e)"
  by (cases r) auto

lemma bindE_assoc: "bindE (bindE r f) g = bindE r (\<lambda>a. bindE (f a) g)"
  by (cases r) auto

lemma okE_simps [simp]: "okE P (Inl e)" "okE P (Inr a) = P a"
  by (simp_all add: okE_def)

lemma okE_bindE: "okE P (bindE r f) = okE (\<lambda>a. okE P (f a)) r"
  by (cases r) auto

lemma okE_weaken: "okE P r \<Longrightarrow> (\<And>a. P a \<Longrightarrow> Q a) \<Longrightarrow> okE Q r"
  by (cases r) auto

lemma okE_D: "okE P r \<Longrightarrow> r = Inr a \<Longrightarrow> P a"
  by auto

lemma okE_iff: "okE P r \<longleftrightarrow> (\<forall>a. r = Inr a \<longrightarrow> P a)"
  by (cases r) auto

lemma succeeds_simps [simp]: "\<not> succeeds (Inl e)" "succeeds (Inr a)"
  by (simp_all add: succeeds_def)

lemma succeeds_iff: "succeeds r \<longleftrightarrow> (\<exists>a. r = Inr a)"
  by (cases r) auto

lemma foldE_append: "foldE f (xs @ ys) s = bindE (foldE f xs s) (foldE f ys)"
proof (induction xs arbitrary: s)
  case Nil
  then show ?case by simp
next
  case (Cons x xs)
  then have "foldE f (xs @ ys) = (\<lambda>s. bindE (foldE f xs s) (foldE f ys))" by blast
  then show ?case by (simp add: bindE_assoc)
qed

text \<open>The invariant rule of a loop over a list.\<close>

lemma foldE_inv:
  assumes "P s" and "\<And>x s. x \<in> set xs \<Longrightarrow> P s \<Longrightarrow> okE P (f x s)"
  shows "okE P (foldE f xs s)"
  using assms
proof (induction xs arbitrary: s)
  case Nil
  then show ?case by simp
next
  case (Cons x xs)
  have "okE P (f x s)" using Cons.prems by simp
  then show ?case
    by (simp add: okE_bindE) (rule okE_weaken, assumption, rule Cons.IH, auto intro: Cons.prems)
qed

text \<open>
  \<open>LIST_FOREACH\<close> on a represented list whose body may change the list: \<open>get\<close> is the list in the
  current state, the successor of the current element is saved before the body runs. The fuel
  bounds the number of elements visited.
\<close>

definition next_of :: "'a \<Rightarrow> 'a list \<Rightarrow> 'a option" where
  "next_of x xs = (case dropWhile (\<lambda>y. y \<noteq> x) xs of _ # y # _ \<Rightarrow> Some y | _ \<Rightarrow> None)"

fun foreach :: "nat \<Rightarrow> ('s \<Rightarrow> 'a list) \<Rightarrow> ('a \<Rightarrow> 's \<Rightarrow> halt + 's) \<Rightarrow> 'a option \<Rightarrow> 's \<Rightarrow> halt + 's" where
  "foreach n get body None s = Inr s"
| "foreach 0 get body (Some x) s = Inl OutOfFuel"
| "foreach (Suc n) get body (Some x) s =
     bindE (body x s) (foreach n get body (next_of x (get s)))"

section \<open>Lists\<close>

lemma remove1_append_notin: "x \<notin> set xs \<Longrightarrow> remove1 x (xs @ ys) = xs @ remove1 x ys"
  by (induction xs) auto

lemma distinct_split_unique:
  assumes "distinct (xs @ x # ys)" and "xs @ x # ys = us @ x # vs"
  shows "xs = us \<and> ys = vs"
proof -
  have "x \<notin> set xs" "x \<notin> set ys" using assms(1) by auto
  moreover have "x \<notin> set us" using assms by (metis distinct_append not_distinct_conv_prefix in_set_conv_decomp)
  ultimately show ?thesis using assms(2) by (metis append_Cons_eq_iff)
qed

lemma distinct_remove1_butlast: "distinct xs \<Longrightarrow> xs \<noteq> [] \<Longrightarrow> remove1 (last xs) xs = butlast xs"
  by (induction xs) auto

lemma remove1_hd: "xs \<noteq> [] \<Longrightarrow> remove1 (hd xs) xs = tl xs"
  by (cases xs) auto

lemma length_remove1_in: "x \<in> set xs \<Longrightarrow> length (remove1 x xs) = length xs - 1"
  by (simp add: length_remove1)

text \<open>\<open>LIST_FIRST\<close> and \<open>LIST_LAST\<close> on the abstract list: null when it is empty.\<close>

definition first_of :: "'a list \<Rightarrow> 'a option" where
  "first_of xs = (case xs of [] \<Rightarrow> None | x # _ \<Rightarrow> Some x)"

definition last_of :: "'a list \<Rightarrow> 'a option" where
  "last_of xs = (case xs of [] \<Rightarrow> None | _ \<Rightarrow> Some (last xs))"

lemma first_of_simps [simp]: "first_of [] = None" "first_of (x # xs) = Some x"
  by (simp_all add: first_of_def)

lemma last_of_simps [simp]: "last_of [] = None" "last_of (xs @ [x]) = Some x"
  by (cases xs; simp add: last_of_def)+

lemma last_of_Cons [simp]: "last_of (x # xs) = Some (last (x # xs))"
  by (simp add: last_of_def)

lemma first_of_eq_Some: "first_of xs = Some x \<longleftrightarrow> (\<exists>ys. xs = x # ys)"
  by (cases xs) auto

lemma first_of_eq_None [simp]: "first_of xs = None \<longleftrightarrow> xs = []"
  by (cases xs) auto

lemma last_of_eq_Some: "last_of xs = Some x \<longleftrightarrow> (\<exists>ys. xs = ys @ [x])"
  by (cases xs rule: rev_cases) auto

lemma last_of_eq_None [simp]: "last_of xs = None \<longleftrightarrow> xs = []"
  by (cases xs) auto

lemma next_of_append: "x \<notin> set us \<Longrightarrow> next_of x (us @ x # vs) = first_of vs"
  by (induction us) (auto simp: next_of_def first_of_def split: list.splits)

text \<open>
  The rule for a loop that removes the element it visits, or leaves the list alone: every element is
  visited once, in order. \<open>I rest s\<close> holds when \<open>rest\<close> is what is left to visit.
\<close>

lemma foreach_rule:
  assumes "I (get s) s" and "distinct (get s)" and "length (get s) \<le> n"
    and step: "\<And>us x vs s. I (x # vs) s \<Longrightarrow> get s = us @ x # vs \<Longrightarrow> distinct (get s) \<Longrightarrow>
      okE (\<lambda>t. I vs t \<and> distinct (get t) \<and> (get t = us @ x # vs \<or> get t = us @ vs)) (body x s)"
  shows "okE (\<lambda>t. I [] t) (foreach n get body (first_of (get s)) s)"
proof -
  have "okE (\<lambda>t. I [] t) (foreach n get body (first_of vs) s)"
    if "I vs s" "distinct (get s)" "get s = us @ vs" "length vs \<le> n" for us vs n s
    using that
  proof (induction n arbitrary: us vs s)
    case 0
    then show ?case by simp
  next
    case (Suc n)
    show ?case
    proof (cases vs)
      case Nil
      then show ?thesis using Suc.prems by simp
    next
      case (Cons x ws)
      have nx: "next_of x (get s) = first_of ws"
        using Suc.prems Cons by (simp add: next_of_append)
      have "okE (\<lambda>t. I ws t \<and> distinct (get t) \<and> (get t = us @ x # ws \<or> get t = us @ ws)) (body x s)"
        using step [of x ws s us] Suc.prems Cons by simp
      then show ?thesis
        using Cons Suc.prems(4)
        by (simp add: nx okE_bindE)
          (elim okE_weaken, use Suc.IH [where vs = ws] in \<open>metis append.assoc append_Cons append_Nil length_Cons Suc_le_mono\<close>)
    qed
  qed
  from this [of "get s" s "[]"] show ?thesis using assms(1-3) by simp
qed

section \<open>Words\<close>

lemma unat_and_mask: "unat (x AND mask n) = unat x mod 2 ^ n"
  by (simp flip: take_bit_eq_mask take_bit_eq_mod add: unsigned_take_bit_eq)

lemma unat_drop_bit: "unat (drop_bit n (x :: 'a::len word)) = unat x div 2 ^ n"
proof -
  have "take_bit LENGTH('a) (unat x) = unat x"
    by (rule take_bit_nat_eq_self) (rule unsigned_less)
  moreover have "unat (drop_bit n x) = drop_bit n (take_bit LENGTH('a) (unat x))"
    by (rule unsigned_drop_bit_eq)
  ultimately have "unat (drop_bit n x) = drop_bit n (unat x)" by (simp only:)
  then show ?thesis by (simp only: drop_bit_eq_div)
qed

section \<open>Bytes and words\<close>

definition byte_of :: "uint32 \<Rightarrow> nat \<Rightarrow> uint8" where
  "byte_of w k = ucast (drop_bit (8 * k) w)"

definition set_byte :: "nat \<Rightarrow> uint8 \<Rightarrow> uint32 \<Rightarrow> uint32" where
  "set_byte k b w = (w AND NOT (push_bit (8 * k) 0xFF)) OR push_bit (8 * k) (ucast b)"

definition word_of_bytes :: "uint8 \<Rightarrow> uint8 \<Rightarrow> uint8 \<Rightarrow> uint8 \<Rightarrow> uint32" where
  "word_of_bytes a b c d =
     ucast a OR push_bit 8 (ucast b) OR push_bit 16 (ucast c) OR push_bit 24 (ucast d)"

end
