(* ===== verification/Linked_List.thy ===== *)
theory Linked_List
  imports Prelude
begin

text \<open>
  The intrusive doubly linked lists of \<^verbatim>\<open>inc/queue.h\<close>, at the level of pointers. A list head
  (\<open>LIST_HEAD\<close>) and the link fields of its elements (\<open>LIST_ENTRY\<close>) live in separate
  objects; \<open>store\<close> maps an element to its links and a null pointer is \<open>None\<close>. Every macro
  is a function on head and store that performs its assignments in the order of the macro.
  \<open>dll h st xs\<close> says that head \<open>h\<close> and store \<open>st\<close> represent the list \<open>xs\<close>; the
  refinement lemmas show that each macro implements the obvious operation on \<open>xs\<close>. The rest
  of the development models every kernel list (free frames, ready queue, working set lists) by
  the represented list, and the locale \<open>intrusive_list\<close> is the contract that makes this sound.
\<close>

section \<open>Heads, links and the macros\<close>

record 'p link =
  le_next :: "'p option"
  le_prev :: "'p option"

record 'p lhead =
  lh_first :: "'p option"
  lh_last :: "'p option"
  ptr_next :: "'p option"  \<comment> \<open>\<open>___ptr_next\<close>, the saved position of \<open>LIST_FOREACH\<close>\<close>
  lsize :: uint32

type_synonym 'p store = "'p \<Rightarrow> 'p link"

definition set_next :: "'p \<Rightarrow> 'p option \<Rightarrow> 'p store \<Rightarrow> 'p store" where
  "set_next p v st = st(p := (st p)\<lparr>le_next := v\<rparr>)"

definition set_prev :: "'p \<Rightarrow> 'p option \<Rightarrow> 'p store \<Rightarrow> 'p store" where
  "set_prev p v st = st(p := (st p)\<lparr>le_prev := v\<rparr>)"

definition LIST_EMPTY :: "'p lhead \<Rightarrow> bool" where
  "LIST_EMPTY h \<longleftrightarrow> lh_first h = None"

definition LIST_INIT :: "'p lhead \<Rightarrow> 'p lhead" where
  "LIST_INIT h = h\<lparr>lh_first := None, lh_last := None, lsize := 0\<rparr>"

definition LIST_INSERT_HEAD :: "'p \<Rightarrow> 'p lhead \<times> 'p store \<Rightarrow> 'p lhead \<times> 'p store" where
  "LIST_INSERT_HEAD elm = (\<lambda>(h, st).
     let st = set_next elm (lh_first h) st;
         (h, st) = (case lh_first h of
             Some f \<Rightarrow> (h, set_prev f (Some elm) st)
           | None \<Rightarrow> (h\<lparr>lh_last := Some elm\<rparr>, st));
         h = h\<lparr>lh_first := Some elm\<rparr>;
         st = set_prev elm None st
     in (h\<lparr>lsize := lsize h + 1\<rparr>, st))"

definition LIST_INSERT_TAIL :: "'p \<Rightarrow> 'p lhead \<times> 'p store \<Rightarrow> 'p lhead \<times> 'p store" where
  "LIST_INSERT_TAIL elm = (\<lambda>(h, st).
     let st = set_prev elm (lh_last h) st;
         (h, st) = (case lh_last h of
             Some l \<Rightarrow> (h, set_next l (Some elm) st)
           | None \<Rightarrow> (h\<lparr>lh_first := Some elm\<rparr>, st));
         h = h\<lparr>lh_last := Some elm\<rparr>;
         st = set_next elm None st
     in (h\<lparr>lsize := lsize h + 1\<rparr>, st))"

definition LIST_INSERT_AFTER :: "'p \<Rightarrow> 'p \<Rightarrow> 'p lhead \<times> 'p store \<Rightarrow> 'p lhead \<times> 'p store" where
  "LIST_INSERT_AFTER listelm elm = (\<lambda>(h, st).
     let st = set_next elm (le_next (st listelm)) st;
         st = (case le_next (st listelm) of Some n \<Rightarrow> set_prev n (Some elm) st | None \<Rightarrow> st);
         st = set_next listelm (Some elm) st;
         st = set_prev elm (Some listelm) st;
         h = (if le_next (st elm) = None then h\<lparr>lh_last := Some elm\<rparr> else h)
     in (h\<lparr>lsize := lsize h + 1\<rparr>, st))"

definition LIST_INSERT_BEFORE :: "'p \<Rightarrow> 'p \<Rightarrow> 'p lhead \<times> 'p store \<Rightarrow> 'p lhead \<times> 'p store" where
  "LIST_INSERT_BEFORE listelm elm = (\<lambda>(h, st).
     let st = set_prev elm (le_prev (st listelm)) st;
         st = set_next elm (Some listelm) st;
         (h, st) = (case le_prev (st listelm) of
             Some p \<Rightarrow> (h, set_next p (Some elm) st)
           | None \<Rightarrow> (h\<lparr>lh_first := Some elm\<rparr>, st));
         st = set_prev listelm (Some elm) st
     in (h\<lparr>lsize := lsize h + 1\<rparr>, st))"

definition LIST_REMOVE :: "'p \<Rightarrow> 'p lhead \<times> 'p store \<Rightarrow> 'p lhead \<times> 'p store" where
  "LIST_REMOVE elm = (\<lambda>(h, st).
     let (h, st) = (case le_next (st elm) of
             Some n \<Rightarrow> (h, set_prev n (le_prev (st elm)) st)
           | None \<Rightarrow> (h\<lparr>lh_last := le_prev (st elm)\<rparr>, st));
         (h, st) = (case le_prev (st elm) of
             Some p \<Rightarrow> (h, set_next p (le_next (st elm)) st)
           | None \<Rightarrow> (h\<lparr>lh_first := le_next (st elm)\<rparr>, st));
         st = set_next elm None st;
         st = set_prev elm None st
     in (h\<lparr>lsize := lsize h - 1\<rparr>, st))"

text \<open>
  \<open>LIST_CONCAT(list1, list2)\<close>. In the middle branch the macro resets \<open>list2\<close> with
  \<open>LIST_INIT\<close> before the last statement adds \<open>list2->size\<close> to \<open>list1->size\<close>.
\<close>

definition LIST_CONCAT ::
  "'p lhead \<times> 'p lhead \<times> 'p store \<Rightarrow> 'p lhead \<times> 'p lhead \<times> 'p store" where
  "LIST_CONCAT = (\<lambda>(h1, h2, st).
     let (h1, h2, st) =
       (case lh_first h1 of
          None \<Rightarrow> (h1\<lparr>lh_first := lh_first h2, lh_last := lh_last h2\<rparr>, h2, st)
        | Some _ \<Rightarrow>
          (case lh_first h2 of
             None \<Rightarrow> (h1, h2, st)
           | Some f2 \<Rightarrow>
             (let st = (case lh_last h1 of Some l1 \<Rightarrow> set_next l1 (Some f2) st | None \<Rightarrow> st);
                  st = set_prev f2 (lh_last h1) st
              in (h1\<lparr>lh_last := lh_last h2\<rparr>, LIST_INIT h2, st))))
     in (h1\<lparr>lsize := lsize h1 + lsize h2\<rparr>, h2, st))"

text \<open>
  \<open>LIST_FOREACH(var, head) body\<close>: before the body runs, the successor of \<open>var\<close> is saved in
  the head; the body may change the links, and the loop goes on from the saved pointer. The
  body acts on head, store and any further state. The fuel bounds the number of iterations.
\<close>

fun LIST_FOREACH ::
  "nat \<Rightarrow> ('p \<Rightarrow> 'p lhead \<times> 'p store \<times> 's \<Rightarrow> 'p lhead \<times> 'p store \<times> 's) \<Rightarrow> 'p option
   \<Rightarrow> 'p lhead \<times> 'p store \<times> 's \<Rightarrow> ('p lhead \<times> 'p store \<times> 's) option" where
  "LIST_FOREACH 0 body var s = None"
| "LIST_FOREACH (Suc n) body None (h, st, s) = Some (h\<lparr>ptr_next := None\<rparr>, st, s)"
| "LIST_FOREACH (Suc n) body (Some v) (h, st, s) =
     (case body v (h\<lparr>ptr_next := le_next (st v)\<rparr>, st, s) of
        (h', st', s') \<Rightarrow> LIST_FOREACH n body (ptr_next h') (h', st', s'))"

section \<open>What a head and a store represent\<close>

text \<open>
  \<open>dseg st p xs q\<close>: the elements \<open>xs\<close> are linked to each other in both directions, the
  first one back to \<open>p\<close> and the last one on to \<open>q\<close>.
\<close>

fun dseg :: "'p store \<Rightarrow> 'p option \<Rightarrow> 'p list \<Rightarrow> 'p option \<Rightarrow> bool" where
  "dseg st p [] q \<longleftrightarrow> True"
| "dseg st p (x # xs) q \<longleftrightarrow>
     le_prev (st x) = p \<and>
     le_next (st x) = (case xs of [] \<Rightarrow> q | y # _ \<Rightarrow> Some y) \<and>
     dseg st (Some x) xs q"

definition first_or :: "'p list \<Rightarrow> 'p option \<Rightarrow> 'p option" where
  "first_or xs q = (case xs of [] \<Rightarrow> q | x # _ \<Rightarrow> Some x)"

definition last_or :: "'p option \<Rightarrow> 'p list \<Rightarrow> 'p option" where
  "last_or p xs = (if xs = [] then p else Some (last xs))"

definition dll :: "'p lhead \<Rightarrow> 'p store \<Rightarrow> 'p list \<Rightarrow> bool" where
  "dll h st xs \<longleftrightarrow>
     distinct xs \<and> lh_first h = first_of xs \<and> lh_last h = last_of xs \<and>
     lsize h = of_nat (length xs) \<and> dseg st None xs None"

text \<open>The forward links alone, as \<open>LIST_FOREACH\<close> follows them.\<close>

fun chain :: "'p store \<Rightarrow> 'p list \<Rightarrow> bool" where
  "chain st [] \<longleftrightarrow> True"
| "chain st (x # xs) \<longleftrightarrow> le_next (st x) = first_of xs \<and> chain st xs"

section \<open>The contract of an intrusive list\<close>

text \<open>
  What the kernel relies on when it works with a list through the macros: \<open>rep s xs\<close> relates
  the concrete state to the list it stands for. \<open>enqueue\<close> of the scheduler is \<open>ins_head\<close>
  and \<open>dequeue\<close> takes the last element, so the lemma \<open>fifo\<close> is the queue discipline.
\<close>

locale intrusive_list =
  fixes rep :: "'s \<Rightarrow> 'p list \<Rightarrow> bool"
    and ins_head :: "'p \<Rightarrow> 's \<Rightarrow> 's"
    and ins_tail :: "'p \<Rightarrow> 's \<Rightarrow> 's"
    and rem :: "'p \<Rightarrow> 's \<Rightarrow> 's"
    and fst_el :: "'s \<Rightarrow> 'p option"
    and lst_el :: "'s \<Rightarrow> 'p option"
    and sz :: "'s \<Rightarrow> uint32"
  assumes rep_distinct: "rep s xs \<Longrightarrow> distinct xs"
    and rep_ins_head: "rep s xs \<Longrightarrow> x \<notin> set xs \<Longrightarrow> rep (ins_head x s) (x # xs)"
    and rep_ins_tail: "rep s xs \<Longrightarrow> x \<notin> set xs \<Longrightarrow> rep (ins_tail x s) (xs @ [x])"
    and rep_rem: "rep s xs \<Longrightarrow> x \<in> set xs \<Longrightarrow> rep (rem x s) (remove1 x xs)"
    and rep_fst: "rep s xs \<Longrightarrow> fst_el s = first_of xs"
    and rep_lst: "rep s xs \<Longrightarrow> lst_el s = last_of xs"
    and rep_sz: "rep s xs \<Longrightarrow> sz s = of_nat (length xs)"
begin

lemma rem_ins_head: "rep s xs \<Longrightarrow> x \<notin> set xs \<Longrightarrow> rep (rem x (ins_head x s)) xs"
  using rep_rem [OF rep_ins_head] by fastforce

lemma rem_first: "rep s (x # xs) \<Longrightarrow> rep (rem x s) xs"
  using rep_rem [of s "x # xs" x] by simp

lemma rem_last: "rep s (xs @ [x]) \<Longrightarrow> rep (rem x s) xs"
  using rep_rem [of s "xs @ [x]" x] rep_distinct [of s "xs @ [x]"]
  by (simp add: remove1_append)

lemma ins_head_all:
  "rep s xs \<Longrightarrow> distinct (rev ys @ xs) \<Longrightarrow> rep (fold ins_head ys s) (rev ys @ xs)"
proof (induction ys arbitrary: s xs)
  case Nil
  then show ?case by simp
next
  case (Cons y ys)
  have "rep (ins_head y s) (y # xs)"
    using Cons.prems by (intro rep_ins_head) auto
  moreover have "distinct (rev ys @ y # xs)"
    using Cons.prems(2) by auto
  ultimately show ?case using Cons.IH by simp
qed

text \<open>First in, first out: after inserting \<open>ys\<close> at the head of an empty list, the last
  element is the first one inserted, and removing it leaves the others in order.\<close>

lemma fifo:
  assumes "rep s []" and "distinct (y # ys)"
  shows "lst_el (fold ins_head (y # ys) s) = Some y"
    and "rep (rem y (fold ins_head (y # ys) s)) (rev ys)"
proof -
  have r: "rep (fold ins_head (y # ys) s) (rev ys @ [y])"
    using ins_head_all [OF assms(1), of "y # ys"] assms(2) by simp
  then show "lst_el (fold ins_head (y # ys) s) = Some y"
    using rep_lst by fastforce
  show "rep (rem y (fold ins_head (y # ys) s)) (rev ys)"
    using r by (rule rem_last)
qed

end

section \<open>Refinement\<close>

lemma first_or_simps [simp]: "first_or [] q = q" "first_or (x # xs) q = Some x"
  by (simp_all add: first_or_def)

lemma last_or_simps [simp]: "last_or p [] = p" "last_or p (x # xs) = last_or (Some x) xs"
  "last_or p (xs @ [x]) = Some x"
  by (simp_all add: last_or_def)

lemma first_or_None: "first_or xs None = first_of xs"
  by (cases xs) auto

lemma first_or_eq_None [simp]: "first_or xs q = None \<longleftrightarrow> xs = [] \<and> q = None"
  by (cases xs) auto

lemma last_or_None: "last_or None xs = last_of xs"
  by (cases xs rule: rev_cases) auto

lemma first_or_append: "first_or (xs @ ys) q = first_or xs (first_or ys q)"
  by (cases xs) auto

lemma last_or_append: "last_or p (xs @ ys) = last_or (last_or p xs) ys"
  by (simp add: last_or_def)

lemma first_of_append: "first_of (xs @ ys) = first_or xs (first_of ys)"
  by (cases xs) auto

lemma last_of_append: "last_of (xs @ ys) = last_or (last_of xs) ys"
  by (cases ys rule: rev_cases) (auto simp: last_of_eq_Some simp flip: append_assoc)

lemma last_or_cong: "last_or p xs = last_or q xs \<longleftrightarrow> xs \<noteq> [] \<or> p = q"
  by (simp add: last_or_def)

lemma dseg_Cons: "dseg st p (x # xs) q \<longleftrightarrow>
    le_prev (st x) = p \<and> le_next (st x) = first_or xs q \<and> dseg st (Some x) xs q"
  by (simp add: first_or_def)

declare dseg.simps(2) [simp del] dseg_Cons [simp]

lemma dseg_append [simp]:
  "dseg st p (xs @ ys) q \<longleftrightarrow> dseg st p xs (first_or ys q) \<and> dseg st (last_or p xs) ys q"
  by (induction xs arbitrary: p) (auto simp: first_or_append)

lemma dseg_cong: "(\<And>x. x \<in> set xs \<Longrightarrow> st x = st' x) \<Longrightarrow> dseg st p xs q = dseg st' p xs q"
  by (induction xs arbitrary: p) auto

lemma dseg_set [simp]:
  "u \<notin> set xs \<Longrightarrow> dseg (set_next u v st) p xs q = dseg st p xs q"
  "u \<notin> set xs \<Longrightarrow> dseg (set_prev u v st) p xs q = dseg st p xs q"
  by (auto simp: set_next_def set_prev_def intro!: dseg_cong)

lemma set_next_sel [simp]:
  "le_next (set_next u v st x) = (if x = u then v else le_next (st x))"
  "le_prev (set_next u v st x) = le_prev (st x)"
  by (simp_all add: set_next_def)

lemma set_prev_sel [simp]:
  "le_prev (set_prev u v st x) = (if x = u then v else le_prev (st x))"
  "le_next (set_prev u v st x) = le_next (st x)"
  by (simp_all add: set_prev_def)

text \<open>Redirecting the two ends of a segment.\<close>

lemma dseg_redirect_last:
  assumes "dseg st p xs q" "distinct xs" "last_or None xs = Some l"
  shows "dseg (set_next l r st) p xs r"
proof -
  obtain ys where xs: "xs = ys @ [l]"
    using assms(3) by (auto simp: last_or_None last_of_eq_Some)
  with assms show ?thesis by simp
qed

lemma dseg_redirect_first:
  assumes "dseg st p xs q" "distinct xs" "first_of xs = Some f"
  shows "dseg (set_prev f r st) r xs q"
  using assms by (auto simp: first_of_eq_Some)

lemma dll_empty: "dll (LIST_INIT h) st []"
  by (simp add: dll_def LIST_INIT_def)

lemma LIST_EMPTY_iff: "dll h st xs \<Longrightarrow> LIST_EMPTY h \<longleftrightarrow> xs = []"
  by (simp add: dll_def LIST_EMPTY_def)

lemma LIST_INSERT_HEAD_dll:
  assumes "dll h st xs" and "x \<notin> set xs" and "LIST_INSERT_HEAD x (h, st) = (h', st')"
  shows "dll h' st' (x # xs)"
proof (cases xs)
  case Nil
  with assms show ?thesis
    by (auto simp: LIST_INSERT_HEAD_def dll_def Let_def)
next
  case (Cons y ys)
  with assms show ?thesis
    by (auto simp: LIST_INSERT_HEAD_def dll_def Let_def)
qed

lemma LIST_INSERT_TAIL_dll:
  assumes "dll h st xs" and "x \<notin> set xs" and "LIST_INSERT_TAIL x (h, st) = (h', st')"
  shows "dll h' st' (xs @ [x])"
proof (cases xs rule: rev_cases)
  case Nil
  with assms show ?thesis
    by (auto simp: LIST_INSERT_TAIL_def dll_def Let_def)
next
  case (snoc ys y)
  with assms show ?thesis
    by (auto simp: LIST_INSERT_TAIL_def dll_def Let_def first_of_append last_of_append)
qed

lemma LIST_INSERT_AFTER_dll:
  assumes "dll h st (us @ e # vs)" and "x \<notin> set (us @ e # vs)"
    and "LIST_INSERT_AFTER e x (h, st) = (h', st')"
  shows "dll h' st' (us @ e # x # vs)"
  using assms
  by (cases vs) (auto simp: LIST_INSERT_AFTER_def dll_def Let_def first_of_append last_of_append)

lemma LIST_INSERT_BEFORE_dll:
  assumes "dll h st (us @ e # vs)" and "x \<notin> set (us @ e # vs)"
    and "LIST_INSERT_BEFORE e x (h, st) = (h', st')"
  shows "dll h' st' (us @ x # e # vs)"
  using assms
  by (cases us rule: rev_cases)
    (auto simp: LIST_INSERT_BEFORE_def dll_def Let_def first_of_append last_of_append)

lemma LIST_REMOVE_split:
  assumes "dll h st (us @ e # vs)" and "LIST_REMOVE e (h, st) = (h', st')"
  shows "dll h' st' (us @ vs)"
  using assms
  by (cases us rule: rev_cases; cases vs)
    (auto simp: LIST_REMOVE_def dll_def Let_def first_of_append last_of_append)

lemma LIST_REMOVE_dll:
  assumes "dll h st xs" and "e \<in> set xs" and "LIST_REMOVE e (h, st) = (h', st')"
  shows "dll h' st' (remove1 e xs)"
proof -
  obtain us vs where xs: "xs = us @ e # vs" "e \<notin> set us"
    using assms(2) by (meson split_list_first)
  then have "remove1 e xs = us @ vs" by (simp add: remove1_append)
  with LIST_REMOVE_split [of h st us e vs h' st'] assms xs show ?thesis by simp
qed

lemma LIST_REMOVE_frame:
  assumes "LIST_REMOVE e (h, st) = (h', st')"
  shows "ptr_next h' = ptr_next h"
  using assms by (auto simp: LIST_REMOVE_def Let_def split: option.splits)

lemma LIST_INSERT_HEAD_frame:
  assumes "LIST_INSERT_HEAD x (h, st) = (h', st')"
  shows "ptr_next h' = ptr_next h"
  using assms by (auto simp: LIST_INSERT_HEAD_def Let_def split: option.splits)

section \<open>Concatenation\<close>

lemma LIST_CONCAT_links:
  assumes "dll h1 st xs" and "dll h2 st ys" and "distinct (xs @ ys)"
    and "LIST_CONCAT (h1, h2, st) = (h1', h2', st')"
  shows "lh_first h1' = first_of (xs @ ys) \<and> lh_last h1' = last_of (xs @ ys) \<and>
         dseg st' None (xs @ ys) None \<and>
         lsize h1' = of_nat (length (if xs = [] then ys else xs))"
proof (cases xs rule: rev_cases)
  case Nil
  with assms show ?thesis by (auto simp: LIST_CONCAT_def dll_def Let_def)
next
  case (snoc us x)
  show ?thesis
  proof (cases ys)
    case Nil
    with snoc assms show ?thesis
      by (auto simp: LIST_CONCAT_def dll_def Let_def first_of_append split: option.splits)
  next
    case (Cons y vs)
    with snoc assms show ?thesis
      by (auto simp: LIST_CONCAT_def dll_def Let_def first_of_append first_or_append
          last_of_append LIST_INIT_def split: option.splits) (simp add: last_or_def)
  qed
qed

section \<open>Iteration\<close>

text \<open>
  The rule for \<open>LIST_FOREACH\<close>: \<open>I rest\<close> holds whenever \<open>rest\<close> is what is left to visit.
  The body may do anything that keeps the saved pointer and establishes \<open>I\<close> for the rest.
\<close>

lemma LIST_FOREACH_rule:
  assumes step: "\<And>x rest h st s. I (x # rest) (h, st, s) \<Longrightarrow> le_next (st x) = first_of rest \<and>
      (case body x (h\<lparr>ptr_next := first_of rest\<rparr>, st, s) of (h', st', s') \<Rightarrow>
        ptr_next h' = first_of rest \<and> I rest (h', st', s'))"
    and stop: "\<And>h st s. I [] (h, st, s) \<Longrightarrow> I [] (h\<lparr>ptr_next := None\<rparr>, st, s)"
    and init: "I xs (h, st, s)" and fuel: "length xs < n"
  shows "\<exists>h' st' s'. LIST_FOREACH n body (first_of xs) (h, st, s) = Some (h', st', s') \<and>
           I [] (h', st', s')"
  using init fuel
proof (induction xs arbitrary: h st s n)
  case Nil
  then obtain m where "n = Suc m" by (cases n) auto
  with Nil stop show ?case by auto
next
  case (Cons x rest)
  then obtain m where n: "n = Suc m" "length rest < m" by (cases n) auto
  obtain h1 st1 s1 where b: "body x (h\<lparr>ptr_next := first_of rest\<rparr>, st, s) = (h1, st1, s1)"
    by (metis prod_cases3)
  have nx: "le_next (st x) = first_of rest" and I1: "I rest (h1, st1, s1)"
    and p1: "ptr_next h1 = first_of rest"
    using step [OF Cons.prems(1)] b by auto
  from Cons.IH [OF I1 n(2)] show ?case
    using b nx p1 n(1) by simp
qed

lemma dll_chain: "dseg st p xs None \<Longrightarrow> chain st xs"
  by (induction xs arbitrary: p) (auto simp: first_or_None)

lemma chain_drop: "chain st (us @ vs) \<Longrightarrow> chain st vs"
  by (induction us) auto

text \<open>A body that only accumulates sees the elements in list order, each once.\<close>

lemma LIST_FOREACH_fold:
  assumes "dll h st xs" and "length xs < n"
  shows "\<exists>h'. LIST_FOREACH n (\<lambda>x (h, st, s). (h, st, f x s)) (first_of xs) (h, st, a) =
           Some (h', st, fold f xs a)"
proof -
  let ?I = "\<lambda>rest (h :: 'a lhead, st', s). st' = st \<and> fold f rest s = fold f xs a \<and> chain st rest"
  have "\<exists>h' st' s'. LIST_FOREACH n (\<lambda>x (h, st, s). (h, st, f x s)) (first_of xs) (h, st, a) =
      Some (h', st', s') \<and> ?I [] (h', st', s')"
    using assms by (intro LIST_FOREACH_rule) (auto simp: dll_def dll_chain)
  then show ?thesis by auto
qed

text \<open>
  Moving the visited element to another list, as \<open>sched_run_all\<close> and \<open>env_free\<close> do: although
  the insertion overwrites the links of the current element, every element is visited, the
  first list ends empty and the second one has them in reverse order of the visit.
\<close>

definition move_body ::
  "'p \<Rightarrow> 'p lhead \<times> 'p store \<times> 'p lhead \<Rightarrow> 'p lhead \<times> 'p store \<times> 'p lhead" where
  "move_body v = (\<lambda>(h, st, h2).
     let (h, st) = LIST_REMOVE v (h, st);
         (h2, st) = LIST_INSERT_HEAD v (h2, st)
     in (h, st, h2))"

lemma dseg_in: "dseg st p xs q \<Longrightarrow> x \<in> set xs \<Longrightarrow>
    (le_prev (st x) = p \<or> (\<exists>u \<in> set xs. le_prev (st x) = Some u)) \<and>
    (le_next (st x) = q \<or> (\<exists>u \<in> set xs. le_next (st x) = Some u))"
proof (induction xs arbitrary: p)
  case Nil
  then show ?case by simp
next
  case (Cons y ys)
  show ?case
  proof (cases "x = y")
    case True
    with Cons.prems show ?thesis by (cases ys) auto
  next
    case False
    with Cons.prems have "dseg st (Some y) ys q" "x \<in> set ys" by auto
    from Cons.IH [OF this] show ?thesis by auto
  qed
qed

lemma set_other [simp]:
  "z \<noteq> u \<Longrightarrow> set_next u v st z = st z" "z \<noteq> u \<Longrightarrow> set_prev u v st z = st z"
  by (simp_all add: set_next_def set_prev_def)

lemma LIST_REMOVE_frame_store:
  assumes "dll h st xs" and "e \<in> set xs" and "LIST_REMOVE e (h, st) = (h', st')" and "z \<notin> set xs"
  shows "st' z = st z"
proof -
  have "dseg st None xs None" using assms(1) by (simp add: dll_def)
  from dseg_in [OF this assms(2)] have n: "le_next (st e) \<noteq> Some z" "le_prev (st e) \<noteq> Some z"
    using assms(4) by auto
  have "z \<noteq> e" using assms(2,4) by auto
  with assms(3) n show ?thesis
    by (auto simp: LIST_REMOVE_def Let_def split: option.splits if_splits)
qed

lemma LIST_INSERT_HEAD_frame_store:
  assumes "dll h st xs" and "LIST_INSERT_HEAD x (h, st) = (h', st')" and "z \<notin> set xs" and "z \<noteq> x"
  shows "st' z = st z"
  using assms by (cases xs)
    (auto simp: LIST_INSERT_HEAD_def Let_def dll_def)

lemma dll_cong_store:
  "dll h st xs \<Longrightarrow> (\<And>x. x \<in> set xs \<Longrightarrow> st' x = st x) \<Longrightarrow> dll h st' xs"
  using dseg_cong [of xs st' st None None] by (simp add: dll_def)

lemma dll_ptr_next [simp]: "dll (h\<lparr>ptr_next := v\<rparr>) st xs = dll h st xs"
  by (simp add: dll_def)

lemma move_body_dll:
  assumes "dll h st (x # rest)" and "dll h2 st ys" and "set (x # rest) \<inter> set ys = {}"
    and "move_body x (h, st, h2) = (h', st', h2')"
  shows "dll h' st' rest" "dll h2' st' (x # ys)" "ptr_next h' = ptr_next h"
proof -
  obtain g st1 where r: "LIST_REMOVE x (h, st) = (g, st1)" by fastforce
  obtain g2 st2 where i: "LIST_INSERT_HEAD x (h2, st1) = (g2, st2)" by fastforce
  have eq: "h' = g" "st' = st2" "h2' = g2"
    using assms(4) r i by (auto simp: move_body_def)
  have rest: "dll g st1 rest"
    using LIST_REMOVE_split [of h st "[]" x rest g st1] assms(1) r by simp
  have ys: "dll h2 st1 ys"
  proof (rule dll_cong_store [OF assms(2)])
    fix z assume "z \<in> set ys"
    with assms(3) have "z \<notin> set (x # rest)" by auto
    then show "st1 z = st z" using LIST_REMOVE_frame_store [OF assms(1) _ r] by simp
  qed
  have xr: "x \<notin> set rest" using assms(1) by (simp add: dll_def)
  show "dll h' st' rest"
    unfolding eq
  proof (rule dll_cong_store [OF rest])
    fix z assume "z \<in> set rest"
    with assms(3) xr show "st2 z = st1 z"
      by (intro LIST_INSERT_HEAD_frame_store [OF ys i]) auto
  qed
  show "dll h2' st' (x # ys)"
    unfolding eq using ys i assms(3) by (intro LIST_INSERT_HEAD_dll) auto
  show "ptr_next h' = ptr_next h"
    unfolding eq by (rule LIST_REMOVE_frame [OF r])
qed

lemma LIST_FOREACH_move_lemma:
  assumes "dll h st xs" and "dll h2 st ys" and "set xs \<inter> set ys = {}" and "length xs < n"
  shows "\<exists>h' st' h2'. LIST_FOREACH n move_body (first_of xs) (h, st, h2) = Some (h', st', h2') \<and>
           dll h' st' [] \<and> dll h2' st' (rev xs @ ys)"
proof -
  let ?I = "\<lambda>rest (h :: 'a lhead, st, h2). dll h st rest \<and>
     (\<exists>us. xs = us @ rest \<and> dll h2 st (rev us @ ys) \<and> set rest \<inter> set (rev us @ ys) = {})"
  have "\<exists>h' st' h2'. LIST_FOREACH n move_body (first_of xs) (h, st, h2) = Some (h', st', h2') \<and>
     ?I [] (h', st', h2')"
  proof (rule LIST_FOREACH_rule)
    fix x rest h st h2
    assume "?I (x # rest) (h, st, h2)"
    then obtain us where I: "dll h st (x # rest)" "xs = us @ x # rest" "dll h2 st (rev us @ ys)"
      "set (x # rest) \<inter> set (rev us @ ys) = {}" by auto
    obtain h1 st1 h21 where b: "move_body x (h\<lparr>ptr_next := first_of rest\<rparr>, st, h2) = (h1, st1, h21)"
      by (metis prod_cases3)
    have nx: "x \<notin> set rest" "le_next (st x) = first_of rest"
      using I(1) by (simp_all add: dll_def first_or_None)
    have m: "dll h1 st1 rest" "dll h21 st1 (x # rev us @ ys)" "ptr_next h1 = first_of rest"
      using move_body_dll [OF _ I(3,4) b] I(1) by simp_all
    then show "le_next (st x) = first_of rest \<and>
      (case move_body x (h\<lparr>ptr_next := first_of rest\<rparr>, st, h2) of (h', st', s') \<Rightarrow>
        ptr_next h' = first_of rest \<and> ?I rest (h', st', s'))"
      using b nx I(2,4) by (auto intro!: exI [of _ "us @ [x]"])
  qed (use assms in \<open>auto intro!: exI [of _ "[]"]\<close>)
  then show ?thesis by auto
qed

section \<open>Interpretations of the contract\<close>

text \<open>The macros on head and store satisfy it, and so do the plain lists the kernel models use.\<close>

interpretation ptr: intrusive_list "\<lambda>s xs. dll (fst s) (snd s) xs" LIST_INSERT_HEAD
  LIST_INSERT_TAIL LIST_REMOVE "\<lambda>s. lh_first (fst s)" "\<lambda>s. lh_last (fst s)" "\<lambda>s. lsize (fst s)"
proof unfold_locales
  fix s :: "'p lhead \<times> 'p store" and xs :: "'p list" and x
  assume r: "dll (fst s) (snd s) xs"
  show "distinct xs" "lh_first (fst s) = first_of xs" "lh_last (fst s) = last_of xs"
    "lsize (fst s) = of_nat (length xs)" using r by (simp_all add: dll_def)
  show "x \<notin> set xs \<Longrightarrow> dll (fst (LIST_INSERT_HEAD x s)) (snd (LIST_INSERT_HEAD x s)) (x # xs)"
    using LIST_INSERT_HEAD_dll [OF r, of x] by (cases s) (metis prod.collapse)
  show "x \<notin> set xs \<Longrightarrow> dll (fst (LIST_INSERT_TAIL x s)) (snd (LIST_INSERT_TAIL x s)) (xs @ [x])"
    using LIST_INSERT_TAIL_dll [OF r, of x] by (cases s) (metis prod.collapse)
  show "x \<in> set xs \<Longrightarrow> dll (fst (LIST_REMOVE x s)) (snd (LIST_REMOVE x s)) (remove1 x xs)"
    using LIST_REMOVE_dll [OF r, of x] by (cases s) (metis prod.collapse)
qed

interpretation abs_list: intrusive_list "\<lambda>s xs. s = xs \<and> distinct xs" "(#)" "\<lambda>x xs. xs @ [x]"
  remove1 first_of last_of "\<lambda>xs. of_nat (length xs)"
  by unfold_locales auto

section \<open>Properties\<close>

text \<open>A concrete list for the witnesses: 1, 2, 3 pushed at the head of an empty list.\<close>

definition null_links :: "nat link" where
  "null_links = \<lparr>le_next = None, le_prev = None\<rparr>"

definition empty_head :: "nat lhead" where
  "empty_head = \<lparr>lh_first = None, lh_last = None, ptr_next = None, lsize = 0\<rparr>"

definition list321 :: "nat lhead \<times> nat store" where
  "list321 = fold LIST_INSERT_HEAD [1, 2, 3] (empty_head, \<lambda>_. null_links)"

lemma empty_head_dll: "dll empty_head st []"
  by (simp add: dll_def empty_head_def)

lemma list321_dll: "dll (fst list321) (snd list321) [3, 2, 1]"
  using ptr.ins_head_all [of "(empty_head, \<lambda>_. null_links)" "[]" "[1, 2, 3]"]
  by (simp add: list321_def empty_head_dll)

text \<open>
  C6: \<open>LIST_REMOVE\<close> of any member of a well linked list leaves a well linked list of the
  other members in their order, with the size counted down; it clears the links of the removed
  element, keeps the saved loop position of the head and touches no object outside the list.
\<close>

theorem LIST_REMOVE_refines:
  assumes "dll h st xs" and "e \<in> set xs" and "LIST_REMOVE e (h, st) = (h', st')"
  shows "dll h' st' (remove1 e xs) \<and> lsize h' = lsize h - 1 \<and>
    le_next (st' e) = None \<and> le_prev (st' e) = None \<and> ptr_next h' = ptr_next h \<and>
    (\<forall>z. z \<notin> set xs \<longrightarrow> st' z = st z)"
proof -
  have "lsize h' = lsize h - 1 \<and> le_next (st' e) = None \<and> le_prev (st' e) = None"
    using assms(3) by (auto simp: LIST_REMOVE_def Let_def split: option.splits)
  then show ?thesis
    using LIST_REMOVE_dll [OF assms] LIST_REMOVE_frame [OF assms(3)]
      LIST_REMOVE_frame_store [OF assms] by blast
qed

theorem LIST_REMOVE_refines_witness:
  "dll (fst (LIST_REMOVE 2 list321)) (snd (LIST_REMOVE 2 list321)) [3, 1]"
  using LIST_REMOVE_refines [OF list321_dll, of 2 "fst (LIST_REMOVE 2 list321)"
      "snd (LIST_REMOVE 2 list321)"] by simp

text \<open>
  C31: a \<open>LIST_FOREACH\<close> loop whose body removes the visited element and inserts it into
  another list ends, visits every element and moves them all: the first list is empty
  afterwards and the second one holds them in reverse order before its own elements.
\<close>

theorem LIST_FOREACH_moves_all:
  assumes "dll h st xs" and "dll h2 st ys" and "set xs \<inter> set ys = {}" and "length xs < n"
  shows "\<exists>h' st' h2'. LIST_FOREACH n move_body (lh_first h) (h, st, h2) = Some (h', st', h2') \<and>
           dll h' st' [] \<and> dll h2' st' (rev xs @ ys)"
  using LIST_FOREACH_move_lemma [OF assms] assms(1) by (simp add: dll_def)

theorem LIST_FOREACH_moves_all_witness:
  "\<exists>h' st' h2'. LIST_FOREACH 4 move_body (Some 3) (fst list321, snd list321, empty_head) =
      Some (h', st', h2') \<and> dll h' st' [] \<and> dll h2' st' [1, 2, 3]"
proof -
  have "lh_first (fst list321) = Some 3" using list321_dll by (simp add: dll_def)
  then show ?thesis
    using LIST_FOREACH_moves_all [OF list321_dll empty_head_dll, of 4] by simp
qed

text \<open>\<open>LIST_CONCAT\<close> links the two lists correctly, but the recorded size is right only when
  one of them is empty: otherwise the size of the second list is lost, because the macro resets
  it before it adds it.
\<close>

theorem LIST_CONCAT_loses_size:
  assumes "dll h1 st xs" and "dll h2 st ys" and "distinct (xs @ ys)"
    and "LIST_CONCAT (h1, h2, st) = (h1', h2', st')"
  shows "dseg st' None (xs @ ys) None \<and> lh_first h1' = first_of (xs @ ys) \<and>
    lh_last h1' = last_of (xs @ ys) \<and>
    lsize h1' = of_nat (if xs = [] then length ys else length xs)"
  using LIST_CONCAT_links [OF assms] by (auto split: if_splits)

theorem LIST_CONCAT_loses_size_witness:
  "\<exists>st. lsize (fst (LIST_CONCAT (fst list321, fst (LIST_INSERT_HEAD 7 (empty_head, st)), st))) = 3
     \<and> dll (fst list321) st [3, 2, 1]"
proof -
  obtain h2 st2 where i: "LIST_INSERT_HEAD 7 (empty_head, snd list321) = (h2, st2)" by fastforce
  have d2: "dll h2 st2 [7]" using LIST_INSERT_HEAD_dll [OF empty_head_dll _ i] by simp
  have d1: "dll (fst list321) st2 [3, 2, 1]"
    using list321_dll LIST_INSERT_HEAD_frame_store [OF empty_head_dll i]
    by (rule dll_cong_store) auto
  have h2: "fst (LIST_INSERT_HEAD 7 (empty_head, st2)) = h2"
    using i by (simp add: LIST_INSERT_HEAD_def empty_head_def Let_def)
  obtain a b c where c: "LIST_CONCAT (fst list321, h2, st2) = (a, b, c)" by (metis prod_cases3)
  show ?thesis
    using LIST_CONCAT_loses_size [OF d1 d2 _ c] d1 c h2 by (intro exI [of _ st2]) simp
qed

text \<open>Queue discipline at pointer level. After the elements \<open>y, ys\<close> were inserted at the head
  of an empty list, \<open>LIST_LAST\<close> is the first one inserted, and removing it leaves the
  others queued in the same order.
\<close>

theorem list_queue_fifo:
  assumes "dll h st []" and "distinct (y # ys)"
    and "fold LIST_INSERT_HEAD (y # ys) (h, st) = (h', st')"
  shows "lh_last h' = Some y \<and>
    dll (fst (LIST_REMOVE y (h', st'))) (snd (LIST_REMOVE y (h', st'))) (rev ys)"
  using ptr.fifo [of "(h, st)" y ys] assms by simp

theorem list_queue_fifo_witness: "lh_last (fst list321) = Some 1"
  using list_queue_fifo [OF empty_head_dll, of 1 "[2, 3]" "\<lambda>_. null_links" "fst list321"
      "snd list321"] by (simp add: list321_def)

end
