(* ===== verification/Mmu.thy ===== *)
theory Mmu
  imports Prelude
begin

text \<open>
  The address arithmetic of \<^verbatim>\<open>inc/mmu.h\<close>, \<^verbatim>\<open>inc/types.h\<close>, \<^verbatim>\<open>inc/memlayout.h\<close> and
  \<^verbatim>\<open>kern/helpers.h\<close>: the decomposition of a linear address into directory index, table index
  and offset, the rounding macros, page table entries and their permission bits, and the layout
  constants of the virtual address space. Addresses and entries are 32-bit words, so the
  wrap-around of \<open>ROUNDUP\<close> at the top of the address space is part of the model.
\<close>

section \<open>Definitions\<close>

subsection \<open>Constants\<close>

definition PAGE_SIZE :: uint32 where "PAGE_SIZE = 4096"
definition PTSIZE :: uint32 where "PTSIZE = PAGE_SIZE * 1024"

definition PERM_PRESENT :: uint32 where "PERM_PRESENT = 0x001"
definition PERM_WRITEABLE :: uint32 where "PERM_WRITEABLE = 0x002"
definition PERM_USER :: uint32 where "PERM_USER = 0x004"
definition PERM_USED :: uint32 where "PERM_USED = 0x020"
definition PERM_MODIFIED :: uint32 where "PERM_MODIFIED = 0x040"
definition PERM_BUFFERED :: uint32 where "PERM_BUFFERED = 0x200"
definition PERM_AVAILABLE :: uint32 where "PERM_AVAILABLE = 0xE00"

definition KERNEL_BASE :: uint32 where "KERNEL_BASE = 0xF0000000"
definition PHYS_IO_MEM :: uint32 where "PHYS_IO_MEM = 0x0A0000"
definition PHYS_EXTENDED_MEM :: uint32 where "PHYS_EXTENDED_MEM = 0x100000"
definition VPT :: uint32 where "VPT = KERNEL_BASE - PTSIZE"
definition KERNEL_STACK_TOP :: uint32 where "KERNEL_STACK_TOP = VPT"
definition KERNEL_STACK_SIZE :: uint32 where "KERNEL_STACK_SIZE = 8 * PAGE_SIZE"
definition USER_LIMIT :: uint32 where "USER_LIMIT = KERNEL_STACK_TOP - PTSIZE"
definition UVPT :: uint32 where "UVPT = USER_LIMIT - PTSIZE"
definition UENVS :: uint32 where "UENVS = UVPT - 2 * PTSIZE"
definition USER_TOP :: uint32 where "USER_TOP = UENVS"
definition USTACKTOP :: uint32 where "USTACKTOP = USER_TOP - 2 * PAGE_SIZE"
definition USER_HEAP_START :: uint32 where "USER_HEAP_START = 0x80000000"
definition USER_HEAP_MAX :: uint32 where "USER_HEAP_MAX = 0xA0000000"

subsection \<open>Decomposition of a linear address\<close>

definition PPN :: "uint32 \<Rightarrow> uint32" where
  "PPN la = drop_bit 12 la"

definition PDX :: "uint32 \<Rightarrow> uint32" where
  "PDX la = drop_bit 22 la AND 0x3FF"

definition PTX :: "uint32 \<Rightarrow> uint32" where
  "PTX la = drop_bit 12 la AND 0x3FF"

definition PGOFF :: "uint32 \<Rightarrow> uint32" where
  "PGOFF la = la AND 0xFFF"

definition PGADDR :: "uint32 \<Rightarrow> uint32 \<Rightarrow> uint32 \<Rightarrow> uint32" where
  "PGADDR d t off = push_bit 22 d OR push_bit 12 t OR off"

subsection \<open>Rounding\<close>

definition ROUNDDOWN :: "uint32 \<Rightarrow> uint32 \<Rightarrow> uint32" where
  "ROUNDDOWN a n = a - a mod n"

definition ROUNDUP :: "uint32 \<Rightarrow> uint32 \<Rightarrow> uint32" where
  "ROUNDUP a n = ROUNDDOWN (a + n - 1) n"

text \<open>
  \<open>sizeof(struct WorkingSetElement)\<close> is 16: address, flag with padding, two links. The C
  expression \<open>16 * USER_TOP / PAGE_SIZE\<close> multiplies first, in 32 bits, and so wraps.
\<close>

definition USER_PAGES_WS_MAX :: uint32 where
  "USER_PAGES_WS_MAX = USER_HEAP_MAX + (16 * USER_TOP) div PAGE_SIZE"

definition USTACKBOTTOM :: uint32 where
  "USTACKBOTTOM = ROUNDUP USER_PAGES_WS_MAX PAGE_SIZE"

subsection \<open>Page table entries\<close>

definition EXTRACT_ADDRESS :: "uint32 \<Rightarrow> uint32" where
  "EXTRACT_ADDRESS entry = entry AND NOT 0xFFF"

definition CONSTRUCT_ENTRY :: "uint32 \<Rightarrow> uint32 \<Rightarrow> uint32" where
  "CONSTRUCT_ENTRY phys_frame_address permissions = phys_frame_address OR permissions"

definition CHECK_IF_KERNEL_ADDRESS :: "uint32 \<Rightarrow> bool" where
  "CHECK_IF_KERNEL_ADDRESS virtual_address \<longleftrightarrow>
     USER_TOP \<le> virtual_address \<and> virtual_address \<le> 0xFFFFFFFF"

text \<open>\<open>present e\<close> is the test \<open>(e & PERM_PRESENT) == PERM_PRESENT\<close> of the code.\<close>

definition present :: "uint32 \<Rightarrow> bool" where
  "present e \<longleftrightarrow> e AND PERM_PRESENT = PERM_PRESENT"

text \<open>The indexes as naturals, for use as array subscripts.\<close>

definition pdx :: "uint32 \<Rightarrow> nat" where "pdx la = unat (PDX la)"
definition ptx :: "uint32 \<Rightarrow> nat" where "ptx la = unat (PTX la)"

section \<open>Arithmetic of the macros\<close>

lemmas layout_defs = PAGE_SIZE_def PTSIZE_def KERNEL_BASE_def VPT_def KERNEL_STACK_TOP_def
  KERNEL_STACK_SIZE_def USER_LIMIT_def UVPT_def UENVS_def USER_TOP_def USTACKTOP_def
  USER_HEAP_START_def USER_HEAP_MAX_def PHYS_IO_MEM_def PHYS_EXTENDED_MEM_def

lemmas perm_defs = PERM_PRESENT_def PERM_WRITEABLE_def PERM_USER_def PERM_USED_def
  PERM_MODIFIED_def PERM_BUFFERED_def PERM_AVAILABLE_def

declare layout_defs [fos_defs] perm_defs [fos_defs]

lemma mask_10_eq: "(0x3FF :: uint32) = mask 10"
  by (simp add: mask_eq_exp_minus_1)

lemma mask_12_eq: "(0xFFF :: uint32) = mask 12"
  by (simp add: mask_eq_exp_minus_1)

lemma unat_PPN: "unat (PPN la) = unat la div 2 ^ 12"
  by (simp add: PPN_def unat_drop_bit)

lemma unat_PGOFF: "unat (PGOFF la) = unat la mod 2 ^ 12"
  unfolding PGOFF_def mask_12_eq by (rule unat_and_mask)

lemma unat_PTX: "unat (PTX la) = unat la div 2 ^ 12 mod 2 ^ 10"
  unfolding PTX_def mask_10_eq unat_and_mask unat_drop_bit ..

lemma unat_PDX: "unat (PDX la) = unat la div 2 ^ 22"
proof -
  have "unat la < 2 ^ 32" using unsigned_less [of la] by simp
  then have "unat la div 2 ^ 22 < 2 ^ 10" by simp
  then show ?thesis
    unfolding PDX_def mask_10_eq unat_and_mask unat_drop_bit by simp
qed

lemma pdx_less [simp]: "pdx la < 1024"
proof -
  have "unat la < 2 ^ 32" using unsigned_less [of la] by simp
  then show ?thesis by (simp add: pdx_def unat_PDX)
qed

lemma ptx_less [simp]: "ptx la < 1024"
  by (simp add: ptx_def unat_PTX)

lemma PGADDR_decompose:
  "PGADDR (PDX la) (PTX la) (PGOFF la) = la"
proof (rule bit_word_eqI)
  fix n assume n: "n < LENGTH(32)"
  consider "n < 12" | "12 \<le> n" "n < 22" | "22 \<le> n" by linarith
  then show "bit (PGADDR (PDX la) (PTX la) (PGOFF la)) n = bit la n"
    using n by cases (auto simp: PGADDR_def PDX_def PTX_def PGOFF_def mask_10_eq mask_12_eq bit_simps)
qed

lemma unat_ROUNDDOWN: "unat (ROUNDDOWN a n) = unat a - unat a mod unat n"
proof -
  have "unat (a mod n) \<le> unat a" by (simp add: unat_mod)
  then have "unat (a - a mod n) = unat a - unat (a mod n)"
    by (simp add: unat_sub word_le_nat_alt)
  then show ?thesis by (simp add: ROUNDDOWN_def unat_mod)
qed

lemma ROUNDDOWN_le: "ROUNDDOWN a n \<le> a"
  by (simp add: word_le_nat_alt unat_ROUNDDOWN)

lemma ROUNDDOWN_multiple: "unat n dvd unat (ROUNDDOWN a n)"
  by (simp add: unat_ROUNDDOWN minus_mod_eq_mult_div)

lemma ROUNDDOWN_gap: "0 < n \<Longrightarrow> unat a < unat (ROUNDDOWN a n) + unat n"
proof -
  assume "0 < n"
  then have "unat a mod unat n < unat n" by (simp add: unat_gt_0)
  then show ?thesis using mod_less_eq_dividend [of "unat a" "unat n"] unfolding unat_ROUNDDOWN by linarith
qed

lemma ROUNDDOWN_idem: "unat n dvd unat a \<Longrightarrow> ROUNDDOWN a n = a"
  by (simp add: word_unat_eq_iff unat_ROUNDDOWN)

lemma unat_ROUNDUP:
  assumes "0 < n" and "unat a + unat n \<le> 2 ^ 32"
  shows "unat (ROUNDUP a n) = (unat a + unat n - 1) div unat n * unat n"
proof -
  have n: "0 < unat n" using assms(1) by (simp add: unat_gt_0)
  have "unat (a + n - 1) = unat a + unat n - 1"
  proof -
    have e: "a + n - 1 = of_nat (unat a + unat n - 1)"
      using n by (simp add: of_nat_diff)
    show ?thesis
      unfolding e unsigned_of_nat of_nat_id by (rule take_bit_nat_eq_self) (use assms(2) n in simp)
  qed
  then show ?thesis
    by (simp add: ROUNDUP_def unat_ROUNDDOWN minus_mod_eq_div_mult)
qed

lemma ROUNDUP_bounds:
  assumes "0 < n" and "unat a + unat n \<le> 2 ^ 32"
  shows "unat n dvd unat (ROUNDUP a n)" "unat a \<le> unat (ROUNDUP a n)"
    "unat (ROUNDUP a n) < unat a + unat n"
proof -
  have n: "0 < unat n" using assms(1) by (simp add: unat_gt_0)
  let ?q = "(unat a + unat n - 1) div unat n"
  have e: "unat (ROUNDUP a n) = ?q * unat n" by (rule unat_ROUNDUP [OF assms])
  then show "unat n dvd unat (ROUNDUP a n)" by simp
  have "unat a + unat n - 1 = ?q * unat n + (unat a + unat n - 1) mod unat n"
    by simp
  moreover have "(unat a + unat n - 1) mod unat n < unat n" using n by simp
  ultimately show "unat a \<le> unat (ROUNDUP a n)" "unat (ROUNDUP a n) < unat a + unat n"
    unfolding e using n by linarith+
qed

section \<open>Entries\<close>

lemma EXTRACT_CONSTRUCT:
  assumes "PGOFF pa = 0" and "perm AND NOT 0xFFF = 0"
  shows "EXTRACT_ADDRESS (CONSTRUCT_ENTRY pa perm) = pa"
proof (rule bit_word_eqI)
  fix n assume n: "n < LENGTH(32)"
  have a: "\<And>k. bit (pa AND 0xFFF) k = False" using assms(1) by (simp add: PGOFF_def)
  have b: "\<And>k. bit (perm AND NOT 0xFFF) k = False" using assms(2) by simp
  show "bit (EXTRACT_ADDRESS (CONSTRUCT_ENTRY pa perm)) n = bit pa n"
    using a [of n] b [of n] n
    by (auto simp: EXTRACT_ADDRESS_def CONSTRUCT_ENTRY_def bit_simps)
qed

lemma EXTRACT_le: "EXTRACT_ADDRESS e \<le> e"
  by (simp add: EXTRACT_ADDRESS_def word_and_le2)

lemma PGOFF_EXTRACT [simp]: "PGOFF (EXTRACT_ADDRESS e) = 0"
  by (rule bit_word_eqI) (auto simp: EXTRACT_ADDRESS_def PGOFF_def bit_simps)

lemma PPN_EXTRACT [simp]: "PPN (EXTRACT_ADDRESS e) = PPN e"
  by (rule bit_word_eqI)
    (auto simp: EXTRACT_ADDRESS_def PPN_def mask_12_eq bit_simps dest: bit_imp_le_length)

lemma present_iff_bit: "present e \<longleftrightarrow> bit e 0"
proof -
  have "present e \<longleftrightarrow> e AND 1 = 1" by (simp add: present_def PERM_PRESENT_def)
  also have "\<dots> \<longleftrightarrow> bit e 0" by (simp add: and_one_eq bit_0 odd_iff_mod_2_eq_one)
  finally show ?thesis .
qed

lemma present_0 [simp]: "\<not> present 0"
  by (simp add: present_iff_bit)

lemma present_CONSTRUCT [simp]: "present (CONSTRUCT_ENTRY pa (perm OR PERM_PRESENT))"
  by (simp add: present_iff_bit CONSTRUCT_ENTRY_def bit_simps PERM_PRESENT_def)

section \<open>Properties\<close>

text \<open>
  An address is the \<open>PGADDR\<close> of its own directory index, table index and page offset;
  the two indexes are valid subscripts and \<open>PPN\<close> is the two of them put together.
\<close>

theorem PGADDR_roundtrip:
  "PGADDR (PDX la) (PTX la) (PGOFF la) = la \<and> pdx la < 1024 \<and> ptx la < 1024 \<and>
   unat (PPN la) = pdx la * 1024 + ptx la"
proof -
  have "unat la div 2 ^ 12 = unat la div 2 ^ 12 div 2 ^ 10 * 2 ^ 10 + unat la div 2 ^ 12 mod 2 ^ 10"
    by (rule div_mult_mod_eq [symmetric])
  then have "unat (PPN la) = pdx la * 1024 + ptx la"
    by (simp add: pdx_def ptx_def unat_PPN unat_PDX unat_PTX flip: div_mult2_eq)
  then show ?thesis by (simp add: PGADDR_decompose)
qed

text \<open>
  below the last page of the address space \<open>ROUNDUP\<close> gives the least multiple of the
  size that is not below the address; in the last page it wraps around to 0.
\<close>

theorem ROUNDUP_least:
  assumes "0 < n" and "unat a + unat n \<le> 2 ^ 32"
  shows "unat n dvd unat (ROUNDUP a n) \<and> unat a \<le> unat (ROUNDUP a n) \<and>
    (\<forall>m. unat n dvd m \<longrightarrow> unat a \<le> m \<longrightarrow> unat (ROUNDUP a n) \<le> m) \<and>
    ROUNDUP 0xFFFFF001 PAGE_SIZE = 0"
proof -
  note b = ROUNDUP_bounds [OF assms]
  have "unat (ROUNDUP a n) \<le> m" if "unat n dvd m" "unat a \<le> m" for m
  proof (rule ccontr)
    assume "\<not> unat (ROUNDUP a n) \<le> m"
    then have less: "m < unat (ROUNDUP a n)" by simp
    have "unat n dvd unat (ROUNDUP a n) - m" using b(1) that(1) by (rule dvd_diff_nat)
    then have "unat n \<le> unat (ROUNDUP a n) - m" using less by (intro dvd_imp_le) simp_all
    then show False using b(3) that(2) less by linarith
  qed
  moreover have "ROUNDUP 0xFFFFF001 PAGE_SIZE = 0"
    by (simp add: ROUNDUP_def ROUNDDOWN_def PAGE_SIZE_def)
  ultimately show ?thesis using b by blast
qed

theorem ROUNDUP_least_witness: "4096 dvd unat (ROUNDUP 5000 PAGE_SIZE)"
  using ROUNDUP_least [of PAGE_SIZE 5000] by (simp add: PAGE_SIZE_def)

end
