(* ===== verification/Kernel_State.thy ===== *)
theory Kernel_State
  imports Mmu
begin

text \<open>
  The state of the kernel as one record, and the records of the structures it holds:
  \<open>Frame_Info\<close> and \<open>Trapframe\<close> and \<open>Env\<close> (\<^verbatim>\<open>inc/memlayout.h\<close>, \<^verbatim>\<open>inc/trap.h\<close>,
  \<^verbatim>\<open>inc/environment_definitions.h\<close>), \<open>Share\<close> and \<open>Semaphore\<close>. Pointers into the arrays
  \<open>frames_info\<close>, \<open>envs\<close> and \<open>ptr_pageWorkingSet\<close> are indexes, a kernel pointer to a physical
  frame (a page directory, a page table) is the frame number, and a null pointer is \<open>None\<close>.
  \<open>pmem f i\<close> is the \<open>i\<close>-th 32-bit word of frame \<open>f\<close>, \<open>disk d i\<close> that of disk sector \<open>d\<close>.
  The kernel lists are the lists of their members; insertion and removal outside the contract of
  the list macros (inserting a member again, removing a non-member), which in C corrupts the
  links, is the halt reason \<open>ListMisuse\<close>.
\<close>

section \<open>Records\<close>

record frame_info =
  references :: uint16
  fi_va :: uint32
  fi_env :: "nat option"    \<comment> \<open>\<open>environment\<close>\<close>
  isBuffered :: uint8

record ws_element =
  ws_va :: uint32           \<comment> \<open>\<open>virtual_address\<close>\<close>
  ws_empty :: uint8         \<comment> \<open>\<open>empty\<close>\<close>

record trapframe =
  reg_edi :: uint32
  reg_esi :: uint32
  reg_ebp :: uint32
  reg_oesp :: uint32
  reg_ebx :: uint32
  reg_edx :: uint32
  reg_ecx :: uint32
  reg_eax :: uint32
  tf_es :: uint16
  tf_ds :: uint16
  tf_trapno :: uint32
  tf_err :: uint32
  tf_eip :: uint32
  tf_cs :: uint16
  tf_eflags :: uint32
  tf_esp :: uint32
  tf_ss :: uint16

record env =
  env_tf :: trapframe
  env_id :: uint32
  env_parent_id :: uint32
  env_status :: uint32
  env_runs :: uint32
  env_page_directory :: "nat option"
  env_cr3 :: uint32
  disk_env_pgdir :: "nat option"
  disk_env_pgdir_PA :: uint32
  disk_env_tabledir :: "nat option"
  disk_env_tabledir_PA :: uint32
  page_WS_max_size :: nat
  ptr_pageWorkingSet :: "nat \<Rightarrow> ws_element"
  ptr_tws :: "nat \<Rightarrow> ws_element"   \<comment> \<open>\<open>__ptr_tws\<close>\<close>
  page_last_WS_index :: nat
  table_last_WS_index :: nat
  pageFaultsCounter :: uint32
  tableFaultsCounter :: uint32
  freeingFullWSCounter :: uint32
  freeingScarceMemCounter :: uint32
  nModifiedPages :: uint32
  nNotModifiedPages :: uint32
  nPageIn :: uint32
  nPageOut :: uint32
  prog_name :: string
  uptr_pws :: uint32        \<comment> \<open>\<open>__uptr_pws\<close>\<close>
  percentage_of_WS_pages_to_be_removed :: uint32
  nClocks :: uint32
  priority :: int
  PageWorkingSetList :: "nat list"
  ActiveList :: "nat list"
  SecondList :: "nat list"
  ActiveListSize :: int
  SecondListSize :: int

record share =
  sh_ownerID :: uint32
  sh_name :: string
  sh_size :: uint32
  sh_references :: uint32
  sh_isWritable :: uint8
  sh_empty :: uint8

text \<open>
  The array \<open>framesStorage[1024]\<close> of a share is used as a page directory; it is the memory page
  with index \<open>share_storage i\<close>, outside the frames of the machine.
\<close>

definition share_storage :: "nat \<Rightarrow> nat" where
  "share_storage i = 2 ^ 20 + i"

record semaphore =
  sem_ownerID :: uint32
  sem_name :: string
  sem_queue :: "nat list"
  sem_value :: int
  sem_empty :: uint8

text \<open>Global switches that only steer other code.\<close>

record config =
  PageRepAlgoType :: uint32
  EnableModifiedBuffer :: uint32
  EnableBuffering :: uint32
  ModifiedBufferLength :: uint32
  UHeapPlacementStrategy :: uint32
  KHeapPlacementStrategy :: uint32
  memory_scarce_threshold_percentage :: uint32
  bypassInstrLength :: uint8
  tstcnt :: uint32

text \<open>The timer as the kernel sees it: the value counter 0 reads, the last mode written, the
  interrupt mask of the kernel and the mask programmed into the two controllers.\<close>

record timer =
  cnt0 :: uint16
  timer_mode :: uint8
  irq_mask_8259A :: uint16
  pic_mask :: uint16
  didinit :: bool

text \<open>The state of the scheduler checks of \<^verbatim>\<open>kern/utilities.c\<close>.\<close>

record sched_check =
  chkstatus :: uint8
  chk_pe :: "nat option"    \<comment> \<open>\<open>__pe\<close>\<close>
  chk_ne :: "nat option"    \<comment> \<open>\<open>__ne\<close>\<close>
  chk_pl :: nat             \<comment> \<open>\<open>__pl\<close>\<close>
  chk_nl :: nat             \<comment> \<open>\<open>__nl\<close>\<close>

text \<open>\<open>kimage a\<close> is the byte at kernel address \<open>a\<close> of the user programs linked into the kernel, and
  \<open>userPrograms\<close> their names and start addresses; \<open>ws_uva e\<close> is the address at which user
  code sees \<open>ptr_pageWorkingSet\<close> of environment \<open>e\<close>. \<open>ws_kva e i\<close> is the kernel address of element \<open>i\<close> of \<open>ptr_pageWorkingSet\<close> of environment
  \<open>e\<close>, which the linker chooses. \<open>pmem\<close> and \<open>disk\<close> are the RAM and the disk, sector by sector; \<open>ide_fail sec\<close> says
  whether the drive reports an error when the driver waits for sector \<open>sec\<close>.\<close>

record kernel =
  number_of_frames :: nat
  frames_info :: "nat \<Rightarrow> frame_info"
  free_frame_list :: "nat list"
  modified_frame_list :: "nat list"
  pmem :: "nat \<Rightarrow> nat \<Rightarrow> uint32"
  disk_free_frame_list :: "nat list"
  disk :: "nat \<Rightarrow> nat \<Rightarrow> uint32"
  ide_fail :: "nat \<Rightarrow> bool"
  envs :: "nat \<Rightarrow> env"
  ws_kva :: "nat \<Rightarrow> nat \<Rightarrow> uint32"
  env_free_list :: "nat list"
  curenv :: "nat option"
  cr2 :: uint32
  cr3 :: uint32
  ptr_page_directory :: nat
  env_new_queue :: "nat list"
  env_exit_queue :: "nat list"
  env_ready_queue :: "nat list"   \<comment> \<open>\<open>env_ready_queues[0]\<close>\<close>
  quantum :: uint8                \<comment> \<open>\<open>quantums[0]\<close>\<close>
  num_of_ready_queues :: nat
  scheduler_status :: uint32
  scheduler_method :: uint32
  cfg :: config
  shares :: "nat \<Rightarrow> share"
  semaphores :: "nat \<Rightarrow> semaphore"
  ws_uva :: "nat \<Rightarrow> uint32"
  kimage :: "uint32 \<Rightarrow> uint8"
  userPrograms :: "(string \<times> uint32) list"
  phys_page_directory :: uint32
  clock :: timer
  chk :: sched_check

text \<open>An operation on the kernel either stops in one of the ways of \<open>halt\<close> or returns a value.\<close>

type_synonym 'a result = "halt + 'a \<times> kernel"

section \<open>Constants\<close>

definition TWS_MAX_SIZE :: nat where "TWS_MAX_SIZE = 50"
definition PWS_MAX_SIZE :: nat where "PWS_MAX_SIZE = 5000"
definition NENV :: nat where "NENV = 12"

definition ENV_FREE :: uint32 where "ENV_FREE = 0"
definition ENV_READY :: uint32 where "ENV_READY = 1"
definition ENV_RUNNABLE :: uint32 where "ENV_RUNNABLE = 2"
definition ENV_BLOCKED :: uint32 where "ENV_BLOCKED = 3"
definition ENV_NEW :: uint32 where "ENV_NEW = 4"
definition ENV_EXIT :: uint32 where "ENV_EXIT = 5"
definition ENV_UNKNOWN :: uint32 where "ENV_UNKNOWN = 6"

definition E_UNSPECIFIED :: int where "E_UNSPECIFIED = -1"
definition E_BAD_ENV :: int where "E_BAD_ENV = -2"
definition E_INVAL :: int where "E_INVAL = -3"
definition E_NO_MEM :: int where "E_NO_MEM = -4"
definition E_NO_FREE_ENV :: int where "E_NO_FREE_ENV = -5"
definition E_NO_PAGE_FILE_SPACE :: int where "E_NO_PAGE_FILE_SPACE = -8"
definition E_PAGE_NOT_EXIST_IN_PF :: int where "E_PAGE_NOT_EXIST_IN_PF = -9"
definition E_TABLE_NOT_EXIST_IN_PF :: int where "E_TABLE_NOT_EXIST_IN_PF = -10"
definition E_NO_SEMAPHORE :: int where "E_NO_SEMAPHORE = -11"
definition E_SEMAPHORE_NOT_EXISTS :: int where "E_SEMAPHORE_NOT_EXISTS = -13"
definition E_NO_SHARE :: int where "E_NO_SHARE = -14"
definition E_SHARED_MEM_NOT_EXISTS :: int where "E_SHARED_MEM_NOT_EXISTS = -16"
definition E_ENV_CREATION_ERROR :: int where "E_ENV_CREATION_ERROR = -17"

lemmas status_defs = ENV_FREE_def ENV_READY_def ENV_RUNNABLE_def ENV_BLOCKED_def ENV_NEW_def
  ENV_EXIT_def ENV_UNKNOWN_def

lemmas error_defs = E_UNSPECIFIED_def E_BAD_ENV_def E_INVAL_def E_NO_MEM_def E_NO_FREE_ENV_def
  E_NO_PAGE_FILE_SPACE_def E_PAGE_NOT_EXIST_IN_PF_def E_TABLE_NOT_EXIST_IN_PF_def
  E_NO_SEMAPHORE_def E_SEMAPHORE_NOT_EXISTS_def E_NO_SHARE_def E_SHARED_MEM_NOT_EXISTS_def
  E_ENV_CREATION_ERROR_def

section \<open>Access to parts of the state\<close>

definition upd_env :: "nat \<Rightarrow> (env \<Rightarrow> env) \<Rightarrow> kernel \<Rightarrow> kernel" where
  "upd_env e f s = s\<lparr>envs := (envs s)(e := f (envs s e))\<rparr>"

definition upd_fi :: "nat \<Rightarrow> (frame_info \<Rightarrow> frame_info) \<Rightarrow> kernel \<Rightarrow> kernel" where
  "upd_fi f g s = s\<lparr>frames_info := (frames_info s)(f := g (frames_info s f))\<rparr>"

definition rd :: "kernel \<Rightarrow> nat \<Rightarrow> nat \<Rightarrow> uint32" where
  "rd s f i = pmem s f i"

definition wr :: "nat \<Rightarrow> nat \<Rightarrow> uint32 \<Rightarrow> kernel \<Rightarrow> kernel" where
  "wr f i v s = s\<lparr>pmem := (pmem s)(f := (pmem s f)(i := v))\<rparr>"

text \<open>\<open>memset(frame, 0, PAGE_SIZE)\<close>, and a whole page written at once.\<close>

definition zero_page :: "nat \<Rightarrow> uint32" where
  "zero_page = (\<lambda>_. 0)"

definition wr_page :: "nat \<Rightarrow> (nat \<Rightarrow> uint32) \<Rightarrow> kernel \<Rightarrow> kernel" where
  "wr_page f p s = s\<lparr>pmem := (pmem s)(f := p)\<rparr>"

text \<open>A null pointer that the code dereferences.\<close>

definition deref :: "'a option \<Rightarrow> halt + 'a" where
  "deref p = (case p of None \<Rightarrow> Inl NullDeref | Some x \<Rightarrow> Inr x)"

text \<open>List macros on the represented lists.\<close>

definition lst_insert_head :: "nat \<Rightarrow> nat list \<Rightarrow> halt + nat list" where
  "lst_insert_head x xs = (if x \<in> set xs then Inl ListMisuse else Inr (x # xs))"

definition lst_insert_tail :: "nat \<Rightarrow> nat list \<Rightarrow> halt + nat list" where
  "lst_insert_tail x xs = (if x \<in> set xs then Inl ListMisuse else Inr (xs @ [x]))"

definition lst_remove :: "nat \<Rightarrow> nat list \<Rightarrow> halt + nat list" where
  "lst_remove x xs = (if x \<in> set xs then Inr (remove1 x xs) else Inl ListMisuse)"

lemma deref_simps [simp]: "deref None = Inl NullDeref" "deref (Some x) = Inr x"
  by (simp_all add: deref_def)

lemma deref_eq_Inr [simp]: "deref p = Inr x \<longleftrightarrow> p = Some x"
  by (cases p) auto

lemma lst_insert_head_Inr [simp]:
  "lst_insert_head x xs = Inr ys \<longleftrightarrow> x \<notin> set xs \<and> ys = x # xs"
  by (auto simp: lst_insert_head_def)

lemma lst_insert_tail_Inr [simp]:
  "lst_insert_tail x xs = Inr ys \<longleftrightarrow> x \<notin> set xs \<and> ys = xs @ [x]"
  by (auto simp: lst_insert_tail_def)

lemma lst_remove_Inr [simp]:
  "lst_remove x xs = Inr ys \<longleftrightarrow> x \<in> set xs \<and> ys = remove1 x xs"
  by (auto simp: lst_remove_def)

lemma lst_ok [simp]:
  "x \<notin> set xs \<Longrightarrow> lst_insert_head x xs = Inr (x # xs)"
  "x \<notin> set xs \<Longrightarrow> lst_insert_tail x xs = Inr (xs @ [x])"
  "x \<in> set xs \<Longrightarrow> lst_remove x xs = Inr (remove1 x xs)"
  by (simp_all add: lst_insert_head_def lst_insert_tail_def lst_remove_def)

lemma lst_remove_hd [simp]: "lst_remove x (x # xs) = Inr xs"
  by (simp add: lst_remove_def)

lemma rd_wr: "rd (wr f i v s) g j = (if g = f \<and> j = i then v else rd s g j)"
  by (auto simp: rd_def wr_def)

lemma rd_wr_page: "rd (wr_page f p s) g j = (if g = f then p j else rd s g j)"
  by (auto simp: rd_def wr_page_def)

lemma rd_upd [simp]: "rd (upd_env e h s) g j = rd s g j" "rd (upd_fi f k s) g j = rd s g j"
  by (simp_all add: rd_def upd_env_def upd_fi_def)

lemma rd_pmem_cong: "pmem s = pmem t \<Longrightarrow> rd s f i = rd t f i"
  by (simp add: rd_def)

section \<open>Frames and physical addresses\<close>

text \<open>A pointer into \<open>frames_info\<close> is the frame number, so \<open>to_frame_number\<close> is the
  identity and \<open>to_physical_address\<close> shifts it by \<open>PGSHIFT\<close>.\<close>

definition to_physical_address :: "nat \<Rightarrow> uint32" where
  "to_physical_address f = push_bit 12 (of_nat f)"

definition to_frame_info :: "uint32 \<Rightarrow> kernel \<Rightarrow> halt + nat" where
  "to_frame_info pa s =
     (if number_of_frames s \<le> unat (PPN pa) then Inl (Panic ''to_frame_info called with invalid pa'')
      else Inr (unat (PPN pa)))"

text \<open>\<open>STATIC_KERNEL_VIRTUAL_ADDRESS\<close> of a page-aligned address: the frame it points to.\<close>

definition STATIC_KERNEL_VIRTUAL_ADDRESS :: "uint32 \<Rightarrow> kernel \<Rightarrow> halt + nat" where
  "STATIC_KERNEL_VIRTUAL_ADDRESS pa s =
     (if number_of_frames s \<le> unat (PPN pa) then Inl (Panic ''K_VIRTUAL_ADDRESS called with invalid pa'')
      else Inr (unat (PPN pa)))"

definition STATIC_KERNEL_PHYSICAL_ADDRESS :: "uint32 \<Rightarrow> halt + uint32" where
  "STATIC_KERNEL_PHYSICAL_ADDRESS kva =
     (if kva < KERNEL_BASE then Inl (Panic ''K_PHYSICAL_ADDRESS called with invalid kva'')
      else Inr (kva - KERNEL_BASE))"

text \<open>Frame numbers fit a physical address: at most \<open>2 ^ 20\<close> frames.\<close>

lemma unat_to_physical_address: "f < 2 ^ 20 \<Longrightarrow> unat (to_physical_address f) = f * 2 ^ 12"
proof -
  assume f: "f < 2 ^ 20"
  have "to_physical_address f = of_nat (f * 2 ^ 12)"
    by (simp add: to_physical_address_def push_bit_eq_mult)
  moreover have "f * 2 ^ 12 < 2 ^ LENGTH(32)" using f by simp
  ultimately show ?thesis by (simp only: unsigned_of_nat of_nat_id take_bit_nat_eq_self)
qed

lemma PPN_to_physical_address: "f < 2 ^ 20 \<Longrightarrow> unat (PPN (to_physical_address f)) = f"
  by (simp add: unat_PPN unat_to_physical_address)

lemma PGOFF_to_physical_address [simp]: "PGOFF (to_physical_address f) = 0"
  by (rule bit_word_eqI) (auto simp: to_physical_address_def PGOFF_def mask_12_eq bit_simps)

lemma EXTRACT_to_physical_address [simp]:
  "EXTRACT_ADDRESS (to_physical_address f) = to_physical_address f"
  by (rule bit_word_eqI) (auto simp: to_physical_address_def EXTRACT_ADDRESS_def mask_12_eq bit_simps)

lemma to_physical_address_inj:
  "f < 2 ^ 20 \<Longrightarrow> g < 2 ^ 20 \<Longrightarrow> to_physical_address f = to_physical_address g \<Longrightarrow> f = g"
  by (metis PPN_to_physical_address)

lemma PPN_to_pa_roundtrip: "to_physical_address (unat (PPN pa)) = EXTRACT_ADDRESS pa"
  by (rule bit_word_eqI) (auto simp: to_physical_address_def EXTRACT_ADDRESS_def PPN_def
      mask_12_eq bit_simps)

section \<open>A small machine\<close>

text \<open>
  A machine of 16 frames with cleared memory, one environment slot whose page directory is frame
  3, and empty queues. The witnesses of the properties evaluate the operations on it.
\<close>

definition zero_tf :: trapframe where
  "zero_tf = \<lparr>reg_edi = 0, reg_esi = 0, reg_ebp = 0, reg_oesp = 0, reg_ebx = 0, reg_edx = 0,
     reg_ecx = 0, reg_eax = 0, tf_es = 0, tf_ds = 0, tf_trapno = 0, tf_err = 0, tf_eip = 0,
     tf_cs = 0, tf_eflags = 0, tf_esp = 0, tf_ss = 0\<rparr>"

text \<open>\<open>zero_env\<close> is also what \<open>memset(e, 0, sizeof(*e))\<close> leaves.\<close>

definition zero_env :: env where
  "zero_env = \<lparr>env_tf = zero_tf, env_id = 0, env_parent_id = 0, env_status = 0, env_runs = 0,
     env_page_directory = None, env_cr3 = 0, disk_env_pgdir = None, disk_env_pgdir_PA = 0,
     disk_env_tabledir = None, disk_env_tabledir_PA = 0, page_WS_max_size = 0,
     ptr_pageWorkingSet = (\<lambda>_. \<lparr>ws_va = 0, ws_empty = 0\<rparr>),
     ptr_tws = (\<lambda>_. \<lparr>ws_va = 0, ws_empty = 0\<rparr>), page_last_WS_index = 0, table_last_WS_index = 0,
     pageFaultsCounter = 0, tableFaultsCounter = 0, freeingFullWSCounter = 0,
     freeingScarceMemCounter = 0, nModifiedPages = 0, nNotModifiedPages = 0, nPageIn = 0,
     nPageOut = 0, prog_name = [], uptr_pws = 0, percentage_of_WS_pages_to_be_removed = 0,
     nClocks = 0, priority = 0, PageWorkingSetList = [], ActiveList = [], SecondList = [], ActiveListSize = 0,
     SecondListSize = 0\<rparr>"

definition tiny :: kernel where
  "tiny = \<lparr>number_of_frames = 16,
     frames_info = (\<lambda>f. \<lparr>references = (if f < 4 then 1 else 0), fi_va = 0, fi_env = None, isBuffered = 0\<rparr>),
     free_frame_list = [4, 5, 6, 7, 8, 9, 10, 11, 12, 13, 14, 15], modified_frame_list = [],
     pmem = (\<lambda>_ _. 0), disk_free_frame_list = [1, 2, 3, 4, 5], disk = (\<lambda>_ _. 0),
     ide_fail = (\<lambda>_. False),
     envs = (\<lambda>_. zero_env\<lparr>env_page_directory := Some 3, env_cr3 := 0x3000\<rparr>),
     ws_kva = (\<lambda>_ _. 0xF0200000), env_free_list = [1, 2], curenv = None, cr2 = 0, cr3 = 0x3000, ptr_page_directory = 0,
     env_new_queue = [], env_exit_queue = [], env_ready_queue = [], quantum = 10,
     num_of_ready_queues = 1, scheduler_status = 0, scheduler_method = 0,
     cfg = \<lparr>PageRepAlgoType = 2, EnableModifiedBuffer = 0, EnableBuffering = 0,
       ModifiedBufferLength = 0, UHeapPlacementStrategy = 0, KHeapPlacementStrategy = 0,
       memory_scarce_threshold_percentage = 25, bypassInstrLength = 0, tstcnt = 0\<rparr>,
     shares = (\<lambda>_. \<lparr>sh_ownerID = 0, sh_name = [], sh_size = 0, sh_references = 0,
       sh_isWritable = 0, sh_empty = 1\<rparr>),
     semaphores = (\<lambda>_. \<lparr>sem_ownerID = 0, sem_name = [], sem_queue = [], sem_value = 0,
       sem_empty = 1\<rparr>),
     ws_uva = (\<lambda>_. 0xEEC00000), kimage = (\<lambda>_. 0), userPrograms = [], phys_page_directory = 0,
     clock = \<lparr>cnt0 = 0, timer_mode = 0, irq_mask_8259A = 0xFFFB, pic_mask = 0xFFFF, didinit = True\<rparr>,
     chk = \<lparr>chkstatus = 0, chk_pe = None, chk_ne = None, chk_pl = 0, chk_nl = 0\<rparr>\<rparr>"

end
