(* ===== verification/Disk_Pages.thy ===== *)
theory Disk_Pages
  imports Kernel_State
begin

text \<open>
  The disk driver of \<^verbatim>\<open>lib/disk.c\<close> and the page-file primitives of \<^verbatim>\<open>kern/file_manager.c\<close>:
  sector transfers, whole-page transfers and the free list of page-file frames. The driver's
  polling of the status port is the oracle \<open>ide_fail\<close>, the sectors that the drive refuses; a transfer stops at
  the first of them, with the sectors before it already moved. A sector whose data the drive takes but cannot
  write is treated in \<^verbatim>\<open>Ide_Driver\<close>.
\<close>

section \<open>The driver\<close>

text \<open>A page buffer is a function from word index to word; a sector holds 128 words.\<close>

fun ide_read_loop ::
  "(nat \<Rightarrow> bool) \<Rightarrow> (nat \<Rightarrow> nat \<Rightarrow> uint32) \<Rightarrow> nat \<Rightarrow> nat \<Rightarrow> nat \<Rightarrow> (nat \<Rightarrow> uint32) \<Rightarrow> int \<times> (nat \<Rightarrow> uint32)" where
  "ide_read_loop fail d 0 sec off dst = (0, dst)"
| "ide_read_loop fail d (Suc n) sec off dst =
     (if fail sec then (-1, dst)
      else ide_read_loop fail d n (sec + 1) (off + 128)
             (\<lambda>i. if off \<le> i \<and> i < off + 128 then d sec (i - off) else dst i))"

fun ide_write_loop ::
  "(nat \<Rightarrow> bool) \<Rightarrow> nat \<Rightarrow> nat \<Rightarrow> nat \<Rightarrow> (nat \<Rightarrow> uint32) \<Rightarrow> (nat \<Rightarrow> nat \<Rightarrow> uint32) \<Rightarrow> int \<times> (nat \<Rightarrow> nat \<Rightarrow> uint32)" where
  "ide_write_loop fail 0 sec off src d = (0, d)"
| "ide_write_loop fail (Suc n) sec off src d =
     (if fail sec then (-1, d)
      else ide_write_loop fail n (sec + 1) (off + 128) src (d(sec := (\<lambda>i. src (off + i)))))"

text \<open>The drive takes the low 28 bits of the sector number.\<close>

definition ide_read ::
  "uint32 \<Rightarrow> (nat \<Rightarrow> uint32) \<Rightarrow> nat \<Rightarrow> kernel \<Rightarrow> halt + (int \<times> (nat \<Rightarrow> uint32))" where
  "ide_read secno dst nsecs s =
     (if 256 < nsecs then Inl (AssertFailed ''nsecs <= 256'')
      else Inr (ide_read_loop (ide_fail s) (disk s) nsecs (unat (take_bit 28 secno)) 0 dst))"

definition ide_write :: "uint32 \<Rightarrow> (nat \<Rightarrow> uint32) \<Rightarrow> nat \<Rightarrow> kernel \<Rightarrow> int result" where
  "ide_write secno src nsecs s =
     (if 256 < nsecs then Inl (AssertFailed ''nsecs <= 256'')
      else case ide_write_loop (ide_fail s) nsecs (unat (take_bit 28 secno)) 0 src (disk s) of
             (r, d) \<Rightarrow> Inr (r, s\<lparr>disk := d\<rparr>))"

section \<open>Pages of the page file\<close>

definition PAGE_FILE_START_SECTOR :: uint32 where "PAGE_FILE_START_SECTOR = 40960"
definition SECTOR_PER_PAGE :: nat where "SECTOR_PER_PAGE = 8"
definition PAGES_PER_FILE :: nat where "PAGES_PER_FILE = 133120"

definition df_start_sector :: "uint32 \<Rightarrow> uint32" where
  "df_start_sector dfn = PAGE_FILE_START_SECTOR + dfn * of_nat SECTOR_PER_PAGE"

definition read_disk_page ::
  "uint32 \<Rightarrow> (nat \<Rightarrow> uint32) \<Rightarrow> kernel \<Rightarrow> halt + (int \<times> (nat \<Rightarrow> uint32))" where
  "read_disk_page dfn va s = ide_read (df_start_sector dfn) va SECTOR_PER_PAGE s"

definition write_disk_page :: "uint32 \<Rightarrow> (nat \<Rightarrow> uint32) \<Rightarrow> kernel \<Rightarrow> int result" where
  "write_disk_page dfn va s =
     bindE (ide_write (df_start_sector dfn) va SECTOR_PER_PAGE s) (\<lambda>(success, s).
       if success \<noteq> 0 then Inl (Panic ''Error writing on disk'') else Inr (success, s))"

section \<open>The free list of disk frames\<close>

text \<open>\<open>disk_frames_info\<close> serves only as the storage of the list links.\<close>

definition initialize_disk_page_file :: "kernel \<Rightarrow> unit result" where
  "initialize_disk_page_file s =
     bindE (foldE lst_insert_head [1..<PAGES_PER_FILE] []) (\<lambda>l.
       Inr ((), s\<lparr>disk_free_frame_list := l\<rparr>))"

text \<open>The result is the status and the new value of \<open>*dfn\<close> (unchanged on failure).\<close>

definition allocate_disk_frame :: "uint32 \<Rightarrow> kernel \<Rightarrow> (int \<times> uint32) result" where
  "allocate_disk_frame dfn s =
     (case first_of (disk_free_frame_list s) of
        None \<Rightarrow> Inr ((E_NO_PAGE_FILE_SPACE, dfn), s)
      | Some f \<Rightarrow>
          bindE (lst_remove f (disk_free_frame_list s)) (\<lambda>l.
            Inr ((0, of_nat f), s\<lparr>disk_free_frame_list := l\<rparr>)))"

definition free_disk_frame :: "uint32 \<Rightarrow> kernel \<Rightarrow> unit result" where
  "free_disk_frame dfn s =
     (if dfn = 0 then Inr ((), s)
      else if PAGES_PER_FILE \<le> unat dfn then Inl OutOfBounds
      else bindE (lst_insert_head (unat dfn) (disk_free_frame_list s)) (\<lambda>l.
             Inr ((), s\<lparr>disk_free_frame_list := l\<rparr>)))"

text \<open>Free disk frames are pairwise distinct, exist and are not frame 0, which means "none".\<close>

definition disk_list_ok :: "kernel \<Rightarrow> bool" where
  "disk_list_ok s \<longleftrightarrow> distinct (disk_free_frame_list s) \<and>
     set (disk_free_frame_list s) \<subseteq> {1..<PAGES_PER_FILE}"

section \<open>Lemmas\<close>

text \<open>What a successful transfer moves, sector by sector.\<close>

lemma ide_read_loop_ok:
  assumes "\<forall>k<n. \<not> fail (sec + k)"
  shows "ide_read_loop fail d n sec off dst =
    (0, \<lambda>i. if off \<le> i \<and> i < off + n * 128 then d (sec + (i - off) div 128) ((i - off) mod 128)
             else dst i)"
  using assms
proof (induction n arbitrary: sec off dst)
  case 0
  then show ?case by (fastforce simp: fun_eq_iff)
next
  case (Suc n)
  have f: "\<not> fail sec" using Suc.prems by force
  have r: "\<forall>k<n. \<not> fail (sec + 1 + k)" using Suc.prems by (metis add.commute add.left_commute
        plus_1_eq_Suc Suc_less_eq)
  have "(if off + 128 \<le> i \<and> i < off + 128 + n * 128
          then d (sec + 1 + (i - (off + 128)) div 128) ((i - (off + 128)) mod 128)
          else if off \<le> i \<and> i < off + 128 then d sec (i - off) else dst i) =
        (if off \<le> i \<and> i < off + Suc n * 128
          then d (sec + (i - off) div 128) ((i - off) mod 128) else dst i)" for i
  proof (cases "off + 128 \<le> i")
    case True
    then obtain j where i: "i = off + 128 + j" using le_Suc_ex by blast
    then have "i - off = 128 + j" "i - (off + 128) = j" by auto
    moreover have "(128 + j) div 128 = j div 128 + 1"
      by (simp add: div_add_self1)
    ultimately show ?thesis using i by (simp add: mod_add_self1 del: div_add_self1)
  next
    case False
    show ?thesis
    proof (cases "off \<le> i")
      case True
      then have "i - off < 128" using False by linarith
      then show ?thesis using True False by simp
    qed (use False in simp)
  qed
  then show ?case using Suc.IH [OF r] f by auto
qed

lemma ide_write_loop_ok:
  assumes "\<forall>k<n. \<not> fail (sec + k)"
  shows "ide_write_loop fail n sec off src d =
    (0, \<lambda>t. if sec \<le> t \<and> t < sec + n then (\<lambda>i. src (off + (t - sec) * 128 + i)) else d t)"
  using assms
proof (induction n arbitrary: sec off d)
  case 0
  then show ?case by (fastforce simp: fun_eq_iff)
next
  case (Suc n)
  have f: "\<not> fail sec" using Suc.prems by force
  have r: "\<forall>k<n. \<not> fail (sec + 1 + k)" using Suc.prems by (metis add.commute add.left_commute
        plus_1_eq_Suc Suc_less_eq)
  have "(if sec + 1 \<le> t \<and> t < sec + 1 + n then \<lambda>i. src (off + 128 + (t - (sec + 1)) * 128 + i)
          else (d(sec := \<lambda>i. src (off + i))) t) =
        (if sec \<le> t \<and> t < sec + Suc n then \<lambda>i. src (off + (t - sec) * 128 + i) else d t)" for t
  proof (cases "sec + 1 \<le> t")
    case True
    then obtain j where "t = sec + 1 + j" using le_Suc_ex by blast
    then show ?thesis by (simp add: algebra_simps)
  qed auto
  then show ?case using Suc.IH [OF r] f by auto
qed

lemma ide_write_loop_fail_or_ok:
  "fst (ide_write_loop fail n sec off src d) = 0 \<longleftrightarrow> (\<forall>k<n. \<not> fail (sec + k))"
proof (induction n arbitrary: sec off d)
  case (Suc n)
  have "(\<forall>k<Suc n. \<not> fail (sec + k)) \<longleftrightarrow> \<not> fail sec \<and> (\<forall>k<n. \<not> fail (sec + 1 + k))"
    by (auto simp: less_Suc_eq_0_disj)
  then show ?case using Suc.IH by simp
qed simp

lemma sector_of_page:
  assumes "unat dfn < PAGES_PER_FILE"
  shows "unat (take_bit 28 (df_start_sector dfn)) = 40960 + 8 * unat dfn"
proof -
  have e: "df_start_sector dfn = of_nat (40960 + 8 * unat dfn)"
    by (simp add: df_start_sector_def PAGE_FILE_START_SECTOR_def SECTOR_PER_PAGE_def)
  have "40960 + 8 * unat dfn < 2 ^ 28" using assms by (simp add: PAGES_PER_FILE_def)
  then have "take_bit 28 (40960 + 8 * unat dfn) = 40960 + 8 * unat dfn"
    "take_bit 32 (40960 + 8 * unat dfn) = 40960 + 8 * unat dfn"
    by (intro take_bit_nat_eq_self; simp)+
  then show ?thesis
    unfolding e unsigned_take_bit_eq unsigned_of_nat of_nat_id by simp
qed

definition disk_page :: "kernel \<Rightarrow> nat \<Rightarrow> nat \<Rightarrow> uint32" where
  "disk_page s d i = disk s (40960 + 8 * d + i div 128) (i mod 128)"

definition page_transfer_ok :: "kernel \<Rightarrow> nat \<Rightarrow> bool" where
  "page_transfer_ok s d \<longleftrightarrow> (\<forall>k<8. \<not> ide_fail s (40960 + 8 * d + k))"

lemma read_disk_page_ok:
  assumes "unat dfn < PAGES_PER_FILE" and "page_transfer_ok s (unat dfn)"
  shows "read_disk_page dfn va s =
    Inr (0, \<lambda>i. if i < 1024 then disk_page s (unat dfn) i else va i)"
  using ide_read_loop_ok [of 8 "ide_fail s" "40960 + 8 * unat dfn"] assms
  by (simp add: read_disk_page_def ide_read_def sector_of_page SECTOR_PER_PAGE_def
      page_transfer_ok_def disk_page_def fun_eq_iff)

lemma write_disk_page_ok:
  assumes "unat dfn < PAGES_PER_FILE" and "write_disk_page dfn va s = Inr (r, s')"
  shows "page_transfer_ok s (unat dfn)" "r = 0" "ide_fail s' = ide_fail s"
    and "s' = s\<lparr>disk := disk s'\<rparr>"
    and "i < 1024 \<Longrightarrow> disk_page s' (unat dfn) i = va i"
    and "d \<noteq> unat dfn \<Longrightarrow> i < 1024 \<Longrightarrow> disk_page s' d i = disk_page s d i"
proof -
  let ?w = "ide_write_loop (ide_fail s) 8 (40960 + 8 * unat dfn) 0 va (disk s)"
  have w: "fst ?w = 0 \<and> r = 0 \<and> s' = s\<lparr>disk := snd ?w\<rparr>"
    using assms(2)
    by (auto simp: write_disk_page_def ide_write_def sector_of_page [OF assms(1)]
        SECTOR_PER_PAGE_def bindE_eq_Inr split: prod.splits if_splits)
  then have ok: "\<forall>k<8. \<not> ide_fail s (40960 + 8 * unat dfn + k)"
    using ide_write_loop_fail_or_ok by blast
  then show "page_transfer_ok s (unat dfn)" by (simp add: page_transfer_ok_def)
  show "r = 0" "ide_fail s' = ide_fail s" "s' = s\<lparr>disk := disk s'\<rparr>" using w by simp_all
  have d: "disk s' = (\<lambda>t. if 40960 + 8 * unat dfn \<le> t \<and> t < 40968 + 8 * unat dfn
      then (\<lambda>i. va ((t - (40960 + 8 * unat dfn)) * 128 + i)) else disk s t)"
    using w unfolding ide_write_loop_ok [OF ok] by (simp add: fun_eq_iff)
  show "disk_page s' (unat dfn) i = va i" if "i < 1024"
  proof -
    have "i div 128 < 8" "i div 128 * 128 + i mod 128 = i" using that by simp_all
    then show ?thesis using d by (simp add: disk_page_def)
  qed
  show "disk_page s' d i = disk_page s d i" if "d \<noteq> unat dfn" "i < 1024"
  proof -
    have "i div 128 < 8" using that(2) by simp
    then have "\<not> (40960 + 8 * unat dfn \<le> 40960 + 8 * d + i div 128 \<and>
        40960 + 8 * d + i div 128 < 40968 + 8 * unat dfn)"
      using that(1) by linarith
    then show ?thesis using d by (auto simp: disk_page_def)
  qed
qed

lemma foldE_insert_head:
  "distinct (rev xs @ ys) \<Longrightarrow> foldE lst_insert_head xs ys = Inr (rev xs @ ys)"
proof (induction xs arbitrary: ys)
  case (Cons x xs)
  then have "foldE lst_insert_head xs (x # ys) = Inr (rev xs @ x # ys)" by simp
  then show ?case using Cons.prems by simp
qed simp

lemma initialize_disk_page_file_list:
  "initialize_disk_page_file s = Inr ((), s\<lparr>disk_free_frame_list := rev [1..<PAGES_PER_FILE]\<rparr>)"
  using foldE_insert_head [of "[1..<PAGES_PER_FILE]" "[]"]
  by (simp add: initialize_disk_page_file_def)

lemma allocate_disk_frame_ok:
  assumes "disk_list_ok s" and "allocate_disk_frame dfn s = Inr ((r, d), s')"
  shows "disk_list_ok s'" and
    "r = 0 \<and> 1 \<le> unat d \<and> unat d < PAGES_PER_FILE \<and> unat d \<in> set (disk_free_frame_list s) \<and>
       unat d \<notin> set (disk_free_frame_list s') \<and>
       set (disk_free_frame_list s) = insert (unat d) (set (disk_free_frame_list s')) \<or>
     r = E_NO_PAGE_FILE_SPACE \<and> d = dfn \<and> s' = s \<and> disk_free_frame_list s = []"
proof -
  have "disk_list_ok s' \<and> (r = 0 \<and> 1 \<le> unat d \<and> unat d < PAGES_PER_FILE \<and>
      unat d \<in> set (disk_free_frame_list s) \<and> unat d \<notin> set (disk_free_frame_list s') \<and>
      set (disk_free_frame_list s) = insert (unat d) (set (disk_free_frame_list s')) \<or>
     r = E_NO_PAGE_FILE_SPACE \<and> d = dfn \<and> s' = s \<and> disk_free_frame_list s = [])"
  proof (cases "disk_free_frame_list s")
    case Nil
    then show ?thesis using assms by (auto simp: allocate_disk_frame_def)
  next
    case (Cons f fs)
    then have f: "1 \<le> f" "f < PAGES_PER_FILE" "f \<notin> set fs"
      using assms(1) by (auto simp: disk_list_ok_def)
    then have "unat (of_nat f :: uint32) = f"
      by (simp add: unsigned_of_nat PAGES_PER_FILE_def take_bit_nat_eq_self)
    then show ?thesis
      using Cons f assms by (auto simp: allocate_disk_frame_def disk_list_ok_def)
  qed
  then show "disk_list_ok s'" and "r = 0 \<and> 1 \<le> unat d \<and> unat d < PAGES_PER_FILE \<and>
       unat d \<in> set (disk_free_frame_list s) \<and>
       unat d \<notin> set (disk_free_frame_list s') \<and>
       set (disk_free_frame_list s) = insert (unat d) (set (disk_free_frame_list s')) \<or>
     r = E_NO_PAGE_FILE_SPACE \<and> d = dfn \<and> s' = s \<and> disk_free_frame_list s = []"
    by simp_all
qed

lemma free_disk_frame_ok:
  assumes "disk_list_ok s" and "free_disk_frame d s = Inr ((), s')"
  shows "disk_list_ok s'"
proof -
  consider "s' = s" | "d \<noteq> 0" "unat d < PAGES_PER_FILE" "unat d \<notin> set (disk_free_frame_list s)"
      "s' = s\<lparr>disk_free_frame_list := unat d # disk_free_frame_list s\<rparr>"
    using assms(2) by (auto simp: free_disk_frame_def bindE_eq_Inr split: if_splits)
  then show ?thesis
    using assms(1) by cases (simp_all add: disk_list_ok_def unat_gt_0 Suc_le_eq)
qed

end
