(* ===== verification/Frames.thy ===== *)
theory Frames
  imports Disk_Pages
begin

text \<open>
  Physical frames (\<^verbatim>\<open>kern/memory_manager.c\<close>): allocation, release and reference counts, the
  boot-time construction of the free list, and the part of the table file
  (\<^verbatim>\<open>kern/file_manager.c\<close>) that allocation reaches through buffered frames.

  In C, \<open>allocate_frame\<close> can call itself: it clears the page table entry of a buffered frame, the
  entry's table may be on disk, writing the table back may create the table directory, and that
  allocates a frame. The model follows the calls with the allocator as a parameter and closes the
  cycle with fuel; \<open>allocate_frame_n_Suc\<close> shows that the inner call is never reached, because a
  table that was read from disk has a table directory, so fuel 1 is enough.
\<close>

section \<open>Definitions\<close>

definition zero_fi :: frame_info where
  "zero_fi = \<lparr>references = 0, fi_va = 0, fi_env = None, isBuffered = 0\<rparr>"

definition initialize_frame_info :: "nat \<Rightarrow> kernel \<Rightarrow> kernel" where
  "initialize_frame_info f s = upd_fi f (\<lambda>_. zero_fi) s"

text \<open>\<open>ptr_zero_page\<close> and \<open>ptr_temp_page\<close> are the kernel addresses of frames 1 and 2.\<close>

definition ptr_zero_page :: nat where "ptr_zero_page = 1"
definition ptr_temp_page :: nat where "ptr_temp_page = 2"

subsection \<open>The table file\<close>

definition get_disk_table_directory_with ::
  "(kernel \<Rightarrow> nat result) \<Rightarrow> nat \<Rightarrow> kernel \<Rightarrow> int result" where
  "get_disk_table_directory_with alloc e s =
     (case disk_env_tabledir (envs s e) of
        Some _ \<Rightarrow> Inr (0, s)
      | None \<Rightarrow>
          bindE (alloc s) (\<lambda>(p, s).
          let s = upd_fi p (\<lambda>i. i\<lparr>references := 1\<rparr>) s in
          bindE (STATIC_KERNEL_VIRTUAL_ADDRESS (to_physical_address p) s) (\<lambda>k.
          let s = upd_env e (\<lambda>en. en\<lparr>disk_env_tabledir := Some k,
                    disk_env_tabledir_PA := to_physical_address p\<rparr>) s in
          Inr (0, wr_page k zero_page s))))"

text \<open>\<open>f\<close> is the frame behind \<open>tableKVirtualAddress\<close>.\<close>

definition pf_write_env_table_with ::
  "(kernel \<Rightarrow> nat result) \<Rightarrow> nat \<Rightarrow> uint32 \<Rightarrow> nat \<Rightarrow> kernel \<Rightarrow> int result" where
  "pf_write_env_table_with alloc e virtual_address f s =
     (if \<not> virtual_address < KERNEL_BASE then Inl (AssertFailed ''virtual_address < KERNEL_BASE'')
      else bindE (get_disk_table_directory_with alloc e s) (\<lambda>(_, s).
        bindE (deref (disk_env_tabledir (envs s e))) (\<lambda>td.
        let dfn = rd s td (pdx virtual_address) in
        bindE (if dfn = 0 then allocate_disk_frame dfn s else Inr ((0, dfn), s)) (\<lambda>((r, dfn'), s).
        if r = E_NO_PAGE_FILE_SPACE then Inr (E_NO_PAGE_FILE_SPACE, s)
        else let s = (if dfn = 0 then wr td (pdx virtual_address) dfn' s else s) in
             write_disk_page dfn' (pmem s f) s))))"

definition pf_read_env_table :: "nat \<Rightarrow> uint32 \<Rightarrow> nat \<Rightarrow> kernel \<Rightarrow> int result" where
  "pf_read_env_table e virtual_address f s =
     (case disk_env_tabledir (envs s e) of
        None \<Rightarrow> Inr (E_TABLE_NOT_EXIST_IN_PF, s)
      | Some td \<Rightarrow>
          (let dfn = rd s td (pdx virtual_address) in
           if dfn = 0 then Inr (E_TABLE_NOT_EXIST_IN_PF, s)
           else bindE (read_disk_page dfn (pmem s f) s) (\<lambda>(r, p). Inr (r, wr_page f p s))))"

definition pt_clear_page_table_entry_with ::
  "(kernel \<Rightarrow> nat result) \<Rightarrow> nat \<Rightarrow> uint32 \<Rightarrow> kernel \<Rightarrow> unit result" where
  "pt_clear_page_table_entry_with alloc e virtual_address s =
     bindE (deref (env_page_directory (envs s e))) (\<lambda>pd.
     let pde = rd s pd (pdx virtual_address) in
     if present pde then
       bindE (STATIC_KERNEL_VIRTUAL_ADDRESS (EXTRACT_ADDRESS pde) s) (\<lambda>pt.
       Inr ((), wr pt (ptx virtual_address) 0 s))
     else if pde \<noteq> 0 then
       bindE (pf_read_env_table e virtual_address ptr_temp_page s) (\<lambda>(success, s).
       if success = E_TABLE_NOT_EXIST_IN_PF
       then Inl (Panic ''pt_clear_page_table_entry: table not found in PF'')
       else bindE (pf_write_env_table_with alloc e virtual_address ptr_temp_page
                     (wr ptr_temp_page (ptx virtual_address) 0 s)) (\<lambda>(_, s). Inr ((), s)))
     else Inl (Panic ''function pt_clear_page_table_entry() called with invalid virtual address''))"

subsection \<open>Allocation and release\<close>

primrec allocate_frame_n :: "nat \<Rightarrow> kernel \<Rightarrow> nat result" where
  "allocate_frame_n 0 = (\<lambda>s. Inl (Panic ''out of fuel''))"
| "allocate_frame_n (Suc n) = (\<lambda>s.
     case first_of (free_frame_list s) of
       None \<Rightarrow> Inl (Panic ''ERROR: Kernel run out of memory... allocate_frame cannot find a free frame.'')
     | Some f \<Rightarrow>
         bindE (lst_remove f (free_frame_list s)) (\<lambda>l.
         let s = s\<lparr>free_frame_list := l\<rparr> in
         bindE (if isBuffered (frames_info s f) \<noteq> 0
                then bindE (deref (fi_env (frames_info s f))) (\<lambda>e.
                       pt_clear_page_table_entry_with (allocate_frame_n n) e
                         (fi_va (frames_info s f)) s)
                else Inr ((), s)) (\<lambda>(_, s).
         Inr (f, initialize_frame_info f s))))"

definition allocate_frame :: "kernel \<Rightarrow> nat result" where
  "allocate_frame = allocate_frame_n 1"

definition pt_clear_page_table_entry :: "nat \<Rightarrow> uint32 \<Rightarrow> kernel \<Rightarrow> unit result" where
  "pt_clear_page_table_entry = pt_clear_page_table_entry_with allocate_frame"

definition get_disk_table_directory :: "nat \<Rightarrow> kernel \<Rightarrow> int result" where
  "get_disk_table_directory = get_disk_table_directory_with allocate_frame"

definition pf_write_env_table :: "nat \<Rightarrow> uint32 \<Rightarrow> nat \<Rightarrow> kernel \<Rightarrow> int result" where
  "pf_write_env_table = pf_write_env_table_with allocate_frame"

definition free_frame :: "nat \<Rightarrow> kernel \<Rightarrow> unit result" where
  "free_frame f s =
     (let s = initialize_frame_info f s in
      bindE (lst_insert_head f (free_frame_list s)) (\<lambda>l. Inr ((), s\<lparr>free_frame_list := l\<rparr>)))"

definition decrement_references :: "nat \<Rightarrow> kernel \<Rightarrow> unit result" where
  "decrement_references f s =
     (let s = upd_fi f (\<lambda>i. i\<lparr>references := references i - 1\<rparr>) s in
      if references (frames_info s f) = 0 then free_frame f s else Inr ((), s))"

subsection \<open>Construction at boot\<close>

definition mark_used :: "nat \<Rightarrow> kernel \<Rightarrow> halt + kernel" where
  "mark_used i s = (if number_of_frames s \<le> i then Inl OutOfBounds
                    else Inr (upd_fi i (\<lambda>f. f\<lparr>references := 1\<rparr>) s))"

definition put_free :: "nat \<Rightarrow> kernel \<Rightarrow> halt + kernel" where
  "put_free i s =
     (if number_of_frames s \<le> i then Inl OutOfBounds
      else let s = initialize_frame_info i s in
           bindE (lst_insert_head i (free_frame_list s)) (\<lambda>l. Inr (s\<lparr>free_frame_list := l\<rparr>)))"

text \<open>
  The loop over the zero page and the temporary page runs to 1024 over \<open>uint8\<close> pointers: it
  clears the first 1024 bytes, that is 256 words, of each.
\<close>

definition clear_1024_bytes :: "nat \<Rightarrow> kernel \<Rightarrow> kernel" where
  "clear_1024_bytes f s = fold (\<lambda>i. wr f i 0) [0..<256] s"

definition initialize_paging :: "uint32 \<Rightarrow> kernel \<Rightarrow> unit result" where
  "initialize_paging ptr_free_mem s =
     (let s = s\<lparr>free_frame_list := [], modified_frame_list := []\<rparr> in
      bindE (foldE mark_used [0, 1, 2] s) (\<lambda>s.
      let s = clear_1024_bytes ptr_temp_page (clear_1024_bytes ptr_zero_page s);
          range_end = ROUNDUP PHYS_IO_MEM PAGE_SIZE in
      bindE (foldE put_free [3..<unat (range_end div PAGE_SIZE)] s) (\<lambda>s.
      bindE (foldE mark_used [unat (PHYS_IO_MEM div PAGE_SIZE)..<unat (PHYS_EXTENDED_MEM div PAGE_SIZE)] s) (\<lambda>s.
      bindE (STATIC_KERNEL_PHYSICAL_ADDRESS ptr_free_mem) (\<lambda>pa.
      let range_end = ROUNDUP pa PAGE_SIZE in
      bindE (foldE mark_used [unat (PHYS_EXTENDED_MEM div PAGE_SIZE)..<unat (range_end div PAGE_SIZE)] s) (\<lambda>s.
      bindE (foldE put_free [unat (range_end div PAGE_SIZE)..<number_of_frames s] s) (\<lambda>s.
      initialize_disk_page_file s)))))))"

section \<open>The fuel of the allocator\<close>

lemma get_disk_table_directory_with_Some:
  "disk_env_tabledir (envs s e) = Some td \<Longrightarrow> get_disk_table_directory_with alloc e s = Inr (0, s)"
  by (simp add: get_disk_table_directory_with_def)

lemma pf_read_env_table_found:
  assumes "pf_read_env_table e va f s = Inr (r, s')" and "r \<noteq> E_TABLE_NOT_EXIST_IN_PF"
  shows "\<exists>td. disk_env_tabledir (envs s' e) = Some td"
  using assms
  by (auto simp: pf_read_env_table_def Let_def bindE_eq_Inr wr_page_def
      split: option.splits if_splits prod.splits)

lemma pt_clear_alloc_irrelevant:
  "pt_clear_page_table_entry_with alloc e va s = pt_clear_page_table_entry_with alloc' e va s"
proof -
  have "pf_write_env_table_with alloc e va ptr_temp_page (wr ptr_temp_page i 0 s') =
        pf_write_env_table_with alloc' e va ptr_temp_page (wr ptr_temp_page i 0 s')"
    if "pf_read_env_table e va ptr_temp_page s = Inr (r, s')" "r \<noteq> E_TABLE_NOT_EXIST_IN_PF" for r s' i
    using pf_read_env_table_found [OF that]
    by (auto simp: pf_write_env_table_with_def get_disk_table_directory_with_def wr_def)
  then show ?thesis
    by (cases "pf_read_env_table e va ptr_temp_page s")
      (auto simp: pt_clear_page_table_entry_with_def Let_def
        intro!: arg_cong2 [where f = bindE] split: prod.splits)
qed

lemma allocate_frame_n_Suc: "allocate_frame_n (Suc n) = allocate_frame"
  unfolding allocate_frame_def One_nat_def allocate_frame_n.simps(2)
  by (subst pt_clear_alloc_irrelevant [of "allocate_frame_n n" _ _ _ "allocate_frame_n 0"]) (rule refl)

text \<open>The equation of the C function.\<close>

lemma allocate_frame_eq:
  "allocate_frame s =
     (case first_of (free_frame_list s) of
       None \<Rightarrow> Inl (Panic ''ERROR: Kernel run out of memory... allocate_frame cannot find a free frame.'')
     | Some f \<Rightarrow>
         bindE (lst_remove f (free_frame_list s)) (\<lambda>l.
         let s = s\<lparr>free_frame_list := l\<rparr> in
         bindE (if isBuffered (frames_info s f) \<noteq> 0
                then bindE (deref (fi_env (frames_info s f))) (\<lambda>e.
                       pt_clear_page_table_entry e (fi_va (frames_info s f)) s)
                else Inr ((), s)) (\<lambda>(_, s).
         Inr (f, initialize_frame_info f s))))"
  unfolding pt_clear_page_table_entry_def
  by (subst allocate_frame_n_Suc [symmetric, of 1]) (simp only: allocate_frame_n.simps(2) allocate_frame_def)

section \<open>The invariant of the free list\<close>

text \<open>
  Free frames are pairwise distinct frames of the machine whose \<open>Frame_Info\<close> is cleared: no
  references, not buffered. The bound on the number of frames is that of a 32-bit address.
\<close>

definition frames_ok :: "kernel \<Rightarrow> bool" where
  "frames_ok s \<longleftrightarrow> number_of_frames s \<le> 2 ^ 20 \<and> distinct (free_frame_list s) \<and>
     (\<forall>f \<in> set (free_frame_list s). f < number_of_frames s \<and> frames_info s f = zero_fi)"

lemma upd_fi_frames [simp]:
  "number_of_frames (upd_fi f g s) = number_of_frames s"
  "free_frame_list (upd_fi f g s) = free_frame_list s"
  "pmem (upd_fi f g s) = pmem s" "envs (upd_fi f g s) = envs s"
  "frames_info (upd_fi f g s) h = (if h = f then g (frames_info s f) else frames_info s h)"
  by (simp_all add: upd_fi_def)

lemma upd_env_frames [simp]:
  "number_of_frames (upd_env e g s) = number_of_frames s"
  "free_frame_list (upd_env e g s) = free_frame_list s"
  "pmem (upd_env e g s) = pmem s" "frames_info (upd_env e g s) = frames_info s"
  "curenv (upd_env e g s) = curenv s"
  "envs (upd_env e g s) d = (if d = e then g (envs s e) else envs s d)"
  by (simp_all add: upd_env_def)

lemma wr_frames [simp]:
  "number_of_frames (wr f i v s) = number_of_frames s"
  "free_frame_list (wr f i v s) = free_frame_list s"
  "frames_info (wr f i v s) = frames_info s" "envs (wr f i v s) = envs s"
  "curenv (wr f i v s) = curenv s"
  by (simp_all add: wr_def)

lemma wr_page_frames [simp]:
  "number_of_frames (wr_page f p s) = number_of_frames s"
  "free_frame_list (wr_page f p s) = free_frame_list s"
  "frames_info (wr_page f p s) = frames_info s" "envs (wr_page f p s) = envs s"
  "curenv (wr_page f p s) = curenv s"
  by (simp_all add: wr_page_def)

lemma frames_ok_cong:
  "number_of_frames t = number_of_frames s \<Longrightarrow> free_frame_list t = free_frame_list s \<Longrightarrow>
   (\<And>f. f \<in> set (free_frame_list s) \<Longrightarrow> frames_info t f = frames_info s f) \<Longrightarrow>
   frames_ok t = frames_ok s"
  by (simp add: frames_ok_def)

lemma frames_ok_upd [simp]:
  "frames_ok (upd_env e h s) = frames_ok s" "frames_ok (wr f i v s) = frames_ok s"
  "frames_ok (wr_page f p s) = frames_ok s"
  by (simp_all add: frames_ok_def)

lemma frames_ok_upd_fi [simp]:
  "f \<notin> set (free_frame_list s) \<Longrightarrow> frames_ok (upd_fi f g s) = frames_ok s"
  by (intro frames_ok_cong) auto

lemma zero_fi_simps [simp]: "references zero_fi = 0" "isBuffered zero_fi = 0"
  by (simp_all add: zero_fi_def)

text \<open>Allocation takes the first free frame and changes nothing else.\<close>

lemma allocate_frame_Cons:
  assumes "frames_ok s" and "free_frame_list s = f # fs"
  shows "allocate_frame s = Inr (f, s\<lparr>free_frame_list := fs\<rparr>)"
proof -
  have z: "frames_info s f = zero_fi" using assms by (simp add: frames_ok_def)
  have "(frames_info s)(f := zero_fi) = frames_info s" using z by (simp add: fun_upd_idem)
  then show ?thesis
    using assms z by (simp add: allocate_frame_eq Let_def initialize_frame_info_def upd_fi_def)
qed

lemma allocate_frame_Nil:
  "free_frame_list s = [] \<Longrightarrow> \<not> succeeds (allocate_frame s)"
  by (simp add: allocate_frame_eq)

lemma allocate_frame_Inr:
  assumes "frames_ok s" and "allocate_frame s = Inr (f, s')"
  shows "free_frame_list s = f # free_frame_list s'"
    and "s' = s\<lparr>free_frame_list := tl (free_frame_list s)\<rparr>"
    and "frames_ok s'" and "f < number_of_frames s" and "f \<notin> set (free_frame_list s')"
    and "frames_info s f = zero_fi"
proof -
  obtain fs where fs: "free_frame_list s = f # fs" and s': "s' = s\<lparr>free_frame_list := fs\<rparr>"
    using assms allocate_frame_Nil [of s] allocate_frame_Cons [of s]
    by (cases "free_frame_list s") auto
  show "free_frame_list s = f # free_frame_list s'" using fs s' by simp
  show "s' = s\<lparr>free_frame_list := tl (free_frame_list s)\<rparr>" using fs s' by simp
  show "frames_ok s'" "f < number_of_frames s" "f \<notin> set (free_frame_list s')"
    "frames_info s f = zero_fi"
    using assms(1) fs s' by (auto simp: frames_ok_def)
qed

lemma free_frame_Inr:
  assumes "free_frame f s = Inr ((), s')"
  shows "f \<notin> set (free_frame_list s)"
    and "s' = s\<lparr>free_frame_list := f # free_frame_list s, frames_info := (frames_info s)(f := zero_fi)\<rparr>"
  using assms
  by (auto simp: free_frame_def initialize_frame_info_def bindE_eq_Inr Let_def upd_fi_def)

lemma free_frame_ok [fos_inv]:
  "frames_ok s \<Longrightarrow> f < number_of_frames s \<Longrightarrow> free_frame f s = Inr ((), s') \<Longrightarrow> frames_ok s'"
  using free_frame_Inr [of f s s'] by (auto simp: frames_ok_def)

lemma decrement_references_Inr:
  assumes "decrement_references f s = Inr ((), s')"
  shows "if references (frames_info s f) = 1
    then f \<notin> set (free_frame_list s) \<and> s' = s\<lparr>free_frame_list := f # free_frame_list s,
           frames_info := (frames_info s)(f := zero_fi)\<rparr>
    else s' = s\<lparr>frames_info := (frames_info s)(f := (frames_info s f)\<lparr>references :=
           references (frames_info s f) - 1\<rparr>)\<rparr>"
proof -
  have e: "references (frames_info s f) - 1 = 0 \<longleftrightarrow> references (frames_info s f) = 1" by simp
  show ?thesis
  proof (cases "references (frames_info s f) = 1")
    case True
    then have f: "free_frame f (upd_fi f (\<lambda>i. i\<lparr>references := references i - 1\<rparr>) s) = Inr ((), s')"
      using assms by (simp add: decrement_references_def Let_def)
    show ?thesis
      using free_frame_Inr [OF f] True by (simp add: upd_fi_def)
  next
    case False
    then show ?thesis using assms e by (simp add: decrement_references_def Let_def upd_fi_def)
  qed
qed

lemma decrement_references_ok [fos_inv]:
  assumes "frames_ok s" and "f < number_of_frames s" and "f \<notin> set (free_frame_list s)"
    and "decrement_references f s = Inr ((), s')"
  shows "frames_ok s'"
  using decrement_references_Inr [OF assms(4)] assms(1-3)
  by (auto simp: frames_ok_def split: if_splits)

section \<open>Boot\<close>

declare upt_rec_numeral [simp del]

lemma foldE_mark_used:
  assumes "\<forall>i \<in> set xs. i < number_of_frames s"
  shows "foldE mark_used xs s = Inr (s\<lparr>frames_info := (\<lambda>i. if i \<in> set xs
           then (frames_info s i)\<lparr>references := 1\<rparr> else frames_info s i)\<rparr>)"
  using assms
proof (induction xs arbitrary: s)
  case Nil
  then show ?case by simp
next
  case (Cons x xs)
  have "(\<lambda>i. if i \<in> set xs then (frames_info (upd_fi x (references_update (\<lambda>_. 1)) s) i)\<lparr>references := 1\<rparr>
             else frames_info (upd_fi x (references_update (\<lambda>_. 1)) s) i) =
        (\<lambda>i. if i \<in> set (x # xs) then (frames_info s i)\<lparr>references := 1\<rparr> else frames_info s i)"
    by (auto simp: fun_eq_iff)
  then show ?case
    using Cons by (simp add: mark_used_def) (simp add: upd_fi_def)
qed

lemma foldE_put_free:
  assumes "\<forall>i \<in> set xs. i < number_of_frames s" and "distinct (rev xs @ free_frame_list s)"
  shows "foldE put_free xs s = Inr (s\<lparr>free_frame_list := rev xs @ free_frame_list s,
           frames_info := (\<lambda>i. if i \<in> set xs then zero_fi else frames_info s i)\<rparr>)"
  using assms
proof (induction xs arbitrary: s)
  case Nil
  then show ?case by simp
next
  case (Cons x xs)
  let ?t = "s\<lparr>free_frame_list := x # free_frame_list s, frames_info := (frames_info s)(x := zero_fi)\<rparr>"
  have p: "put_free x s = Inr ?t"
    using Cons.prems by (simp add: put_free_def initialize_frame_info_def upd_fi_def)
  have "foldE put_free xs ?t = Inr (?t\<lparr>free_frame_list := rev xs @ x # free_frame_list s,
           frames_info := (\<lambda>i. if i \<in> set xs then zero_fi else frames_info ?t i)\<rparr>)"
    using Cons.IH [of ?t] Cons.prems by simp
  moreover have "(\<lambda>i. if i \<in> set xs then zero_fi else frames_info ?t i) =
      (\<lambda>i. if i \<in> set (x # xs) then zero_fi else frames_info s i)"
    by (auto simp: fun_eq_iff)
  ultimately show ?case using p by simp
qed

lemma clear_1024_bytes_eq:
  "clear_1024_bytes f s = wr_page f (\<lambda>i. if i < 256 then 0 else pmem s f i) s"
proof -
  have "fold (\<lambda>i. wr f i 0) [0..<n] s = wr_page f (\<lambda>i. if i < n then 0 else pmem s f i) s" for n
  proof (induction n)
    case 0
    then show ?case by (simp add: wr_page_def)
  next
    case (Suc n)
    have "(\<lambda>i. if i < n then 0 else pmem s f i)(n := 0) = (\<lambda>i. if i < Suc n then 0 else pmem s f i)"
      by (auto simp: fun_eq_iff)
    with Suc show ?case by (simp add: wr_page_def wr_def)
  qed
  then show ?thesis by (simp add: clear_1024_bytes_def)
qed

text \<open>The frames that boot leaves free: base memory from frame 3 and everything above the
  data allocated at boot, \<open>tp\<close> being the first frame above it.\<close>

definition boot_free_frames :: "nat \<Rightarrow> nat \<Rightarrow> nat list" where
  "boot_free_frames tp n = rev [tp..<n] @ rev [3..<160]"

definition boot_top :: "uint32 \<Rightarrow> nat" where
  "boot_top ptr_free_mem = unat (ROUNDUP (ptr_free_mem - KERNEL_BASE) PAGE_SIZE div PAGE_SIZE)"

definition boot_frames_info :: "nat \<Rightarrow> nat \<Rightarrow> (nat \<Rightarrow> frame_info) \<Rightarrow> nat \<Rightarrow> frame_info" where
  "boot_frames_info tp n fi i =
     (if i \<in> {3..<160} \<or> i \<in> {tp..<n} then zero_fi
      else if i \<le> 2 \<or> i \<in> {160..<tp} then (fi i)\<lparr>references := 1\<rparr> else fi i)"

lemma initialize_paging_state:
  assumes "KERNEL_BASE + PHYS_EXTENDED_MEM \<le> p" and "256 \<le> boot_top p"
    and "boot_top p \<le> number_of_frames s"
  shows "initialize_paging p s = Inr ((),
    (clear_1024_bytes ptr_temp_page (clear_1024_bytes ptr_zero_page s))\<lparr>
       modified_frame_list := [],
       free_frame_list := boot_free_frames (boot_top p) (number_of_frames s),
       frames_info := boot_frames_info (boot_top p) (number_of_frames s) (frames_info s),
       disk_free_frame_list := rev [1..<PAGES_PER_FILE]\<rparr>)"
proof -
  let ?n = "number_of_frames s" and ?tp = "boot_top p"
  have c: "unat (ROUNDUP PHYS_IO_MEM PAGE_SIZE div PAGE_SIZE) = 160"
    "unat (PHYS_IO_MEM div PAGE_SIZE) = 160" "unat (PHYS_EXTENDED_MEM div PAGE_SIZE) = 256"
    by (simp_all add: ROUNDUP_def ROUNDDOWN_def PHYS_IO_MEM_def PAGE_SIZE_def PHYS_EXTENDED_MEM_def)
  have kb: "KERNEL_BASE \<le> p"
    using assms(1) by (rule order.trans [rotated]) (simp add: KERNEL_BASE_def PHYS_EXTENDED_MEM_def)
  then have k: "STATIC_KERNEL_PHYSICAL_ADDRESS p = Inr (p - KERNEL_BASE)"
    by (simp add: STATIC_KERNEL_PHYSICAL_ADDRESS_def not_less)
  have tp: "unat (ROUNDUP (p - KERNEL_BASE) PAGE_SIZE div PAGE_SIZE) = ?tp"
    by (simp add: boot_top_def)
  define mu where "mu xs t = t\<lparr>frames_info := (\<lambda>i. if i \<in> set xs
      then (frames_info t i)\<lparr>references := 1\<rparr> else frames_info t i)\<rparr>" for xs and t :: kernel
  define pf where "pf xs t = t\<lparr>free_frame_list := rev xs @ free_frame_list t,
      frames_info := (\<lambda>i. if i \<in> set xs then zero_fi else frames_info t i)\<rparr>" for xs and t :: kernel
  have sel [simp]: "number_of_frames (mu xs t) = number_of_frames t"
    "free_frame_list (mu xs t) = free_frame_list t"
    "number_of_frames (pf xs t) = number_of_frames t"
    "free_frame_list (pf xs t) = rev xs @ free_frame_list t"
    "number_of_frames (clear_1024_bytes f t) = number_of_frames t"
    "free_frame_list (clear_1024_bytes f t) = free_frame_list t" for xs t f
    by (simp_all add: mu_def pf_def clear_1024_bytes_eq)
  define t1 where "t1 = mu [0, 1, 2] (s\<lparr>free_frame_list := [], modified_frame_list := []\<rparr>)"
  define t2 where "t2 = clear_1024_bytes ptr_temp_page (clear_1024_bytes ptr_zero_page t1)"
  define t3 where "t3 = pf [3..<160] t2"
  define t4 where "t4 = mu [160..<256] t3"
  define t5 where "t5 = mu [256..<?tp] t4"
  define t6 where "t6 = pf [?tp..<?n] t5"
  have n [simp]: "number_of_frames t1 = ?n" "number_of_frames t2 = ?n" "number_of_frames t3 = ?n"
    "number_of_frames t4 = ?n" "number_of_frames t5 = ?n"
    by (simp_all add: t1_def t2_def t3_def t4_def t5_def)
  have l [simp]: "free_frame_list t2 = []" "free_frame_list t5 = rev [3..<160]"
    by (simp_all add: t1_def t2_def t3_def t4_def t5_def)
  have m1: "foldE mark_used [0, 1, 2] (s\<lparr>free_frame_list := [], modified_frame_list := []\<rparr>) = Inr t1"
    unfolding t1_def mu_def by (rule foldE_mark_used) (use assms(2,3) in auto)
  have m2: "foldE put_free [3..<160] t2 = Inr t3"
    unfolding t3_def pf_def by (rule foldE_put_free) (use assms(2,3) in auto)
  have m3: "foldE mark_used [160..<256] t3 = Inr t4"
    unfolding t4_def mu_def by (rule foldE_mark_used) (use assms(2,3) in auto)
  have m4: "foldE mark_used [256..<?tp] t4 = Inr t5"
    unfolding t5_def mu_def by (rule foldE_mark_used) (use assms(2,3) in auto)
  have m5: "foldE put_free [?tp..<?n] t5 = Inr t6"
    unfolding t6_def pf_def by (rule foldE_put_free) (use assms(2,3) in auto)
  have r: "initialize_paging p s = initialize_disk_page_file t6"
    unfolding initialize_paging_def Let_def m1 c bindE_Inr t2_def [symmetric] m2 m3 k tp m4
    by (simp add: m5)
  have fi: "frames_info t6 = boot_frames_info ?tp ?n (frames_info s)"
  proof
    fix i :: nat
    have fm: "frames_info (mu xs t) i = (if i \<in> set xs then (frames_info t i)\<lparr>references := 1\<rparr>
          else frames_info t i)" for xs t by (simp add: mu_def)
    have fp: "frames_info (pf xs t) i = (if i \<in> set xs then zero_fi else frames_info t i)" for xs t
      by (simp add: pf_def)
    have f2: "frames_info t2 i = (if i \<le> 2 then (frames_info s i)\<lparr>references := 1\<rparr> else frames_info s i)"
    proof -
      have "i \<in> set [0, 1, 2] \<longleftrightarrow> i \<le> 2" by auto
      then show ?thesis by (simp only: t2_def t1_def fm clear_1024_bytes_eq wr_page_frames) simp
    qed
    consider "i \<le> 2" | "3 \<le> i" "i < 160" | "160 \<le> i" "i < 256" | "256 \<le> i" "i < ?tp"
      | "?tp \<le> i" "i < ?n" | "256 \<le> i" "?tp \<le> i" "?n \<le> i" using assms(2) by linarith
    then show "frames_info t6 i = boot_frames_info ?tp ?n (frames_info s) i"
      using assms(2) by cases (simp_all add: t6_def t5_def t4_def t3_def fm fp f2 boot_frames_info_def
          del: upt_rec_numeral)
  qed
  have "t6 = (clear_1024_bytes ptr_temp_page (clear_1024_bytes ptr_zero_page s))\<lparr>
       modified_frame_list := [], free_frame_list := boot_free_frames ?tp ?n,
       frames_info := frames_info t6\<rparr>"
    by (simp add: t6_def t5_def t4_def t3_def t2_def t1_def mu_def pf_def clear_1024_bytes_eq
        wr_page_def boot_free_frames_def cong: if_cong)
  then show ?thesis
    using r fi by (simp add: initialize_disk_page_file_list)
qed

lemma boot_frames_ok:
  assumes "free_frame_list s = boot_free_frames tp (number_of_frames s)"
    and "frames_info s = boot_frames_info tp (number_of_frames s) fi"
    and "256 \<le> tp" "tp \<le> number_of_frames s" "number_of_frames s \<le> 2 ^ 20"
  shows "frames_ok s"
  using assms by (auto simp: frames_ok_def boot_free_frames_def boot_frames_info_def)

end
