(* ===== verification/Paging.thy ===== *)
theory Paging
  imports Frames
begin

text \<open>
  Page directories and page tables (\<^verbatim>\<open>kern/memory_manager.c\<close>): lookup and creation of tables,
  mapping and unmapping of frames, permission bits, frame counting and the frame storage of
  shared objects. A page directory is named by its frame; \<open>pd\<close> in the definitions is
  \<open>ptr_page_directory\<close>. \<open>USE_KHEAP\<close> is 0 in this kernel, so a table lies at the kernel address of
  its frame. The second half proves the address-space invariant: a mapped frame and a page table
  are never on the free list.
\<close>

section \<open>Tables and mappings\<close>

definition TABLE_IN_MEMORY :: nat where "TABLE_IN_MEMORY = 0"
definition TABLE_NOT_EXIST :: nat where "TABLE_NOT_EXIST = 1"

text \<open>
  \<open>get_page_table\<close> returns its status and \<open>*ptr_page_table\<close>. For an entry that is not zero and
  not present it calls \<open>fault_handler(NULL)\<close>, which reads \<open>tf->tf_cs\<close> through the null pointer.
\<close>

definition get_page_table :: "nat \<Rightarrow> uint32 \<Rightarrow> kernel \<Rightarrow> (nat \<times> nat option) result" where
  "get_page_table pd virtual_address s =
     (let pde = rd s pd (pdx virtual_address) in
      bindE (STATIC_KERNEL_VIRTUAL_ADDRESS (EXTRACT_ADDRESS pde) s) (\<lambda>k.
      if present pde then Inr ((TABLE_IN_MEMORY, Some k), s)
      else if pde \<noteq> 0 then Inl NullDeref
      else Inr ((TABLE_NOT_EXIST, None), s)))"

definition static_cpt :: "nat \<Rightarrow> uint32 \<Rightarrow> kernel \<Rightarrow> nat result" where
  "static_cpt pd virtual_address s =
     bindE (allocate_frame s) (\<lambda>(f, s).
     let phys_page_table = to_physical_address f in
     bindE (STATIC_KERNEL_VIRTUAL_ADDRESS phys_page_table s) (\<lambda>k.
     let s = upd_fi f (\<lambda>i. i\<lparr>references := 1\<rparr>) s;
         s = wr pd (pdx virtual_address)
               (CONSTRUCT_ENTRY phys_page_table (PERM_PRESENT OR PERM_USER OR PERM_WRITEABLE)) s
     in Inr (k, wr_page k zero_page s)))"

text \<open>The result pairs the frame (null if none is mapped) with \<open>*ptr_page_table\<close>.\<close>

definition get_frame_info :: "nat \<Rightarrow> uint32 \<Rightarrow> kernel \<Rightarrow> (nat option \<times> nat option) result" where
  "get_frame_info pd virtual_address s =
     bindE (get_page_table pd virtual_address s) (\<lambda>((ret, pt), s).
     case pt of
       None \<Rightarrow> Inr ((None, None), s)
     | Some t \<Rightarrow>
         (let pte = rd s t (ptx virtual_address) in
          if pte \<noteq> 0 then
            bindE (to_frame_info (EXTRACT_ADDRESS pte) s) (\<lambda>f. Inr ((Some f, Some t), s))
          else Inr ((None, Some t), s)))"

definition unmap_frame :: "nat \<Rightarrow> uint32 \<Rightarrow> kernel \<Rightarrow> unit result" where
  "unmap_frame pd virtual_address s =
     bindE (get_frame_info pd virtual_address s) (\<lambda>((fi, pt), s).
     case fi of
       None \<Rightarrow> Inr ((), s)
     | Some f \<Rightarrow>
         bindE (decrement_references f s) (\<lambda>(_, s).
         bindE (deref pt) (\<lambda>t. Inr ((), wr t (ptx virtual_address) 0 s))))"

definition map_frame :: "nat \<Rightarrow> nat \<Rightarrow> uint32 \<Rightarrow> uint32 \<Rightarrow> kernel \<Rightarrow> int result" where
  "map_frame pd f virtual_address perm s =
     (let physical_address = to_physical_address f in
      bindE (get_page_table pd virtual_address s) (\<lambda>((r, pt), s).
      bindE (if r = TABLE_NOT_EXIST then static_cpt pd virtual_address s
             else bindE (deref pt) (\<lambda>t. Inr (t, s))) (\<lambda>(t, s).
      let pte = rd s t (ptx virtual_address) in
      if present pte \<and> EXTRACT_ADDRESS pte = physical_address then Inr (0, s)
      else
        bindE (if present pte then unmap_frame pd virtual_address s else Inr ((), s)) (\<lambda>(_, s).
        let s = upd_fi f (\<lambda>i. i\<lparr>references := references i + 1\<rparr>) s
        in Inr (0, wr t (ptx virtual_address)
                     (CONSTRUCT_ENTRY physical_address (perm OR PERM_PRESENT)) s)))))"

definition loadtime_map_frame :: "nat \<Rightarrow> nat \<Rightarrow> uint32 \<Rightarrow> uint32 \<Rightarrow> kernel \<Rightarrow> int result" where
  "loadtime_map_frame pd f virtual_address perm s =
     (let physical_address = to_physical_address f;
          pde = rd s pd (pdx virtual_address) in
      bindE (STATIC_KERNEL_VIRTUAL_ADDRESS (EXTRACT_ADDRESS pde) s) (\<lambda>k.
      bindE (if pde = 0 then static_cpt pd virtual_address s else Inr (k, s)) (\<lambda>(t, s).
      let s = upd_fi f (\<lambda>i. i\<lparr>references := references i + 1\<rparr>) s
      in Inr (0, wr t (ptx virtual_address)
                   (CONSTRUCT_ENTRY physical_address (perm OR PERM_PRESENT)) s))))"

text \<open>The functions that panic because the kernel heap is disabled.\<close>

definition create_page_table :: "nat \<Rightarrow> uint32 \<Rightarrow> kernel \<Rightarrow> nat result" where
  "create_page_table pd virtual_address s = Inl (Panic ''this function is not required...!!'')"

definition freeMem_with_buffering :: "nat \<Rightarrow> uint32 \<Rightarrow> uint32 \<Rightarrow> kernel \<Rightarrow> unit result" where
  "freeMem_with_buffering e virtual_address sz s = Inl (Panic ''this function is not required...!!'')"

definition moveMem :: "nat \<Rightarrow> uint32 \<Rightarrow> uint32 \<Rightarrow> uint32 \<Rightarrow> kernel \<Rightarrow> unit result" where
  "moveMem e src dst sz s = Inl (Panic ''moveMem() is not required!!'')"

section \<open>Flags of entries\<close>

definition pd_is_table_used :: "nat \<Rightarrow> uint32 \<Rightarrow> kernel \<Rightarrow> uint32 result" where
  "pd_is_table_used e virtual_address s =
     bindE (deref (env_page_directory (envs s e))) (\<lambda>pd.
     Inr (if rd s pd (pdx virtual_address) AND PERM_USED = PERM_USED then 1 else 0, s))"

definition pd_set_table_unused :: "nat \<Rightarrow> uint32 \<Rightarrow> kernel \<Rightarrow> unit result" where
  "pd_set_table_unused e virtual_address s =
     bindE (deref (env_page_directory (envs s e))) (\<lambda>pd.
     Inr ((), wr pd (pdx virtual_address) (rd s pd (pdx virtual_address) AND NOT PERM_USED) s))"

definition pd_clear_page_dir_entry :: "nat \<Rightarrow> uint32 \<Rightarrow> kernel \<Rightarrow> unit result" where
  "pd_clear_page_dir_entry e virtual_address s =
     bindE (deref (env_page_directory (envs s e))) (\<lambda>pd.
     Inr ((), wr pd (pdx virtual_address) 0 s))"

definition pt_set_page_permissions :: "nat \<Rightarrow> uint32 \<Rightarrow> uint32 \<Rightarrow> uint32 \<Rightarrow> kernel \<Rightarrow> unit result" where
  "pt_set_page_permissions e virtual_address permissions_to_set permissions_to_clear s =
     bindE (deref (env_page_directory (envs s e))) (\<lambda>pd.
     let pde = rd s pd (pdx virtual_address);
         i = ptx virtual_address;
         flip = (\<lambda>w. (w OR permissions_to_set) AND NOT permissions_to_clear) in
     if present pde then
       bindE (STATIC_KERNEL_VIRTUAL_ADDRESS (EXTRACT_ADDRESS pde) s) (\<lambda>t.
       Inr ((), wr t i (flip (rd s t i)) s))
     else if pde \<noteq> 0 then
       bindE (pf_read_env_table e virtual_address ptr_temp_page s) (\<lambda>(success, s).
       if success = E_TABLE_NOT_EXIST_IN_PF
       then Inl (Panic ''pt_set_page_permissions: table not found in PF'')
       else bindE (pf_write_env_table e virtual_address ptr_temp_page
                     (wr ptr_temp_page i (flip (rd s ptr_temp_page i)) s)) (\<lambda>(_, s). Inr ((), s)))
     else Inl (Panic ''function pt_set_page_permissions() called with invalid virtual address''))"

definition pt_get_page_permissions :: "nat \<Rightarrow> uint32 \<Rightarrow> kernel \<Rightarrow> uint32 result" where
  "pt_get_page_permissions e virtual_address s =
     bindE (deref (env_page_directory (envs s e))) (\<lambda>pd.
     let pde = rd s pd (pdx virtual_address) in
     if present pde then
       bindE (STATIC_KERNEL_VIRTUAL_ADDRESS (EXTRACT_ADDRESS pde) s) (\<lambda>t.
       Inr (rd s t (ptx virtual_address) AND 0xFFF, s))
     else if pde \<noteq> 0 then
       bindE (pf_read_env_table e virtual_address ptr_temp_page s) (\<lambda>(success, s).
       if success = E_TABLE_NOT_EXIST_IN_PF
       then Inl (Panic ''pt_get_page_permissions: table not found in PF'')
       else Inr (rd s ptr_temp_page (ptx virtual_address) AND 0xFFF, s))
     else Inr (0, s))"

section \<open>Counting\<close>

text \<open>
  A C loop \<open>for (; cur < stop; cur += step)\<close> over 32-bit addresses. It need not end when \<open>cur\<close>
  can wrap around; the fuel bounds the number of tests.
\<close>

fun for_range ::
  "nat \<Rightarrow> uint32 \<Rightarrow> uint32 \<Rightarrow> uint32 \<Rightarrow> (uint32 \<Rightarrow> 'a \<Rightarrow> halt + 'a) \<Rightarrow> 'a \<Rightarrow> halt + 'a" where
  "for_range 0 step cur stop body a = Inl OutOfFuel"
| "for_range (Suc n) step cur stop body a =
     (if cur < stop then bindE (body cur a) (for_range n step (cur + step) stop body) else Inr a)"

definition calculate_required_frames :: "nat \<Rightarrow> uint32 \<Rightarrow> uint32 \<Rightarrow> kernel \<Rightarrow> uint32 result" where
  "calculate_required_frames pd start_virtual_address sz s =
     bindE (for_range 1026 PTSIZE (ROUNDDOWN start_virtual_address PTSIZE) (start_virtual_address + sz)
              (\<lambda>va (n, s). bindE (get_page_table pd va s) (\<lambda>((r, pt), s).
                 Inr (if pt = None then n + 1 else n, s))) (0, s)) (\<lambda>(number_of_tables, s).
     bindE (for_range (2 ^ 20 + 2) PAGE_SIZE (ROUNDDOWN start_virtual_address PAGE_SIZE)
              (start_virtual_address + sz)
              (\<lambda>va (n, s). bindE (get_frame_info pd va s) (\<lambda>((fi, pt), s).
                 Inr (if fi = None then n + 1 else n, s))) (0, s)) (\<lambda>(number_of_pages, s).
     Inr (number_of_tables + number_of_pages, s)))"

record freeFramesCounters =
  freeBuffered :: nat
  freeNotBuffered :: nat
  modified :: nat

definition calculate_available_frames :: "kernel \<Rightarrow> freeFramesCounters" where
  "calculate_available_frames s =
     (let (b, u) = fold (\<lambda>f (b, u). if isBuffered (frames_info s f) \<noteq> 0 then (b + 1, u) else (b, u + 1))
                     (free_frame_list s) (0, 0);
          m = fold (\<lambda>f m. m + 1) (modified_frame_list s) 0
      in \<lparr>freeBuffered = b, freeNotBuffered = u, modified = m\<rparr>)"

definition calculate_free_frames :: "kernel \<Rightarrow> nat" where
  "calculate_free_frames s = length (free_frame_list s)"

section \<open>Frame storage of shared objects\<close>

definition add_frame_to_storage :: "nat \<Rightarrow> nat \<Rightarrow> uint32 \<Rightarrow> kernel \<Rightarrow> unit result" where
  "add_frame_to_storage frames_storage f index s =
     (let va = index * PAGE_SIZE in
      bindE (get_page_table frames_storage va s) (\<lambda>((r, pt), s).
      bindE (if r = TABLE_NOT_EXIST then static_cpt frames_storage va s
             else bindE (deref pt) (\<lambda>t. Inr (t, s))) (\<lambda>(t, s).
      Inr ((), wr t (ptx va) (CONSTRUCT_ENTRY (to_physical_address f) (0 OR PERM_PRESENT)) s))))"

definition get_frame_from_storage :: "nat \<Rightarrow> uint32 \<Rightarrow> kernel \<Rightarrow> nat option result" where
  "get_frame_from_storage frames_storage index s =
     bindE (get_frame_info frames_storage (index * PAGE_SIZE) s) (\<lambda>((fi, pt), s). Inr (fi, s))"

definition clear_frames_storage :: "nat \<Rightarrow> kernel \<Rightarrow> unit result" where
  "clear_frames_storage frames_storage s =
     bindE (foldE (\<lambda>i s.
              if rd s frames_storage i \<noteq> 0 then
                bindE (to_frame_info (EXTRACT_ADDRESS (rd s frames_storage i)) s) (\<lambda>f.
                bindE (free_frame f s) (\<lambda>(_, s). Inr (wr frames_storage i 0 s)))
              else Inr s) [0..<1024] s) (\<lambda>s. Inr ((), s))"

definition create_frames_storage :: "kernel \<Rightarrow> nat result" where
  "create_frames_storage s = Inl (Panic ''this function is not required...!!'')"

text \<open>\<open>check_va2pa\<close> of \<^verbatim>\<open>kern/helpers.c\<close>: what the hardware makes of an address.\<close>

definition check_va2pa :: "nat \<Rightarrow> uint32 \<Rightarrow> kernel \<Rightarrow> uint32 result" where
  "check_va2pa pd va s =
     (let dirEntry = rd s pd (pdx va) in
      if dirEntry AND PERM_PRESENT = 0 then Inr (NOT 0, s)
      else bindE (STATIC_KERNEL_VIRTUAL_ADDRESS (EXTRACT_ADDRESS dirEntry) s) (\<lambda>p.
        if rd s p (ptx va) AND PERM_PRESENT = 0 then Inr (NOT 0, s)
        else Inr (EXTRACT_ADDRESS (rd s p (ptx va)), s)))"

end
