(* ===== verification/Address_Space.thy ===== *)
theory Address_Space
  imports Paging
begin

text \<open>
  The invariant of an address space and its preservation by the mapping operations of
  \<^verbatim>\<open>kern/memory_manager.c\<close>. For the user part of a directory, \<open>aspace_ok\<close> says: entries are zero or
  point to pairwise different page tables inside the machine, mapped frames exist, and the
  reference count of every frame covers its mappings and its use as a table. Together with
  \<open>frames_ok\<close> this gives the safety property that no mapped frame and no page table is on the
  free list, so \<open>allocate_frame\<close> never hands out memory that is in use.
\<close>

section \<open>Definitions\<close>

text \<open>Number of directory entries below \<open>USER_TOP\<close>.\<close>

definition UPDES :: nat where "UPDES = 955"

lemma UPDES_USER_TOP: "UPDES = pdx USER_TOP"
  by (simp add: UPDES_def pdx_def PDX_def layout_defs)

definition tbl :: "kernel \<Rightarrow> nat \<Rightarrow> nat \<Rightarrow> nat" where
  "tbl s pd i = unat (PPN (rd s pd i))"

definition pte_at :: "kernel \<Rightarrow> nat \<Rightarrow> nat \<Rightarrow> nat \<Rightarrow> uint32" where
  "pte_at s pd i j = (if rd s pd i = 0 then 0 else rd s (tbl s pd i) j)"

definition mapped :: "kernel \<Rightarrow> nat \<Rightarrow> nat \<Rightarrow> (nat \<times> nat) set" where
  "mapped s pd f = {(i, j). i < UPDES \<and> j < 1024 \<and> pte_at s pd i j \<noteq> 0 \<and> unat (PPN (pte_at s pd i j)) = f}"

definition is_table :: "kernel \<Rightarrow> nat \<Rightarrow> nat \<Rightarrow> bool" where
  "is_table s pd f \<longleftrightarrow> f = pd \<or> (\<exists>i<UPDES. rd s pd i \<noteq> 0 \<and> tbl s pd i = f)"

definition pd_ok :: "kernel \<Rightarrow> nat \<Rightarrow> bool" where
  "pd_ok s pd \<longleftrightarrow> pd < number_of_frames s \<and>
     (\<forall>i<UPDES. rd s pd i \<noteq> 0 \<longrightarrow>
        present (rd s pd i) \<and> tbl s pd i < number_of_frames s \<and> tbl s pd i \<noteq> pd) \<and>
     (\<forall>i<UPDES. \<forall>j<UPDES. rd s pd i \<noteq> 0 \<longrightarrow> rd s pd j \<noteq> 0 \<longrightarrow> tbl s pd i = tbl s pd j \<longrightarrow> i = j) \<and>
     (\<forall>i<UPDES. \<forall>j<1024. pte_at s pd i j \<noteq> 0 \<longrightarrow> unat (PPN (pte_at s pd i j)) < number_of_frames s)"

definition uses :: "kernel \<Rightarrow> nat \<Rightarrow> nat \<Rightarrow> nat" where
  "uses s pd f = card (mapped s pd f) + (if is_table s pd f then 1 else 0)"

definition refs_ok :: "kernel \<Rightarrow> nat \<Rightarrow> bool" where
  "refs_ok s pd \<longleftrightarrow> (\<forall>f. uses s pd f \<le> unat (references (frames_info s f)))"

definition aspace_ok :: "kernel \<Rightarrow> nat \<Rightarrow> bool" where
  "aspace_ok s pd \<longleftrightarrow> frames_ok s \<and> pd_ok s pd \<and> refs_ok s pd"

section \<open>Lemmas\<close>

lemma finite_mapped [simp]: "finite (mapped s pd f)"
  by (rule finite_subset [of _ "{..<UPDES} \<times> {..<1024}"]) (auto simp: mapped_def)

text \<open>No mapped frame and no table is free.\<close>

lemma aspace_free:
  assumes "aspace_ok s pd" and "f \<in> set (free_frame_list s)"
  shows "mapped s pd f = {}" "\<not> is_table s pd f"
proof -
  have "references (frames_info s f) = 0"
    using assms by (simp add: aspace_ok_def frames_ok_def)
  then have "uses s pd f = 0"
    using assms(1) unfolding aspace_ok_def refs_ok_def by (metis le_zero_eq unsigned_0)
  then show "mapped s pd f = {}" "\<not> is_table s pd f"
    by (auto simp: uses_def split: if_splits)
qed

lemma pd_okD:
  assumes "pd_ok s pd" and "i < UPDES" and "rd s pd i \<noteq> 0"
  shows "present (rd s pd i)" "tbl s pd i < number_of_frames s" "tbl s pd i \<noteq> pd"
    "j < UPDES \<Longrightarrow> rd s pd j \<noteq> 0 \<Longrightarrow> tbl s pd i = tbl s pd j \<longleftrightarrow> i = j"
  using assms by (auto simp: pd_ok_def)

lemma pd_ok_pte: "pd_ok s pd \<Longrightarrow> i < UPDES \<Longrightarrow> j < 1024 \<Longrightarrow> pte_at s pd i j \<noteq> 0 \<Longrightarrow>
    unat (PPN (pte_at s pd i j)) < number_of_frames s"
  by (simp add: pd_ok_def)

lemma SKVA_table:
  "pd_ok s pd \<Longrightarrow> i < UPDES \<Longrightarrow> rd s pd i \<noteq> 0 \<Longrightarrow>
   STATIC_KERNEL_VIRTUAL_ADDRESS (EXTRACT_ADDRESS (rd s pd i)) s = Inr (tbl s pd i)"
  by (simp add: STATIC_KERNEL_VIRTUAL_ADDRESS_def not_le tbl_def pd_ok_def)

lemma get_page_table_ok:
  assumes "pd_ok s pd" and "pdx va < UPDES"
  shows "rd s pd (pdx va) \<noteq> 0 \<Longrightarrow>
      get_page_table pd va s = Inr ((TABLE_IN_MEMORY, Some (tbl s pd (pdx va))), s)"
    and "rd s pd (pdx va) = 0 \<Longrightarrow> get_page_table pd va s = Inr ((TABLE_NOT_EXIST, None), s)"
proof -
  show "get_page_table pd va s = Inr ((TABLE_IN_MEMORY, Some (tbl s pd (pdx va))), s)"
    if "rd s pd (pdx va) \<noteq> 0"
    using SKVA_table [OF assms that] pd_okD(1) [OF assms that] by (simp add: get_page_table_def)
  show "get_page_table pd va s = Inr ((TABLE_NOT_EXIST, None), s)" if "rd s pd (pdx va) = 0"
  proof -
    have "0 < number_of_frames s" using assms(1) by (auto simp: pd_ok_def)
    then show ?thesis
      using that by (simp add: get_page_table_def STATIC_KERNEL_VIRTUAL_ADDRESS_def
          EXTRACT_ADDRESS_def PPN_def)
  qed
qed

text \<open>States with the same memory and number of frames look the same.\<close>

lemma aspace_cong:
  assumes "pmem t = pmem s"
  shows "tbl t pd = tbl s pd" "pte_at t pd = pte_at s pd" "mapped t pd = mapped s pd"
    "is_table t pd = is_table s pd" "uses t pd = uses s pd"
    "number_of_frames t = number_of_frames s \<Longrightarrow> pd_ok t pd = pd_ok s pd"
proof -
  have r: "rd t = rd s" using assms by (simp add: rd_def fun_eq_iff)
  show t: "tbl t pd = tbl s pd" by (simp add: tbl_def r fun_eq_iff)
  show p: "pte_at t pd = pte_at s pd" by (simp add: pte_at_def r t fun_eq_iff)
  show m: "mapped t pd = mapped s pd" by (simp add: mapped_def p fun_eq_iff)
  show i: "is_table t pd = is_table s pd" by (simp add: is_table_def r t fun_eq_iff)
  show "uses t pd = uses s pd" by (simp add: uses_def m i fun_eq_iff)
  show "number_of_frames t = number_of_frames s \<Longrightarrow> pd_ok t pd = pd_ok s pd"
    by (simp add: pd_ok_def r t p)
qed

text \<open>Writing one entry of a page table changes that page and nothing else.\<close>

lemma wr_entry:
  fixes v :: uint32 and j :: nat
  assumes ok: "pd_ok s pd" and i: "i < UPDES" "rd s pd i \<noteq> 0"
  defines "s' \<equiv> wr (tbl s pd i) j v s"
  shows "rd s' pd k = rd s pd k" "tbl s' pd k = tbl s pd k"
    "is_table s' pd f = is_table s pd f"
    "k < UPDES \<Longrightarrow> pte_at s' pd k l = (if k = i \<and> l = j then v else pte_at s pd k l)"
proof -
  have ne: "tbl s pd i \<noteq> pd" using pd_okD(3) [OF ok i] .
  show r: "rd s' pd k = rd s pd k" for k using ne by (simp add: s'_def rd_wr)
  then show t: "tbl s' pd k = tbl s pd k" for k by (simp add: tbl_def)
  show "is_table s' pd f = is_table s pd f" by (simp add: is_table_def r t)
  show "pte_at s' pd k l = (if k = i \<and> l = j then v else pte_at s pd k l)" if "k < UPDES"
    using pd_okD(4) [OF ok i that] i by (auto simp: pte_at_def r t) (auto simp: s'_def rd_wr)
qed

lemma mapped_update:
  assumes "i < UPDES" and "j < 1024"
    and "\<forall>k l. k < UPDES \<longrightarrow> l < 1024 \<longrightarrow>
           pte_at s' pd k l = (if k = i \<and> l = j then v else pte_at s pd k l)"
  shows "mapped s' pd f = (if v \<noteq> 0 \<and> unat (PPN v) = f then insert (i, j) (mapped s pd f)
                           else mapped s pd f - {(i, j)})"
proof (rule set_eqI)
  fix p :: "nat \<times> nat"
  obtain a b where p: "p = (a, b)" by (cases p)
  show "p \<in> mapped s' pd f \<longleftrightarrow> p \<in> (if v \<noteq> 0 \<and> unat (PPN v) = f
      then insert (i, j) (mapped s pd f) else mapped s pd f - {(i, j)})"
  proof (cases "a < UPDES \<and> b < 1024")
    case True
    then have "pte_at s' pd a b = (if a = i \<and> b = j then v else pte_at s pd a b)"
      using assms(3) by blast
    then show ?thesis using True assms(1,2) p by (auto simp: mapped_def)
  qed (use assms(1,2) p in \<open>auto simp: mapped_def\<close>)
qed

lemma card_mapped_update:
  assumes "i < UPDES" and "j < 1024"
    and "\<forall>k l. k < UPDES \<longrightarrow> l < 1024 \<longrightarrow>
           pte_at s' pd k l = (if k = i \<and> l = j then v else pte_at s pd k l)"
  shows "card (mapped s' pd f) \<le> card (mapped s pd f) + (if v \<noteq> 0 \<and> unat (PPN v) = f then 1 else 0)"
    and "pte_at s pd i j \<noteq> 0 \<Longrightarrow> unat (PPN (pte_at s pd i j)) = f \<Longrightarrow>
         \<not> (v \<noteq> 0 \<and> unat (PPN v) = f) \<Longrightarrow> card (mapped s' pd f) + 1 = card (mapped s pd f)"
proof -
  note m = mapped_update [OF assms, where f = f]
  show "card (mapped s' pd f) \<le> card (mapped s pd f) + (if v \<noteq> 0 \<and> unat (PPN v) = f then 1 else 0)"
  proof (cases "v \<noteq> 0 \<and> unat (PPN v) = f")
    case True
    then show ?thesis unfolding m if_P [OF True] by (simp add: card_insert_if)
  next
    case False
    show ?thesis unfolding m if_not_P [OF False] by (simp add: card_Diff1_le)
  qed
  assume e: "pte_at s pd i j \<noteq> 0" "unat (PPN (pte_at s pd i j)) = f" "\<not> (v \<noteq> 0 \<and> unat (PPN v) = f)"
  then have "(i, j) \<in> mapped s pd f" using assms(1,2) by (simp add: mapped_def)
  then show "card (mapped s' pd f) + 1 = card (mapped s pd f)"
    unfolding m if_not_P [OF e(3)] using card_Suc_Diff1 [OF finite_mapped] by simp
qed

lemma pd_ok_wr_entry:
  assumes ok: "pd_ok s pd" and i: "i < UPDES" "rd s pd i \<noteq> 0"
    and v: "v \<noteq> 0 \<Longrightarrow> unat (PPN v) < number_of_frames s"
  shows "pd_ok (wr (tbl s pd i) j v s) pd"
  using ok v wr_entry [OF ok i, where j = j and v = v] unfolding pd_ok_def by simp

section \<open>Unmapping\<close>

lemma unmap_frame_cases:
  assumes ok: "pd_ok s pd" and va: "pdx va < UPDES"
    and u: "unmap_frame pd va s = Inr ((), s')"
  shows "if pte_at s pd (pdx va) (ptx va) = 0 then s' = s
    else \<exists>t. decrement_references (unat (PPN (pte_at s pd (pdx va) (ptx va)))) s = Inr ((), t) \<and>
           s' = wr (tbl s pd (pdx va)) (ptx va) 0 t"
proof (cases "rd s pd (pdx va) = 0")
  case True
  then show ?thesis
    using u get_page_table_ok(2) [OF ok va]
    by (simp add: unmap_frame_def get_frame_info_def pte_at_def)
next
  case False
  let ?e = "rd s (tbl s pd (pdx va)) (ptx va)"
  have e: "pte_at s pd (pdx va) (ptx va) = ?e" using False by (simp add: pte_at_def)
  show ?thesis
  proof (cases "?e = 0")
    case True
    then show ?thesis
      using u get_page_table_ok(1) [OF ok va False] e
      by (simp add: unmap_frame_def get_frame_info_def Let_def)
  next
    case nz: False
    have "unat (PPN ?e) < number_of_frames s"
      using pd_ok_pte [OF ok va ptx_less] nz e by metis
    then show ?thesis
      using u get_page_table_ok(1) [OF ok va False] e nz
      by (auto simp: unmap_frame_def get_frame_info_def Let_def to_frame_info_def bindE_eq_Inr)
  qed
qed

lemma decrement_references_pmem:
  "decrement_references f s = Inr ((), t) \<Longrightarrow> pmem t = pmem s \<and> number_of_frames t = number_of_frames s"
  by (drule decrement_references_Inr) (auto split: if_splits)

lemma refs_ok_unmap:
  assumes rok: "refs_ok s pd" and va: "i < UPDES" "j < 1024" and nz: "pte_at s pd i j \<noteq> 0"
    and d: "decrement_references (unat (PPN (pte_at s pd i j))) s = Inr ((), t)"
    and fi: "frames_info s' = frames_info t" and tab: "\<And>f. is_table s' pd f = is_table s pd f"
    and up: "\<forall>k l. k < UPDES \<longrightarrow> l < 1024 \<longrightarrow>
        pte_at s' pd k l = (if k = i \<and> l = j then 0 else pte_at s pd k l)"
  shows "refs_ok s' pd"
  unfolding refs_ok_def
proof
  fix f
  let ?g = "unat (PPN (pte_at s pd i j))"
  note card = card_mapped_update [OF va up]
  have bound: "uses s pd f \<le> unat (references (frames_info s f))"
    using rok by (simp add: refs_ok_def)
  show "uses s' pd f \<le> unat (references (frames_info s' f))"
  proof (cases "f = ?g")
    case True
    have "uses s' pd f + 1 = uses s pd f"
      using card(2) [of f] nz True by (simp add: uses_def tab)
    moreover have "references (frames_info s f) \<noteq> 0" using bound calculation by auto
    then have "unat (references (frames_info s f) - 1) = unat (references (frames_info s f)) - 1"
      by (simp add: unat_minus_one)
    ultimately show ?thesis
      using decrement_references_Inr [OF d] bound True fi by (auto split: if_splits)
  next
    case f: False
    then have "frames_info t f = frames_info s f"
      using decrement_references_Inr [OF d] by (auto split: if_splits)
    moreover have "uses s' pd f \<le> uses s pd f"
      using card(1) [of f] by (simp add: uses_def tab)
    ultimately show ?thesis using bound fi by simp
  qed
qed

lemma unmap_mapped_lemma:
  assumes ok: "aspace_ok s pd" and va: "i < UPDES" "j < 1024" and nz: "pte_at s pd i j \<noteq> 0"
    and d: "decrement_references (unat (PPN (pte_at s pd i j))) s = Inr ((), t)"
    and s': "s' = wr (tbl s pd i) j 0 t"
  shows "aspace_ok s' pd"
    "\<forall>k l. k < UPDES \<longrightarrow> l < 1024 \<longrightarrow> pte_at s' pd k l = (if k = i \<and> l = j then 0 else pte_at s pd k l)"
    "rd s' pd = rd s pd" "number_of_frames s' = number_of_frames s"
    "frames_info s' = frames_info t" "free_frame_list s' = free_frame_list t"
proof -
  let ?g = "unat (PPN (pte_at s pd i j))"
  have fr: "frames_ok s" and pok: "pd_ok s pd" and rok: "refs_ok s pd"
    using ok by (simp_all add: aspace_ok_def)
  have rz: "rd s pd i \<noteq> 0" using nz by (auto simp: pte_at_def split: if_splits)
  have pm: "pmem t = pmem s" "number_of_frames t = number_of_frames s"
    using decrement_references_pmem [OF d] by simp_all
  note cg = aspace_cong [OF pm(1), of pd]
  have rdt: "rd t = rd s" using pm(1) by (simp add: rd_def fun_eq_iff)
  have tok: "pd_ok t pd" using cg(6) pm(2) pok by simp
  have s'': "s' = wr (tbl t pd i) j 0 t" using s' cg(1) by simp
  have pte: "pte_at s' pd k l = (if k = i \<and> l = j then 0 else pte_at s pd k l)" if "k < UPDES" for k l
    unfolding s'' using wr_entry(4) [OF tok va(1) _ that, where j = j and v = 0 and l = l] rz cg(2) rdt by simp
  have tab: "is_table s' pd f = is_table s pd f" for f
    unfolding s'' using wr_entry(3) [OF tok va(1), where j = j and v = 0 and f = f] rz cg(4) rdt by simp
  show "rd s' pd = rd s pd"
    unfolding s'' using wr_entry(1) [OF tok va(1), where j = j and v = 0] rz rdt by (simp add: fun_eq_iff)
  show N: "number_of_frames s' = number_of_frames s" using s'' pm(2) by simp
  show fi: "frames_info s' = frames_info t" and "free_frame_list s' = free_frame_list t"
    using s'' by simp_all
  show up: "\<forall>k l. k < UPDES \<longrightarrow> l < 1024 \<longrightarrow>
      pte_at s' pd k l = (if k = i \<and> l = j then 0 else pte_at s pd k l)" using pte by simp
  have gused: "?g \<notin> set (free_frame_list s)"
  proof
    assume "?g \<in> set (free_frame_list s)"
    from aspace_free(1) [OF ok this] have "(i, j) \<notin> mapped s pd ?g" by simp
    then show False using nz va by (simp add: mapped_def)
  qed
  have "frames_ok t"
    using decrement_references_ok [OF fr pd_ok_pte [OF pok va nz] gused d] .
  moreover have "pd_ok s' pd"
    unfolding s'' using rz rdt by (intro pd_ok_wr_entry [OF tok va(1)]) simp_all
  ultimately show "aspace_ok s' pd"
    using refs_ok_unmap [OF rok va nz d fi tab up] s'' by (simp add: aspace_ok_def)
qed

lemma unmap_frame_lemma:
  assumes ok: "aspace_ok s pd" and va: "pdx va < UPDES"
    and u: "unmap_frame pd va s = Inr ((), s')"
  shows "aspace_ok s' pd"
    "\<And>k l. k < UPDES \<Longrightarrow> l < 1024 \<Longrightarrow> pte_at s' pd k l = (if k = pdx va \<and> l = ptx va then 0 else pte_at s pd k l)"
    "rd s' pd = rd s pd" "number_of_frames s' = number_of_frames s"
    "set (free_frame_list s') \<subseteq> insert (unat (PPN (pte_at s pd (pdx va) (ptx va)))) (set (free_frame_list s))"
    "\<And>f. pte_at s pd (pdx va) (ptx va) = 0 \<or> f \<noteq> unat (PPN (pte_at s pd (pdx va) (ptx va))) \<Longrightarrow>
       frames_info s' f = frames_info s f \<and>
       (f \<in> set (free_frame_list s') \<longleftrightarrow> f \<in> set (free_frame_list s))"
proof -
  let ?i = "pdx va" and ?j = "ptx va"
  let ?e = "pte_at s pd ?i ?j"
  let ?g = "unat (PPN ?e)"
  have pok: "pd_ok s pd" using ok by (simp add: aspace_ok_def)
  note cs = unmap_frame_cases [OF pok va u]
  have "aspace_ok s' pd \<and>
    (\<forall>k l. k < UPDES \<longrightarrow> l < 1024 \<longrightarrow> pte_at s' pd k l = (if k = ?i \<and> l = ?j then 0 else pte_at s pd k l)) \<and>
    rd s' pd = rd s pd \<and> number_of_frames s' = number_of_frames s \<and>
    set (free_frame_list s') \<subseteq> insert ?g (set (free_frame_list s)) \<and>
    (\<forall>f. ?e = 0 \<or> f \<noteq> ?g \<longrightarrow> frames_info s' f = frames_info s f \<and>
       (f \<in> set (free_frame_list s') \<longleftrightarrow> f \<in> set (free_frame_list s)))"
  proof (cases "?e = 0")
    case True
    then show ?thesis using cs ok by auto
  next
    case False
    then obtain t where d: "decrement_references ?g s = Inr ((), t)" and s': "s' = wr (tbl s pd ?i) ?j 0 t"
      using cs by auto
    note um = unmap_mapped_lemma [OF ok va ptx_less False d s']
    have "set (free_frame_list s') \<subseteq> insert ?g (set (free_frame_list s)) \<and>
      (\<forall>f. f \<noteq> ?g \<longrightarrow> frames_info s' f = frames_info s f \<and>
         (f \<in> set (free_frame_list s') \<longleftrightarrow> f \<in> set (free_frame_list s)))"
      unfolding um(5,6) using decrement_references_Inr [OF d]
      by (cases "references (frames_info s ?g) = 1") auto
    then show ?thesis using um(1-4) False by simp
  qed
  then show "aspace_ok s' pd"
    "\<And>k l. k < UPDES \<Longrightarrow> l < 1024 \<Longrightarrow> pte_at s' pd k l = (if k = ?i \<and> l = ?j then 0 else pte_at s pd k l)"
    "rd s' pd = rd s pd" "number_of_frames s' = number_of_frames s"
    "set (free_frame_list s') \<subseteq> insert ?g (set (free_frame_list s))"
    "\<And>f. ?e = 0 \<or> f \<noteq> ?g \<Longrightarrow> frames_info s' f = frames_info s f \<and>
       (f \<in> set (free_frame_list s') \<longleftrightarrow> f \<in> set (free_frame_list s))"
    by blast+
qed

section \<open>Creating a page table\<close>

lemma PPN_CONSTRUCT:
  assumes "perm AND NOT 0xFFF = 0"
  shows "PPN (CONSTRUCT_ENTRY pa perm) = PPN pa"
proof (rule bit_word_eqI)
  fix n assume n: "n < LENGTH(32)"
  have "\<not> bit (perm AND NOT 0xFFF) (n + 12)" using assms by simp
  then have "n + 12 < 32 \<Longrightarrow> \<not> bit perm (n + 12)" by (simp add: bit_simps mask_12_eq)
  then have "\<not> bit perm (n + 12)" using bit_imp_le_length by fastforce
  then show "bit (PPN (CONSTRUCT_ENTRY pa perm)) n = bit (PPN pa) n"
    using n by (simp add: PPN_def CONSTRUCT_ENTRY_def bit_simps add.commute)
qed

lemma CONSTRUCT_frame:
  assumes "f < 2 ^ 20" and "perm AND NOT 0xFFF = 0"
  shows "unat (PPN (CONSTRUCT_ENTRY (to_physical_address f) (perm OR PERM_PRESENT))) = f"
    "present (CONSTRUCT_ENTRY (to_physical_address f) (perm OR PERM_PRESENT))"
    "EXTRACT_ADDRESS (CONSTRUCT_ENTRY (to_physical_address f) (perm OR PERM_PRESENT)) =
       to_physical_address f"
proof -
  have p: "(perm OR PERM_PRESENT) AND NOT 0xFFF = 0"
    using assms(2) by (simp add: PERM_PRESENT_def bit.conj_disj_distrib2)
  show "unat (PPN (CONSTRUCT_ENTRY (to_physical_address f) (perm OR PERM_PRESENT))) = f"
    by (simp add: PPN_CONSTRUCT [OF p] PPN_to_physical_address [OF assms(1)])
  show "EXTRACT_ADDRESS (CONSTRUCT_ENTRY (to_physical_address f) (perm OR PERM_PRESENT)) =
       to_physical_address f"
    by (rule EXTRACT_CONSTRUCT [OF _ p]) simp
qed simp

lemma new_table_entries:
  assumes pok: "pd_ok s pd" and i: "i < UPDES" and z: "rd s pd i = 0" and nt: "\<not> is_table s pd f"
    and v: "v \<noteq> 0" "unat (PPN v) = f"
    and rds: "\<And>k. rd s' pd k = (if k = i then v else rd s pd k)"
    and zero: "\<forall>l<1024. rd s' f l = 0"
    and other: "\<forall>g l. g \<noteq> pd \<longrightarrow> g \<noteq> f \<longrightarrow> rd s' g l = rd s g l"
  shows "tbl s' pd k = (if k = i then f else tbl s pd k)"
    and "k < UPDES \<Longrightarrow> l < 1024 \<Longrightarrow> pte_at s' pd k l = pte_at s pd k l"
    and "is_table s' pd g \<longleftrightarrow> is_table s pd g \<or> g = f"
proof -
  show tb: "tbl s' pd k = (if k = i then f else tbl s pd k)" for k
    by (simp add: tbl_def rds v)
  show "pte_at s' pd k l = pte_at s pd k l" if k: "k < UPDES" and l: "l < 1024"
  proof (cases "k = i")
    case True
    then show ?thesis using z v l by (simp add: pte_at_def rds tb zero)
  next
    case False
    moreover have "rd s pd k \<noteq> 0 \<Longrightarrow> tbl s pd k \<noteq> f" using nt k by (auto simp: is_table_def)
    ultimately show ?thesis using pd_okD(3) [OF pok k] by (simp add: pte_at_def rds tb other)
  qed
  show "is_table s' pd g \<longleftrightarrow> is_table s pd g \<or> g = f"
    using i z v by (auto simp: is_table_def rds tb split: if_splits)
qed

lemma static_cpt_lemma:
  assumes ok: "aspace_ok s pd" and va: "pdx va < UPDES" and z: "rd s pd (pdx va) = 0"
    and c: "static_cpt pd va s = Inr (t, s')"
  shows "aspace_ok s' pd" "t = tbl s' pd (pdx va)" "rd s' pd (pdx va) \<noteq> 0"
    "\<And>k l. k < UPDES \<Longrightarrow> l < 1024 \<Longrightarrow> pte_at s' pd k l = pte_at s pd k l"
    "number_of_frames s' = number_of_frames s" "free_frame_list s = t # free_frame_list s'"
    "frames_info s' = (frames_info s)(t := zero_fi\<lparr>references := 1\<rparr>)"
proof -
  let ?i = "pdx va"
  have fr: "frames_ok s" and pok: "pd_ok s pd" and rok: "refs_ok s pd"
    using ok by (simp_all add: aspace_ok_def)
  obtain f s1 where a: "allocate_frame s = Inr (f, s1)"
    using c by (auto simp: static_cpt_def bindE_eq_Inr)
  note al = allocate_frame_Inr [OF fr a]
  have N: "number_of_frames s1 = number_of_frames s" and fi1: "frames_info s1 = frames_info s"
    and pm1: "pmem s1 = pmem s" by (subst al(2), simp)+
  have f20: "f < 2 ^ 20" using al(4) fr by (simp add: frames_ok_def)
  let ?e = "CONSTRUCT_ENTRY (to_physical_address f) (PERM_PRESENT OR PERM_USER OR PERM_WRITEABLE)"
  have e: "?e = CONSTRUCT_ENTRY (to_physical_address f) ((PERM_USER OR PERM_WRITEABLE) OR PERM_PRESENT)"
    by (simp add: ac_simps)
  have pe: "unat (PPN ?e) = f" "present ?e"
    unfolding e by (rule CONSTRUCT_frame [OF f20]; simp add: perm_defs)+
  have enz: "?e \<noteq> 0" using pe(2) present_0 by metis
  have sk: "STATIC_KERNEL_VIRTUAL_ADDRESS (to_physical_address f) s1 = Inr f"
    using al(4) N by (simp add: STATIC_KERNEL_VIRTUAL_ADDRESS_def PPN_to_physical_address [OF f20])
  have t: "t = f" and s': "s' = wr_page f zero_page (wr pd ?i ?e (upd_fi f (\<lambda>i. i\<lparr>references := 1\<rparr>) s1))"
    using c a sk by (auto simp: static_cpt_def Let_def)
  have ffree: "f \<in> set (free_frame_list s)" using al(1) by simp
  have nm: "mapped s pd f = {}" and nt: "\<not> is_table s pd f" using aspace_free [OF ok ffree] .
  have fpd: "f \<noteq> pd" using nt by (simp add: is_table_def)
  have rds: "rd s' pd k = (if k = ?i then ?e else rd s pd k)" for k
    using fpd pm1 by (simp add: s' rd_wr rd_wr_page rd_pmem_cong [OF pm1])
  have zero: "\<forall>l<1024. rd s' f l = 0" by (simp add: s' rd_wr_page zero_page_def)
  have other: "\<forall>g l. g \<noteq> pd \<longrightarrow> g \<noteq> f \<longrightarrow> rd s' g l = rd s g l"
    by (simp add: s' rd_wr rd_wr_page rd_pmem_cong [OF pm1])
  note nte = new_table_entries [OF pok va z nt enz pe(1) rds zero other]
  note tb = nte(1) and it = nte(3)
  show t': "t = tbl s' pd ?i" using tb t by simp
  show "rd s' pd ?i \<noteq> 0" using rds enz by simp
  have tf: "k < UPDES \<Longrightarrow> rd s pd k \<noteq> 0 \<Longrightarrow> tbl s pd k \<noteq> f" for k
    using nt by (auto simp: is_table_def)
  show pte: "\<And>k l. k < UPDES \<Longrightarrow> l < 1024 \<Longrightarrow> pte_at s' pd k l = pte_at s pd k l" by (rule nte(2))
  show N': "number_of_frames s' = number_of_frames s" using N by (simp add: s')
  show "free_frame_list s = t # free_frame_list s'" using al(1) t by (simp add: s')
  show fi': "frames_info s' = (frames_info s)(t := zero_fi\<lparr>references := 1\<rparr>)"
    using fi1 al(6) t by (simp add: s' upd_fi_def)
  have mp: "mapped s' pd g = mapped s pd g" for g
    by (auto simp: mapped_def pte)
  have tf: "k < UPDES \<Longrightarrow> rd s pd k \<noteq> 0 \<Longrightarrow> tbl s pd k \<noteq> f" for k
    using nt by (auto simp: is_table_def)
  have "frames_ok s'"
    using al(3,5) by (simp add: s')
  moreover have "pd_ok s' pd"
    using pok pe(2) al(4) fpd tf unfolding pd_ok_def N' rds tb
    by (auto simp: pte)
  moreover have "refs_ok s' pd"
    unfolding refs_ok_def
  proof
    fix g
    have b: "uses s pd g \<le> unat (references (frames_info s g))"
      using rok by (simp add: refs_ok_def)
    show "uses s' pd g \<le> unat (references (frames_info s' g))"
    proof (cases "g = f")
      case True
      then show ?thesis using nm by (simp add: uses_def mp it fi' t)
    next
      case False
      then show ?thesis using b by (simp add: uses_def mp it fi' t)
    qed
  qed
  ultimately show "aspace_ok s' pd" by (simp add: aspace_ok_def)
qed

section \<open>Mapping\<close>

text \<open>The write that enters a mapping, after the old one is gone.\<close>

lemma enter_mapping:
  assumes ok: "aspace_ok s pd" and va: "pdx va < UPDES" and tz: "rd s pd (pdx va) \<noteq> 0"
    and f: "f < number_of_frames s" "f \<notin> set (free_frame_list s)"
    and r: "references (frames_info s f) \<noteq> 0xFFFF"
    and perm: "perm AND NOT 0xFFF = 0"
    and s': "s' = wr (tbl s pd (pdx va)) (ptx va)
        (CONSTRUCT_ENTRY (to_physical_address f) (perm OR PERM_PRESENT))
        (upd_fi f (\<lambda>i. i\<lparr>references := references i + 1\<rparr>) s)"
  shows "aspace_ok s' pd"
    "\<And>k l. k < UPDES \<Longrightarrow> l < 1024 \<Longrightarrow> pte_at s' pd k l = (if k = pdx va \<and> l = ptx va
       then CONSTRUCT_ENTRY (to_physical_address f) (perm OR PERM_PRESENT) else pte_at s pd k l)"
proof -
  let ?i = "pdx va" and ?j = "ptx va"
  let ?v = "CONSTRUCT_ENTRY (to_physical_address f) (perm OR PERM_PRESENT)"
  let ?u = "upd_fi f (\<lambda>i. i\<lparr>references := references i + 1\<rparr>) s"
  have fr: "frames_ok s" and pok: "pd_ok s pd" and rok: "refs_ok s pd"
    using ok by (simp_all add: aspace_ok_def)
  have f20: "f < 2 ^ 20" using f(1) fr by (simp add: frames_ok_def)
  note v = CONSTRUCT_frame [OF f20 perm]
  note cg = aspace_cong [of ?u s pd, simplified]
  have uok: "pd_ok ?u pd" using cg(6) pok by simp
  have u: "rd ?u pd ?i \<noteq> 0" using tz by simp
  have s'': "s' = wr (tbl ?u pd ?i) ?j ?v ?u" using s' cg(1) by simp
  note w = wr_entry [OF uok va u, where j = ?j and v = ?v, folded s'']
  have up: "\<forall>k l. k < UPDES \<longrightarrow> l < 1024 \<longrightarrow>
      pte_at s' pd k l = (if k = ?i \<and> l = ?j then ?v else pte_at s pd k l)"
    using w(4) cg(2) by simp
  then show "\<And>k l. k < UPDES \<Longrightarrow> l < 1024 \<Longrightarrow>
      pte_at s' pd k l = (if k = ?i \<and> l = ?j then ?v else pte_at s pd k l)" by simp
  have "pd_ok s' pd"
    unfolding s'' using f(1) v(1) by (intro pd_ok_wr_entry [OF uok va u]) simp
  moreover have "frames_ok s'" using fr f(2) by (simp add: s'')
  moreover have "refs_ok s' pd"
    unfolding refs_ok_def
  proof
    fix g
    have b: "uses s pd g \<le> unat (references (frames_info s g))" using rok by (simp add: refs_ok_def)
    have c: "card (mapped s' pd g) \<le> card (mapped s pd g) + (if f = g then 1 else 0)"
      using card_mapped_update(1) [OF va ptx_less up, of g] v(1) by (auto split: if_splits)
    have tb: "is_table s' pd g = is_table s pd g" using w(3) [of g] cg(4) by simp
    have "unat (references (frames_info s f) + 1) = unat (references (frames_info s f)) + 1"
    proof -
      have "unat (references (frames_info s f)) \<noteq> 65535"
        using r by (simp add: word_unat_eq_iff)
      moreover have "unat (references (frames_info s f)) < 65536"
        using unsigned_less [of "references (frames_info s f)"] by simp
      ultimately show ?thesis by (simp add: unat_plus_if')
    qed
    moreover have "frames_info s' g = (if g = f then (frames_info s f)\<lparr>references :=
        references (frames_info s f) + 1\<rparr> else frames_info s g)" by (simp add: s'')
    ultimately show "uses s' pd g \<le> unat (references (frames_info s' g))"
      using b c unfolding uses_def tb by (auto split: if_splits)
  qed
  ultimately show "aspace_ok s' pd" by (simp add: aspace_ok_def)
qed

lemma map_frame_table:
  assumes ok: "aspace_ok s pd" and va: "pdx va < UPDES" and f: "f \<notin> set (free_frame_list s)"
    and m: "map_frame pd f va perm s = Inr (ret, s')"
  obtains t s1 where "aspace_ok s1 pd" "rd s1 pd (pdx va) \<noteq> 0" "t = tbl s1 pd (pdx va)"
      "\<forall>k l. k < UPDES \<longrightarrow> l < 1024 \<longrightarrow> pte_at s1 pd k l = pte_at s pd k l"
      "number_of_frames s1 = number_of_frames s" "f \<notin> set (free_frame_list s1)"
      "frames_info s1 f = frames_info s f"
      "(let pte = rd s1 t (ptx va) in
      if present pte \<and> EXTRACT_ADDRESS pte = to_physical_address f then Inr (0, s1)
      else bindE (if present pte then unmap_frame pd va s1 else Inr ((), s1)) (\<lambda>(_, s).
        let s = upd_fi f (\<lambda>i. i\<lparr>references := references i + 1\<rparr>) s
        in Inr (0, wr t (ptx va) (CONSTRUCT_ENTRY (to_physical_address f) (perm OR PERM_PRESENT)) s)))
      = Inr (ret, s')"
proof -
  have pok: "pd_ok s pd" using ok by (simp add: aspace_ok_def)
  show thesis
  proof (cases "rd s pd (pdx va) = 0")
    case False
    show thesis
      by (rule that [of s "tbl s pd (pdx va)"])
        (use ok False f m get_page_table_ok(1) [OF pok va False] in
          \<open>simp_all add: map_frame_def Let_def TABLE_IN_MEMORY_def TABLE_NOT_EXIST_def cong: if_cong\<close>)
  next
    case True
    obtain t s1 where c: "static_cpt pd va s = Inr (t, s1)"
      using m get_page_table_ok(2) [OF pok va True]
      by (auto simp: map_frame_def Let_def bindE_eq_Inr)
    note sc = static_cpt_lemma [OF ok va True c]
    have "t \<in> set (free_frame_list s)" using sc(6) by simp
    then have "f \<noteq> t" using f by auto
    then show thesis
      by (intro that [of s1 t])
        (use sc f m c get_page_table_ok(2) [OF pok va True] in
          \<open>simp_all add: map_frame_def Let_def cong: if_cong\<close>)
  qed
qed

lemma map_frame_displaces:
  assumes ok: "aspace_ok s pd" and va: "pdx va < UPDES" and f: "f \<notin> set (free_frame_list s)"
    and ne: "\<not> (present (pte_at s pd (pdx va) (ptx va)) \<and>
      EXTRACT_ADDRESS (pte_at s pd (pdx va) (ptx va)) = to_physical_address f)"
    and u: "(if present (pte_at s pd (pdx va) (ptx va)) then unmap_frame pd va s else Inr ((), s)) = Inr ((), s')"
  shows "aspace_ok s' pd" "rd s' pd = rd s pd" "number_of_frames s' = number_of_frames s"
    "\<And>k l. k < UPDES \<Longrightarrow> l < 1024 \<Longrightarrow> (k, l) \<noteq> (pdx va, ptx va) \<Longrightarrow> pte_at s' pd k l = pte_at s pd k l"
    "f \<notin> set (free_frame_list s')" "frames_info s' f = frames_info s f"
proof -
  let ?e = "pte_at s pd (pdx va) (ptx va)"
  have "aspace_ok s' pd \<and> rd s' pd = rd s pd \<and> number_of_frames s' = number_of_frames s \<and>
    (\<forall>k l. k < UPDES \<longrightarrow> l < 1024 \<longrightarrow> (k, l) \<noteq> (pdx va, ptx va) \<longrightarrow> pte_at s' pd k l = pte_at s pd k l) \<and>
    f \<notin> set (free_frame_list s') \<and> frames_info s' f = frames_info s f"
  proof (cases "present ?e")
    case True
    then have "unmap_frame pd va s = Inr ((), s')" using u by simp
    note um = unmap_frame_lemma [OF ok va this]
    have "f \<noteq> unat (PPN ?e)" using ne True PPN_to_pa_roundtrip [of ?e] by auto
    then show ?thesis using um f by auto
  next
    case False
    then show ?thesis using u ok f by simp
  qed
  then show "aspace_ok s' pd" "rd s' pd = rd s pd" "number_of_frames s' = number_of_frames s"
    "\<And>k l. k < UPDES \<Longrightarrow> l < 1024 \<Longrightarrow> (k, l) \<noteq> (pdx va, ptx va) \<Longrightarrow> pte_at s' pd k l = pte_at s pd k l"
    "f \<notin> set (free_frame_list s')" "frames_info s' f = frames_info s f" by blast+
qed

definition maps_frame :: "uint32 \<Rightarrow> nat \<Rightarrow> bool" where
  "maps_frame e f \<longleftrightarrow> present e \<and> EXTRACT_ADDRESS e = to_physical_address f"

definition entry_after_map :: "uint32 \<Rightarrow> nat \<Rightarrow> uint32 \<Rightarrow> uint32" where
  "entry_after_map e f perm =
     (if maps_frame e f then e else to_physical_address f OR perm OR PERM_PRESENT)"

lemma map_frame_lemma:
  assumes ok: "aspace_ok s pd" and va: "pdx va < UPDES"
    and f: "f < number_of_frames s" "f \<notin> set (free_frame_list s)"
    and r: "references (frames_info s f) \<noteq> 0xFFFF"
    and perm: "perm AND NOT 0xFFF = 0"
    and m: "map_frame pd f va perm s = Inr (ret, s')"
  shows "ret = 0" "aspace_ok s' pd"
    "present (pte_at s' pd (pdx va) (ptx va))" "unat (PPN (pte_at s' pd (pdx va) (ptx va))) = f"
    "\<And>k l. k < UPDES \<Longrightarrow> l < 1024 \<Longrightarrow> (k, l) \<noteq> (pdx va, ptx va) \<Longrightarrow> pte_at s' pd k l = pte_at s pd k l"
    "pte_at s' pd (pdx va) (ptx va) = entry_after_map (pte_at s pd (pdx va) (ptx va)) f perm"
    "references (frames_info s' f) = references (frames_info s f) +
       (if maps_frame (pte_at s pd (pdx va) (ptx va)) f then 0 else 1)"
proof -
  let ?i = "pdx va" and ?j = "ptx va"
  have f20: "f < 2 ^ 20" using f(1) ok by (simp add: aspace_ok_def frames_ok_def)
  obtain t s1 where st: "aspace_ok s1 pd" "rd s1 pd ?i \<noteq> 0" "t = tbl s1 pd ?i"
      "\<forall>k l. k < UPDES \<longrightarrow> l < 1024 \<longrightarrow> pte_at s1 pd k l = pte_at s pd k l"
      "number_of_frames s1 = number_of_frames s" "f \<notin> set (free_frame_list s1)"
      "frames_info s1 f = frames_info s f"
    and m1: "(let pte = rd s1 t ?j in
      if present pte \<and> EXTRACT_ADDRESS pte = to_physical_address f then Inr (0, s1)
      else bindE (if present pte then unmap_frame pd va s1 else Inr ((), s1)) (\<lambda>(_, s).
        let s = upd_fi f (\<lambda>i. i\<lparr>references := references i + 1\<rparr>) s
        in Inr (0, wr t ?j (CONSTRUCT_ENTRY (to_physical_address f) (perm OR PERM_PRESENT)) s)))
      = Inr (ret, s')"
    by (rule map_frame_table [OF ok va f(2) m]) (rule that)
  let ?e = "pte_at s1 pd ?i ?j"
  have e: "rd s1 t ?j = ?e" using st(2,3) by (simp add: pte_at_def)
  note j = ptx_less [of va]
  have "ret = 0 \<and> aspace_ok s' pd \<and> present (pte_at s' pd ?i ?j) \<and>
    unat (PPN (pte_at s' pd ?i ?j)) = f \<and>
    (\<forall>k l. k < UPDES \<longrightarrow> l < 1024 \<longrightarrow> (k, l) \<noteq> (?i, ?j) \<longrightarrow> pte_at s' pd k l = pte_at s pd k l) \<and>
    pte_at s' pd ?i ?j = entry_after_map (pte_at s pd ?i ?j) f perm \<and>
    references (frames_info s' f) = references (frames_info s f) +
      (if maps_frame (pte_at s pd ?i ?j) f then 0 else 1)"
  proof (cases "present ?e \<and> EXTRACT_ADDRESS ?e = to_physical_address f")
    case True
    then have "unat (PPN ?e) = f"
      using PPN_to_physical_address [OF f20] by (metis PPN_EXTRACT)
    moreover have "ret = 0 \<and> s' = s1" using m1 True by (auto simp: e)
    ultimately show ?thesis using True st va j by (simp add: entry_after_map_def maps_frame_def)
  next
    case False
    obtain s2 where u: "(if present ?e then unmap_frame pd va s1 else Inr ((), s1)) = Inr ((), s2)"
      and s': "ret = 0" "s' = wr t ?j (CONSTRUCT_ENTRY (to_physical_address f) (perm OR PERM_PRESENT))
          (upd_fi f (\<lambda>i. i\<lparr>references := references i + 1\<rparr>) s2)"
      using m1 False by (auto simp: e Let_def bindE_eq_Inr)
    note s2 = map_frame_displaces [OF st(1) va st(6) False u]
    have tb: "t = tbl s2 pd ?i" using st(3) s2(2) by (simp add: tbl_def)
    have "rd s2 pd ?i \<noteq> 0" "f < number_of_frames s2" "references (frames_info s2 f) \<noteq> 0xFFFF"
      using st(2,5,7) s2(2,3,6) f(1) r by simp_all
    note en = enter_mapping [OF s2(1) va this(1,2) s2(5) this(3) perm s'(2) [unfolded tb]]
    have "pte_at s pd ?i ?j = ?e" using st(4) va j by simp
    then have "\<not> maps_frame (pte_at s pd ?i ?j) f" using False by (simp add: maps_frame_def)
    moreover have "references (frames_info s' f) = references (frames_info s f) + 1"
      using s'(2) s2(6) st(7) by (simp add: upd_fi_def)
    ultimately show ?thesis
      using en(1) en(2) [OF va j] en(2) s2(4) st(4) s'(1) CONSTRUCT_frame [OF f20 perm]
      by (simp add: entry_after_map_def CONSTRUCT_ENTRY_def)
  qed
  then show "ret = 0" "aspace_ok s' pd" "present (pte_at s' pd ?i ?j)"
    "unat (PPN (pte_at s' pd ?i ?j)) = f"
    "\<And>k l. k < UPDES \<Longrightarrow> l < 1024 \<Longrightarrow> (k, l) \<noteq> (?i, ?j) \<Longrightarrow> pte_at s' pd k l = pte_at s pd k l"
    "pte_at s' pd ?i ?j = entry_after_map (pte_at s pd ?i ?j) f perm"
    "references (frames_info s' f) = references (frames_info s f) +
       (if maps_frame (pte_at s pd ?i ?j) f then 0 else 1)"
    by blast+
qed

section \<open>Allocation, loading and translation\<close>

lemma decrement_references_returns:
  "f \<notin> set (free_frame_list s) \<Longrightarrow> \<exists>t. decrement_references f s = Inr ((), t)"
  by (simp add: decrement_references_def free_frame_def initialize_frame_info_def Let_def)

lemma unmap_frame_returns:
  assumes ok: "aspace_ok s pd" and va: "pdx va < UPDES"
  shows "\<exists>s'. unmap_frame pd va s = Inr ((), s')"
proof (cases "rd s pd (pdx va) = 0")
  case True
  have "pd_ok s pd" using ok by (simp add: aspace_ok_def)
  then show ?thesis
    using get_page_table_ok(2) [OF _ va True] by (simp add: unmap_frame_def get_frame_info_def)
next
  case False
  have pok: "pd_ok s pd" using ok by (simp add: aspace_ok_def)
  let ?e = "pte_at s pd (pdx va) (ptx va)"
  have e: "rd s (tbl s pd (pdx va)) (ptx va) = ?e" using False by (simp add: pte_at_def)
  show ?thesis
  proof (cases "?e = 0")
    case True
    then show ?thesis
      using get_page_table_ok(1) [OF pok va False] e by (simp add: unmap_frame_def get_frame_info_def)
  next
    case nz: False
    let ?f = "unat (PPN ?e)"
    have f: "?f < number_of_frames s" using pd_ok_pte [OF pok va ptx_less nz] .
    have "(pdx va, ptx va) \<in> mapped s pd ?f" using nz va ptx_less by (simp add: mapped_def)
    then have "?f \<notin> set (free_frame_list s)" using aspace_free(1) [OF ok, of ?f] by auto
    then obtain t where "decrement_references ?f s = Inr ((), t)"
      using decrement_references_returns by blast
    then show ?thesis
      using get_page_table_ok(1) [OF pok va False] e nz f
      by (simp add: unmap_frame_def get_frame_info_def Let_def to_frame_info_def)
  qed
qed

lemma static_cpt_returns:
  assumes "aspace_ok s pd" and "free_frame_list s \<noteq> []"
  shows "\<exists>t s'. static_cpt pd va s = Inr (t, s')"
proof -
  have fr: "frames_ok s" using assms(1) by (simp add: aspace_ok_def)
  obtain t fs where fs: "free_frame_list s = t # fs" using assms(2) by (cases "free_frame_list s") auto
  note a = allocate_frame_Cons [OF fr fs]
  have "t < number_of_frames s" "number_of_frames s \<le> 2 ^ 20" using fr fs by (auto simp: frames_ok_def)
  then show ?thesis
    by (simp add: static_cpt_def a Let_def STATIC_KERNEL_VIRTUAL_ADDRESS_def PPN_to_physical_address)
qed

lemma map_frame_returns:
  assumes ok: "aspace_ok s pd" and va: "pdx va < UPDES"
    and room: "rd s pd (pdx va) \<noteq> 0 \<or> free_frame_list s \<noteq> []"
  shows "\<exists>ret s'. map_frame pd f va perm s = Inr (ret, s')"
proof -
  have pok: "pd_ok s pd" using ok by (simp add: aspace_ok_def)
  show ?thesis
  proof (cases "rd s pd (pdx va) = 0")
    case True
    then obtain t s1 where c: "static_cpt pd va s = Inr (t, s1)"
      using room static_cpt_returns [OF ok] by blast
    obtain s2 where u: "unmap_frame pd va s1 = Inr ((), s2)"
      using unmap_frame_returns [OF static_cpt_lemma(1) [OF ok va True c] va] by blast
    show ?thesis
      using get_page_table_ok(2) [OF pok va True] c u by (simp add: map_frame_def Let_def)
  next
    case False
    obtain s2 where u: "unmap_frame pd va s = Inr ((), s2)" using unmap_frame_returns [OF ok va] by blast
    show ?thesis
      using get_page_table_ok(1) [OF pok va False] u
      by (simp add: map_frame_def Let_def TABLE_IN_MEMORY_def TABLE_NOT_EXIST_def cong: if_cong)
  qed
qed

lemma aspace_wr_page_unused:
  assumes ok: "aspace_ok s pd" and f: "\<not> is_table s pd f"
  shows "aspace_ok (wr_page f p s) pd" "\<And>k l. k < UPDES \<Longrightarrow> pte_at (wr_page f p s) pd k l = pte_at s pd k l"
proof -
  let ?t = "wr_page f p s"
  have fpd: "f \<noteq> pd" using f by (auto simp: is_table_def)
  have rd: "rd ?t pd i = rd s pd i" for i using fpd by (simp add: rd_wr_page)
  have tb: "tbl ?t pd i = tbl s pd i" for i by (simp add: tbl_def rd)
  have ft: "i < UPDES \<Longrightarrow> rd s pd i \<noteq> 0 \<Longrightarrow> tbl s pd i \<noteq> f" for i using f by (auto simp: is_table_def)
  show pte: "pte_at ?t pd k l = pte_at s pd k l" if "k < UPDES" for k l
    unfolding pte_at_def rd tb using ft [OF that] by (simp add: rd_wr_page)
  have m: "mapped ?t pd g = mapped s pd g" for g using pte by (auto simp: mapped_def)
  have i: "is_table ?t pd g = is_table s pd g" for g by (simp add: is_table_def rd tb)
  have "uses ?t pd g = uses s pd g" for g by (simp add: uses_def m i)
  moreover have "pd_ok ?t pd = pd_ok s pd" by (simp add: pd_ok_def rd tb pte)
  ultimately show "aspace_ok ?t pd" using ok by (simp add: aspace_ok_def refs_ok_def)
qed

lemma static_cpt_pmem:
  "static_cpt pd va s = Inr (t, s') \<Longrightarrow> frames_ok s \<Longrightarrow> x \<noteq> pd \<Longrightarrow> x \<noteq> t \<Longrightarrow> pmem s' x = pmem s x"
  using allocate_frame_Inr(2) [of s]
  by (auto simp: static_cpt_def bindE_eq_Inr Let_def STATIC_KERNEL_VIRTUAL_ADDRESS_def wr_def wr_page_def
      upd_fi_def split: if_splits dest!: allocate_frame_Inr(2))

lemma unmap_frame_pmem:
  assumes "pd_ok s pd" and "pdx va < UPDES" and "unmap_frame pd va s = Inr ((), s')"
    and "x \<noteq> tbl s pd (pdx va)"
  shows "pmem s' x = pmem s x"
  using unmap_frame_cases [OF assms(1-3)] decrement_references_pmem assms(4)
  by (auto simp: wr_def split: if_splits)

lemma map_frame_pmem:
  assumes ok: "aspace_ok s pd" and va: "pdx va < UPDES"
    and m: "map_frame pd f va perm s = Inr (ret, s')"
    and x: "x \<notin> set (free_frame_list s)" "\<not> is_table s pd x"
  shows "pmem s' x = pmem s x"
proof -
  have pok: "pd_ok s pd" using ok by (simp add: aspace_ok_def)
  have xpd: "x \<noteq> pd" using x by (auto simp: is_table_def)
  obtain t s1 where st: "aspace_ok s1 pd" "t = tbl s1 pd (pdx va)" "x \<noteq> t" "pmem s1 x = pmem s x"
    and m1: "(let pte = rd s1 t (ptx va) in
      if present pte \<and> EXTRACT_ADDRESS pte = to_physical_address f then Inr (0, s1)
      else bindE (if present pte then unmap_frame pd va s1 else Inr ((), s1)) (\<lambda>(_, s).
        let s = upd_fi f (\<lambda>i. i\<lparr>references := references i + 1\<rparr>) s
        in Inr (0, wr t (ptx va) (CONSTRUCT_ENTRY (to_physical_address f) (perm OR PERM_PRESENT)) s)))
      = Inr (ret, s')"
  proof (cases "rd s pd (pdx va) = 0")
    case False
    show thesis
      by (rule that [of s "tbl s pd (pdx va)"])
        (use ok False va x m get_page_table_ok(1) [OF pok va False] in
          \<open>auto simp: map_frame_def Let_def TABLE_IN_MEMORY_def TABLE_NOT_EXIST_def is_table_def cong: if_cong\<close>)
  next
    case True
    obtain t s1 where c: "static_cpt pd va s = Inr (t, s1)"
      using m get_page_table_ok(2) [OF pok va True] by (auto simp: map_frame_def Let_def bindE_eq_Inr)
    note sc = static_cpt_lemma [OF ok va True c]
    have "x \<noteq> t" using sc(6) x(1) by auto
    moreover have "pmem s1 x = pmem s x"
      by (rule static_cpt_pmem [OF c _ xpd \<open>x \<noteq> t\<close>]) (use ok in \<open>simp add: aspace_ok_def\<close>)
    ultimately show thesis
      by (intro that [of s1 t])
        (use sc m c get_page_table_ok(2) [OF pok va True] in \<open>simp_all add: map_frame_def Let_def cong: if_cong\<close>)
  qed
  have pok1: "pd_ok s1 pd" using st(1) by (simp add: aspace_ok_def)
  show ?thesis
  proof (cases "present (rd s1 t (ptx va)) \<and> EXTRACT_ADDRESS (rd s1 t (ptx va)) = to_physical_address f")
    case True
    then show ?thesis using m1 st by auto
  next
    case False
    then obtain s2 where u: "(if present (rd s1 t (ptx va)) then unmap_frame pd va s1 else Inr ((), s1)) = Inr ((), s2)"
      and s': "s' = wr t (ptx va) (CONSTRUCT_ENTRY (to_physical_address f) (perm OR PERM_PRESENT))
          (upd_fi f (\<lambda>i. i\<lparr>references := references i + 1\<rparr>) s2)"
      using m1 by (auto simp: Let_def bindE_eq_Inr)
    have "pmem s2 x = pmem s1 x"
      using u unmap_frame_pmem [OF pok1 va, of s2 x] st by (auto split: if_splits)
    then show ?thesis using s' st by (simp add: wr_def upd_fi_def)
  qed
qed

lemma allocate_frame_aspace:
  assumes "aspace_ok s pd" and "allocate_frame s = Inr (f, s')"
  shows "aspace_ok s' pd" "f < number_of_frames s'" "f \<notin> set (free_frame_list s')"
    "mapped s' pd f = {}" "\<not> is_table s' pd f" "references (frames_info s' f) = 0"
    "pte_at s' pd = pte_at s pd"
proof -
  have fr: "frames_ok s" using assms(1) by (simp add: aspace_ok_def)
  note al = allocate_frame_Inr [OF fr assms(2)]
  have e: "pmem s' = pmem s" "number_of_frames s' = number_of_frames s"
    "frames_info s' = frames_info s" by (subst al(2), simp)+
  note cg = aspace_cong [OF e(1), of pd]
  show "aspace_ok s' pd"
    using assms(1) al(3) cg(6) [OF e(2)] by (simp add: aspace_ok_def refs_ok_def cg(5) e)
  have "f \<in> set (free_frame_list s)" using al(1) by simp
  from aspace_free [OF assms(1) this] show "mapped s' pd f = {}" "\<not> is_table s' pd f"
    by (simp_all add: cg)
  show "f < number_of_frames s'" "f \<notin> set (free_frame_list s')"
    "references (frames_info s' f) = 0" "pte_at s' pd = pte_at s pd"
    using al e cg by simp_all
qed

lemma loadtime_map_frame_lemma:
  assumes ok: "aspace_ok s pd" and va: "pdx va < UPDES"
    and f: "f < number_of_frames s" "f \<notin> set (free_frame_list s)"
    and r: "references (frames_info s f) \<noteq> 0xFFFF"
    and perm: "perm AND NOT 0xFFF = 0"
    and m: "loadtime_map_frame pd f va perm s = Inr (ret, s')"
  shows "ret = 0" "aspace_ok s' pd"
    "\<And>k l. k < UPDES \<Longrightarrow> l < 1024 \<Longrightarrow> pte_at s' pd k l = (if k = pdx va \<and> l = ptx va
       then CONSTRUCT_ENTRY (to_physical_address f) (perm OR PERM_PRESENT) else pte_at s pd k l)"
proof -
  let ?i = "pdx va"
  have pok: "pd_ok s pd" using ok by (simp add: aspace_ok_def)
  obtain t s1 where st: "aspace_ok s1 pd" "rd s1 pd ?i \<noteq> 0" "t = tbl s1 pd ?i"
      "\<And>k l. k < UPDES \<Longrightarrow> l < 1024 \<Longrightarrow> pte_at s1 pd k l = pte_at s pd k l"
      "number_of_frames s1 = number_of_frames s" "f \<notin> set (free_frame_list s1)"
      "frames_info s1 f = frames_info s f"
    and m1: "ret = 0" "s' = wr t (ptx va) (CONSTRUCT_ENTRY (to_physical_address f) (perm OR PERM_PRESENT))
          (upd_fi f (\<lambda>i. i\<lparr>references := references i + 1\<rparr>) s1)"
  proof (cases "rd s pd ?i = 0")
    case False
    show thesis
      by (rule that [of s "tbl s pd ?i"])
        (use ok False f m SKVA_table [OF pok va False] in
          \<open>simp_all add: loadtime_map_frame_def Let_def\<close>)
  next
    case True
    obtain t s1 where c: "static_cpt pd va s = Inr (t, s1)"
      using m True by (auto simp: loadtime_map_frame_def Let_def bindE_eq_Inr)
    note sc = static_cpt_lemma [OF ok va True c]
    have "t \<in> set (free_frame_list s)" using sc(6) by simp
    then have "f \<noteq> t" using f(2) by auto
    then show thesis
      by (intro that [of s1 t])
        (use sc f m c True in \<open>auto simp: loadtime_map_frame_def Let_def bindE_eq_Inr\<close>)
  qed
  have "f < number_of_frames s1" "references (frames_info s1 f) \<noteq> 0xFFFF"
    using st(5,7) f(1) r by simp_all
  note en = enter_mapping [OF st(1) va st(2) this(1) st(6) this(2) perm m1(2) [unfolded st(3)]]
  show "ret = 0" by (rule m1(1))
  show "aspace_ok s' pd" by (rule en(1))
  show "pte_at s' pd k l = (if k = pdx va \<and> l = ptx va
       then CONSTRUCT_ENTRY (to_physical_address f) (perm OR PERM_PRESENT) else pte_at s pd k l)"
    if "k < UPDES" "l < 1024" for k l
    using en(2) [OF that] st(4) [OF that] by simp
qed

lemma and_one_zero: "e AND PERM_PRESENT = 0 \<longleftrightarrow> \<not> present e"
  by (simp add: present_iff_bit PERM_PRESENT_def and_one_eq bit_0 even_iff_mod_2_eq_zero)

lemma check_va2pa_ok:
  assumes "pd_ok s pd" and "pdx va < UPDES"
  shows "check_va2pa pd va s = Inr (if present (pte_at s pd (pdx va) (ptx va))
           then EXTRACT_ADDRESS (pte_at s pd (pdx va) (ptx va)) else NOT 0, s)"
proof (cases "rd s pd (pdx va) = 0")
  case True
  then show ?thesis by (simp add: check_va2pa_def pte_at_def)
next
  case False
  then show ?thesis
    using SKVA_table [OF assms False] pd_okD(1) [OF assms False]
    by (simp add: check_va2pa_def and_one_zero pte_at_def Let_def)
qed

section \<open>Properties\<close>

lemma tiny_aspace: "aspace_ok tiny 3"
proof -
  have m: "mapped tiny 3 f = {}" for f
    by (simp add: mapped_def pte_at_def rd_def tiny_def)
  have t: "is_table tiny 3 f \<longleftrightarrow> f = 3" for f
    by (simp add: is_table_def rd_def tiny_def)
  have "frames_ok tiny" by (auto simp: frames_ok_def tiny_def zero_fi_def)
  moreover have "pd_ok tiny 3" by (simp add: pd_ok_def rd_def tiny_def pte_at_def)
  moreover have "refs_ok tiny 3"
    by (simp add: refs_ok_def uses_def m t) (simp add: tiny_def)
  ultimately show ?thesis by (simp add: aspace_ok_def)
qed

lemma user_small: "pdx 0x800000 = 2" "ptx 0x800000 = 0"
  by (simp_all add: pdx_def PDX_def ptx_def PTX_def)

text \<open>The small machine with frame 15 handed out and mapped at \<open>0x800000\<close>.\<close>

definition tiny15 :: kernel where
  "tiny15 = tiny\<lparr>free_frame_list := [4, 5, 6, 7, 8, 9, 10, 11, 12, 13, 14]\<rparr>"

lemma tiny15_aspace: "aspace_ok tiny15 3"
proof -
  have p: "pmem tiny15 = pmem tiny" "number_of_frames tiny15 = number_of_frames tiny"
    "frames_info tiny15 = frames_info tiny" by (simp_all add: tiny15_def)
  note cg = aspace_cong [OF p(1), of 3]
  have "frames_ok tiny15" by (auto simp: frames_ok_def tiny15_def tiny_def zero_fi_def)
  then show ?thesis
    using tiny_aspace cg(6) [OF p(2)] by (simp add: aspace_ok_def refs_ok_def cg(5) p)
qed

definition tiny15_mapped :: kernel where
  "tiny15_mapped = (case map_frame 3 15 0x800000 PERM_USER tiny15 of Inr (_, s) \<Rightarrow> s | Inl _ \<Rightarrow> tiny15)"

lemma static_cpt_tiny15:
  "static_cpt 3 0x800000 tiny15 =
     Inr (4, wr_page 4 zero_page (wr 3 2 0x4007 (upd_fi 4 (\<lambda>i. i\<lparr>references := 1\<rparr>)
       (tiny15\<lparr>free_frame_list := [5, 6, 7, 8, 9, 10, 11, 12, 13, 14]\<rparr>))))"
proof -
  have "allocate_frame tiny15 = Inr (4, tiny15\<lparr>free_frame_list := [5, 6, 7, 8, 9, 10, 11, 12, 13, 14]\<rparr>)"
    using tiny15_aspace by (intro allocate_frame_Cons) (simp_all add: aspace_ok_def tiny15_def)
  then show ?thesis
    by (simp add: static_cpt_def Let_def user_small to_physical_address_def CONSTRUCT_ENTRY_def
        perm_defs STATIC_KERNEL_VIRTUAL_ADDRESS_def PPN_def tiny15_def tiny_def)
qed

lemma map_frame_tiny15:
  "\<exists>s. map_frame 3 15 0x800000 PERM_USER tiny15 = Inr (0, s)"
proof -
  have "rd tiny15 3 (pdx 0x800000) = 0" by (simp add: rd_def tiny15_def tiny_def)
  moreover have "pd_ok tiny15 3" using tiny15_aspace by (simp add: aspace_ok_def)
  ultimately have g: "get_page_table 3 0x800000 tiny15 = Inr ((TABLE_NOT_EXIST, None), tiny15)"
    by (intro get_page_table_ok(2)) (simp_all add: user_small UPDES_def)
  show ?thesis
    by (simp add: map_frame_def Let_def g static_cpt_tiny15 user_small rd_wr_page zero_page_def)
qed

lemma map_frame_tiny15_mapped:
  "map_frame 3 15 0x800000 PERM_USER tiny15 = Inr (0, tiny15_mapped)"
  using map_frame_tiny15 by (auto simp: tiny15_mapped_def)

text \<open>
  C1: mapping a frame that is not free installs the requested translation with the requested
  permissions: the new entry is the address of the frame together with \<open>perm\<close> and the present bit, and
  the frame has one reference more. The one exception is a page that already maps this frame: its entry
  and the reference count stay as they were, so the permissions of such a page do not change, whatever
  is asked for. In both cases \<open>check_va2pa\<close> (what the hardware computes) returns the address of the frame;
  every other page of the address space keeps its entry, whether or not the operation had to create
  a page table or to unmap another frame first, and the address-space invariant is preserved. The
  operation returns when the page table exists or a frame is free for it.
\<close>

theorem map_frame_correct:
  assumes "aspace_ok s pd" and "pdx va < pdx USER_TOP"
    and "f < number_of_frames s" and "f \<notin> set (free_frame_list s)"
    and "references (frames_info s f) \<noteq> 0xFFFF" and "perm AND NOT 0xFFF = 0"
    and "rd s pd (pdx va) \<noteq> 0 \<or> free_frame_list s \<noteq> []"
  shows "\<exists>s'. map_frame pd f va perm s = Inr (0, s') \<and> aspace_ok s' pd \<and>
    (let e = pte_at s pd (pdx va) (ptx va); e' = pte_at s' pd (pdx va) (ptx va) in
     if present e \<and> EXTRACT_ADDRESS e = to_physical_address f
     then e' = e \<and> references (frames_info s' f) = references (frames_info s f)
     else e' = to_physical_address f OR perm OR PERM_PRESENT \<and>
          references (frames_info s' f) = references (frames_info s f) + 1) \<and>
    check_va2pa pd va s' = Inr (to_physical_address f, s') \<and>
    (\<forall>k l. k < UPDES \<and> l < 1024 \<and> (k, l) \<noteq> (pdx va, ptx va) \<longrightarrow> pte_at s' pd k l = pte_at s pd k l)"
proof -
  have va: "pdx va < UPDES" using assms(2) by (simp add: UPDES_USER_TOP)
  obtain ret s' where r: "map_frame pd f va perm s = Inr (ret, s')"
    using map_frame_returns [OF assms(1) va assms(7)] by blast
  note m = map_frame_lemma [OF assms(1) va assms(3-6) r]
  have "pd_ok s' pd" using m(2) by (simp add: aspace_ok_def)
  moreover have "EXTRACT_ADDRESS (pte_at s' pd (pdx va) (ptx va)) = to_physical_address f"
    using m(4) PPN_to_pa_roundtrip by metis
  ultimately have "check_va2pa pd va s' = Inr (to_physical_address f, s')"
    using m(3) check_va2pa_ok [OF _ va, of s' pd] by simp
  then show ?thesis
    using m(1,2,5,6,7) r by (intro exI [of _ s']) (simp add: entry_after_map_def maps_frame_def Let_def)
qed

theorem map_frame_correct_witness:
  "aspace_ok tiny15_mapped 3 \<and> check_va2pa 3 0x800000 tiny15_mapped = Inr (0xF000, tiny15_mapped) \<and>
   pte_at tiny15_mapped 3 2 0 = 0xF000 OR PERM_USER OR PERM_PRESENT"
proof -
  have "to_physical_address 15 = 0xF000" by (simp add: to_physical_address_def)
  moreover have "free_frame_list tiny15 \<noteq> []" by (simp add: tiny15_def)
  moreover have "pte_at tiny15 3 2 0 = 0" by (simp add: pte_at_def rd_def tiny15_def tiny_def)
  ultimately show ?thesis
    using map_frame_correct [OF tiny15_aspace, of "0x800000" 15 "PERM_USER"] map_frame_tiny15_mapped
    by (simp add: user_small UPDES_def UPDES_USER_TOP [symmetric] perm_defs)
      (simp add: tiny15_def tiny_def)
qed

text \<open>
  C8: unmapping a page clears its entry and no other, counts the reference of the frame down,
  puts the frame on the free list exactly when that was the last reference, and preserves the
  address-space invariant.
\<close>

theorem unmap_frame_correct:
  assumes "aspace_ok s pd" and "pdx va < pdx USER_TOP"
    and "g = unat (PPN (pte_at s pd (pdx va) (ptx va)))"
  shows "\<exists>s'. unmap_frame pd va s = Inr ((), s') \<and> aspace_ok s' pd \<and>
    (\<forall>k l. k < UPDES \<and> l < 1024 \<longrightarrow>
       pte_at s' pd k l = (if k = pdx va \<and> l = ptx va then 0 else pte_at s pd k l)) \<and>
    (if pte_at s pd (pdx va) (ptx va) = 0 then s' = s
     else references (frames_info s' g) = references (frames_info s g) - 1 \<and>
          free_frame_list s' = (if references (frames_info s g) = 1 then g # free_frame_list s
                                else free_frame_list s))"
proof -
  have va: "pdx va < UPDES" using assms(2) by (simp add: UPDES_USER_TOP)
  have pok: "pd_ok s pd" using assms(1) by (simp add: aspace_ok_def)
  obtain s' where r: "unmap_frame pd va s = Inr ((), s')"
    using unmap_frame_returns [OF assms(1) va] by blast
  note u = unmap_frame_lemma [OF assms(1) va r]
  have "if pte_at s pd (pdx va) (ptx va) = 0 then s' = s
     else references (frames_info s' g) = references (frames_info s g) - 1 \<and>
          free_frame_list s' = (if references (frames_info s g) = 1 then g # free_frame_list s
                                else free_frame_list s)"
  proof (cases "pte_at s pd (pdx va) (ptx va) = 0")
    case True
    then show ?thesis using unmap_frame_cases [OF pok va r] by simp
  next
    case False
    then obtain t where t: "decrement_references g s = Inr ((), t)"
      "s' = wr (tbl s pd (pdx va)) (ptx va) 0 t"
      using unmap_frame_cases [OF pok va r] assms(3) by auto
    then show ?thesis
      using decrement_references_Inr [OF t(1)] False by auto
  qed
  then show ?thesis using u(1,2) r by simp
qed

theorem unmap_frame_correct_witness:
  "\<exists>s'. unmap_frame 3 0x800000 tiny15_mapped = Inr ((), s') \<and> aspace_ok s' 3 \<and>
     15 \<in> set (free_frame_list s')"
proof -
  let ?t = "wr 4 0 0xF005 (upd_fi 15 (\<lambda>i. i\<lparr>references := references i + 1\<rparr>)
     (wr_page 4 zero_page (wr 3 2 0x4007 (upd_fi 4 (\<lambda>i. i\<lparr>references := 1\<rparr>)
       (tiny15\<lparr>free_frame_list := [5, 6, 7, 8, 9, 10, 11, 12, 13, 14]\<rparr>)))))"
  have pa: "to_physical_address 15 = 0xF000" by (simp add: to_physical_address_def)
  have mapped: "aspace_ok tiny15_mapped 3"
    using map_frame_lemma(2) [OF tiny15_aspace _ _ _ _ _ map_frame_tiny15_mapped]
    by (simp add: user_small UPDES_def perm_defs) (simp add: tiny15_def tiny_def)
  have "rd tiny15 3 (pdx 0x800000) = 0" by (simp add: rd_def tiny15_def tiny_def)
  moreover have "pd_ok tiny15 3" using tiny15_aspace by (simp add: aspace_ok_def)
  ultimately have g: "get_page_table 3 0x800000 tiny15 = Inr ((TABLE_NOT_EXIST, None), tiny15)"
    by (intro get_page_table_ok(2)) (simp_all add: user_small UPDES_def)
  have t: "tiny15_mapped = ?t"
    by (simp add: tiny15_mapped_def map_frame_def Let_def g static_cpt_tiny15 user_small rd_wr_page
        zero_page_def pa CONSTRUCT_ENTRY_def perm_defs)
  have pde: "rd tiny15_mapped 3 2 = 0x4007"
    unfolding t by (simp add: rd_wr rd_wr_page)
  have tb: "tbl tiny15_mapped 3 2 = 4" by (simp add: tbl_def pde PPN_def)
  have pte: "pte_at tiny15_mapped 3 2 0 = 0xF005"
    by (simp add: pte_at_def pde tb) (simp add: t rd_wr)
  have ref: "references (frames_info tiny15_mapped 15) = 1"
    unfolding t by (simp add: tiny15_def tiny_def)
  have fl: "15 \<notin> set (free_frame_list tiny15_mapped)" "number_of_frames tiny15_mapped = 16"
    unfolding t by (simp_all add: tiny15_def tiny_def)
  show ?thesis
    using unmap_frame_correct [OF mapped _ refl, of "0x800000"] ref
    by (auto simp: user_small UPDES_USER_TOP [symmetric] UPDES_def pte PPN_def)
qed

text \<open>
  C17: no use after free. In an address space that satisfies the invariant, a frame handed out by
  \<open>allocate_frame\<close> is not mapped anywhere in it, is neither its page directory nor one of its
  page tables, and leaves the free list; the allocator stops the kernel only when no frame is free.
\<close>

theorem allocate_frame_unused:
  assumes "aspace_ok s pd"
  shows "(case allocate_frame s of
      Inl _ \<Rightarrow> free_frame_list s = []
    | Inr (f, s') \<Rightarrow> mapped s pd f = {} \<and> \<not> is_table s pd f \<and> f < number_of_frames s \<and>
        free_frame_list s = f # free_frame_list s' \<and> f \<notin> set (free_frame_list s') \<and> aspace_ok s' pd)"
proof (cases "free_frame_list s")
  case Nil
  then show ?thesis using allocate_frame_Nil [OF Nil] by (auto split: sum.splits)
next
  case (Cons f fs)
  have fr: "frames_ok s" using assms by (simp add: aspace_ok_def)
  note a = allocate_frame_Cons [OF fr Cons]
  show ?thesis
    unfolding a
    using aspace_free [OF assms, of f] allocate_frame_aspace(1) [OF assms a]
      allocate_frame_Inr(1,4,5) [OF fr a] Cons by simp
qed

theorem allocate_frame_unused_witness: "mapped tiny 3 4 = {}"
proof -
  have "free_frame_list tiny = 4 # [5, 6, 7, 8, 9, 10, 11, 12, 13, 14, 15]" by (simp add: tiny_def)
  moreover have "frames_ok tiny" using tiny_aspace by (simp add: aspace_ok_def)
  ultimately have a: "allocate_frame tiny =
      Inr (4, tiny\<lparr>free_frame_list := [5, 6, 7, 8, 9, 10, 11, 12, 13, 14, 15]\<rparr>)"
    by (intro allocate_frame_Cons)
  show ?thesis using allocate_frame_unused [OF tiny_aspace] by (simp add: a)
qed

end
