(* ===== verification/Page_File.thy ===== *)
theory Page_File
  imports Address_Space
begin

text \<open>
  The page file and the table file of an environment (\<^verbatim>\<open>kern/file_manager.c\<close>): the two-level disk
  page directory, adding, updating, reading and removing pages, and freeing everything. A disk
  directory is a frame whose entries point to disk page tables, and a disk page table holds the
  disk frame number (\<open>dfn\<close>) of every page, 0 when the page is not in the file. Sources and targets
  of transfers are page contents: \<open>ptr_zero_page\<close>, \<open>ptr_temp_page\<close>, the program image, or a user page
  reached through the current address space.
\<close>

section \<open>Directories and tables\<close>

definition get_disk_page_directory :: "nat \<Rightarrow> kernel \<Rightarrow> int result" where
  "get_disk_page_directory e s =
     (case disk_env_pgdir (envs s e) of
        Some _ \<Rightarrow> Inr (0, s)
      | None \<Rightarrow>
          bindE (allocate_frame s) (\<lambda>(p, s).
          let s = upd_fi p (\<lambda>i. i\<lparr>references := 1\<rparr>) s in
          bindE (STATIC_KERNEL_VIRTUAL_ADDRESS (to_physical_address p) s) (\<lambda>k.
          let s = upd_env e (\<lambda>en. en\<lparr>disk_env_pgdir := Some k,
                    disk_env_pgdir_PA := to_physical_address p\<rparr>) s in
          Inr (0, wr_page k zero_page s))))"

text \<open>The result is \<open>*ptr_disk_page_table\<close>; the function itself always returns 0.\<close>

definition get_disk_page_table :: "nat \<Rightarrow> uint32 \<Rightarrow> bool \<Rightarrow> kernel \<Rightarrow> nat option result" where
  "get_disk_page_table dd virtual_address create s =
     (let dde = rd s dd (pdx virtual_address) in
      bindE (STATIC_KERNEL_VIRTUAL_ADDRESS (EXTRACT_ADDRESS dde) s) (\<lambda>k.
      if dde = 0 then
        if create then
          bindE (allocate_frame s) (\<lambda>(f, s).
          let phys_page_table = to_physical_address f in
          bindE (STATIC_KERNEL_VIRTUAL_ADDRESS phys_page_table s) (\<lambda>t.
          let s = upd_fi f (\<lambda>i. i\<lparr>references := 1\<rparr>) s;
              s = wr dd (pdx virtual_address) (CONSTRUCT_ENTRY phys_page_table PERM_PRESENT) s
          in Inr (Some t, wr_page t zero_page s)))
        else Inr (None, s)
      else Inr (Some k, s)))"

section \<open>Pages\<close>

text \<open>The common part of \<open>pf_add_env_page\<close> and \<open>pf_add_empty_env_page\<close>: the disk frame of the
  page, allocated if the page has none; \<open>None\<close> when the page file is full.\<close>

definition pf_get_dfn :: "nat \<Rightarrow> uint32 \<Rightarrow> kernel \<Rightarrow> uint32 option result" where
  "pf_get_dfn e virtual_address s =
     bindE (get_disk_page_directory e s) (\<lambda>(_, s).
     bindE (deref (disk_env_pgdir (envs s e))) (\<lambda>dd.
     bindE (get_disk_page_table dd virtual_address True s) (\<lambda>(pt, s).
     bindE (deref pt) (\<lambda>t.
     let dfn = rd s t (ptx virtual_address) in
     if dfn = 0 then
       bindE (allocate_disk_frame dfn s) (\<lambda>((r, dfn), s).
       if r = E_NO_PAGE_FILE_SPACE then Inr (None, s)
       else Inr (Some dfn, wr t (ptx virtual_address) dfn s))
     else Inr (Some dfn, s)))))"

definition pf_add_env_page :: "nat \<Rightarrow> uint32 \<Rightarrow> (nat \<Rightarrow> uint32) \<Rightarrow> kernel \<Rightarrow> int result" where
  "pf_add_env_page e virtual_address dataSrc s =
     (if \<not> virtual_address < KERNEL_BASE then Inl (AssertFailed ''virtual_address < KERNEL_BASE'')
      else bindE (pf_get_dfn e virtual_address s) (\<lambda>(d, s).
        case d of None \<Rightarrow> Inr (E_NO_PAGE_FILE_SPACE, s)
        | Some dfn \<Rightarrow> write_disk_page dfn dataSrc s))"

definition pf_add_empty_env_page :: "nat \<Rightarrow> uint32 \<Rightarrow> bool \<Rightarrow> kernel \<Rightarrow> int result" where
  "pf_add_empty_env_page e virtual_address initializeByZero s =
     (if initializeByZero then pf_add_env_page e virtual_address (pmem s ptr_zero_page) s
      else if \<not> virtual_address < KERNEL_BASE then Inl (AssertFailed ''virtual_address < KERNEL_BASE'')
      else bindE (pf_get_dfn e virtual_address s) (\<lambda>(d, s).
        case d of None \<Rightarrow> Inr (E_NO_PAGE_FILE_SPACE, s) | Some dfn \<Rightarrow> Inr (0, s)))"

definition pf_update_env_page :: "nat \<Rightarrow> uint32 \<Rightarrow> nat \<Rightarrow> kernel \<Rightarrow> int result" where
  "pf_update_env_page e virtual_address f s =
     (let s = upd_env e (\<lambda>en. en\<lparr>nPageOut := nPageOut en + 1\<rparr>) s in
      if \<not> virtual_address < KERNEL_BASE then Inl (AssertFailed ''virtual_address < KERNEL_BASE'')
      else bindE (get_disk_page_directory e s) (\<lambda>(_, s).
        bindE (deref (disk_env_pgdir (envs s e))) (\<lambda>dd.
        bindE (get_disk_page_table dd virtual_address False s) (\<lambda>(pt, s).
        case pt of None \<Rightarrow> Inr (E_PAGE_NOT_EXIST_IN_PF, s)
        | Some t \<Rightarrow>
            (let dfn = rd s t (ptx virtual_address) in
             if dfn = 0 then Inr (E_PAGE_NOT_EXIST_IN_PF, s)
             else bindE (STATIC_KERNEL_VIRTUAL_ADDRESS (to_physical_address f) s) (\<lambda>k.
               write_disk_page dfn (pmem s k) s))))))"

text \<open>
  A kernel access to a whole user page goes through the page tables of the address space in \<open>CR3\<close>.
  Write protection applies to the kernel too (\<open>CR0_WP\<close>); the hardware sets the accessed and dirty
  bits of the entry.
\<close>

definition cpu_write_page :: "uint32 \<Rightarrow> (nat \<Rightarrow> uint32) \<Rightarrow> kernel \<Rightarrow> unit result" where
  "cpu_write_page va p s =
     (let pd = unat (PPN (cr3 s)); pde = rd s pd (pdx va) in
      if \<not> present pde \<or> pde AND PERM_WRITEABLE = 0 then Inl PageFault
      else let t = unat (PPN pde); pte = rd s t (ptx va) in
        if \<not> present pte \<or> pte AND PERM_WRITEABLE = 0 then Inl PageFault
        else let s = wr pd (pdx va) (pde OR PERM_USED) s;
                 s = wr t (ptx va) (pte OR PERM_USED OR PERM_MODIFIED) s
             in Inr ((), wr_page (unat (PPN pte)) p s))"

definition cpu_read_page :: "uint32 \<Rightarrow> kernel \<Rightarrow> nat \<Rightarrow> uint32" where
  "cpu_read_page va s =
     (let pde = rd s (unat (PPN (cr3 s))) (pdx va);
          pte = rd s (unat (PPN pde)) (ptx va) in pmem s (unat (PPN pte)))"

text \<open>The modified bit is reset in the page tables of \<open>curenv\<close>, not of \<open>ptr_env\<close>.\<close>

definition pf_read_env_page :: "nat \<Rightarrow> uint32 \<Rightarrow> kernel \<Rightarrow> int result" where
  "pf_read_env_page e virtual_address s =
     (let s = upd_env e (\<lambda>en. en\<lparr>nPageIn := nPageIn en + 1\<rparr>) s;
          virtual_address = ROUNDDOWN virtual_address PAGE_SIZE in
      case disk_env_pgdir (envs s e) of
        None \<Rightarrow> Inr (E_PAGE_NOT_EXIST_IN_PF, s)
      | Some dd \<Rightarrow>
          bindE (get_disk_page_table dd virtual_address False s) (\<lambda>(pt, s).
          case pt of None \<Rightarrow> Inr (E_PAGE_NOT_EXIST_IN_PF, s)
          | Some t \<Rightarrow>
              (let dfn = rd s t (ptx virtual_address) in
               if dfn = 0 then Inr (E_PAGE_NOT_EXIST_IN_PF, s)
               else
                 bindE (read_disk_page dfn (cpu_read_page virtual_address s) s) (\<lambda>(disk_read_error, p).
                 bindE (cpu_write_page virtual_address p s) (\<lambda>(_, s).
                 bindE (deref (curenv s)) (\<lambda>c.
                 bindE (pt_set_page_permissions c virtual_address 0 PERM_MODIFIED s) (\<lambda>(_, s).
                 Inr (disk_read_error, s))))))))"

definition pf_remove_env_page :: "nat \<Rightarrow> uint32 \<Rightarrow> kernel \<Rightarrow> unit result" where
  "pf_remove_env_page e virtual_address s =
     (case disk_env_pgdir (envs s e) of
        None \<Rightarrow> Inr ((), s)
      | Some dd \<Rightarrow>
          bindE (get_disk_page_table dd virtual_address False s) (\<lambda>(pt, s).
          case pt of None \<Rightarrow> Inr ((), s)
          | Some t \<Rightarrow> free_disk_frame (rd s t (ptx virtual_address)) (wr t (ptx virtual_address) 0 s)))"

section \<open>The table file\<close>

definition pf_remove_env_all_tables :: "nat \<Rightarrow> kernel \<Rightarrow> unit result" where
  "pf_remove_env_all_tables e s =
     (case disk_env_tabledir (envs s e) of
        None \<Rightarrow> Inr ((), s)
      | Some td \<Rightarrow>
          bindE (foldE (\<lambda>i s. bindE (free_disk_frame (rd s td i) (wr td i 0 s)) (\<lambda>(_, s). Inr s))
                   [0..<pdx USER_TOP] s) (\<lambda>s. Inr ((), s)))"

definition pf_remove_env_table :: "nat \<Rightarrow> uint32 \<Rightarrow> kernel \<Rightarrow> unit result" where
  "pf_remove_env_table e virtual_address s =
     (case disk_env_tabledir (envs s e) of
        None \<Rightarrow> Inr ((), s)
      | Some td \<Rightarrow>
          free_disk_frame (rd s td (pdx virtual_address)) (wr td (pdx virtual_address) 0 s))"

section \<open>Freeing an environment's page file\<close>

definition pf_free_table :: "nat \<Rightarrow> nat \<Rightarrow> kernel \<Rightarrow> halt + kernel" where
  "pf_free_table dd pdeno s =
     (if rd s dd pdeno AND PERM_PRESENT = 0 then Inr s
      else
        let pa = EXTRACT_ADDRESS (rd s dd pdeno) in
        bindE (STATIC_KERNEL_VIRTUAL_ADDRESS pa s) (\<lambda>pt.
        bindE (foldE (\<lambda>i s. bindE (free_disk_frame (rd s pt i) (wr pt i 0 s)) (\<lambda>(_, s). Inr s))
                 [0..<1024] s) (\<lambda>s.
        bindE (to_frame_info pa (wr dd pdeno 0 s)) (\<lambda>f.
        bindE (decrement_references f (wr dd pdeno 0 s)) (\<lambda>(_, s). Inr s)))))"

definition pf_free_env :: "nat \<Rightarrow> kernel \<Rightarrow> unit result" where
  "pf_free_env e s =
     bindE (deref (disk_env_pgdir (envs s e))) (\<lambda>dd.
     bindE (foldE (pf_free_table dd) [0..<pdx USER_TOP] s) (\<lambda>s.
     bindE (to_frame_info (disk_env_pgdir_PA (envs s e)) s) (\<lambda>f.
     bindE (decrement_references f s) (\<lambda>(_, s).
     let s = upd_env e (\<lambda>en. en\<lparr>disk_env_pgdir := None, disk_env_pgdir_PA := 0\<rparr>) s in
     if disk_env_tabledir (envs s e) = None then Inr ((), s)
     else
       bindE (pf_remove_env_all_tables e s) (\<lambda>(_, s).
       bindE (to_frame_info (disk_env_tabledir_PA (envs s e)) s) (\<lambda>f.
       bindE (decrement_references f s) (\<lambda>(_, s).
       Inr ((), upd_env e (\<lambda>en. en\<lparr>disk_env_tabledir := None, disk_env_tabledir_PA := 0\<rparr>) s))))))))"

section \<open>Counting\<close>

definition pf_calculate_allocated_pages :: "nat \<Rightarrow> kernel \<Rightarrow> nat result" where
  "pf_calculate_allocated_pages e s =
     bindE (deref (disk_env_pgdir (envs s e))) (\<lambda>dd.
     bindE (foldE (\<lambda>i counter.
              if rd s dd i AND PERM_PRESENT = 0 then Inr counter
              else bindE (STATIC_KERNEL_VIRTUAL_ADDRESS (EXTRACT_ADDRESS (rd s dd i)) s) (\<lambda>pt.
                Inr (fold (\<lambda>j c. if rd s pt j \<noteq> 0 then c + 1 else c) [0..<1024] counter)))
            [0..<pdx USER_TOP] 0) (\<lambda>counter. Inr (counter, s)))"

definition pf_calculate_free_frames :: "kernel \<Rightarrow> nat" where
  "pf_calculate_free_frames s = fold (\<lambda>_ n. n + 1) (disk_free_frame_list s) 0"

end
