(* ===== verification/Page_File_Inv.thy ===== *)
theory Page_File_Inv
  imports Page_File
begin

text \<open>
  The invariant of an environment's page file and what its operations do to the stored pages. The
  abstract view is \<open>pf_content\<close>: a partial map from pages to their 1024 words on disk. The
  invariant \<open>pf_ok\<close> makes it well defined: disk page tables are pairwise different frames in use,
  and no two pages share a disk frame or own a free one.
\<close>

section \<open>Invariant and view\<close>

definition dd_ok :: "kernel \<Rightarrow> nat \<Rightarrow> bool" where
  "dd_ok s dd \<longleftrightarrow> dd < number_of_frames s \<and> dd \<notin> set (free_frame_list s) \<and>
     (\<forall>i<1024. rd s dd i \<noteq> 0 \<longrightarrow> tbl s dd i < number_of_frames s \<and>
        tbl s dd i \<notin> set (free_frame_list s) \<and> tbl s dd i \<noteq> dd) \<and>
     (\<forall>i<1024. \<forall>j<1024. rd s dd i \<noteq> 0 \<longrightarrow> rd s dd j \<noteq> 0 \<longrightarrow> tbl s dd i = tbl s dd j \<longrightarrow> i = j) \<and>
     (\<forall>i<1024. \<forall>j<1024. pte_at s dd i j \<noteq> 0 \<longrightarrow> unat (pte_at s dd i j) < PAGES_PER_FILE \<and>
        unat (pte_at s dd i j) \<notin> set (disk_free_frame_list s)) \<and>
     (\<forall>i<1024. \<forall>j<1024. \<forall>k<1024. \<forall>l<1024. pte_at s dd i j \<noteq> 0 \<longrightarrow>
        pte_at s dd i j = pte_at s dd k l \<longrightarrow> i = k \<and> j = l)"

definition pf_ok :: "kernel \<Rightarrow> nat \<Rightarrow> bool" where
  "pf_ok s e \<longleftrightarrow> frames_ok s \<and> disk_list_ok s \<and>
     (case disk_env_pgdir (envs s e) of None \<Rightarrow> True | Some dd \<Rightarrow> dd_ok s dd)"

definition pf_dfn :: "kernel \<Rightarrow> nat \<Rightarrow> nat \<Rightarrow> nat \<Rightarrow> uint32" where
  "pf_dfn s e i j = (case disk_env_pgdir (envs s e) of None \<Rightarrow> 0 | Some dd \<Rightarrow> pte_at s dd i j)"

definition pf_content :: "kernel \<Rightarrow> nat \<Rightarrow> uint32 \<Rightarrow> (nat \<Rightarrow> uint32) option" where
  "pf_content s e va =
     (let d = pf_dfn s e (pdx va) (ptx va) in
      if d = 0 then None else Some (\<lambda>i. if i < 1024 then disk_page s (unat d) i else 0))"

section \<open>Finding the disk frame of a page\<close>

lemma dd_okD:
  assumes "dd_ok s dd" and "i < 1024" and "rd s dd i \<noteq> 0"
  shows "tbl s dd i < number_of_frames s" "tbl s dd i \<notin> set (free_frame_list s)" "tbl s dd i \<noteq> dd"
    "j < 1024 \<Longrightarrow> rd s dd j \<noteq> 0 \<Longrightarrow> tbl s dd i = tbl s dd j \<longleftrightarrow> i = j"
  using assms by (auto simp: dd_ok_def)

lemma dd_ok_page:
  assumes "dd_ok s dd" and "i < 1024" and "j < 1024" and "pte_at s dd i j \<noteq> 0"
  shows "unat (pte_at s dd i j) < PAGES_PER_FILE" "unat (pte_at s dd i j) \<notin> set (disk_free_frame_list s)"
    "k < 1024 \<Longrightarrow> l < 1024 \<Longrightarrow> pte_at s dd i j = pte_at s dd k l \<Longrightarrow> i = k \<and> j = l"
  using assms by (auto simp: dd_ok_def)

lemma SKVA_frame:
  "f < number_of_frames s \<Longrightarrow> number_of_frames s \<le> 2 ^ 20 \<Longrightarrow>
   STATIC_KERNEL_VIRTUAL_ADDRESS (to_physical_address f) s = Inr f"
  by (simp add: STATIC_KERNEL_VIRTUAL_ADDRESS_def PPN_to_physical_address)

lemma get_disk_page_directory_ok:
  assumes ok: "pf_ok s e" and g: "get_disk_page_directory e s = Inr (r, s1)"
  shows "\<exists>dd. disk_env_pgdir (envs s1 e) = Some dd \<and> dd_ok s1 dd \<and> frames_ok s1 \<and> disk_list_ok s1 \<and>
    (\<forall>i<1024. \<forall>j<1024. pte_at s1 dd i j = pf_dfn s e i j) \<and> disk s1 = disk s \<and> ide_fail s1 = ide_fail s \<and>
    disk_free_frame_list s1 = disk_free_frame_list s"
proof (cases "disk_env_pgdir (envs s e)")
  case (Some dd)
  then show ?thesis using ok g by (auto simp: get_disk_page_directory_def pf_ok_def pf_dfn_def)
next
  case None
  have fr: "frames_ok s" and dl: "disk_list_ok s" using ok by (simp_all add: pf_ok_def)
  obtain p s0 where a: "allocate_frame s = Inr (p, s0)"
    using g None by (auto simp: get_disk_page_directory_def bindE_eq_Inr)
  note al = allocate_frame_Inr [OF fr a]
  have e0: "number_of_frames s0 = number_of_frames s" "disk s0 = disk s" "ide_fail s0 = ide_fail s"
    "disk_free_frame_list s0 = disk_free_frame_list s" "envs s0 = envs s" by (subst al(2), simp)+
  have N: "number_of_frames s0 \<le> 2 ^ 20" using al(3) by (simp add: frames_ok_def)
  have sk: "STATIC_KERNEL_VIRTUAL_ADDRESS (to_physical_address p) (upd_fi p h s0) = Inr p" for h
    by (rule SKVA_frame) (use al(4) e0 N in simp_all)
  have s1: "s1 = wr_page p zero_page (upd_env e (\<lambda>en. en\<lparr>disk_env_pgdir := Some p,
      disk_env_pgdir_PA := to_physical_address p\<rparr>) (upd_fi p (\<lambda>i. i\<lparr>references := 1\<rparr>) s0))"
    using g None a sk by (auto simp: get_disk_page_directory_def Let_def)
  have z: "rd s1 p i = 0" for i by (simp add: s1 rd_wr_page zero_page_def)
  have "dd_ok s1 p"
  proof -
    have "p < number_of_frames s1" "p \<notin> set (free_frame_list s1)" using al(4,5) e0 by (simp_all add: s1)
    then show ?thesis unfolding dd_ok_def pte_at_def z by simp
  qed
  moreover have "frames_ok s1" using al(3,5) by (simp add: s1)
  moreover have "disk_list_ok s1" "disk s1 = disk s" "ide_fail s1 = ide_fail s"
    "disk_free_frame_list s1 = disk_free_frame_list s"
    using dl e0 by (simp_all add: disk_list_ok_def s1 wr_page_def upd_env_def upd_fi_def)
  moreover have "disk_env_pgdir (envs s1 e) = Some p" by (simp add: s1)
  moreover have "pte_at s1 p i j = pf_dfn s e i j" for i j
    using None by (simp add: pte_at_def z pf_dfn_def)
  ultimately show ?thesis by blast
qed

lemma PPN_present_entry:
  assumes "f < 2 ^ 20"
  shows "unat (PPN (CONSTRUCT_ENTRY (to_physical_address f) PERM_PRESENT)) = f"
    "CONSTRUCT_ENTRY (to_physical_address f) PERM_PRESENT \<noteq> 0"
proof -
  have "CONSTRUCT_ENTRY (to_physical_address f) PERM_PRESENT =
      CONSTRUCT_ENTRY (to_physical_address f) (0 OR PERM_PRESENT)" by simp
  then show "unat (PPN (CONSTRUCT_ENTRY (to_physical_address f) PERM_PRESENT)) = f"
    "CONSTRUCT_ENTRY (to_physical_address f) PERM_PRESENT \<noteq> 0"
    using CONSTRUCT_frame(1,2) [OF assms, of 0] present_0 by (metis and_zero_eq bit.conj_zero_left)+
qed

lemma get_disk_page_table_ok:
  assumes dd: "dd_ok s dd" and fr: "frames_ok s" and dl: "disk_list_ok s"
    and g: "get_disk_page_table dd va True s = Inr (pt, s1)"
  shows "pt = Some (tbl s1 dd (pdx va)) \<and> rd s1 dd (pdx va) \<noteq> 0 \<and> dd_ok s1 dd \<and> frames_ok s1 \<and>
    disk_list_ok s1 \<and> (\<forall>i<1024. \<forall>j<1024. pte_at s1 dd i j = pte_at s dd i j) \<and> disk s1 = disk s \<and>
    ide_fail s1 = ide_fail s \<and> disk_free_frame_list s1 = disk_free_frame_list s \<and>
    disk_env_pgdir (envs s1 e) = disk_env_pgdir (envs s e)"
proof (cases "rd s dd (pdx va) = 0")
  case False
  have "STATIC_KERNEL_VIRTUAL_ADDRESS (EXTRACT_ADDRESS (rd s dd (pdx va))) s = Inr (tbl s dd (pdx va))"
    using dd_okD(1) [OF dd pdx_less False] by (simp add: STATIC_KERNEL_VIRTUAL_ADDRESS_def tbl_def)
  then show ?thesis using False g dd fr dl by (auto simp: get_disk_page_table_def Let_def)
next
  case True
  let ?i = "pdx va"
  have N0: "0 < number_of_frames s" using dd by (auto simp: dd_ok_def)
  have sk0: "STATIC_KERNEL_VIRTUAL_ADDRESS (EXTRACT_ADDRESS (rd s dd ?i)) s = Inr 0"
    using True N0 by (simp add: STATIC_KERNEL_VIRTUAL_ADDRESS_def EXTRACT_ADDRESS_def PPN_def)
  obtain f s0 where a: "allocate_frame s = Inr (f, s0)"
    using g True sk0 by (auto simp: get_disk_page_table_def Let_def bindE_eq_Inr)
  note al = allocate_frame_Inr [OF fr a]
  have e0: "number_of_frames s0 = number_of_frames s" "disk s0 = disk s" "ide_fail s0 = ide_fail s"
    "disk_free_frame_list s0 = disk_free_frame_list s" "envs s0 = envs s" "pmem s0 = pmem s"
    by (subst al(2), simp)+
  have N: "number_of_frames s0 \<le> 2 ^ 20" using al(3) by (simp add: frames_ok_def)
  then have f20: "f < 2 ^ 20" using al(4) e0(1) by simp
  let ?e = "CONSTRUCT_ENTRY (to_physical_address f) PERM_PRESENT"
  note pe = PPN_present_entry [OF f20]
  have sk: "STATIC_KERNEL_VIRTUAL_ADDRESS (to_physical_address f) s0 = Inr f"
    by (rule SKVA_frame) (use al(4) e0 N in simp_all)
  have pt: "pt = Some f" and s1: "s1 = wr_page f zero_page (wr dd ?i ?e
      (upd_fi f (\<lambda>i. i\<lparr>references := 1\<rparr>) s0))"
    using g True sk0 a sk by (auto simp: get_disk_page_table_def Let_def)
  have ffree: "f \<in> set (free_frame_list s)" using al(1) by simp
  then have fdd: "f \<noteq> dd" using dd by (auto simp: dd_ok_def)
  have rds: "rd s1 dd k = (if k = ?i then ?e else rd s dd k)" for k
    using fdd by (simp add: s1 rd_wr rd_wr_page rd_pmem_cong [OF e0(6)])
  have tb: "tbl s1 dd k = (if k = ?i then f else tbl s dd k)" for k
    by (simp add: tbl_def rds pe)
  have tf: "k < 1024 \<Longrightarrow> rd s dd k \<noteq> 0 \<Longrightarrow> tbl s dd k \<noteq> f" for k
    using dd_okD(2) [OF dd] ffree by auto
  have pte: "pte_at s1 dd k l = pte_at s dd k l" if k: "k < 1024" for k l
  proof (cases "k = ?i")
    case True
    then show ?thesis using \<open>rd s dd ?i = 0\<close> pe(2)
      by (simp add: pte_at_def rds tb) (simp add: s1 rd_wr_page zero_page_def)
  next
    case False
    then show ?thesis using tf [OF k] dd_okD(3) [OF dd k]
      by (auto simp: pte_at_def rds tb) (auto simp: s1 rd_wr rd_wr_page rd_pmem_cong [OF e0(6)])
  qed
  have fl: "set (free_frame_list s1) \<subseteq> set (free_frame_list s)" "f \<notin> set (free_frame_list s1)"
    "number_of_frames s1 = number_of_frames s" "disk_free_frame_list s1 = disk_free_frame_list s"
    using al(1,5) e0 by (auto simp: s1 wr_page_def wr_def upd_fi_def)
  have fN: "f < number_of_frames s1" using al(4) fl(3) by simp
  have "dd_ok s1 dd"
  proof -
    have "tbl s1 dd i < number_of_frames s1 \<and> tbl s1 dd i \<notin> set (free_frame_list s1) \<and> tbl s1 dd i \<noteq> dd"
      if "i < 1024" "rd s1 dd i \<noteq> 0" for i
      using that fN fl fdd dd_okD(1-3) [OF dd that(1)] by (auto simp: tb rds split: if_splits)
    moreover have "i = j" if "i < 1024" "j < 1024" "rd s1 dd i \<noteq> 0" "rd s1 dd j \<noteq> 0"
      "tbl s1 dd i = tbl s1 dd j" for i j
      using that tf dd_okD(4) [OF dd that(1) _ that(2)] by (auto simp: tb rds split: if_splits)
    moreover have "dd < number_of_frames s1" "dd \<notin> set (free_frame_list s1)"
      using dd fl by (auto simp: dd_ok_def)
    ultimately show ?thesis
      using dd unfolding dd_ok_def fl(4) by (simp add: pte fl(3))
  qed
  moreover have "frames_ok s1" using al(3,5) by (simp add: s1)
  moreover have "disk_list_ok s1" "disk s1 = disk s" "ide_fail s1 = ide_fail s"
    "disk_env_pgdir (envs s1 e) = disk_env_pgdir (envs s e)"
    using dl e0 by (simp_all add: disk_list_ok_def s1 wr_page_def wr_def upd_fi_def)
  ultimately show ?thesis using pt pte pe(2) fl(4) by (simp add: tb rds)
qed

text \<open>Entering a disk frame that no page owns.\<close>

lemma dd_ok_wr_dfn:
  assumes dd: "dd_ok s dd" and i: "i < 1024" "rd s dd i \<noteq> 0" and j: "j < 1024"
    and d: "d \<noteq> 0" "unat d < PAGES_PER_FILE" "unat d \<notin> set (disk_free_frame_list s)"
    and new: "\<forall>k<1024. \<forall>l<1024. pte_at s dd k l \<noteq> d"
  shows "dd_ok (wr (tbl s dd i) j d s) dd"
    "\<And>k l. k < 1024 \<Longrightarrow> pte_at (wr (tbl s dd i) j d s) dd k l = (if k = i \<and> l = j then d else pte_at s dd k l)"
proof -
  let ?s = "wr (tbl s dd i) j d s"
  have r: "rd ?s dd k = rd s dd k" for k using dd_okD(3) [OF dd i] by (simp add: rd_wr)
  have t: "tbl ?s dd k = tbl s dd k" for k by (metis r tbl_def)
  show p: "pte_at ?s dd k l = (if k = i \<and> l = j then d else pte_at s dd k l)" if "k < 1024" for k l
  proof (cases "rd s dd k = 0")
    case True
    then show ?thesis using i by (auto simp: pte_at_def r)
  next
    case False
    have "rd ?s (tbl s dd k) l = (if k = i \<and> l = j then d else rd s (tbl s dd k) l)"
      using dd_okD(4) [OF dd i that False] unfolding rd_wr by auto
    then show ?thesis using False by (simp only: pte_at_def r t if_False)
  qed
  have fl: "disk_free_frame_list ?s = disk_free_frame_list s" by (simp add: wr_def)
  show "dd_ok ?s dd"
  proof -
    have q: "unat (pte_at ?s dd k l) < PAGES_PER_FILE \<and> unat (pte_at ?s dd k l) \<notin> set (disk_free_frame_list s)"
      if "k < 1024" "l < 1024" "pte_at ?s dd k l \<noteq> 0" for k l
      using that dd_ok_page(1,2) [OF dd that(1,2)] d p [OF that(1), of l] by (auto split: if_splits)
    have u: "k = m \<and> l = n"
      if "k < 1024" "l < 1024" "m < 1024" "n < 1024" "pte_at ?s dd k l \<noteq> 0"
        "pte_at ?s dd k l = pte_at ?s dd m n" for k l m n
    proof (cases "(k, l) = (i, j) \<or> (m, n) = (i, j)")
      case True
      then show ?thesis using that new p [OF that(1), of l] p [OF that(3), of n]
        by (auto split: if_splits)
    next
      case False
      then have "pte_at s dd k l \<noteq> 0" "pte_at s dd k l = pte_at s dd m n"
        using that p [OF that(1), of l] p [OF that(3), of n] by auto
      then show ?thesis using dd_ok_page(3) [OF dd that(1,2)] that(3,4) by blast
    qed
    have b: "dd < number_of_frames s \<and> dd \<notin> set (free_frame_list s)"
      "\<forall>i<1024. rd s dd i \<noteq> 0 \<longrightarrow> tbl s dd i < number_of_frames s \<and>
        tbl s dd i \<notin> set (free_frame_list s) \<and> tbl s dd i \<noteq> dd"
      "\<forall>i<1024. \<forall>j<1024. rd s dd i \<noteq> 0 \<longrightarrow> rd s dd j \<noteq> 0 \<longrightarrow> tbl s dd i = tbl s dd j \<longrightarrow> i = j"
      using dd unfolding dd_ok_def by blast+
    show ?thesis
      unfolding dd_ok_def r t fl wr_frames
      by (intro conjI b b(1) [THEN conjunct1] b(1) [THEN conjunct2] allI impI)
        (use q u in \<open>blast+\<close>)
  qed
qed

lemma pf_new_dfn_ok:
  assumes t2: "rd s dd i \<noteq> 0" "dd_ok s dd" "frames_ok s" "disk_list_ok s" "disk_env_pgdir (envs s e) = Some dd"
    and ij: "i < 1024" "j < 1024" and z: "pte_at s dd i j = 0"
    and a: "allocate_disk_frame 0 s = Inr ((q, d), s3)"
    and r: "s' = (if q = E_NO_PAGE_FILE_SPACE then s3 else wr (tbl s dd i) j d s3)"
  shows "pf_ok s' e" "disk s' = disk s" "ide_fail s' = ide_fail s"
    "q = E_NO_PAGE_FILE_SPACE \<Longrightarrow> disk_free_frame_list s = []"
    "q \<noteq> E_NO_PAGE_FILE_SPACE \<Longrightarrow> d \<noteq> 0 \<and> unat d < PAGES_PER_FILE"
    "k < 1024 \<Longrightarrow> l < 1024 \<Longrightarrow> pf_dfn s' e k l =
       (if q \<noteq> E_NO_PAGE_FILE_SPACE \<and> k = i \<and> l = j then d else pte_at s dd k l)"
proof -
  note al = allocate_disk_frame_ok [OF t2(4) a]
  have s3: "s3 = s\<lparr>disk_free_frame_list := disk_free_frame_list s3\<rparr>"
    using a by (auto simp: allocate_disk_frame_def bindE_eq_Inr split: option.splits)
  have pm: "pmem s3 = pmem s" by (subst s3, simp)
  have e3: "number_of_frames s3 = number_of_frames s" "free_frame_list s3 = free_frame_list s"
    "frames_info s3 = frames_info s" "envs s3 = envs s" "disk s3 = disk s" "ide_fail s3 = ide_fail s"
    by (subst s3, simp)+
  note cg = aspace_cong [OF pm, of dd]
  have rd3: "rd s3 = rd s" using pm by (simp add: rd_def fun_eq_iff)
  have dd3: "dd_ok s3 dd"
    using t2(2) al(2) unfolding dd_ok_def cg e3 rd3 by (auto split: if_splits)
  have fr3: "frames_ok s3" using t2(3) e3 by (simp add: frames_ok_def)
  show "disk s' = disk s" "ide_fail s' = ide_fail s" using r e3 by (simp_all add: wr_def)
  have "pf_ok s' e \<and> (q = E_NO_PAGE_FILE_SPACE \<longrightarrow> disk_free_frame_list s = []) \<and>
    (q \<noteq> E_NO_PAGE_FILE_SPACE \<longrightarrow> d \<noteq> 0 \<and> unat d < PAGES_PER_FILE) \<and>
    (\<forall>k<1024. \<forall>l<1024. pf_dfn s' e k l =
       (if q \<noteq> E_NO_PAGE_FILE_SPACE \<and> k = i \<and> l = j then d else pte_at s dd k l))"
  proof (cases "q = E_NO_PAGE_FILE_SPACE")
    case True
    moreover have "disk_free_frame_list s = []" using al(2) True by (auto simp: E_NO_PAGE_FILE_SPACE_def)
    moreover have "pf_ok s3 e" using dd3 fr3 al(1) e3 t2(5) by (simp add: pf_ok_def)
    ultimately show ?thesis using r t2(5) e3 cg by (simp add: pf_dfn_def)
  next
    case False
    have d: "1 \<le> unat d" "unat d < PAGES_PER_FILE" "unat d \<in> set (disk_free_frame_list s)"
      "unat d \<notin> set (disk_free_frame_list s3)" using al(2) False by auto
    have dz: "d \<noteq> 0" using d(1) by auto
    have nz3: "rd s3 dd i \<noteq> 0" using t2(1) rd3 by simp
    have new: "\<forall>k<1024. \<forall>l<1024. pte_at s3 dd k l \<noteq> d"
      using dd_ok_page(2) [OF t2(2)] d(3) dz cg(2) by auto
    note w = dd_ok_wr_dfn [OF dd3 ij(1) nz3 ij(2) dz d(2,4) new]
    have s': "s' = wr (tbl s3 dd i) j d s3" using r False cg(1) by auto
    have "pf_ok s' e"
      using w(1) fr3 al(1) e3 t2(5) by (simp add: pf_ok_def s' disk_list_ok_def) (simp add: wr_def)
    moreover have "pf_dfn s' e k l = (if k = i \<and> l = j then d else pte_at s dd k l)"
      if "k < 1024" for k l
      using w(2) [OF that, of l] t2(5) e3 cg by (simp add: pf_dfn_def s')
    ultimately show ?thesis using False dz d(2) by simp
  qed
  then show "pf_ok s' e" "q = E_NO_PAGE_FILE_SPACE \<Longrightarrow> disk_free_frame_list s = []"
    "q \<noteq> E_NO_PAGE_FILE_SPACE \<Longrightarrow> d \<noteq> 0 \<and> unat d < PAGES_PER_FILE"
    "k < 1024 \<Longrightarrow> l < 1024 \<Longrightarrow> pf_dfn s' e k l =
       (if q \<noteq> E_NO_PAGE_FILE_SPACE \<and> k = i \<and> l = j then d else pte_at s dd k l)" by blast+
qed

lemma pf_get_dfn_ok:
  assumes ok: "pf_ok s e" and g: "pf_get_dfn e va s = Inr (r, s')"
  shows "pf_ok s' e" "disk s' = disk s" "ide_fail s' = ide_fail s"
    "r = None \<Longrightarrow> disk_free_frame_list s = [] \<and> pf_dfn s e (pdx va) (ptx va) = 0 \<and>
       (\<forall>i<1024. \<forall>j<1024. pf_dfn s' e i j = pf_dfn s e i j)"
    "r = Some d \<Longrightarrow> d \<noteq> 0 \<and> unat d < PAGES_PER_FILE \<and>
       (pf_dfn s e (pdx va) (ptx va) \<noteq> 0 \<longrightarrow> d = pf_dfn s e (pdx va) (ptx va)) \<and>
       (\<forall>i<1024. \<forall>j<1024. pf_dfn s' e i j = (if i = pdx va \<and> j = ptx va then d else pf_dfn s e i j))"
proof -
  let ?i = "pdx va" and ?j = "ptx va"
  note ij = pdx_less [of va] ptx_less [of va]
  obtain r1 s1 where g1: "get_disk_page_directory e s = Inr (r1, s1)"
    using g by (auto simp: pf_get_dfn_def bindE_eq_Inr)
  obtain dd where dd: "disk_env_pgdir (envs s1 e) = Some dd" "dd_ok s1 dd" "frames_ok s1"
      "disk_list_ok s1" "\<forall>i<1024. \<forall>j<1024. pte_at s1 dd i j = pf_dfn s e i j" "disk s1 = disk s"
      "ide_fail s1 = ide_fail s" "disk_free_frame_list s1 = disk_free_frame_list s"
    using get_disk_page_directory_ok [OF ok g1] by blast
  obtain pt s2 where g2: "get_disk_page_table dd va True s1 = Inr (pt, s2)"
    using g g1 dd(1) by (auto simp: pf_get_dfn_def bindE_eq_Inr)
  note t = get_disk_page_table_ok [OF dd(2-4) g2, where e = e]
  have t2: "rd s2 dd ?i \<noteq> 0" "dd_ok s2 dd" "frames_ok s2" "disk_list_ok s2"
    "disk_env_pgdir (envs s2 e) = Some dd" "disk s2 = disk s" "ide_fail s2 = ide_fail s"
    "disk_free_frame_list s2 = disk_free_frame_list s" using t dd by simp_all
  have p2: "pte_at s2 dd i j = pf_dfn s e i j" if "i < 1024" "j < 1024" for i j
    using t dd(5) that by simp
  have pe: "pte_at s2 dd ?i ?j = rd s2 (tbl s2 dd ?i) ?j" using t2(1) by (simp add: pte_at_def)
  have g3: "(if pte_at s2 dd ?i ?j = 0 then
       bindE (allocate_disk_frame (pte_at s2 dd ?i ?j) s2) (\<lambda>((r, dfn), s).
       if r = E_NO_PAGE_FILE_SPACE then Inr (None, s)
       else Inr (Some dfn, wr (tbl s2 dd ?i) ?j dfn s))
     else Inr (Some (pte_at s2 dd ?i ?j), s2)) = Inr (r, s')"
    using g g1 dd(1) g2 t by (simp add: pf_get_dfn_def Let_def pe cong: if_cong)
  have "pf_ok s' e \<and> disk s' = disk s \<and> ide_fail s' = ide_fail s \<and>
    (r = None \<longrightarrow> disk_free_frame_list s = [] \<and> pf_dfn s e ?i ?j = 0 \<and>
       (\<forall>i<1024. \<forall>j<1024. pf_dfn s' e i j = pf_dfn s e i j)) \<and>
    (\<forall>d. r = Some d \<longrightarrow> d \<noteq> 0 \<and> unat d < PAGES_PER_FILE \<and>
       (pf_dfn s e ?i ?j \<noteq> 0 \<longrightarrow> d = pf_dfn s e ?i ?j) \<and>
       (\<forall>i<1024. \<forall>j<1024. pf_dfn s' e i j = (if i = ?i \<and> j = ?j then d else pf_dfn s e i j)))"
  proof (cases "pte_at s2 dd ?i ?j = 0")
    case False
    then have "r = Some (pte_at s2 dd ?i ?j)" "s' = s2" using g3 by auto
    moreover have "pf_ok s2 e" using t2 by (simp add: pf_ok_def)
    moreover have "pf_dfn s2 e i j = pf_dfn s e i j" if "i < 1024" "j < 1024" for i j
      using p2 [OF that] t2(5) by (simp add: pf_dfn_def)
    ultimately show ?thesis
      using t2 False dd_ok_page(1) [OF t2(2) ij False] p2 [OF ij] by auto
  next
    case True
    obtain q d s3 where a: "allocate_disk_frame 0 s2 = Inr ((q, d), s3)"
      and r: "if q = E_NO_PAGE_FILE_SPACE then r = None \<and> s' = s3
              else r = Some d \<and> s' = wr (tbl s2 dd ?i) ?j d s3"
      using g3 True by (auto simp: bindE_eq_Inr split: if_splits)
    then have "s' = (if q = E_NO_PAGE_FILE_SPACE then s3 else wr (tbl s2 dd ?i) ?j d s3)" by simp
    note n = pf_new_dfn_ok [OF t2(1-5) ij True a this]
    show ?thesis
      using n(1-5) r t2(6-8) p2 [OF ij] True by (auto simp: n(6) p2 split: if_splits)
  qed
  then show "pf_ok s' e" "disk s' = disk s" "ide_fail s' = ide_fail s"
    "r = None \<Longrightarrow> disk_free_frame_list s = [] \<and> pf_dfn s e ?i ?j = 0 \<and>
       (\<forall>i<1024. \<forall>j<1024. pf_dfn s' e i j = pf_dfn s e i j)"
    "r = Some d \<Longrightarrow> d \<noteq> 0 \<and> unat d < PAGES_PER_FILE \<and>
       (pf_dfn s e ?i ?j \<noteq> 0 \<longrightarrow> d = pf_dfn s e ?i ?j) \<and>
       (\<forall>i<1024. \<forall>j<1024. pf_dfn s' e i j = (if i = ?i \<and> j = ?j then d else pf_dfn s e i j))"
    by blast+
qed

section \<open>Properties\<close>

lemma pf_write_stores:
  assumes "pf_ok s e" and g: "pf_get_dfn e va s = Inr (Some dfn, s1)"
    and wd: "write_disk_page dfn src s1 = Inr (r, s')"
  shows "pf_ok s' e" and "r = 0" and "pf_content s' e va = Some (\<lambda>i. if i < 1024 then src i else 0)"
    and "(pdx va', ptx va') \<noteq> (pdx va, ptx va) \<Longrightarrow> pf_content s' e va' = pf_content s e va'"
proof -
  note q = pf_get_dfn_ok [OF assms(1) g]
  have dpp: "disk_page s1 x i = disk_page s x i" for x i using q(2) by (simp add: disk_page_def)
  note q5 = q(5) [OF refl]
  have dN: "unat dfn < PAGES_PER_FILE" using q5 by simp
  note wr = write_disk_page_ok [OF dN wd]
  have e': "pmem s' = pmem s1" "envs s' = envs s1" "number_of_frames s' = number_of_frames s1"
    "free_frame_list s' = free_frame_list s1" "frames_info s' = frames_info s1"
    "disk_free_frame_list s' = disk_free_frame_list s1"
    by (subst wr(4), simp)+
  note cg = aspace_cong [OF e'(1)]
  have rd': "rd s' = rd s1" using e'(1) by (simp add: rd_def fun_eq_iff)
  show "pf_ok s' e"
    using q(1) unfolding pf_ok_def frames_ok_def disk_list_ok_def dd_ok_def cg e' rd' .
  have dfn': "pf_dfn s' e = pf_dfn s1 e"
    by (simp add: pf_dfn_def fun_eq_iff e' cg split: option.split)
  show "pf_content s' e va = Some (\<lambda>i. if i < 1024 then src i else 0)"
    using q5 wr(5) by (simp add: pf_content_def dfn' fun_eq_iff)
  show "r = 0" by (rule wr(2))
  show "pf_content s' e va' = pf_content s e va'" if ne: "(pdx va', ptx va') \<noteq> (pdx va, ptx va)"
  proof -
    let ?d = "pf_dfn s e (pdx va') (ptx va')"
    have d1: "pf_dfn s1 e (pdx va') (ptx va') = ?d" using q5 ne by auto
    have "unat ?d \<noteq> unat dfn" if nz: "?d \<noteq> 0"
    proof
      assume "unat ?d = unat dfn"
      then have "pf_dfn s1 e (pdx va') (ptx va') = pf_dfn s1 e (pdx va) (ptx va)"
        using d1 q5 by (simp add: word_unat_eq_iff)
      moreover obtain dd where "disk_env_pgdir (envs s1 e) = Some dd" "dd_ok s1 dd"
        using q(1) nz d1 by (auto simp: pf_ok_def pf_dfn_def split: option.splits)
      ultimately show False
        using dd_ok_page(3) [of s1 dd "pdx va'" "ptx va'" "pdx va" "ptx va"] d1 nz ne
        by (auto simp: pf_dfn_def)
    qed
    then show ?thesis
      using d1 wr(6) by (auto simp: pf_content_def dfn' dpp fun_eq_iff Let_def)
  qed
qed

text \<open>
  C7: writing a page to the page file. On success the page file of the environment holds exactly
  the source words for this page, every other page keeps what it held, and the invariant is
  preserved, whether the disk directory, the disk page table or the disk frame existed before or
  not; when the page file is full (and the page is not in it) the stored pages do not change.
\<close>

theorem pf_add_env_page_stores:
  assumes "pf_ok s e" and "pf_add_env_page e va src s = Inr (r, s')"
  shows "pf_ok s' e \<and>
    (if r = 0 then pf_content s' e va = Some (\<lambda>i. if i < 1024 then src i else 0)
     else r = E_NO_PAGE_FILE_SPACE \<and> disk_free_frame_list s = [] \<and> pf_content s e va = None \<and>
          pf_content s' e va = None) \<and>
    (\<forall>va'. (pdx va', ptx va') \<noteq> (pdx va, ptx va) \<longrightarrow> pf_content s' e va' = pf_content s e va')"
proof -
  obtain d s1 where g: "pf_get_dfn e va s = Inr (d, s1)"
    and w: "(case d of None \<Rightarrow> Inr (E_NO_PAGE_FILE_SPACE, s1) | Some dfn \<Rightarrow> write_disk_page dfn src s1) = Inr (r, s')"
    using assms(2) by (auto simp: pf_add_env_page_def bindE_eq_Inr split: if_splits)
  note q = pf_get_dfn_ok [OF assms(1) g]
  have dp: "disk_page s1 = disk_page s" using q(2) by (simp add: disk_page_def fun_eq_iff)
  have dpp: "disk_page s1 x i = disk_page s x i" for x i by (simp add: dp)
  show ?thesis
  proof (cases d)
    case None
    then have "r = E_NO_PAGE_FILE_SPACE" "s' = s1" using w by auto
    moreover have "pf_content s1 e va' = pf_content s e va'" for va'
      using q(4) [OF None] by (simp add: pf_content_def dpp Let_def cong: if_cong)
    moreover have "pf_content s e va = None" using q(4) [OF None] by (simp add: pf_content_def)
    ultimately show ?thesis using q(1) q(4) [OF None] by (simp add: E_NO_PAGE_FILE_SPACE_def)
  next
    case (Some dfn)
    then have "write_disk_page dfn src s1 = Inr (r, s')" using w by simp
    note st = pf_write_stores [OF assms(1) g [unfolded Some] this]
    show ?thesis using st(1-3) st(4) by simp
  qed
qed

lemma tiny_pf_ok: "pf_ok tiny 0"
proof -
  have "frames_ok tiny" using tiny_aspace by (simp add: aspace_ok_def)
  then show ?thesis
    by (simp add: pf_ok_def) (simp add: disk_list_ok_def tiny_def zero_env_def PAGES_PER_FILE_def)
qed

lemma pf_add_tiny: "\<exists>s'. pf_add_env_page 0 0x800000 (\<lambda>_. 7) tiny = Inr (0, s')"
proof -
  let ?l = "[5, 6, 7, 8, 9, 10, 11, 12, 13, 14, 15]"
  have fr: "frames_ok tiny" using tiny_aspace by (simp add: aspace_ok_def)
  have a1: "allocate_frame tiny = Inr (4, tiny\<lparr>free_frame_list := ?l\<rparr>)"
    by (rule allocate_frame_Cons [OF fr]) (simp add: tiny_def)
  have p: "disk_env_pgdir (envs tiny 0) = None" by (simp add: tiny_def zero_env_def)
  let ?s1 = "wr_page 4 zero_page (upd_env 0 (\<lambda>en. en\<lparr>disk_env_pgdir := Some 4,
      disk_env_pgdir_PA := to_physical_address 4\<rparr>) (upd_fi 4 (\<lambda>i. i\<lparr>references := 1\<rparr>)
      (tiny\<lparr>free_frame_list := ?l\<rparr>)))"
  have sk: "STATIC_KERNEL_VIRTUAL_ADDRESS (to_physical_address f) s = Inr f"
    if "f < 16" "number_of_frames s = 16" for f s
    by (rule SKVA_frame) (use that in auto)
  have N: "number_of_frames tiny = 16" by (simp add: tiny_def)
  have g1: "get_disk_page_directory 0 tiny = Inr (0, ?s1)"
    using a1 p sk [of 4 "upd_fi 4 (\<lambda>i. i\<lparr>references := 1\<rparr>) (tiny\<lparr>free_frame_list := ?l\<rparr>)"] N
    by (simp add: get_disk_page_directory_def Let_def)
  have ok1: "dd_ok ?s1 4" "frames_ok ?s1" "disk_list_ok ?s1" "disk_env_pgdir (envs ?s1 0) = Some 4"
    using get_disk_page_directory_ok [OF tiny_pf_ok g1] by auto
  have f1: "free_frame_list ?s1 = 5 # [6, 7, 8, 9, 10, 11, 12, 13, 14, 15]" by simp
  note a2 = allocate_frame_Cons [OF ok1(2) f1]
  obtain pt s2 where g2: "get_disk_page_table 4 0x800000 True ?s1 = Inr (pt, s2)"
  proof -
    have z: "rd ?s1 4 2 = 0" by (simp add: rd_wr_page zero_page_def)
    have "STATIC_KERNEL_VIRTUAL_ADDRESS (EXTRACT_ADDRESS 0) ?s1 = Inr 0"
      by (simp add: STATIC_KERNEL_VIRTUAL_ADDRESS_def EXTRACT_ADDRESS_def PPN_def N)
    then show thesis
      using that a2 sk [of 5 "?s1\<lparr>free_frame_list := [6, 7, 8, 9, 10, 11, 12, 13, 14, 15]\<rparr>"] N z
      by (simp add: get_disk_page_table_def Let_def user_small)
  qed
  note t = get_disk_page_table_ok [OF ok1(1-3) g2, where e = 0]
  have d1: "disk_free_frame_list ?s1 = [1, 2, 3, 4, 5]" "ide_fail ?s1 = (\<lambda>_. False)"
    by (simp_all add: wr_page_def upd_env_def upd_fi_def tiny_def)
  have "pte_at ?s1 4 2 0 = 0" by (simp add: pte_at_def rd_wr_page zero_page_def)
  then have "pte_at s2 4 2 0 = 0" using t by (simp add: user_small)
  then have z2: "rd s2 (tbl s2 4 2) 0 = 0" "rd s2 4 2 \<noteq> 0" using t by (simp_all add: pte_at_def user_small)
  have "\<exists>s3. pf_get_dfn 0 0x800000 tiny = Inr (Some 1, s3) \<and> ide_fail s3 = (\<lambda>_. False)"
    using g1 g2 t ok1(4) d1 z2
    by (simp add: pf_get_dfn_def user_small Let_def allocate_disk_frame_def E_NO_PAGE_FILE_SPACE_def)
      (simp add: wr_def)
  then obtain s3 where g3: "pf_get_dfn 0 0x800000 tiny = Inr (Some 1, s3)" "ide_fail s3 = (\<lambda>_. False)"
    by blast
  have "\<exists>s'. write_disk_page 1 (\<lambda>_. 7) s3 = Inr (0, s')"
    using ide_write_loop_ok [of 8 "ide_fail s3"] g3(2)
    by (simp add: write_disk_page_def ide_write_def SECTOR_PER_PAGE_def)
  then show ?thesis using g3(1) by (simp add: pf_add_env_page_def KERNEL_BASE_def)
qed

theorem pf_add_env_page_stores_witness:
  "\<exists>s'. pf_add_env_page 0 0x800000 (\<lambda>_. 7) tiny = Inr (0, s') \<and>
     pf_content s' 0 0x800000 = Some (\<lambda>i. if i < 1024 then 7 else 0)"
proof -
  obtain s' where a: "pf_add_env_page 0 0x800000 (\<lambda>_. 7) tiny = Inr (0, s')"
    using pf_add_tiny by blast
  then show ?thesis using pf_add_env_page_stores [OF tiny_pf_ok a] by simp
qed

end
