(* ===== verification/Working_Set.thy ===== *)
theory Working_Set
  imports Paging
begin

text \<open>
  The page and table working sets of an environment and the buffered-frame lists
  (\<^verbatim>\<open>kern/memory_manager.c\<close>), and the strategy switches kept beside them. The arrays are functions
  on their index; \<open>page_WS_max_size\<close> is at most \<open>PWS_MAX_SIZE\<close>, which \<open>initialize_environment\<close>
  relies on. A loop with \<open>break\<close> is a \<open>find\<close> over the indexes.
\<close>

section \<open>Page working set\<close>

definition set_ws :: "nat \<Rightarrow> uint32 \<Rightarrow> uint8 \<Rightarrow> env \<Rightarrow> env" where
  "set_ws i va em en = en\<lparr>ptr_pageWorkingSet := (ptr_pageWorkingSet en)(i := \<lparr>ws_va = va, ws_empty = em\<rparr>)\<rparr>"

definition set_tws :: "nat \<Rightarrow> uint32 \<Rightarrow> uint8 \<Rightarrow> env \<Rightarrow> env" where
  "set_tws i va em en = en\<lparr>ptr_tws := (ptr_tws en)(i := \<lparr>ws_va = va, ws_empty = em\<rparr>)\<rparr>"

definition env_page_ws_get_size :: "env \<Rightarrow> nat" where
  "env_page_ws_get_size e =
     fold (\<lambda>i counter. if ws_empty (ptr_pageWorkingSet e i) = 0 then counter + 1 else counter)
       [0..<page_WS_max_size e] 0"

definition env_page_ws_clear_entry :: "nat \<Rightarrow> env \<Rightarrow> halt + env" where
  "env_page_ws_clear_entry entry_index e =
     (if \<not> entry_index < page_WS_max_size e then Inl (AssertFailed ''entry_index'')
      else Inr (set_ws entry_index 0 1 e))"

definition env_page_ws_invalidate :: "uint32 \<Rightarrow> env \<Rightarrow> halt + env" where
  "env_page_ws_invalidate virtual_address e =
     (case find (\<lambda>i. ROUNDDOWN (ws_va (ptr_pageWorkingSet e i)) PAGE_SIZE = ROUNDDOWN virtual_address PAGE_SIZE)
             [0..<page_WS_max_size e] of
        None \<Rightarrow> Inr e
      | Some i \<Rightarrow> env_page_ws_clear_entry i e)"

definition env_page_ws_set_entry :: "nat \<Rightarrow> uint32 \<Rightarrow> env \<Rightarrow> halt + env" where
  "env_page_ws_set_entry entry_index virtual_address e =
     (if \<not> entry_index < page_WS_max_size e then Inl (AssertFailed ''entry_index'')
      else if \<not> virtual_address < USER_TOP then Inl (AssertFailed ''virtual_address'')
      else Inr (set_ws entry_index (ROUNDDOWN virtual_address PAGE_SIZE) 0 e))"

definition env_page_ws_get_virtual_address :: "nat \<Rightarrow> env \<Rightarrow> halt + uint32" where
  "env_page_ws_get_virtual_address entry_index e =
     (if \<not> entry_index < page_WS_max_size e then Inl (AssertFailed ''entry_index'')
      else Inr (ROUNDDOWN (ws_va (ptr_pageWorkingSet e entry_index)) PAGE_SIZE))"

definition env_page_ws_is_entry_empty :: "nat \<Rightarrow> env \<Rightarrow> uint8" where
  "env_page_ws_is_entry_empty entry_index e = ws_empty (ptr_pageWorkingSet e entry_index)"

section \<open>Table working set\<close>

definition env_table_ws_get_size :: "env \<Rightarrow> nat" where
  "env_table_ws_get_size e =
     fold (\<lambda>i counter. if ws_empty (ptr_tws e i) = 0 then counter + 1 else counter) [0..<TWS_MAX_SIZE] 0"

definition env_table_ws_clear_entry :: "nat \<Rightarrow> env \<Rightarrow> halt + env" where
  "env_table_ws_clear_entry entry_index e =
     (if \<not> entry_index < TWS_MAX_SIZE then Inl (AssertFailed ''entry_index'')
      else Inr (set_tws entry_index 0 1 e))"

definition env_table_ws_invalidate :: "uint32 \<Rightarrow> env \<Rightarrow> halt + env" where
  "env_table_ws_invalidate virtual_address e =
     (case find (\<lambda>i. ROUNDDOWN (ws_va (ptr_tws e i)) PTSIZE = ROUNDDOWN virtual_address PTSIZE)
             [0..<TWS_MAX_SIZE] of
        None \<Rightarrow> Inr e
      | Some i \<Rightarrow> env_table_ws_clear_entry i e)"

definition env_table_ws_set_entry :: "nat \<Rightarrow> uint32 \<Rightarrow> env \<Rightarrow> halt + env" where
  "env_table_ws_set_entry entry_index virtual_address e =
     (if \<not> entry_index < TWS_MAX_SIZE then Inl (AssertFailed ''entry_index'')
      else if \<not> virtual_address < USER_TOP then Inl (AssertFailed ''virtual_address'')
      else Inr (set_tws entry_index (ROUNDDOWN virtual_address PTSIZE) 0 e))"

definition env_table_ws_get_virtual_address :: "nat \<Rightarrow> env \<Rightarrow> halt + uint32" where
  "env_table_ws_get_virtual_address entry_index e =
     (if \<not> entry_index < TWS_MAX_SIZE then Inl (AssertFailed ''entry_index'')
      else Inr (ROUNDDOWN (ws_va (ptr_tws e entry_index)) PTSIZE))"

definition env_table_ws_is_entry_empty :: "nat \<Rightarrow> env \<Rightarrow> uint8" where
  "env_table_ws_is_entry_empty entry_index e = ws_empty (ptr_tws e entry_index)"

definition addTableToTableWorkingSet :: "uint32 \<Rightarrow> env \<Rightarrow> env" where
  "addTableToTableWorkingSet tableAddress e =
     (let tableAddress = ROUNDDOWN tableAddress PTSIZE;
          e = set_tws (table_last_WS_index e) tableAddress 0 e
      in e\<lparr>table_last_WS_index := (table_last_WS_index e + 1) mod TWS_MAX_SIZE\<rparr>)"

section \<open>Buffered frames\<close>

definition bufferList_add_page :: "nat list \<Rightarrow> nat \<Rightarrow> halt + nat list" where
  "bufferList_add_page bufferList f = lst_insert_tail f bufferList"

definition bufferlist_remove_page :: "nat list \<Rightarrow> nat \<Rightarrow> halt + nat list" where
  "bufferlist_remove_page bufferList f = lst_remove f bufferList"

section \<open>Heap placement strategies\<close>

definition UHP_PLACE_FIRSTFIT :: uint32 where "UHP_PLACE_FIRSTFIT = 1"
definition UHP_PLACE_BESTFIT :: uint32 where "UHP_PLACE_BESTFIT = 2"
definition UHP_PLACE_NEXTFIT :: uint32 where "UHP_PLACE_NEXTFIT = 3"
definition UHP_PLACE_WORSTFIT :: uint32 where "UHP_PLACE_WORSTFIT = 4"

definition KHP_PLACE_CONTALLOC :: uint32 where "KHP_PLACE_CONTALLOC = 0"
definition KHP_PLACE_FIRSTFIT :: uint32 where "KHP_PLACE_FIRSTFIT = 1"
definition KHP_PLACE_BESTFIT :: uint32 where "KHP_PLACE_BESTFIT = 2"
definition KHP_PLACE_NEXTFIT :: uint32 where "KHP_PLACE_NEXTFIT = 3"
definition KHP_PLACE_WORSTFIT :: uint32 where "KHP_PLACE_WORSTFIT = 4"

text \<open>One setter and one test for each strategy, as in the source.\<close>

definition set_UHP :: "uint32 \<Rightarrow> kernel \<Rightarrow> kernel" where
  "set_UHP v s = s\<lparr>cfg := (cfg s)\<lparr>UHeapPlacementStrategy := v\<rparr>\<rparr>"

definition set_KHP :: "uint32 \<Rightarrow> kernel \<Rightarrow> kernel" where
  "set_KHP v s = s\<lparr>cfg := (cfg s)\<lparr>KHeapPlacementStrategy := v\<rparr>\<rparr>"

definition setUHeapPlacementStrategyFIRSTFIT :: "kernel \<Rightarrow> kernel" where
  "setUHeapPlacementStrategyFIRSTFIT = set_UHP UHP_PLACE_FIRSTFIT"
definition setUHeapPlacementStrategyBESTFIT :: "kernel \<Rightarrow> kernel" where
  "setUHeapPlacementStrategyBESTFIT = set_UHP UHP_PLACE_BESTFIT"
definition setUHeapPlacementStrategyNEXTFIT :: "kernel \<Rightarrow> kernel" where
  "setUHeapPlacementStrategyNEXTFIT = set_UHP UHP_PLACE_NEXTFIT"
definition setUHeapPlacementStrategyWORSTFIT :: "kernel \<Rightarrow> kernel" where
  "setUHeapPlacementStrategyWORSTFIT = set_UHP UHP_PLACE_WORSTFIT"

definition isUHeapPlacementStrategyFIRSTFIT :: "kernel \<Rightarrow> uint32" where
  "isUHeapPlacementStrategyFIRSTFIT s = (if UHeapPlacementStrategy (cfg s) = UHP_PLACE_FIRSTFIT then 1 else 0)"
definition isUHeapPlacementStrategyBESTFIT :: "kernel \<Rightarrow> uint32" where
  "isUHeapPlacementStrategyBESTFIT s = (if UHeapPlacementStrategy (cfg s) = UHP_PLACE_BESTFIT then 1 else 0)"
definition isUHeapPlacementStrategyNEXTFIT :: "kernel \<Rightarrow> uint32" where
  "isUHeapPlacementStrategyNEXTFIT s = (if UHeapPlacementStrategy (cfg s) = UHP_PLACE_NEXTFIT then 1 else 0)"
definition isUHeapPlacementStrategyWORSTFIT :: "kernel \<Rightarrow> uint32" where
  "isUHeapPlacementStrategyWORSTFIT s = (if UHeapPlacementStrategy (cfg s) = UHP_PLACE_WORSTFIT then 1 else 0)"

definition setKHeapPlacementStrategyCONTALLOC :: "kernel \<Rightarrow> kernel" where
  "setKHeapPlacementStrategyCONTALLOC = set_KHP KHP_PLACE_CONTALLOC"
definition setKHeapPlacementStrategyFIRSTFIT :: "kernel \<Rightarrow> kernel" where
  "setKHeapPlacementStrategyFIRSTFIT = set_KHP KHP_PLACE_FIRSTFIT"
definition setKHeapPlacementStrategyBESTFIT :: "kernel \<Rightarrow> kernel" where
  "setKHeapPlacementStrategyBESTFIT = set_KHP KHP_PLACE_BESTFIT"
definition setKHeapPlacementStrategyNEXTFIT :: "kernel \<Rightarrow> kernel" where
  "setKHeapPlacementStrategyNEXTFIT = set_KHP KHP_PLACE_NEXTFIT"
definition setKHeapPlacementStrategyWORSTFIT :: "kernel \<Rightarrow> kernel" where
  "setKHeapPlacementStrategyWORSTFIT = set_KHP KHP_PLACE_WORSTFIT"

definition isKHeapPlacementStrategyCONTALLOC :: "kernel \<Rightarrow> uint32" where
  "isKHeapPlacementStrategyCONTALLOC s = (if KHeapPlacementStrategy (cfg s) = KHP_PLACE_CONTALLOC then 1 else 0)"
definition isKHeapPlacementStrategyFIRSTFIT :: "kernel \<Rightarrow> uint32" where
  "isKHeapPlacementStrategyFIRSTFIT s = (if KHeapPlacementStrategy (cfg s) = KHP_PLACE_FIRSTFIT then 1 else 0)"
definition isKHeapPlacementStrategyBESTFIT :: "kernel \<Rightarrow> uint32" where
  "isKHeapPlacementStrategyBESTFIT s = (if KHeapPlacementStrategy (cfg s) = KHP_PLACE_BESTFIT then 1 else 0)"
definition isKHeapPlacementStrategyNEXTFIT :: "kernel \<Rightarrow> uint32" where
  "isKHeapPlacementStrategyNEXTFIT s = (if KHeapPlacementStrategy (cfg s) = KHP_PLACE_NEXTFIT then 1 else 0)"
definition isKHeapPlacementStrategyWORSTFIT :: "kernel \<Rightarrow> uint32" where
  "isKHeapPlacementStrategyWORSTFIT s = (if KHeapPlacementStrategy (cfg s) = KHP_PLACE_WORSTFIT then 1 else 0)"

section \<open>Lemmas\<close>

text \<open>The entries in use.\<close>

definition ws_used :: "env \<Rightarrow> nat set" where
  "ws_used e = {i. i < page_WS_max_size e \<and> ws_empty (ptr_pageWorkingSet e i) = 0}"

lemma fold_count: "fold (\<lambda>i c. if P i then c + 1 else c) xs n = n + length (filter P xs)"
  by (induction xs arbitrary: n) auto

lemma env_page_ws_get_size_card: "env_page_ws_get_size e = card (ws_used e)"
proof -
  let ?l = "filter (\<lambda>i. ws_empty (ptr_pageWorkingSet e i) = 0) [0..<page_WS_max_size e]"
  have "ws_used e = set ?l" by (auto simp: ws_used_def)
  moreover have "card (set ?l) = length ?l" by (rule distinct_card) simp
  ultimately show ?thesis
    using fold_count [where P = "\<lambda>i. ws_empty (ptr_pageWorkingSet e i) = 0"
        and xs = "[0..<page_WS_max_size e]" and n = 0]
    by (simp only: env_page_ws_get_size_def add_0)
qed

lemma set_ws_sel [simp]:
  "page_WS_max_size (set_ws i va em e) = page_WS_max_size e"
  "ptr_pageWorkingSet (set_ws i va em e) j = (if j = i then \<lparr>ws_va = va, ws_empty = em\<rparr> else ptr_pageWorkingSet e j)"
  by (simp_all add: set_ws_def)

lemma ws_used_set_ws:
  "i < page_WS_max_size e \<Longrightarrow> ws_used (set_ws i va em e) =
     (if em = 0 then insert i (ws_used e) else ws_used e - {i})"
  by (auto simp: ws_used_def)

lemma finite_ws_used [simp]: "finite (ws_used e)"
  by (rule finite_subset [of _ "{..<page_WS_max_size e}"]) (auto simp: ws_used_def)

lemma find_first_Some:
  "find P [0..<n] = Some i \<longleftrightarrow> i < n \<and> P i \<and> (\<forall>j<i. \<not> P j)"
  by (auto simp: find_Some_iff)

section \<open>Properties\<close>

text \<open>
  The working-set array behaves as a set of pages. Setting a free entry records the page
  address rounded down, makes the entry used and the size one larger; invalidating an address that
  lies in a recorded page frees exactly the first entry of that page and makes the size one smaller.
\<close>

theorem page_ws_set_invalidate:
  assumes "i < page_WS_max_size e" and "ws_empty (ptr_pageWorkingSet e i) = 1"
    and "va < USER_TOP" and "env_page_ws_set_entry i va e = Inr e1"
  shows "env_page_ws_get_virtual_address i e1 = Inr (ROUNDDOWN va PAGE_SIZE) \<and>
    env_page_ws_is_entry_empty i e1 = 0 \<and>
    env_page_ws_get_size e1 = env_page_ws_get_size e + 1 \<and>
    (\<exists>j e2. j \<le> i \<and> env_page_ws_invalidate va e1 = Inr e2 \<and> ws_empty (ptr_pageWorkingSet e2 j) = 1 \<and>
       ROUNDDOWN (ws_va (ptr_pageWorkingSet e1 j)) PAGE_SIZE = ROUNDDOWN va PAGE_SIZE \<and>
       ws_used e2 = ws_used e1 - {j})"
proof -
  let ?r = "ROUNDDOWN va PAGE_SIZE"
  have e1: "e1 = set_ws i ?r 0 e"
    using assms by (simp add: env_page_ws_set_entry_def)
  have rr: "ROUNDDOWN ?r PAGE_SIZE = ?r"
    by (rule ROUNDDOWN_idem) (rule ROUNDDOWN_multiple)
  let ?P = "\<lambda>k. ROUNDDOWN (ws_va (ptr_pageWorkingSet e1 k)) PAGE_SIZE = ?r"
  have Pi: "?P i" using rr by (simp add: e1)
  define j where "j = (LEAST k. ?P k)"
  have j: "?P j" "j \<le> i" using Pi unfolding j_def by (rule LeastI, rule Least_le)
  have "\<forall>k<j. \<not> ?P k" unfolding j_def using not_less_Least by blast
  then have f: "find ?P [0..<page_WS_max_size e1] = Some j"
    unfolding find_first_Some using j assms(1) by (simp add: e1)
  have jm: "j < page_WS_max_size e1" using j(2) assms(1) by (simp add: e1)
  then have "env_page_ws_invalidate va e1 = Inr (set_ws j 0 1 e1)"
    by (simp add: env_page_ws_invalidate_def f env_page_ws_clear_entry_def)
  then have "\<exists>j e2. j \<le> i \<and> env_page_ws_invalidate va e1 = Inr e2 \<and>
      ws_empty (ptr_pageWorkingSet e2 j) = 1 \<and> ?P j \<and> ws_used e2 = ws_used e1 - {j}"
    using j jm by (intro exI [of _ j] exI [of _ "set_ws j 0 1 e1"]) (simp add: ws_used_set_ws)
  moreover have "i \<notin> ws_used e" using assms(2) by (simp add: ws_used_def)
  then have "env_page_ws_get_size e1 = env_page_ws_get_size e + 1"
    using assms(1) by (simp add: env_page_ws_get_size_card e1 ws_used_set_ws)
  moreover have "env_page_ws_get_virtual_address i e1 = Inr ?r" "env_page_ws_is_entry_empty i e1 = 0"
    using assms(1) rr by (simp_all add: e1 env_page_ws_get_virtual_address_def env_page_ws_is_entry_empty_def)
  ultimately show ?thesis by blast
qed

definition ws3 :: env where
  "ws3 = zero_env\<lparr>page_WS_max_size := 3, ptr_pageWorkingSet := (\<lambda>_. \<lparr>ws_va = 0, ws_empty = 1\<rparr>)\<rparr>"

theorem page_ws_set_invalidate_witness:
  "env_page_ws_get_size (set_ws 1 0x801000 0 ws3) = env_page_ws_get_size ws3 + 1"
proof -
  have a: "1 < page_WS_max_size ws3" and b: "ws_empty (ptr_pageWorkingSet ws3 1) = 1"
    by (simp_all add: ws3_def)
  have c: "(0x801234 :: uint32) < USER_TOP" and d: "ROUNDDOWN 0x801234 PAGE_SIZE = 0x801000"
    by (simp_all add: layout_defs ROUNDDOWN_def)
  have h: "env_page_ws_set_entry 1 0x801234 ws3 = Inr (set_ws 1 0x801000 0 ws3)"
    using a c d by (simp add: env_page_ws_set_entry_def)
  show ?thesis
    by (rule page_ws_set_invalidate [OF a b c h, THEN conjunct2, THEN conjunct2, THEN conjunct1])
qed

end
