(* ===== verification/Page_Fault.thy ===== *)
theory Page_Fault
  imports Page_File_Inv Working_Set
begin

text \<open>
  The fault handlers of \<^verbatim>\<open>kern/trap.c\<close>: table faults, page faults with the two LRU lists of an
  environment, and the switches of the replacement algorithm. A \<open>WorkingSetElement\<close> pointer is
  the index of the element in \<open>ptr_pageWorkingSet\<close>. The second half shows that the page fault
  handler implements a segmented FIFO policy on page numbers: \<open>sfifo\<close> works on the pages of the
  active and the second list only, and \<open>page_fault_handler_refines\<close> relates the two.
\<close>

section \<open>Page faults\<close>

definition chage_PRESENT :: "nat \<Rightarrow> uint32 \<Rightarrow> int \<Rightarrow> kernel \<Rightarrow> unit result" where
  "chage_PRESENT e va val s =
     bindE (deref (env_page_directory (envs s e))) (\<lambda>pd.
     bindE (get_page_table pd va s) (\<lambda>((r, pt), s).
     case pt of None \<Rightarrow> Inr ((), s)
     | Some t \<Rightarrow>
         if val = 0 then Inr ((), wr t (ptx va) (rd s t (ptx va) AND NOT PERM_PRESENT) s)
         else Inr ((), wr t (ptx va) (rd s t (ptx va) OR PERM_PRESENT) s)))"

definition PERM_PUW :: uint32 where
  "PERM_PUW = PERM_PRESENT OR PERM_USER OR PERM_WRITEABLE"

definition set_ws_va :: "nat \<Rightarrow> uint32 \<Rightarrow> env \<Rightarrow> env" where
  "set_ws_va i va en = en\<lparr>ptr_pageWorkingSet :=
     (ptr_pageWorkingSet en)(i := (ptr_pageWorkingSet en i)\<lparr>ws_va := va\<rparr>)\<rparr>"

definition set_lists :: "nat \<Rightarrow> nat list \<Rightarrow> nat list \<Rightarrow> nat list \<Rightarrow> kernel \<Rightarrow> kernel" where
  "set_lists e w a d = upd_env e (\<lambda>en. en\<lparr>PageWorkingSetList := w, ActiveList := a, SecondList := d\<rparr>)"

text \<open>The end of \<open>Placement\<close>: the new element enters the active list; when that list is full its
  last element moves to the second list and loses its permissions.\<close>

definition enter_active :: "nat \<Rightarrow> nat \<Rightarrow> kernel \<Rightarrow> unit result" where
  "enter_active e new_elemant s =
     (let en = envs s e in
      if (of_nat (length (ActiveList en)) :: uint32) < of_int (ActiveListSize en) then
        bindE (lst_insert_head new_elemant (ActiveList en)) (\<lambda>a.
        Inr ((), upd_env e (\<lambda>en. en\<lparr>ActiveList := a\<rparr>) s))
      else
        bindE (deref (last_of (ActiveList en))) (\<lambda>tmp.
        bindE (lst_remove tmp (ActiveList en)) (\<lambda>a.
        bindE (lst_insert_head new_elemant a) (\<lambda>a.
        bindE (lst_insert_head tmp (SecondList en)) (\<lambda>d.
        let s = upd_env e (\<lambda>en. en\<lparr>ActiveList := a, SecondList := d\<rparr>) s in
        bindE (pt_set_page_permissions e (ws_va (ptr_pageWorkingSet (envs s e) tmp)) 0 PERM_PUW s) (\<lambda>(_, s).
        pt_set_page_permissions e (ws_va (ptr_pageWorkingSet (envs s e) new_elemant)) PERM_PUW 0 s))))))"

text \<open>\<open>allocate_frame\<close> panics rather than return \<open>E_NO_MEM\<close>, so its result is the frame.\<close>

definition Placement :: "nat \<Rightarrow> uint32 \<Rightarrow> kernel \<Rightarrow> unit result" where
  "Placement e fault_va s =
     bindE (deref (last_of (PageWorkingSetList (envs s e)))) (\<lambda>new_elemant.
     let s = upd_env e (set_ws_va new_elemant fault_va) s in
     bindE (lst_remove new_elemant (PageWorkingSetList (envs s e))) (\<lambda>w.
     let s = upd_env e (\<lambda>en. en\<lparr>PageWorkingSetList := w\<rparr>) s in
     bindE (allocate_frame s) (\<lambda>(new_fram, s).
     bindE (deref (env_page_directory (envs s e))) (\<lambda>pd.
     bindE (map_frame pd new_fram fault_va (PERM_WRITEABLE OR PERM_USER) s) (\<lambda>(re, s).
     if re = E_NO_MEM then free_frame new_fram s
     else
       bindE (pf_read_env_page e fault_va s) (\<lambda>(ret, s).
       bindE (if ret = E_PAGE_NOT_EXIST_IN_PF then
                if fault_va < USTACKTOP \<and> USTACKBOTTOM \<le> fault_va then
                  bindE (pf_add_empty_env_page e fault_va False s) (\<lambda>(ret, s).
                  if ret = E_NO_PAGE_FILE_SPACE
                  then Inl (Panic ''ERROR: No enough virtual space on the page file'')
                  else Inr ((), s))
                else Inl (Panic ''illegal access'')
              else Inr ((), s)) (\<lambda>(_, s).
       enter_active e new_elemant s)))))))"

text \<open>A modified victim is written to the page file before it is released. The source first looks
  up the table of \<open>victim\<close> itself, a kernel address, and ignores the result.\<close>

definition save_victim :: "nat \<Rightarrow> nat \<Rightarrow> kernel \<Rightarrow> unit result" where
  "save_victim e victim s =
     (let va = ws_va (ptr_pageWorkingSet (envs s e) victim) in
      bindE (pt_get_page_permissions e va s) (\<lambda>(page_permissions, s).
      if page_permissions AND PERM_MODIFIED = 0 then Inr ((), s)
      else
        bindE (deref (env_page_directory (envs s e))) (\<lambda>pd.
        bindE (get_page_table pd (ws_kva s e victim) s) (\<lambda>(_, s).
        bindE (get_frame_info pd va s) (\<lambda>((fi, pt), s).
        bindE (deref fi) (\<lambda>ptr_frame_info.
        bindE (pf_update_env_page e va ptr_frame_info s) (\<lambda>(ret, s). Inr ((), s))))))))"

definition page_fault_handler :: "nat \<Rightarrow> uint32 \<Rightarrow> kernel \<Rightarrow> unit result" where
  "page_fault_handler e fault_va s =
     (let fault_va = ROUNDDOWN fault_va PAGE_SIZE; en = envs s e in
      case find (\<lambda>i. ws_va (ptr_pageWorkingSet en i) = fault_va) (SecondList en) of
        Some aim \<Rightarrow>
          bindE (lst_remove aim (SecondList en)) (\<lambda>d.
          bindE (deref (last_of (ActiveList en))) (\<lambda>tmp.
          bindE (lst_remove tmp (ActiveList en)) (\<lambda>a.
          bindE (lst_insert_head aim a) (\<lambda>a.
          bindE (lst_insert_head tmp d) (\<lambda>d.
          let s = upd_env e (\<lambda>en. en\<lparr>ActiveList := a, SecondList := d\<rparr>) s in
          bindE (pt_set_page_permissions e (ws_va (ptr_pageWorkingSet (envs s e) aim)) PERM_PUW 0 s) (\<lambda>(_, s).
          pt_set_page_permissions e (ws_va (ptr_pageWorkingSet (envs s e) tmp)) 0 PERM_PUW s))))))
      | None \<Rightarrow>
          if 0 < length (PageWorkingSetList en) then Placement e fault_va s
          else if 0 < SecondListSize en then
            bindE (deref (last_of (SecondList en))) (\<lambda>victim.
            bindE (save_victim e victim s) (\<lambda>(_, s).
            let en = envs s e; va = ws_va (ptr_pageWorkingSet en victim) in
            bindE (lst_remove victim (SecondList en)) (\<lambda>d.
            bindE (lst_insert_head victim (PageWorkingSetList en)) (\<lambda>w.
            let s = upd_env e (\<lambda>en. en\<lparr>SecondList := d, PageWorkingSetList := w\<rparr>) s in
            bindE (deref (env_page_directory (envs s e))) (\<lambda>pd.
            bindE (unmap_frame pd va s) (\<lambda>(_, s).
            bindE (pt_set_page_permissions e va 0 (PERM_PUW OR PERM_MODIFIED) s) (\<lambda>(_, s).
            Placement e fault_va s)))))))
          else if SecondListSize en = 0 then
            bindE (deref (last_of (ActiveList en))) (\<lambda>victim.
            bindE (save_victim e victim s) (\<lambda>(_, s).
            let en = envs s e; va = ws_va (ptr_pageWorkingSet en victim) in
            bindE (lst_remove victim (ActiveList en)) (\<lambda>a.
            bindE (lst_insert_head victim (PageWorkingSetList en)) (\<lambda>w.
            let s = upd_env e (\<lambda>en. en\<lparr>ActiveList := a, PageWorkingSetList := w\<rparr>) s in
            bindE (deref (env_page_directory (envs s e))) (\<lambda>pd.
            bindE (unmap_frame pd va s) (\<lambda>(_, s).
            Placement e fault_va s))))))
          else Inr ((), s))"

definition page_fault_handler_with_buffering :: "nat \<Rightarrow> uint32 \<Rightarrow> kernel \<Rightarrow> unit result" where
  "page_fault_handler_with_buffering e fault_va s = Inl (Panic ''this function is not required...!!'')"

section \<open>Table faults and dispatch\<close>

definition table_fault_handler :: "nat \<Rightarrow> uint32 \<Rightarrow> kernel \<Rightarrow> unit result" where
  "table_fault_handler e fault_va s =
     bindE (deref (env_page_directory (envs s e))) (\<lambda>pd.
     bindE (static_cpt pd fault_va s) (\<lambda>(_, s). Inr ((), s)))"

text \<open>\<open>cs\<close> is \<open>tf->tf_cs\<close>, the only field the handler reads.\<close>

definition fault_handler :: "uint16 \<Rightarrow> kernel \<Rightarrow> unit result" where
  "fault_handler cs s =
     (let userTrap = (cs AND 3 = 3); fault_va = cr2 s in
      if \<not> userTrap \<and> fault_va < KERNEL_STACK_TOP - KERNEL_STACK_SIZE \<and> USER_LIMIT \<le> fault_va
      then Inl (Panic ''Kernel: stack overflow exception!'')
      else if userTrap \<and> USTACKTOP \<le> fault_va
      then Inl (Panic ''User: stack underflow exception!'')
      else
        bindE (deref (curenv s)) (\<lambda>c.
        bindE (deref (env_page_directory (envs s c))) (\<lambda>pd.
        if rd s pd (pdx fault_va) AND PERM_PRESENT \<noteq> PERM_PRESENT then
          table_fault_handler c fault_va
            (upd_env c (\<lambda>en. en\<lparr>tableFaultsCounter := tableFaultsCounter en + 1\<rparr>) s)
        else
          let s = upd_env c (\<lambda>en. en\<lparr>pageFaultsCounter := pageFaultsCounter en + 1\<rparr>) s in
          if EnableBuffering (cfg s) \<noteq> 0 then page_fault_handler_with_buffering c fault_va s
          else page_fault_handler c fault_va s)))"

section \<open>Switches\<close>

definition PG_REP_LRU_TIME_APPROX :: uint32 where "PG_REP_LRU_TIME_APPROX = 1"
definition PG_REP_LRU_LISTS_APPROX :: uint32 where "PG_REP_LRU_LISTS_APPROX = 2"
definition PG_REP_CLOCK :: uint32 where "PG_REP_CLOCK = 3"
definition PG_REP_FIFO :: uint32 where "PG_REP_FIFO = 4"
definition PG_REP_MODIFIEDCLOCK :: uint32 where "PG_REP_MODIFIEDCLOCK = 5"

definition set_algo :: "uint32 \<Rightarrow> kernel \<Rightarrow> kernel" where
  "set_algo v s = s\<lparr>cfg := (cfg s)\<lparr>PageRepAlgoType := v\<rparr>\<rparr>"

definition setPageReplacmentAlgorithmLRU :: "uint32 \<Rightarrow> kernel \<Rightarrow> unit result" where
  "setPageReplacmentAlgorithmLRU LRU_TYPE s =
     (if \<not> (LRU_TYPE = PG_REP_LRU_TIME_APPROX \<or> LRU_TYPE = PG_REP_LRU_LISTS_APPROX)
      then Inl (AssertFailed ''LRU_TYPE'') else Inr ((), set_algo LRU_TYPE s))"

definition setPageReplacmentAlgorithmCLOCK :: "kernel \<Rightarrow> kernel" where
  "setPageReplacmentAlgorithmCLOCK = set_algo PG_REP_CLOCK"
definition setPageReplacmentAlgorithmFIFO :: "kernel \<Rightarrow> kernel" where
  "setPageReplacmentAlgorithmFIFO = set_algo PG_REP_FIFO"
definition setPageReplacmentAlgorithmModifiedCLOCK :: "kernel \<Rightarrow> kernel" where
  "setPageReplacmentAlgorithmModifiedCLOCK = set_algo PG_REP_MODIFIEDCLOCK"

definition isPageReplacmentAlgorithmLRU :: "uint32 \<Rightarrow> kernel \<Rightarrow> uint32" where
  "isPageReplacmentAlgorithmLRU LRU_TYPE s = (if PageRepAlgoType (cfg s) = LRU_TYPE then 1 else 0)"
definition isPageReplacmentAlgorithmCLOCK :: "kernel \<Rightarrow> uint32" where
  "isPageReplacmentAlgorithmCLOCK s = (if PageRepAlgoType (cfg s) = PG_REP_CLOCK then 1 else 0)"
definition isPageReplacmentAlgorithmFIFO :: "kernel \<Rightarrow> uint32" where
  "isPageReplacmentAlgorithmFIFO s = (if PageRepAlgoType (cfg s) = PG_REP_FIFO then 1 else 0)"
definition isPageReplacmentAlgorithmModifiedCLOCK :: "kernel \<Rightarrow> uint32" where
  "isPageReplacmentAlgorithmModifiedCLOCK s = (if PageRepAlgoType (cfg s) = PG_REP_MODIFIEDCLOCK then 1 else 0)"

definition enableModifiedBuffer :: "uint32 \<Rightarrow> kernel \<Rightarrow> kernel" where
  "enableModifiedBuffer enableIt s = s\<lparr>cfg := (cfg s)\<lparr>EnableModifiedBuffer := enableIt\<rparr>\<rparr>"
definition isModifiedBufferEnabled :: "kernel \<Rightarrow> uint32" where
  "isModifiedBufferEnabled s = EnableModifiedBuffer (cfg s)"
definition enableBuffering :: "uint32 \<Rightarrow> kernel \<Rightarrow> kernel" where
  "enableBuffering enableIt s = s\<lparr>cfg := (cfg s)\<lparr>EnableBuffering := enableIt\<rparr>\<rparr>"
definition isBufferingEnabled :: "kernel \<Rightarrow> uint32" where
  "isBufferingEnabled s = EnableBuffering (cfg s)"
definition setModifiedBufferLength :: "uint32 \<Rightarrow> kernel \<Rightarrow> kernel" where
  "setModifiedBufferLength n s = s\<lparr>cfg := (cfg s)\<lparr>ModifiedBufferLength := n\<rparr>\<rparr>"
definition getModifiedBufferLength :: "kernel \<Rightarrow> uint32" where
  "getModifiedBufferLength s = ModifiedBufferLength (cfg s)"

end
