(* ===== verification/Page_Fault_Inv.thy ===== *)
theory Page_Fault_Inv
  imports Page_Fault
begin

text \<open>
  The page fault handler implements a segmented FIFO policy. \<open>lru_view\<close> is the part of an
  environment that the LRU lists consist of; no operation on frames, page tables or the page file
  touches it (\<open>view_lems\<close>), so each handler changes the lists exactly as its own code says.
\<close>

section \<open>Operations that keep the lists\<close>

definition env_view ::
  "env \<Rightarrow> (nat \<Rightarrow> ws_element) \<times> nat list \<times> nat list \<times> nat list \<times> int \<times> int" where
  "env_view en = (ptr_pageWorkingSet en, PageWorkingSetList en, ActiveList en, SecondList en,
     ActiveListSize en, SecondListSize en)"

definition lru_view ::
  "kernel \<Rightarrow> nat \<Rightarrow> (nat \<Rightarrow> ws_element) \<times> nat list \<times> nat list \<times> nat list \<times> int \<times> int" where
  "lru_view s = (\<lambda>e. env_view (envs s e))"

lemma lru_view_cong: "envs t = envs s \<Longrightarrow> lru_view t = lru_view s"
  by (simp add: lru_view_def)

lemma lru_view_simps [simp]:
  "lru_view (wr f i v s) = lru_view s" "lru_view (wr_page f p s) = lru_view s"
  "lru_view (upd_fi f g s) = lru_view s" "lru_view (initialize_frame_info f s) = lru_view s"
  "lru_view (s\<lparr>free_frame_list := l\<rparr>) = lru_view s"
  "lru_view (s\<lparr>disk_free_frame_list := l\<rparr>) = lru_view s" "lru_view (s\<lparr>disk := d\<rparr>) = lru_view s"
  by (simp_all add: lru_view_def initialize_frame_info_def)

lemma lru_view_upd_env [simp]:
  "env_view (f (envs s e)) = env_view (envs s e) \<Longrightarrow> lru_view (upd_env e f s) = lru_view s"
  by (auto simp: lru_view_def)

lemma env_view_upd [simp]:
  "env_view (en\<lparr>disk_env_tabledir := a\<rparr>) = env_view en"
  "env_view (en\<lparr>disk_env_tabledir := a, disk_env_tabledir_PA := b\<rparr>) = env_view en"
  "env_view (en\<lparr>disk_env_pgdir := a, disk_env_pgdir_PA := b\<rparr>) = env_view en"
  "env_view (en\<lparr>nPageIn := c\<rparr>) = env_view en" "env_view (en\<lparr>nPageOut := c\<rparr>) = env_view en"
  "env_view (en\<lparr>pageFaultsCounter := c\<rparr>) = env_view en"
  "env_view (en\<lparr>tableFaultsCounter := c\<rparr>) = env_view en"
  by (simp_all add: env_view_def)

lemma allocate_disk_frame_view: "allocate_disk_frame d s = Inr (r, s') \<Longrightarrow> lru_view s' = lru_view s"
  by (auto simp: allocate_disk_frame_def bindE_eq_Inr split: option.splits if_splits)

lemma write_disk_page_view: "write_disk_page d p s = Inr (r, s') \<Longrightarrow> lru_view s' = lru_view s"
  by (auto simp: write_disk_page_def Let_def bindE_eq_Inr ide_write_def split: if_splits prod.splits)

lemma pf_read_env_table_view: "pf_read_env_table e va f s = Inr (r, s') \<Longrightarrow> lru_view s' = lru_view s"
  by (auto simp: pf_read_env_table_def Let_def bindE_eq_Inr split: option.splits if_splits)

lemma get_disk_table_directory_with_view:
  assumes "\<forall>s f s'. alloc s = Inr (f, s') \<longrightarrow> lru_view s' = lru_view s"
    and "get_disk_table_directory_with alloc e s = Inr (r, s')"
  shows "lru_view s' = lru_view s"
  using assms
  by (auto simp: get_disk_table_directory_with_def Let_def bindE_eq_Inr split: option.splits)

lemma pf_write_env_table_with_view:
  assumes "\<forall>s f s'. alloc s = Inr (f, s') \<longrightarrow> lru_view s' = lru_view s"
    and "pf_write_env_table_with alloc e va f s = Inr (r, s')"
  shows "lru_view s' = lru_view s"
  using assms(2)
  by (auto simp: pf_write_env_table_with_def Let_def bindE_eq_Inr split: if_splits
      dest!: get_disk_table_directory_with_view [OF assms(1)] allocate_disk_frame_view write_disk_page_view)

lemma pt_clear_page_table_entry_with_view:
  assumes "\<forall>s f s'. alloc s = Inr (f, s') \<longrightarrow> lru_view s' = lru_view s"
    and "pt_clear_page_table_entry_with alloc e va s = Inr (r, s')"
  shows "lru_view s' = lru_view s"
  using assms(2)
  by (auto simp: pt_clear_page_table_entry_with_def Let_def bindE_eq_Inr split: if_splits
      dest!: pf_write_env_table_with_view [OF assms(1)] pf_read_env_table_view)

lemma allocate_frame_n_view:
  "\<forall>s f s'. allocate_frame_n n s = Inr (f, s') \<longrightarrow> lru_view s' = lru_view s"
proof (induction n)
  case 0
  then show ?case by simp
next
  case (Suc n)
  show ?case
    by (auto simp: Let_def bindE_eq_Inr split: option.splits if_splits
        dest!: pt_clear_page_table_entry_with_view [OF Suc.IH])
qed

lemma allocate_frame_view: "allocate_frame s = Inr (f, s') \<Longrightarrow> lru_view s' = lru_view s"
  using allocate_frame_n_view [of 1] unfolding allocate_frame_def by blast

lemma pf_write_env_table_view: "pf_write_env_table e va f s = Inr (r, s') \<Longrightarrow> lru_view s' = lru_view s"
  unfolding pf_write_env_table_def
  by (rule pf_write_env_table_with_view) (auto dest: allocate_frame_view)

lemma free_frame_view: "free_frame f s = Inr (r, s') \<Longrightarrow> lru_view s' = lru_view s"
  by (auto simp: free_frame_def Let_def bindE_eq_Inr)

lemma decrement_references_view: "decrement_references f s = Inr (r, s') \<Longrightarrow> lru_view s' = lru_view s"
  by (auto simp: decrement_references_def Let_def split: if_splits dest!: free_frame_view)

lemma get_page_table_same: "get_page_table pd va s = Inr (r, s') \<Longrightarrow> s' = s"
  by (auto simp: get_page_table_def Let_def bindE_eq_Inr split: if_splits)

lemma static_cpt_view: "static_cpt pd va s = Inr (r, s') \<Longrightarrow> lru_view s' = lru_view s"
  by (auto simp: static_cpt_def Let_def bindE_eq_Inr dest!: allocate_frame_view)

lemma get_frame_info_same: "get_frame_info pd va s = Inr (r, s') \<Longrightarrow> s' = s"
  by (auto simp: get_frame_info_def Let_def bindE_eq_Inr split: option.splits if_splits
      dest!: get_page_table_same)

lemma unmap_frame_view: "unmap_frame pd va s = Inr (r, s') \<Longrightarrow> lru_view s' = lru_view s"
  by (auto simp: unmap_frame_def bindE_eq_Inr split: option.splits
      dest!: get_frame_info_same decrement_references_view)

lemma map_frame_view: "map_frame pd f va p s = Inr (r, s') \<Longrightarrow> lru_view s' = lru_view s"
  by (auto simp: map_frame_def Let_def bindE_eq_Inr split: if_splits
      dest!: get_page_table_same static_cpt_view unmap_frame_view)

lemma pt_set_page_permissions_view:
  "pt_set_page_permissions e va p q s = Inr (r, s') \<Longrightarrow> lru_view s' = lru_view s"
  by (auto simp: pt_set_page_permissions_def Let_def bindE_eq_Inr split: if_splits
      dest!: pf_read_env_table_view pf_write_env_table_view)

lemma pt_get_page_permissions_view:
  "pt_get_page_permissions e va s = Inr (r, s') \<Longrightarrow> lru_view s' = lru_view s"
  by (auto simp: pt_get_page_permissions_def Let_def bindE_eq_Inr split: if_splits
      dest!: pf_read_env_table_view)

lemma get_disk_page_directory_view:
  "get_disk_page_directory e s = Inr (r, s') \<Longrightarrow> lru_view s' = lru_view s"
  by (auto simp: get_disk_page_directory_def Let_def bindE_eq_Inr split: option.splits
      dest!: allocate_frame_view)

lemma get_disk_page_table_view:
  "get_disk_page_table dd va c s = Inr (r, s') \<Longrightarrow> lru_view s' = lru_view s"
  by (auto simp: get_disk_page_table_def Let_def bindE_eq_Inr split: if_splits
      dest!: allocate_frame_view)

lemma pf_get_dfn_view: "pf_get_dfn e va s = Inr (r, s') \<Longrightarrow> lru_view s' = lru_view s"
  by (auto simp: pf_get_dfn_def Let_def bindE_eq_Inr split: if_splits
      dest!: get_disk_page_directory_view get_disk_page_table_view allocate_disk_frame_view)

lemma pf_add_env_page_view: "pf_add_env_page e va p s = Inr (r, s') \<Longrightarrow> lru_view s' = lru_view s"
  by (auto simp: pf_add_env_page_def bindE_eq_Inr split: if_splits option.splits
      dest!: pf_get_dfn_view write_disk_page_view)

lemma pf_add_empty_env_page_view:
  "pf_add_empty_env_page e va z s = Inr (r, s') \<Longrightarrow> lru_view s' = lru_view s"
  by (auto simp: pf_add_empty_env_page_def bindE_eq_Inr split: if_splits option.splits
      dest!: pf_get_dfn_view pf_add_env_page_view)

lemma pf_update_env_page_view: "pf_update_env_page e va f s = Inr (r, s') \<Longrightarrow> lru_view s' = lru_view s"
  by (auto simp: pf_update_env_page_def Let_def bindE_eq_Inr split: if_splits option.splits
      dest!: get_disk_page_directory_view get_disk_page_table_view write_disk_page_view)

lemma cpu_write_page_view: "cpu_write_page va p s = Inr (r, s') \<Longrightarrow> lru_view s' = lru_view s"
  by (auto simp: cpu_write_page_def Let_def split: if_splits)

lemma pf_read_env_page_view:
  assumes "pf_read_env_page e va s = Inr (r, s')"
  shows "lru_view s' = lru_view s"
proof -
  let ?s = "upd_env e (\<lambda>en. en\<lparr>nPageIn := nPageIn en + 1\<rparr>) s" and ?va = "ROUNDDOWN va PAGE_SIZE"
  have v: "lru_view ?s = lru_view s" by simp
  show ?thesis
  proof (cases "disk_env_pgdir (envs ?s e)")
    case None
    then show ?thesis using assms v by (simp only: pf_read_env_page_def Let_def) auto
  next
    case (Some dd)
    then obtain pt s1 where g: "get_disk_page_table dd ?va False ?s = Inr (pt, s1)"
      and k: "(case pt of None \<Rightarrow> Inr (E_PAGE_NOT_EXIST_IN_PF, s1)
          | Some t \<Rightarrow>
              (let dfn = rd s1 t (ptx ?va) in
               if dfn = 0 then Inr (E_PAGE_NOT_EXIST_IN_PF, s1)
               else
                 bindE (read_disk_page dfn (cpu_read_page ?va s1) s1) (\<lambda>(disk_read_error, p).
                 bindE (cpu_write_page ?va p s1) (\<lambda>(_, s).
                 bindE (deref (curenv s)) (\<lambda>c.
                 bindE (pt_set_page_permissions c ?va 0 PERM_MODIFIED s) (\<lambda>(_, s).
                 Inr (disk_read_error, s))))))) = Inr (r, s')"
      using assms by (simp only: pf_read_env_page_def Let_def bindE_eq_Inr option.case split_paired_Ex prod.case) blast
    have v1: "lru_view s1 = lru_view s" using get_disk_page_table_view [OF g] v by simp
    show ?thesis
    proof (cases pt)
      case None
      then show ?thesis using k v1 by simp
    next
      case (Some t)
      then show ?thesis
        using k v1 by (auto simp: Let_def bindE_eq_Inr split: if_splits prod.splits
            dest!: cpu_write_page_view pt_set_page_permissions_view)
    qed
  qed
qed

lemma save_victim_view: "save_victim e v s = Inr (r, s') \<Longrightarrow> lru_view s' = lru_view s"
  by (auto simp: save_victim_def Let_def bindE_eq_Inr split: if_splits
      dest!: pt_get_page_permissions_view get_page_table_same get_frame_info_same pf_update_env_page_view)

section \<open>The lists after each handler\<close>

definition put_view ::
  "nat \<Rightarrow> (nat \<Rightarrow> ws_element) \<Rightarrow> nat list \<Rightarrow> nat list \<Rightarrow> nat list \<Rightarrow> kernel \<Rightarrow> nat \<Rightarrow>
   (nat \<Rightarrow> ws_element) \<times> nat list \<times> nat list \<times> nat list \<times> int \<times> int" where
  "put_view e ws w a d s = (lru_view s)(e := (ws, w, a, d, ActiveListSize (envs s e), SecondListSize (envs s e)))"

lemma lru_view_upd: "lru_view (upd_env e f s) = (lru_view s)(e := env_view (f (envs s e)))"
  by (auto simp: lru_view_def)

lemma lru_view_eqD:
  assumes "lru_view s' = lru_view s"
  shows "ptr_pageWorkingSet (envs s' e) = ptr_pageWorkingSet (envs s e)"
    and "PageWorkingSetList (envs s' e) = PageWorkingSetList (envs s e)"
    and "ActiveList (envs s' e) = ActiveList (envs s e)"
    and "SecondList (envs s' e) = SecondList (envs s e)"
    and "ActiveListSize (envs s' e) = ActiveListSize (envs s e)"
    and "SecondListSize (envs s' e) = SecondListSize (envs s e)"
  using fun_cong [OF assms, of e] by (simp_all add: lru_view_def env_view_def)

lemma lru_view_putD:
  assumes "lru_view s' = put_view e ws w a d s"
  shows "ptr_pageWorkingSet (envs s' e) = ws" and "PageWorkingSetList (envs s' e) = w"
    and "ActiveList (envs s' e) = a" and "SecondList (envs s' e) = d"
    and "ActiveListSize (envs s' e) = ActiveListSize (envs s e)"
    and "SecondListSize (envs s' e) = SecondListSize (envs s e)"
  using fun_cong [OF assms, of e] by (simp_all add: put_view_def lru_view_def env_view_def)

lemma put_view_put: "lru_view s1 = put_view e ws w a d s \<Longrightarrow> put_view e ws' w' a' d' s1 = put_view e ws' w' a' d' s"
  by (frule lru_view_putD(5), frule lru_view_putD(6)) (simp add: put_view_def)

lemma put_view_eq: "lru_view s1 = lru_view s \<Longrightarrow> put_view e ws' w' a' d' s1 = put_view e ws' w' a' d' s"
  by (frule lru_view_eqD(5) [of _ _ e], frule lru_view_eqD(6) [of _ _ e]) (simp add: put_view_def)

lemma map_frame_returns_0: "map_frame pd f va p s = Inr (r, s') \<Longrightarrow> r = 0"
  by (auto simp: map_frame_def Let_def bindE_eq_Inr split: if_splits)

lemma unat_of_nat_small: "n < 2 ^ 32 \<Longrightarrow> unat (of_nat n :: uint32) = n"
  by (simp add: unsigned_of_nat take_bit_nat_eq_self)

lemma word_less_size:
  assumes "0 \<le> k" and "k < 2 ^ 31" and "n < 2 ^ 32"
  shows "((of_nat n :: uint32) < of_int k) = (int n < k)"
proof -
  have "(of_int k :: uint32) = of_nat (nat k)" using assms(1) by simp
  moreover have "nat k < 2 ^ 32" using assms(1,2) by (simp add: nat_less_iff)
  ultimately have "unat (of_int k :: uint32) = nat k" by (simp only: unat_of_nat_small)
  then show ?thesis using assms(1) unat_of_nat_small [OF assms(3)] by (simp add: word_less_nat_alt) linarith
qed

lemma enter_active_view:
  assumes "enter_active e el s = Inr (r, s')"
    and "0 \<le> ActiveListSize (envs s e)" and "ActiveListSize (envs s e) < 2 ^ 31"
    and "distinct (ActiveList (envs s e))" and "int (length (ActiveList (envs s e))) \<le> ActiveListSize (envs s e)"
  shows "lru_view s' =
    (if int (length (ActiveList (envs s e))) < ActiveListSize (envs s e)
     then put_view e (ptr_pageWorkingSet (envs s e)) (PageWorkingSetList (envs s e))
            (el # ActiveList (envs s e)) (SecondList (envs s e)) s
     else put_view e (ptr_pageWorkingSet (envs s e)) (PageWorkingSetList (envs s e))
            (el # butlast (ActiveList (envs s e))) (last (ActiveList (envs s e)) # SecondList (envs s e)) s)"
proof -
  let ?a = "ActiveList (envs s e)"
  have "length ?a < 2 ^ 32" using assms(3,5) by simp
  note ws = word_less_size [OF assms(2,3) this]
  show ?thesis
  proof (cases "int (length ?a) < ActiveListSize (envs s e)")
    case True
    then show ?thesis using assms(1)
      by (auto simp: enter_active_def Let_def ws bindE_eq_Inr lru_view_upd put_view_def env_view_def)
  next
    case False
    then show ?thesis using assms(1,4)
      by (auto simp: enter_active_def Let_def ws bindE_eq_Inr lru_view_upd put_view_def env_view_def
          last_of_eq_Some remove1_append_notin
          dest!: pt_set_page_permissions_view)
  qed
qed

lemma Placement_view:
  assumes "Placement e p s = Inr (r, s')"
    and "0 \<le> ActiveListSize (envs s e)" and "ActiveListSize (envs s e) < 2 ^ 31"
    and "distinct (ActiveList (envs s e))" and "int (length (ActiveList (envs s e))) \<le> ActiveListSize (envs s e)"
    and "distinct (PageWorkingSetList (envs s e))"
  shows "PageWorkingSetList (envs s e) \<noteq> [] \<and>
    (let el = last (PageWorkingSetList (envs s e)); w = butlast (PageWorkingSetList (envs s e));
         ws = ptr_pageWorkingSet (envs s e); ws' = ws(el := (ws el)\<lparr>ws_va := p\<rparr>);
         a = ActiveList (envs s e); d = SecondList (envs s e) in
     lru_view s' = (if int (length a) < ActiveListSize (envs s e) then put_view e ws' w (el # a) d s
                    else put_view e ws' w (el # butlast a) (last a # d) s))"
proof -
  let ?en = "envs s e"
  obtain el s1 f s2 pd re s3 where
    el: "last_of (PageWorkingSetList ?en) = Some el"
    and s1: "s1 = upd_env e (\<lambda>en. en\<lparr>PageWorkingSetList := remove1 el (PageWorkingSetList ?en)\<rparr>)
                    (upd_env e (set_ws_va el p) s)"
    and al: "allocate_frame s1 = Inr (f, s2)"
    and mf: "map_frame pd f p (PERM_WRITEABLE OR PERM_USER) s2 = Inr (re, s3)"
    and rest: "(if re = E_NO_MEM then free_frame f s3
     else
       bindE (pf_read_env_page e p s3) (\<lambda>(ret, s).
       bindE (if ret = E_PAGE_NOT_EXIST_IN_PF then
                if p < USTACKTOP \<and> USTACKBOTTOM \<le> p then
                  bindE (pf_add_empty_env_page e p False s) (\<lambda>(ret, s).
                  if ret = E_NO_PAGE_FILE_SPACE
                  then Inl (Panic ''ERROR: No enough virtual space on the page file'')
                  else Inr ((), s))
                else Inl (Panic ''illegal access'')
              else Inr ((), s)) (\<lambda>(_, s).
       enter_active e el s))) = Inr (r, s')"
    using assms(1) by (auto simp: Placement_def Let_def bindE_eq_Inr set_ws_va_def simp del: last_of_eq_None)
  have re: "re \<noteq> E_NO_MEM" using map_frame_returns_0 [OF mf] by (simp add: E_NO_MEM_def)
  obtain s5 where v5: "lru_view s5 = lru_view s3" and en: "enter_active e el s5 = Inr (r, s')"
    using rest re by (auto simp: bindE_eq_Inr split: if_splits
        dest!: pf_read_env_page_view pf_add_empty_env_page_view)
  have ne: "PageWorkingSetList ?en \<noteq> []" and el': "el = last (PageWorkingSetList ?en)"
    using el by (auto simp: last_of_eq_Some)
  have w: "remove1 el (PageWorkingSetList ?en) = butlast (PageWorkingSetList ?en)"
    using distinct_remove1_butlast [OF assms(6) ne] el' by simp
  have v: "lru_view s5 = put_view e ((ptr_pageWorkingSet ?en)(el := (ptr_pageWorkingSet ?en el)\<lparr>ws_va := p\<rparr>))
      (butlast (PageWorkingSetList ?en)) (ActiveList ?en) (SecondList ?en) s"
    unfolding v5 map_frame_view [OF mf] allocate_frame_view [OF al]
    by (simp add: s1 lru_view_upd put_view_def env_view_def set_ws_va_def w)
  note sel = lru_view_putD [OF v]
  have "lru_view s' = (if int (length (ActiveList ?en)) < ActiveListSize ?en
     then put_view e (ptr_pageWorkingSet (envs s5 e)) (PageWorkingSetList (envs s5 e)) (el # ActiveList ?en) (SecondList ?en) s5
     else put_view e (ptr_pageWorkingSet (envs s5 e)) (PageWorkingSetList (envs s5 e))
            (el # butlast (ActiveList ?en)) (last (ActiveList ?en) # SecondList ?en) s5)"
    using enter_active_view [OF en] assms(2-5) sel by simp
  then show ?thesis using ne el' by (simp only: put_view_put [OF v] sel Let_def) simp
qed

section \<open>Segmented FIFO\<close>

text \<open>
  The policy on pages: a page of the second list returns to the head of the active list and the
  oldest active page takes its place; another page enters at the head of the active list, after
  the oldest page of the second list (of the active list, if there is no second list) was evicted
  when both are full; an active list that is full passes its oldest page to the second list.
\<close>

definition sfifo :: "int \<Rightarrow> int \<Rightarrow> 'p \<Rightarrow> 'p list \<times> 'p list \<Rightarrow> 'p list \<times> 'p list" where
  "sfifo ca cs p = (\<lambda>(A, D).
     if p \<in> set D then (p # butlast A, last A # remove1 p D)
     else
       let (A, D) = (if int (length A + length D) < ca + cs then (A, D)
                     else if 0 < cs then (A, butlast D) else (butlast A, D))
       in if int (length A) < ca then (p # A, D) else (p # butlast A, last A # D))"

definition va_of :: "(nat \<Rightarrow> ws_element) \<Rightarrow> nat \<Rightarrow> uint32" where
  "va_of ws i = ws_va (ws i)"

definition lists_ok ::
  "(nat \<Rightarrow> ws_element) \<Rightarrow> nat list \<Rightarrow> nat list \<Rightarrow> nat list \<Rightarrow> int \<Rightarrow> int \<Rightarrow> bool" where
  "lists_ok ws W A D ca cs \<longleftrightarrow> distinct (W @ A @ D) \<and> 0 < ca \<and> ca < 2 ^ 31 \<and> 0 \<le> cs \<and>
     int (length A) \<le> ca \<and> int (length D) \<le> cs \<and> int (length W + length A + length D) = ca + cs \<and>
     distinct (map (va_of ws) (A @ D))"

lemma find_SomeD:
  assumes "find P xs = Some x"
  shows "P x" and "\<exists>us vs. xs = us @ x # vs \<and> (\<forall>u \<in> set us. \<not> P u)"
  using assms
proof (induction xs)
  case Nil
  { case 1 then show ?case by simp next case 2 then show ?case by simp }
next
  case (Cons y xs)
  {
    case 1
    then show ?case using Cons.IH(1) by (simp split: if_splits)
  next
    case 2
    show ?case
    proof (cases "P y")
      case True
      then show ?thesis using 2 by (intro exI [of _ "[]"] exI [of _ xs]) simp
    next
      case False
      then obtain us vs where "xs = us @ x # vs" "\<forall>u \<in> set us. \<not> P u"
        using Cons.IH(2) 2 by auto
      then show ?thesis using False by (intro exI [of _ "y # us"] exI [of _ vs]) simp
    qed
  }
qed

lemma list_last_cases: "xs \<noteq> [] \<Longrightarrow> \<exists>ys y. xs = ys @ [y]"
  by (cases xs rule: rev_cases) auto

lemma promote_ok:
  assumes "lists_ok ws W A D ca cs" and "find (\<lambda>i. ws_va (ws i) = p) D = Some aim" and "A \<noteq> []"
  shows "lists_ok ws W (aim # butlast A) (last A # remove1 aim D) ca cs \<and>
    (map (va_of ws) (aim # butlast A), map (va_of ws) (last A # remove1 aim D)) =
    sfifo ca cs p (map (va_of ws) A, map (va_of ws) D)"
proof -
  obtain us vs where D: "D = us @ aim # vs" "\<forall>u \<in> set us. ws_va (ws u) \<noteq> p" and p: "va_of ws aim = p"
    using find_SomeD [OF assms(2)] by (auto simp: va_of_def)
  obtain a x where A: "A = a @ [x]" using list_last_cases [OF assms(3)] by blast
  have "p \<notin> va_of ws ` set us" using D(2) by (auto simp: va_of_def)
  moreover have "aim \<notin> set us" using assms(1) D by (auto simp: lists_ok_def)
  ultimately show ?thesis
    using assms(1) p by (auto simp: lists_ok_def A D sfifo_def remove1_append_notin)
qed

lemma place_ok:
  assumes "lists_ok ws W A D ca cs" and "W \<noteq> []" and "p \<notin> va_of ws ` set (A @ D)"
  defines "el \<equiv> last W"
  defines "ws' \<equiv> ws(el := (ws el)\<lparr>ws_va := p\<rparr>)"
  defines "A' \<equiv> if int (length A) < ca then el # A else el # butlast A"
  defines "D' \<equiv> if int (length A) < ca then D else last A # D"
  shows "lists_ok ws' (butlast W) A' D' ca cs \<and>
    (map (va_of ws') A', map (va_of ws') D') = sfifo ca cs p (map (va_of ws) A, map (va_of ws) D)"
proof -
  obtain w where W: "W = w @ [el]" using list_last_cases [OF assms(2)] el_def by fastforce
  have n: "el \<notin> set A" "el \<notin> set D" using assms(1) W by (auto simp: lists_ok_def)
  have m: "map (va_of ws') A = map (va_of ws) A" "map (va_of ws') D = map (va_of ws) D"
    using n by (auto simp: ws'_def va_of_def)
  have i: "va_of ws' ` set A = va_of ws ` set A" "va_of ws' ` set D = va_of ws ` set D"
    unfolding set_map [symmetric] m by simp_all
  have dm: "distinct (map (va_of ws') A) = distinct (map (va_of ws) A)"
    "distinct (map (va_of ws') D) = distinct (map (va_of ws) D)"
    by (simp_all only: m)
  have pe: "va_of ws' el = p" by (simp add: ws'_def va_of_def)
  have t: "int (length A + length D) < ca + cs" using assms(1) W by (simp add: lists_ok_def)
  have pD: "p \<notin> set (map (va_of ws) D)" "p \<notin> set (map (va_of ws) A)" using assms(3) by auto
  show ?thesis
  proof (cases "int (length A) < ca")
    case True
    then have "A' = el # A" "D' = D" by (simp_all add: A'_def D'_def)
    moreover have "lists_ok ws' (butlast W) (el # A) D ca cs"
      using assms(1) W True pe pD n by (simp add: lists_ok_def dm i)
    ultimately show ?thesis using True t pD m pe by (simp add: sfifo_def)
  next
    case False
    then have "A \<noteq> []" using assms(1) by (auto simp: lists_ok_def)
    then obtain a x where A: "A = a @ [x]" using list_last_cases by blast
    have AD: "A' = el # a" "D' = x # D" using False by (simp_all add: A'_def D'_def A)
    have m': "map (va_of ws') a = map (va_of ws) a" "va_of ws' x = va_of ws x" using m(1) by (simp_all add: A)
    have da: "distinct (map (va_of ws') a) = distinct (map (va_of ws) a)"
      "va_of ws' ` set a = va_of ws ` set a"
      unfolding set_map [symmetric] m' by simp_all
    have "lists_ok ws' (butlast W) (el # a) (x # D) ca cs"
      using assms(1) W False m'(2) pe pD n by (auto simp: lists_ok_def A dm da i)
    then show ?thesis using False t pD m m' pe by (simp add: AD sfifo_def A)
  qed
qed

lemma evict_ok:
  assumes "lists_ok ws [] A D ca cs"
  shows "0 < cs \<Longrightarrow> D \<noteq> [] \<and> lists_ok ws [last D] A (butlast D) ca cs"
    and "cs = 0 \<Longrightarrow> A \<noteq> [] \<and> lists_ok ws [last A] (butlast A) D ca cs"
proof -
  assume c: "0 < cs"
  then have "D \<noteq> []" using assms by (auto simp: lists_ok_def)
  then obtain d x where D: "D = d @ [x]" using list_last_cases by blast
  show "D \<noteq> [] \<and> lists_ok ws [last D] A (butlast D) ca cs"
    using assms c by (auto simp: lists_ok_def D)
next
  assume c: "cs = 0"
  then have "A \<noteq> []" using assms by (auto simp: lists_ok_def)
  then obtain a x where A: "A = a @ [x]" using list_last_cases by blast
  show "A \<noteq> [] \<and> lists_ok ws [last A] (butlast A) D ca cs"
    using assms c by (auto simp: lists_ok_def A)
qed

lemma sfifo_evict:
  assumes "lists_ok ws [] A D ca cs" and "p \<notin> va_of ws ` set D"
  shows "0 < cs \<Longrightarrow> sfifo ca cs p (map (va_of ws) A, map (va_of ws) D) =
      sfifo ca cs p (map (va_of ws) A, map (va_of ws) (butlast D))"
    and "cs = 0 \<Longrightarrow> sfifo ca cs p (map (va_of ws) A, map (va_of ws) D) =
      sfifo ca cs p (map (va_of ws) (butlast A), map (va_of ws) D)"
proof -
  have t: "int (length A) + int (length D) = ca + cs" using assms(1) by (simp add: lists_ok_def)
  have p: "p \<notin> set (map (va_of ws) D)" "p \<notin> set (map (va_of ws) (butlast D))"
    using assms(2) in_set_butlastD by fastforce+
  show "sfifo ca cs p (map (va_of ws) A, map (va_of ws) D) =
      sfifo ca cs p (map (va_of ws) A, map (va_of ws) (butlast D))" if "0 < cs"
  proof -
    have "D \<noteq> []" using evict_ok(1) [OF assms(1) that] by simp
    then obtain d x where D: "D = d @ [x]" using list_last_cases by blast
    show ?thesis using t p that by (auto simp: sfifo_def D)
  qed
  show "sfifo ca cs p (map (va_of ws) A, map (va_of ws) D) =
      sfifo ca cs p (map (va_of ws) (butlast A), map (va_of ws) D)" if "cs = 0"
  proof -
    have "A \<noteq> []" using evict_ok(2) [OF assms(1) that] by simp
    then obtain a x where A: "A = a @ [x]" using list_last_cases by blast
    show ?thesis using t p that by (auto simp: sfifo_def A)
  qed
qed

section \<open>The handler\<close>

definition lru_ok :: "kernel \<Rightarrow> nat \<Rightarrow> bool" where
  "lru_ok s e = (let en = envs s e in
     lists_ok (ptr_pageWorkingSet en) (PageWorkingSetList en) (ActiveList en) (SecondList en)
       (ActiveListSize en) (SecondListSize en))"

definition lru_pages :: "kernel \<Rightarrow> nat \<Rightarrow> uint32 list \<times> uint32 list" where
  "lru_pages s e = (let en = envs s e in
     (map (va_of (ptr_pageWorkingSet en)) (ActiveList en), map (va_of (ptr_pageWorkingSet en)) (SecondList en)))"

lemma Placement_refines:
  assumes "Placement e p s = Inr (r, s')" and "lru_ok s e"
    and "p \<notin> set (fst (lru_pages s e))" and "p \<notin> set (snd (lru_pages s e))"
  shows "lru_ok s' e \<and> lru_pages s' e = sfifo (ActiveListSize (envs s e)) (SecondListSize (envs s e)) p (lru_pages s e)
    \<and> (\<forall>e'. e' \<noteq> e \<longrightarrow> lru_view s' e' = lru_view s e')"
proof -
  let ?en = "envs s e"
  have ok: "lists_ok (ptr_pageWorkingSet ?en) (PageWorkingSetList ?en) (ActiveList ?en) (SecondList ?en)
       (ActiveListSize ?en) (SecondListSize ?en)" using assms(2) by (simp add: lru_ok_def Let_def)
  then have pre: "0 \<le> ActiveListSize ?en" "ActiveListSize ?en < 2 ^ 31" "distinct (ActiveList ?en)"
    "int (length (ActiveList ?en)) \<le> ActiveListSize ?en" "distinct (PageWorkingSetList ?en)"
    by (auto simp: lists_ok_def)
  note P = Placement_view [OF assms(1) pre, unfolded Let_def]
  have ne: "PageWorkingSetList ?en \<noteq> []" using P by blast
  have np: "p \<notin> va_of (ptr_pageWorkingSet ?en) ` set (ActiveList ?en @ SecondList ?en)"
    using assms(3,4) by (auto simp: lru_pages_def Let_def)
  note Q = place_ok [OF ok ne np]
  let ?el = "last (PageWorkingSetList ?en)"
  let ?ws = "(ptr_pageWorkingSet ?en)(?el := (ptr_pageWorkingSet ?en ?el)\<lparr>ws_va := p\<rparr>)"
  let ?A = "if int (length (ActiveList ?en)) < ActiveListSize ?en then ?el # ActiveList ?en else ?el # butlast (ActiveList ?en)"
  let ?D = "if int (length (ActiveList ?en)) < ActiveListSize ?en then SecondList ?en
            else last (ActiveList ?en) # SecondList ?en"
  have v: "lru_view s' = put_view e ?ws (butlast (PageWorkingSetList ?en)) ?A ?D s"
    using P by (simp split: if_splits)
  show ?thesis
    using Q fun_cong [OF v]
    by (simp add: lru_ok_def lru_pages_def Let_def lru_view_putD [OF v] put_view_def)
qed

text \<open>What remains of the handler once the victim has been saved.\<close>

lemma evict_second_refines:
  assumes "lru_ok s e" and "PageWorkingSetList (envs s e) = []" and "0 < SecondListSize (envs s e)"
    and "p \<notin> set (fst (lru_pages s e))" and "p \<notin> set (snd (lru_pages s e))"
    and "lru_view s1 = (lru_view s)(e := (ptr_pageWorkingSet (envs s e), [last (SecondList (envs s e))],
           ActiveList (envs s e), butlast (SecondList (envs s e)), ActiveListSize (envs s e), SecondListSize (envs s e)))"
    and "Placement e p s1 = Inr (r, s')"
  shows "lru_ok s' e \<and> lru_pages s' e = sfifo (ActiveListSize (envs s e)) (SecondListSize (envs s e)) p (lru_pages s e)
    \<and> (\<forall>e'. e' \<noteq> e \<longrightarrow> lru_view s' e' = lru_view s e')"
proof -
  let ?en = "envs s e"
  have v: "lru_view s1 = put_view e (ptr_pageWorkingSet ?en) [last (SecondList ?en)] (ActiveList ?en)
      (butlast (SecondList ?en)) s" using assms(6) by (simp add: put_view_def)
  note sel = lru_view_putD [OF v]
  have ok: "lists_ok (ptr_pageWorkingSet ?en) [] (ActiveList ?en) (SecondList ?en) (ActiveListSize ?en) (SecondListSize ?en)"
    using assms(1,2) by (simp add: lru_ok_def Let_def)
  have ok1: "lru_ok s1 e" using evict_ok(1) [OF ok assms(3)] by (simp add: lru_ok_def Let_def sel)
  have n: "p \<notin> set (fst (lru_pages s1 e))" "p \<notin> set (snd (lru_pages s1 e))"
    using assms(4,5) by (auto simp: lru_pages_def Let_def sel dest: in_set_butlastD)
  have "p \<notin> va_of (ptr_pageWorkingSet ?en) ` set (SecondList ?en)"
    using assms(5) by (simp add: lru_pages_def Let_def)
  then have "sfifo (ActiveListSize ?en) (SecondListSize ?en) p (lru_pages s1 e) =
      sfifo (ActiveListSize ?en) (SecondListSize ?en) p (lru_pages s e)"
    using sfifo_evict(1) [OF ok _ assms(3)] by (simp add: lru_pages_def Let_def sel)
  moreover have "lru_view s1 e' = lru_view s e'" if "e' \<noteq> e" for e' using that assms(6) by simp
  ultimately show ?thesis using Placement_refines [OF assms(7) ok1 n] by (simp add: sel)
qed

lemma evict_active_refines:
  assumes "lru_ok s e" and "PageWorkingSetList (envs s e) = []" and "SecondListSize (envs s e) = 0"
    and "p \<notin> set (fst (lru_pages s e))" and "p \<notin> set (snd (lru_pages s e))"
    and "lru_view s1 = (lru_view s)(e := (ptr_pageWorkingSet (envs s e), [last (ActiveList (envs s e))],
           butlast (ActiveList (envs s e)), SecondList (envs s e), ActiveListSize (envs s e), SecondListSize (envs s e)))"
    and "Placement e p s1 = Inr (r, s')"
  shows "lru_ok s' e \<and> lru_pages s' e = sfifo (ActiveListSize (envs s e)) (SecondListSize (envs s e)) p (lru_pages s e)
    \<and> (\<forall>e'. e' \<noteq> e \<longrightarrow> lru_view s' e' = lru_view s e')"
proof -
  let ?en = "envs s e"
  have v: "lru_view s1 = put_view e (ptr_pageWorkingSet ?en) [last (ActiveList ?en)] (butlast (ActiveList ?en))
      (SecondList ?en) s" using assms(6) by (simp add: put_view_def)
  note sel = lru_view_putD [OF v]
  have ok: "lists_ok (ptr_pageWorkingSet ?en) [] (ActiveList ?en) (SecondList ?en) (ActiveListSize ?en) (SecondListSize ?en)"
    using assms(1,2) by (simp add: lru_ok_def Let_def)
  have ok1: "lru_ok s1 e" using evict_ok(2) [OF ok assms(3)] by (simp add: lru_ok_def Let_def sel)
  have n: "p \<notin> set (fst (lru_pages s1 e))" "p \<notin> set (snd (lru_pages s1 e))"
    using assms(4,5) by (auto simp: lru_pages_def Let_def sel dest: in_set_butlastD)
  have "p \<notin> va_of (ptr_pageWorkingSet ?en) ` set (SecondList ?en)"
    using assms(5) by (simp add: lru_pages_def Let_def)
  then have "sfifo (ActiveListSize ?en) (SecondListSize ?en) p (lru_pages s1 e) =
      sfifo (ActiveListSize ?en) (SecondListSize ?en) p (lru_pages s e)"
    using sfifo_evict(2) [OF ok _ assms(3)] by (simp add: lru_pages_def Let_def sel)
  moreover have "lru_view s1 e' = lru_view s e'" if "e' \<noteq> e" for e' using that assms(6) by simp
  ultimately show ?thesis using Placement_refines [OF assms(7) ok1 n] by (simp add: sel)
qed

lemma promote_refines:
  assumes "lru_ok s e" and "find (\<lambda>i. ws_va (ptr_pageWorkingSet (envs s e) i) = p) (SecondList (envs s e)) = Some aim"
    and "ActiveList (envs s e) \<noteq> []"
    and "lru_view s' = (lru_view s)(e := (ptr_pageWorkingSet (envs s e), PageWorkingSetList (envs s e),
           aim # butlast (ActiveList (envs s e)), last (ActiveList (envs s e)) # remove1 aim (SecondList (envs s e)),
           ActiveListSize (envs s e), SecondListSize (envs s e)))"
  shows "lru_ok s' e \<and> lru_pages s' e = sfifo (ActiveListSize (envs s e)) (SecondListSize (envs s e)) p (lru_pages s e)
    \<and> (\<forall>e'. e' \<noteq> e \<longrightarrow> lru_view s' e' = lru_view s e')"
proof -
  let ?en = "envs s e"
  have v: "lru_view s' = put_view e (ptr_pageWorkingSet ?en) (PageWorkingSetList ?en)
      (aim # butlast (ActiveList ?en)) (last (ActiveList ?en) # remove1 aim (SecondList ?en)) s"
    using assms(4) by (simp add: put_view_def)
  have "lists_ok (ptr_pageWorkingSet ?en) (PageWorkingSetList ?en) (ActiveList ?en) (SecondList ?en)
      (ActiveListSize ?en) (SecondListSize ?en)"
    using assms(1) by (simp add: lru_ok_def Let_def)
  from promote_ok [OF this assms(2,3)] show ?thesis
    using assms(4) by (simp add: lru_ok_def lru_pages_def Let_def lru_view_putD [OF v])
qed

lemma handler_promote:
  assumes "page_fault_handler e va s = Inr (r, s')" and "distinct (ActiveList (envs s e))"
    and "find (\<lambda>i. ws_va (ptr_pageWorkingSet (envs s e) i) = ROUNDDOWN va PAGE_SIZE) (SecondList (envs s e)) = Some aim"
  shows "ActiveList (envs s e) \<noteq> [] \<and>
    lru_view s' = (lru_view s)(e := (ptr_pageWorkingSet (envs s e), PageWorkingSetList (envs s e),
           aim # butlast (ActiveList (envs s e)), last (ActiveList (envs s e)) # remove1 aim (SecondList (envs s e)),
           ActiveListSize (envs s e), SecondListSize (envs s e)))"
  using assms
  by (auto simp: page_fault_handler_def Let_def bindE_eq_Inr last_of_eq_Some remove1_append_notin
      lru_view_upd env_view_def dest!: pt_set_page_permissions_view)

lemma handler_place:
  assumes "page_fault_handler e va s = Inr (r, s')"
    and "find (\<lambda>i. ws_va (ptr_pageWorkingSet (envs s e) i) = ROUNDDOWN va PAGE_SIZE) (SecondList (envs s e)) = None"
    and "PageWorkingSetList (envs s e) \<noteq> []"
  shows "Placement e (ROUNDDOWN va PAGE_SIZE) s = Inr (r, s')"
  using assms by (simp add: page_fault_handler_def Let_def)

lemma handler_evict_second:
  assumes "page_fault_handler e va s = Inr (r, s')"
    and "find (\<lambda>i. ws_va (ptr_pageWorkingSet (envs s e) i) = ROUNDDOWN va PAGE_SIZE) (SecondList (envs s e)) = None"
    and "PageWorkingSetList (envs s e) = []" and "0 < SecondListSize (envs s e)"
    and "distinct (SecondList (envs s e))"
  shows "\<exists>s1. Placement e (ROUNDDOWN va PAGE_SIZE) s1 = Inr (r, s') \<and>
    lru_view s1 = (lru_view s)(e := (ptr_pageWorkingSet (envs s e), [last (SecondList (envs s e))],
           ActiveList (envs s e), butlast (SecondList (envs s e)), ActiveListSize (envs s e), SecondListSize (envs s e)))"
proof -
  let ?d = "SecondList (envs s e)"
  obtain v s2 where v: "last_of ?d = Some v" and sv: "save_victim e v s = Inr ((), s2)"
    and rest: "bindE (lst_remove v (SecondList (envs s2 e))) (\<lambda>d.
            bindE (lst_insert_head v (PageWorkingSetList (envs s2 e))) (\<lambda>w.
            let s = upd_env e (\<lambda>en. en\<lparr>SecondList := d, PageWorkingSetList := w\<rparr>) s2 in
            bindE (deref (env_page_directory (envs s e))) (\<lambda>pd.
            bindE (unmap_frame pd (ws_va (ptr_pageWorkingSet (envs s2 e) v)) s) (\<lambda>(_, s).
            bindE (pt_set_page_permissions e (ws_va (ptr_pageWorkingSet (envs s2 e) v)) 0 (PERM_PUW OR PERM_MODIFIED) s) (\<lambda>(_, s).
            Placement e (ROUNDDOWN va PAGE_SIZE) s))))) = Inr (r, s')"
    using assms by (auto simp: page_fault_handler_def Let_def bindE_eq_Inr [of "deref _"]
        bindE_eq_Inr [of "save_victim _ _ _"] simp del: last_of_eq_None)
  note sel = lru_view_eqD [OF save_victim_view [OF sv], of e]
  have "?d \<noteq> []" and vl: "v = last ?d" using v by (auto simp: last_of_eq_Some)
  then have "remove1 v ?d = butlast ?d" using distinct_remove1_butlast [OF assms(5)] by simp
  then show ?thesis
    using rest sel save_victim_view [OF sv] vl assms(3)
    by (auto simp: bindE_eq_Inr Let_def lru_view_upd env_view_def
        dest!: pt_set_page_permissions_view unmap_frame_view)
qed

lemma handler_evict_active:
  assumes "page_fault_handler e va s = Inr (r, s')"
    and "find (\<lambda>i. ws_va (ptr_pageWorkingSet (envs s e) i) = ROUNDDOWN va PAGE_SIZE) (SecondList (envs s e)) = None"
    and "PageWorkingSetList (envs s e) = []" and "SecondListSize (envs s e) = 0"
    and "distinct (ActiveList (envs s e))"
  shows "\<exists>s1. Placement e (ROUNDDOWN va PAGE_SIZE) s1 = Inr (r, s') \<and>
    lru_view s1 = (lru_view s)(e := (ptr_pageWorkingSet (envs s e), [last (ActiveList (envs s e))],
           butlast (ActiveList (envs s e)), SecondList (envs s e), ActiveListSize (envs s e), SecondListSize (envs s e)))"
proof -
  let ?d = "ActiveList (envs s e)"
  obtain v s2 where v: "last_of ?d = Some v" and sv: "save_victim e v s = Inr ((), s2)"
    and rest: "bindE (lst_remove v (ActiveList (envs s2 e))) (\<lambda>d.
            bindE (lst_insert_head v (PageWorkingSetList (envs s2 e))) (\<lambda>w.
            let s = upd_env e (\<lambda>en. en\<lparr>ActiveList := d, PageWorkingSetList := w\<rparr>) s2 in
            bindE (deref (env_page_directory (envs s e))) (\<lambda>pd.
            bindE (unmap_frame pd (ws_va (ptr_pageWorkingSet (envs s2 e) v)) s) (\<lambda>(_, s).
            Placement e (ROUNDDOWN va PAGE_SIZE) s)))) = Inr (r, s')"
    using assms by (auto simp: page_fault_handler_def Let_def bindE_eq_Inr [of "deref _"]
        bindE_eq_Inr [of "save_victim _ _ _"] simp del: last_of_eq_None)
  note sel = lru_view_eqD [OF save_victim_view [OF sv], of e]
  have "?d \<noteq> []" and vl: "v = last ?d" using v by (auto simp: last_of_eq_Some)
  then have "remove1 v ?d = butlast ?d" using distinct_remove1_butlast [OF assms(5)] by simp
  then show ?thesis
    using rest sel save_victim_view [OF sv] vl assms(3)
    by (auto simp: bindE_eq_Inr Let_def lru_view_upd env_view_def dest!: unmap_frame_view)
qed

section \<open>Properties\<close>

text \<open>
  C3: the page fault handler implements the segmented FIFO policy. On a fault at an address whose
  page is not in the active list, a handler that returns leaves the three lists a partition of the
  working set elements within the sizes of the environment, its active and second list hold the
  pages that the policy computes from the old ones, the faulted page is the newest active page,
  and the lists of the other environments are untouched.
\<close>

theorem page_fault_handler_refines:
  assumes "lru_ok s e" and "page_fault_handler e va s = Inr (r, s')"
    and "ROUNDDOWN va PAGE_SIZE \<notin> set (fst (lru_pages s e))"
  shows "lru_ok s' e \<and>
    lru_pages s' e = sfifo (ActiveListSize (envs s e)) (SecondListSize (envs s e)) (ROUNDDOWN va PAGE_SIZE) (lru_pages s e) \<and>
    hd (fst (lru_pages s' e)) = ROUNDDOWN va PAGE_SIZE \<and>
    (\<forall>e'. e' \<noteq> e \<longrightarrow> lru_view s' e' = lru_view s e')"
proof -
  let ?p = "ROUNDDOWN va PAGE_SIZE" and ?en = "envs s e"
  let ?f = "find (\<lambda>i. ws_va (ptr_pageWorkingSet ?en i) = ?p) (SecondList ?en)"
  have d: "distinct (ActiveList ?en)" "distinct (SecondList ?en)" "0 \<le> SecondListSize ?en"
    using assms(1) by (auto simp: lru_ok_def lists_ok_def Let_def)
  have "lru_ok s' e \<and> lru_pages s' e = sfifo (ActiveListSize ?en) (SecondListSize ?en) ?p (lru_pages s e) \<and>
    (\<forall>e'. e' \<noteq> e \<longrightarrow> lru_view s' e' = lru_view s e')"
  proof (cases ?f)
    case (Some aim)
    then show ?thesis using promote_refines [OF assms(1) Some] handler_promote [OF assms(2) d(1) Some] by blast
  next
    case None
    then have n: "?p \<notin> set (snd (lru_pages s e))"
      by (auto simp: find_None_iff lru_pages_def va_of_def Let_def)
    show ?thesis
    proof (cases "PageWorkingSetList ?en = []")
      case False
      show ?thesis by (rule Placement_refines [OF handler_place [OF assms(2) None False] assms(1,3) n])
    next
      case W: True
      show ?thesis
      proof (cases "0 < SecondListSize ?en")
        case True
        then show ?thesis using handler_evict_second [OF assms(2) None W True d(2)]
          evict_second_refines [OF assms(1) W True assms(3) n] by blast
      next
        case False
        then have z: "SecondListSize ?en = 0" using d(3) by simp
        show ?thesis using handler_evict_active [OF assms(2) None W z d(1)]
          evict_active_refines [OF assms(1) W z assms(3) n] by blast
      qed
    qed
  qed
  moreover have "hd (fst (sfifo a b p l)) = p" for a b :: int and p :: uint32 and l
    by (cases l) (simp add: sfifo_def Let_def)
  ultimately show ?thesis by simp
qed

lemma PPN_flags:
  assumes "x AND NOT 0xFFF = 0" and "y AND NOT 0xFFF = 0"
  shows "PPN ((a OR x) AND NOT y) = PPN a"
proof (rule bit_word_eqI)
  fix n assume n: "n < LENGTH(32)"
  have h: "\<not> bit z (n + 12)" if z: "z AND NOT 0xFFF = 0" for z :: uint32
  proof -
    have "\<not> bit (z AND NOT 0xFFF) (n + 12)" using z by simp
    then have "n + 12 < 32 \<Longrightarrow> \<not> bit z (n + 12)" by (simp add: bit_simps mask_12_eq)
    then show ?thesis using bit_imp_le_length by fastforce
  qed
  show "bit (PPN ((a OR x) AND NOT y)) n = bit (PPN a) n"
    using h [OF assms(1)] h [OF assms(2)] bit_imp_le_length [of a "n + 12"]
    by (auto simp: PPN_def bit_simps add.commute)
qed

lemma pt_set_page_permissions_ok:
  assumes "pd_ok s pd" and "env_page_directory (envs s e) = Some pd"
    and "pdx va < UPDES" and "rd s pd (pdx va) \<noteq> 0"
  shows "pt_set_page_permissions e va x y s =
    Inr ((), wr (tbl s pd (pdx va)) (ptx va) ((pte_at s pd (pdx va) (ptx va) OR x) AND NOT y) s)"
  using assms SKVA_table [OF assms(1,3,4)] pd_okD(1) [OF assms(1,3,4)]
  by (simp add: pt_set_page_permissions_def Let_def pte_at_def)

lemma pt_set_page_permissions_entries:
  assumes "pd_ok s pd" and "env_page_directory (envs s e) = Some pd"
    and "pdx va < UPDES" and "rd s pd (pdx va) \<noteq> 0"
    and "pt_set_page_permissions e va x y s = Inr ((), s')"
  shows "\<And>k l. k < UPDES \<Longrightarrow> l < 1024 \<Longrightarrow> pte_at s' pd k l =
      (if k = pdx va \<and> l = ptx va then (pte_at s pd (pdx va) (ptx va) OR x) AND NOT y else pte_at s pd k l)"
    and "envs s' = envs s" and "disk s' = disk s" and "free_frame_list s' = free_frame_list s"
    and "\<And>k. rd s' pd k = rd s pd k"
    and "x AND NOT 0xFFF = 0 \<Longrightarrow> y AND NOT 0xFFF = 0 \<Longrightarrow> pd_ok s' pd"
proof -
  note e = pt_set_page_permissions_ok [OF assms(1-4), of x y]
  let ?v = "(pte_at s pd (pdx va) (ptx va) OR x) AND NOT y"
  have s': "s' = wr (tbl s pd (pdx va)) (ptx va) ?v s" using e assms(5) by simp
  note w = wr_entry [OF assms(1,3,4), where j = "ptx va" and v = ?v]
  show "pte_at s' pd k l = (if k = pdx va \<and> l = ptx va then ?v else pte_at s pd k l)"
    if "k < UPDES" "l < 1024" for k l using w that by (simp add: s')
  show "envs s' = envs s" "disk s' = disk s" "free_frame_list s' = free_frame_list s"
    by (simp_all add: s' wr_def)
  show "rd s' pd k = rd s pd k" for k using w by (simp add: s')
  assume x: "x AND NOT 0xFFF = 0" and y: "y AND NOT 0xFFF = 0"
  let ?a = "pte_at s pd (pdx va) (ptx va)"
  have "PPN ?v = PPN ?a" by (rule PPN_flags) (rule x, rule y)
  moreover have "unat (PPN ?a) < number_of_frames s"
  proof (cases "?a = 0")
    case True
    then show ?thesis using assms(1) by (simp add: pd_ok_def PPN_def)
  next
    case False
    then show ?thesis using pd_ok_pte [OF assms(1,3)] by simp
  qed
  ultimately show "pd_ok s' pd"
    unfolding s' by (intro pd_ok_wr_entry [OF assms(1,3,4)]) simp
qed

text \<open>
  A fault on a page of the second list is served without the disk and without a new frame. If
  the tables of that page and of the oldest active page are in memory, the handler returns, gives
  the page its permissions back, takes them from the oldest active page, and changes no other
  entry of the address space, no disk sector and not the free list.
\<close>

theorem second_list_hit_returns:
  assumes "pd_ok s pd" and "env_page_directory (envs s e) = Some pd" and "lru_ok s e"
    and "lru_pages s e = (A, D)" and "ROUNDDOWN va PAGE_SIZE \<in> set D" and "A \<noteq> []"
    and "p = ROUNDDOWN va PAGE_SIZE" and "q = last A" and "(pdx q, ptx q) \<noteq> (pdx p, ptx p)"
    and "pdx p < UPDES" and "rd s pd (pdx p) \<noteq> 0" and "pdx q < UPDES" and "rd s pd (pdx q) \<noteq> 0"
  shows "\<exists>s'. page_fault_handler e va s = Inr ((), s') \<and>
    lru_pages s' e = (p # butlast A, q # remove1 p D) \<and>
    (\<forall>k l. k < UPDES \<longrightarrow> l < 1024 \<longrightarrow> pte_at s' pd k l =
       (if k = pdx p \<and> l = ptx p then pte_at s pd k l OR PERM_PUW
        else if k = pdx q \<and> l = ptx q then pte_at s pd k l AND NOT PERM_PUW else pte_at s pd k l)) \<and>
    disk s' = disk s \<and> free_frame_list s' = free_frame_list s"
proof -
  let ?en = "envs s e" and ?ws = "ptr_pageWorkingSet (envs s e)"
  have AD: "A = map (va_of ?ws) (ActiveList ?en)" "D = map (va_of ?ws) (SecondList ?en)"
    using assms(4) by (auto simp: lru_pages_def Let_def)
  obtain aim where f: "find (\<lambda>i. ws_va (?ws i) = p) (SecondList ?en) = Some aim"
    using assms(5,7) unfolding AD va_of_def by (cases "find (\<lambda>i. ws_va (?ws i) = p) (SecondList ?en)")
      (auto simp: find_None_iff)
  have aim: "aim \<in> set (SecondList ?en)" "ws_va (?ws aim) = p"
    using find_SomeD [OF f] by auto
  have ne: "ActiveList ?en \<noteq> []" using assms(6) AD by simp
  then obtain a x where a: "ActiveList ?en = a @ [x]" using list_last_cases by blast
  have qx: "ws_va (?ws x) = q" using assms(8) by (simp add: AD a va_of_def)
  have ds: "distinct (a @ [x])" "aim \<notin> set a" "x \<notin> set (SecondList ?en)"
    using assms(3) aim by (auto simp: lru_ok_def lists_ok_def Let_def a)
  define s1 where "s1 = upd_env e (\<lambda>en. en\<lparr>ActiveList := aim # a, SecondList := x # remove1 aim (SecondList ?en)\<rparr>) s"
  have m1: "pmem s1 = pmem s" "disk s1 = disk s" "free_frame_list s1 = free_frame_list s"
    "number_of_frames s1 = number_of_frames s" by (simp_all add: s1_def upd_env_def)
  note cg = aspace_cong [OF m1(1), of pd]
  have pd1: "pd_ok s1 pd" using assms(1) cg(6) [OF m1(4)] by simp
  have r1: "rd s1 pd k = rd s pd k" for k using m1(1) by (simp add: rd_def)
  have d1: "env_page_directory (envs s1 e) = Some pd" "ptr_pageWorkingSet (envs s1 e) = ?ws"
    using assms(2) by (simp_all add: s1_def)
  obtain s2 where s2: "pt_set_page_permissions e p PERM_PUW 0 s1 = Inr ((), s2)"
    using pt_set_page_permissions_ok [OF pd1 d1(1) assms(10)] assms(11) r1 by simp
  have nz1: "rd s1 pd (pdx p) \<noteq> 0" using assms(11) r1 by simp
  note e2 = pt_set_page_permissions_entries [OF pd1 d1(1) assms(10) nz1 s2]
  have pd2: "pd_ok s2 pd" by (rule e2(6)) (simp_all add: PERM_PUW_def perm_defs)
  have d2: "env_page_directory (envs s2 e) = Some pd" using d1 e2(2) by simp
  have nz2: "rd s2 pd (pdx q) \<noteq> 0" using assms(13) r1 e2(5) by simp
  obtain s3 where s3: "pt_set_page_permissions e q 0 PERM_PUW s2 = Inr ((), s3)"
    using pt_set_page_permissions_ok [OF pd2 d2 assms(12) nz2] by simp
  note e3 = pt_set_page_permissions_entries [OF pd2 d2 assms(12) nz2 s3]
  have h: "page_fault_handler e va s = Inr ((), s3)"
    using f aim ds s2 s3 e2(2) d1(2) assms(7) qx
    by (simp add: page_fault_handler_def Let_def a s1_def [symmetric] remove1_append_notin)
  moreover have "lru_pages s3 e = (p # butlast A, q # remove1 p D)"
  proof -
    have ok: "lists_ok ?ws (PageWorkingSetList ?en) (ActiveList ?en) (SecondList ?en) (ActiveListSize ?en) (SecondListSize ?en)"
      using assms(3) by (simp add: lru_ok_def Let_def)
    have "envs s3 = envs s1" using e2(2) e3(2) by simp
    then have "lru_pages s3 e = (map (va_of ?ws) (aim # butlast (ActiveList ?en)),
        map (va_of ?ws) (last (ActiveList ?en) # remove1 aim (SecondList ?en)))"
      by (simp add: lru_pages_def Let_def s1_def a)
    also have "\<dots> = (p # butlast A, q # remove1 p D)"
      using promote_ok [OF ok f ne] assms(5,7,8) by (simp add: sfifo_def AD)
    finally show ?thesis .
  qed
  moreover have "disk s3 = disk s" "free_frame_list s3 = free_frame_list s"
    using e2 e3 m1 by simp_all
  ultimately show ?thesis
    using e2(1) e3(1) assms(9) cg(2) by (intro exI [of _ s3]) (auto simp: assms(12))
qed

text \<open>The small machine with page \<open>0x800000\<close> on the active and \<open>0x801000\<close> on the second list.\<close>

definition lru_m :: kernel where
  "lru_m = wr 5 1 0x6007 (wr 5 0 0x7007 (wr 3 2 0x5007 (upd_env 0 (\<lambda>en. en\<lparr>
     ptr_pageWorkingSet := (\<lambda>i. \<lparr>ws_va = (if i = 0 then 0x800000 else 0x801000), ws_empty = 0\<rparr>),
     ActiveList := [0], SecondList := [1], ActiveListSize := 1, SecondListSize := 1\<rparr>) tiny)))"

lemma lru_m_simps:
  "lru_ok lru_m 0" "lru_pages lru_m 0 = ([0x800000], [0x801000])"
  "env_page_directory (envs lru_m 0) = Some 3" "rd lru_m 3 2 = 0x5007"
  by (simp_all add: lru_m_def lru_ok_def lru_pages_def lists_ok_def va_of_def Let_def tiny_def zero_env_def rd_wr)

lemma lru_m_dir: "rd lru_m 3 i = (if i = 2 then 0x5007 else 0)" "number_of_frames lru_m = 16"
  by (simp_all add: lru_m_def rd_wr) (simp_all add: rd_def tiny_def)

lemma lru_m_tbl: "rd lru_m 5 i = (if i = 0 then 0x7007 else if i = 1 then 0x6007 else 0)"
  by (simp add: lru_m_def rd_wr) (simp add: rd_def tiny_def)

lemma lru_m_pd_ok: "pd_ok lru_m 3"
  by (simp add: pd_ok_def lru_m_dir tbl_def pte_at_def lru_m_tbl PPN_def present_def PERM_PRESENT_def)

lemma second_page: "ROUNDDOWN 0x801004 PAGE_SIZE = 0x801000" "pdx 0x801000 = 2" "ptx 0x801000 = 1"
  by (simp_all add: ROUNDDOWN_def PAGE_SIZE_def pdx_def PDX_def ptx_def PTX_def)

lemma lru_m_hit: "\<exists>s'. page_fault_handler 0 0x801004 lru_m = Inr ((), s')"
proof -
  have t: "STATIC_KERNEL_VIRTUAL_ADDRESS (EXTRACT_ADDRESS 0x5007) s = Inr 5" if "number_of_frames s = 16" for s
    using that by (simp add: STATIC_KERNEL_VIRTUAL_ADDRESS_def EXTRACT_ADDRESS_def PPN_def)
  have l: "ActiveList (envs lru_m 0) = [0]" "SecondList (envs lru_m 0) = [1]"
    "ws_va (ptr_pageWorkingSet (envs lru_m 0) 0) = 0x800000" "ws_va (ptr_pageWorkingSet (envs lru_m 0) 1) = 0x801000"
    by (simp_all add: lru_m_def)
  let ?s = "upd_env 0 (\<lambda>en. en\<lparr>ActiveList := [1], SecondList := [0]\<rparr>) lru_m"
  have s: "env_page_directory (envs ?s 0) = Some 3" "rd ?s 3 2 = 0x5007" "number_of_frames ?s = 16"
    "ws_va (ptr_pageWorkingSet (envs ?s 0) 0) = 0x800000" "ws_va (ptr_pageWorkingSet (envs ?s 0) 1) = 0x801000"
    using lru_m_simps lru_m_dir l by simp_all
  have p: "present 0x5007" by (simp add: present_def PERM_PRESENT_def)
  have "pt_set_page_permissions 0 0x801000 PERM_PUW 0 ?s = Inr ((), wr 5 1 (rd ?s 5 1 OR PERM_PUW) ?s)"
    using s t [OF s(3)] p by (simp add: pt_set_page_permissions_def Let_def second_page)
  moreover have "\<exists>s'. pt_set_page_permissions 0 0x800000 0 PERM_PUW (wr 5 1 (rd ?s 5 1 OR PERM_PUW) ?s) = Inr ((), s')"
    using s t [of "wr 5 1 (rd ?s 5 1 OR PERM_PUW) ?s"] p
    by (simp add: pt_set_page_permissions_def Let_def user_small rd_wr)
  ultimately show ?thesis
    using l s by (simp add: page_fault_handler_def Let_def second_page)
qed

theorem second_list_hit_returns_witness:
  "\<exists>s'. page_fault_handler 0 0x801004 lru_m = Inr ((), s') \<and>
     lru_pages s' 0 = ([0x801000], [0x800000]) \<and> disk s' = disk lru_m"
proof -
  have h: "ROUNDDOWN 0x801004 PAGE_SIZE \<in> set [0x801000]" "[0x800000 :: uint32] \<noteq> []"
    "0x801000 = ROUNDDOWN 0x801004 PAGE_SIZE" "0x800000 = last [0x800000 :: uint32]"
    "(pdx 0x800000, ptx 0x800000) \<noteq> (pdx 0x801000, ptx 0x801000)"
    "pdx 0x801000 < UPDES" "rd lru_m 3 (pdx 0x801000) \<noteq> 0"
    "pdx 0x800000 < UPDES" "rd lru_m 3 (pdx 0x800000) \<noteq> 0"
    by (simp_all add: second_page user_small UPDES_def lru_m_simps(4))
  have "butlast [0x800000 :: uint32] = []" "remove1 0x801000 [0x801000 :: uint32] = []" by simp_all
  then show ?thesis
    using second_list_hit_returns [OF lru_m_pd_ok lru_m_simps(3,1,2) h] by (simp only:) blast
qed

theorem page_fault_handler_refines_witness:
  "\<exists>s'. page_fault_handler 0 0x801004 lru_m = Inr ((), s') \<and> lru_ok s' 0 \<and>
     lru_pages s' 0 = ([0x801000], [0x800000])"
proof -
  obtain s' where s': "page_fault_handler 0 0x801004 lru_m = Inr ((), s')" using lru_m_hit by blast
  have n: "ROUNDDOWN 0x801004 PAGE_SIZE \<notin> set (fst (lru_pages lru_m 0))"
    by (simp add: second_page lru_m_simps)
  have "sfifo 1 1 0x801000 ([0x800000], [0x801000]) = ([0x801000], [0x800000 :: uint32])"
    by (simp add: sfifo_def)
  moreover have "ActiveListSize (envs lru_m 0) = 1" "SecondListSize (envs lru_m 0) = 1"
    by (simp_all add: lru_m_def)
  ultimately show ?thesis
    using page_fault_handler_refines [OF lru_m_simps(1) s' n] s' lru_m_simps(2) by (simp add: second_page)
qed

end
