(* ===== verification/User_Memory.thy ===== *)
theory User_Memory
  imports Page_Fault_Inv
begin

text \<open>
  The kernel side of the user heap (\<^verbatim>\<open>kern/memory_manager.c\<close>): \<open>allocateMem\<close> reserves pages in the
  page file only, \<open>freeMem\<close> removes pages from the page file, the working set and memory and frees
  page tables that became empty.
\<close>

section \<open>Definitions\<close>

definition allocateMem :: "nat \<Rightarrow> uint32 \<Rightarrow> uint32 \<Rightarrow> kernel \<Rightarrow> unit result" where
  "allocateMem e virtual_address sz s =
     (let num = unat (sz div PAGE_SIZE);
          num = (if sz mod PAGE_SIZE \<noteq> 0 then num + 1 else num) in
      bindE (foldE (\<lambda>i s. bindE (pf_add_empty_env_page e (virtual_address + of_nat i * PAGE_SIZE) False s) (\<lambda>(_, s). Inr s))
               [0..<num] s) (\<lambda>s. Inr ((), s)))"

text \<open>
  The body of the loop over the active list. \<open>found\<close> is a local variable of \<open>freeMem\<close>; the inner
  loop is nested in the outer one and shares its loop variable, which the outer loop overwrites
  from its own saved position.
\<close>

definition free_second :: "nat \<Rightarrow> uint32 \<Rightarrow> nat \<Rightarrow> int \<times> kernel \<Rightarrow> halt + int \<times> kernel" where
  "free_second e va w = (\<lambda>(found, s).
     if ws_va (ptr_pageWorkingSet (envs s e) w) = va then
       bindE (lst_remove w (SecondList (envs s e))) (\<lambda>d.
       bindE (lst_insert_head w (PageWorkingSetList (envs s e))) (\<lambda>l.
       let s = upd_env e (\<lambda>en. en\<lparr>SecondList := d, PageWorkingSetList := l\<rparr>) s in
       bindE (deref (env_page_directory (envs s e))) (\<lambda>pd.
       bindE (unmap_frame pd va s) (\<lambda>(_, s). Inr (1, s)))))
     else Inr (found, s))"

definition free_active :: "nat \<Rightarrow> uint32 \<Rightarrow> nat \<Rightarrow> int \<times> kernel \<Rightarrow> halt + int \<times> kernel" where
  "free_active e va w = (\<lambda>(found, s).
     bindE
       (if ws_va (ptr_pageWorkingSet (envs s e) w) = va then
          bindE (lst_remove w (ActiveList (envs s e))) (\<lambda>a.
          let s = upd_env e (\<lambda>en. en\<lparr>ActiveList := a\<rparr>) s in
          bindE
            (case first_of (SecondList (envs s e)) of
               None \<Rightarrow> Inr ((), s)
             | Some x \<Rightarrow>
                 bindE (lst_remove x (SecondList (envs s e))) (\<lambda>d.
                 bindE (lst_insert_tail x (ActiveList (envs s e))) (\<lambda>a.
                 let s = upd_env e (\<lambda>en. en\<lparr>SecondList := d, ActiveList := a\<rparr>) s in
                 pt_set_page_permissions e (ws_va (ptr_pageWorkingSet (envs s e) x)) PERM_PUW 0 s))) (\<lambda>(_, s).
          bindE (deref (env_page_directory (envs s e))) (\<lambda>pd.
          bindE (unmap_frame pd va s) (\<lambda>(_, s). Inr (1, s)))))
        else Inr (found, s)) (\<lambda>(found, s).
     if found = 0 then
       foreach (length (SecondList (envs s e))) (\<lambda>(_, s). SecondList (envs s e)) (free_second e va)
         (first_of (SecondList (envs s e))) (found, s)
     else Inr (found, s)))"

definition freeMem_page :: "nat \<Rightarrow> uint32 \<Rightarrow> kernel \<Rightarrow> halt + kernel" where
  "freeMem_page e va s =
     bindE (pf_remove_env_page e va s) (\<lambda>(_, s).
     bindE (foreach (length (ActiveList (envs s e)) + length (SecondList (envs s e)))
              (\<lambda>(_, s). ActiveList (envs s e)) (free_active e va)
              (first_of (ActiveList (envs s e))) (0, s)) (\<lambda>(_, s). Inr s))"

definition freeMem_table :: "nat \<Rightarrow> uint32 \<Rightarrow> kernel \<Rightarrow> halt + kernel" where
  "freeMem_table e va s =
     bindE (deref (env_page_directory (envs s e))) (\<lambda>pd.
     bindE (get_page_table pd va s) (\<lambda>((_, pt), s).
     case pt of None \<Rightarrow> Inr s
     | Some t \<Rightarrow>
         if list_all (\<lambda>j. rd s t j = 0) [0..<1024] then
           bindE (to_frame_info (drop_bit 12 (rd s pd (pdx va)) * PAGE_SIZE) s) (\<lambda>f.
           bindE (free_frame f s) (\<lambda>(_, s).
           bindE (pd_clear_page_dir_entry e va s) (\<lambda>(_, s). Inr s)))
         else Inr s))"

text \<open>\<open>while (va <= end) { ...; va += PAGE_SIZE*1024; }\<close>; at most 1024 steps unless \<open>va\<close> wraps.\<close>

fun while_le :: "nat \<Rightarrow> uint32 \<Rightarrow> uint32 \<Rightarrow> uint32 \<Rightarrow> (uint32 \<Rightarrow> 'a \<Rightarrow> halt + 'a) \<Rightarrow> 'a \<Rightarrow> halt + 'a" where
  "while_le 0 step va end body a = Inl OutOfFuel"
| "while_le (Suc n) step va end body a =
     (if va \<le> end then bindE (body va a) (while_le n step (va + step) end body) else Inr a)"

definition freeMem :: "nat \<Rightarrow> uint32 \<Rightarrow> uint32 \<Rightarrow> kernel \<Rightarrow> unit result" where
  "freeMem e virtual_address sz s =
     (let n_pages = ROUNDUP sz PAGE_SIZE div PAGE_SIZE in
      bindE (foldE (\<lambda>i. freeMem_page e (virtual_address + of_nat i * PAGE_SIZE)) [0..<unat n_pages] s) (\<lambda>s.
      bindE (while_le 1026 (PAGE_SIZE * 1024) virtual_address (virtual_address + sz) (freeMem_table e) s) (\<lambda>s.
      Inr ((), s))))"

section \<open>Lemmas\<close>

lemma pf_get_dfn_free:
  assumes "pf_ok s e" and "pf_get_dfn e va s = Inr (r, s')"
  shows "set (disk_free_frame_list s') \<subseteq> set (disk_free_frame_list s)"
proof -
  obtain r1 s1 where g1: "get_disk_page_directory e s = Inr (r1, s1)"
    using assms(2) by (auto simp: pf_get_dfn_def bindE_eq_Inr)
  obtain dd where dd: "disk_env_pgdir (envs s1 e) = Some dd" "dd_ok s1 dd" "frames_ok s1"
      "disk_list_ok s1" "disk_free_frame_list s1 = disk_free_frame_list s"
    using get_disk_page_directory_ok [OF assms(1) g1] by blast
  obtain pt s2 where g2: "get_disk_page_table dd va True s1 = Inr (pt, s2)"
    using assms(2) g1 dd(1) by (auto simp: pf_get_dfn_def bindE_eq_Inr)
  note t = get_disk_page_table_ok [OF dd(2-4) g2, where e = e]
  have "disk_free_frame_list s2 = disk_free_frame_list s" using t dd by simp
  moreover have "set (disk_free_frame_list s') \<subseteq> set (disk_free_frame_list s2)"
    using assms(2) g1 dd(1) g2
    by (auto simp: pf_get_dfn_def bindE_eq_Inr Let_def allocate_disk_frame_def wr_def
        split: if_splits option.splits dest!: set_remove1_subset [THEN subsetD])
  ultimately show ?thesis by simp
qed

lemma pf_add_empty_ok:
  assumes "pf_ok s e" and "pf_add_empty_env_page e va False s = Inr (r, s')"
  shows "pf_ok s' e" and "disk s' = disk s"
    and "set (disk_free_frame_list s') \<subseteq> set (disk_free_frame_list s)"
    and "pf_dfn s e (pdx va') (ptx va') \<noteq> 0 \<Longrightarrow> pf_dfn s' e (pdx va') (ptx va') = pf_dfn s e (pdx va') (ptx va')"
    and "pf_dfn s' e (pdx va) (ptx va) \<noteq> 0 \<or> disk_free_frame_list s' = []"
proof -
  obtain d where g: "pf_get_dfn e va s = Inr (d, s')"
    using assms(2) by (auto simp: pf_add_empty_env_page_def bindE_eq_Inr split: if_splits option.splits)
  note q = pf_get_dfn_ok [OF assms(1) g]
  show "pf_ok s' e" "disk s' = disk s" by (rule q(1)) (rule q(2))
  show f: "set (disk_free_frame_list s') \<subseteq> set (disk_free_frame_list s)" by (rule pf_get_dfn_free [OF assms(1) g])
  show "pf_dfn s' e (pdx va') (ptx va') = pf_dfn s e (pdx va') (ptx va')" if "pf_dfn s e (pdx va') (ptx va') \<noteq> 0"
    using q(4,5) that pdx_less ptx_less by (cases d) (metis, metis)
  show "pf_dfn s' e (pdx va) (ptx va) \<noteq> 0 \<or> disk_free_frame_list s' = []"
    using q(4,5) f pdx_less ptx_less by (cases d) auto
qed

section \<open>Properties\<close>

lemma allocateMem_fold:
  assumes "pf_ok s e"
    and "foldE (\<lambda>i s. bindE (pf_add_empty_env_page e (va + of_nat i * PAGE_SIZE) False s) (\<lambda>(_, s). Inr s)) xs s = Inr s'"
  shows "pf_ok s' e \<and> disk s' = disk s \<and> set (disk_free_frame_list s') \<subseteq> set (disk_free_frame_list s) \<and>
    (\<forall>v. pf_dfn s e (pdx v) (ptx v) \<noteq> 0 \<longrightarrow> pf_dfn s' e (pdx v) (ptx v) = pf_dfn s e (pdx v) (ptx v)) \<and>
    (\<forall>i \<in> set xs. pf_dfn s' e (pdx (va + of_nat i * PAGE_SIZE)) (ptx (va + of_nat i * PAGE_SIZE)) \<noteq> 0 \<or>
       disk_free_frame_list s' = [])"
  using assms
proof (induction xs arbitrary: s)
  case Nil
  then show ?case by simp
next
  case (Cons i xs)
  then obtain r s1 where a: "pf_add_empty_env_page e (va + of_nat i * PAGE_SIZE) False s = Inr (r, s1)"
    and f: "foldE (\<lambda>i s. bindE (pf_add_empty_env_page e (va + of_nat i * PAGE_SIZE) False s) (\<lambda>(_, s). Inr s)) xs s1 = Inr s'"
    by (auto simp: bindE_eq_Inr)
  note q = pf_add_empty_ok [OF Cons.prems(1) a]
  note ih = Cons.IH [OF q(1) f]
  have "pf_dfn s' e (pdx v) (ptx v) = pf_dfn s e (pdx v) (ptx v)" if "pf_dfn s e (pdx v) (ptx v) \<noteq> 0" for v
    using q(4) [OF that] ih that by metis
  moreover have "pf_dfn s' e (pdx (va + of_nat i * PAGE_SIZE)) (ptx (va + of_nat i * PAGE_SIZE)) \<noteq> 0 \<or>
       disk_free_frame_list s' = []"
    using q(5) ih by (metis subset_empty set_empty)
  ultimately show ?case using ih q(2,3) by auto
qed

text \<open>
  \<open>allocateMem\<close> reserves the pages of the range in the page file and does nothing else to it:
  every page of the range has a disk frame afterwards unless the page file is used up, pages that
  were there keep theirs, and no disk sector is written, so a new page holds whatever its disk
  frame held before.
\<close>

theorem allocateMem_reserves:
  assumes "pf_ok s e" and "allocateMem e va sz s = Inr ((), s')"
  shows "pf_ok s' e \<and> disk s' = disk s \<and>
    (\<forall>i. i * 4096 < unat sz \<longrightarrow> disk_free_frame_list s' \<noteq> [] \<longrightarrow>
       pf_content s' e (va + of_nat i * PAGE_SIZE) \<noteq> None) \<and>
    (\<forall>v p. pf_content s e v = Some p \<longrightarrow> pf_content s' e v = Some p)"
proof -
  define n where "n = (if sz mod PAGE_SIZE \<noteq> 0 then unat (sz div PAGE_SIZE) + 1 else unat (sz div PAGE_SIZE))"
  have f: "foldE (\<lambda>i s. bindE (pf_add_empty_env_page e (va + of_nat i * PAGE_SIZE) False s) (\<lambda>(_, s). Inr s)) [0..<n] s = Inr s'"
    using assms(2) by (auto simp: allocateMem_def bindE_eq_Inr n_def Let_def split: if_splits)
  note a = allocateMem_fold [OF assms(1) f]
  have i: "i < n" if "i * 4096 < unat sz" for i
  proof -
    have d: "unat (sz div PAGE_SIZE) = unat sz div 4096" "unat (sz mod PAGE_SIZE) = unat sz mod 4096"
      by (simp_all add: PAGE_SIZE_def unat_div_distrib unat_mod_distrib)
    have z: "sz mod PAGE_SIZE = 0 \<longleftrightarrow> unat sz mod 4096 = 0" unfolding d(2) [symmetric] by (simp add: unat_eq_0)
    obtain q r where qr: "q = unat sz div 4096" "r = unat sz mod 4096" by blast
    have e: "unat sz = 4096 * q + r" unfolding qr by (rule mult_div_mod_eq [symmetric])
    show ?thesis
    proof (cases "r = 0")
      case True
      then have "n = q" unfolding n_def z d(1) qr [symmetric] by simp
      then show ?thesis using that e True by linarith
    next
      case False
      then have "n = q + 1" unfolding n_def z d(1) qr [symmetric] by simp
      moreover have "r < 4096" unfolding qr by simp
      ultimately show ?thesis using that e by linarith
    qed
  qed
  have "pf_content s' e (va + of_nat i * PAGE_SIZE) \<noteq> None"
    if "i * 4096 < unat sz" "disk_free_frame_list s' \<noteq> []" for i
    using a i [OF that(1)] that(2) by (auto simp: pf_content_def Let_def)
  moreover have "pf_content s' e v = Some p" if "pf_content s e v = Some p" for v p
  proof -
    have nz: "pf_dfn s e (pdx v) (ptx v) \<noteq> 0" using that by (auto simp: pf_content_def Let_def split: if_splits)
    then have "pf_dfn s' e (pdx v) (ptx v) = pf_dfn s e (pdx v) (ptx v)" using a by blast
    moreover have "disk_page s' x i = disk_page s x i" for x i using a by (simp add: disk_page_def)
    ultimately show ?thesis using that nz by (simp add: pf_content_def Let_def cong: if_cong)
  qed
  ultimately show ?thesis using a by blast
qed

theorem allocateMem_reserves_witness:
  "\<exists>s'. allocateMem 0 0x80000000 0 tiny = Inr ((), s') \<and> pf_ok s' 0"
proof -
  have a: "allocateMem 0 0x80000000 0 tiny = Inr ((), tiny)"
    by (simp add: allocateMem_def PAGE_SIZE_def)
  then show ?thesis using allocateMem_reserves [OF tiny_pf_ok a] by blast
qed

lemma pf_remove_env_page_view: "pf_remove_env_page e va s = Inr (r, s') \<Longrightarrow> lru_view s' = lru_view s"
  by (auto simp: pf_remove_env_page_def bindE_eq_Inr free_disk_frame_def Let_def
      split: option.splits if_splits dest!: get_disk_page_table_view)

lemma freeMem_table_view: "freeMem_table e va s = Inr s' \<Longrightarrow> lru_view s' = lru_view s"
  by (auto simp: freeMem_table_def bindE_eq_Inr pd_clear_page_dir_entry_def
      split: option.splits if_splits dest!: get_page_table_same free_frame_view)

lemma while_le_view:
  "while_le n st va end (freeMem_table e) s = Inr s' \<Longrightarrow> lru_view s' = lru_view s"
  by (induction n arbitrary: va s) (auto simp: bindE_eq_Inr split: if_splits dest!: freeMem_table_view)

lemma free_active_view:
  assumes "free_active e va w (f, s) = Inr (f', s')" and "SecondList (envs s e) = []"
    and "distinct (ActiveList (envs s e))"
  shows "if ws_va (ptr_pageWorkingSet (envs s e) w) = va
    then w \<in> set (ActiveList (envs s e)) \<and>
      lru_view s' = put_view e (ptr_pageWorkingSet (envs s e)) (PageWorkingSetList (envs s e))
                      (remove1 w (ActiveList (envs s e))) [] s
    else lru_view s' = lru_view s"
  using assms
  by (auto simp: free_active_def bindE_eq_Inr Let_def lru_view_upd env_view_def put_view_def
      split: if_splits dest!: unmap_frame_view)

lemma free_active_foreach:
  assumes "SecondList (envs s e) = []" and "distinct (ActiveList (envs s e))"
    and "\<forall>x \<in> set (ActiveList (envs s e)). ws_va (ptr_pageWorkingSet (envs s e) x) = va \<longleftrightarrow> x = w"
    and "w \<in> set (ActiveList (envs s e))"
    and "foreach (length (ActiveList (envs s e)) + length (SecondList (envs s e))) (\<lambda>(_, s). ActiveList (envs s e))
           (free_active e va) (first_of (ActiveList (envs s e))) (0, s) = Inr (f', s')"
  shows "lru_view s' = put_view e (ptr_pageWorkingSet (envs s e)) (PageWorkingSetList (envs s e))
                      (remove1 w (ActiveList (envs s e))) [] s"
proof -
  let ?ws = "ptr_pageWorkingSet (envs s e)" and ?w = "PageWorkingSetList (envs s e)" and ?a = "ActiveList (envs s e)"
  define I where "I = (\<lambda>vs (fs :: int \<times> kernel). set vs \<subseteq> set ?a \<and>
     lru_view (snd fs) = (if w \<in> set vs then lru_view s else put_view e ?ws ?w (remove1 w ?a) [] s))"
  have p: "put_view e ?ws ?w ?a [] s = lru_view s"
    using assms(1) by (auto simp: put_view_def lru_view_def env_view_def)
  let ?G = "\<lambda>(_ :: int, s). ActiveList (envs s e)"
  have "okE (\<lambda>t. I [] t) (foreach (length ?a + length (SecondList (envs s e))) ?G
      (free_active e va) (first_of (?G (0, s))) (0, s))"
  proof (rule foreach_rule)
    show "I (?G (0, s)) (0, s)" using assms(4) by (simp add: I_def)
    show "distinct (?G (0, s))" using assms(2) by simp
    show "length (?G (0, s)) \<le> length ?a + length (SecondList (envs s e))" by simp
  next
    fix us x vs and ft :: "int \<times> kernel"
    obtain f t where ft: "ft = (f, t)" by (cases ft)
    assume "I (x # vs) ft" and "?G ft = us @ x # vs" and "distinct (?G ft)"
    then have I: "I (x # vs) (f, t)" and g: "ActiveList (envs t e) = us @ x # vs"
      and d: "distinct (ActiveList (envs t e))" by (simp_all add: ft)
    show "okE (\<lambda>t. I vs t \<and> distinct (?G t) \<and> (?G t = us @ x # vs \<or> ?G t = us @ vs)) (free_active e va x ft)"
    proof -
      have g': "ActiveList (envs t e) = us @ x # vs" and d': "distinct (us @ x # vs)" using g d by auto
      have xA: "x \<in> set ?a" using I by (simp add: I_def)
      have sel: "ptr_pageWorkingSet (envs t e) = ?ws" "SecondList (envs t e) = []"
        "PageWorkingSetList (envs t e) = ?w"
        using I assms(1) lru_view_eqD [of t s e] lru_view_putD [of t e ?ws ?w "remove1 w ?a" "[]" s]
        by (auto simp: I_def split: if_splits)
      have at: "ActiveList (envs t e) = (if w \<in> set (x # vs) then ?a else remove1 w ?a)"
        using I lru_view_eqD [of t s e] lru_view_putD [of t e ?ws ?w "remove1 w ?a" "[]" s]
        by (auto simp: I_def split: if_splits)
      have pv: "put_view e ?ws ?w (remove1 w ?a) [] t = put_view e ?ws ?w (remove1 w ?a) [] s"
        using I put_view_put [of t e ?ws ?w "remove1 w ?a" "[]" s] put_view_eq [of t s]
        by (auto simp: I_def split: if_splits)
      have "I vs (f', t') \<and> distinct (ActiveList (envs t' e)) \<and>
          (ActiveList (envs t' e) = us @ x # vs \<or> ActiveList (envs t' e) = us @ vs)"
        if b: "free_active e va x (f, t) = Inr (f', t')" for f' t'
      proof (cases "x = w")
        case True
        have "distinct (ActiveList (envs t e))" using g' d' by simp
        then have v: "lru_view t' = put_view e ?ws ?w (remove1 w ?a) [] t"
          using free_active_view [OF b] sel assms(3,4) at True by simp
        have A: "?a = us @ w # vs" using at g' True by simp
        have "w \<notin> set us" using d' True by auto
        then have "remove1 w ?a = us @ vs" unfolding A by (simp add: remove1_append_notin)
        then show ?thesis using v lru_view_putD(3) [OF v] pv d' True I by (auto simp: I_def)
      next
        case False
        have "distinct (ActiveList (envs t e))" using g' d' by simp
        then have v: "lru_view t' = lru_view t"
          using free_active_view [OF b] sel assms(3) xA False by simp
        then show ?thesis using lru_view_eqD(3) [OF v, of e] g' d' False I by (auto simp: I_def)
      qed
      then show ?thesis by (auto simp: okE_iff ft)
    qed
  qed
  then show ?thesis using assms(5) by (simp add: I_def)
qed

text \<open>\<open>freeMem\<close> loses working-set elements. When the freed page is on the active list and the second
  list is empty, its element leaves the active list and enters no other list, so the environment
  has one page slot less for the rest of its life (a page freed from the second list returns its
  element to \<open>PageWorkingSetList\<close>).
\<close>

theorem freeMem_loses_element:
  assumes "freeMem e va PAGE_SIZE s = Inr ((), s')" and "lru_ok s e" and "SecondList (envs s e) = []"
    and "w \<in> set (ActiveList (envs s e))" and "ws_va (ptr_pageWorkingSet (envs s e) w) = va"
  shows "w \<notin> set (PageWorkingSetList (envs s' e) @ ActiveList (envs s' e) @ SecondList (envs s' e)) \<and>
    length (PageWorkingSetList (envs s' e) @ ActiveList (envs s' e) @ SecondList (envs s' e)) + 1 =
    length (PageWorkingSetList (envs s e) @ ActiveList (envs s e) @ SecondList (envs s e)) \<and>
    \<not> lru_ok s' e"
proof -
  let ?ws = "ptr_pageWorkingSet (envs s e)" and ?w = "PageWorkingSetList (envs s e)" and ?a = "ActiveList (envs s e)"
  have ok: "lists_ok ?ws ?w ?a [] (ActiveListSize (envs s e)) (SecondListSize (envs s e))"
    using assms(2,3) by (simp add: lru_ok_def Let_def)
  then have d: "distinct ?a" "distinct (map (va_of ?ws) ?a)" "w \<notin> set ?w"
    using assms(4) by (auto simp: lists_ok_def)
  have u: "\<forall>x \<in> set ?a. ws_va (?ws x) = va \<longleftrightarrow> x = w"
    using d(2) assms(4,5) unfolding distinct_map by (auto simp: inj_on_def va_of_def)
  have "unat (ROUNDUP PAGE_SIZE PAGE_SIZE div PAGE_SIZE) = 1" by (simp add: ROUNDUP_def ROUNDDOWN_def PAGE_SIZE_def)
  then obtain s1 where p: "freeMem_page e va s = Inr s1"
    and l: "while_le 1026 (PAGE_SIZE * 1024) va (va + PAGE_SIZE) (freeMem_table e) s1 = Inr s'"
    using assms(1) by (auto simp: freeMem_def bindE_eq_Inr Let_def)
  obtain s0 f where r: "pf_remove_env_page e va s = Inr ((), s0)"
    and fe: "foreach (length (ActiveList (envs s0 e)) + length (SecondList (envs s0 e))) (\<lambda>(_, s). ActiveList (envs s e))
           (free_active e va) (first_of (ActiveList (envs s0 e))) (0, s0) = Inr (f, s1)"
    using p by (auto simp: freeMem_page_def bindE_eq_Inr)
  note v0 = pf_remove_env_page_view [OF r]
  note sel = lru_view_eqD [OF v0, of e]
  have "lru_view s1 = put_view e ?ws ?w (remove1 w ?a) [] s0"
    using free_active_foreach [OF _ _ _ _ fe, of w] sel assms(3,4) d(1) u by simp
  then have v: "lru_view s' = put_view e ?ws ?w (remove1 w ?a) [] s"
    using while_le_view [OF l] put_view_eq [OF v0] by simp
  note sel' = lru_view_putD [OF v]
  have "length ?a \<noteq> 0" using assms(4) by auto
  then have len: "length (remove1 w ?a) + 1 = length ?a" using assms(4) by (simp add: length_remove1)
  then have "\<not> lru_ok s' e" using ok by (auto simp: lru_ok_def lists_ok_def Let_def sel')
  then show ?thesis using len d assms(3) by (simp add: sel')
qed

definition lru_f :: kernel where
  "lru_f = upd_env 0 (\<lambda>en. en\<lparr>PageWorkingSetList := [1], SecondList := []\<rparr>) lru_m"

lemma lru_f_sel:
  "ActiveList (envs lru_f 0) = [0]" "SecondList (envs lru_f 0) = []" "PageWorkingSetList (envs lru_f 0) = [1]"
  "ptr_pageWorkingSet (envs lru_f 0) i = \<lparr>ws_va = (if i = 0 then 0x800000 else 0x801000), ws_empty = 0\<rparr>"
  "ActiveListSize (envs lru_f 0) = 1" "SecondListSize (envs lru_f 0) = 1" "env_page_directory (envs lru_f 0) = Some 3"
  "disk_env_pgdir (envs lru_f 0) = None" "rd lru_f 3 2 = 0x5007" "rd lru_f 5 0 = 0x7007" "rd lru_f 5 (Suc 0) = 0x6007"
  "number_of_frames lru_f = 16" "references (frames_info lru_f 7) = 0"
  by (simp_all add: lru_f_def lru_m_dir lru_m_tbl lru_m_simps)
    (simp_all add: lru_m_def tiny_def zero_env_def)

lemma lru_f_free: "\<exists>s'. freeMem 0 0x800000 PAGE_SIZE lru_f = Inr ((), s')"
proof -
  have t: "STATIC_KERNEL_VIRTUAL_ADDRESS (EXTRACT_ADDRESS 0x5007) s = Inr 5"
    "to_frame_info (EXTRACT_ADDRESS 0x7007) s = Inr 7" if "number_of_frames s = 16" for s
    using that by (simp_all add: STATIC_KERNEL_VIRTUAL_ADDRESS_def to_frame_info_def EXTRACT_ADDRESS_def PPN_def)
  have pr: "present 0x5007" by (simp add: present_def PERM_PRESENT_def)
  define s1 where "s1 = upd_env 0 (\<lambda>en. en\<lparr>ActiveList := []\<rparr>) lru_f"
  have s1: "env_page_directory (envs s1 0) = Some 3" "rd s1 3 2 = 0x5007" "rd s1 5 0 = 0x7007" "rd s1 5 (Suc 0) = 0x6007"
    "number_of_frames s1 = 16" "references (frames_info s1 7) = 0" "SecondList (envs s1 0) = []"
    by (simp_all add: s1_def lru_f_sel)
  define s2 where "s2 = wr 5 0 0 (upd_fi 7 (\<lambda>i. i\<lparr>references := references i - 1\<rparr>) s1)"
  have gp: "get_page_table 3 0x800000 s = Inr ((TABLE_IN_MEMORY, Some 5), s)"
    if "number_of_frames s = 16" "rd s 3 2 = 0x5007" for s
    using that t pr by (simp add: get_page_table_def user_small)
  have u: "unmap_frame 3 0x800000 s1 = Inr ((), s2)"
    using s1 t gp [of s1] by (simp add: unmap_frame_def get_frame_info_def user_small decrement_references_def
        Let_def s2_def)
  have s2: "env_page_directory (envs s2 0) = Some 3" "rd s2 3 2 = 0x5007" "rd s2 5 (Suc 0) = 0x6007" "number_of_frames s2 = 16"
    using s1 by (simp_all add: s2_def rd_wr)
  have nz: "\<not> list_all (\<lambda>j. rd s2 5 j = 0) [0..<1024]"
    using s2(3) by (auto simp: list_all_iff intro!: bexI [of _ 1])
  have w: "freeMem_table 0 0x800000 s2 = Inr s2"
    unfolding freeMem_table_def using s2 gp [of s2] nz by (simp only: deref_simps bindE_Inr split option.case if_False)
  have fa: "free_active 0 0x800000 0 (0, lru_f) = Inr (1, s2)"
    using u s1 by (simp add: free_active_def lru_f_sel s1_def [symmetric] Let_def)
  have "freeMem_page 0 0x800000 lru_f = Inr s2"
    using fa by (simp add: freeMem_page_def pf_remove_env_page_def lru_f_sel next_of_def)
  moreover have "while_le 1026 (PAGE_SIZE * 1024) 0x800000 (0x800000 + PAGE_SIZE) (freeMem_table 0) s2 = Inr s2"
  proof -
    have "while_le (Suc (Suc n)) 0x400000 0x800000 0x801000 (freeMem_table 0) s2 = Inr s2" for n
      using w by simp
    from this [of 1024] show ?thesis by (simp add: PAGE_SIZE_def)
  qed
  moreover have "unat (ROUNDUP PAGE_SIZE PAGE_SIZE div PAGE_SIZE) = 1" by (simp add: ROUNDUP_def ROUNDDOWN_def PAGE_SIZE_def)
  ultimately show ?thesis by (simp add: freeMem_def)
qed

theorem freeMem_loses_element_witness:
  "\<exists>s'. freeMem 0 0x800000 PAGE_SIZE lru_f = Inr ((), s') \<and> \<not> lru_ok s' 0"
proof -
  obtain s' where s': "freeMem 0 0x800000 PAGE_SIZE lru_f = Inr ((), s')" using lru_f_free by blast
  have "lru_ok lru_f 0" by (simp add: lru_ok_def lists_ok_def Let_def lru_f_sel va_of_def)
  moreover have "0 \<in> set (ActiveList (envs lru_f 0))" "ws_va (ptr_pageWorkingSet (envs lru_f 0) 0) = 0x800000"
    by (simp_all add: lru_f_sel)
  ultimately show ?thesis using freeMem_loses_element [OF s' _ lru_f_sel(2)] s' by blast
qed

end
