(* ===== verification/Clock.thy ===== *)
theory Clock
  imports Kernel_State
begin

text \<open>
  The interval timer and the interrupt mask (\<^verbatim>\<open>kern/kclock.c\<close>, \<^verbatim>\<open>kern/picirq.c\<close>,
  \<^verbatim>\<open>inc/timerreg.h\<close>). Port writes are updates of \<open>timer\<close>: the two bytes written to counter 0 are
  the value it is loaded with. The passing of time between two operations is not modelled, so
  \<open>cnt0\<close> is whatever the counter reads when an operation starts.
\<close>

definition upd_clock :: "(timer \<Rightarrow> timer) \<Rightarrow> kernel \<Rightarrow> kernel" where
  "upd_clock f s = s\<lparr>clock := f (clock s)\<rparr>"

definition TIMER_FREQ :: int where "TIMER_FREQ = 1193182"

definition TIMER_DIV :: "int \<Rightarrow> int" where
  "TIMER_DIV x = c_div (TIMER_FREQ + c_div x 2) x"

definition QUANTUM_LIMIT :: int where
  "QUANTUM_LIMIT = c_div (1000 * 2 ^ 16) TIMER_FREQ"

definition IS_VALID_QUANTUM :: "uint8 \<Rightarrow> bool" where
  "IS_VALID_QUANTUM quantum_in_ms \<longleftrightarrow> uint quantum_in_ms < QUANTUM_LIMIT"

definition TIMER_RATE16 :: uint8 where  \<comment> \<open>\<open>TIMER_SEL0 | TIMER_RATEGEN | TIMER_16BIT\<close>\<close>
  "TIMER_RATE16 = 0x00 OR 0x04 OR 0x30"

definition irq_setmask_8259A :: "uint16 \<Rightarrow> kernel \<Rightarrow> kernel" where
  "irq_setmask_8259A msk s = upd_clock (\<lambda>t.
     let t = t\<lparr>irq_mask_8259A := msk\<rparr> in if didinit t then t\<lparr>pic_mask := msk\<rparr> else t) s"

text \<open>The initialisation clears the masks of the controllers (\<open>Interrupt_Controller\<close> has its port writes).\<close>

definition pic_init :: "kernel \<Rightarrow> kernel" where
  "pic_init s =
     (let s = upd_clock (\<lambda>t. t\<lparr>didinit := True, pic_mask := 0\<rparr>) s in
      if irq_mask_8259A (clock s) \<noteq> 0xFFFF then irq_setmask_8259A (irq_mask_8259A (clock s)) s else s)"

definition kclock_write_cnt0_LSB_first :: "uint16 \<Rightarrow> kernel \<Rightarrow> kernel" where
  "kclock_write_cnt0_LSB_first val s =
     (let lo = (ucast (val AND 0x00FF) :: uint8); hi = (ucast (drop_bit 8 val AND 0x00FF) :: uint8)
      in upd_clock (\<lambda>t. t\<lparr>cnt0 := push_bit 8 (ucast hi) OR ucast lo\<rparr>) s)"

definition kclock_read_cnt0 :: "kernel \<Rightarrow> uint16" where
  "kclock_read_cnt0 s =
     (let cnt0_lo = (ucast (cnt0 (clock s)) :: uint8); cnt0_hi = (ucast (drop_bit 8 (cnt0 (clock s))) :: uint8)
      in push_bit 8 (ucast cnt0_hi) OR ucast cnt0_lo)"

definition outb_TIMER_MODE :: "uint8 \<Rightarrow> kernel \<Rightarrow> kernel" where
  "outb_TIMER_MODE v = upd_clock (\<lambda>t. t\<lparr>timer_mode := v\<rparr>)"

text \<open>The latched read selects counter 0 and restores the mode it read before.\<close>

definition kclock_read_cnt0_latch :: "kernel \<Rightarrow> uint16 \<times> kernel" where
  "kclock_read_cnt0_latch s =
     (let old_mode = timer_mode (clock s);
          s = outb_TIMER_MODE 0 s;
          c = kclock_read_cnt0 s
      in (c, outb_TIMER_MODE old_mode s))"

definition kclock_stop :: "kernel \<Rightarrow> kernel" where
  "kclock_stop s = irq_setmask_8259A 0xFFFF (outb_TIMER_MODE TIMER_RATE16 s)"

definition unmask_timer :: "kernel \<Rightarrow> kernel" where
  "unmask_timer s = irq_setmask_8259A (irq_mask_8259A (clock s) AND NOT 1) s"

text \<open>A quantum of 0 passes the test and divides by 0, which the kernel traps on.\<close>

definition kclock_start :: "uint8 \<Rightarrow> kernel \<Rightarrow> unit result" where
  "kclock_start quantum_in_ms s =
     (let s = outb_TIMER_MODE TIMER_RATE16 s in
      if IS_VALID_QUANTUM quantum_in_ms then
        if quantum_in_ms = 0 then Inl (Panic ''unhandled trap in kernel'')
        else
          let s = kclock_write_cnt0_LSB_first (of_int (TIMER_DIV (c_div 1000 (uint quantum_in_ms)))) s
          in Inr ((), unmask_timer s)
      else Inl (Panic ''attempt to set the CPU quantum by too large value''))"

definition kclock_resume :: "kernel \<Rightarrow> kernel" where
  "kclock_resume s =
     (let c = kclock_read_cnt0 s;
          c = (if c < 20 then 20 else c);
          c = (if c mod 2 = 1 then c + 1 else c);
          s = outb_TIMER_MODE TIMER_RATE16 s
      in unmask_timer (kclock_write_cnt0_LSB_first c s))"

definition kclock_start_counter :: "uint8 \<Rightarrow> kernel \<Rightarrow> kernel" where
  "kclock_start_counter c s =
     unmask_timer (kclock_write_cnt0_LSB_first (ucast c) (outb_TIMER_MODE TIMER_RATE16 s))"

definition kclock_set_quantum :: "uint8 \<Rightarrow> kernel \<Rightarrow> unit result" where
  "kclock_set_quantum quantum_in_ms s =
     (if IS_VALID_QUANTUM quantum_in_ms then
        if quantum_in_ms = 0 then Inl (Panic ''unhandled trap in kernel'')
        else
          let cnt = TIMER_DIV (c_div 1000 (uint quantum_in_ms));
              cnt = (if c_mod cnt 2 = 1 then cnt + 1 else cnt);
              s = outb_TIMER_MODE TIMER_RATE16 s
          in Inr ((), kclock_stop (kclock_write_cnt0_LSB_first (of_int cnt) s))
      else Inl (Panic ''attempt to set the CPU quantum by too large value''))"

section \<open>Lemmas\<close>

lemma write_cnt0 [simp]: "cnt0 (clock (kclock_write_cnt0_LSB_first v s)) = v"
proof -
  have "push_bit 8 (ucast (ucast (drop_bit 8 v AND 0xFF :: uint16) :: uint8)) OR ucast (ucast (v AND 0xFF) :: uint8) = v"
    (is "?l = v")
  proof (rule bit_word_eqI)
    fix n assume n: "n < LENGTH(16)"
    have m: "(0xFF :: uint16) = mask 8" by (simp add: mask_eq_exp_minus_1)
    show "bit ?l n = bit v n"
      using n by (cases "n < 8") (auto simp: m bit_simps)
  qed
  then show ?thesis by (simp add: kclock_write_cnt0_LSB_first_def upd_clock_def)
qed

lemma read_cnt0: "kclock_read_cnt0 s = cnt0 (clock s)"
proof -
  have "push_bit 8 (ucast (ucast (drop_bit 8 v) :: uint8)) OR ucast (ucast v :: uint8) = v"
    (is "?l = v") for v :: uint16
  proof (rule bit_word_eqI)
    fix n assume n: "n < LENGTH(16)"
    show "bit ?l n = bit v n"
      using n by (cases "n < 8") (auto simp: bit_simps)
  qed
  then show ?thesis by (simp add: kclock_read_cnt0_def Let_def)
qed

lemma clock_ops [simp]:
  "cnt0 (clock (outb_TIMER_MODE v s)) = cnt0 (clock s)"
  "cnt0 (clock (irq_setmask_8259A m s)) = cnt0 (clock s)"
  "didinit (clock (irq_setmask_8259A m s)) = didinit (clock s)"
  "didinit (clock (outb_TIMER_MODE v s)) = didinit (clock s)"
  "didinit (clock (kclock_write_cnt0_LSB_first c s)) = didinit (clock s)"
  "irq_mask_8259A (clock (irq_setmask_8259A m s)) = m"
  "didinit (clock s) \<Longrightarrow> pic_mask (clock (irq_setmask_8259A m s)) = m"
  by (simp_all add: outb_TIMER_MODE_def irq_setmask_8259A_def upd_clock_def Let_def
      kclock_write_cnt0_LSB_first_def)

text \<open>Nothing but the timer changes.\<close>

lemma clock_frame:
  "\<exists>t. irq_setmask_8259A m s = s\<lparr>clock := t\<rparr>" "\<exists>t. outb_TIMER_MODE v s = s\<lparr>clock := t\<rparr>"
  "\<exists>t. kclock_write_cnt0_LSB_first c s = s\<lparr>clock := t\<rparr>"
  by (auto simp: irq_setmask_8259A_def outb_TIMER_MODE_def kclock_write_cnt0_LSB_first_def
      upd_clock_def Let_def)


section \<open>Properties\<close>

definition quantum_count :: "uint8 \<Rightarrow> int" where
  "quantum_count q = (let c = TIMER_DIV (c_div 1000 (uint q)) in if c_mod c 2 = 1 then c + 1 else c)"

text \<open>What the count \<open>d\<close> of a quantum of \<open>q\<close> ms has to satisfy.\<close>

definition quantum_ok :: "int \<Rightarrow> int \<Rightarrow> bool" where
  "quantum_ok q d \<longleftrightarrow> 0 \<le> d \<and> d < 65536 \<and> d mod 2 = 0 \<and> (q = 2 \<or> 1193182 * q \<le> 1000 * d)
     \<and> 1193182 * q < 1000 * (d + 1) \<and> 100 * (1000 * d) < 105 * (1193182 * q)"

definition even_above :: "int \<Rightarrow> int" where
  "even_above c = (if c_mod c 2 = 1 then c + 1 else c)"

definition quantum_fits :: "int \<Rightarrow> bool" where
  "quantum_fits q \<longleftrightarrow> quantum_ok q (even_above (TIMER_DIV (c_div 1000 q)))"

lemma quantum_count_range: "list_all quantum_fits [1..52]"
  by code_simp

text \<open>
  C34: a quantum of 1 to 52 ms programs the counter, which counts at \<open>TIMER_FREQ\<close> Hz, with an even count that fits
  its 16 bits. The slice is less than one count (0.84 microseconds) shorter than the quantum, and it is not shorter
  at all but for a quantum of 2 ms, where 2386 counts are programmed for 2386.364; it is less than 5 per cent longer.
  Every interrupt is masked until the environment resumes.
\<close>

theorem kclock_set_quantum_correct:
  assumes "1 \<le> q" and "q \<le> 52"
  shows "\<exists>s'. kclock_set_quantum q s = Inr ((), s') \<and>
    (let n = uint (cnt0 (clock s')) in
      even n \<and> (q \<noteq> 2 \<longrightarrow> TIMER_FREQ * uint q \<le> 1000 * n) \<and> TIMER_FREQ * uint q < 1000 * (n + 1) \<and>
      100 * (1000 * n) < 105 * (TIMER_FREQ * uint q)) \<and>
    (didinit (clock s) \<longrightarrow> pic_mask (clock s') = 0xFFFF)"
proof -
  have "uint q \<le> 52" "1 \<le> uint q" using assms by (simp_all add: word_le_def)
  then have "uint q \<in> set [1..52]" by simp
  then have "quantum_fits (uint q)" using quantum_count_range unfolding list_all_iff by blast
  then have r: "0 \<le> quantum_count q" "quantum_count q < 65536" "quantum_count q mod 2 = 0"
    "uint q = 2 \<or> TIMER_FREQ * uint q \<le> 1000 * quantum_count q" "TIMER_FREQ * uint q < 1000 * (quantum_count q + 1)"
    "100 * (1000 * quantum_count q) < 105 * (TIMER_FREQ * uint q)"
    unfolding quantum_fits_def quantum_count_def Let_def even_above_def quantum_ok_def TIMER_FREQ_def [symmetric] by blast+
  have "uint (of_int (quantum_count q) :: uint16) = quantum_count q"
    using r(1,2) by (simp add: unsigned_of_int take_bit_int_eq_self)
  moreover have "IS_VALID_QUANTUM q" using \<open>uint q \<le> 52\<close>
    by (simp add: IS_VALID_QUANTUM_def QUANTUM_LIMIT_def c_div_def TIMER_FREQ_def)
  moreover have "q \<noteq> 0" using \<open>1 \<le> uint q\<close> by auto
  ultimately obtain s' where s': "kclock_set_quantum q s = Inr ((), s')" "uint (cnt0 (clock s')) = quantum_count q"
    "didinit (clock s) \<longrightarrow> pic_mask (clock s') = 0xFFFF"
    by (simp add: kclock_set_quantum_def kclock_stop_def quantum_count_def Let_def)
  moreover have "uint q = 2 \<longleftrightarrow> q = 2" by (simp add: word_uint_eq_iff)
  ultimately show ?thesis
    using r(3-6) unfolding Let_def even_iff_mod_2_eq_zero by (intro exI [of _ s']) (simp only: s', blast)
qed

theorem kclock_set_quantum_correct_witness:
  "\<exists>s'. kclock_set_quantum 10 tiny = Inr ((), s') \<and> pic_mask (clock s') = 0xFFFF"
proof -
  have "didinit (clock tiny)" by (simp add: tiny_def)
  moreover have "(1 :: uint8) \<le> 10" "(10 :: uint8) \<le> 52" by simp_all
  ultimately show ?thesis using kclock_set_quantum_correct [of 10 tiny] by blast
qed

text \<open>
  the largest quantum that \<open>IS_VALID_QUANTUM\<close> admits, 53 ms, does not fit the counter: its count
  66288 wraps to 752, so the time slice lasts less than 1 ms.
\<close>

theorem kclock_set_quantum_53_wraps:
  "IS_VALID_QUANTUM 53 \<and> quantum_count 53 = 66288 \<and>
   (\<exists>s'. kclock_set_quantum 53 s = Inr ((), s') \<and> cnt0 (clock s') = 752)"
proof -
  have d: "c_div 1000 53 = 18" "TIMER_DIV 18 = 66288" "c_mod 66288 2 = 0" by code_simp+
  have v: "IS_VALID_QUANTUM 53"
    by (simp add: IS_VALID_QUANTUM_def QUANTUM_LIMIT_def c_div_def TIMER_FREQ_def)
  moreover have "quantum_count 53 = 66288" by (simp add: quantum_count_def Let_def d)
  moreover have "(\<exists>s'. kclock_set_quantum 53 s = Inr ((), s') \<and> cnt0 (clock s') = 752)"
    using v by (simp add: kclock_set_quantum_def kclock_stop_def Let_def d)
  ultimately show ?thesis by simp
qed

text \<open>
  resuming the clock keeps the remaining time of the slice up to the rounding the code makes:
  the new count is even, at least 20 unless the counter read its maximum, at most one above a
  count of 20 or more, and the timer interrupt is the one that becomes unmasked.
\<close>

theorem kclock_resume_correct:
  assumes "didinit (clock s)"
  shows "even (cnt0 (clock (kclock_resume s))) \<and>
    (cnt0 (clock s) \<noteq> 0xFFFF \<longrightarrow> 20 \<le> cnt0 (clock (kclock_resume s))) \<and>
    (20 \<le> cnt0 (clock s) \<longrightarrow> cnt0 (clock (kclock_resume s)) - cnt0 (clock s) \<le> 1) \<and>
    pic_mask (clock (kclock_resume s)) = irq_mask_8259A (clock s) AND NOT 1"
proof -
  let ?c = "cnt0 (clock s)"
  define d where "d = (if ?c < 20 then 20 else ?c)"
  have c: "cnt0 (clock (kclock_resume s)) = (if d mod 2 = 1 then d + 1 else d)"
    by (simp add: kclock_resume_def unmask_timer_def read_cnt0 Let_def d_def)
  have i: "irq_mask_8259A (clock (kclock_write_cnt0_LSB_first x (outb_TIMER_MODE y s))) = irq_mask_8259A (clock s)" for x y
    by (simp add: kclock_write_cnt0_LSB_first_def outb_TIMER_MODE_def upd_clock_def Let_def)
  have "even (if d mod 2 = 1 then d + 1 else d)"
  proof (cases "d mod 2 = 1")
    case True
    then have "odd d" by (simp add: odd_iff_mod_2_eq_one)
    then have "even (d + 1)" by simp
    then show ?thesis using True by simp
  next
    case False
    then have "d mod 2 = 0" by simp
    then have "even d" by (simp only: even_iff_mod_2_eq_zero)
    then show ?thesis using False by simp
  qed
  moreover have "20 \<le> (if d mod 2 = 1 then d + 1 else d)" if "?c \<noteq> 0xFFFF"
  proof -
    have "20 \<le> d" "d \<noteq> 0xFFFF" using that by (auto simp: d_def not_less)
    then have "20 \<le> unat d" "unat d \<noteq> 65535" using word_unat_eq_iff [of d "0xFFFF"]
      by (simp_all add: word_le_nat_alt)
    moreover have "unat d < 2 ^ 16" using unsigned_less [of d] by simp
    ultimately have "unat (d + 1) = unat d + 1" by (simp add: unat_word_ariths)
    then show ?thesis using \<open>20 \<le> unat d\<close> by (simp add: word_le_nat_alt)
  qed
  moreover have "(if d mod 2 = 1 then d + 1 else d) - ?c \<le> 1" if "20 \<le> ?c"
    using that by (auto simp: d_def)
  ultimately show ?thesis
    using assms unfolding c
    by (simp add: kclock_resume_def unmask_timer_def Let_def i)
qed

theorem kclock_resume_correct_witness: "even (cnt0 (clock (kclock_resume tiny)))"
  using kclock_resume_correct [of tiny] by (simp add: tiny_def)

end
