(* ===== verification/Env_Manager.thy ===== *)
theory Env_Manager
  imports User_Memory Clock
begin

text \<open>
  Environments (\<^verbatim>\<open>kern/user_environment.c\<close>, \<open>envid2env\<close> of \<^verbatim>\<open>kern/helpers.c\<close>): the free list, ids,
  the initialisation of an environment and its address space, the switch to an environment, and
  the release of everything an environment holds. Loading a program is in \<open>Program_Loader\<close>.
\<close>

section \<open>Allocation and identity\<close>

text \<open>The result pairs the error code with \<open>*e\<close>.\<close>

definition allocate_environment :: "kernel \<Rightarrow> (int \<times> nat option) result" where
  "allocate_environment s =
     (case first_of (env_free_list s) of
        None \<Rightarrow> Inr ((E_NO_FREE_ENV, None), s)
      | Some e \<Rightarrow> Inr ((0, Some e), upd_env e (\<lambda>en. en\<lparr>env_status := ENV_UNKNOWN\<rparr>) s))"

definition free_environment :: "nat \<Rightarrow> kernel \<Rightarrow> unit result" where
  "free_environment e s =
     (let s = upd_env e (\<lambda>_. zero_env\<lparr>env_status := ENV_FREE\<rparr>) s in
      bindE (lst_insert_head e (env_free_list s)) (\<lambda>l. Inr ((), s\<lparr>env_free_list := l\<rparr>)))"

definition env_init :: "kernel \<Rightarrow> unit result" where
  "env_init s =
     bindE (foldE (\<lambda>i s.
              let s = upd_env i (\<lambda>en. en\<lparr>env_status := ENV_FREE, env_id := 0\<rparr>) s in
              bindE (lst_insert_head i (env_free_list s)) (\<lambda>l. Inr (s\<lparr>env_free_list := l\<rparr>)))
            (rev [0..<NENV]) s) (\<lambda>s. Inr ((), s))"

definition ENVGENSHIFT :: nat where "ENVGENSHIFT = 12"

definition ENVX :: "uint32 \<Rightarrow> nat" where
  "ENVX envid = unat (envid AND (of_nat NENV - 1))"

definition GD_UT :: uint16 where "GD_UT = 0x18"
definition GD_UD :: uint16 where "GD_UD = 0x20"
definition FL_IF :: uint32 where "FL_IF = 0x200"

definition initial_tf :: trapframe where
  "initial_tf = zero_tf\<lparr>tf_ds := GD_UD OR 3, tf_es := GD_UD OR 3, tf_ss := GD_UD OR 3,
     tf_esp := USTACKTOP, tf_cs := GD_UT OR 3, tf_eflags := FL_IF\<rparr>"

text \<open>The next id of slot \<open>e\<close>; \<open>generation\<close> is a signed number in C.\<close>

definition next_env_id :: "uint32 \<Rightarrow> nat \<Rightarrow> uint32" where
  "next_env_id old e =
     (let generation = (old + push_bit ENVGENSHIFT 1) AND NOT (of_nat NENV - 1);
          generation = (if sint generation \<le> 0 then push_bit ENVGENSHIFT 1 else generation)
      in generation OR of_nat e)"

definition complete_environment_initialization :: "nat \<Rightarrow> kernel \<Rightarrow> unit result" where
  "complete_environment_initialization e s =
     bindE (deref (env_page_directory (envs s e))) (\<lambda>pd.
     let s = wr pd (pdx VPT) (env_cr3 (envs s e) OR PERM_PRESENT OR PERM_WRITEABLE) s;
         s = wr pd (pdx UVPT) (env_cr3 (envs s e) OR PERM_PRESENT OR PERM_USER) s;
         parent = (case curenv s of None \<Rightarrow> 0 | Some c \<Rightarrow> env_id (envs s c));
         s = upd_env e (\<lambda>en. en\<lparr>disk_env_pgdir := None, disk_env_pgdir_PA := 0, disk_env_tabledir := None,
               disk_env_tabledir_PA := 0, env_id := next_env_id (env_id en) e\<rparr>) s;
         parent = (if curenv s = Some e then env_id (envs s e) else parent);
         s = upd_env e (\<lambda>en. en\<lparr>env_parent_id := parent, env_status := ENV_NEW, env_runs := 0,
               env_tf := initial_tf\<rparr>) s
     in bindE (lst_remove e (env_free_list s)) (\<lambda>l. Inr ((), s\<lparr>env_free_list := l\<rparr>)))"

text \<open>
  \<open>ptr_pageWorkingSet\<close> is an array of \<open>PWS_MAX_SIZE\<close> elements; the loops run up to
  \<open>page_WS_max_size\<close>, which the caller chooses.
\<close>

definition initialize_environment :: "nat \<Rightarrow> nat \<Rightarrow> uint32 \<Rightarrow> kernel \<Rightarrow> unit result" where
  "initialize_environment e ptr_user_page_directory phys_user_page_directory s =
     (let s = upd_env e (\<lambda>en. en\<lparr>env_page_directory := Some ptr_user_page_directory,
                env_cr3 := phys_user_page_directory\<rparr>) s;
          s = fold (\<lambda>i. wr ptr_user_page_directory i 0) [0..<pdx USER_TOP] s;
          s = fold (\<lambda>i s. wr ptr_user_page_directory i (rd s (ptr_page_directory s) i) s) [pdx USER_TOP..<1024] s;
          s = upd_env e (\<lambda>en. en\<lparr>uptr_pws := ws_uva s e\<rparr>) s;
          n = page_WS_max_size (envs s e) in
      bindE (if PageRepAlgoType (cfg s) = PG_REP_LRU_LISTS_APPROX then
               foldE (\<lambda>i s. if PWS_MAX_SIZE \<le> i then Inl OutOfBounds
                        else bindE (lst_insert_head i (PageWorkingSetList (envs s e))) (\<lambda>l.
                               Inr (upd_env e (\<lambda>en. en\<lparr>PageWorkingSetList := l\<rparr>) s))) [0..<n] s
             else Inr s) (\<lambda>s.
      if PWS_MAX_SIZE < n then Inl OutOfBounds
      else
        let s = upd_env e (\<lambda>en. en\<lparr>
              ptr_pageWorkingSet := (\<lambda>i. if i < n then \<lparr>ws_va = 0, ws_empty = 1\<rparr> else ptr_pageWorkingSet en i),
              page_last_WS_index := 0,
              ptr_tws := (\<lambda>i. if i < TWS_MAX_SIZE then \<lparr>ws_va = 0, ws_empty = 1\<rparr> else ptr_tws en i),
              table_last_WS_index := 0, pageFaultsCounter := 0, tableFaultsCounter := 0,
              freeingFullWSCounter := 0, freeingScarceMemCounter := 0, nModifiedPages := 0,
              nNotModifiedPages := 0, nClocks := 0, nPageIn := 0, nPageOut := 0\<rparr>) s
        in complete_environment_initialization e s))"

text \<open>The result pairs the error code with \<open>*env_store\<close>.\<close>

definition envid2env :: "uint32 \<Rightarrow> bool \<Rightarrow> kernel \<Rightarrow> (int \<times> nat option) result" where
  "envid2env envid checkperm s =
     (if envid = 0 then Inr ((0, curenv s), s)
      else
        let e = ENVX envid in
        if env_status (envs s e) = ENV_FREE \<or> env_id (envs s e) \<noteq> envid then Inr ((E_BAD_ENV, None), s)
        else
          bindE (if checkperm \<and> Some e \<noteq> curenv s
                 then bindE (deref (curenv s)) (\<lambda>c. Inr (env_parent_id (envs s e) \<noteq> env_id (envs s c)))
                 else Inr False) (\<lambda>bad.
          if bad then Inr ((E_BAD_ENV, None), s) else Inr ((0, Some e), s)))"

section \<open>Running\<close>

text \<open>\<open>env_run\<close> does not return: its result is the state in which user code of \<open>e\<close> continues with the
  registers of \<open>env_tf\<close>.\<close>

definition env_run :: "nat \<Rightarrow> kernel \<Rightarrow> kernel" where
  "env_run e s =
     (let s = (if curenv s \<noteq> Some e then
                 let s = upd_env e (\<lambda>en. en\<lparr>env_runs := env_runs en + 1\<rparr>) (s\<lparr>curenv := Some e\<rparr>)
                 in s\<lparr>cr3 := env_cr3 (envs s e)\<rparr>
               else s);
          s = upd_env e (\<lambda>en. en\<lparr>env_status := ENV_RUNNABLE\<rparr>) s
      in kclock_resume s)"

section \<open>Release\<close>

definition release_element :: "nat \<Rightarrow> nat \<Rightarrow> nat list \<Rightarrow> (nat list \<Rightarrow> env \<Rightarrow> env) \<Rightarrow> kernel \<Rightarrow> halt + kernel" where
  "release_element e w l set_list s =
     (let s = upd_env e (\<lambda>en. en\<lparr>ptr_pageWorkingSet :=
                (ptr_pageWorkingSet en)(w := (ptr_pageWorkingSet en w)\<lparr>ws_empty := 1\<rparr>)\<rparr>) s in
      bindE (lst_remove w l) (\<lambda>l.
      bindE (lst_insert_head w (PageWorkingSetList (envs s e))) (\<lambda>p.
      let s = upd_env e (\<lambda>en. (set_list l en)\<lparr>PageWorkingSetList := p\<rparr>) s in
      bindE (deref (env_page_directory (envs s e))) (\<lambda>pd.
      bindE (unmap_frame pd (ws_va (ptr_pageWorkingSet (envs s e) w)) s) (\<lambda>(_, s). Inr s)))))"

definition free_active_element :: "nat \<Rightarrow> nat \<Rightarrow> kernel \<Rightarrow> halt + kernel" where
  "free_active_element e w s =
     release_element e w (ActiveList (envs s e)) (\<lambda>l en. en\<lparr>ActiveList := l\<rparr>) s"

definition free_second_element :: "nat \<Rightarrow> nat \<Rightarrow> kernel \<Rightarrow> halt + kernel" where
  "free_second_element e w s =
     release_element e w (SecondList (envs s e)) (\<lambda>l en. en\<lparr>SecondList := l\<rparr>) s"

text \<open>\<open>(entry >> 12) * PAGE_SIZE\<close> is the physical address of the table.\<close>

definition free_table :: "nat \<Rightarrow> nat \<Rightarrow> kernel \<Rightarrow> halt + kernel" where
  "free_table pd i s =
     (let pa = drop_bit 12 (rd s pd i) * PAGE_SIZE in
      if pa \<noteq> 0 then
        bindE (to_frame_info pa s) (\<lambda>f.
        bindE (free_frame f (upd_fi f (\<lambda>x. x\<lparr>references := 0\<rparr>) s)) (\<lambda>(_, s). Inr s))
      else Inr s)"

definition env_free :: "nat \<Rightarrow> kernel \<Rightarrow> unit result" where
  "env_free e s =
     bindE (foreach (length (ActiveList (envs s e))) (\<lambda>s. ActiveList (envs s e)) (free_active_element e)
              (first_of (ActiveList (envs s e))) s) (\<lambda>s.
     bindE (foreach (length (SecondList (envs s e))) (\<lambda>s. SecondList (envs s e)) (free_second_element e)
              (first_of (SecondList (envs s e))) s) (\<lambda>s.
     bindE (deref (env_page_directory (envs s e))) (\<lambda>pd.
     bindE (foldE (free_table pd) [0..<pdx USER_TOP] s) (\<lambda>s.
     bindE (to_frame_info (env_cr3 (envs s e)) s) (\<lambda>f.
     bindE (free_frame f (upd_fi f (\<lambda>x. x\<lparr>references := 0\<rparr>) s)) (\<lambda>(_, s).
     bindE (pf_free_env e s) (\<lambda>(_, s).
     free_environment e s)))))))"

definition remove_pws_user_pages :: "nat \<Rightarrow> kernel \<Rightarrow> unit result" where
  "remove_pws_user_pages e s = Inl (Panic ''kernel heap is disabled.'')"

definition env_free_with_buffering :: "nat \<Rightarrow> kernel \<Rightarrow> unit result" where
  "env_free_with_buffering e s =
     bindE (remove_pws_user_pages e s) (\<lambda>_. Inl (Panic ''this function is not required...!!''))"

definition start_env_free :: "nat \<Rightarrow> kernel \<Rightarrow> unit result" where
  "start_env_free e s = (if isBufferingEnabled s \<noteq> 0 then env_free_with_buffering e s else env_free e s)"

definition cleanup_buffers :: "nat \<Rightarrow> kernel \<Rightarrow> unit result" where
  "cleanup_buffers e s =
     bindE (foreach (length (modified_frame_list s)) modified_frame_list (\<lambda>f s.
       if fi_env (frames_info s f) = Some e then
         bindE (pt_clear_page_table_entry e (fi_va (frames_info s f)) s) (\<lambda>(_, s).
         bindE (bufferlist_remove_page (modified_frame_list s) f) (\<lambda>l.
         bindE (free_frame f (s\<lparr>modified_frame_list := l\<rparr>)) (\<lambda>(_, s). Inr s)))
       else Inr s) (first_of (modified_frame_list s)) s) (\<lambda>s. Inr ((), s))"

definition create_user_page_WS :: "nat \<Rightarrow> nat \<Rightarrow> kernel \<Rightarrow> unit result" where
  "create_user_page_WS e numOfElements s = Inl (Panic ''this function is not required...!!'')"

definition create_user_directory :: "kernel \<Rightarrow> unit result" where
  "create_user_directory s = Inl (Panic ''this function is not required...!!'')"

section \<open>Properties\<close>

lemma env_init_fold:
  "distinct (rev xs @ env_free_list s) \<Longrightarrow> \<exists>s'. foldE (\<lambda>i s.
      let s = upd_env i (\<lambda>en. en\<lparr>env_status := ENV_FREE, env_id := 0\<rparr>) s in
      bindE (lst_insert_head i (env_free_list s)) (\<lambda>l. Inr (s\<lparr>env_free_list := l\<rparr>))) xs s = Inr s' \<and>
    env_free_list s' = rev xs @ env_free_list s \<and>
    (\<forall>i. envs s' i = (if i \<in> set xs then (envs s i)\<lparr>env_status := ENV_FREE, env_id := 0\<rparr> else envs s i))"
proof (induction xs arbitrary: s)
  case Nil
  then show ?case by simp
next
  case (Cons x xs)
  let ?s = "(upd_env x (\<lambda>en. en\<lparr>env_status := ENV_FREE, env_id := 0\<rparr>) s)\<lparr>env_free_list := x # env_free_list s\<rparr>"
  have l: "env_free_list (upd_env x f s) = env_free_list s" for f by (simp add: upd_env_def)
  obtain s' where s': "foldE (\<lambda>i s.
      let s = upd_env i (\<lambda>en. en\<lparr>env_status := ENV_FREE, env_id := 0\<rparr>) s in
      bindE (lst_insert_head i (env_free_list s)) (\<lambda>l. Inr (s\<lparr>env_free_list := l\<rparr>))) xs ?s = Inr s'"
    "env_free_list s' = rev xs @ x # env_free_list s"
    "\<forall>i. envs s' i = (if i \<in> set xs then (envs ?s i)\<lparr>env_status := ENV_FREE, env_id := 0\<rparr> else envs ?s i)"
    using Cons.IH [of ?s] Cons.prems by auto
  have "x \<notin> set (env_free_list s)" "x \<notin> set xs" using Cons.prems by auto
  then show ?case using s' by (intro exI [of _ s']) (simp add: Let_def l)
qed

text \<open>
  \<open>env_init\<close> returns and leaves every environment free with id 0 and the free list in the order
  of the slots, so that the first allocation returns \<open>envs[0]\<close>.
\<close>

theorem env_init_order:
  assumes "env_free_list s = []"
  shows "\<exists>s'. env_init s = Inr ((), s') \<and> env_free_list s' = [0..<NENV] \<and>
    (\<forall>i<NENV. env_status (envs s' i) = ENV_FREE \<and> env_id (envs s' i) = 0) \<and>
    (\<exists>s''. allocate_environment s' = Inr ((0, Some 0), s''))"
proof -
  obtain s' where s': "foldE (\<lambda>i s.
      let s = upd_env i (\<lambda>en. en\<lparr>env_status := ENV_FREE, env_id := 0\<rparr>) s in
      bindE (lst_insert_head i (env_free_list s)) (\<lambda>l. Inr (s\<lparr>env_free_list := l\<rparr>))) (rev [0..<NENV]) s = Inr s'"
    "env_free_list s' = [0..<NENV]"
    "\<forall>i. envs s' i = (if i \<in> set (rev [0..<NENV]) then (envs s i)\<lparr>env_status := ENV_FREE, env_id := 0\<rparr> else envs s i)"
    using env_init_fold [of "rev [0..<NENV]" s] assms by auto
  have "first_of [0..<NENV] = Some 0" by (simp add: NENV_def upt_conv_Cons)
  then have "\<exists>s''. allocate_environment s' = Inr ((0, Some 0), s'')"
    using s'(2) by (simp add: allocate_environment_def)
  moreover have "\<forall>i<NENV. env_status (envs s' i) = ENV_FREE \<and> env_id (envs s' i) = 0"
    using s'(3) by simp
  moreover have "env_init s = Inr ((), s')" using s'(1) by (simp only: env_init_def bindE_Inr)
  ultimately show ?thesis using s'(2) by blast
qed

theorem env_init_order_witness:
  "\<exists>s'. env_init (tiny\<lparr>env_free_list := []\<rparr>) = Inr ((), s') \<and> env_free_list s' = [0..<NENV]"
  using env_init_order [of "tiny\<lparr>env_free_list := []\<rparr>"] by auto

lemma next_env_id_bits:
  assumes "e < NENV"
  shows "ENVX (next_env_id old e) = (if 4 \<le> e \<and> e < 8 then e - 4 else e)" and "next_env_id old e \<noteq> 0"
proof -
  define g where "g = (let g = (old + push_bit ENVGENSHIFT 1) AND NOT (of_nat NENV - 1) in
    if sint g \<le> 0 then push_bit ENVGENSHIFT 1 else g)"
  have n: "next_env_id old e = g OR of_nat e" by (simp add: next_env_id_def g_def Let_def)
  have m: "(of_nat NENV - 1 :: uint32) = 11" by (simp add: NENV_def)
  have g0: "g AND 11 = 0"
    unfolding g_def m Let_def by (simp add: ENVGENSHIFT_def and.assoc)
  have "(g OR of_nat e) AND 11 = of_nat e AND 11" using g0 by (simp add: bit.conj_disj_distrib2)
  moreover have "e \<in> {0, 1, 2, 3, 4, 5, 6, 7, 8, 9, 10, 11}"
    using assms unfolding NENV_def by (simp, presburger)
  ultimately show "ENVX (next_env_id old e) = (if 4 \<le> e \<and> e < 8 then e - 4 else e)"
    unfolding ENVX_def m n by auto
  have "g \<noteq> 0" unfolding g_def Let_def by (auto simp: ENVGENSHIFT_def)
  moreover have "g OR of_nat e = 0 \<Longrightarrow> g = 0" by (metis or_eq_0_iff)
  ultimately show "next_env_id old e \<noteq> 0" unfolding n by blast
qed

lemma complete_env_Inr:
  assumes "complete_environment_initialization e s = Inr ((), s')"
  shows "env_id (envs s' e) = next_env_id (env_id (envs s e)) e" and "env_status (envs s' e) = ENV_NEW"
    and "env_tf (envs s' e) = initial_tf" and "env_free_list s' = remove1 e (env_free_list s)"
  using assms
  by (auto simp: complete_environment_initialization_def bindE_eq_Inr Let_def upd_env_def wr_def
      split: option.splits)

text \<open>
  An environment is found by its own id exactly when its slot is not 4, 5, 6 or 7. \<open>ENVX\<close> masks
  the id with \<open>NENV - 1\<close>, which is 11 and not of the form \<open>2 ^ k - 1\<close>, so the ids of slots 4 to 7
  lead to slots 0 to 3.
\<close>

theorem envid2env_own_id:
  assumes "complete_environment_initialization e s = Inr ((), s')" and "e < NENV"
  shows "envid2env (env_id (envs s' e)) False s' = Inr ((0, Some e), s') \<longleftrightarrow> \<not> (4 \<le> e \<and> e < 8)"
proof -
  note c = complete_env_Inr [OF assms(1)]
  note b = next_env_id_bits [OF assms(2), of "env_id (envs s e)"]
  show ?thesis
  proof (cases "4 \<le> e \<and> e < 8")
    case True
    then have "ENVX (env_id (envs s' e)) = e - 4" "e - 4 < e" using b c by auto
    then have "ENVX (env_id (envs s' e)) \<noteq> e" by linarith
    then show ?thesis using True b(2) c(1) by (simp add: envid2env_def Let_def)
  next
    case False
    then have "ENVX (env_id (envs s' e)) = e" using b c by auto
    then show ?thesis using False b(2) c(1,2) by (simp add: envid2env_def Let_def status_defs)
  qed
qed

text \<open>The id of a slot does not change from one environment to the next: \<open>free_environment\<close> clears
  the id together with the rest of \<open>Env\<close>, so the generation in the id starts again and a stale
  id denotes the new environment.
\<close>

theorem env_id_reused:
  assumes "free_environment e s = Inr ((), s1)" and "envs s2 e = (envs s1 e)\<lparr>env_page_directory := Some pd\<rparr>"
    and "complete_environment_initialization e s2 = Inr ((), s3)"
  shows "env_id (envs s3 e) = 0x1000 OR of_nat e"
proof -
  have "env_id (envs s1 e) = 0"
    using assms(1) by (auto simp: free_environment_def bindE_eq_Inr Let_def upd_env_def zero_env_def)
  then have "env_id (envs s2 e) = 0" using assms(2) by simp
  then have "env_id (envs s3 e) = next_env_id 0 e" using complete_env_Inr(1) [OF assms(3)] by simp
  also have "\<dots> = 0x1000 OR of_nat e"
    by (simp add: next_env_id_def ENVGENSHIFT_def NENV_def Let_def)
  finally show ?thesis .
qed


lemma complete_env_tiny: "\<exists>s'. complete_environment_initialization 1 tiny = Inr ((), s')"
  by (simp add: complete_environment_initialization_def Let_def upd_env_def wr_def)
    (simp add: tiny_def)

theorem envid2env_own_id_witness:
  "\<exists>s'. complete_environment_initialization 1 tiny = Inr ((), s') \<and>
     envid2env (env_id (envs s' 1)) False s' = Inr ((0, Some 1), s')"
proof -
  obtain s' where s': "complete_environment_initialization 1 tiny = Inr ((), s')" using complete_env_tiny by blast
  have "1 < NENV" by (simp add: NENV_def)
  then show ?thesis using envid2env_own_id [OF s'] s' by auto
qed

theorem env_id_reused_witness:
  "\<exists>s1 s3. free_environment 0 tiny = Inr ((), s1) \<and>
     complete_environment_initialization 0 (upd_env 0 (\<lambda>en. en\<lparr>env_page_directory := Some 3\<rparr>) s1) = Inr ((), s3) \<and>
     env_id (envs s3 0) = 0x1000"
proof -
  obtain s1 where s1: "free_environment 0 tiny = Inr ((), s1)" and l: "0 \<in> set (env_free_list s1)"
    by (simp add: free_environment_def Let_def upd_env_def) (simp add: tiny_def)
  let ?s2 = "upd_env 0 (\<lambda>en. en\<lparr>env_page_directory := Some 3\<rparr>) s1"
  obtain s3 where s3: "complete_environment_initialization 0 ?s2 = Inr ((), s3)"
    using l by (simp add: complete_environment_initialization_def Let_def upd_env_def wr_def)
  have "envs ?s2 0 = (envs s1 0)\<lparr>env_page_directory := Some 3\<rparr>" by simp
  from env_id_reused [OF s1 this s3] show ?thesis using s1 s3 by auto
qed

lemma fold_wr_zero:
  "fold (\<lambda>i. wr f i 0) xs s = s\<lparr>pmem := (pmem s)(f := \<lambda>j. if j \<in> set xs then 0 else pmem s f j)\<rparr>"
proof (induction xs arbitrary: s)
  case Nil
  then show ?case by simp
next
  case (Cons x xs)
  show ?case unfolding fold_simps Cons.IH by (auto simp: wr_def fun_eq_iff intro!: kernel.equality)
qed

lemma fold_wr_copy:
  assumes "f \<noteq> ptr_page_directory s"
  shows "fold (\<lambda>i s. wr f i (rd s (ptr_page_directory s) i) s) xs s =
    s\<lparr>pmem := (pmem s)(f := \<lambda>j. if j \<in> set xs then pmem s (ptr_page_directory s) j else pmem s f j)\<rparr>"
  using assms
proof (induction xs arbitrary: s)
  case Nil
  then show ?case by simp
next
  case (Cons x xs)
  let ?s = "wr f x (rd s (ptr_page_directory s) x) s"
  have "f \<noteq> ptr_page_directory ?s" using Cons.prems by (simp add: wr_def)
  from Cons.IH [OF this] show ?case
    using Cons.prems by (auto simp: wr_def rd_def fun_eq_iff intro!: kernel.equality)
qed

lemma foldE_fill_page_ws:
  assumes "distinct (xs @ PageWorkingSetList (envs s e))" and "\<forall>x \<in> set xs. x < PWS_MAX_SIZE"
  shows "foldE (\<lambda>i s. if PWS_MAX_SIZE \<le> i then Inl OutOfBounds
             else bindE (lst_insert_head i (PageWorkingSetList (envs s e))) (\<lambda>l.
                    Inr (upd_env e (\<lambda>en. en\<lparr>PageWorkingSetList := l\<rparr>) s))) xs s =
    Inr (upd_env e (\<lambda>en. en\<lparr>PageWorkingSetList := rev xs @ PageWorkingSetList en\<rparr>) s)"
  using assms
proof (induction xs arbitrary: s)
  case Nil
  then show ?case by (simp add: upd_env_def)
next
  case (Cons x xs)
  let ?s = "upd_env e (\<lambda>en. en\<lparr>PageWorkingSetList := x # PageWorkingSetList (envs s e)\<rparr>) s"
  have "distinct (xs @ PageWorkingSetList (envs ?s e))" using Cons.prems by auto
  from Cons.IH [OF this] show ?case
    using Cons.prems by (simp add: not_le) (simp add: upd_env_def)
qed

lemma copy_kernel_directory:
  assumes "pd \<noteq> ptr_page_directory s" and "ptr_page_directory t = ptr_page_directory s" and "pmem t = pmem s"
  shows "fold (\<lambda>i s. wr pd i (rd s (ptr_page_directory s) i) s) [UPDES..<1024]
      (fold (\<lambda>i. wr pd i 0) [0..<UPDES] t) =
    t\<lparr>pmem := (pmem s)(pd := \<lambda>j. if j \<in> {UPDES..<1024} then pmem s (ptr_page_directory s) j
      else if j < UPDES then 0 else pmem s pd j)\<rparr>"
proof -
  let ?z = "t\<lparr>pmem := (pmem t)(pd := \<lambda>j. if j \<in> set [0..<UPDES] then 0 else pmem t pd j)\<rparr>"
  have "pd \<noteq> ptr_page_directory ?z" using assms(1,2) by simp
  note fc = fold_wr_copy [OF this, of "[UPDES..<1024]"]
  show ?thesis
    unfolding fold_wr_zero fc using assms by (auto simp: fun_eq_iff intro!: kernel.equality)
qed

text \<open>
  C19: a new environment starts with an empty user half, the kernel half of the boot directory, the
  two self-maps of its directory, and all its working-set elements free, the last one first.
\<close>

theorem initialize_environment_correct:
  assumes "PageRepAlgoType (cfg s) = PG_REP_LRU_LISTS_APPROX" and "pd \<noteq> ptr_page_directory s"
    and "n = page_WS_max_size (envs s e)" and "n \<le> PWS_MAX_SIZE" and "PageWorkingSetList (envs s e) = []"
    and "e \<in> set (env_free_list s)"
  shows "\<exists>s'. initialize_environment e pd phys s = Inr ((), s') \<and>
    (\<forall>i<UPDES. rd s' pd i = 0) \<and>
    (\<forall>i<1024. UPDES \<le> i \<longrightarrow> i \<noteq> pdx VPT \<longrightarrow> i \<noteq> pdx UVPT \<longrightarrow> rd s' pd i = rd s (ptr_page_directory s) i) \<and>
    rd s' pd (pdx VPT) = phys OR PERM_PRESENT OR PERM_WRITEABLE \<and>
    rd s' pd (pdx UVPT) = phys OR PERM_PRESENT OR PERM_USER \<and>
    (\<forall>f. f \<noteq> pd \<longrightarrow> pmem s' f = pmem s f) \<and>
    PageWorkingSetList (envs s' e) = rev [0..<n] \<and>
    (\<forall>i<n. ptr_pageWorkingSet (envs s' e) i = \<lparr>ws_va = 0, ws_empty = 1\<rparr>) \<and>
    env_page_directory (envs s' e) = Some pd \<and> env_cr3 (envs s' e) = phys"
proof -
  define s1 where "s1 = upd_env e (\<lambda>en. en\<lparr>env_page_directory := Some pd, env_cr3 := phys\<rparr>) s"
  define m where "m = (\<lambda>j. if j \<in> {UPDES..<1024} then pmem s (ptr_page_directory s) j
      else if j < UPDES then 0 else pmem s pd j)"
  have p1: "ptr_page_directory s1 = ptr_page_directory s" "pmem s1 = pmem s"
    by (simp_all add: s1_def upd_env_def)
  note m2 = copy_kernel_directory [OF assms(2) p1, folded m_def]
  define s2 where "s2 = upd_env e (\<lambda>en. en\<lparr>uptr_pws := ws_uva (s1\<lparr>pmem := (pmem s)(pd := m)\<rparr>) e\<rparr>) (s1\<lparr>pmem := (pmem s)(pd := m)\<rparr>)"
  have e2: "envs s2 e = (envs s e)\<lparr>env_page_directory := Some pd, env_cr3 := phys, uptr_pws := ws_uva s1 e\<rparr>"
    by (simp add: s2_def) (simp add: s1_def upd_env_def)
  have c2: "cfg s2 = cfg s" "pmem s2 = (pmem s)(pd := m)" "env_free_list s2 = env_free_list s"
    by (simp_all add: s2_def s1_def upd_env_def)
  have "distinct ([0..<n] @ PageWorkingSetList (envs s2 e))" "\<forall>x \<in> set [0..<n]. x < PWS_MAX_SIZE"
    using assms(4,5) e2 by auto
  note ins = foldE_fill_page_ws [OF this]
  define s3 where "s3 = upd_env e (\<lambda>en. en\<lparr>
              ptr_pageWorkingSet := (\<lambda>i. if i < n then \<lparr>ws_va = 0, ws_empty = 1\<rparr> else ptr_pageWorkingSet en i),
              page_last_WS_index := 0,
              ptr_tws := (\<lambda>i. if i < TWS_MAX_SIZE then \<lparr>ws_va = 0, ws_empty = 1\<rparr> else ptr_tws en i),
              table_last_WS_index := 0, pageFaultsCounter := 0, tableFaultsCounter := 0,
              freeingFullWSCounter := 0, freeingScarceMemCounter := 0, nModifiedPages := 0,
              nNotModifiedPages := 0, nClocks := 0, nPageIn := 0, nPageOut := 0\<rparr>)
      (upd_env e (\<lambda>en. en\<lparr>PageWorkingSetList := rev [0..<n] @ PageWorkingSetList en\<rparr>) s2)"
  have i: "initialize_environment e pd phys s = complete_environment_initialization e s3"
    unfolding initialize_environment_def UPDES_USER_TOP [symmetric] Let_def s1_def [symmetric] m2
      s2_def [symmetric]
    using assms(1,3,4) ins e2 c2 by (simp add: s3_def not_less)
  have e3: "env_page_directory (envs s3 e) = Some pd" "env_cr3 (envs s3 e) = phys"
    "PageWorkingSetList (envs s3 e) = rev [0..<n]" "pmem s3 = (pmem s)(pd := m)"
    "\<forall>i<n. ptr_pageWorkingSet (envs s3 e) i = \<lparr>ws_va = 0, ws_empty = 1\<rparr>" "e \<in> set (env_free_list s3)"
    using assms(5,6) e2 c2 by (simp_all add: s3_def) (simp_all add: upd_env_def)
  obtain s' where s': "complete_environment_initialization e s3 = Inr ((), s')"
    and r: "pmem s' = (pmem s)(pd := m(pdx VPT := phys OR PERM_PRESENT OR PERM_WRITEABLE,
        pdx UVPT := phys OR PERM_PRESENT OR PERM_USER))"
    and l: "PageWorkingSetList (envs s' e) = rev [0..<n]"
      "\<forall>i<n. ptr_pageWorkingSet (envs s' e) i = \<lparr>ws_va = 0, ws_empty = 1\<rparr>"
      "env_page_directory (envs s' e) = Some pd" "env_cr3 (envs s' e) = phys"
    using e3 by (simp add: complete_environment_initialization_def Let_def upd_env_def wr_def)
  have v: "pdx VPT = 959" "pdx UVPT = 957" "UPDES = 955"
    by (simp_all add: pdx_def PDX_def layout_defs UPDES_def)
  show ?thesis
    using s' l unfolding i by (intro exI [of _ s']) (auto simp: rd_def r m_def v)
qed

theorem initialize_environment_correct_witness:
  "\<exists>s'. initialize_environment 1 4 0x4000 (upd_env 1 (\<lambda>en. en\<lparr>page_WS_max_size := 3\<rparr>) tiny) = Inr ((), s') \<and>
     PageWorkingSetList (envs s' 1) = [2, 1, 0]"
proof -
  let ?s = "upd_env 1 (\<lambda>en. en\<lparr>page_WS_max_size := 3\<rparr>) tiny"
  have h: "PageRepAlgoType (cfg ?s) = PG_REP_LRU_LISTS_APPROX" "4 \<noteq> ptr_page_directory ?s"
    "3 = page_WS_max_size (envs ?s 1)" "3 \<le> PWS_MAX_SIZE" "PageWorkingSetList (envs ?s 1) = []"
    "1 \<in> set (env_free_list ?s)"
    by (simp_all add: tiny_def zero_env_def upd_env_def PG_REP_LRU_LISTS_APPROX_def PWS_MAX_SIZE_def)
  have "rev [0..<3] = [2, 1, 0 :: nat]" by (simp add: upt_rec)
  then show ?thesis using initialize_environment_correct [OF h, of "0x4000"] by auto
qed

end
