(* ===== verification/Sched.thy ===== *)
theory Sched
  imports Env_Manager
begin

text \<open>
  The scheduler (\<^verbatim>\<open>kern/sched.c\<close>) and its self-checks (\<open>schenv\<close>, \<open>chk1\<close>, \<open>chk2\<close> of
  \<^verbatim>\<open>kern/utilities.c\<close>): the queues of new, ready and exited environments, the round-robin choice,
  and the operations that move an environment between queues or kill it. Without a kernel heap there
  is one ready queue. Functions that may not return give a \<open>control\<close>: the caller goes on, user code
  of an environment runs, or the kernel waits in the command prompt.
\<close>

section \<open>Queues\<close>

datatype control = Returns | Runs nat | CommandPrompt

definition SCH_RR :: uint32 where "SCH_RR = 0"
definition SCH_MLFQ :: uint32 where "SCH_MLFQ = 1"
definition SCH_STOPPED :: uint32 where "SCH_STOPPED = 0"
definition SCH_STARTED :: uint32 where "SCH_STARTED = 1"
definition CLOCK_INTERVAL_IN_MS :: uint8 where "CLOCK_INTERVAL_IN_MS = 10"

definition isSchedMethodRR :: "kernel \<Rightarrow> uint32" where
  "isSchedMethodRR s = (if scheduler_method s = SCH_RR then 1 else 0)"
definition isSchedMethodMLFQ :: "kernel \<Rightarrow> uint32" where
  "isSchedMethodMLFQ s = (if scheduler_method s = SCH_MLFQ then 1 else 0)"

text \<open>A queue argument that is null is \<open>None\<close>.\<close>

definition init_queue :: "nat list option \<Rightarrow> nat list option" where
  "init_queue queue = map_option (\<lambda>_. []) queue"

definition queue_size :: "nat list option \<Rightarrow> nat" where
  "queue_size queue = (case queue of None \<Rightarrow> 0 | Some q \<Rightarrow> length q)"

definition enqueue :: "nat list \<Rightarrow> nat option \<Rightarrow> halt + nat list" where
  "enqueue queue e = (case e of None \<Rightarrow> Inr queue | Some x \<Rightarrow> lst_insert_head x queue)"

definition dequeue :: "nat list \<Rightarrow> halt + nat option \<times> nat list" where
  "dequeue queue =
     (case last_of queue of
        None \<Rightarrow> Inr (None, queue)
      | Some x \<Rightarrow> bindE (lst_remove x queue) (\<lambda>q. Inr (Some x, q)))"

definition remove_from_queue :: "nat list \<Rightarrow> nat option \<Rightarrow> halt + nat list" where
  "remove_from_queue queue e = (case e of None \<Rightarrow> Inr queue | Some x \<Rightarrow> lst_remove x queue)"

definition find_env_in_queue :: "nat list \<Rightarrow> uint32 \<Rightarrow> kernel \<Rightarrow> nat option" where
  "find_env_in_queue queue envID s = find (\<lambda>e. env_id (envs s e) = envID) queue"

section \<open>Self-checks\<close>

definition schenv :: "kernel \<Rightarrow> kernel" where
  "schenv s =
     (let c = chk s;
          ready = [env_ready_queue s];
          (ne, nl) = (case find (\<lambda>i. queue_size (Some (ready ! i)) \<noteq> 0) [0..<num_of_ready_queues s] of
                        None \<Rightarrow> (None, 0)
                      | Some i \<Rightarrow> (last_of (ready ! i), i));
          keep = (curenv s, if chk_pl c < num_of_ready_queues s - 1 then chk_pl c + 1 else chk_pl c);
          (ne, nl) = (if curenv s = None then (ne, nl)
                      else if ne \<noteq> None then (if chk_pl c + 1 < nl then keep else (ne, nl))
                      else keep)
      in s\<lparr>chk := c\<lparr>chk_ne := ne, chk_nl := nl\<rparr>\<rparr>)"

definition chksch :: "uint8 \<Rightarrow> kernel \<Rightarrow> kernel" where
  "chksch onoff s = s\<lparr>chk := \<lparr>chkstatus = onoff, chk_pe = None, chk_ne = None, chk_pl = 0, chk_nl = 0\<rparr>\<rparr>"

definition chk1 :: "kernel \<Rightarrow> kernel" where
  "chk1 s =
     (if chkstatus (chk s) = 0 then s
      else schenv (s\<lparr>chk := (chk s)\<lparr>chk_pe := curenv s,
                    chk_pl := (if curenv s = None then 0 else chk_nl (chk s))\<rparr>\<rparr>))"

text \<open>\<open>assert_endall\<close> ends every environment and stops on a false condition. The queues of the
  levels other than 0 do not exist in this kernel, so an access to one is out of bounds.\<close>

definition ready_at :: "nat \<Rightarrow> kernel \<Rightarrow> halt + nat list" where
  "ready_at i s = (if i = 0 then Inr (env_ready_queue s) else Inl OutOfBounds)"

definition assert_endall :: "bool \<Rightarrow> halt + unit" where
  "assert_endall b = (if b then Inr () else Inl (AssertFailed ''scheduler check''))"

definition chk2 :: "nat option \<Rightarrow> kernel \<Rightarrow> halt + unit" where
  "chk2 se s =
     (let c = chk s in
      if chkstatus c = 0 then Inr ()
      else
        bindE (assert_endall (se = chk_ne c)) (\<lambda>_.
        bindE (case chk_ne c of
                 None \<Rightarrow> Inr ()
               | Some ne \<Rightarrow>
                   (if chk_nl c \<noteq> 0 then Inl OutOfBounds
                    else if quantum s = 0 then Inl (Panic ''unhandled trap in kernel'')
                    else
                      let upper = (of_int (TIMER_DIV (c_div 1000 (uint (quantum s)))) :: uint16);
                          upper = (if upper mod 2 = 1 then upper + 1 else upper);
                          lower = (of_nat (90 * unat upper div 100) :: uint16);
                          current = kclock_read_cnt0 s in
                      bindE (assert_endall (lower < current \<and> current \<le> upper)) (\<lambda>_.
                      foldE (\<lambda>i _. bindE (ready_at i s) (\<lambda>q.
                               assert_endall (find_env_in_queue q (env_id (envs s ne)) s = None)))
                        [0..<num_of_ready_queues s] ()))) (\<lambda>_.
        case chk_pe c of
          None \<Rightarrow> Inr ()
        | Some pe \<Rightarrow>
            if chk_pe c = chk_ne c then Inr ()
            else
              let tl = (if chk_pl c = num_of_ready_queues s - 1 then chk_pl c else chk_pl c + 1) in
              bindE (ready_at tl s) (\<lambda>q.
              bindE (assert_endall (find_env_in_queue q (env_id (envs s pe)) s \<noteq> None)) (\<lambda>_.
              foldE (\<lambda>i _. if i = tl then Inr ()
                       else bindE (ready_at i s) (\<lambda>q.
                              assert_endall (find_env_in_queue q (env_id (envs s pe)) s = None)))
                [0..<num_of_ready_queues s] ())))))"

section \<open>The scheduler\<close>

definition fos_scheduler_MLFQ :: "kernel \<Rightarrow> nat option result" where
  "fos_scheduler_MLFQ s = Inl (Panic ''this function is not required...!!'')"

text \<open>A method other than the two leaves \<open>next_env\<close> null.\<close>

definition fos_scheduler :: "kernel \<Rightarrow> control result" where
  "fos_scheduler s =
     (let s = (chk1 s)\<lparr>scheduler_status := SCH_STARTED\<rparr> in
      bindE (if scheduler_method s = SCH_RR then
               bindE (enqueue (env_ready_queue s) (curenv s)) (\<lambda>q.
               bindE (dequeue q) (\<lambda>(next_env, q).
               bindE (kclock_set_quantum (quantum s) (s\<lparr>env_ready_queue := q\<rparr>)) (\<lambda>(_, s).
               Inr (next_env, s))))
             else if scheduler_method s = SCH_MLFQ then fos_scheduler_MLFQ s
             else Inr (None, s)) (\<lambda>(next_env, s).
      bindE (chk2 next_env (s\<lparr>curenv := next_env\<rparr>)) (\<lambda>_.
      case next_env of
        Some e \<Rightarrow> Inr (Runs e, env_run e s)
      | None \<Rightarrow>
          Inr (CommandPrompt, s\<lparr>curenv := None, cr3 := phys_page_directory s, scheduler_status := SCH_STOPPED\<rparr>))))"

definition sched_init_RR :: "uint8 \<Rightarrow> kernel \<Rightarrow> unit result" where
  "sched_init_RR q s =
     (let s = s\<lparr>scheduler_status := SCH_STOPPED, scheduler_method := SCH_RR, num_of_ready_queues := 1, quantum := q\<rparr> in
      bindE (kclock_set_quantum q s) (\<lambda>(_, s). Inr ((), s\<lparr>env_ready_queue := []\<rparr>)))"

text \<open>\<open>sched_delete_ready_queues\<close> calls \<open>kfree\<close>, which is not implemented in this kernel.\<close>

definition sched_delete_ready_queues :: "kernel \<Rightarrow> unit result" where
  "sched_delete_ready_queues s = Inl (Panic ''this function is not required...!!'')"

definition sched_init_MLFQ :: "uint8 \<Rightarrow> uint8 list \<Rightarrow> kernel \<Rightarrow> unit result" where
  "sched_init_MLFQ numOfLevels quantumOfEachLevel s =
     bindE (sched_delete_ready_queues s) (\<lambda>(_, s). Inl (Panic ''this function is not required...!!''))"

definition sched_init :: "kernel \<Rightarrow> unit result" where
  "sched_init s =
     bindE (sched_init_RR CLOCK_INTERVAL_IN_MS s) (\<lambda>(_, s).
     Inr ((), s\<lparr>env_new_queue := [], env_exit_queue := []\<rparr>))"

section \<open>Moving environments between queues\<close>

definition set_status :: "nat \<Rightarrow> uint32 \<Rightarrow> kernel \<Rightarrow> kernel" where
  "set_status e st = upd_env e (\<lambda>en. en\<lparr>env_status := st\<rparr>)"

definition sched_insert_ready :: "nat option \<Rightarrow> kernel \<Rightarrow> halt + kernel" where
  "sched_insert_ready e s =
     (case e of None \<Rightarrow> Inr s
      | Some x \<Rightarrow>
          let s = set_status x ENV_READY s in
          bindE (enqueue (env_ready_queue s) (Some x)) (\<lambda>q. Inr (s\<lparr>env_ready_queue := q\<rparr>)))"

definition sched_remove_ready :: "nat option \<Rightarrow> kernel \<Rightarrow> halt + kernel" where
  "sched_remove_ready e s =
     (case e of None \<Rightarrow> Inr s
      | Some x \<Rightarrow>
          bindE (foldE (\<lambda>i (ret, s).
              if ret then Inr (ret, s)
              else bindE (ready_at i s) (\<lambda>q.
                if find_env_in_queue q (env_id (envs s x)) s = None then Inr (False, s)
                else bindE (lst_remove x q) (\<lambda>q. Inr (True, set_status x ENV_UNKNOWN (s\<lparr>env_ready_queue := q\<rparr>)))))
            [0..<num_of_ready_queues s] (False, s)) (\<lambda>(_, s). Inr s))"

definition sched_insert_new :: "nat option \<Rightarrow> kernel \<Rightarrow> halt + kernel" where
  "sched_insert_new e s =
     (case e of None \<Rightarrow> Inr s
      | Some x \<Rightarrow>
          let s = set_status x ENV_NEW s in
          bindE (enqueue (env_new_queue s) (Some x)) (\<lambda>q. Inr (s\<lparr>env_new_queue := q\<rparr>)))"

definition sched_remove_new :: "nat option \<Rightarrow> kernel \<Rightarrow> halt + kernel" where
  "sched_remove_new e s =
     (case e of None \<Rightarrow> Inr s
      | Some x \<Rightarrow>
          bindE (lst_remove x (env_new_queue s)) (\<lambda>q. Inr (set_status x ENV_UNKNOWN (s\<lparr>env_new_queue := q\<rparr>))))"

definition sched_insert_exit :: "nat option \<Rightarrow> kernel \<Rightarrow> halt + kernel" where
  "sched_insert_exit e s =
     (case e of None \<Rightarrow> Inr s
      | Some x \<Rightarrow>
          bindE (if isBufferingEnabled s \<noteq> 0 then cleanup_buffers x s else Inr ((), s)) (\<lambda>(_, s).
          let s = set_status x ENV_EXIT s in
          bindE (enqueue (env_exit_queue s) (Some x)) (\<lambda>q. Inr (s\<lparr>env_exit_queue := q\<rparr>))))"

definition sched_remove_exit :: "nat option \<Rightarrow> kernel \<Rightarrow> halt + kernel" where
  "sched_remove_exit e s =
     (case e of None \<Rightarrow> Inr s
      | Some x \<Rightarrow>
          bindE (lst_remove x (env_exit_queue s)) (\<lambda>q. Inr (set_status x ENV_UNKNOWN (s\<lparr>env_exit_queue := q\<rparr>))))"

definition sched_new_env :: "nat option \<Rightarrow> kernel \<Rightarrow> halt + kernel" where
  "sched_new_env e s = (if e \<noteq> None then sched_insert_new e s else Inr s)"

text \<open>\<open>LIST_FOREACH(ptr_env, queue) body\<close> on a queue of the kernel.\<close>

definition each_in :: "(kernel \<Rightarrow> nat list) \<Rightarrow> (nat \<Rightarrow> kernel \<Rightarrow> halt + kernel) \<Rightarrow> kernel \<Rightarrow> halt + kernel" where
  "each_in queue body s = foreach (length (queue s)) queue body (first_of (queue s)) s"

definition sched_run_all :: "kernel \<Rightarrow> control result" where
  "sched_run_all s =
     bindE (each_in env_new_queue (\<lambda>e s.
              bindE (sched_remove_new (Some e) s) (sched_insert_ready (Some e))) s) (\<lambda>s.
     if scheduler_status s = SCH_STOPPED then fos_scheduler s else Inr (Returns, s))"

definition kill_new :: "nat \<Rightarrow> kernel \<Rightarrow> halt + kernel" where
  "kill_new e s =
     bindE (sched_remove_new (Some e) s) (\<lambda>s. bindE (start_env_free e s) (\<lambda>(_, s). Inr s))"

definition kill_ready :: "nat \<Rightarrow> kernel \<Rightarrow> halt + kernel" where
  "kill_ready e s =
     bindE (lst_remove e (env_ready_queue s)) (\<lambda>q.
     bindE (start_env_free e (s\<lparr>env_ready_queue := q\<rparr>)) (\<lambda>(_, s). Inr s))"

definition kill_exit :: "nat \<Rightarrow> kernel \<Rightarrow> halt + kernel" where
  "kill_exit e s =
     bindE (sched_remove_exit (Some e) s) (\<lambda>s. bindE (start_env_free e s) (\<lambda>(_, s). Inr s))"

definition sched_kill_all :: "kernel \<Rightarrow> control result" where
  "sched_kill_all s =
     bindE (each_in env_new_queue kill_new s) (\<lambda>s.
     bindE (foldE (\<lambda>i s. bindE (ready_at i s) (\<lambda>_. each_in env_ready_queue kill_ready s))
              [0..<num_of_ready_queues s] s) (\<lambda>s.
     bindE (each_in env_exit_queue kill_exit s) (\<lambda>s.
     fos_scheduler (s\<lparr>curenv := None\<rparr>))))"

definition sched_run_env :: "uint32 \<Rightarrow> kernel \<Rightarrow> control result" where
  "sched_run_env envId s =
     (case find (\<lambda>e. env_id (envs s e) = envId) (env_new_queue s) of
        None \<Rightarrow> Inr (Returns, s)
      | Some e \<Rightarrow>
          bindE (sched_remove_new (Some e) s) (\<lambda>s.
          bindE (sched_insert_ready (Some e) s) (\<lambda>s.
          if scheduler_status s = SCH_STOPPED then fos_scheduler s else Inr (Returns, s))))"

text \<open>
  In \<open>sched_exit_env\<close> the loop over the new queue has no \<open>break\<close>, so \<open>ptr_env\<close> is null after it;
  the loop over the ready queues leaves it at the environment it found.
\<close>

definition sched_exit_env :: "uint32 \<Rightarrow> kernel \<Rightarrow> control result" where
  "sched_exit_env envId s =
     bindE (foreach (length (env_new_queue s)) (\<lambda>(_, s). env_new_queue s)
              (\<lambda>e (found, s). if env_id (envs s e) = envId
                 then bindE (sched_remove_new (Some e) s) (\<lambda>s. Inr (True, s)) else Inr (found, s))
              (first_of (env_new_queue s)) (False, s)) (\<lambda>(found, s).
     bindE (if found then Inr (True, None, s)
            else foldE (\<lambda>i (found, p, s).
                   if found then Inr (found, p, s)
                   else bindE (ready_at i s) (\<lambda>q.
                     case find (\<lambda>e. env_id (envs s e) = envId) q of
                       None \<Rightarrow> Inr (False, None, s)
                     | Some e \<Rightarrow> bindE (lst_remove e q) (\<lambda>q. Inr (True, Some e, s\<lparr>env_ready_queue := q\<rparr>))))
                 [0..<num_of_ready_queues s] (False, None, s)) (\<lambda>(found, ptr_env, s).
     bindE (if found then Inr (True, ptr_env)
            else bindE (deref (curenv s)) (\<lambda>c.
              Inr (if env_id (envs s c) = envId then (True, Some c) else (False, ptr_env)))) (\<lambda>(found, ptr_env).
     if found then
       bindE (sched_insert_exit ptr_env s) (\<lambda>s.
       bindE (deref (curenv s)) (\<lambda>c.
       if env_id (envs s c) = envId then fos_scheduler (s\<lparr>curenv := None\<rparr>) else Inr (Returns, s)))
     else Inr (Returns, s))))"

definition sched_exit_all_ready_envs :: "kernel \<Rightarrow> halt + kernel" where
  "sched_exit_all_ready_envs s =
     foldE (\<lambda>i s. bindE (ready_at i s) (\<lambda>_.
       each_in env_ready_queue (\<lambda>e s.
         bindE (lst_remove e (env_ready_queue s)) (\<lambda>q.
         sched_insert_exit (Some e) (s\<lparr>env_ready_queue := q\<rparr>))) s)) [0..<num_of_ready_queues s] s"

definition kill_matching ::
  "(kernel \<Rightarrow> nat list) \<Rightarrow> (nat \<Rightarrow> kernel \<Rightarrow> halt + kernel) \<Rightarrow> uint32 \<Rightarrow> kernel \<Rightarrow> halt + bool \<times> kernel" where
  "kill_matching queue kill envId s =
     foreach (length (queue s)) (\<lambda>(_, s). queue s)
       (\<lambda>e (found, s). if env_id (envs s e) = envId
          then bindE (kill e s) (\<lambda>s. Inr (True, s)) else Inr (found, s))
       (first_of (queue s)) (False, s)"

definition sched_kill_env :: "uint32 \<Rightarrow> kernel \<Rightarrow> control result" where
  "sched_kill_env envId s =
     bindE (kill_matching env_new_queue kill_new envId s) (\<lambda>(found, s).
     bindE (if found then Inr (True, s)
            else foldE (\<lambda>i (found, s).
                   if found then Inr (found, s)
                   else bindE (ready_at i s) (\<lambda>q.
                     case find (\<lambda>e. env_id (envs s e) = envId) q of
                       None \<Rightarrow> Inr (False, s)
                     | Some e \<Rightarrow> bindE (kill_ready e s) (\<lambda>s. Inr (True, s))))
                 [0..<num_of_ready_queues s] (False, s)) (\<lambda>(found, s).
     bindE (if found then Inr (True, s) else kill_matching env_exit_queue kill_exit envId s) (\<lambda>(found, s).
     if found then Inr (Returns, s)
     else
       bindE (deref (curenv s)) (\<lambda>c.
       if env_id (envs s c) = envId then
         if env_id (envs s c) \<noteq> ENV_RUNNABLE then Inl (AssertFailed ''ptr_env->env_id == ENV_RUNNABLE'')
         else
           bindE (start_env_free c s) (\<lambda>(_, s).
           fos_scheduler (s\<lparr>cr3 := phys_page_directory s, curenv := None\<rparr>))
       else Inr (Returns, s)))))"

definition clock_interrupt_handler :: "kernel \<Rightarrow> control result" where
  "clock_interrupt_handler s = fos_scheduler s"

text \<open>\<open>env_exit\<close> of \<^verbatim>\<open>kern/user_environment.c\<close>.\<close>

definition env_exit :: "kernel \<Rightarrow> control result" where
  "env_exit s =
     bindE (deref (curenv s)) (\<lambda>c.
     bindE (sched_exit_env (env_id (envs s c)) s) (\<lambda>(ctl, s).
     if ctl = Returns then fos_scheduler s else Inr (ctl, s)))"

section \<open>Round robin\<close>

text \<open>The environments that take part, in the order of the queue: the running one at the head.\<close>

definition rr_list :: "'e option \<Rightarrow> 'e list \<Rightarrow> 'e list" where
  "rr_list c q = (case c of None \<Rightarrow> q | Some x \<Rightarrow> x # q)"

text \<open>The environments that run in \<open>n\<close> consecutive time slices.\<close>

fun run_slices :: "nat \<Rightarrow> ('s \<Rightarrow> halt + control \<times> 's) \<Rightarrow> 's \<Rightarrow> halt + nat list \<times> 's" where
  "run_slices 0 sched s = Inr ([], s)"
| "run_slices (Suc n) sched s =
     bindE (sched s) (\<lambda>(c, s).
     case c of
       Runs e \<Rightarrow> bindE (run_slices n sched s) (\<lambda>(es, s). Inr (e # es, s))
     | _ \<Rightarrow> Inr ([], s))"

text \<open>
  What the clock interrupt relies on in a scheduler: it runs the last environment of the list and
  puts the others behind it.
\<close>

locale round_robin =
  fixes ok :: "'s \<Rightarrow> bool" and cur :: "'s \<Rightarrow> nat option" and ready :: "'s \<Rightarrow> nat list"
    and sched :: "'s \<Rightarrow> halt + control \<times> 's"
  assumes sched_runs: "ok s \<Longrightarrow> distinct (rr_list (cur s) (ready s)) \<Longrightarrow> rr_list (cur s) (ready s) \<noteq> [] \<Longrightarrow>
      \<exists>s'. sched s = Inr (Runs (last (rr_list (cur s) (ready s))), s') \<and> ok s' \<and>
        cur s' = Some (last (rr_list (cur s) (ready s))) \<and> ready s' = butlast (rr_list (cur s) (ready s))"
begin

lemma rotation:
  assumes "ok s" and "distinct (us @ vs)" and "rr_list (cur s) (ready s) = us @ vs"
  shows "\<exists>s'. run_slices (length vs) sched s = Inr (rev vs, s') \<and> ok s' \<and>
    rr_list (cur s') (ready s') = vs @ us \<and> (vs \<noteq> [] \<longrightarrow> cur s' \<noteq> None)"
  using assms
proof (induction vs arbitrary: us s rule: rev_induct)
  case Nil
  then show ?case by simp
next
  case (snoc x vs)
  let ?l = "rr_list (cur s) (ready s)"
  have l: "last ?l = x" "butlast ?l = us @ vs" "?l \<noteq> []" "distinct ?l"
    using snoc.prems by (simp_all add: butlast_append)
  then obtain s1 where s1: "sched s = Inr (Runs x, s1)" "ok s1" "cur s1 = Some x" "ready s1 = us @ vs"
    using sched_runs [OF snoc.prems(1)] by auto
  have "rr_list (cur s1) (ready s1) = (x # us) @ vs" using s1 by (simp add: rr_list_def)
  moreover have "distinct ((x # us) @ vs)" using snoc.prems(2) by auto
  ultimately obtain s' where "run_slices (length vs) sched s1 = Inr (rev vs, s')" "ok s'"
    "rr_list (cur s') (ready s') = vs @ x # us" "vs \<noteq> [] \<longrightarrow> cur s' \<noteq> None"
    using snoc.IH [OF s1(2), of "x # us"] by auto
  then show ?case using s1 by (cases "vs = []") auto
qed

lemma one_round:
  assumes "ok s" and "distinct (rr_list (cur s) (ready s))"
  shows "\<exists>s'. run_slices (length (rr_list (cur s) (ready s))) sched s = Inr (rev (rr_list (cur s) (ready s)), s') \<and>
    ok s' \<and> rr_list (cur s') (ready s') = rr_list (cur s) (ready s)"
  using rotation [OF assms(1), of "[]" "rr_list (cur s) (ready s)"] assms(2) by auto

end

text \<open>The scheduler with its checks off and a quantum the timer can hold.\<close>

definition sched_ok :: "kernel \<Rightarrow> bool" where
  "sched_ok s \<longleftrightarrow> chkstatus (chk s) = 0 \<and> scheduler_method s = SCH_RR \<and> quantum s \<noteq> 0 \<and> IS_VALID_QUANTUM (quantum s)"

lemma kclock_set_quantum_frame:
  assumes "q \<noteq> 0" and "IS_VALID_QUANTUM q"
  shows "\<exists>t. kclock_set_quantum q s = Inr ((), s\<lparr>clock := t\<rparr>)"
proof -
  have "\<exists>t. kclock_stop (kclock_write_cnt0_LSB_first c (outb_TIMER_MODE v s)) = s\<lparr>clock := t\<rparr>" for c v
  proof -
    obtain a where a: "outb_TIMER_MODE v s = s\<lparr>clock := a\<rparr>" using clock_frame(2) by blast
    obtain b where b: "kclock_write_cnt0_LSB_first c (s\<lparr>clock := a\<rparr>) = s\<lparr>clock := a\<rparr>\<lparr>clock := b\<rparr>"
      using clock_frame(3) by blast
    obtain d where d: "outb_TIMER_MODE TIMER_RATE16 (s\<lparr>clock := b\<rparr>) = s\<lparr>clock := b\<rparr>\<lparr>clock := d\<rparr>"
      using clock_frame(2) by blast
    obtain t where "irq_setmask_8259A 0xFFFF (s\<lparr>clock := d\<rparr>) = s\<lparr>clock := d\<rparr>\<lparr>clock := t\<rparr>"
      using clock_frame(1) by blast
    then show ?thesis using a b d by (intro exI [of _ t]) (simp add: kclock_stop_def)
  qed
  then show ?thesis using assms by (auto simp: kclock_set_quantum_def Let_def)
qed

lemma kclock_resume_frame: "\<exists>t. kclock_resume s = s\<lparr>clock := t\<rparr>"
proof -
  have "\<exists>t. unmask_timer (kclock_write_cnt0_LSB_first c (outb_TIMER_MODE v s)) = s\<lparr>clock := t\<rparr>" for c v
  proof -
    obtain a where a: "outb_TIMER_MODE v s = s\<lparr>clock := a\<rparr>" using clock_frame(2) by blast
    obtain b where b: "kclock_write_cnt0_LSB_first c (s\<lparr>clock := a\<rparr>) = s\<lparr>clock := a\<rparr>\<lparr>clock := b\<rparr>"
      using clock_frame(3) by blast
    obtain t where "unmask_timer (s\<lparr>clock := b\<rparr>) = s\<lparr>clock := b\<rparr>\<lparr>clock := t\<rparr>"
      unfolding unmask_timer_def using clock_frame(1) by blast
    then show ?thesis using a b by (intro exI [of _ t]) simp
  qed
  then show ?thesis by (simp add: kclock_resume_def Let_def)
qed

lemma env_run_sel:
  "curenv (env_run e s) = Some e" "env_ready_queue (env_run e s) = env_ready_queue s"
  "env_new_queue (env_run e s) = env_new_queue s" "env_exit_queue (env_run e s) = env_exit_queue s"
  "chk (env_run e s) = chk s" "scheduler_method (env_run e s) = scheduler_method s"
  "quantum (env_run e s) = quantum s" "scheduler_status (env_run e s) = scheduler_status s"
  "env_status (envs (env_run e s) e) = ENV_RUNNABLE"
  "env_id (envs (env_run e s) d) = env_id (envs s d)"
  "cr3 (env_run e s) = (if curenv s = Some e then cr3 s else env_cr3 (envs s e))"
proof -
  obtain t where t: "env_run e s = upd_env e (\<lambda>en. en\<lparr>env_status := ENV_RUNNABLE\<rparr>)
    (if curenv s \<noteq> Some e then
       let s = upd_env e (\<lambda>en. en\<lparr>env_runs := env_runs en + 1\<rparr>) (s\<lparr>curenv := Some e\<rparr>)
       in s\<lparr>cr3 := env_cr3 (envs s e)\<rparr> else s)\<lparr>clock := t\<rparr>"
    using kclock_resume_frame by (auto simp: env_run_def Let_def)
  show "curenv (env_run e s) = Some e" "env_ready_queue (env_run e s) = env_ready_queue s"
    "env_new_queue (env_run e s) = env_new_queue s" "env_exit_queue (env_run e s) = env_exit_queue s"
    "chk (env_run e s) = chk s" "scheduler_method (env_run e s) = scheduler_method s"
    "quantum (env_run e s) = quantum s" "scheduler_status (env_run e s) = scheduler_status s"
    "env_status (envs (env_run e s) e) = ENV_RUNNABLE"
    "env_id (envs (env_run e s) d) = env_id (envs s d)"
    "cr3 (env_run e s) = (if curenv s = Some e then cr3 s else env_cr3 (envs s e))"
    unfolding t by (simp_all add: Let_def upd_env_def)
qed

lemma fos_scheduler_runs:
  assumes "sched_ok s" and "distinct (rr_list (curenv s) (env_ready_queue s))"
    and "rr_list (curenv s) (env_ready_queue s) = l @ [e]"
  shows "\<exists>t. fos_scheduler s = Inr (Runs e, env_run e (s\<lparr>scheduler_status := SCH_STARTED, env_ready_queue := l, clock := t\<rparr>))"
proof -
  let ?s = "s\<lparr>scheduler_status := SCH_STARTED\<rparr>"
  have q: "enqueue (env_ready_queue s) (curenv s) = Inr (l @ [e])"
    using assms(2,3) by (cases "curenv s") (auto simp: enqueue_def rr_list_def)
  have "e \<notin> set l" using assms(2,3) by simp
  then have d: "dequeue (l @ [e]) = Inr (Some e, l)" by (simp add: dequeue_def remove1_append_notin)
  obtain t where t: "kclock_set_quantum (quantum s) (?s\<lparr>env_ready_queue := l\<rparr>) = Inr ((), ?s\<lparr>env_ready_queue := l, clock := t\<rparr>)"
    using kclock_set_quantum_frame assms(1) unfolding sched_ok_def by blast
  show ?thesis using assms(1) q d t by (auto simp: fos_scheduler_def sched_ok_def chk1_def chk2_def)
qed

interpretation rr: round_robin sched_ok curenv env_ready_queue fos_scheduler
proof
  fix s
  assume ok: "sched_ok s" and d: "distinct (rr_list (curenv s) (env_ready_queue s))"
    and "rr_list (curenv s) (env_ready_queue s) \<noteq> []"
  then obtain l e where l: "rr_list (curenv s) (env_ready_queue s) = l @ [e]" using list_last_cases by blast
  obtain t where t: "fos_scheduler s = Inr (Runs e, env_run e (s\<lparr>scheduler_status := SCH_STARTED, env_ready_queue := l, clock := t\<rparr>))"
    using fos_scheduler_runs [OF ok d l] by blast
  then show "\<exists>s'. fos_scheduler s = Inr (Runs (last (rr_list (curenv s) (env_ready_queue s))), s') \<and> sched_ok s' \<and>
        curenv s' = Some (last (rr_list (curenv s) (env_ready_queue s))) \<and>
        env_ready_queue s' = butlast (rr_list (curenv s) (env_ready_queue s))"
    using ok by (simp add: l sched_ok_def env_run_sel)
qed

section \<open>Properties\<close>

text \<open>
  C4: round robin is fair. With \<open>n\<close> environments running or ready, the next \<open>n\<close> time slices run each
  of them once, in the order of the queue, and every slice does run one; after them the queue and
  the running environment are as before (if none was running, the one that had waited least runs).
\<close>

theorem fos_scheduler_fair:
  assumes "sched_ok s" and "distinct (rr_list (curenv s) (env_ready_queue s))"
  shows "\<exists>s'. run_slices (length (rr_list (curenv s) (env_ready_queue s))) fos_scheduler s =
      Inr (rev (rr_list (curenv s) (env_ready_queue s)), s') \<and>
    rr_list (curenv s') (env_ready_queue s') = rr_list (curenv s) (env_ready_queue s)"
  using rr.one_round [OF assms] by blast

lemma tiny_sched: "sched_ok tiny" "chkstatus (chk tiny) = 0"
  by (simp_all add: sched_ok_def tiny_def SCH_RR_def IS_VALID_QUANTUM_def QUANTUM_LIMIT_def c_div_def TIMER_FREQ_def)

theorem fos_scheduler_fair_witness:
  "\<exists>s'. run_slices 3 fos_scheduler (tiny\<lparr>curenv := Some 0, env_ready_queue := [1, 2]\<rparr>) = Inr ([2, 1, 0], s')"
proof -
  let ?s = "tiny\<lparr>curenv := Some 0, env_ready_queue := [1, 2]\<rparr>"
  have "sched_ok ?s" using tiny_sched by (simp add: sched_ok_def)
  moreover have l: "rr_list (curenv ?s) (env_ready_queue ?s) = [0, 1, 2]" by (simp add: rr_list_def)
  moreover have "length [0, 1, 2 :: nat] = 3" by simp
  ultimately show ?thesis using fos_scheduler_fair [of ?s] by (auto simp: numeral_eq_Suc)
qed

text \<open>The queues as a state machine: no environment is in two places, and its status fits.\<close>

definition queues_ok :: "kernel \<Rightarrow> bool" where
  "queues_ok s \<longleftrightarrow> distinct (rr_list (curenv s) (env_ready_queue s @ env_new_queue s @ env_exit_queue s)) \<and>
     (\<forall>e \<in> set (env_new_queue s). env_status (envs s e) = ENV_NEW) \<and>
     (\<forall>e \<in> set (env_ready_queue s). env_status (envs s e) = ENV_READY \<or> env_status (envs s e) = ENV_RUNNABLE) \<and>
     (\<forall>e \<in> set (env_exit_queue s). env_status (envs s e) = ENV_EXIT) \<and>
     (\<forall>e. curenv s = Some e \<longrightarrow> env_status (envs s e) = ENV_RUNNABLE)"

lemma set_status_sel [simp]:
  "env_new_queue (set_status e v s) = env_new_queue s" "env_ready_queue (set_status e v s) = env_ready_queue s"
  "env_exit_queue (set_status e v s) = env_exit_queue s" "curenv (set_status e v s) = curenv s"
  "scheduler_status (set_status e v s) = scheduler_status s" "chk (set_status e v s) = chk s"
  "scheduler_method (set_status e v s) = scheduler_method s" "quantum (set_status e v s) = quantum s"
  "num_of_ready_queues (set_status e v s) = num_of_ready_queues s" "cfg (set_status e v s) = cfg s"
  "env_status (envs (set_status e v s) d) = (if d = e then v else env_status (envs s d))"
  "env_id (envs (set_status e v s) d) = env_id (envs s d)"
  by (simp_all add: set_status_def upd_env_def)

lemma move_new_ready:
  assumes "env_new_queue s = us @ e # vs" and "distinct (env_new_queue s)" and "e \<notin> set (env_ready_queue s)"
  shows "\<exists>t. bindE (sched_remove_new (Some e) s) (sched_insert_ready (Some e)) = Inr t \<and>
    env_new_queue t = us @ vs \<and> env_ready_queue t = e # env_ready_queue s \<and>
    env_exit_queue t = env_exit_queue s \<and> curenv t = curenv s \<and> scheduler_status t = scheduler_status s \<and>
    sched_ok t = sched_ok s \<and>
    (\<forall>d. env_status (envs t d) = (if d = e then ENV_READY else env_status (envs s d)))"
proof -
  have "e \<notin> set us" using assms(1,2) by auto
  then have "remove1 e (env_new_queue s) = us @ vs" using assms(1) by (simp add: remove1_append_notin)
  then show ?thesis
    using assms(1,3) by (simp add: sched_remove_new_def sched_insert_ready_def enqueue_def sched_ok_def)
qed

lemma each_new_ready:
  assumes "queues_ok s"
  shows "\<exists>t. each_in env_new_queue (\<lambda>e s. bindE (sched_remove_new (Some e) s) (sched_insert_ready (Some e))) s = Inr t \<and>
    env_new_queue t = [] \<and> env_ready_queue t = rev (env_new_queue s) @ env_ready_queue s \<and>
    env_exit_queue t = env_exit_queue s \<and> curenv t = curenv s \<and> scheduler_status t = scheduler_status s \<and>
    sched_ok t = sched_ok s \<and>
    (\<forall>d. env_status (envs t d) = (if d \<in> set (env_new_queue s) then ENV_READY else env_status (envs s d)))"
proof -
  let ?b = "\<lambda>e s. bindE (sched_remove_new (Some e) s) (sched_insert_ready (Some e))"
  have "\<exists>t. foreach n env_new_queue ?b (first_of vs) s = Inr t \<and>
    env_new_queue t = [] \<and> env_ready_queue t = rev vs @ env_ready_queue s \<and>
    env_exit_queue t = env_exit_queue s \<and> curenv t = curenv s \<and> scheduler_status t = scheduler_status s \<and>
    sched_ok t = sched_ok s \<and>
    (\<forall>d. env_status (envs t d) = (if d \<in> set vs then ENV_READY else env_status (envs s d)))"
    if "env_new_queue s = vs" "distinct (vs @ env_ready_queue s)" "length vs \<le> n" for vs n s
    using that
  proof (induction n arbitrary: vs s)
    case 0
    then show ?case by simp
  next
    case (Suc n)
    show ?case
    proof (cases vs)
      case Nil
      then show ?thesis using Suc.prems by simp
    next
      case (Cons e ws)
      have "e \<notin> set (env_ready_queue s)" "distinct (env_new_queue s)" "env_new_queue s = [] @ e # ws"
        using Suc.prems Cons by auto
      from move_new_ready [OF this(3,2,1)] obtain t where t: "?b e s = Inr t" "env_new_queue t = ws"
        "env_ready_queue t = e # env_ready_queue s" "env_exit_queue t = env_exit_queue s" "curenv t = curenv s"
        "scheduler_status t = scheduler_status s" "sched_ok t = sched_ok s"
        "\<forall>d. env_status (envs t d) = (if d = e then ENV_READY else env_status (envs s d))" by auto
      have "distinct (ws @ env_ready_queue t)" using Suc.prems Cons t by auto
      then obtain u where u: "foreach n env_new_queue ?b (first_of ws) t = Inr u" "env_new_queue u = []"
        "env_ready_queue u = rev ws @ env_ready_queue t" "env_exit_queue u = env_exit_queue t" "curenv u = curenv t"
        "scheduler_status u = scheduler_status t" "sched_ok u = sched_ok t"
        "\<forall>d. env_status (envs u d) = (if d \<in> set ws then ENV_READY else env_status (envs t d))"
        using Suc.IH [OF t(2)] Suc.prems(3) Cons by auto
      have "next_of e (env_new_queue s) = first_of ws"
        using Suc.prems Cons next_of_append [of e "[]" ws] by simp
      then show ?thesis using t u Cons by (intro exI [of _ u]) auto
    qed
  qed
  moreover have "distinct (env_new_queue s @ env_ready_queue s)"
    using assms by (cases "curenv s") (auto simp: queues_ok_def rr_list_def)
  ultimately show ?thesis unfolding each_in_def by blast
qed

text \<open>
  Starting all new environments returns, moves them from the new to the ready queue behind the
  ones already there, in their order of creation, and keeps every environment in exactly one place
  with a status that fits.
\<close>

theorem sched_run_all_starts:
  assumes "queues_ok s" and "sched_ok s" and "scheduler_status s \<noteq> SCH_STOPPED"
  shows "\<exists>s'. sched_run_all s = Inr (Returns, s') \<and> queues_ok s' \<and> env_new_queue s' = [] \<and>
    env_ready_queue s' = rev (env_new_queue s) @ env_ready_queue s \<and>
    (\<forall>e \<in> set (env_new_queue s). env_status (envs s' e) = ENV_READY)"
proof -
  obtain t where t: "each_in env_new_queue (\<lambda>e s. bindE (sched_remove_new (Some e) s) (sched_insert_ready (Some e))) s = Inr t"
    "env_new_queue t = []" "env_ready_queue t = rev (env_new_queue s) @ env_ready_queue s"
    "env_exit_queue t = env_exit_queue s" "curenv t = curenv s" "scheduler_status t = scheduler_status s"
    "\<forall>d. env_status (envs t d) = (if d \<in> set (env_new_queue s) then ENV_READY else env_status (envs s d))"
    using each_new_ready [OF assms(1)] by blast
  have "queues_ok t"
    using assms(1) t unfolding queues_ok_def
    by (cases "curenv s") (auto simp: rr_list_def)
  then show ?thesis using t assms(3) by (simp add: sched_run_all_def)
qed

text \<open>Environment 0 runs, 1 and 2 are new.\<close>

definition sched_m :: kernel where
  "sched_m = tiny\<lparr>curenv := Some 0, cr3 := 0, env_new_queue := [2, 1], scheduler_status := SCH_STARTED,
     envs := (\<lambda>i. zero_env\<lparr>env_id := 0x1000 OR of_nat i,
       env_status := (if i = 0 then ENV_RUNNABLE else ENV_NEW)\<rparr>)\<rparr>"

lemma sched_m_ok: "queues_ok sched_m" "sched_ok sched_m" "scheduler_status sched_m \<noteq> SCH_STOPPED"
proof -
  show "sched_ok sched_m" using tiny_sched by (simp add: sched_ok_def sched_m_def)
qed (simp_all add: queues_ok_def sched_m_def rr_list_def tiny_def status_defs SCH_STARTED_def SCH_STOPPED_def)

theorem sched_run_all_starts_witness:
  "\<exists>s'. sched_run_all sched_m = Inr (Returns, s') \<and> env_ready_queue s' = [1, 2]"
proof -
  have "rev (env_new_queue sched_m) @ env_ready_queue sched_m = [1, 2]"
    by (simp add: sched_m_def tiny_def)
  then show ?thesis using sched_run_all_starts [OF sched_m_ok] by auto
qed

lemma exit_env_new:
  assumes "env_new_queue s = us @ e # vs" and "distinct (env_new_queue s)" and "env_id (envs s e) = i"
    and "\<forall>d \<in> set (us @ vs). env_id (envs s d) \<noteq> i"
  shows "foreach (length (env_new_queue s)) (\<lambda>(_, s). env_new_queue s)
              (\<lambda>e (found, s). if env_id (envs s e) = i
                 then bindE (sched_remove_new (Some e) s) (\<lambda>s. Inr (True, s)) else Inr (found, s))
              (first_of (env_new_queue s)) (False, s) =
     Inr (True, set_status e ENV_UNKNOWN (s\<lparr>env_new_queue := us @ vs\<rparr>))"
proof -
  let ?b = "\<lambda>e (found, s). if env_id (envs s e) = i
                 then bindE (sched_remove_new (Some e) s) (\<lambda>s. Inr (True, s)) else Inr (found, s)"
  let ?G = "\<lambda>(_ :: bool, s). env_new_queue s"
  let ?t = "set_status e ENV_UNKNOWN (s\<lparr>env_new_queue := us @ vs\<rparr>)"
  have e: "e \<notin> set us" "e \<notin> set vs" using assms(1,2) by auto
  have after: "foreach n ?G ?b (first_of ws) (True, ?t) = Inr (True, ?t)"
    if "us @ vs = xs @ ws" "length ws \<le> n" for ws xs n
    using that
  proof (induction n arbitrary: ws xs)
    case 0
    then show ?case by simp
  next
    case (Suc n)
    show ?case
    proof (cases ws)
      case Nil
      then show ?thesis by simp
    next
      case (Cons w ws')
      have "distinct (us @ vs)" using assms(1,2) by auto
      then have "w \<notin> set xs" using Suc.prems(1) Cons by auto
      then have "next_of w (env_new_queue ?t) = first_of ws'"
        using Suc.prems(1) Cons by (simp add: next_of_append)
      moreover have "w \<in> set (us @ vs)" using Suc.prems(1) Cons by simp
      then have "env_id (envs ?t w) \<noteq> i" using assms(4) by simp
      ultimately show ?thesis using Suc.IH [of "xs @ [w]" ws'] Suc.prems Cons by simp
    qed
  qed
  have before: "foreach (n + length ws) ?G ?b (first_of (ws @ e # vs)) (False, s) = Inr (True, ?t)"
    if "us = xs @ ws" "Suc (length vs) \<le> n" for ws xs n
    using that
  proof (induction ws arbitrary: xs)
    case Nil
    then obtain m where m: "n = Suc m" "length vs \<le> m" by (cases n) auto
    have "remove1 e (env_new_queue s) = us @ vs" using assms(1) e by (simp add: remove1_append_notin)
    then have "?b e (False, s) = Inr (True, ?t)" using assms(1,3) by (simp add: sched_remove_new_def)
    moreover have "next_of e (env_new_queue s) = first_of vs" using assms(1) e by (simp add: next_of_append)
    ultimately show ?case using after [of us vs m] m by simp
  next
    case (Cons w ws)
    have "w \<notin> set xs" using assms(1,2) Cons.prems(1) by auto
    then have "next_of w (env_new_queue s) = first_of (ws @ e # vs)"
      using assms(1) Cons.prems(1) by (simp add: next_of_append)
    moreover have "env_id (envs s w) \<noteq> i" using assms(4) Cons.prems(1) by simp
    ultimately show ?case using Cons.IH [of "xs @ [w]"] Cons.prems by simp
  qed
  have "length (env_new_queue s) = Suc (length vs) + length us" using assms(1) by simp
  then show ?thesis using before [of "[]" us "Suc (length vs)"] assms(1) by (simp add: add.commute)
qed

text \<open>Exiting an environment that is still in the new queue loses it. \<open>sched_exit_env\<close> takes it out of
  the queue, but its loop variable is null by the time it is inserted in the exit queue, so the
  environment is in no queue afterwards and its memory is never released.
\<close>

theorem sched_exit_env_loses_new:
  assumes "env_new_queue s = us @ e # vs" and "queues_ok s" and "curenv s = Some c"
    and "env_id (envs s e) = i" and "\<forall>d \<in> set (us @ vs). env_id (envs s d) \<noteq> i" and "env_id (envs s c) \<noteq> i"
  shows "\<exists>s'. sched_exit_env i s = Inr (Returns, s') \<and> env_new_queue s' = us @ vs \<and>
    env_exit_queue s' = env_exit_queue s \<and> env_status (envs s' e) = ENV_UNKNOWN \<and>
    e \<notin> set (env_new_queue s' @ env_ready_queue s' @ env_exit_queue s') \<and> curenv s' = Some c"
proof -
  let ?t = "set_status e ENV_UNKNOWN (s\<lparr>env_new_queue := us @ vs\<rparr>)"
  have d: "distinct (env_new_queue s)"
    using assms(2) by (auto simp: queues_ok_def rr_list_def split: option.splits)
  have "e \<notin> set (us @ vs @ env_ready_queue s @ env_exit_queue s)"
    using assms(1,2,3) by (auto simp: queues_ok_def rr_list_def)
  moreover have "sched_exit_env i s = Inr (Returns, ?t)"
    using exit_env_new [OF assms(1) d assms(4,5)] assms(3,6)
    by (simp add: sched_exit_env_def sched_insert_exit_def)
  ultimately show ?thesis using assms(3) by simp
qed

theorem sched_exit_env_loses_new_witness:
  "\<exists>s'. sched_exit_env 0x1001 sched_m = Inr (Returns, s') \<and>
     1 \<notin> set (env_new_queue s' @ env_ready_queue s' @ env_exit_queue s')"
proof -
  have "env_new_queue sched_m = [2] @ 1 # []" "curenv sched_m = Some 0" "env_id (envs sched_m 1) = 0x1001"
    "\<forall>d \<in> set ([2] @ []). env_id (envs sched_m d) \<noteq> 0x1001" "env_id (envs sched_m 0) \<noteq> 0x1001"
    by (simp_all add: sched_m_def)
  from sched_exit_env_loses_new [OF this(1) sched_m_ok(1) this(2-5)] show ?thesis by blast
qed

lemma next_env_id_not_2: "next_env_id old k \<noteq> ENV_RUNNABLE"
proof
  assume h: "next_env_id old k = ENV_RUNNABLE"
  define g where "g = (let g = (old + push_bit ENVGENSHIFT 1) AND NOT (of_nat NENV - 1) in
    if sint g \<le> 0 then push_bit ENVGENSHIFT 1 else g)"
  have n: "next_env_id old k = g OR of_nat k" by (simp add: next_env_id_def g_def Let_def)
  have m: "(of_nat NENV - 1 :: uint32) = 11" by (simp add: NENV_def)
  have g: "g AND -12 = g" "g \<noteq> 0"
    unfolding g_def m Let_def by (auto simp: ENVGENSHIFT_def and.assoc)
  have "(g OR of_nat k) AND -12 = (2 :: uint32) AND -12" using h n by (simp add: ENV_RUNNABLE_def)
  then have "g OR (of_nat k AND -12) = 0" by (simp add: bit.conj_disj_distrib2 g(1))
  then show False using g(2) by (metis or_eq_0_iff)
qed

lemma kill_matching_none:
  assumes "\<forall>d \<in> set (q s). env_id (envs s d) \<noteq> i" and "distinct (q s)"
  shows "kill_matching q k i s = Inr (False, s)"
proof -
  let ?b = "\<lambda>e (found, s). if env_id (envs s e) = i then bindE (k e s) (\<lambda>s. Inr (True, s)) else Inr (found, s)"
  have "foreach n (\<lambda>(_, s). q s) ?b (first_of ws) (False, s) = Inr (False, s)"
    if "q s = xs @ ws" "length ws \<le> n" for n xs ws
    using that
  proof (induction n arbitrary: xs ws)
    case 0
    then show ?case by simp
  next
    case (Suc n)
    show ?case
    proof (cases ws)
      case Nil
      then show ?thesis by simp
    next
      case (Cons w ws')
      then have "w \<notin> set xs" using Suc.prems(1) assms(2) by auto
      then have "next_of w (q s) = first_of ws'" using Suc.prems(1) Cons by (simp add: next_of_append)
      moreover have "env_id (envs s w) \<noteq> i" using assms(1) Suc.prems(1) Cons by simp
      ultimately show ?thesis using Suc.IH [of "xs @ [w]" ws'] Suc.prems Cons by simp
    qed
  qed
  from this [of "[]" "q s"] show ?thesis by (simp add: kill_matching_def)
qed

text \<open>
  The running environment cannot be killed. \<open>sched_kill_env\<close> asserts that its id, not its status,
  equals \<open>ENV_RUNNABLE\<close>, so for every id that \<open>complete_environment_initialization\<close> gives out the
  kernel stops at the assertion.
\<close>

theorem sched_kill_env_running:
  assumes "queues_ok s" and "curenv s = Some c" and "num_of_ready_queues s = 1"
    and "env_id (envs s c) = next_env_id old k" and "k < NENV"
    and "\<forall>d \<in> set (env_new_queue s @ env_ready_queue s @ env_exit_queue s). env_id (envs s d) \<noteq> env_id (envs s c)"
  shows "sched_kill_env (env_id (envs s c)) s = Inl (AssertFailed ''ptr_env->env_id == ENV_RUNNABLE'')"
proof -
  let ?i = "env_id (envs s c)"
  have d: "distinct (env_new_queue s)" "distinct (env_exit_queue s)"
    using assms(1) by (auto simp: queues_ok_def rr_list_def split: option.splits)
  have r: "find (\<lambda>e. env_id (envs s e) = ?i) (env_ready_queue s) = None"
    using assms(6) by (auto simp: find_None_iff)
  have n: "kill_matching env_new_queue kill_new ?i s = Inr (False, s)"
    "kill_matching env_exit_queue kill_exit ?i s = Inr (False, s)"
    using assms(6) d by (auto intro!: kill_matching_none)
  have "?i \<noteq> ENV_RUNNABLE" using next_env_id_not_2 assms(4) by simp
  then show ?thesis using n r assms(2,3) by (simp add: sched_kill_env_def ready_at_def)
qed


theorem sched_kill_env_running_witness:
  "sched_kill_env 0x1000 sched_m = Inl (AssertFailed ''ptr_env->env_id == ENV_RUNNABLE'')"
proof -
  have "curenv sched_m = Some 0" "num_of_ready_queues sched_m = 1"
    "env_id (envs sched_m 0) = next_env_id 0 0" "0 < NENV"
    "\<forall>d \<in> set (env_new_queue sched_m @ env_ready_queue sched_m @ env_exit_queue sched_m).
       env_id (envs sched_m d) \<noteq> env_id (envs sched_m 0)"
    by (simp_all add: sched_m_def tiny_def NENV_def next_env_id_def ENVGENSHIFT_def)
  from sched_kill_env_running [OF sched_m_ok(1) this] show ?thesis by (simp add: sched_m_def)
qed

lemma fos_scheduler_idle:
  assumes "sched_ok s" and "rr_list (curenv s) (env_ready_queue s) = []"
  shows "\<exists>t. fos_scheduler s = Inr (CommandPrompt, s\<lparr>scheduler_status := SCH_STOPPED, env_ready_queue := [],
      clock := t, curenv := None, cr3 := phys_page_directory s\<rparr>)"
proof -
  let ?s = "s\<lparr>scheduler_status := SCH_STARTED\<rparr>"
  have c: "curenv s = None" "env_ready_queue s = []" using assms(2) by (auto simp: rr_list_def split: option.splits)
  obtain t where t: "kclock_set_quantum (quantum s) (?s\<lparr>env_ready_queue := []\<rparr>) =
      Inr ((), ?s\<lparr>env_ready_queue := [], clock := t\<rparr>)"
    using kclock_set_quantum_frame assms(1) unfolding sched_ok_def by blast
  show ?thesis using assms(1) c t
    by (intro exI [of _ t]) (simp add: fos_scheduler_def sched_ok_def chk1_def chk2_def enqueue_def dequeue_def)
qed

lemma fos_scheduler_keeps:
  assumes "queues_ok s" and "sched_ok s" and "\<forall>c. curenv s = Some c \<longrightarrow> cr3 s = env_cr3 (envs s c)"
  shows "\<exists>ctl s'. fos_scheduler s = Inr (ctl, s') \<and> queues_ok s' \<and> sched_ok s' \<and>
    env_new_queue s' = env_new_queue s \<and> env_exit_queue s' = env_exit_queue s \<and>
    (case ctl of
       Runs e \<Rightarrow> curenv s' = Some e \<and> cr3 s' = env_cr3 (envs s e) \<and>
         set (rr_list (curenv s') (env_ready_queue s')) = set (rr_list (curenv s) (env_ready_queue s))
     | CommandPrompt \<Rightarrow> curenv s = None \<and> env_ready_queue s = [] \<and> curenv s' = None \<and> cr3 s' = phys_page_directory s
     | Returns \<Rightarrow> False)"
proof -
  let ?l = "rr_list (curenv s) (env_ready_queue s)"
  have d: "distinct ?l" using assms(1) by (cases "curenv s") (auto simp: queues_ok_def rr_list_def)
  show ?thesis
  proof (cases "?l = []")
    case True
    then have c: "curenv s = None" "env_ready_queue s = []" by (auto simp: rr_list_def split: option.splits)
    obtain t where t: "fos_scheduler s = Inr (CommandPrompt, s\<lparr>scheduler_status := SCH_STOPPED, env_ready_queue := [],
      clock := t, curenv := None, cr3 := phys_page_directory s\<rparr>)" using fos_scheduler_idle [OF assms(2) True] by blast
    then show ?thesis using assms(1,2) c by (auto simp: queues_ok_def sched_ok_def rr_list_def)
  next
    case False
    then obtain l e where l: "?l = l @ [e]" using list_last_cases by blast
    obtain t where t: "fos_scheduler s = Inr (Runs e, env_run e (s\<lparr>scheduler_status := SCH_STARTED, env_ready_queue := l, clock := t\<rparr>))"
      using fos_scheduler_runs [OF assms(2) d l] by blast
    let ?s = "s\<lparr>scheduler_status := SCH_STARTED, env_ready_queue := l, clock := t\<rparr>"
    have st: "env_status (envs (env_run e ?s) x) = (if x = e then ENV_RUNNABLE else env_status (envs s x))" for x
    proof -
      obtain u where "env_run e ?s = upd_env e (\<lambda>en. en\<lparr>env_status := ENV_RUNNABLE\<rparr>)
        (if curenv ?s \<noteq> Some e then
           let s = upd_env e (\<lambda>en. en\<lparr>env_runs := env_runs en + 1\<rparr>) (?s\<lparr>curenv := Some e\<rparr>)
           in s\<lparr>cr3 := env_cr3 (envs s e)\<rparr> else ?s)\<lparr>clock := u\<rparr>"
        using kclock_resume_frame by (auto simp: env_run_def Let_def)
      then show ?thesis by (simp add: Let_def upd_env_def)
    qed
    have "set ?l \<subseteq> {x. env_status (envs s x) = ENV_READY \<or> env_status (envs s x) = ENV_RUNNABLE}"
      using assms(1) by (cases "curenv s") (auto simp: queues_ok_def rr_list_def)
    then have ls: "\<forall>x \<in> set l. env_status (envs s x) = ENV_READY \<or> env_status (envs s x) = ENV_RUNNABLE"
      unfolding l by auto
    have ds: "distinct ((l @ [e]) @ env_new_queue s @ env_exit_queue s)"
      using assms(1) unfolding queues_ok_def l [symmetric] by (cases "curenv s") (auto simp: rr_list_def)
    then have "queues_ok (env_run e ?s)"
      using assms(1) ls unfolding queues_ok_def by (auto simp: env_run_sel st rr_list_def)
    moreover have "set (e # l) = set ?l" unfolding l by simp
    moreover have "cr3 (env_run e ?s) = env_cr3 (envs s e)" using assms(3) by (auto simp: env_run_sel)
    ultimately show ?thesis using t assms(2) by (auto simp: env_run_sel sched_ok_def rr_list_def)
  qed
qed

text \<open>
  C18: the scheduler keeps the queue invariant. With its checks off it always makes a choice: it runs an
  environment, which leaves the ready queue and becomes the running one in its own address space
  while the one that ran before waits in the queue, or it stops in the command prompt in the kernel's
  address space, and this only when nothing is running or ready.
\<close>

theorem fos_scheduler_queues:
  assumes "queues_ok s" and "sched_ok s" and "\<forall>c. curenv s = Some c \<longrightarrow> cr3 s = env_cr3 (envs s c)"
  shows "\<exists>ctl s'. fos_scheduler s = Inr (ctl, s') \<and> queues_ok s' \<and> sched_ok s' \<and>
    env_new_queue s' = env_new_queue s \<and> env_exit_queue s' = env_exit_queue s \<and>
    (case ctl of
       Runs e \<Rightarrow> curenv s' = Some e \<and> cr3 s' = env_cr3 (envs s e) \<and>
         set (rr_list (curenv s') (env_ready_queue s')) = set (rr_list (curenv s) (env_ready_queue s))
     | CommandPrompt \<Rightarrow> curenv s = None \<and> env_ready_queue s = [] \<and> curenv s' = None \<and> cr3 s' = phys_page_directory s
     | Returns \<Rightarrow> False)"
  using assms by (rule fos_scheduler_keeps)

theorem fos_scheduler_queues_witness:
  "\<exists>ctl s'. fos_scheduler sched_m = Inr (ctl, s') \<and> queues_ok s'"
proof -
  have "\<forall>c. curenv sched_m = Some c \<longrightarrow> cr3 sched_m = env_cr3 (envs sched_m c)"
    by (simp add: sched_m_def zero_env_def)
  from fos_scheduler_queues [OF sched_m_ok(1,2) this] show ?thesis by blast
qed

end
