(* ===== verification/Utilities.thy ===== *)
theory Utilities
  imports Sched
begin

text \<open>
  The operations of \<^verbatim>\<open>kern/utilities.c\<close> that the system calls use: making memory scarce, and counting
  the pages that a reclaim would take. The scheduler checks of the same file are in \<open>Sched\<close>.
\<close>

section \<open>Definitions\<close>

fun drop_frames :: "nat \<Rightarrow> kernel \<Rightarrow> halt + kernel" where
  "drop_frames 0 s = Inr s"
| "drop_frames (Suc n) s = bindE (allocate_frame s) (\<lambda>(_, s). drop_frames n s)"

text \<open>The loop counts \<open>i\<close> up to \<open>size_tobe_allocated\<close>, that value included.\<close>

definition scarce_memory :: "kernel \<Rightarrow> unit result" where
  "scarce_memory s =
     (let share = (100 - memory_scarce_threshold_percentage (cfg s)) * of_nat (number_of_frames s);
          total_size_tobe_allocated = share div 100;
          total_size_tobe_allocated = (if share mod 100 > 0 then total_size_tobe_allocated + 1
                                       else total_size_tobe_allocated);
          size_of_already_allocated = of_nat (number_of_frames s) - of_nat (length (free_frame_list s));
          size_tobe_allocated = total_size_tobe_allocated - size_of_already_allocated in
      bindE (drop_frames (Suc (unat size_tobe_allocated)) s) (\<lambda>s. Inr ((), s)))"

text \<open>The share of the pages of \<open>e\<close> that a reclaim removes, at the percentage of \<open>c\<close>, rounded up.\<close>

definition pages_to_be_removed :: "env \<Rightarrow> env \<Rightarrow> uint32" where
  "pages_to_be_removed c e =
     (let n = percentage_of_WS_pages_to_be_removed c * of_nat (env_page_ws_get_size e)
      in n div 100 + (if n mod 100 > 0 then 1 else 0))"

text \<open>The loop over the ready queues reads the percentage of \<open>curenv\<close> before \<open>curenv\<close> is tested.\<close>

definition calc_no_pages_tobe_removed_from_ready_exit_queues :: "uint32 \<Rightarrow> kernel \<Rightarrow> halt + uint32" where
  "calc_no_pages_tobe_removed_from_ready_exit_queues WS_or_MEMORY_flag s =
     (if WS_or_MEMORY_flag = 1 then
        bindE (foldE (\<lambda>i n. bindE (ready_at i s) (\<lambda>q.
                 foldE (\<lambda>e n. bindE (deref (curenv s)) (\<lambda>c.
                          Inr (n + pages_to_be_removed (envs s c) (envs s e)))) q n))
               [0..<num_of_ready_queues s] 0) (\<lambda>from_ready.
        let from_exit = fold (\<lambda>e n. n + of_nat (env_page_ws_get_size (envs s e))) (env_exit_queue s) 0;
            from_curenv = (case curenv s of None \<Rightarrow> 0 | Some c \<Rightarrow> pages_to_be_removed (envs s c) (envs s c))
        in Inr (from_curenv + from_ready + from_exit))
      else bindE (deref (curenv s)) (\<lambda>c. Inr (pages_to_be_removed (envs s c) (envs s c))))"

section \<open>Lemmas and properties\<close>

lemma drop_frames_eq:
  assumes "frames_ok s"
  shows "n \<le> length (free_frame_list s) \<Longrightarrow>
      drop_frames n s = Inr (s\<lparr>free_frame_list := drop n (free_frame_list s)\<rparr>)"
    and "length (free_frame_list s) < n \<Longrightarrow> \<not> succeeds (drop_frames n s)"
proof -
  have "if n \<le> length (free_frame_list s)
    then drop_frames n s = Inr (s\<lparr>free_frame_list := drop n (free_frame_list s)\<rparr>)
    else \<not> succeeds (drop_frames n s)"
    using assms
  proof (induction n arbitrary: s)
    case 0
    then show ?case by simp
  next
    case (Suc n)
    show ?case
    proof (cases "free_frame_list s")
      case Nil
      then show ?thesis using allocate_frame_Nil [OF Nil] by (cases "allocate_frame s") auto
    next
      case (Cons f fs)
      have "frames_ok (s\<lparr>free_frame_list := fs\<rparr>)" using Suc.prems Cons by (simp add: frames_ok_def)
      from Suc.IH [OF this] show ?thesis
        using Cons by (simp add: allocate_frame_Cons [OF Suc.prems Cons])
    qed
  qed
  then show "n \<le> length (free_frame_list s) \<Longrightarrow>
      drop_frames n s = Inr (s\<lparr>free_frame_list := drop n (free_frame_list s)\<rparr>)"
    "length (free_frame_list s) < n \<Longrightarrow> \<not> succeeds (drop_frames n s)" by (simp_all split: if_splits)
qed

lemma free_frames_bound: "frames_ok s \<Longrightarrow> length (free_frame_list s) \<le> number_of_frames s"
proof -
  assume ok: "frames_ok s"
  then have "set (free_frame_list s) \<subseteq> {..<number_of_frames s}" by (auto simp: frames_ok_def)
  then have "card (set (free_frame_list s)) \<le> number_of_frames s"
    using card_mono [of "{..<number_of_frames s}"] by fastforce
  then show ?thesis using ok by (simp add: frames_ok_def distinct_card)
qed

lemma ceil_100: "(x + 99) div 100 = (if 0 < x mod 100 then x div 100 + 1 else x div 100)" for x :: nat
proof -
  have "(100 * q + r + 99) div 100 = (if 0 < r then q + 1 else q)" if "r < 100" for q r :: nat
    using that by (intro div_nat_eqI) auto
  from this [of "x mod 100" "x div 100"] show ?thesis by simp
qed

text \<open>\<open>scarce_memory\<close> at a threshold of \<open>t\<close> percent leaves one free frame less than the frames
  that are not in the \<open>100 - t\<close> percent, rounded up; when more frames are in use already, the unsigned
  difference wraps and the allocations run out of memory.\<close>

theorem scarce_memory_leaves:
  assumes "frames_ok s" and "memory_scarce_threshold_percentage (cfg s) = of_nat t" and "t \<le> 100"
    and "m = ((100 - t) * number_of_frames s + 99) div 100"
  shows "if number_of_frames s - length (free_frame_list s) \<le> m \<and> m < number_of_frames s
    then \<exists>s'. scarce_memory s = Inr ((), s') \<and> length (free_frame_list s') = number_of_frames s - m - 1
      \<and> s' = s\<lparr>free_frame_list := drop (m + 1 + length (free_frame_list s) - number_of_frames s) (free_frame_list s)\<rparr>
    else \<not> succeeds (scarce_memory s)"
proof -
  let ?n = "number_of_frames s" and ?F = "length (free_frame_list s)"
  let ?x = "(100 - t) * ?n"
  have n: "?n \<le> 2 ^ 20" using assms(1) by (simp add: frames_ok_def)
  have F: "?F \<le> ?n" using free_frames_bound [OF assms(1)] .
  have "?x \<le> 100 * 2 ^ 20" using n by (intro mult_le_mono) auto
  then have x: "?x < 2 ^ 32" "m \<le> 2 ^ 20" using assms(4) by simp_all
  have "100 - of_nat t = (of_nat (100 - t) :: uint32)" using assms(3) by (simp add: of_nat_diff)
  then have share: "(100 - of_nat t) * of_nat ?n = (of_nat ?x :: uint32)" by simp
  have ux: "unat (of_nat ?x :: uint32) = ?x" by (rule unat_of_nat_small [OF x(1)])
  have q: "unat (of_nat ?x div 100 :: uint32) = ?x div 100" "unat (of_nat ?x mod 100 :: uint32) = ?x mod 100"
    by (simp_all only: unat_div unat_mod ux) simp_all
  have "unat (of_nat ?x div 100 + 1 :: uint32) = ?x div 100 + 1"
    using q(1) x(1) by (subst unat_add_lem [THEN iffD1]) simp_all
  moreover have "0 < (of_nat ?x mod 100 :: uint32) \<longleftrightarrow> 0 < ?x mod 100"
    unfolding word_less_nat_alt q by simp
  ultimately have um: "unat (if 0 < (of_nat ?x mod 100 :: uint32) then of_nat ?x div 100 + 1 else of_nat ?x div 100 :: uint32) = m"
    using q(1) unfolding assms(4) ceil_100 [of ?x] by (simp only: split: if_split) simp
  let ?T = "(if 0 < (of_nat ?x mod 100 :: uint32) then of_nat ?x div 100 + 1 else of_nat ?x div 100 :: uint32)"
  let ?size = "?T - (of_nat ?n - of_nat ?F)"
  have "of_nat ?n - of_nat ?F = (of_nat (?n - ?F) :: uint32)" using F by (simp add: of_nat_diff)
  then have un: "unat (of_nat ?n - of_nat ?F :: uint32) = ?n - ?F"
    using n by (simp only:) (rule unat_of_nat_small, simp)
  have size: "unat ?size = (if ?n - ?F \<le> m then m - (?n - ?F) else m + 2 ^ 32 - (?n - ?F))"
    unfolding unat_sub_if' [of ?T "of_nat ?n - of_nat ?F"] un um by simp
  have def: "scarce_memory s = bindE (drop_frames (Suc (unat ?size)) s) (\<lambda>s. Inr ((), s))"
    by (simp only: scarce_memory_def Let_def assms(2) share)
  note d = drop_frames_eq [OF assms(1), of "Suc (unat ?size)"]
  show ?thesis
  proof (cases "?n - ?F \<le> m \<and> m < ?n")
    case True
    then have "Suc (unat ?size) = m + 1 + ?F - ?n" "m + 1 + ?F - ?n \<le> ?F" using size F by auto
    then show ?thesis using True d(1) by (simp add: def)
  next
    case False
    then have "?F < Suc (unat ?size)" using size F n by auto
    from d(2) [OF this] show ?thesis unfolding def using False by (auto simp: succeeds_iff bindE_eq_Inr)
  qed
qed

theorem scarce_memory_leaves_witness:
  "\<exists>s'. scarce_memory tiny = Inr ((), s') \<and> length (free_frame_list s') = 3"
proof -
  have "frames_ok tiny" using tiny_aspace by (simp add: aspace_ok_def)
  moreover have "memory_scarce_threshold_percentage (cfg tiny) = of_nat 25" by (simp add: tiny_def)
  moreover have n: "number_of_frames tiny = 16" "length (free_frame_list tiny) = 12" by (simp_all add: tiny_def)
  ultimately show ?thesis using scarce_memory_leaves [of tiny 25 12, unfolded n] by auto
qed

end
