(* ===== verification/Kernel_Objects.thy ===== *)
theory Kernel_Objects
  imports Address_Space
begin

text \<open>
  The tables of semaphores and shared objects (\<^verbatim>\<open>kern/semaphore_manager.c\<close>,
  \<^verbatim>\<open>kern/shared_memory_manager.c\<close>) in the configuration without kernel heap: fixed arrays of
  100 slots. Both tables offer the same three operations, allocate, look up and free; the locale
  \<open>object_table\<close> states what a client may rely on and derives the facts that hold for every such
  table, and it is interpreted for both. Names are the strings up to their terminator, so
  \<open>strcmp\<close> is 0 exactly on equal names.
\<close>

section \<open>Semaphores\<close>

definition MAX_SEMAPHORES :: nat where "MAX_SEMAPHORES = 100"

definition create_semaphores_array :: "uint32 \<Rightarrow> kernel \<Rightarrow> unit result" where
  "create_semaphores_array n s = Inl (Panic ''this function is not required...!!'')"

text \<open>The result is the object id, which is also the pointer \<open>*allocatedObject\<close>.\<close>

definition allocate_semaphore_object :: "kernel \<Rightarrow> nat result" where
  "allocate_semaphore_object s =
     (case List.find (\<lambda>i. sem_empty (semaphores s i) \<noteq> 0) [0..<MAX_SEMAPHORES] of
        None \<Rightarrow> Inl (Panic ''Attempt to dynamically allocate space inside kernel while kheap is disabled .. '')
      | Some i \<Rightarrow> Inr (i, s\<lparr>semaphores := (semaphores s)(i := (semaphores s i)\<lparr>sem_empty := 0\<rparr>)\<rparr>))"

definition get_semaphore_object_ID :: "uint32 \<Rightarrow> string \<Rightarrow> kernel \<Rightarrow> int" where
  "get_semaphore_object_ID owner name s =
     (case List.find (\<lambda>i. sem_empty (semaphores s i) = 0 \<and> sem_ownerID (semaphores s i) = owner
                        \<and> name = sem_name (semaphores s i)) [0..<MAX_SEMAPHORES] of
        None \<Rightarrow> E_SEMAPHORE_NOT_EXISTS
      | Some i \<Rightarrow> int i)"

definition free_semaphore_object :: "uint32 \<Rightarrow> kernel \<Rightarrow> int result" where
  "free_semaphore_object i s =
     (if of_nat MAX_SEMAPHORES \<le> i then Inr (E_SEMAPHORE_NOT_EXISTS, s)
      else Inr (0, s\<lparr>semaphores := (semaphores s)(unat i :=
             \<lparr>sem_ownerID = 0, sem_name = [], sem_queue = [], sem_value = 0, sem_empty = 1\<rparr>)\<rparr>))"

definition createSemaphore :: "uint32 \<Rightarrow> string \<Rightarrow> uint32 \<Rightarrow> kernel \<Rightarrow> int result" where
  "createSemaphore ownerEnvID semaphoreName initialValue s =
     Inl (Panic ''this function is not required...!!'')"

definition waitSemaphore :: "uint32 \<Rightarrow> string \<Rightarrow> kernel \<Rightarrow> unit result" where
  "waitSemaphore ownerEnvID semaphoreName s = Inl (Panic ''this function is not required...!!'')"

definition signalSemaphore :: "uint32 \<Rightarrow> string \<Rightarrow> kernel \<Rightarrow> unit result" where
  "signalSemaphore ownerEnvID semaphoreName s = Inl (Panic ''this function is not required...!!'')"

section \<open>Shared objects\<close>

definition MAX_SHARES :: nat where "MAX_SHARES = 100"

definition create_shares_array :: "uint32 \<Rightarrow> kernel \<Rightarrow> unit result" where
  "create_shares_array n s =
     Inl (Panic ''Attempt to dynamically allocate space inside kernel while kheap is disabled .. '')"

definition allocate_share_object :: "kernel \<Rightarrow> nat result" where
  "allocate_share_object s =
     (case List.find (\<lambda>i. sh_empty (shares s i) \<noteq> 0) [0..<MAX_SHARES] of
        None \<Rightarrow> Inl (Panic ''Attempt to dynamically allocate space inside kernel while kheap is disabled .. '')
      | Some i \<Rightarrow> Inr (i, wr_page (share_storage i) zero_page
          (s\<lparr>shares := (shares s)(i := (shares s i)\<lparr>sh_empty := 0\<rparr>)\<rparr>)))"

definition get_share_object_ID :: "uint32 \<Rightarrow> string \<Rightarrow> kernel \<Rightarrow> int" where
  "get_share_object_ID owner name s =
     (case List.find (\<lambda>i. sh_empty (shares s i) = 0 \<and> sh_ownerID (shares s i) = owner
                        \<and> name = sh_name (shares s i)) [0..<MAX_SHARES] of
        None \<Rightarrow> E_SHARED_MEM_NOT_EXISTS
      | Some i \<Rightarrow> int i)"

text \<open>\<open>memset\<close> clears the whole \<open>struct Share\<close>, its \<open>framesStorage\<close> included.\<close>

definition free_share_object :: "uint32 \<Rightarrow> kernel \<Rightarrow> int result" where
  "free_share_object i s =
     (if of_nat MAX_SHARES \<le> i then Inr (E_SHARED_MEM_NOT_EXISTS, s)
      else bindE (clear_frames_storage (share_storage (unat i)) s) (\<lambda>(_, s).
        Inr (0, wr_page (share_storage (unat i)) zero_page (s\<lparr>shares := (shares s)(unat i :=
             \<lparr>sh_ownerID = 0, sh_name = [], sh_size = 0, sh_references = 0, sh_isWritable = 0,
              sh_empty = 1\<rparr>)\<rparr>))))"

definition createSharedObject ::
  "uint32 \<Rightarrow> string \<Rightarrow> uint32 \<Rightarrow> uint8 \<Rightarrow> uint32 \<Rightarrow> kernel \<Rightarrow> int result" where
  "createSharedObject ownerID shareName sz isWritable va s =
     Inl (Panic ''this function is not required...!!'')"

definition getSizeOfSharedObject :: "uint32 \<Rightarrow> string \<Rightarrow> kernel \<Rightarrow> int result" where
  "getSizeOfSharedObject ownerID shareName s = Inl (Panic ''this function is not required...!!'')"

definition getSharedObject :: "uint32 \<Rightarrow> string \<Rightarrow> uint32 \<Rightarrow> kernel \<Rightarrow> int result" where
  "getSharedObject ownerID shareName va s = Inl (Panic ''this function is not required...!!'')"

definition freeSharedObject :: "int \<Rightarrow> uint32 \<Rightarrow> kernel \<Rightarrow> int result" where
  "freeSharedObject sharedObjectID startVA s = Inl (Panic ''this function is not required...!!'')"

section \<open>The contract of an object table\<close>

text \<open>\<open>used\<close> and \<open>key\<close> read a slot; \<open>err\<close> is what a failed look-up returns.\<close>

locale object_table =
  fixes capacity :: nat
    and used :: "nat \<Rightarrow> 's \<Rightarrow> bool"
    and key :: "nat \<Rightarrow> 's \<Rightarrow> 'k"
    and alloc :: "'s \<Rightarrow> halt + nat \<times> 's"
    and lookup :: "'k \<Rightarrow> 's \<Rightarrow> int"
    and free :: "nat \<Rightarrow> 's \<Rightarrow> halt + int \<times> 's"
    and err :: int
  assumes alloc_full: "\<forall>i<capacity. used i s \<Longrightarrow> \<not> succeeds (alloc s)"
    and alloc_free: "i < capacity \<Longrightarrow> \<not> used i s \<Longrightarrow> succeeds (alloc s)"
    and alloc_slot: "alloc s = Inr (i, t) \<Longrightarrow> i < capacity \<and> \<not> used i s \<and> (\<forall>j<i. used j s)"
    and alloc_frame: "alloc s = Inr (i, t) \<Longrightarrow> used j t = (j = i \<or> used j s) \<and> key j t = key j s"
    and lookup_some: "(\<exists>i<capacity. used i s \<and> key i s = k) \<Longrightarrow>
          \<exists>i<capacity. lookup k s = int i \<and> used i s \<and> key i s = k \<and> (\<forall>j<i. \<not> (used j s \<and> key j s = k))"
    and lookup_none: "\<not> (\<exists>i<capacity. used i s \<and> key i s = k) \<Longrightarrow> lookup k s = err"
    and err_neg: "err < 0"
    and free_out: "capacity \<le> i \<Longrightarrow> i < 2 ^ 32 \<Longrightarrow> free i s = Inr (err, s)"
    and free_in: "i < capacity \<Longrightarrow> free i s = Inr (r, t) \<Longrightarrow> r = 0 \<and> used j t = (j \<noteq> i \<and> used j s)
          \<and> (j \<noteq> i \<longrightarrow> key j t = key j s)"
begin

definition used_slots :: "'s \<Rightarrow> nat set" where
  "used_slots s = {i. i < capacity \<and> used i s}"

lemma finite_used [simp]: "finite (used_slots s)"
  by (simp add: used_slots_def)

lemma alloc_used: "alloc s = Inr (i, t) \<Longrightarrow> used_slots t = insert i (used_slots s)"
  using alloc_slot alloc_frame by (auto simp: used_slots_def)

lemma alloc_card: "alloc s = Inr (i, t) \<Longrightarrow> card (used_slots t) = Suc (card (used_slots s))"
  using alloc_slot by (simp add: alloc_used) (simp add: used_slots_def)

lemma alloc_iff: "succeeds (alloc s) \<longleftrightarrow> card (used_slots s) < capacity"
proof -
  have sub: "used_slots s \<subseteq> {..<capacity}" by (auto simp: used_slots_def)
  show ?thesis
  proof (cases "\<forall>i<capacity. used i s")
    case True
    then have "used_slots s = {..<capacity}" by (auto simp: used_slots_def)
    then show ?thesis using alloc_full True by simp
  next
    case False
    then have "used_slots s \<subset> {..<capacity}" using sub by (auto simp: used_slots_def)
    then have "card (used_slots s) < capacity" by (metis card_lessThan finite_lessThan psubset_card_mono)
    then show ?thesis using False alloc_free by auto
  qed
qed

lemma free_used: "i < capacity \<Longrightarrow> free i s = Inr (r, t) \<Longrightarrow> used_slots t = used_slots s - {i}"
  using free_in by (auto simp: used_slots_def)

text \<open>A freed slot is handed out again unless an earlier one is free.\<close>

lemma alloc_after_free:
  assumes "alloc s = Inr (i, t)" and "free i t = Inr (r, u)"
  shows "\<exists>v. alloc u = Inr (i, v)"
proof -
  have i: "i < capacity" "\<not> used i s" "\<forall>j<i. used j s" using alloc_slot[OF assms(1)] by auto
  have u: "used j u = used j s" for j
    using free_in[OF i(1) assms(2), of j] alloc_frame[OF assms(1), of j] i(2) by auto
  then obtain k v where k: "alloc u = Inr (k, v)" using alloc_free[of i u] i by (auto simp: succeeds_iff)
  then have "\<not> used k u" "\<forall>j<k. used j u" using alloc_slot by auto
  then have "k = i" using i u by (metis linorder_neqE_nat)
  then show ?thesis using k by blast
qed

lemma lookup_nonneg: "0 \<le> lookup k s \<longleftrightarrow> (\<exists>i<capacity. used i s \<and> key i s = k)"
  using lookup_some[of s k] lookup_none[of s k] err_neg by (metis not_less of_nat_0_le_iff)

text \<open>An object whose key no other used slot has is found in its slot.\<close>

lemma lookup_unique:
  assumes "i < capacity" and "used i s" and "\<forall>j<capacity. used j s \<and> key j s = key i s \<longrightarrow> j = i"
  shows "lookup (key i s) s = int i"
proof -
  have "\<exists>j<capacity. used j s \<and> key j s = key i s" using assms(1,2) by blast
  then obtain j where "lookup (key i s) s = int j" "j < capacity" "used j s" "key j s = key i s"
    using lookup_some[of s "key i s"] by blast
  then show ?thesis using assms(3) by simp
qed

lemma lookup_after_free:
  assumes "i < capacity" and "\<forall>j<capacity. used j s \<and> key j s = key i s \<longrightarrow> j = i" and "free i s = Inr (r, t)"
  shows "lookup (key i s) t = err"
proof (rule lookup_none)
  show "\<not> (\<exists>j<capacity. used j t \<and> key j t = key i s)"
    using free_in[OF assms(1,3)] assms(2) by metis
qed

end
section \<open>Semaphores and shares are object tables\<close>

lemma find_upt_Some:
  "List.find P [0..<n] = Some i \<longleftrightarrow> i < n \<and> P i \<and> (\<forall>j<i. \<not> P j)"
  by (auto simp: find_Some_iff)

lemma find_upt_None: "List.find P [0..<n] = None \<longleftrightarrow> (\<forall>i<n. \<not> P i)"
  by (auto simp: find_None_iff)

lemma find_upt_ex: "\<exists>i<n. P i \<Longrightarrow> \<exists>i<n. List.find P [0..<n] = Some i \<and> P i \<and> (\<forall>j<i. \<not> P j)"
  using find_upt_None[of P n] find_upt_Some[of P n] by (cases "List.find P [0..<n]") auto

abbreviation "sem_used i s \<equiv> sem_empty (semaphores s i) = 0"
abbreviation "sem_key i s \<equiv> (sem_ownerID (semaphores s i), sem_name (semaphores s i))"
abbreviation "share_used i s \<equiv> sh_empty (shares s i) = 0"
abbreviation "share_key i s \<equiv> (sh_ownerID (shares s i), sh_name (shares s i))"

lemma slot_word: "i < (100::nat) \<Longrightarrow> unat (of_nat i :: uint32) = i" "i < 2 ^ 32 \<Longrightarrow> unat (of_nat i :: uint32) = i"
  by (simp_all add: unsigned_of_nat take_bit_nat_eq_self)

lemma slot_bound: "i < 2 ^ 32 \<Longrightarrow> (100 \<le> (of_nat i :: uint32)) = (100 \<le> i)"
  by (simp add: word_le_nat_alt slot_word)

lemma clear_frames_storage_frame:
  assumes "clear_frames_storage p s = Inr (u, t)"
  shows "semaphores t = semaphores s \<and> shares t = shares s"
proof -
  have "okE (\<lambda>t. semaphores t = semaphores s \<and> shares t = shares s)
     (foldE (\<lambda>i s. if rd s p i \<noteq> 0 then
                bindE (to_frame_info (EXTRACT_ADDRESS (rd s p i)) s) (\<lambda>f.
                bindE (free_frame f s) (\<lambda>(_, s). Inr (wr p i 0 s)))
              else Inr s) xs s)" for xs
  proof (induction xs arbitrary: s)
    case (Cons i xs)
    have *: "okE (\<lambda>t. semaphores t = semaphores s \<and> shares t = shares s)
      (if rd s p i \<noteq> 0 then bindE (to_frame_info (EXTRACT_ADDRESS (rd s p i)) s) (\<lambda>f.
         bindE (free_frame f s) (\<lambda>(_, s). Inr (wr p i 0 s))) else Inr s)" for s
      by (auto simp: okE_iff bindE_eq_Inr free_frame_def initialize_frame_info_def Let_def
          upd_fi_def wr_def split: if_splits)
    show ?case
      unfolding foldE.simps okE_bindE
      by (rule okE_weaken [OF * [of s]], rule okE_weaken [OF Cons.IH]) simp
  qed simp
  from this [of "[0..<1024]"] show ?thesis
    using assms by (auto simp: clear_frames_storage_def okE_iff bindE_eq_Inr simp del: upt_rec_numeral)
qed

interpretation sem: object_table MAX_SEMAPHORES sem_used sem_key allocate_semaphore_object
  "\<lambda>k. get_semaphore_object_ID (fst k) (snd k)" "\<lambda>i. free_semaphore_object (of_nat i)"
  E_SEMAPHORE_NOT_EXISTS
proof unfold_locales
  fix s :: kernel and k
  assume "\<exists>i<MAX_SEMAPHORES. sem_used i s \<and> sem_key i s = k"
  then have "\<exists>i<MAX_SEMAPHORES. sem_empty (semaphores s i) = 0 \<and> sem_ownerID (semaphores s i) = fst k
      \<and> snd k = sem_name (semaphores s i)" by auto
  from find_upt_ex[OF this]
  show "\<exists>i<MAX_SEMAPHORES. get_semaphore_object_ID (fst k) (snd k) s = int i \<and> sem_used i s \<and>
      sem_key i s = k \<and> (\<forall>j<i. \<not> (sem_used j s \<and> sem_key j s = k))"
    by (cases k) (auto simp: get_semaphore_object_ID_def, metis)
qed (auto simp: allocate_semaphore_object_def get_semaphore_object_ID_def free_semaphore_object_def
      find_upt_Some find_upt_None MAX_SEMAPHORES_def E_SEMAPHORE_NOT_EXISTS_def slot_bound slot_word
      split: option.splits if_splits)

interpretation share: object_table MAX_SHARES share_used share_key allocate_share_object
  "\<lambda>k. get_share_object_ID (fst k) (snd k)" "\<lambda>i. free_share_object (of_nat i)"
  E_SHARED_MEM_NOT_EXISTS
proof unfold_locales
  fix s :: kernel and k
  assume "\<exists>i<MAX_SHARES. share_used i s \<and> share_key i s = k"
  then have "\<exists>i<MAX_SHARES. sh_empty (shares s i) = 0 \<and> sh_ownerID (shares s i) = fst k
      \<and> snd k = sh_name (shares s i)" by auto
  from find_upt_ex[OF this]
  show "\<exists>i<MAX_SHARES. get_share_object_ID (fst k) (snd k) s = int i \<and> share_used i s \<and>
      share_key i s = k \<and> (\<forall>j<i. \<not> (share_used j s \<and> share_key j s = k))"
    by (cases k) (auto simp: get_share_object_ID_def, metis)
next
  fix i r j and s t :: kernel
  assume i: "i < MAX_SHARES" and f: "free_share_object (of_nat i) s = Inr (r, t)"
  have [simp]: "\<not> 100 \<le> (of_nat i :: uint32)" "unat (of_nat i :: uint32) = i"
    using i slot_bound[of i] slot_word(1)[of i] by (simp_all add: MAX_SHARES_def)
  from f obtain u v where c: "clear_frames_storage (share_storage i) s = Inr (u, v)"
      and t: "r = 0" "shares t = (shares v)(i := \<lparr>sh_ownerID = 0, sh_name = [], sh_size = 0,
        sh_references = 0, sh_isWritable = 0, sh_empty = 1\<rparr>)"
    by (auto simp: free_share_object_def MAX_SHARES_def bindE_eq_Inr wr_page_def)
  show "r = 0 \<and> share_used j t = (j \<noteq> i \<and> share_used j s) \<and> (j \<noteq> i \<longrightarrow> share_key j t = share_key j s)"
    using clear_frames_storage_frame[OF c] t by simp
qed (auto simp: allocate_share_object_def get_share_object_ID_def free_share_object_def
      find_upt_Some find_upt_None MAX_SHARES_def E_SHARED_MEM_NOT_EXISTS_def slot_bound wr_page_def
      split: option.splits if_splits)
section \<open>Releasing the frames of a share\<close>

text \<open>The frames that the entries \<open>is\<close> of a storage page name, in order.\<close>

definition stored_frames :: "kernel \<Rightarrow> nat \<Rightarrow> nat list \<Rightarrow> nat list" where
  "stored_frames s p xs = map (\<lambda>i. unat (PPN (rd s p i))) (filter (\<lambda>i. rd s p i \<noteq> 0) xs)"

lemma stored_frames_simps [simp]:
  "stored_frames s p [] = []"
  "stored_frames s p (i # xs) =
     (if rd s p i \<noteq> 0 then unat (PPN (rd s p i)) # stored_frames s p xs else stored_frames s p xs)"
  by (simp_all add: stored_frames_def)

lemma stored_frames_cong:
  "(\<And>i. i \<in> set xs \<Longrightarrow> rd t p i = rd s p i) \<Longrightarrow> stored_frames t p xs = stored_frames s p xs"
  by (induction xs) auto

lemma clear_frames_loop:
  assumes "distinct xs" and "distinct (stored_frames s p xs)"
    and "set (stored_frames s p xs) \<inter> set (free_frame_list s) = {}"
    and "\<forall>f \<in> set (stored_frames s p xs). f < number_of_frames s"
  shows "\<exists>t. foldE (\<lambda>i s. if rd s p i \<noteq> 0 then
                bindE (to_frame_info (EXTRACT_ADDRESS (rd s p i)) s) (\<lambda>f.
                bindE (free_frame f s) (\<lambda>(_, s). Inr (wr p i 0 s)))
              else Inr s) xs s = Inr t
    \<and> free_frame_list t = rev (stored_frames s p xs) @ free_frame_list s
    \<and> (\<forall>g j. rd t g j = (if g = p \<and> j \<in> set xs then 0 else rd s g j))
    \<and> (\<forall>f. frames_info t f = (if f \<in> set (stored_frames s p xs) then zero_fi else frames_info s f))"
  using assms
proof (induction xs arbitrary: s)
  case (Cons i xs)
  show ?case
  proof (cases "rd s p i = 0")
    case True
    then show ?thesis using Cons.IH[of s] Cons.prems by auto
  next
    case False
    let ?f = "unat (PPN (rd s p i))"
    let ?s = "wr p i 0 (s\<lparr>free_frame_list := ?f # free_frame_list s,
                frames_info := (frames_info s)(?f := zero_fi)\<rparr>)"
    have f: "?f < number_of_frames s" "?f \<notin> set (free_frame_list s)" "?f \<notin> set (stored_frames s p xs)"
      using Cons.prems False by auto
    have step: "bindE (to_frame_info (EXTRACT_ADDRESS (rd s p i)) s) (\<lambda>f.
                bindE (free_frame f s) (\<lambda>(_, s). Inr (wr p i 0 s))) = Inr ?s"
      using f by (simp add: to_frame_info_def free_frame_def initialize_frame_info_def upd_fi_def Let_def
          wr_def)
    have rd: "rd ?s g j = (if g = p \<and> j = i then 0 else rd s g j)" for g j
      by (simp add: rd_wr) (simp add: rd_def)
    have st: "stored_frames ?s p xs = stored_frames s p xs"
      using Cons.prems(1) by (intro stored_frames_cong) (auto simp: rd)
    have "\<exists>t. foldE (\<lambda>i s. if rd s p i \<noteq> 0 then
                bindE (to_frame_info (EXTRACT_ADDRESS (rd s p i)) s) (\<lambda>f.
                bindE (free_frame f s) (\<lambda>(_, s). Inr (wr p i 0 s)))
              else Inr s) xs ?s = Inr t
      \<and> free_frame_list t = rev (stored_frames s p xs) @ free_frame_list ?s
      \<and> (\<forall>g j. rd t g j = (if g = p \<and> j \<in> set xs then 0 else rd ?s g j))
      \<and> (\<forall>f. frames_info t f = (if f \<in> set (stored_frames s p xs) then zero_fi else frames_info ?s f))"
      using Cons.IH[of ?s] Cons.prems f False unfolding st by (simp add: wr_def)
    then obtain t where t: "foldE (\<lambda>i s. if rd s p i \<noteq> 0 then
                bindE (to_frame_info (EXTRACT_ADDRESS (rd s p i)) s) (\<lambda>f.
                bindE (free_frame f s) (\<lambda>(_, s). Inr (wr p i 0 s)))
              else Inr s) xs ?s = Inr t"
      "free_frame_list t = rev (stored_frames s p xs) @ free_frame_list ?s"
      "\<And>g j. rd t g j = (if g = p \<and> j \<in> set xs then 0 else rd ?s g j)"
      "\<And>f. frames_info t f = (if f \<in> set (stored_frames s p xs) then zero_fi else frames_info ?s f)"
      by blast
    have 1: "free_frame_list t = rev (stored_frames s p (i # xs)) @ free_frame_list s"
      using t(2) False by (simp add: wr_def)
    have 2: "rd t g j = (if g = p \<and> j \<in> set (i # xs) then 0 else rd s g j)" for g j
      unfolding t(3) [of g j] rd [of g j] by auto
    have 3: "frames_info t f = (if f \<in> set (stored_frames s p (i # xs)) then zero_fi else frames_info s f)" for f
      using t(4)[of f] False by (simp add: wr_def)
    show ?thesis
      using 1 2 3 t(1) step False by (intro exI [of _ t]) simp
  qed
qed simp

lemma clear_frames_storage_releases:
  assumes "distinct (stored_frames s p [0..<1024])"
    and "set (stored_frames s p [0..<1024]) \<inter> set (free_frame_list s) = {}"
    and "\<forall>f \<in> set (stored_frames s p [0..<1024]). f < number_of_frames s"
  shows "\<exists>t. clear_frames_storage p s = Inr ((), t)
    \<and> free_frame_list t = rev (stored_frames s p [0..<1024]) @ free_frame_list s
    \<and> (\<forall>g j. rd t g j = (if g = p \<and> j < 1024 then 0 else rd s g j))
    \<and> (\<forall>f. frames_info t f = (if f \<in> set (stored_frames s p [0..<1024]) then zero_fi else frames_info s f))"
  using clear_frames_loop[OF distinct_upt assms]
  by (auto simp: clear_frames_storage_def simp del: upt_rec_numeral)

section \<open>Properties\<close>

text \<open>C33: a semaphore that was allocated and given an owner and a name that no other semaphore
  in use has is found under them. Freeing it succeeds, it is not found any more, no other semaphore
  has changed in the whole sequence, and the next allocation returns the same slot.\<close>

theorem semaphore_alloc_get_free:
  assumes "allocate_semaphore_object s = Inr (i, t)"
    and "\<forall>j<MAX_SEMAPHORES. \<not> (sem_empty (semaphores s j) = 0
           \<and> sem_ownerID (semaphores s j) = owner \<and> sem_name (semaphores s j) = name)"
    and "u = t\<lparr>semaphores := (semaphores t)(i :=
               (semaphores t i)\<lparr>sem_ownerID := owner, sem_name := name\<rparr>)\<rparr>"
  shows "get_semaphore_object_ID owner name u = int i
    \<and> (\<exists>v w. free_semaphore_object (of_nat i) u = Inr (0, v)
         \<and> get_semaphore_object_ID owner name v = E_SEMAPHORE_NOT_EXISTS
         \<and> (\<forall>j. j \<noteq> i \<longrightarrow> semaphores v j = semaphores s j)
         \<and> allocate_semaphore_object v = Inr (i, w))"
proof -
  have t: "t = s\<lparr>semaphores := (semaphores s)(i := (semaphores s i)\<lparr>sem_empty := 0\<rparr>)\<rparr>"
    using assms(1) by (auto simp: allocate_semaphore_object_def split: option.splits)
  have slot: "i < MAX_SEMAPHORES" "\<forall>j<i. sem_used j s" using sem.alloc_slot[OF assms(1)] by auto
  have k: "sem_key i u = (owner, name)" "sem_used i u" and o: "\<And>j. j \<noteq> i \<Longrightarrow> semaphores u j = semaphores s j"
    by (simp_all add: assms(3) t)
  have uniq: "\<forall>j<MAX_SEMAPHORES. sem_used j u \<and> sem_key j u = sem_key i u \<longrightarrow> j = i"
    using assms(2) o k(1) by (metis prod.inject)
  have g: "get_semaphore_object_ID owner name u = int i"
    using sem.lookup_unique[OF slot(1) k(2) uniq] k(1) by simp
  obtain v where v: "free_semaphore_object (of_nat i) u = Inr (0, v)"
    "semaphores v = (semaphores u)(i := \<lparr>sem_ownerID = 0, sem_name = [], sem_queue = [], sem_value = 0, sem_empty = 1\<rparr>)"
    using slot(1) slot_bound[of i] slot_word(1)[of i]
    by (auto simp: free_semaphore_object_def MAX_SEMAPHORES_def)
  have n: "get_semaphore_object_ID owner name v = E_SEMAPHORE_NOT_EXISTS"
    using sem.lookup_after_free[OF slot(1) uniq v(1)] k(1) by simp
  have used: "\<forall>j<i. sem_used j v" "\<not> sem_used i v" using slot o v(2) by auto
  obtain k w where w: "allocate_semaphore_object v = Inr (k, w)"
    using sem.alloc_free[OF slot(1) used(2)] by (auto simp: succeeds_iff)
  moreover have "k = i" using sem.alloc_slot[OF w] used by (metis linorder_neqE_nat)
  ultimately show ?thesis using g n v o by (intro conjI exI [of _ v] exI [of _ w]) auto
qed

theorem semaphore_alloc_get_free_witness:
  "\<exists>t u. allocate_semaphore_object tiny = Inr (0, t)
     \<and> u = t\<lparr>semaphores := (semaphores t)(0 :=
               (semaphores t 0)\<lparr>sem_ownerID := 5, sem_name := ''mutex''\<rparr>)\<rparr>
     \<and> get_semaphore_object_ID 5 ''mutex'' u = int 0"
proof -
  have a: "allocate_semaphore_object tiny = Inr (0,
      tiny\<lparr>semaphores := (semaphores tiny)(0 := (semaphores tiny 0)\<lparr>sem_empty := 0\<rparr>)\<rparr>)"
  proof -
    have "List.find (\<lambda>i. sem_empty (semaphores tiny i) \<noteq> 0) [0..<MAX_SEMAPHORES] = Some 0"
      by (simp add: find_upt_Some MAX_SEMAPHORES_def tiny_def)
    then show ?thesis by (simp only: allocate_semaphore_object_def option.case)
  qed
  have n: "\<forall>j<MAX_SEMAPHORES. \<not> (sem_empty (semaphores tiny j) = 0
           \<and> sem_ownerID (semaphores tiny j) = 5 \<and> sem_name (semaphores tiny j) = ''mutex'')"
    by (simp add: tiny_def)
  show ?thesis
    using a semaphore_alloc_get_free[OF a n refl] by blast
qed

text \<open>Allocation succeeds exactly when fewer than 100 semaphores are in use. As long as the
  kernel runs without its heap nothing marks the slots of the zero-initialised array as empty
  (\<open>create_semaphores_array\<close> panics), so with that array allocation always panics.\<close>

theorem semaphore_alloc_succeeds_iff:
  "(succeeds (allocate_semaphore_object s) \<longleftrightarrow>
      card {i. i < MAX_SEMAPHORES \<and> sem_empty (semaphores s i) = 0} < MAX_SEMAPHORES)
   \<and> \<not> succeeds (create_semaphores_array n s)
   \<and> allocate_semaphore_object (s\<lparr>semaphores := (\<lambda>_. \<lparr>sem_ownerID = 0, sem_name = [],
        sem_queue = [], sem_value = 0, sem_empty = 0\<rparr>)\<rparr>)
     = Inl (Panic ''Attempt to dynamically allocate space inside kernel while kheap is disabled .. '')"
proof -
  have 1: "succeeds (allocate_semaphore_object s) \<longleftrightarrow>
      card {i. i < MAX_SEMAPHORES \<and> sem_empty (semaphores s i) = 0} < MAX_SEMAPHORES"
    using sem.alloc_iff[of s] by (simp only: sem.used_slots_def)
  show ?thesis
    unfolding 1 by (simp add: create_semaphores_array_def allocate_semaphore_object_def find_upt_None
        split: option.splits)
qed

text \<open>Freeing a shared object whose storage names pairwise different frames of the machine
  that are not free puts exactly these frames on the free list, clears their information and the
  storage, and marks the slot as empty; other objects and other memory stay as they were.\<close>

theorem free_share_object_releases:
  assumes "i < MAX_SHARES"
    and "distinct (stored_frames s (share_storage i) [0..<1024])"
    and "set (stored_frames s (share_storage i) [0..<1024]) \<inter> set (free_frame_list s) = {}"
    and "\<forall>f \<in> set (stored_frames s (share_storage i) [0..<1024]). f < number_of_frames s"
  shows "\<exists>t. free_share_object (of_nat i) s = Inr (0, t)
    \<and> free_frame_list t = rev (stored_frames s (share_storage i) [0..<1024]) @ free_frame_list s
    \<and> (\<forall>f. frames_info t f = (if f \<in> set (stored_frames s (share_storage i) [0..<1024]) then zero_fi
                                else frames_info s f))
    \<and> (\<forall>j. rd t (share_storage i) j = 0) \<and> sh_empty (shares t i) = 1
    \<and> (\<forall>k. k \<noteq> i \<longrightarrow> shares t k = shares s k)
    \<and> (\<forall>g j. g \<noteq> share_storage i \<longrightarrow> rd t g j = rd s g j)"
proof -
  obtain u where u: "clear_frames_storage (share_storage i) s = Inr ((), u)"
    "free_frame_list u = rev (stored_frames s (share_storage i) [0..<1024]) @ free_frame_list s"
    "\<And>g j. rd u g j = (if g = share_storage i \<and> j < 1024 then 0 else rd s g j)"
    "\<And>f. frames_info u f = (if f \<in> set (stored_frames s (share_storage i) [0..<1024]) then zero_fi
           else frames_info s f)"
    using clear_frames_storage_releases[OF assms(2-4)] by blast
  have w: "\<not> 100 \<le> (of_nat i :: uint32)" "unat (of_nat i :: uint32) = i"
    using assms(1) slot_bound[of i] slot_word(1)[of i] by (simp_all add: MAX_SHARES_def)
  let ?t = "wr_page (share_storage i) zero_page (u\<lparr>shares := (shares u)(i :=
             \<lparr>sh_ownerID = 0, sh_name = [], sh_size = 0, sh_references = 0, sh_isWritable = 0,
              sh_empty = 1\<rparr>)\<rparr>)"
  have r: "free_share_object (of_nat i) s = Inr (0, ?t)"
    using w u(1) by (simp add: free_share_object_def MAX_SHARES_def)
  have rd: "rd ?t g j = (if g = share_storage i then 0 else rd s g j)" for g j
    using u(3)[of g j] by (simp add: rd_wr_page zero_page_def) (simp add: rd_def)
  show ?thesis
    using r rd u(2,4) clear_frames_storage_frame[OF u(1)]
    by (intro exI [of _ ?t]) (simp add: wr_page_def)
qed

theorem free_share_object_releases_witness:
  "\<exists>t. free_share_object 2 (wr (share_storage 2) 0 0x3007 tiny) = Inr (0, t)
     \<and> 3 \<in> set (free_frame_list t)"
proof -
  let ?s = "wr (share_storage 2) 0 0x3007 tiny"
  have rd: "rd ?s (share_storage 2) i = (if i = 0 then 0x3007 else 0)" for i
    by (simp add: rd_wr) (simp add: rd_def tiny_def)
  have "filter (\<lambda>i. rd ?s (share_storage 2) i \<noteq> 0) (0 # [Suc 0..<1024]) = [0]"
    by (auto simp add: rd simp del: upt_rec_numeral)
  moreover have "[0..<1024::nat] = 0 # [Suc 0..<1024]" by (rule upt_conv_Cons) simp
  ultimately have st: "stored_frames ?s (share_storage 2) [0..<1024] = [3]"
    by (simp only: stored_frames_def) (simp add: rd PPN_def)
  have h: "2 < MAX_SHARES" "free_frame_list ?s = [4, 5, 6, 7, 8, 9, 10, 11, 12, 13, 14, 15]"
    "number_of_frames ?s = 16"
    by (simp_all add: MAX_SHARES_def wr_def tiny_def)
  have d: "distinct (stored_frames ?s (share_storage 2) [0..<1024])"
    "set (stored_frames ?s (share_storage 2) [0..<1024]) \<inter> set (free_frame_list ?s) = {}"
    "\<forall>f \<in> set (stored_frames ?s (share_storage 2) [0..<1024]). f < number_of_frames ?s"
    unfolding st h(2,3) by simp_all
  obtain t where "free_share_object (of_nat 2) ?s = Inr (0, t)"
    "free_frame_list t = rev (stored_frames ?s (share_storage 2) [0..<1024]) @ free_frame_list ?s"
    using free_share_object_releases[OF h(1) d] by blast
  then show ?thesis unfolding st by (intro exI [of _ t]) simp
qed

end
