(* ===== verification/Program_Loader.thy ===== *)
theory Program_Loader
  imports Env_Manager
begin

text \<open>
  Creating an environment from a program linked into the kernel (\<^verbatim>\<open>kern/user_environment.c\<close>,
  \<^verbatim>\<open>inc/elf.h\<close>): the ELF headers, the segments to load, the pages of a segment that go to memory
  and the ones that go to the page file, and \<open>env_create\<close>. The image is \<open>kimage\<close>, bytes by kernel
  address; the loader never writes to it. \<open>segment_writes\<close> is the sequence of page-file writes of
  one segment, in the order of the code, and the lemmas compare it with the image the segment
  describes.
\<close>

section \<open>The program images\<close>

text \<open>A page given by its bytes.\<close>

definition bytes_page :: "(nat \<Rightarrow> uint8) \<Rightarrow> nat \<Rightarrow> uint32" where
  "bytes_page f i = word_of_bytes (f (4 * i)) (f (4 * i + 1)) (f (4 * i + 2)) (f (4 * i + 3))"

definition img32 :: "kernel \<Rightarrow> uint32 \<Rightarrow> uint32" where
  "img32 s a = word_of_bytes (kimage s a) (kimage s (a + 1)) (kimage s (a + 2)) (kimage s (a + 3))"

definition img16 :: "kernel \<Rightarrow> uint32 \<Rightarrow> uint32" where
  "img16 s a = word_of_bytes (kimage s a) (kimage s (a + 1)) 0 0"

text \<open>A byte that the kernel stores at a user address, through the page tables in \<open>CR3\<close>.\<close>

definition cpu_store_byte :: "uint32 \<Rightarrow> uint8 \<Rightarrow> kernel \<Rightarrow> halt + kernel" where
  "cpu_store_byte va b s =
     (let pd = unat (PPN (cr3 s)); pde = rd s pd (pdx va) in
      if \<not> present pde \<or> pde AND PERM_WRITEABLE = 0 then Inl PageFault
      else let t = unat (PPN pde); pte = rd s t (ptx va) in
        if \<not> present pte \<or> pte AND PERM_WRITEABLE = 0 then Inl PageFault
        else let s = wr pd (pdx va) (pde OR PERM_USED) s;
                 s = wr t (ptx va) (pte OR PERM_USED OR PERM_MODIFIED) s;
                 f = unat (PPN pte); off = unat (PGOFF va)
             in Inr (wr f (off div 4) (set_byte (off mod 4) b (rd s f (off div 4))) s))"

section \<open>Program headers\<close>

definition ELF_MAGIC :: uint32 where "ELF_MAGIC = 0x464C457F"
definition ELF_PROG_LOAD :: uint32 where "ELF_PROG_LOAD = 1"

record elf =
  e_magic :: uint32
  e_entry :: uint32
  e_phoff :: uint32
  e_phnum :: uint32

definition elf_at :: "kernel \<Rightarrow> uint32 \<Rightarrow> elf" where
  "elf_at s p = \<lparr>e_magic = img32 s p, e_entry = img32 s (p + 24), e_phoff = img32 s (p + 28),
     e_phnum = img16 s (p + 44)\<rparr>"

record proghdr =
  p_type :: uint32
  p_offset :: uint32
  p_va :: uint32
  p_filesz :: uint32
  p_memsz :: uint32

text \<open>\<open>sizeof(struct Proghdr)\<close> is 32.\<close>

definition proghdr_at :: "kernel \<Rightarrow> uint32 \<Rightarrow> uint32 \<Rightarrow> proghdr" where
  "proghdr_at s ph i = (let a = ph + 32 * i in
     \<lparr>p_type = img32 s a, p_offset = img32 s (a + 4), p_va = img32 s (a + 8),
      p_filesz = img32 s (a + 16), p_memsz = img32 s (a + 20)\<rparr>)"

record program_segment =
  ptr_start :: uint32
  size_in_file :: uint32
  size_in_memory :: uint32
  virtual_address :: uint32
  segment_id :: uint32

definition mk_segment :: "uint32 \<Rightarrow> uint32 \<Rightarrow> proghdr \<Rightarrow> program_segment" where
  "mk_segment ptr_program_start index ph =
     \<lparr>ptr_start = ptr_program_start + p_offset ph, size_in_file = p_filesz ph,
      size_in_memory = p_memsz ph, virtual_address = p_va ph, segment_id = index\<rparr>"

text \<open>The loop \<open>while (ph[id].p_type != ELF_PROG_LOAD && id < e_phnum) id++\<close>.\<close>

function skip_to_load :: "kernel \<Rightarrow> uint32 \<Rightarrow> uint32 \<Rightarrow> uint32 \<Rightarrow> uint32" where
  "skip_to_load s ph phnum i =
     (if p_type (proghdr_at s ph i) \<noteq> ELF_PROG_LOAD \<and> i < phnum
      then skip_to_load s ph phnum (i + 1) else i)"
  by auto

lemma next_word: "i < n \<Longrightarrow> unat (i + 1) = Suc (unat i)" for i n :: uint32
proof -
  assume "i < n"
  then have "Suc (unat i) < 2 ^ 32"
    using unsigned_less [of n, where ?'a = nat] by (simp add: word_less_nat_alt)
  then show ?thesis by (simp add: unat_word_ariths)
qed

termination skip_to_load
  by (relation "measure (\<lambda>(s, ph, phnum, i). unat phnum - unat i)")
    (auto simp: word_less_nat_alt next_word intro!: diff_less_mono2)

definition elf_panic :: "halt" where "elf_panic = Panic ''Matafa2nash 3ala Keda''"

definition segment_from :: "kernel \<Rightarrow> uint32 \<Rightarrow> uint32 \<Rightarrow> program_segment option" where
  "segment_from s ptr_program_start i =
     (let h = elf_at s ptr_program_start; ph = ptr_program_start + e_phoff h;
          index = skip_to_load s ph (e_phnum h) i in
      if index < e_phnum h then Some (mk_segment ptr_program_start index (proghdr_at s ph index))
      else None)"

text \<open>\<open>PROGRAM_SEGMENT_FIRST\<close> returns \<open>segment_id = -1\<close> when there is none; the macro
  \<open>PROGRAM_SEGMENT_FOREACH\<close> turns that into a null pointer, as here.\<close>

definition PROGRAM_SEGMENT_FIRST :: "uint32 \<Rightarrow> kernel \<Rightarrow> halt + program_segment option" where
  "PROGRAM_SEGMENT_FIRST ptr_program_start s =
     (if e_magic (elf_at s ptr_program_start) \<noteq> ELF_MAGIC then Inl elf_panic
      else Inr (segment_from s ptr_program_start 0))"

definition PROGRAM_SEGMENT_NEXT ::
  "program_segment \<Rightarrow> uint32 \<Rightarrow> kernel \<Rightarrow> halt + program_segment option" where
  "PROGRAM_SEGMENT_NEXT seg ptr_program_start s =
     (if e_magic (elf_at s ptr_program_start) \<noteq> ELF_MAGIC then Inl elf_panic
      else Inr (segment_from s ptr_program_start (segment_id seg + 1)))"

text \<open>The macro \<open>PROGRAM_SEGMENT_FOREACH\<close>; \<open>foreach_segment_all\<close> shows that fuel \<open>e_phnum\<close> is enough.\<close>

fun foreach_segment ::
  "nat \<Rightarrow> uint32 \<Rightarrow> (program_segment \<Rightarrow> 'a \<times> kernel \<Rightarrow> halt + 'a \<times> kernel) \<Rightarrow>
    program_segment option \<Rightarrow> 'a \<times> kernel \<Rightarrow> halt + 'a \<times> kernel" where
  "foreach_segment n start body None a = Inr a"
| "foreach_segment 0 start body (Some seg) a = Inl OutOfFuel"
| "foreach_segment (Suc n) start body (Some seg) a =
     bindE (body seg a) (\<lambda>a.
     bindE (PROGRAM_SEGMENT_NEXT seg start (snd a)) (\<lambda>nxt. foreach_segment n start body nxt a))"

section \<open>Programs by name\<close>

definition get_user_program_info :: "string \<Rightarrow> kernel \<Rightarrow> (string \<times> uint32) option" where
  "get_user_program_info name s = find (\<lambda>p. name = fst p) (userPrograms s)"

definition get_user_program_info_by_env :: "nat \<Rightarrow> kernel \<Rightarrow> (string \<times> uint32) option" where
  "get_user_program_info_by_env e s = find (\<lambda>p. prog_name (envs s e) = fst p) (userPrograms s)"

definition set_environment_entry_point :: "nat \<Rightarrow> uint32 \<Rightarrow> kernel \<Rightarrow> unit result" where
  "set_environment_entry_point e ptr_program_start s =
     (if e_magic (elf_at s ptr_program_start) \<noteq> ELF_MAGIC then Inl elf_panic
      else Inr ((), upd_env e (\<lambda>en. en\<lparr>env_tf := (env_tf en)\<lparr>tf_eip := e_entry (elf_at s ptr_program_start)\<rparr>\<rparr>) s))"
section \<open>The pages of a segment that are loaded into memory\<close>

text \<open>\<open>index %= size\<close> traps when the size is 0.\<close>

definition next_ws_index :: "nat \<Rightarrow> kernel \<Rightarrow> halt + kernel" where
  "next_ws_index e s =
     (if page_WS_max_size (envs s e) = 0 then Inl (Panic ''division by zero'')
      else Inr (upd_env e (\<lambda>en. en\<lparr>page_last_WS_index :=
                  (page_last_WS_index en + 1) mod page_WS_max_size en\<rparr>) s))"

text \<open>The new element leaves \<open>PageWorkingSetList\<close> for the active list while that has fewer than \<open>room\<close>
  elements, else for the second list. \<open>LIST_SIZE\<close> is unsigned, so the comparison is.\<close>

definition enter_lists :: "nat \<Rightarrow> nat \<Rightarrow> int \<Rightarrow> kernel \<Rightarrow> halt + kernel" where
  "enter_lists e i room s =
     (if PageRepAlgoType (cfg s) = PG_REP_LRU_LISTS_APPROX then
        bindE (lst_remove i (PageWorkingSetList (envs s e))) (\<lambda>w.
        let s = upd_env e (\<lambda>en. en\<lparr>PageWorkingSetList := w\<rparr>) s in
        if (of_nat (length (ActiveList (envs s e))) :: uint32) < of_int room then
          bindE (lst_insert_head i (ActiveList (envs s e))) (\<lambda>a. Inr (upd_env e (\<lambda>en. en\<lparr>ActiveList := a\<rparr>) s))
        else
          bindE (lst_insert_head i (SecondList (envs s e))) (\<lambda>d. Inr (upd_env e (\<lambda>en. en\<lparr>SecondList := d\<rparr>) s)))
      else Inr s)"

text \<open>One page at \<open>iVA\<close>; the state is the number of the last table and the kernel.\<close>

definition load_page :: "nat \<Rightarrow> uint32 \<Rightarrow> uint32 \<times> kernel \<Rightarrow> halt + uint32 \<times> kernel" where
  "load_page e iVA = (\<lambda>(lastTableNumber, s).
     bindE (allocate_frame s) (\<lambda>(p, s).
     bindE (deref (env_page_directory (envs s e))) (\<lambda>pd.
     bindE (loadtime_map_frame pd p iVA (PERM_USER OR PERM_WRITEABLE) s) (\<lambda>(_, s).
     let i = page_last_WS_index (envs s e) in
     if PWS_MAX_SIZE \<le> i then Inl OutOfBounds
     else
       let s = upd_env e (set_ws i iVA 0) s in
       bindE (enter_lists e i (ActiveListSize (envs s e) - 1) s) (\<lambda>s.
       bindE (next_ws_index e s) (\<lambda>s.
       if PDX iVA \<noteq> lastTableNumber then
         (let s = upd_env e (addTableToTableWorkingSet (ROUNDDOWN iVA (PAGE_SIZE * 1024))) s in
          if table_last_WS_index (envs s e) = 0
          then Inl (Panic ''env_create: Table working set become FULL during the application loading. Please increase the table working set size to be able to load the program successfully'')
          else Inr (PDX iVA, s))
       else Inr (lastTableNumber, s)))))))"

fun store_image :: "nat \<Rightarrow> uint32 \<Rightarrow> uint32 \<Rightarrow> kernel \<Rightarrow> halt + kernel" where
  "store_image 0 dst src s = Inr s"
| "store_image (Suc n) dst src s =
     bindE (cpu_store_byte dst (kimage s src) s) (store_image n (dst + 1) (src + 1))"

fun store_zeros :: "nat \<Rightarrow> uint32 \<Rightarrow> kernel \<Rightarrow> halt + kernel" where
  "store_zeros 0 dst s = Inr s"
| "store_zeros (Suc n) dst s = bindE (cpu_store_byte dst 0 s) (store_zeros n (dst + 1))"

text \<open>
  The number of pages is the number of passes through
  \<open>for (; iVA < end_vaddr && i < remaining_ws_pages; i++, iVA += PAGE_SIZE)\<close>, whose bounds are
  page aligned; the number of bytes that of the two copy loops, whose counter \<open>dst_ptr\<close> runs up by
  one to the smaller of the two limits. The result pairs \<open>*allocated_pages\<close> with \<open>*lastTableNumber\<close>.
\<close>

definition program_segment_alloc_map_copy_workingset ::
  "nat \<Rightarrow> program_segment \<Rightarrow> uint32 \<Rightarrow> uint32 \<Rightarrow> kernel \<Rightarrow> (uint32 \<times> uint32) result" where
  "program_segment_alloc_map_copy_workingset e seg remaining_ws_pages lastTableNumber s =
     (let vaddr = virtual_address seg;
          end_vaddr = ROUNDUP (vaddr + size_in_memory seg) PAGE_SIZE;
          iVA = ROUNDDOWN vaddr PAGE_SIZE;
          remaining = (if iVA = 0x200000 \<and> prog_name (envs s e) \<noteq> ''tpp''
                       then (if remaining_ws_pages < 6 then remaining_ws_pages else 6)
                       else remaining_ws_pages);
          n = (if iVA < end_vaddr then min (unat ((end_vaddr - iVA) div PAGE_SIZE)) (unat remaining) else 0);
          allocated_pages = (of_nat n :: uint32);
          mem_end = iVA + allocated_pages * PAGE_SIZE;
          file_end = min mem_end (vaddr + size_in_file seg);
          n_file = (if vaddr < file_end then unat (file_end - vaddr) else 0);
          dst = vaddr + of_nat n_file;
          n_zero = (if dst < mem_end then unat (mem_end - dst) else 0) in
      bindE (foldE (\<lambda>k. load_page e (iVA + of_nat k * PAGE_SIZE)) [0..<n] (lastTableNumber, s)) (\<lambda>(lastTableNumber, s).
      bindE (store_image n_file vaddr (ptr_start seg) s) (\<lambda>s.
      bindE (store_zeros n_zero dst s) (\<lambda>s.
      Inr ((allocated_pages, lastTableNumber), s)))))"

section \<open>The pages of a segment that are written to the page file\<close>

text \<open>
  A page comes from the temporary page, which is built first, straight from the image, or from
  the zero page. \<open>image_bytes s off n src\<close> is the content of the temporary page after it was cleared
  and \<open>n\<close> bytes from \<open>src\<close> were copied to offset \<open>off\<close>.
\<close>

datatype page_source = Temp "nat \<Rightarrow> uint8" | Image uint32 | Zero

definition image_bytes :: "kernel \<Rightarrow> nat \<Rightarrow> nat \<Rightarrow> uint32 \<Rightarrow> nat \<Rightarrow> uint8" where
  "image_bytes s off n src j = (if off \<le> j \<and> j < off + n then kimage s (src + of_nat (j - off)) else 0)"

definition segment_writes :: "kernel \<Rightarrow> program_segment \<Rightarrow> (uint32 \<times> page_source) list" where
  "segment_writes s seg =
     (let seg_va = virtual_address seg;
          start_first_page = ROUNDDOWN seg_va PAGE_SIZE;
          end_first_page = ROUNDUP seg_va PAGE_SIZE;
          offset_first_page = unat (seg_va - start_first_page);
          n_first = (if seg_va < end_first_page then unat (end_first_page - seg_va) else 0);
          src1 = ptr_start seg + of_nat n_first;
          start_last_page = ROUNDDOWN (seg_va + size_in_file seg) PAGE_SIZE;
          end_last_page = seg_va + size_in_file seg;
          n_mid = (if end_first_page < start_last_page
                   then unat ((start_last_page - end_first_page) div PAGE_SIZE) else 0);
          src2 = src1 + of_nat n_mid * PAGE_SIZE;
          n_last = (if start_last_page < end_last_page then unat (end_last_page - start_last_page) else 0);
          start_remaining_area = ROUNDUP (seg_va + size_in_file seg) PAGE_SIZE;
          remainingLength = (seg_va + size_in_memory seg) - start_remaining_area;
          n_zero = unat (ROUNDUP remainingLength PAGE_SIZE div PAGE_SIZE)
      in [(start_first_page, Temp (image_bytes s offset_first_page n_first (ptr_start seg)))]
         @ map (\<lambda>k. (end_first_page + of_nat k * PAGE_SIZE, Image (src1 + of_nat k * PAGE_SIZE))) [0..<n_mid]
         @ [(start_last_page, Temp (image_bytes s 0 n_last src2))]
         @ map (\<lambda>k. (start_remaining_area + of_nat k * PAGE_SIZE, Zero)) [0..<n_zero])"

definition write_segment_page :: "nat \<Rightarrow> uint32 \<times> page_source \<Rightarrow> kernel \<Rightarrow> halt + kernel" where
  "write_segment_page e = (\<lambda>(va, src) s.
     bindE (case src of
              Temp f \<Rightarrow> (let s = wr_page ptr_temp_page (bytes_page f) s in pf_add_env_page e va (pmem s ptr_temp_page) s)
            | Image a \<Rightarrow> pf_add_env_page e va (bytes_page (\<lambda>j. kimage s (a + of_nat j))) s
            | Zero \<Rightarrow> pf_add_empty_env_page e va True s) (\<lambda>(r, s).
     if r = E_NO_PAGE_FILE_SPACE
     then Inl (Panic ''ERROR: Page File OUT OF SPACE. can't load the program in Page file!!'')
     else Inr s))"

section \<open>env_create\<close>

definition PROGNAMELEN :: nat where "PROGNAMELEN = 64"
definition DEFAULT_PERCENT_OF_PAGE_WS_TO_REMOVE :: uint32 where
  "DEFAULT_PERCENT_OF_PAGE_WS_TO_REMOVE = 10"

text \<open>The body of the loop over the segments; the first component of the state holds
  \<open>remaining_ws_pages\<close> and \<open>lastTableNumber\<close>.\<close>

definition load_segment ::
  "nat \<Rightarrow> program_segment \<Rightarrow> (uint32 \<times> uint32) \<times> kernel \<Rightarrow> halt + (uint32 \<times> uint32) \<times> kernel" where
  "load_segment e seg = (\<lambda>((remaining_ws_pages, lastTableNumber), s).
     bindE (program_segment_alloc_map_copy_workingset e seg remaining_ws_pages lastTableNumber s)
       (\<lambda>((allocated_pages, lastTableNumber), s).
     bindE (foldE (write_segment_page e) (segment_writes s seg) s) (\<lambda>s.
     Inr ((remaining_ws_pages - allocated_pages, lastTableNumber), s))))"

definition clear_modified :: "nat \<Rightarrow> nat \<Rightarrow> kernel \<Rightarrow> halt + kernel" where
  "clear_modified e i s =
     (if PWS_MAX_SIZE \<le> i then Inl OutOfBounds
      else if ws_empty (ptr_pageWorkingSet (envs s e) i) = 0 then
        bindE (deref (env_page_directory (envs s e))) (\<lambda>pd.
        let va = ws_va (ptr_pageWorkingSet (envs s e) i) in
        bindE (get_page_table pd va s) (\<lambda>((r, pt), s).
        bindE (deref pt) (\<lambda>t. Inr (wr t (ptx va) (rd s t (ptx va) AND NOT PERM_MODIFIED) s))))
      else Inr s)"

text \<open>The stack page: the loop over \<open>stackVa\<close> runs once.\<close>

definition create_stack_page :: "nat \<Rightarrow> kernel \<Rightarrow> halt + kernel" where
  "create_stack_page e s =
     (let stackVa = USTACKTOP - PAGE_SIZE in
      bindE (allocate_frame s) (\<lambda>(pp, s).
      bindE (deref (env_page_directory (envs s e))) (\<lambda>pd.
      bindE (loadtime_map_frame pd pp stackVa (PERM_USER OR PERM_WRITEABLE) s) (\<lambda>(_, s).
      bindE (cpu_write_page stackVa zero_page s) (\<lambda>(_, s).
      let i = page_last_WS_index (envs s e) in
      bindE (env_page_ws_set_entry i stackVa (envs s e)) (\<lambda>en.
      let s = upd_env e (\<lambda>_. en) s in
      bindE (enter_lists e i (ActiveListSize (envs s e)) s) (\<lambda>s.
      bindE (next_ws_index e s) (\<lambda>s.
      bindE (pf_add_empty_env_page e stackVa True s) (\<lambda>(_, s). Inr s)))))))))"

definition hide_second_list :: "nat \<Rightarrow> kernel \<Rightarrow> halt + kernel" where
  "hide_second_list e s =
     (if PageRepAlgoType (cfg s) = PG_REP_LRU_LISTS_APPROX then
        foldE (\<lambda>w s. bindE (pt_set_page_permissions e (ws_va (ptr_pageWorkingSet (envs s e) w)) 0 PERM_PRESENT s)
                        (\<lambda>(_, s). Inr s)) (SecondList (envs s e)) s
      else Inr s)"

definition env_create :: "string \<Rightarrow> uint32 \<Rightarrow> uint32 \<Rightarrow> uint32 \<Rightarrow> kernel \<Rightarrow> nat option result" where
  "env_create user_program_name page_WS_size LRU_second_list_size percent_WS_pages_to_remove s =
     (case get_user_program_info user_program_name s of
        None \<Rightarrow> Inr (None, s)
      | Some (name, ptr_program_start) \<Rightarrow>
          bindE (allocate_environment s) (\<lambda>((r, ep), s).
          if r < 0 then Inr (None, s)
          else
            bindE (deref ep) (\<lambda>e.
            let s = upd_env e (\<lambda>en. en\<lparr>prog_name :=
                  (if length name < PROGNAMELEN then name else take (PROGNAMELEN - 1) name)\<rparr>) s in
            bindE (allocate_frame s) (\<lambda>(p, s).
            let s = upd_fi p (\<lambda>i. i\<lparr>references := 1\<rparr>) s in
            bindE (STATIC_KERNEL_VIRTUAL_ADDRESS (to_physical_address p) s) (\<lambda>pd.
            let s = upd_env e (\<lambda>en. en\<lparr>page_WS_max_size := unat page_WS_size\<rparr>) s;
                s = (if PageRepAlgoType (cfg s) = PG_REP_LRU_LISTS_APPROX then
                       upd_env e (\<lambda>en. en\<lparr>SecondListSize := sint LRU_second_list_size,
                         ActiveListSize := sint (page_WS_size - LRU_second_list_size)\<rparr>) s
                     else s);
                s = upd_env e (\<lambda>en. en\<lparr>percentage_of_WS_pages_to_be_removed :=
                      (if percent_WS_pages_to_remove = 0 then DEFAULT_PERCENT_OF_PAGE_WS_TO_REMOVE
                       else percent_WS_pages_to_remove)\<rparr>) s in
            bindE (initialize_environment e pd (to_physical_address p) s) (\<lambda>(_, s).
            let kern_phys_pgdir = cr3 s;
                s = s\<lparr>cr3 := env_cr3 (envs s e)\<rparr> in
            bindE (PROGRAM_SEGMENT_FIRST ptr_program_start s) (\<lambda>seg.
            bindE (foreach_segment (unat (e_phnum (elf_at s ptr_program_start))) ptr_program_start
                     (load_segment e) seg ((page_WS_size - 1, 0xFFFFFFFF), s)) (\<lambda>(_, s).
            bindE (foldE (clear_modified e) [0..<page_WS_max_size (envs s e)] s) (\<lambda>s.
            bindE (set_environment_entry_point e ptr_program_start s) (\<lambda>(_, s).
            bindE (create_stack_page e s) (\<lambda>s.
            bindE (hide_second_list e s) (\<lambda>s.
            Inr (Some e, s\<lparr>cr3 := kern_phys_pgdir\<rparr>)))))))))))))"
section \<open>Lemmas on segments\<close>

declare skip_to_load.simps [simp del]

lemma image_cong:
  assumes "kimage t = kimage s"
  shows "elf_at t p = elf_at s p" and "proghdr_at t ph i = proghdr_at s ph i"
  using assms by (simp_all add: elf_at_def proghdr_at_def img32_def img16_def)

lemma skip_to_load_cong: "kimage t = kimage s \<Longrightarrow> skip_to_load t ph n i = skip_to_load s ph n i"
proof (induction s ph n i rule: skip_to_load.induct)
  case (1 s ph n i)
  note unfold = skip_to_load.simps [of t ph n i] skip_to_load.simps [of s ph n i] image_cong(2) [OF 1(2)]
  show ?case
  proof (cases "p_type (proghdr_at s ph i) \<noteq> ELF_PROG_LOAD \<and> i < n")
    case True
    then show ?thesis unfolding unfold using 1(1) [OF True 1(2)] by simp
  next
    case False
    then show ?thesis unfolding unfold by (simp only: if_False)
  qed
qed

lemma segment_from_cong:
  assumes "kimage t = kimage s"
  shows "segment_from t p i = segment_from s p i"
  by (simp add: segment_from_def image_cong [OF assms] skip_to_load_cong [OF assms] Let_def)

lemma phnum_bound: "unat (e_phnum (elf_at s p)) < 2 ^ 16"
proof -
  have "e_phnum (elf_at s p) = take_bit 16 (e_phnum (elf_at s p))"
    by (rule bit_word_eqI) (auto simp: elf_at_def img16_def word_of_bytes_def bit_simps dest: bit_imp_le_length)
  then have "unat (e_phnum (elf_at s p)) = take_bit 16 (unat (e_phnum (elf_at s p)))"
    by (metis unsigned_take_bit_eq)
  then show ?thesis by (metis take_bit_nat_less_exp)
qed

text \<open>The segments to load: the headers of type \<open>ELF_PROG_LOAD\<close>, in order.\<close>

definition load_headers :: "kernel \<Rightarrow> uint32 \<Rightarrow> nat \<Rightarrow> nat \<Rightarrow> program_segment list" where
  "load_headers s p i n =
     (let ph = p + e_phoff (elf_at s p) in
      map (\<lambda>i. mk_segment p (of_nat i) (proghdr_at s ph (of_nat i)))
        (filter (\<lambda>i. p_type (proghdr_at s ph (of_nat i)) = ELF_PROG_LOAD) [i..<n]))"

lemma segment_from_step:
  assumes "i < n" and n: "n = unat (e_phnum (elf_at s p))"
  shows "segment_from s p (of_nat i) =
    (if p_type (proghdr_at s (p + e_phoff (elf_at s p)) (of_nat i)) = ELF_PROG_LOAD
     then Some (mk_segment p (of_nat i) (proghdr_at s (p + e_phoff (elf_at s p)) (of_nat i)))
     else segment_from s p (of_nat (Suc i)))"
proof -
  have "unat (of_nat i :: uint32) = i" using assms phnum_bound[of s p]
    by (simp add: unsigned_of_nat take_bit_nat_eq_self)
  then have "(of_nat i :: uint32) < e_phnum (elf_at s p)" using assms by (simp add: word_less_nat_alt)
  then show ?thesis
    by (simp add: segment_from_def Let_def skip_to_load.simps [of s _ _ "of_nat i"] add.commute)
qed

lemma segment_from_end:
  assumes "n = unat (e_phnum (elf_at s p))" and "n \<le> i" and "i < 2 ^ 32"
  shows "segment_from s p (of_nat i) = None"
proof -
  have "unat (of_nat i :: uint32) = i" using assms by (simp add: unsigned_of_nat take_bit_nat_eq_self)
  then have "\<not> (of_nat i :: uint32) < e_phnum (elf_at s p)" using assms by (simp add: word_less_nat_alt)
  then show ?thesis by (simp add: segment_from_def Let_def skip_to_load.simps [of s _ _ "of_nat i"])
qed

lemma foreach_segment_from:
  assumes magic: "e_magic (elf_at s p) = ELF_MAGIC" and n: "n = unat (e_phnum (elf_at s p))"
    and body: "\<forall>seg a a'. body seg a = Inr a' \<longrightarrow> kimage (snd a') = kimage (snd a)"
  shows "i \<le> n \<Longrightarrow> n - i \<le> k \<Longrightarrow> kimage (snd a) = kimage s \<Longrightarrow>
    foreach_segment k p body (segment_from s p (of_nat i)) a = foldE body (load_headers s p i n) a"
proof (induction "n - i" arbitrary: i k a)
  case 0
  then have "segment_from s p (of_nat i) = None"
    using phnum_bound[of s p] n by (intro segment_from_end) auto
  then show ?case using 0 by (simp add: load_headers_def Let_def)
next
  case (Suc d)
  then have i: "i < n" by simp
  have upt: "[i..<n] = i # [Suc i..<n]" using i by (rule upt_conv_Cons)
  note step = segment_from_step[OF i n]
  show ?case
  proof (cases "p_type (proghdr_at s (p + e_phoff (elf_at s p)) (of_nat i)) = ELF_PROG_LOAD")
    case False
    then have "load_headers s p i n = load_headers s p (Suc i) n"
      by (simp add: load_headers_def upt Let_def)
    moreover have "segment_from s p (of_nat i) = segment_from s p (of_nat (Suc i))" using step False by simp
    ultimately show ?thesis using Suc.hyps(1)[of "Suc i" k a] Suc by simp
  next
    case True
    let ?seg = "mk_segment p (of_nat i) (proghdr_at s (p + e_phoff (elf_at s p)) (of_nat i))"
    have lh: "load_headers s p i n = ?seg # load_headers s p (Suc i) n"
      using True by (simp add: load_headers_def upt Let_def)
    obtain k' where k: "k = Suc k'" using Suc.prems Suc.hyps(2) by (cases k) auto
    have nxt: "PROGRAM_SEGMENT_NEXT ?seg p (snd b) = Inr (segment_from s p (of_nat (Suc i)))"
      if "kimage (snd b) = kimage s" for b :: "'a \<times> kernel"
      using magic
      by (simp add: PROGRAM_SEGMENT_NEXT_def image_cong [OF that] segment_from_cong [OF that] mk_segment_def add.commute)
    have rest: "bindE (PROGRAM_SEGMENT_NEXT ?seg p (snd b)) (\<lambda>nxt. foreach_segment k' p body nxt b)
        = foldE body (load_headers s p (Suc i) n) b" if "body ?seg a = Inr b" for b
    proof -
      have kb: "kimage (snd b) = kimage s" using body that Suc.prems(3) by metis
      then show ?thesis using nxt[OF kb] Suc.hyps(1)[of "Suc i" k' b] Suc.hyps(2) Suc.prems k by simp
    qed
    show ?thesis using True step lh k rest by (cases "body ?seg a") simp_all
  qed
qed

text \<open>C27: the loop over the segments of an ELF image ends and runs its body on exactly the headers of
  type \<open>ELF_PROG_LOAD\<close>, in order; with an image that does not start with the magic number it
  panics.\<close>

theorem foreach_segment_all:
  assumes "\<forall>seg a a'. body seg a = Inr a' \<longrightarrow> kimage (snd a') = kimage (snd a)"
  shows "bindE (PROGRAM_SEGMENT_FIRST p (snd a)) (\<lambda>seg.
           foreach_segment (unat (e_phnum (elf_at (snd a) p))) p body seg a)
    = (if e_magic (elf_at (snd a) p) = ELF_MAGIC
       then foldE body (load_headers (snd a) p 0 (unat (e_phnum (elf_at (snd a) p)))) a
       else Inl elf_panic)"
proof (cases "e_magic (elf_at (snd a) p) = ELF_MAGIC")
  case True
  have "foreach_segment (unat (e_phnum (elf_at (snd a) p))) p body (segment_from (snd a) p (of_nat 0)) a
      = foldE body (load_headers (snd a) p 0 (unat (e_phnum (elf_at (snd a) p)))) a"
    by (rule foreach_segment_from [OF True refl assms]) simp_all
  then show ?thesis using True by (simp only: PROGRAM_SEGMENT_FIRST_def of_nat_0) simp
qed (simp add: PROGRAM_SEGMENT_FIRST_def)
text \<open>An image at address 0 with two program headers, the second of which is to be loaded at
  \<open>0x800000\<close>: 5 bytes, of which 3 are in the file.\<close>

definition mini_elf :: kernel where
  "mini_elf = tiny\<lparr>kimage := (\<lambda>_. 0)(0 := 0x7F, 1 := 0x45, 2 := 0x4C, 3 := 0x46, 28 := 52, 44 := 2,
     84 := 1, 88 := 116, 94 := 0x80, 100 := 3, 104 := 5, 116 := 10, 117 := 11, 118 := 12)\<rparr>"

definition mini_segment :: program_segment where
  "mini_segment = \<lparr>ptr_start = 116, size_in_file = 3, size_in_memory = 5,
     virtual_address = 0x800000, segment_id = 1\<rparr>"

definition collect ::
  "program_segment \<Rightarrow> program_segment list \<times> kernel \<Rightarrow> halt + program_segment list \<times> kernel" where
  "collect seg = (\<lambda>(l, s). Inr (l @ [seg], s))"

theorem foreach_segment_all_witness:
  "bindE (PROGRAM_SEGMENT_FIRST 0 mini_elf) (\<lambda>seg. foreach_segment 2 0 collect seg ([], mini_elf))
    = Inr ([mini_segment], mini_elf)"
proof -
  have elf: "elf_at mini_elf 0 = \<lparr>e_magic = ELF_MAGIC, e_entry = 0, e_phoff = 52, e_phnum = 2\<rparr>"
    by (simp add: elf_at_def img32_def img16_def word_of_bytes_def mini_elf_def ELF_MAGIC_def)
  have h: "proghdr_at mini_elf 52 0 = \<lparr>p_type = 0, p_offset = 0, p_va = 0, p_filesz = 0, p_memsz = 0\<rparr>"
    "proghdr_at mini_elf 52 1 = \<lparr>p_type = 1, p_offset = 116, p_va = 0x800000, p_filesz = 3, p_memsz = 5\<rparr>"
    by (simp_all add: proghdr_at_def img32_def word_of_bytes_def mini_elf_def)
  have l: "load_headers mini_elf 0 0 2 = [mini_segment]"
    by (simp add: load_headers_def elf h numeral_2_eq_2 ELF_PROG_LOAD_def mk_segment_def mini_segment_def)
  have body: "\<forall>seg a a'. collect seg a = Inr a' \<longrightarrow> kimage (snd a') = kimage (snd a)"
    by (auto simp: collect_def)
  have "foldE collect [mini_segment] ([], mini_elf) = Inr ([mini_segment], mini_elf)"
    by (simp add: collect_def)
  then show ?thesis using foreach_segment_all [OF body, of 0 "([], mini_elf)"] by (simp add: elf l)
qed

section \<open>The page-file image of a segment\<close>

text \<open>The bytes a page source provides, and those that the segment describes at offset \<open>i\<close>.\<close>

definition source_bytes :: "kernel \<Rightarrow> page_source \<Rightarrow> nat \<Rightarrow> uint8" where
  "source_bytes s src j =
     (case src of Temp f \<Rightarrow> f j | Image a \<Rightarrow> kimage s (a + of_nat j) | Zero \<Rightarrow> 0)"

definition segment_byte :: "kernel \<Rightarrow> program_segment \<Rightarrow> nat \<Rightarrow> uint8" where
  "segment_byte s seg i =
     (if i < unat (size_in_file seg) then kimage s (ptr_start seg + of_nat i) else 0)"

text \<open>The last write decides: \<open>map_of\<close> of the reversed list.\<close>

definition final_write :: "(uint32 \<times> page_source) list \<Rightarrow> uint32 \<Rightarrow> page_source option" where
  "final_write ws = map_of (rev ws)"
lemma final_write_last:
  "a \<notin> fst ` set ys \<Longrightarrow> final_write (xs @ (a, v) # ys) a = Some v"
  by (simp add: final_write_def map_add_def map_of_eq_None_iff [THEN iffD2])

lemma unat_small: "x < 2 ^ 32 \<Longrightarrow> unat (of_nat x :: uint32) = x"
  by (simp add: unsigned_of_nat take_bit_nat_eq_self)

lemma of_nat_inj: "x < 2 ^ 32 \<Longrightarrow> y < 2 ^ 32 \<Longrightarrow> (of_nat x :: uint32) = of_nat y \<longleftrightarrow> x = y"
  by (metis unat_small)

lemma ROUNDDOWN_of_nat:
  assumes "x < 2 ^ 32"
  shows "ROUNDDOWN (of_nat x) PAGE_SIZE = of_nat (x div 4096 * 4096)"
proof -
  have "x div 4096 * 4096 < 2 ^ 32" using assms div_times_less_eq_dividend le_less_trans by blast
  then have "unat (ROUNDDOWN (of_nat x) PAGE_SIZE) = unat (of_nat (x div 4096 * 4096) :: uint32)"
    using assms by (simp only: unat_ROUNDDOWN unat_small) (simp add: PAGE_SIZE_def minus_mod_eq_div_mult)
  then show ?thesis by (simp only: word_unat_eq_iff)
qed

lemma ROUNDUP_of_nat:
  assumes "x + 4096 \<le> 2 ^ 32"
  shows "ROUNDUP (of_nat x) PAGE_SIZE = of_nat ((x + 4095) div 4096 * 4096)"
proof -
  have "(of_nat x :: uint32) + PAGE_SIZE - 1 = of_nat (x + 4095)" by (simp add: PAGE_SIZE_def)
  then show ?thesis using assms by (simp only: ROUNDUP_def) (rule ROUNDDOWN_of_nat, simp)
qed

text \<open>The address of page \<open>n\<close>.\<close>

definition page_addr :: "nat \<Rightarrow> uint32" where
  "page_addr n = of_nat (4096 * n)"

lemma page_addr_div: "n < 2 ^ 20 \<Longrightarrow> unat (page_addr n div PAGE_SIZE) = n"
proof -
  assume "n < 2 ^ 20"
  then have "4096 * n < 2 ^ 32" by simp
  then have "unat (page_addr n) = 4096 * n" unfolding page_addr_def by (rule unat_small)
  then show ?thesis by (simp add: unat_div PAGE_SIZE_def)
qed

lemma page_addr_inj: "m < 2 ^ 20 \<Longrightarrow> n < 2 ^ 20 \<Longrightarrow> page_addr m = page_addr n \<longleftrightarrow> m = n"
  by (metis page_addr_div)

lemma page_addr_add: "page_addr m + page_addr n = page_addr (m + n)"
  "page_addr m + of_nat k * PAGE_SIZE = page_addr (m + k)"
  "of_nat k * PAGE_SIZE = page_addr k" "page_addr (m + k) - page_addr m = page_addr k"
  by (simp_all add: page_addr_def PAGE_SIZE_def)

lemma page_addr_less: "m < 2 ^ 20 \<Longrightarrow> n < 2 ^ 20 \<Longrightarrow> page_addr m < page_addr n \<longleftrightarrow> m < n"
proof -
  assume "m < 2 ^ 20" "n < 2 ^ 20"
  then have "4096 * m < 2 ^ 32" "4096 * n < 2 ^ 32" by simp_all
  then show ?thesis unfolding page_addr_def word_less_nat_alt by (simp only: unat_small) simp
qed

lemma ROUNDDOWN_page: "x < 2 ^ 32 \<Longrightarrow> ROUNDDOWN (of_nat x) PAGE_SIZE = page_addr (x div 4096)"
  unfolding page_addr_def by (subst ROUNDDOWN_of_nat) (simp_all only: mult.commute)

lemma ROUNDUP_page: "x + 4096 \<le> 2 ^ 32 \<Longrightarrow> ROUNDUP (of_nat x) PAGE_SIZE = page_addr ((x + 4095) div 4096)"
  unfolding page_addr_def by (subst ROUNDUP_of_nat) (simp_all only: mult.commute)

lemma file_rest: "4096 * (F div 4096) + j < F \<longleftrightarrow> j < F mod 4096" for F :: nat
  by (rule iffI; use mult_div_mod_eq [of 4096 F] in linarith)

lemma pages_ceil: "r < 4096 \<Longrightarrow> (4096 * q + r + 4095) div 4096 = (if r = 0 then q else Suc q)" for q r :: nat
  by (intro div_nat_eqI) auto

text \<open>The bytes after the file part: their page count, also when the rounding wraps to 0.\<close>

lemma remaining_pages:
  assumes "F \<le> M" and "4096 * u + M + 8192 \<le> 2 ^ 32" and C: "C = (F + 4095) div 4096"
  shows "unat (ROUNDUP (of_nat (4096 * u + M) - page_addr (u + C)) PAGE_SIZE div PAGE_SIZE)
    = (M + 4095) div 4096 - C"
proof (cases "4096 * C \<le> M")
  case True
  then have e: "of_nat (4096 * u + M) - page_addr (u + C) = of_nat (M - 4096 * C)"
    by (simp add: of_nat_diff page_addr_def)
  have d: "(M - 4096 * C + 4095) div 4096 = (M + 4095) div 4096 - C" using True by simp
  have "(M + 4095) div 4096 - C < 2 ^ 20" using assms(2) by auto
  moreover have "M - 4096 * C + 4096 \<le> 2 ^ 32" using assms(2) by simp
  ultimately show ?thesis unfolding e by (simp only: ROUNDUP_page d page_addr_div)
next
  case False
  let ?d = "4096 * C - M"
  have d: "0 < ?d" "?d < 4096" using False assms(1) C by auto
  have z: "(M + 4095) div 4096 - C = 0" using False by auto
  have "of_nat (4096 * u + M) - page_addr (u + C) = - (of_nat ?d)"
    using False by (simp add: of_nat_diff page_addr_def)
  then have "of_nat (4096 * u + M) - page_addr (u + C) + PAGE_SIZE - 1 = of_nat (4095 - ?d)"
    using d by (simp add: PAGE_SIZE_def of_nat_diff)
  then have "ROUNDUP (of_nat (4096 * u + M) - page_addr (u + C)) PAGE_SIZE = page_addr ((4095 - ?d) div 4096)"
    unfolding ROUNDUP_def by (simp only:) (rule ROUNDDOWN_page, simp)
  then show ?thesis using z by (simp add: page_addr_def)
qed

text \<open>The writes of a page-aligned segment: the first page (empty, overwritten later), the full pages
  of the file part, the last page of the file part, and the zero pages.\<close>

lemma segment_writes_aligned:
  assumes va: "virtual_address seg = page_addr u" and F: "size_in_file seg = of_nat F"
    and M: "size_in_memory seg = of_nat M" and FM: "F \<le> M" and b: "4096 * u + M + 8192 \<le> 2 ^ 32"
  shows "segment_writes s seg =
    (page_addr u, Temp (image_bytes s 0 0 (ptr_start seg)))
    # map (\<lambda>k. (page_addr (u + k), Image (ptr_start seg + page_addr k))) [0..<F div 4096]
    @ (page_addr (u + F div 4096),
       Temp (image_bytes s 0 (F mod 4096) (ptr_start seg + page_addr (F div 4096))))
    # map (\<lambda>k. (page_addr (u + (F + 4095) div 4096 + k), Zero))
        [0..<(M + 4095) div 4096 - (F + 4095) div 4096]"
proof -
  let ?Q = "F div 4096" and ?R = "F mod 4096" and ?C = "(F + 4095) div 4096" and ?v = "4096 * u"
  have v: "page_addr u = of_nat ?v" by (simp add: page_addr_def)
  have down: "ROUNDDOWN (page_addr u) PAGE_SIZE = page_addr u" "ROUNDUP (page_addr u) PAGE_SIZE = page_addr u"
    unfolding v using b by (subst ROUNDDOWN_page ROUNDUP_page; auto simp: page_addr_def)+
  have sum: "page_addr u + of_nat x = of_nat (?v + x)" for x by (simp add: v)
  have lastp: "ROUNDDOWN (of_nat (?v + F)) PAGE_SIZE = page_addr (u + ?Q)"
    using b FM by (subst ROUNDDOWN_page) auto
  have up: "ROUNDUP (of_nat (?v + F)) PAGE_SIZE = page_addr (u + ?C)"
    using b FM by (subst ROUNDUP_page) (auto simp: add.assoc)
  have bu: "u < 2 ^ 20" "u + ?Q < 2 ^ 20" "?Q < 2 ^ 20" using b FM by auto
  have mid: "(if page_addr u < page_addr (u + ?Q)
      then unat ((page_addr (u + ?Q) - page_addr u) div PAGE_SIZE) else 0) = ?Q"
    using bu by (simp add: page_addr_less page_addr_add page_addr_div)
  have lst: "(if page_addr (u + ?Q) < of_nat (?v + F)
      then unat (of_nat (?v + F) - page_addr (u + ?Q)) else 0) = ?R"
  proof -
    have q1: "unat (page_addr (u + ?Q)) = 4096 * (u + ?Q)"
      unfolding page_addr_def by (rule unat_small) (use bu(2) in simp)
    have q2: "unat (of_nat (?v + F) :: uint32) = ?v + F"
      by (rule unat_small) (use b FM in simp)
    note q = q1 q2
    have F: "F = 4096 * ?Q + ?R" by simp
    have "page_addr (u + ?Q) < of_nat (?v + F) \<longleftrightarrow> 0 < ?R"
      unfolding word_less_nat_alt q using file_rest [of F 0] by simp
    moreover have "unat (of_nat (?v + F) - page_addr (u + ?Q)) = ?R"
    proof -
      have le: "page_addr (u + ?Q) \<le> of_nat (?v + F)" unfolding word_le_nat_alt q by simp
      have "unat (of_nat (?v + F) - page_addr (u + ?Q)) = ?v + F - 4096 * (u + ?Q)"
        unfolding unat_sub [OF le] q ..
      then show ?thesis by (simp add: minus_mult_div_eq_mod)
    qed
    ultimately show ?thesis by auto
  qed
  show ?thesis
    unfolding segment_writes_def Let_def va F M down sum lastp up mid lst remaining_pages[OF FM b refl]
    unfolding page_addr_add by simp
qed

text \<open>The last write to an address of a list of writes to increasing pages.\<close>

lemma final_write_upt:
  assumes "k < n" and "\<And>i. k < i \<Longrightarrow> i < n \<Longrightarrow> f i \<noteq> f k" and "f k \<notin> fst ` set rest"
  shows "final_write (pre @ map (\<lambda>k. (f k, g k)) [0..<n] @ rest) (f k) = Some (g k)"
proof -
  have "[0..<n] = [0..<k] @ k # [Suc k..<n]"
    using assms(1) by (metis less_imp_le_nat upt_add_eq_append upt_conv_Cons le0 le_add_diff_inverse)
  then have e: "pre @ map (\<lambda>k. (f k, g k)) [0..<n] @ rest
      = (pre @ map (\<lambda>k. (f k, g k)) [0..<k]) @ (f k, g k) # (map (\<lambda>k. (f k, g k)) [Suc k..<n] @ rest)" by simp
  have "f k \<notin> fst ` set (map (\<lambda>k. (f k, g k)) [Suc k..<n] @ rest)"
  proof
    assume "f k \<in> fst ` set (map (\<lambda>k. (f k, g k)) [Suc k..<n] @ rest)"
    then consider i where "k < i" "i < n" "f k = f i" | "f k \<in> fst ` set rest" by (auto simp: Suc_le_eq image_iff)
    then show False using assms(2,3) by cases metis+
  qed
  then show ?thesis unfolding e by (rule final_write_last)
qed

lemma segment_page_written:
  assumes va: "virtual_address seg = page_addr u" and F: "size_in_file seg = of_nat F"
    and M: "size_in_memory seg = of_nat M" and FM: "F \<le> M" and b: "4096 * u + M + 8192 \<le> 2 ^ 32" and k: "4096 * k < M"
  shows "\<exists>src. final_write (segment_writes s seg) (page_addr (u + k)) = Some src
    \<and> (\<forall>j<4096. source_bytes s src j = segment_byte s seg (4096 * k + j))"
proof -
  let ?Q = "F div 4096" and ?R = "F mod 4096" and ?C = "(F + 4095) div 4096"
  let ?Z = "(M + 4095) div 4096 - ?C"
  let ?addr = "\<lambda>k. page_addr (u + k)"
  let ?image = "\<lambda>k. Image (ptr_start seg + page_addr k)"
  let ?last = "Temp (image_bytes s 0 ?R (ptr_start seg + page_addr ?Q))"
  let ?zeros = "map (\<lambda>k. (page_addr (u + ?C + k), Zero)) [0..<?Z]"
  note w = segment_writes_aligned [OF va F M FM b]
  have inj: "?addr i = ?addr j \<longleftrightarrow> i = j" if "4096 * i < M + 4096" "4096 * j < M + 4096" for i j
    using that b by (subst page_addr_inj) auto
  have uF: "unat (of_nat F :: uint32) = F" using b FM by (intro unat_small) simp
  have byte: "segment_byte s seg i = (if i < F then kimage s (ptr_start seg + of_nat i) else 0)" for i
    by (simp add: segment_byte_def F uF)
  have zk: "4096 * (?C + i) < M + 4096" if "i < ?Z" for i using that by auto
  have at: "ptr_start seg + page_addr k + of_nat j = ptr_start seg + of_nat (4096 * k + j)" for k j
    by (simp add: page_addr_def add.assoc)
    have kM: "4096 * k < M + 4096" "4096 * ?Q < M + 4096" using k FM by auto
    have zne: "?addr k \<notin> fst ` set ?zeros" if "k < ?C"
    proof
      assume "?addr k \<in> fst ` set ?zeros"
      then obtain i where "i < ?Z" "?addr k = page_addr (u + (?C + i))" by (auto simp: add.assoc)
      then show False using inj[OF kM(1) zk] that by simp
    qed
    have Ceq: "?C = (if ?R = 0 then ?Q else Suc ?Q)"
      using pages_ceil [of ?R ?Q] by simp
    then have "k < ?Q \<or> k = ?Q \<and> ?R \<noteq> 0 \<or> ?C \<le> k" by (auto split: if_splits)
    then consider "k < ?Q" | "k = ?Q" "?R \<noteq> 0" | "?C \<le> k" by blast
    then show ?thesis
    proof cases
      case 1
      have "?addr k \<notin> fst ` set ((?addr ?Q, ?last) # ?zeros)"
        using inj [OF kM] zne 1 by simp
      then have "final_write (segment_writes s seg) (?addr k) = Some (?image k)"
        using final_write_upt [where k = k and n = ?Q and f = ?addr and rest = "(?addr ?Q, ?last) # ?zeros"
            and pre = "[(?addr 0, Temp (image_bytes s 0 0 (ptr_start seg)))]" and g = ?image]
          1 inj [OF _ kM(1)] kM(2) unfolding w by fastforce
      moreover have "4096 * k + j < F" if "j < 4096" for j using 1 that by auto
      ultimately show ?thesis
        by (intro exI [of _ "?image k"]) (simp add: source_bytes_def byte at del: of_nat_add of_nat_mult)
    next
      case 2
      then have C: "k < ?C" using Ceq by simp
      have "final_write (segment_writes s seg) (?addr k) = Some ?last"
        unfolding w append_Cons [symmetric] 2(1) using zne[OF C] unfolding 2(1) by (rule final_write_last)
      moreover have "4096 * ?Q + j < F \<longleftrightarrow> j < ?R" for j by (rule file_rest)
      ultimately show ?thesis unfolding 2(1)
        by (intro exI [of _ ?last]) (simp add: source_bytes_def byte image_bytes_def at del: of_nat_add of_nat_mult)
    next
      case 3
      obtain i where i: "k = ?C + i" using 3 le_Suc_ex by blast
      have iZ: "i < ?Z" using k i by auto
      let ?pre = "(?addr 0, Temp (image_bytes s 0 0 (ptr_start seg))) # map (\<lambda>k. (?addr k, ?image k)) [0..<?Q] @ [(?addr ?Q, ?last)]"
      have "page_addr (u + ?C + j) \<noteq> page_addr (u + ?C + i)" if "i < j" "j < ?Z" for j
        using inj [OF zk [OF that(2)] zk [OF iZ]] that(1) by (simp add: add.assoc)
      then have "final_write (segment_writes s seg) (?addr k) = Some Zero"
        using final_write_upt [where k = i and n = ?Z and f = "\<lambda>k. page_addr (u + ?C + k)" and rest = "[]" and pre = ?pre and g = "\<lambda>_. Zero"] iZ unfolding w i by (simp add: add.assoc)
      moreover have "\<not> 4096 * k + j < F" for j using 3 by auto
      ultimately show ?thesis by (intro exI [of _ Zero]) (simp add: source_bytes_def byte)
    qed
qed

text \<open>C26: for a page-aligned segment that does not reach the top of the address space, the last write
  to each page of the segment has the bytes the program header describes, file bytes first and then
  zeros, and nothing is written outside the segment except possibly the page in which its file part
  ends.\<close>

theorem segment_writes_image:
  assumes va: "virtual_address seg = page_addr u" and F: "size_in_file seg = of_nat F"
    and M: "size_in_memory seg = of_nat M" and FM: "F \<le> M" and b: "4096 * u + M + 8192 \<le> 2 ^ 32"
  shows "(\<forall>k. 4096 * k < M \<longrightarrow>
      (\<exists>src. final_write (segment_writes s seg) (page_addr (u + k)) = Some src
         \<and> (\<forall>j<4096. source_bytes s src j = segment_byte s seg (4096 * k + j))))
    \<and> fst ` set (segment_writes s seg) \<subseteq> (\<lambda>k. page_addr (u + k)) ` {k. 4096 * k < M \<or> k = F div 4096}"
proof -
  let ?Q = "F div 4096" and ?C = "(F + 4095) div 4096"
  let ?Z = "(M + 4095) div 4096 - ?C"
  let ?addr = "\<lambda>k. page_addr (u + k)"
  note w = segment_writes_aligned[OF assms]
  have "fst ` set (segment_writes s seg) \<subseteq> ?addr ` {k. 4096 * k < M \<or> k = ?Q}"
  proof -
    have "?addr 0 \<in> ?addr ` {k. 4096 * k < M \<or> k = ?Q}" using FM by (intro imageI) auto
    moreover have "?addr k \<in> ?addr ` {k. 4096 * k < M \<or> k = ?Q}" if "k < ?Q" for k
      using that FM by (intro imageI) auto
    moreover have "page_addr (u + ?C + k) \<in> ?addr ` {k. 4096 * k < M \<or> k = ?Q}" if "k < ?Z" for k
      using that by (intro image_eqI [of _ _ "?C + k"]) (auto simp: add.assoc)
    ultimately show ?thesis unfolding w by auto
  qed
  then show ?thesis using segment_page_written [OF assms] by blast
qed


theorem segment_writes_image_witness:
  "\<exists>src. final_write (segment_writes mini_elf mini_segment) 0x800000 = Some src
     \<and> source_bytes mini_elf src 2 = 12 \<and> source_bytes mini_elf src 3 = 0"
proof -
  have h: "virtual_address mini_segment = page_addr 2048" "size_in_file mini_segment = of_nat 3"
    "size_in_memory mini_segment = of_nat 5"
    by (simp_all add: mini_segment_def page_addr_def)
  have w: "(3 :: nat) \<le> 5" "4096 * 2048 + 5 + 8192 \<le> (2 :: nat) ^ 32" "4096 * 0 < (5 :: nat)" by simp_all
  obtain src where src: "final_write (segment_writes mini_elf mini_segment) (page_addr (2048 + 0)) = Some src"
    "\<forall>j<4096. source_bytes mini_elf src j = segment_byte mini_elf mini_segment (4096 * 0 + j)"
    using segment_writes_image [OF h w(1,2), of mini_elf] w(3) by blast
  have "page_addr (2048 + 0) = 0x800000" by (simp add: page_addr_def)
  moreover have "source_bytes mini_elf src 2 = 12" "source_bytes mini_elf src 3 = 0"
    using src(2) by (simp_all add: segment_byte_def mini_segment_def mini_elf_def)
  ultimately show ?thesis using src(1) by auto
qed

text \<open>
  For a segment that is not page aligned and whose file part ends in its first page, the last write
  to that page takes its bytes from beyond the copied ones: at offset \<open>j\<close> it has the image byte
  \<open>4096 - o + j\<close>, where \<open>o\<close> is the offset of the segment in the page.
\<close>

lemma segment_writes_unaligned:
  assumes va: "virtual_address seg = of_nat (4096 * u + off)" and F: "size_in_file seg = of_nat F"
    and o: "0 < off" "0 < F" "off + F < 4096" and b: "u < 2 ^ 19"
  shows "final_write (segment_writes s seg) (page_addr u)
    = Some (Temp (image_bytes s 0 (off + F) (ptr_start seg + of_nat (4096 - off))))"
proof -
  let ?v = "4096 * u + off"
  have q: "?v div 4096 = u" "(?v + F) div 4096 = u" "(?v + 4095) div 4096 = Suc u" "(?v + F + 4095) div 4096 = Suc u"
    using o by (auto intro!: div_nat_eqI)
  have sum: "of_nat ?v + of_nat F = (of_nat (?v + F) :: uint32)" by simp
  have d: "ROUNDDOWN (of_nat ?v) PAGE_SIZE = page_addr u" "ROUNDDOWN (of_nat (?v + F)) PAGE_SIZE = page_addr u"
    using b o by (subst ROUNDDOWN_page; simp only: q; simp)+
  have up: "ROUNDUP (of_nat ?v) PAGE_SIZE = page_addr (Suc u)" "ROUNDUP (of_nat (?v + F)) PAGE_SIZE = page_addr (Suc u)"
    using b o by (subst ROUNDUP_page; simp only: q; simp)+
  have un: "unat (of_nat ?v :: uint32) = ?v" "unat (of_nat (?v + F) :: uint32) = ?v + F"
    "unat (page_addr u) = 4096 * u" "unat (page_addr (Suc u)) = 4096 * Suc u"
    unfolding page_addr_def by (rule unat_small, use b o in simp)+
  have first: "(if of_nat ?v < page_addr (Suc u) then unat (page_addr (Suc u) - of_nat ?v) else 0) = 4096 - off"
  proof -
    have "of_nat ?v \<le> page_addr (Suc u)" unfolding word_le_nat_alt un using o by simp
    from unat_sub [OF this] show ?thesis unfolding word_less_nat_alt un using o by simp
  qed
  have mid: "(if page_addr (Suc u) < page_addr u then unat ((page_addr u - page_addr (Suc u)) div PAGE_SIZE) else 0) = 0"
    unfolding word_less_nat_alt un by simp
  have lst: "(if page_addr u < of_nat (?v + F) then unat (of_nat (?v + F) - page_addr u) else 0) = off + F"
  proof -
    have "page_addr u \<le> of_nat (?v + F)" unfolding word_le_nat_alt un using o by simp
    from unat_sub [OF this] show ?thesis unfolding word_less_nat_alt un using o by simp
  qed
  let ?n = "unat (ROUNDUP (of_nat ?v + size_in_memory seg - page_addr (Suc u)) PAGE_SIZE div PAGE_SIZE)"
  have n: "?n < 2 ^ 20" using unsigned_less [of "ROUNDUP (of_nat ?v + size_in_memory seg - page_addr (Suc u)) PAGE_SIZE", where ?'a = nat]
    by (simp add: unat_div PAGE_SIZE_def div_less_iff_less_mult)
  have "page_addr u \<notin> fst ` set (map (\<lambda>k. (page_addr (Suc u + k), Zero)) [0..<?n])"
  proof
    assume "page_addr u \<in> fst ` set (map (\<lambda>k. (page_addr (Suc u + k), Zero)) [0..<?n])"
    then obtain k where k: "k < ?n" "page_addr u = page_addr (Suc u + k)" by auto
    have "page_addr (u + Suc k) = page_addr u + page_addr (Suc k)" by (simp only: page_addr_add)
    then have "page_addr (Suc k) = page_addr 0" using k(2) by (simp add: page_addr_def)
    then show False using n k(1) by (subst (asm) page_addr_inj) auto
  qed
  then have "final_write ([(page_addr u, Temp (image_bytes s (unat (of_nat ?v - page_addr u)) (4096 - off) (ptr_start seg)))]
      @ (page_addr u, Temp (image_bytes s 0 (off + F) (ptr_start seg + of_nat (4096 - off))))
      # map (\<lambda>k. (page_addr (Suc u + k), Zero)) [0..<?n]) (page_addr u)
    = Some (Temp (image_bytes s 0 (off + F) (ptr_start seg + of_nat (4096 - off))))"
    by (rule final_write_last)
  then show ?thesis
    unfolding segment_writes_def Let_def va F sum d up first mid lst
    unfolding page_addr_add by (simp add: page_addr_def)
qed

end
