(* ===== verification/Syscalls.thy ===== *)
theory Syscalls
  imports Utilities Kernel_Objects Program_Loader
begin

text \<open>
  The system calls (\<^verbatim>\<open>kern/syscall.c\<close>, numbers of \<^verbatim>\<open>inc/syscall.h\<close>). A user address that the kernel
  reads or writes goes through the page tables in \<open>CR3\<close>; an access that faults is \<open>PageFault\<close>: the
  nested fault is not resumed. A string argument is read up to its terminator before the call. What
  the calls print is left out. The console and the time-stamp counter are an argument, \<open>hw\<close>.
\<close>

section \<open>User memory as the kernel reads and writes it\<close>

definition cpu_load_byte :: "uint32 \<Rightarrow> kernel \<Rightarrow> uint8 result" where
  "cpu_load_byte va s =
     (let pd = unat (PPN (cr3 s)); pde = rd s pd (pdx va) in
      if \<not> present pde then Inl PageFault
      else let t = unat (PPN pde); pte = rd s t (ptx va) in
        if \<not> present pte then Inl PageFault
        else let s = wr pd (pdx va) (pde OR PERM_USED) s;
                 s = wr t (ptx va) (pte OR PERM_USED) s;
                 off = unat (PGOFF va)
             in Inr (byte_of (rd s (unat (PPN pte)) (off div 4)) (off mod 4), s))"

definition cpu_load_word :: "uint32 \<Rightarrow> kernel \<Rightarrow> uint32 result" where
  "cpu_load_word va s =
     bindE (cpu_load_byte va s) (\<lambda>(a, s).
     bindE (cpu_load_byte (va + 1) s) (\<lambda>(b, s).
     bindE (cpu_load_byte (va + 2) s) (\<lambda>(c, s).
     bindE (cpu_load_byte (va + 3) s) (\<lambda>(d, s). Inr (word_of_bytes a b c d, s)))))"

definition cpu_store_word :: "uint32 \<Rightarrow> uint32 \<Rightarrow> kernel \<Rightarrow> halt + kernel" where
  "cpu_store_word va v =
     foldE (\<lambda>k. cpu_store_byte (va + of_nat k) (byte_of v k)) [0, 1, 2, 3]"

fun load_string :: "nat \<Rightarrow> uint32 \<Rightarrow> kernel \<Rightarrow> string result" where
  "load_string 0 va s = Inl OutOfFuel"
| "load_string (Suc n) va s =
     bindE (cpu_load_byte va s) (\<lambda>(b, s).
     if b = 0 then Inr ([], s)
     else bindE (load_string n (va + 1) s) (\<lambda>(cs, s). Inr (char_of (unat b) # cs, s)))"

text \<open>The fuel is the number of addresses: a longer string has no end.\<close>

definition user_string :: "uint32 \<Rightarrow> kernel \<Rightarrow> string result" where
  "user_string = load_string (2 ^ 32)"

section \<open>System calls on the current environment\<close>

definition sys_cputs :: "uint32 \<Rightarrow> uint32 \<Rightarrow> uint8 \<Rightarrow> kernel \<Rightarrow> unit result" where
  "sys_cputs str len printProgName s =
     (if printProgName \<noteq> 0 then bindE (deref (curenv s)) (\<lambda>_. Inr ((), s)) else Inr ((), s))"

definition sys_cputc :: "uint8 \<Rightarrow> kernel \<Rightarrow> unit result" where
  "sys_cputc c s = Inr ((), s)"

text \<open>What the hardware gives: the result of \<open>cons_getc2\<close> and the time-stamp counter.\<close>

record hardware =
  cons_getc2 :: int
  tsc_low :: uint32
  tsc_hi :: uint32

definition sys_cgetc :: "hardware \<Rightarrow> kernel \<Rightarrow> int result" where
  "sys_cgetc hw s = Inr (cons_getc2 hw, s)"

definition sys_getenvid :: "kernel \<Rightarrow> uint32 result" where
  "sys_getenvid s = bindE (deref (curenv s)) (\<lambda>c. Inr (env_id (envs s c), s))"

definition sys_getenvindex :: "kernel \<Rightarrow> uint32 result" where
  "sys_getenvindex s = bindE (deref (curenv s)) (\<lambda>c. Inr (of_nat c, s))"

definition sys_getparentenvid :: "kernel \<Rightarrow> uint32 result" where
  "sys_getparentenvid s = bindE (deref (curenv s)) (\<lambda>c. Inr (env_parent_id (envs s c), s))"

text \<open>The call returns, or the processor goes on elsewhere.\<close>

datatype 'a outcome = Ret 'a | Away control

definition continue_with :: "'a \<Rightarrow> control result \<Rightarrow> 'a outcome result" where
  "continue_with v r = bindE r (\<lambda>(c, s). Inr (if c = Returns then Ret v else Away c, s))"

definition sys_env_destroy :: "uint32 \<Rightarrow> kernel \<Rightarrow> int outcome result" where
  "sys_env_destroy envid s =
     bindE (envid2env envid False s) (\<lambda>((r, ep), s).
     if r < 0 then Inr (Ret r, s)
     else bindE (deref (curenv s)) (\<lambda>_.
          bindE (deref ep) (\<lambda>e. continue_with 0 (sched_kill_env (env_id (envs s e)) s))))"

definition sys_env_exit :: "kernel \<Rightarrow> unit outcome result" where
  "sys_env_exit s = continue_with () (env_exit s)"

text \<open>\<open>map_frame\<close> panics rather than return \<open>E_NO_MEM\<close>, and so does \<open>allocate_frame\<close>; a frame that was
  allocated before a check fails is not given back.\<close>

definition sys_allocate_page :: "uint32 \<Rightarrow> uint32 \<Rightarrow> kernel \<Rightarrow> int result" where
  "sys_allocate_page va perm s =
     bindE (allocate_frame s) (\<lambda>(f, s).
     if USER_TOP \<le> va \<or> va mod PAGE_SIZE \<noteq> 0 then Inr (E_INVAL, s)
     else if perm AND (NOT PERM_AVAILABLE AND NOT PERM_WRITEABLE) \<noteq> PERM_USER then Inr (E_INVAL, s)
     else
       let s = wr_page f zero_page s in
       bindE (deref (curenv s)) (\<lambda>e.
       bindE (deref (env_page_directory (envs s e))) (\<lambda>pd.
       bindE (map_frame pd f va perm s) (\<lambda>(_, s). Inr (0, s)))))"

definition sys_map_frame :: "uint32 \<Rightarrow> uint32 \<Rightarrow> uint32 \<Rightarrow> uint32 \<Rightarrow> uint32 \<Rightarrow> kernel \<Rightarrow> unit result" where
  "sys_map_frame srcenvid srcva dstenvid dstva perm s = Inl (Panic ''sys_map_frame not implemented'')"

definition sys_unmap_frame :: "uint32 \<Rightarrow> uint32 \<Rightarrow> kernel \<Rightarrow> unit result" where
  "sys_unmap_frame envid va s = Inl (Panic ''sys_page_unmap not implemented'')"

definition sys_calculate_required_frames :: "uint32 \<Rightarrow> uint32 \<Rightarrow> kernel \<Rightarrow> uint32 result" where
  "sys_calculate_required_frames start_va sz s =
     bindE (deref (curenv s)) (\<lambda>e.
     bindE (deref (env_page_directory (envs s e))) (\<lambda>pd.
     calculate_required_frames pd start_va sz s))"

definition sys_calculate_free_frames :: "kernel \<Rightarrow> uint32 result" where
  "sys_calculate_free_frames s =
     (let counters = calculate_available_frames s
      in Inr (of_nat (freeBuffered counters) + of_nat (freeNotBuffered counters), s))"

definition sys_calculate_modified_frames :: "kernel \<Rightarrow> uint32 result" where
  "sys_calculate_modified_frames s = Inr (of_nat (modified (calculate_available_frames s)), s)"

definition sys_calculate_notmod_frames :: "kernel \<Rightarrow> uint32 result" where
  "sys_calculate_notmod_frames s = Inr (of_nat (freeBuffered (calculate_available_frames s)), s)"

definition sys_pf_calculate_allocated_pages :: "kernel \<Rightarrow> uint32 result" where
  "sys_pf_calculate_allocated_pages s =
     bindE (deref (curenv s)) (\<lambda>e. bindE (pf_calculate_allocated_pages e s) (\<lambda>(n, s). Inr (of_nat n, s)))"

definition sys_freeMem :: "uint32 \<Rightarrow> uint32 \<Rightarrow> kernel \<Rightarrow> unit result" where
  "sys_freeMem va sz s =
     bindE (deref (curenv s)) (\<lambda>e.
     if isBufferingEnabled s \<noteq> 0 then freeMem_with_buffering e va sz s
     else freeMem e va sz s)"

definition sys_allocateMem :: "uint32 \<Rightarrow> uint32 \<Rightarrow> kernel \<Rightarrow> unit result" where
  "sys_allocateMem va sz s =
     bindE (deref (curenv s)) (\<lambda>e. allocateMem e va sz s)"

definition sys_moveMem :: "uint32 \<Rightarrow> uint32 \<Rightarrow> uint32 \<Rightarrow> kernel \<Rightarrow> unit result" where
  "sys_moveMem src dst sz s = bindE (deref (curenv s)) (\<lambda>e. moveMem e src dst sz s)"

definition set_eflags :: "(uint32 \<Rightarrow> uint32) \<Rightarrow> kernel \<Rightarrow> unit result" where
  "set_eflags f s = bindE (deref (curenv s)) (\<lambda>c. Inr ((), upd_env c (\<lambda>en.
     en\<lparr>env_tf := (env_tf en)\<lparr>tf_eflags := f (tf_eflags (env_tf en))\<rparr>\<rparr>) s))"

definition sys_disable_interrupt :: "kernel \<Rightarrow> unit result" where
  "sys_disable_interrupt = set_eflags (\<lambda>w. w AND NOT FL_IF)"

definition sys_enable_interrupt :: "kernel \<Rightarrow> unit result" where
  "sys_enable_interrupt = set_eflags (\<lambda>w. w OR FL_IF)"

definition sys_clearFFL :: "kernel \<Rightarrow> unit result" where
  "sys_clearFFL s = bindE (drop_frames (length (free_frame_list s)) s) (\<lambda>s. Inr ((), s))"
section \<open>Semaphores, shared objects, environments\<close>

definition sys_createSemaphore :: "uint32 \<Rightarrow> uint32 \<Rightarrow> kernel \<Rightarrow> int result" where
  "sys_createSemaphore semaphoreName initialValue s =
     bindE (deref (curenv s)) (\<lambda>c.
     bindE (user_string semaphoreName s) (\<lambda>(name, s). createSemaphore (env_id (envs s c)) name initialValue s))"

definition sys_waitSemaphore :: "uint32 \<Rightarrow> uint32 \<Rightarrow> kernel \<Rightarrow> unit result" where
  "sys_waitSemaphore ownerEnvID semaphoreName s =
     bindE (user_string semaphoreName s) (\<lambda>(name, s). waitSemaphore ownerEnvID name s)"

definition sys_signalSemaphore :: "uint32 \<Rightarrow> uint32 \<Rightarrow> kernel \<Rightarrow> unit result" where
  "sys_signalSemaphore ownerEnvID semaphoreName s =
     bindE (user_string semaphoreName s) (\<lambda>(name, s). signalSemaphore ownerEnvID name s)"

definition sys_getSemaphoreValue :: "uint32 \<Rightarrow> uint32 \<Rightarrow> kernel \<Rightarrow> int result" where
  "sys_getSemaphoreValue ownerEnvID semaphoreName s =
     bindE (user_string semaphoreName s) (\<lambda>(name, s).
     let semID = get_semaphore_object_ID ownerEnvID name s in
     if \<not> (0 \<le> semID \<and> semID < int MAX_SEMAPHORES)
     then Inl (AssertFailed ''semID >= 0 && semID < MAX_SEMAPHORES'')
     else Inr (sem_value (semaphores s (nat semID)), s))"

definition sys_createSharedObject :: "uint32 \<Rightarrow> uint32 \<Rightarrow> uint8 \<Rightarrow> uint32 \<Rightarrow> kernel \<Rightarrow> int result" where
  "sys_createSharedObject shareName sz isWritable va s =
     bindE (deref (curenv s)) (\<lambda>c.
     bindE (user_string shareName s) (\<lambda>(name, s).
     createSharedObject (env_id (envs s c)) name sz isWritable va s))"

definition sys_getSizeOfSharedObject :: "uint32 \<Rightarrow> uint32 \<Rightarrow> kernel \<Rightarrow> int result" where
  "sys_getSizeOfSharedObject ownerID shareName s =
     bindE (user_string shareName s) (\<lambda>(name, s). getSizeOfSharedObject ownerID name s)"

definition sys_getSharedObject :: "uint32 \<Rightarrow> uint32 \<Rightarrow> uint32 \<Rightarrow> kernel \<Rightarrow> int result" where
  "sys_getSharedObject ownerID shareName va s =
     bindE (user_string shareName s) (\<lambda>(name, s). getSharedObject ownerID name va s)"

definition sys_freeSharedObject :: "uint32 \<Rightarrow> uint32 \<Rightarrow> kernel \<Rightarrow> int result" where
  "sys_freeSharedObject sharedObjectID startVA = freeSharedObject (sint sharedObjectID) startVA"

definition sys_getMaxShares :: uint32 where
  "sys_getMaxShares = of_nat MAX_SHARES"

definition sys_create_env :: "uint32 \<Rightarrow> uint32 \<Rightarrow> uint32 \<Rightarrow> uint32 \<Rightarrow> kernel \<Rightarrow> uint32 result" where
  "sys_create_env programName page_WS_size LRU_second_list_size percent_WS_pages_to_remove s =
     bindE (user_string programName s) (\<lambda>(name, s).
     bindE (env_create name page_WS_size LRU_second_list_size percent_WS_pages_to_remove s) (\<lambda>(ep, s).
     case ep of
       None \<Rightarrow> Inr (of_int E_ENV_CREATION_ERROR, s)
     | Some e \<Rightarrow> bindE (sched_new_env (Some e) s) (\<lambda>s. Inr (env_id (envs s e), s))))"

definition sys_run_env :: "uint32 \<Rightarrow> kernel \<Rightarrow> unit outcome result" where
  "sys_run_env envId s = continue_with () (sched_run_env envId s)"

definition sys_free_env :: "uint32 \<Rightarrow> kernel \<Rightarrow> unit outcome result" where
  "sys_free_env envId s = continue_with () (sched_kill_env envId s)"

definition sys_get_virtual_time :: "hardware \<Rightarrow> uint32 \<times> uint32" where
  "sys_get_virtual_time hw = (tsc_low hw, tsc_hi hw)"

definition sys_rcr2 :: "kernel \<Rightarrow> uint32 result" where
  "sys_rcr2 s = Inr (cr2 s, s)"

definition upd_cfg :: "(config \<Rightarrow> config) \<Rightarrow> kernel \<Rightarrow> kernel" where
  "upd_cfg f s = s\<lparr>cfg := f (cfg s)\<rparr>"

definition sys_bypassPageFault :: "uint8 \<Rightarrow> kernel \<Rightarrow> kernel" where
  "sys_bypassPageFault instrLength = upd_cfg (\<lambda>c. c\<lparr>bypassInstrLength := instrLength\<rparr>)"

section \<open>Test counters, heap strategy\<close>

definition rsttst :: "kernel \<Rightarrow> kernel" where
  "rsttst = upd_cfg (\<lambda>c. c\<lparr>tstcnt := 0\<rparr>)"
definition inctst :: "kernel \<Rightarrow> kernel" where
  "inctst = upd_cfg (\<lambda>c. c\<lparr>tstcnt := tstcnt c + 1\<rparr>)"
definition gettst :: "kernel \<Rightarrow> uint32" where
  "gettst s = tstcnt (cfg s)"

text \<open>The characters are \<open>'l'\<close>, \<open>'g'\<close>, \<open>'e'\<close> and \<open>'b'\<close>; \<open>v2\<close> is not used.\<close>

definition tst :: "uint32 \<Rightarrow> uint32 \<Rightarrow> uint32 \<Rightarrow> uint8 \<Rightarrow> uint32 \<Rightarrow> kernel \<Rightarrow> unit result" where
  "tst n v1 v2 c negate s =
     (let chk = (if c = 108 then n < v1 \<or> negate \<noteq> 0
                 else if c = 103 then n > v1 \<or> negate \<noteq> 0
                 else if c = 101 then n = v1 \<or> negate \<noteq> 0
                 else if c = 98 then n \<ge> v1 \<and> n \<le> v1
                 else False)
      in if \<not> chk then Inl (Panic ''Error!! test fails'') else Inr ((), inctst s))"

definition chktst :: "uint32 \<Rightarrow> kernel \<Rightarrow> unit result" where
  "chktst n s = (if tstcnt (cfg s) = n then Inr ((), s) else Inl (Panic ''Error!! test fails at final''))"

definition sys_get_heap_strategy :: "kernel \<Rightarrow> uint32" where
  "sys_get_heap_strategy s = UHeapPlacementStrategy (cfg s)"
definition sys_set_uheap_strategy :: "uint32 \<Rightarrow> kernel \<Rightarrow> kernel" where
  "sys_set_uheap_strategy heapStrategy = upd_cfg (\<lambda>c. c\<lparr>UHeapPlacementStrategy := heapStrategy\<rparr>)"

section \<open>Checks of the LRU lists\<close>

text \<open>Whether the pages of the elements are those of the user array at \<open>a\<close>, in order.\<close>

fun list_matches :: "env \<Rightarrow> uint32 \<Rightarrow> nat list \<Rightarrow> kernel \<Rightarrow> bool result" where
  "list_matches en a [] s = Inr (True, s)"
| "list_matches en a (w # ws) s =
     bindE (cpu_load_word a s) (\<lambda>(v, s).
     if ROUNDDOWN (ws_va (ptr_pageWorkingSet en w)) PAGE_SIZE \<noteq> ROUNDDOWN v PAGE_SIZE then Inr (False, s)
     else list_matches en (a + 4) ws s)"

definition check_list :: "env \<Rightarrow> uint32 \<Rightarrow> nat list \<Rightarrow> uint32 \<Rightarrow> kernel \<Rightarrow> bool result" where
  "check_list en content ws actual_size s =
     (if content = 0 then Inr (True, s)
      else bindE (list_matches en content ws s) (\<lambda>(b, s). Inr (b \<and> of_nat (length ws) = actual_size, s)))"

definition sys_check_LRU_lists :: "uint32 \<Rightarrow> uint32 \<Rightarrow> uint32 \<Rightarrow> uint32 \<Rightarrow> kernel \<Rightarrow> int result" where
  "sys_check_LRU_lists active_list_content second_list_content actual_active_list_size actual_second_list_size s =
     bindE (deref (curenv s)) (\<lambda>c.
     bindE (check_list (envs s c) active_list_content (ActiveList (envs s c)) actual_active_list_size s) (\<lambda>(a, s).
     bindE (check_list (envs s c) second_list_content (SecondList (envs s c)) actual_second_list_size s) (\<lambda>(d, s).
     Inr (if a \<and> d then 1 else 0, s))))"

text \<open>Whether the page of \<open>va\<close> is among \<open>n\<close> entries of the array at \<open>a\<close>.\<close>

fun in_user_array :: "uint32 \<Rightarrow> uint32 \<Rightarrow> nat \<Rightarrow> kernel \<Rightarrow> bool result" where
  "in_user_array va a 0 s = Inr (False, s)"
| "in_user_array va a (Suc n) s =
     bindE (cpu_load_word a s) (\<lambda>(v, s).
     if ROUNDDOWN va PAGE_SIZE = ROUNDDOWN v PAGE_SIZE then Inr (True, s)
     else in_user_array va (a + 4) n s)"

fun any_in_user_array :: "env \<Rightarrow> nat list \<Rightarrow> uint32 \<Rightarrow> nat \<Rightarrow> kernel \<Rightarrow> bool result" where
  "any_in_user_array en [] a n s = Inr (False, s)"
| "any_in_user_array en (w # ws) a n s =
     bindE (in_user_array (ws_va (ptr_pageWorkingSet en w)) a n s) (\<lambda>(b, s).
     if b then Inr (True, s) else any_in_user_array en ws a n s)"

definition sys_check_LRU_lists_free :: "uint32 \<Rightarrow> uint32 \<Rightarrow> kernel \<Rightarrow> int result" where
  "sys_check_LRU_lists_free list_content list_size s =
     bindE (deref (curenv s)) (\<lambda>c.
     let en = envs s c; n = nat (sint list_size) in
     bindE (any_in_user_array en (ActiveList en) list_content n s) (\<lambda>(b, s).
     if b then Inr (1, s)
     else bindE (any_in_user_array en (SecondList en) list_content n s) (\<lambda>(b, s). Inr (if b then 1 else 0, s))))"
section \<open>Dispatch\<close>

datatype sysno =
    SYS_cputs | SYS_cgetc | SYS_getenvid | SYS_getenvindex | SYS_getparentenvid | SYS_env_destroy
  | SYS_env_exit | SYS_allocate_page | SYS_map_frame | SYS_unmap_frame | SYS_calc_req_frames
  | SYS_calc_free_frames | SYS_calc_modified_frames | SYS_calc_notmod_frames
  | SYS_pf_calc_allocated_pages | SYS_calculate_pages_tobe_removed_ready_exit | SYS_scarce_memory
  | SYS_freeMem | SYS_allocateMem | SYS_moveMem | SYS_disableINTR | SYS_enableINTR | SYS_cputc
  | SYS_clearFFL | SYS_create_semaphore | SYS_wait_semaphore | SYS_signal_semaphore
  | SYS_get_semaphore_value | SYS_create_shared_object | SYS_get_size_of_shared_object
  | SYS_get_shared_object | SYS_free_shared_object | SYS_get_max_shares | SYS_create_env | SYS_run_env
  | SYS_free_env | SYS_get_virtual_time | SYS_rcr2 | SYS_bypassPageFault | SYS_testNum | SYS_rsttst
  | SYS_chktst | SYS_inctst | SYS_gettst | SYS_get_heap_strategy | SYS_set_heap_strategy
  | SYS_check_LRU_lists | SYS_check_LRU_lists_free

text \<open>The enumeration in the order of the header; its last member, \<open>NSYSCALLS\<close>, is the length.\<close>

definition sysnos :: "sysno list" where
  "sysnos = [SYS_cputs, SYS_cgetc, SYS_getenvid, SYS_getenvindex, SYS_getparentenvid, SYS_env_destroy,
     SYS_env_exit, SYS_allocate_page, SYS_map_frame, SYS_unmap_frame, SYS_calc_req_frames,
     SYS_calc_free_frames, SYS_calc_modified_frames, SYS_calc_notmod_frames,
     SYS_pf_calc_allocated_pages, SYS_calculate_pages_tobe_removed_ready_exit, SYS_scarce_memory,
     SYS_freeMem, SYS_allocateMem, SYS_moveMem, SYS_disableINTR, SYS_enableINTR, SYS_cputc,
     SYS_clearFFL, SYS_create_semaphore, SYS_wait_semaphore, SYS_signal_semaphore,
     SYS_get_semaphore_value, SYS_create_shared_object, SYS_get_size_of_shared_object,
     SYS_get_shared_object, SYS_free_shared_object, SYS_get_max_shares, SYS_create_env, SYS_run_env,
     SYS_free_env, SYS_get_virtual_time, SYS_rcr2, SYS_bypassPageFault, SYS_testNum, SYS_rsttst,
     SYS_chktst, SYS_inctst, SYS_gettst, SYS_get_heap_strategy, SYS_set_heap_strategy,
     SYS_check_LRU_lists, SYS_check_LRU_lists_free]"

text \<open>Results as the dispatcher returns them: a word, 0 for a call without a result.\<close>

definition ret_val :: "uint32 result \<Rightarrow> uint32 outcome result" where
  "ret_val r = bindE r (\<lambda>(v, s). Inr (Ret v, s))"

definition ret_int :: "int result \<Rightarrow> uint32 outcome result" where
  "ret_int r = bindE r (\<lambda>(v, s). Inr (Ret (of_int v), s))"

definition ret_0 :: "'a result \<Rightarrow> uint32 outcome result" where
  "ret_0 r = bindE r (\<lambda>(_, s). Inr (Ret 0, s))"

definition ret_out :: "('a \<Rightarrow> uint32) \<Rightarrow> 'a outcome result \<Rightarrow> uint32 outcome result" where
  "ret_out f r = bindE r (\<lambda>(c, s). Inr (case c of Ret v \<Rightarrow> Ret (f v) | Away k \<Rightarrow> Away k, s))"

definition call :: "hardware \<Rightarrow> sysno \<Rightarrow> uint32 \<Rightarrow> uint32 \<Rightarrow> uint32 \<Rightarrow> uint32 \<Rightarrow> uint32 \<Rightarrow> kernel \<Rightarrow>
    uint32 outcome result" where
  "call hw n a1 a2 a3 a4 a5 s =
     (case n of
        SYS_cputs \<Rightarrow> ret_0 (sys_cputs a1 a2 (ucast a3) s)
      | SYS_cgetc \<Rightarrow> ret_int (sys_cgetc hw s)
      | SYS_getenvid \<Rightarrow> ret_val (sys_getenvid s)
      | SYS_getenvindex \<Rightarrow> ret_val (sys_getenvindex s)
      | SYS_getparentenvid \<Rightarrow> ret_val (sys_getparentenvid s)
      | SYS_env_destroy \<Rightarrow> ret_out of_int (sys_env_destroy a1 s)
      | SYS_env_exit \<Rightarrow> ret_out (\<lambda>_. 0) (sys_env_exit s)
      | SYS_allocate_page \<Rightarrow> ret_0 (sys_allocate_page a1 a2 s)
      | SYS_map_frame \<Rightarrow> ret_0 (sys_map_frame a1 a2 a3 a4 a5 s)
      | SYS_unmap_frame \<Rightarrow> ret_0 (sys_unmap_frame a1 a2 s)
      | SYS_calc_req_frames \<Rightarrow> ret_val (sys_calculate_required_frames a1 a2 s)
      | SYS_calc_free_frames \<Rightarrow> ret_val (sys_calculate_free_frames s)
      | SYS_calc_modified_frames \<Rightarrow> ret_val (sys_calculate_modified_frames s)
      | SYS_calc_notmod_frames \<Rightarrow> ret_val (sys_calculate_notmod_frames s)
      | SYS_pf_calc_allocated_pages \<Rightarrow> ret_val (sys_pf_calculate_allocated_pages s)
      | SYS_calculate_pages_tobe_removed_ready_exit \<Rightarrow>
          bindE (calc_no_pages_tobe_removed_from_ready_exit_queues a1 s) (\<lambda>v. Inr (Ret v, s))
      | SYS_scarce_memory \<Rightarrow> ret_0 (scarce_memory s)
      | SYS_freeMem \<Rightarrow> ret_0 (sys_freeMem a1 a2 s)
      | SYS_allocateMem \<Rightarrow> ret_0 (sys_allocateMem a1 a2 s)
      | SYS_moveMem \<Rightarrow> ret_0 (sys_moveMem a1 a2 a3 s)
      | SYS_disableINTR \<Rightarrow> ret_0 (sys_disable_interrupt s)
      | SYS_enableINTR \<Rightarrow> ret_0 (sys_enable_interrupt s)
      | SYS_cputc \<Rightarrow> ret_0 (sys_cputc (ucast a1) s)
      | SYS_clearFFL \<Rightarrow> ret_0 (sys_clearFFL s)
      | SYS_create_semaphore \<Rightarrow> ret_int (sys_createSemaphore a1 a2 s)
      | SYS_wait_semaphore \<Rightarrow> ret_0 (sys_waitSemaphore a1 a2 s)
      | SYS_signal_semaphore \<Rightarrow> ret_0 (sys_signalSemaphore a1 a2 s)
      | SYS_get_semaphore_value \<Rightarrow> ret_int (sys_getSemaphoreValue a1 a2 s)
      | SYS_create_shared_object \<Rightarrow> ret_int (sys_createSharedObject a1 a2 (ucast a3) a4 s)
      | SYS_get_size_of_shared_object \<Rightarrow> ret_int (sys_getSizeOfSharedObject a1 a2 s)
      | SYS_get_shared_object \<Rightarrow> ret_int (sys_getSharedObject a1 a2 a3 s)
      | SYS_free_shared_object \<Rightarrow> ret_int (sys_freeSharedObject a1 a2 s)
      | SYS_get_max_shares \<Rightarrow> Inr (Ret sys_getMaxShares, s)
      | SYS_create_env \<Rightarrow> ret_val (sys_create_env a1 a2 a3 a4 s)
      | SYS_run_env \<Rightarrow> ret_out (\<lambda>_. 0) (sys_run_env a1 s)
      | SYS_free_env \<Rightarrow> ret_out (\<lambda>_. 0) (sys_free_env a1 s)
      | SYS_get_virtual_time \<Rightarrow>
          bindE (cpu_store_word a1 (fst (sys_get_virtual_time hw)) s) (\<lambda>s.
          bindE (cpu_store_word a2 (snd (sys_get_virtual_time hw)) s) (\<lambda>s. Inr (Ret 0, s)))
      | SYS_rcr2 \<Rightarrow> ret_val (sys_rcr2 s)
      | SYS_bypassPageFault \<Rightarrow> Inr (Ret 0, sys_bypassPageFault (ucast a1) s)
      | SYS_testNum \<Rightarrow> ret_0 (tst a1 a2 a3 (ucast a4) a5 s)
      | SYS_rsttst \<Rightarrow> Inr (Ret 0, rsttst s)
      | SYS_chktst \<Rightarrow> ret_0 (chktst a1 s)
      | SYS_inctst \<Rightarrow> Inr (Ret 0, inctst s)
      | SYS_gettst \<Rightarrow> Inr (Ret (gettst s), s)
      | SYS_get_heap_strategy \<Rightarrow> Inr (Ret (sys_get_heap_strategy s), s)
      | SYS_set_heap_strategy \<Rightarrow> Inr (Ret 0, sys_set_uheap_strategy a1 s)
      | SYS_check_LRU_lists \<Rightarrow> ret_int (sys_check_LRU_lists a1 a2 a3 a4 s)
      | SYS_check_LRU_lists_free \<Rightarrow> ret_int (sys_check_LRU_lists_free a1 a2 s))"

definition syscall :: "hardware \<Rightarrow> uint32 \<Rightarrow> uint32 \<Rightarrow> uint32 \<Rightarrow> uint32 \<Rightarrow> uint32 \<Rightarrow> uint32 \<Rightarrow> kernel \<Rightarrow>
    uint32 outcome result" where
  "syscall hw syscallno a1 a2 a3 a4 a5 s =
     (if unat syscallno < length sysnos then call hw (sysnos ! unat syscallno) a1 a2 a3 a4 a5 s
      else Inr (Ret (of_int (- E_INVAL)), s))"

section \<open>Lemmas and properties\<close>

lemma user_page_index: "va < USER_TOP \<Longrightarrow> pdx va < pdx USER_TOP"
proof -
  assume "va < USER_TOP"
  then have "unat va < 955 * 2 ^ 22" by (simp add: word_less_nat_alt layout_defs)
  then have "unat va div 2 ^ 22 < 955" by (simp add: div_less_iff_less_mult)
  then show ?thesis unfolding UPDES_USER_TOP [symmetric] by (simp add: UPDES_def pdx_def unat_PDX)
qed

lemma user_permissions:
  assumes "perm AND (NOT PERM_AVAILABLE AND NOT PERM_WRITEABLE) = PERM_USER"
  shows "perm AND NOT 0xFFF = 0"
proof -
  have "NOT 0xFFF = (NOT PERM_AVAILABLE AND NOT PERM_WRITEABLE) AND (NOT 0xFFF :: uint32)"
    by (simp add: perm_defs)
  then have "perm AND NOT 0xFFF = (perm AND (NOT PERM_AVAILABLE AND NOT PERM_WRITEABLE)) AND NOT 0xFFF"
    by (simp only: and.assoc)
  also have "\<dots> = 0" unfolding assms by (simp add: PERM_USER_def)
  finally show ?thesis .
qed

lemma map_zero_page:
  assumes "aspace_ok s pd" and "free_frame_list s = f # g # fs" and va: "pdx va < UPDES" and perm: "perm AND NOT 0xFFF = 0"
  shows "\<exists>s'. map_frame pd f va perm (wr_page f zero_page (s\<lparr>free_frame_list := g # fs\<rparr>)) = Inr (0, s') \<and> aspace_ok s' pd
    \<and> check_va2pa pd va s' = Inr (to_physical_address f, s') \<and> pmem s' f = zero_page
    \<and> (\<forall>k l. k < UPDES \<and> l < 1024 \<and> (k, l) \<noteq> (pdx va, ptx va) \<longrightarrow> pte_at s' pd k l = pte_at s pd k l)"
proof -
  have fr: "frames_ok s" using assms(1) by (simp add: aspace_ok_def)
  let ?s = "wr_page f zero_page (s\<lparr>free_frame_list := g # fs\<rparr>)"
  note al = allocate_frame_aspace [OF assms(1) allocate_frame_Cons [OF fr assms(2)]]
  note w = aspace_wr_page_unused [OF al(1,5), where p = zero_page]
  have f: "f < number_of_frames ?s" "f \<notin> set (free_frame_list ?s)" "references (frames_info ?s f) \<noteq> 0xFFFF"
    using al(2,3,6) by simp_all
  obtain r s' where m: "map_frame pd f va perm ?s = Inr (r, s')"
    using map_frame_returns [OF w(1) va] by fastforce
  note ml = map_frame_lemma [OF w(1) va f perm m]
  have "f \<noteq> pd" using al(5) by (auto simp: is_table_def)
  then have "is_table ?s pd f = is_table (s\<lparr>free_frame_list := g # fs\<rparr>) pd f"
    by (simp add: is_table_def tbl_def rd_wr_page)
  then have "pmem s' f = pmem ?s f" using map_frame_pmem [OF w(1) va m f(2)] al(5) by simp
  then have "pmem s' f = zero_page" by (simp add: wr_page_def)
  moreover have "EXTRACT_ADDRESS (pte_at s' pd (pdx va) (ptx va)) = to_physical_address f"
    using ml(4) PPN_to_pa_roundtrip by metis
  then have "check_va2pa pd va s' = Inr (to_physical_address f, s')"
    using ml(2,3) check_va2pa_ok [OF _ va, of s' pd] by (simp add: aspace_ok_def)
  moreover have "pte_at s' pd k l = pte_at s pd k l" if "k < UPDES \<and> l < 1024 \<and> (k, l) \<noteq> (pdx va, ptx va)" for k l
    using ml(5) [of k l] w(2) [of k l] al(7) that by simp
  ultimately show ?thesis using m ml(1,2) by auto
qed

text \<open>C9: \<open>__sys_allocate_page\<close> on valid arguments maps a frame that was free and holds zeros
  at \<open>va\<close>, keeps every other mapping and the address-space invariant, and returns 0. On an address
  or permissions that are not allowed it returns \<open>E_INVAL\<close>, but the frame it took from the free list is
  lost.\<close>

theorem sys_allocate_page_correct:
  assumes "curenv s = Some e" and "env_page_directory (envs s e) = Some pd" and "aspace_ok s pd"
    and "free_frame_list s = f # g # fs"
  shows "if va < USER_TOP \<and> va mod PAGE_SIZE = 0
          \<and> perm AND (NOT PERM_AVAILABLE AND NOT PERM_WRITEABLE) = PERM_USER
    then \<exists>s'. sys_allocate_page va perm s = Inr (0, s') \<and> aspace_ok s' pd
        \<and> check_va2pa pd va s' = Inr (to_physical_address f, s') \<and> pmem s' f = zero_page
        \<and> (\<forall>k l. k < UPDES \<and> l < 1024 \<and> (k, l) \<noteq> (pdx va, ptx va) \<longrightarrow> pte_at s' pd k l = pte_at s pd k l)
    else sys_allocate_page va perm s = Inr (E_INVAL, s\<lparr>free_frame_list := g # fs\<rparr>)"
proof -
  have fr: "frames_ok s" using assms(3) by (simp add: aspace_ok_def)
  note a = allocate_frame_Cons [OF fr assms(4)]
  let ?s = "wr_page f zero_page (s\<lparr>free_frame_list := g # fs\<rparr>)"
  show ?thesis
  proof (cases "va < USER_TOP \<and> va mod PAGE_SIZE = 0
          \<and> perm AND (NOT PERM_AVAILABLE AND NOT PERM_WRITEABLE) = PERM_USER")
    case True
    have "pdx va < UPDES" "perm AND NOT 0xFFF = 0"
      using True user_page_index user_permissions by (auto simp: UPDES_USER_TOP)
    from map_zero_page [OF assms(3,4) this] obtain s' where s': "map_frame pd f va perm ?s = Inr (0, s')" "aspace_ok s' pd"
      "check_va2pa pd va s' = Inr (to_physical_address f, s')" "pmem s' f = zero_page"
      "\<forall>k l. k < UPDES \<and> l < 1024 \<and> (k, l) \<noteq> (pdx va, ptx va) \<longrightarrow> pte_at s' pd k l = pte_at s pd k l" by blast
    have "curenv ?s = Some e" "env_page_directory (envs ?s e) = Some pd" "\<not> USER_TOP \<le> va"
      using assms(1,2) True by (simp_all add: wr_page_def not_le)
    then have "sys_allocate_page va perm s = Inr (0, s')" using True s'(1) by (simp add: sys_allocate_page_def a)
    then show ?thesis using True s'(2-5) by auto
  next
    case False
    then show ?thesis by (auto simp: sys_allocate_page_def a not_less)
  qed
qed

theorem sys_allocate_page_correct_witness:
  "\<exists>s'. sys_allocate_page 0x800000 6 (tiny\<lparr>curenv := Some 0\<rparr>) = Inr (0, s')
     \<and> check_va2pa 3 0x800000 s' = Inr (0x4000, s')"
proof -
  let ?s = "tiny\<lparr>curenv := Some 0\<rparr>"
  have h: "curenv ?s = Some 0" "env_page_directory (envs ?s 0) = Some 3"
    "free_frame_list ?s = 4 # 5 # [6, 7, 8, 9, 10, 11, 12, 13, 14, 15]" by (simp_all add: tiny_def)
  have "aspace_ok ?s 3"
  proof -
    have "pmem ?s = pmem tiny" by simp
    from aspace_cong [OF this, of 3] tiny_aspace show ?thesis
      by (simp add: aspace_ok_def refs_ok_def frames_ok_def)
  qed
  from sys_allocate_page_correct [OF h(1,2) this h(3), of "0x800000" "PERM_USER OR PERM_WRITEABLE"]
  show ?thesis by (simp add: to_physical_address_def layout_defs PAGE_SIZE_def perm_defs) blast
qed
lemma sys_clearFFL_empties: "frames_ok s \<Longrightarrow> sys_clearFFL s = Inr ((), s\<lparr>free_frame_list := []\<rparr>)"
  using drop_frames_eq(1) [of s "length (free_frame_list s)"] by (simp add: sys_clearFFL_def)

lemma sysnos_all: "length sysnos = 48" "distinct sysnos" "\<exists>i<48. sysnos ! i = n"
proof -
  show l: "length sysnos = 48" and "distinct sysnos" by (simp_all add: sysnos_def)
  have "n \<in> set sysnos" by (cases n) (simp_all add: sysnos_def)
  then show "\<exists>i<48. sysnos ! i = n" unfolding in_set_conv_nth l .
qed

text \<open>A number that names no system call returns 3 and changes nothing: the dispatcher negates
  \<open>E_INVAL\<close>, which is negative already, so the caller that tests for a negative result takes
  it for a success. Every other number reaches a call.\<close>

theorem syscall_bad_number:
  assumes "48 \<le> unat n"
  shows "syscall hw n a1 a2 a3 a4 a5 s = Inr (Ret 3, s) \<and> \<not> sint (3 :: uint32) < 0"
  using assms by (simp add: syscall_def sysnos_all(1) E_INVAL_def)

theorem syscall_bad_number_witness:
  "syscall \<lparr>cons_getc2 = 0, tsc_low = 0, tsc_hi = 0\<rparr> 48 1 2 3 4 5 tiny = Inr (Ret 3, tiny)"
proof -
  have "48 \<le> unat (48 :: uint32)" by simp
  from syscall_bad_number [OF this] show ?thesis by blast
qed

end
