(* ===== verification/Trap_Dispatch.thy ===== *)
theory Trap_Dispatch
  imports Syscalls
begin

text \<open>
  Traps (\<^verbatim>\<open>kern/trap.c\<close>): \<open>trap\<close>, which saves the frame of an interrupted user, dispatches on the trap
  number, and resumes an environment or the interrupted kernel code. The way into it, from the interrupt to
  the trap frame, and out of it is \<open>Trap_Entry\<close>.
\<close>

section \<open>Trap numbers\<close>

definition T_PGFLT :: uint32 where "T_PGFLT = 14"
definition T_DBLFLT :: uint32 where "T_DBLFLT = 8"
definition T_SYSCALL :: uint32 where "T_SYSCALL = 48"
definition IRQ0_Clock :: uint32 where "IRQ0_Clock = 32"
definition GD_KT :: uint16 where "GD_KT = 0x08"
definition GD_KD :: uint16 where "GD_KD = 0x10"

definition excnames :: "string list" where
  "excnames = [''Divide error'', ''Debug'', ''Non-Maskable Interrupt'', ''Breakpoint'', ''Overflow'',
     ''BOUND Range Exceeded'', ''Invalid Opcode'', ''Device Not Available'', ''Double Fault'',
     ''Coprocessor Segment Overrun'', ''Invalid TSS'', ''Segment Not Present'', ''Stack Fault'',
     ''General Protection'', ''Page Fault'', ''(unknown trap)'', ''x87 FPU Floating-Point Error'',
     ''Alignment Check'', ''Machine-Check'', ''SIMD Floating-Point Exception'']"

text \<open>The comparison with the size of the array is unsigned.\<close>

definition trapname :: "uint32 \<Rightarrow> string" where
  "trapname trapno =
     (if unat trapno < length excnames then excnames ! unat trapno
      else if trapno = T_SYSCALL then ''System call''
      else ''(unknown trap)'')"

section \<open>Dispatch\<close>

text \<open>Where the trap frame lies: in the environment that was interrupted, or on the kernel stack.\<close>

datatype frame_place = Saved nat | Stacked trapframe

definition frame_at :: "frame_place \<Rightarrow> kernel \<Rightarrow> trapframe" where
  "frame_at p s = (case p of Saved c \<Rightarrow> env_tf (envs s c) | Stacked tf \<Rightarrow> tf)"

definition upd_frame :: "(trapframe \<Rightarrow> trapframe) \<Rightarrow> frame_place \<Rightarrow> kernel \<Rightarrow> frame_place \<times> kernel" where
  "upd_frame f p s =
     (case p of
        Saved c \<Rightarrow> (Saved c, upd_env c (\<lambda>en. en\<lparr>env_tf := f (env_tf en)\<rparr>) s)
      | Stacked tf \<Rightarrow> (Stacked (f tf), s))"

definition trap_dispatch :: "hardware \<Rightarrow> frame_place \<Rightarrow> kernel \<Rightarrow> frame_place outcome result" where
  "trap_dispatch hw p s =
     (let tf = frame_at p s in
      if tf_trapno tf = T_PGFLT then bindE (fault_handler (tf_cs tf) s) (\<lambda>(_, s). Inr (Ret p, s))
      else if tf_trapno tf = T_SYSCALL then
        bindE (syscall hw (reg_eax tf) (reg_edx tf) (reg_ecx tf) (reg_ebx tf) (reg_edi tf) (reg_esi tf) s)
          (\<lambda>(r, s). case r of
             Away c \<Rightarrow> Inr (Away c, s)
           | Ret v \<Rightarrow> (let (p, s) = upd_frame (\<lambda>tf. tf\<lparr>reg_eax := v\<rparr>) p s in Inr (Ret p, s)))
      else if tf_trapno tf = T_DBLFLT then Inl (Panic ''double fault!!'')
      else if tf_trapno tf = IRQ0_Clock then continue_with p (clock_interrupt_handler s)
      else if tf_cs tf = GD_KT then Inl (Panic ''unhandled trap in kernel'')
      else Inr (Ret p, s))"

text \<open>What runs after the trap: the user code of an environment, the interrupted kernel code, or the
  command prompt.\<close>

datatype resumed = User nat | Kernel trapframe | Prompt

definition resume_of :: "control \<Rightarrow> halt + resumed" where
  "resume_of c = (case c of Runs e \<Rightarrow> Inr (User e) | CommandPrompt \<Rightarrow> Inr Prompt
     | Returns \<Rightarrow> Inl (AssertFailed ''unreachable''))"

definition run_cur :: "kernel \<Rightarrow> resumed result" where
  "run_cur s = bindE (deref (curenv s)) (\<lambda>c. Inr (User c, env_run c s))"

text \<open>The page fault that a test asks to skip: the instruction pointer moves over the instruction.\<close>

definition bypass :: "frame_place \<Rightarrow> kernel \<Rightarrow> resumed result" where
  "bypass p s =
     (let (p, s) = upd_frame (\<lambda>tf. tf\<lparr>tf_eip := tf_eip tf + ucast (bypassInstrLength (cfg s))\<rparr>) p s in
      case p of Saved c \<Rightarrow> run_cur s | Stacked tf \<Rightarrow> Inr (Kernel tf, kclock_resume s))"

definition trap :: "hardware \<Rightarrow> trapframe \<Rightarrow> kernel \<Rightarrow> resumed result" where
  "trap hw tf s =
     (let s = kclock_stop s; userTrap = (tf_cs tf AND 3 = 3) in
      bindE (if userTrap then
               (case curenv s of
                  None \<Rightarrow> Inl (AssertFailed ''curenv'')
                | Some c \<Rightarrow> Inr (Saved c, upd_env c (\<lambda>en. en\<lparr>env_tf := tf\<rparr>) s))
             else Inr (Stacked tf, s)) (\<lambda>(p, s).
      let s = (case p of
                 Saved c \<Rightarrow> if tf_trapno tf = IRQ0_Clock
                            then upd_env c (\<lambda>en. en\<lparr>nClocks := nClocks en + 1\<rparr>) s else s
               | Stacked _ \<Rightarrow> s) in
      if tf_trapno tf = T_PGFLT \<and> bypassInstrLength (cfg s) \<noteq> 0 then bypass p s
      else
        bindE (trap_dispatch hw p s) (\<lambda>(r, s).
        case r of
          Away c \<Rightarrow> bindE (resume_of c) (\<lambda>k. Inr (k, s))
        | Ret (Stacked tf) \<Rightarrow> Inr (Kernel tf, s)
        | Ret (Saved _) \<Rightarrow>
            (case curenv s of
               None \<Rightarrow> Inl (AssertFailed ''curenv && curenv->env_status == ENV_RUNNABLE'')
             | Some c \<Rightarrow> if env_status (envs s c) = ENV_RUNNABLE then run_cur s
                         else Inl (AssertFailed ''curenv && curenv->env_status == ENV_RUNNABLE'')))))"
section \<open>Properties\<close>

text \<open>A clock interrupt that arrives while user code runs.\<close>

definition user_clock :: "trapframe \<Rightarrow> bool" where
  "user_clock tf \<longleftrightarrow> tf_cs tf AND 3 = 3 \<and> tf_trapno tf = IRQ0_Clock"

text \<open>The environments that are resumed by a sequence of clock interrupts.\<close>

fun clock_ticks :: "hardware \<Rightarrow> trapframe list \<Rightarrow> kernel \<Rightarrow> halt + nat list \<times> kernel" where
  "clock_ticks hw [] s = Inr ([], s)"
| "clock_ticks hw (tf # tfs) s =
     bindE (trap hw tf s) (\<lambda>(k, s).
     case k of
       User e \<Rightarrow> bindE (clock_ticks hw tfs s) (\<lambda>(es, s). Inr (e # es, s))
     | _ \<Rightarrow> Inr ([], s))"

lemma kclock_stop_frame: "\<exists>t. kclock_stop s = s\<lparr>clock := t\<rparr>"
proof -
  obtain a where a: "outb_TIMER_MODE TIMER_RATE16 s = s\<lparr>clock := a\<rparr>" using clock_frame(2) by blast
  obtain b where "irq_setmask_8259A 0xFFFF (s\<lparr>clock := a\<rparr>) = s\<lparr>clock := a\<rparr>\<lparr>clock := b\<rparr>"
    using clock_frame(1) by blast
  then show ?thesis using a by (intro exI [of _ b]) (simp add: kclock_stop_def)
qed

lemma env_run_frame:
  "env_tf (envs (env_run e s) x) = env_tf (envs s x)" "env_cr3 (envs (env_run e s) x) = env_cr3 (envs s x)"
  "pmem (env_run e s) = pmem s"
proof -
  obtain t where t: "env_run e s = upd_env e (\<lambda>en. en\<lparr>env_status := ENV_RUNNABLE\<rparr>)
    (if curenv s \<noteq> Some e then
       let s = upd_env e (\<lambda>en. en\<lparr>env_runs := env_runs en + 1\<rparr>) (s\<lparr>curenv := Some e\<rparr>)
       in s\<lparr>cr3 := env_cr3 (envs s e)\<rparr> else s)\<lparr>clock := t\<rparr>"
    using kclock_resume_frame by (auto simp: env_run_def Let_def)
  show "env_tf (envs (env_run e s) x) = env_tf (envs s x)" "env_cr3 (envs (env_run e s) x) = env_cr3 (envs s x)"
    "pmem (env_run e s) = pmem s"
    unfolding t by (simp_all add: Let_def upd_env_def)
qed

lemma trap_clock:
  assumes ok: "sched_ok s" and c: "curenv s = Some c" and tf: "user_clock tf"
    and l: "c # env_ready_queue s = l @ [e]" and d: "distinct (c # env_ready_queue s)"
  shows "\<exists>s'. trap hw tf s = Inr (User e, s') \<and> sched_ok s' \<and> curenv s' = Some e \<and> env_ready_queue s' = l
    \<and> (\<forall>x. env_tf (envs s' x) = (if x = c then tf else env_tf (envs s x)))
    \<and> cr3 s' = (if e = c then cr3 s else env_cr3 (envs s e)) \<and> (\<forall>x. env_cr3 (envs s' x) = env_cr3 (envs s x))
    \<and> pmem s' = pmem s"
proof -
  obtain t where t: "kclock_stop s = s\<lparr>clock := t\<rparr>" using kclock_stop_frame by blast
  let ?s = "upd_env c (\<lambda>en. en\<lparr>nClocks := nClocks en + 1\<rparr>) (upd_env c (\<lambda>en. en\<lparr>env_tf := tf\<rparr>) (s\<lparr>clock := t\<rparr>))"
  have frame: "sched_ok ?s" "rr_list (curenv ?s) (env_ready_queue ?s) = l @ [e]"
    "distinct (rr_list (curenv ?s) (env_ready_queue ?s))"
    using ok c l d by (simp_all add: sched_ok_def upd_env_def rr_list_def)
  obtain t' where f: "fos_scheduler ?s =
      Inr (Runs e, env_run e (?s\<lparr>scheduler_status := SCH_STARTED, env_ready_queue := l, clock := t'\<rparr>))"
    using fos_scheduler_runs [OF frame(1,3,2)] by blast
  have at: "frame_at (Saved c) ?s = tf" by (simp add: frame_at_def upd_env_def)
  have n: "tf_trapno tf = IRQ0_Clock" "IRQ0_Clock \<noteq> T_PGFLT" "IRQ0_Clock \<noteq> T_SYSCALL" "IRQ0_Clock \<noteq> T_DBLFLT"
    "tf_cs tf AND 3 = 3"
    using tf by (simp_all add: user_clock_def IRQ0_Clock_def T_PGFLT_def T_SYSCALL_def T_DBLFLT_def)
  have "trap_dispatch hw (Saved c) ?s = continue_with (Saved c) (fos_scheduler ?s)"
    using n by (simp only: trap_dispatch_def at Let_def clock_interrupt_handler_def) simp
  then have td: "trap_dispatch hw (Saved c) ?s =
      Inr (Away (Runs e), env_run e (?s\<lparr>scheduler_status := SCH_STARTED, env_ready_queue := l, clock := t'\<rparr>))"
    unfolding f by (simp add: continue_with_def)
  have "curenv (s\<lparr>clock := t\<rparr>) = Some c" using c by simp
  then have "trap hw tf s = Inr (User e, env_run e (?s\<lparr>scheduler_status := SCH_STARTED, env_ready_queue := l, clock := t'\<rparr>))"
    using n td by (simp add: trap_def t resume_of_def)
  then show ?thesis using ok c by (auto simp: env_run_sel env_run_frame sched_ok_def upd_env_def)
qed

lemma clock_ticks_rotate:
  assumes "sched_ok s" and "curenv s = Some c" and "c # env_ready_queue s = us @ vs" and "distinct (us @ vs)"
    and "length tfs = length vs" and "\<forall>tf \<in> set tfs. user_clock tf"
  shows "\<exists>s'. clock_ticks hw tfs s = Inr (rev vs, s') \<and> sched_ok s' \<and> curenv s' \<noteq> None
    \<and> rr_list (curenv s') (env_ready_queue s') = vs @ us
    \<and> (\<forall>i < length vs. env_tf (envs s' ((c # rev vs) ! i)) = tfs ! i)
    \<and> (\<forall>x. x \<notin> set (take (length vs) (c # rev vs)) \<longrightarrow> env_tf (envs s' x) = env_tf (envs s x))
    \<and> pmem s' = pmem s"
  using assms
proof (induction vs arbitrary: us s c tfs rule: rev_induct)
  case Nil
  then show ?case by (simp add: rr_list_def)
next
  case (snoc e vs)
  obtain tf tfs' where tfs: "tfs = tf # tfs'" using snoc.prems(5) by (cases tfs) auto
  have l: "c # env_ready_queue s = (us @ vs) @ [e]" "distinct (c # env_ready_queue s)"
    using snoc.prems(3,4) by simp_all
  obtain s1 where s1: "trap hw tf s = Inr (User e, s1)" "sched_ok s1" "curenv s1 = Some e" "env_ready_queue s1 = us @ vs"
    "\<forall>x. env_tf (envs s1 x) = (if x = c then tf else env_tf (envs s x))" "pmem s1 = pmem s"
    using trap_clock [OF snoc.prems(1,2) _ l] snoc.prems(6) tfs by fastforce
  have "e # env_ready_queue s1 = (e # us) @ vs" "distinct ((e # us) @ vs)" "length tfs' = length vs"
    "\<forall>tf \<in> set tfs'. user_clock tf"
    using s1(4) snoc.prems(4-6) tfs by auto
  from snoc.IH [OF s1(2,3) this] obtain s' where s': "clock_ticks hw tfs' s1 = Inr (rev vs, s')" "sched_ok s'" "curenv s' \<noteq> None"
    "rr_list (curenv s') (env_ready_queue s') = vs @ e # us"
    "\<forall>i < length vs. env_tf (envs s' ((e # rev vs) ! i)) = tfs' ! i"
    "\<forall>x. x \<notin> set (take (length vs) (e # rev vs)) \<longrightarrow> env_tf (envs s' x) = env_tf (envs s1 x)"
    "pmem s' = pmem s1" by auto
  have c: "c \<notin> set (take (length vs) (e # rev vs))"
  proof (cases vs)
    case Nil
    then show ?thesis by simp
  next
    case (Cons v ws)
    have "take (length vs) (e # rev vs) = e # rev ws" by (simp add: Cons)
    moreover have "c \<in> set us \<or> us = [] \<and> c = v" using l(1) Cons by (cases us) auto
    ultimately show ?thesis using snoc.prems(4) Cons by auto
  qed
  have "clock_ticks hw tfs s = Inr (rev (vs @ [e]), s')" by (simp add: tfs s1(1) s'(1))
  moreover have "rr_list (curenv s') (env_ready_queue s') = (vs @ [e]) @ us" using s'(4) by simp
  moreover have "env_tf (envs s' ((c # rev (vs @ [e])) ! i)) = tfs ! i" if "i < length (vs @ [e])" for i
  proof (cases i)
    case 0
    then show ?thesis using s'(6) c s1(5) tfs by simp
  next
    case (Suc j)
    then show ?thesis using s'(5) that tfs by simp
  qed
  moreover have "env_tf (envs s' x) = env_tf (envs s x)"
    if "x \<notin> set (take (length (vs @ [e])) (c # rev (vs @ [e])))" for x
    using that s'(6) s1(5) by auto
  ultimately show ?case using s'(2,3,7) s1(6) by auto
qed

text \<open>C5: preemption is transparent. When clock interrupts arrive in user code, once for each of
  the environments that run or wait, every environment is resumed once, the one that was interrupted
  first runs again at the end, every one keeps the registers it was interrupted with, and memory
  is not touched.\<close>

theorem preemption_transparent:
  assumes "sched_ok s" and "curenv s = Some c" and "distinct (c # env_ready_queue s)"
    and "length tfs = length (c # env_ready_queue s)" and "\<forall>tf \<in> set tfs. user_clock tf"
  shows "\<exists>s'. clock_ticks hw tfs s = Inr (rev (c # env_ready_queue s), s') \<and> curenv s' = Some c
    \<and> env_ready_queue s' = env_ready_queue s
    \<and> (\<forall>i < length tfs. env_tf (envs s' ((c # rev (env_ready_queue s)) ! i)) = tfs ! i)
    \<and> (\<forall>x. x \<notin> set (c # env_ready_queue s) \<longrightarrow> env_tf (envs s' x) = env_tf (envs s x))
    \<and> pmem s' = pmem s"
proof -
  let ?q = "env_ready_queue s"
  obtain s' where s': "clock_ticks hw tfs s = Inr (rev (c # ?q), s')" "curenv s' \<noteq> None"
    "rr_list (curenv s') (env_ready_queue s') = c # ?q"
    "\<forall>i < length (c # ?q). env_tf (envs s' ((c # rev (c # ?q)) ! i)) = tfs ! i"
    "\<forall>x. x \<notin> set (take (length (c # ?q)) (c # rev (c # ?q))) \<longrightarrow> env_tf (envs s' x) = env_tf (envs s x)"
    "pmem s' = pmem s"
    using clock_ticks_rotate [OF assms(1,2), of "[]" "c # ?q" tfs hw] assms(3-5) by auto
  have ints: "take (length (c # ?q)) (c # rev (c # ?q)) = c # rev ?q" by simp
  have "env_tf (envs s' ((c # rev ?q) ! i)) = tfs ! i" if "i < length tfs" for i
  proof -
    have "(c # rev (c # ?q)) ! i = (c # rev ?q) ! i"
      using that assms(4) nth_append [of "c # rev ?q" "[c]" i] by (simp del: nth_Cons)
    then show ?thesis using s'(4) that assms(4) by metis
  qed
  moreover have "curenv s' = Some c \<and> env_ready_queue s' = ?q" using s'(2,3) by (auto simp: rr_list_def)
  moreover have "env_tf (envs s' x) = env_tf (envs s x)" if "x \<notin> set (c # ?q)" for x
    using s'(5) that unfolding ints by simp
  ultimately show ?thesis using s'(1,6) by auto
qed

theorem preemption_transparent_witness:
  "\<exists>s'. clock_ticks \<lparr>cons_getc2 = 0, tsc_low = 0, tsc_hi = 0\<rparr>
      [zero_tf\<lparr>tf_cs := 0x1B, tf_trapno := 32, reg_eax := 7\<rparr>, zero_tf\<lparr>tf_cs := 0x1B, tf_trapno := 32\<rparr>]
      (tiny\<lparr>curenv := Some 0, env_ready_queue := [1]\<rparr>) = Inr ([1, 0], s')
    \<and> curenv s' = Some 0 \<and> reg_eax (env_tf (envs s' 0)) = 7"
proof -
  let ?s = "tiny\<lparr>curenv := Some 0, env_ready_queue := [1]\<rparr>"
  let ?tfs = "[zero_tf\<lparr>tf_cs := 0x1B, tf_trapno := 32, reg_eax := 7\<rparr>, zero_tf\<lparr>tf_cs := 0x1B, tf_trapno := 32\<rparr>]"
  have h: "sched_ok ?s" "curenv ?s = Some 0" "distinct (0 # env_ready_queue ?s)"
    "length ?tfs = length (0 # env_ready_queue ?s)" "\<forall>tf \<in> set ?tfs. user_clock tf"
    using tiny_sched by (simp_all add: sched_ok_def user_clock_def zero_tf_def IRQ0_Clock_def)
  let ?hw = "\<lparr>cons_getc2 = 0, tsc_low = 0, tsc_hi = 0\<rparr>"
  obtain s' where s': "clock_ticks ?hw ?tfs ?s = Inr (rev (0 # env_ready_queue ?s), s')" "curenv s' = Some 0"
    "\<forall>i < length ?tfs. env_tf (envs s' ((0 # rev (env_ready_queue ?s)) ! i)) = ?tfs ! i"
    using preemption_transparent [OF h] by blast
  have "env_tf (envs s' 0) = ?tfs ! 0" using s'(3) by fastforce
  then show ?thesis using s'(1,2) by simp
qed

end
