(* ===== verification/Kernel_Boot.thy ===== *)
theory Kernel_Boot
  imports Sched
begin

text \<open>
  The construction of the kernel at start-up: the memory that the CMOS reports (\<open>detect_memory\<close> of
  \<^verbatim>\<open>kern/helpers.c\<close>), the kernel's half of the address space (\<open>initialize_kernel_VM\<close> and its helpers,
  \<^verbatim>\<open>kern/memory_manager.c\<close> and \<^verbatim>\<open>kern/helpers.c\<close>), its self-check, the switch to paging, and the order of
  \<^verbatim>\<open>kern/init.c\<close>. Before paging is on, the address \<open>KERNEL_BASE + x\<close> reaches physical address \<open>x\<close>, so
  space that the boot allocator hands out is a sequence of frames. \<open>end_of_kernel\<close> and
  \<open>ptr_stack_bottom\<close> are addresses that the linker chooses; \<open>nvram\<close> holds the registers of the CMOS.
  The global \<open>ptr_free_mem\<close> is passed beside the kernel.
\<close>

section \<open>Memory detection\<close>

definition mc146818_read :: "(uint8 \<Rightarrow> uint8) \<Rightarrow> uint32 \<Rightarrow> uint32" where
  "mc146818_read nvram reg = ucast (nvram (ucast reg))"

definition mc146818_write :: "uint32 \<Rightarrow> uint32 \<Rightarrow> (uint8 \<Rightarrow> uint8) \<Rightarrow> uint8 \<Rightarrow> uint8" where
  "mc146818_write reg datum nvram = nvram(ucast reg := ucast datum)"

definition nvram_read :: "(uint8 \<Rightarrow> uint8) \<Rightarrow> uint32 \<Rightarrow> uint32" where
  "nvram_read nvram r = mc146818_read nvram r OR push_bit 8 (mc146818_read nvram (r + 1))"

definition NVRAM_BASELO :: uint32 where "NVRAM_BASELO = 0x15"
definition NVRAM_EXTLO :: uint32 where "NVRAM_EXTLO = 0x17"

text \<open>\<open>None\<close> is the endless loop after the error message.\<close>

definition detect_memory :: "(uint8 \<Rightarrow> uint8) \<Rightarrow> kernel \<Rightarrow> kernel option" where
  "detect_memory nvram s =
     (let size_of_base_mem = ROUNDDOWN (nvram_read nvram NVRAM_BASELO * 1024) PAGE_SIZE;
          size_of_extended_mem = ROUNDDOWN (nvram_read nvram NVRAM_EXTLO * 1024) PAGE_SIZE;
          size_of_other_mem = ROUNDDOWN (nvram_read nvram 0x34 * 1024 * 64) PAGE_SIZE;
          maxpa = (if size_of_other_mem > 0 then size_of_other_mem + 16 * 1024 * 1024
                   else if size_of_extended_mem \<noteq> 0 then PHYS_EXTENDED_MEM + size_of_extended_mem
                   else size_of_extended_mem);
          kernel_virtual_area = (0xFFFFFFFF - KERNEL_BASE) + 1
      in if maxpa > kernel_virtual_area then None
         else Some (s\<lparr>number_of_frames := unat (maxpa div PAGE_SIZE)\<rparr>))"

section \<open>The boot allocator and the kernel's page tables\<close>

text \<open>Sizes of the structures on the i386: \<open>Frame_Info\<close> is two list links, a counter padded to a word,
  an address, a pointer and a padded flag; \<open>Env\<close> is dominated by its 5000 working-set elements.\<close>

definition sizeof_Frame_Info :: uint32 where "sizeof_Frame_Info = 24"
definition sizeof_WorkingSetElement :: uint32 where "sizeof_WorkingSetElement = 16"

definition sizeof_Env :: uint32 where
  "sizeof_Env = 0x44 + 8 + 4 * 11 + sizeof_WorkingSetElement * (of_nat PWS_MAX_SIZE + of_nat TWS_MAX_SIZE)
     + 4 * 10 + 64 + 4 * 4 + 3 * 12 + 2 * 4"

definition boot_allocate_space :: "uint32 \<Rightarrow> uint32 \<Rightarrow> uint32 \<Rightarrow> uint32 \<times> kernel \<Rightarrow> uint32 \<times> uint32 \<times> kernel" where
  "boot_allocate_space end_of_kernel size' align = (\<lambda>(ptr_free_mem, s).
     let p = ROUNDUP (if ptr_free_mem = 0 then end_of_kernel else ptr_free_mem) align in (p, p + size', s))"

text \<open>The frame behind a kernel address.\<close>

definition kva_frame :: "uint32 \<Rightarrow> nat" where
  "kva_frame kva = unat (PPN (kva - KERNEL_BASE))"

definition boot_get_page_table ::
  "uint32 \<Rightarrow> nat \<Rightarrow> uint32 \<Rightarrow> bool \<Rightarrow> uint32 \<times> kernel \<Rightarrow> halt + nat option \<times> uint32 \<times> kernel" where
  "boot_get_page_table end_of_kernel pd va create = (\<lambda>(ptr_free_mem, s).
     let phys_page_table = EXTRACT_ADDRESS (rd s pd (pdx va)) in
     bindE (STATIC_KERNEL_VIRTUAL_ADDRESS phys_page_table s) (\<lambda>t.
     if phys_page_table = 0 then
       (if create then
          (let (p, ptr_free_mem, s) = boot_allocate_space end_of_kernel PAGE_SIZE PAGE_SIZE (ptr_free_mem, s) in
           bindE (STATIC_KERNEL_PHYSICAL_ADDRESS p) (\<lambda>phys_page_table.
           Inr (Some (kva_frame p), ptr_free_mem,
                wr pd (pdx va) (CONSTRUCT_ENTRY phys_page_table (PERM_PRESENT OR PERM_WRITEABLE)) s)))
        else Inr (None, ptr_free_mem, s))
     else Inr (Some t, ptr_free_mem, s)))"

text \<open>The loop of \<open>boot_map_range\<close> advances both addresses; its counter \<open>i\<close> takes the values
  \<open>0, PAGE_SIZE, \<dots>\<close> below \<open>size\<close>, which no caller makes larger than an \<open>int\<close>.\<close>

primrec boot_map_pages ::
  "nat \<Rightarrow> uint32 \<Rightarrow> nat \<Rightarrow> uint32 \<Rightarrow> uint32 \<Rightarrow> uint32 \<Rightarrow> uint32 \<times> kernel \<Rightarrow> halt + uint32 \<times> kernel" where
  "boot_map_pages 0 end_of_kernel pd va pa perm st = Inr st"
| "boot_map_pages (Suc n) end_of_kernel pd va pa perm st =
     bindE (boot_get_page_table end_of_kernel pd va True st) (\<lambda>(t, ptr_free_mem, s).
     bindE (deref t) (\<lambda>t.
     boot_map_pages n end_of_kernel pd (va + PAGE_SIZE) (pa + PAGE_SIZE) perm
       (ptr_free_mem, wr t (ptx va) (CONSTRUCT_ENTRY pa (perm OR PERM_PRESENT)) s)))"

definition boot_map_range ::
  "uint32 \<Rightarrow> nat \<Rightarrow> uint32 \<Rightarrow> uint32 \<Rightarrow> uint32 \<Rightarrow> uint32 \<Rightarrow> uint32 \<times> kernel \<Rightarrow> halt + uint32 \<times> kernel" where
  "boot_map_range end_of_kernel pd va size' pa perm =
     boot_map_pages ((unat size' + 4095) div 4096) end_of_kernel pd va pa perm"

section \<open>The address space of the kernel\<close>

definition setup_listing_to_all_page_tables_entries :: "uint32 \<Rightarrow> kernel \<Rightarrow> halt + kernel" where
  "setup_listing_to_all_page_tables_entries p s =
     bindE (STATIC_KERNEL_PHYSICAL_ADDRESS p) (\<lambda>pa.
     let s = wr (kva_frame p) (pdx VPT) (CONSTRUCT_ENTRY pa (PERM_PRESENT OR PERM_WRITEABLE)) s
     in Inr (wr (kva_frame p) (pdx UVPT) (pa OR PERM_USER OR PERM_PRESENT) s))"

definition assertE :: "string \<Rightarrow> bool \<Rightarrow> halt + unit" where
  "assertE msg b = (if b then Inr () else Inl (AssertFailed msg))"

definition check_boot_pgdir :: "uint32 \<Rightarrow> nat \<Rightarrow> kernel \<Rightarrow> halt + unit" where
  "check_boot_pgdir ptr_stack_bottom pd s =
     bindE (foldE (\<lambda>k _. bindE (check_va2pa pd (KERNEL_BASE + of_nat k * PAGE_SIZE) s) (\<lambda>(pa, _).
              assertE ''phys mem'' (pa = of_nat k * PAGE_SIZE))) [0..<unat (0 - KERNEL_BASE) div 4096] ()) (\<lambda>_.
     bindE (foldE (\<lambda>k _. bindE (check_va2pa pd (KERNEL_STACK_TOP - KERNEL_STACK_SIZE + of_nat k * PAGE_SIZE) s)
              (\<lambda>(pa, _). bindE (STATIC_KERNEL_PHYSICAL_ADDRESS ptr_stack_bottom) (\<lambda>b.
              assertE ''kernel stack'' (pa = b + of_nat k * PAGE_SIZE))))
            [0..<unat KERNEL_STACK_SIZE div 4096] ()) (\<lambda>_.
     foldE (\<lambda>i _. if i \<in> {pdx VPT, pdx UVPT, pdx (KERNEL_STACK_TOP - 1), pdx UENVS} \<or> pdx KERNEL_BASE \<le> i
                  then assertE ''pde present'' (rd s pd i \<noteq> 0) else assertE ''pde zero'' (rd s pd i = 0)) [0..<1024] ()))"

text \<open>The identity mapping of low memory that is in place while the segment registers are reloaded, and
  its removal.\<close>

definition low_entries :: "uint32 \<Rightarrow> nat list" where
  "low_entries ptr_free_mem = [0..<pdx ptr_free_mem - pdx KERNEL_BASE]"

definition copy_kernel_entries :: "nat \<Rightarrow> uint32 \<Rightarrow> kernel \<Rightarrow> kernel" where
  "copy_kernel_entries pd ptr_free_mem s =
     fold (\<lambda>j s. wr pd j (rd s pd (pdx KERNEL_BASE + j)) s) (low_entries ptr_free_mem) s"

definition turn_on_paging :: "uint32 \<Rightarrow> kernel \<Rightarrow> kernel" where
  "turn_on_paging ptr_free_mem s =
     (let pd = ptr_page_directory s;
          s = (copy_kernel_entries pd ptr_free_mem s)\<lparr>cr3 := phys_page_directory s\<rparr>
      in fold (\<lambda>j s. wr pd j 0 s) (low_entries ptr_free_mem) s)"

definition DEFAULT_MEM_SCARCE_PERCENTAGE :: uint32 where "DEFAULT_MEM_SCARCE_PERCENTAGE = 25"

text \<open>\<open>for (sva = KERNEL_BASE; sva < 0xFFFFFFFF; sva += PTSIZE)\<close>, on a 64-bit \<open>sva\<close>.\<close>

definition boot_tables :: "uint32 \<Rightarrow> nat \<Rightarrow> uint32 \<times> kernel \<Rightarrow> halt + uint32 \<times> kernel" where
  "boot_tables end_of_kernel pd =
     foldE (\<lambda>sva st. bindE (boot_get_page_table end_of_kernel pd sva True st) (\<lambda>(_, st). Inr st))
       (map (\<lambda>k. KERNEL_BASE + of_nat k * PTSIZE) [0..<Suc (unat (0xFFFFFFFF - KERNEL_BASE) div unat PTSIZE)])"

definition initialize_kernel_VM :: "uint32 \<Rightarrow> uint32 \<Rightarrow> kernel \<Rightarrow> halt + uint32 \<times> kernel" where
  "initialize_kernel_VM end_of_kernel ptr_stack_bottom s =
     (let (p, fm, s) = boot_allocate_space end_of_kernel PAGE_SIZE PAGE_SIZE (0, s);
          pd = kva_frame p; s = wr_page pd zero_page s in
      bindE (STATIC_KERNEL_PHYSICAL_ADDRESS p) (\<lambda>phys_pd.
      let s = s\<lparr>ptr_page_directory := pd, phys_page_directory := phys_pd\<rparr> in
      bindE (STATIC_KERNEL_PHYSICAL_ADDRESS ptr_stack_bottom) (\<lambda>stack_pa.
      bindE (boot_map_range end_of_kernel pd (KERNEL_STACK_TOP - KERNEL_STACK_SIZE) KERNEL_STACK_SIZE stack_pa
               PERM_WRITEABLE (fm, s)) (\<lambda>st.
      bindE (boot_tables end_of_kernel pd st) (\<lambda>st.
      let (_, fm, s) = boot_allocate_space end_of_kernel (of_nat (number_of_frames s) * sizeof_Frame_Info) PAGE_SIZE st;
          s = s\<lparr>frames_info := (\<lambda>i. if i < number_of_frames s then zero_fi else frames_info s i)\<rparr>;
          (_, fm, s) = boot_allocate_space end_of_kernel (of_nat PAGES_PER_FILE * sizeof_Frame_Info) PAGE_SIZE (fm, s) in
      bindE (setup_listing_to_all_page_tables_entries p s) (\<lambda>s.
      let envs_size = of_nat NENV * sizeof_Env;
          (e, fm, s) = boot_allocate_space end_of_kernel envs_size PAGE_SIZE (fm, s);
          s = s\<lparr>envs := (\<lambda>i. if i < NENV then zero_env else envs s i)\<rparr> in
      bindE (STATIC_KERNEL_PHYSICAL_ADDRESS e) (\<lambda>envs_pa.
      bindE (boot_map_range end_of_kernel pd UENVS envs_size envs_pa PERM_USER (fm, s)) (\<lambda>(fm, s).
      let s = wr pd (pdx UENVS) (rd s pd (pdx UENVS) OR (PERM_USER OR (PERM_PRESENT AND NOT PERM_WRITEABLE))) s in
      bindE (boot_map_range end_of_kernel pd KERNEL_BASE (0xFFFFFFFF - KERNEL_BASE) 0 PERM_WRITEABLE (fm, s)) (\<lambda>(fm, s).
      bindE (check_boot_pgdir ptr_stack_bottom pd s) (\<lambda>_.
      let s = s\<lparr>cfg := (cfg s)\<lparr>memory_scarce_threshold_percentage := DEFAULT_MEM_SCARCE_PERCENTAGE\<rparr>\<rparr> in
      Inr (fm, turn_on_paging fm s)))))))))))"

section \<open>Addresses at boot\<close>

definition kva :: "nat \<Rightarrow> uint32" where
  "kva f = KERNEL_BASE + to_physical_address f"

lemma unat_kva: "f < 65536 \<Longrightarrow> unat (kva f) = 0xF0000000 + f * 4096"
proof -
  assume f: "f < 65536"
  have "kva f = of_nat (0xF0000000 + f * 4096)"
    by (simp add: kva_def KERNEL_BASE_def to_physical_address_def push_bit_eq_mult)
  moreover have "0xF0000000 + f * 4096 < 2 ^ LENGTH(32)" using f by simp
  ultimately show ?thesis by (simp only: unsigned_of_nat of_nat_id take_bit_nat_eq_self)
qed

lemma unat_KERNEL_BASE: "unat KERNEL_BASE = 0xF0000000"
  by (simp add: KERNEL_BASE_def)

lemma KERNEL_BASE_le_iff: "KERNEL_BASE \<le> p \<longleftrightarrow> 0xF0000000 \<le> unat p"
  by (simp add: word_le_nat_alt unat_KERNEL_BASE)

lemma kernel_offset: "KERNEL_BASE \<le> p \<Longrightarrow> unat (p - KERNEL_BASE) = unat p - 0xF0000000"
  by (simp add: unat_sub unat_KERNEL_BASE)

lemma boot_top_unat:
  assumes "KERNEL_BASE \<le> p"
  shows "boot_top p = (unat p - 0xF0000000 + 4095) div 4096"
proof -
  have "unat p < 2 ^ 32" using unsigned_less [of p] by simp
  then have "unat (p - KERNEL_BASE) + unat PAGE_SIZE \<le> 2 ^ 32"
    using assms by (simp add: kernel_offset PAGE_SIZE_def)
  then have "unat (ROUNDUP (p - KERNEL_BASE) PAGE_SIZE) = (unat p - 0xF0000000 + 4095) div 4096 * 4096"
    using unat_ROUNDUP [of PAGE_SIZE "p - KERNEL_BASE"] assms by (simp add: kernel_offset PAGE_SIZE_def)
  then show ?thesis by (simp add: boot_top_def unat_div PAGE_SIZE_def)
qed

lemma boot_top_kva:
  assumes "f * 4096 + unat n < 2 ^ 28"
  shows "boot_top (kva f + n) = f + (unat n + 4095) div 4096" and "KERNEL_BASE \<le> kva f + n"
proof -
  have f: "f < 65536" using assms by simp
  have "unat (kva f + n) = 0xF0000000 + f * 4096 + unat n"
    using assms by (subst unat_add_lem [THEN iffD1]) (simp_all add: unat_kva [OF f])
  then show "KERNEL_BASE \<le> kva f + n" "boot_top (kva f + n) = f + (unat n + 4095) div 4096"
    by (simp_all add: KERNEL_BASE_le_iff boot_top_unat add.assoc)
qed

lemma ROUNDUP_kernel:
  assumes p: "KERNEL_BASE \<le> p" and t: "boot_top p < 65536"
  shows "ROUNDUP p PAGE_SIZE = kva (boot_top p)"
proof -
  obtain d where d: "unat p = 0xF0000000 + d" using p unfolding KERNEL_BASE_le_iff by (metis le_Suc_ex)
  have b: "boot_top p = (d + 4095) div 4096" using boot_top_unat [OF p] d by simp
  then have "d + 4095 < 65536 * 4096" using t by (simp add: div_less_iff_less_mult)
  then have "unat (ROUNDUP p PAGE_SIZE) = (0xF0000000 + (d + 4095)) div 4096 * 4096"
    using unat_ROUNDUP [of PAGE_SIZE p] d by (simp add: PAGE_SIZE_def)
  also have "\<dots> = 0xF0000000 + (d + 4095) div 4096 * 4096"
    using div_plus_div_distrib_dvd_left [of 4096 "0xF0000000 :: nat" "d + 4095"] by simp
  finally have "unat (ROUNDUP p PAGE_SIZE) = unat (kva (boot_top p))" unfolding unat_kva [OF t] by (simp only: b)
  then show ?thesis by (simp only: word_unat_eq_iff)
qed

lemma kva_frame_kva [simp]: "f < 65536 \<Longrightarrow> kva_frame (kva f) = f"
  by (simp add: kva_frame_def kva_def PPN_to_physical_address)

lemma SKPA_kva [simp]: "f < 65536 \<Longrightarrow> STATIC_KERNEL_PHYSICAL_ADDRESS (kva f) = Inr (to_physical_address f)"
  using unat_kva [of f] by (simp add: STATIC_KERNEL_PHYSICAL_ADDRESS_def word_less_nat_alt unat_KERNEL_BASE)
    (simp add: kva_def)

lemma boot_allocate_space_eq:
  assumes "KERNEL_BASE \<le> fm" and "boot_top fm < 65536"
  shows "boot_allocate_space eok n PAGE_SIZE (fm, s) = (kva (boot_top fm), kva (boot_top fm) + n, s)"
  using ROUNDUP_kernel [OF assms] assms(1) by (auto simp: boot_allocate_space_def KERNEL_BASE_def Let_def)

lemma boot_allocate_space_first:
  assumes "KERNEL_BASE \<le> eok" and "boot_top eok < 65536"
  shows "boot_allocate_space eok n PAGE_SIZE (0, s) = (kva (boot_top eok), kva (boot_top eok) + n, s)"
  using ROUNDUP_kernel [OF assms] by (simp add: boot_allocate_space_def Let_def)

section \<open>The directory while it is built\<close>

text \<open>The slots of the directory other than those that hold the directory itself (\<open>own\<close>) lead to page
  tables that the boot allocator has handed out after the directory, one each, and \<open>lim\<close> is the
  frame that the allocator reaches, inside the memory, once every empty slot has its table.\<close>

definition unset :: "kernel \<Rightarrow> nat \<Rightarrow> nat set \<Rightarrow> nat set" where
  "unset s pd own = {i. i < 1024 \<and> i \<notin> own \<and> rd s pd i = 0}"

definition boot_inv :: "nat \<Rightarrow> nat set \<Rightarrow> nat \<Rightarrow> uint32 \<Rightarrow> kernel \<Rightarrow> bool" where
  "boot_inv pd own lim fm s \<longleftrightarrow>
     lim < number_of_frames s \<and> number_of_frames s \<le> 65536 \<and> KERNEL_BASE \<le> fm \<and> pd < boot_top fm
     \<and> boot_top fm + card (unset s pd own) = lim
     \<and> (\<forall>i<1024. i \<notin> own \<longrightarrow> rd s pd i \<noteq> 0 \<longrightarrow>
          present (rd s pd i) \<and> pd < tbl s pd i \<and> tbl s pd i < boot_top fm)
     \<and> (\<forall>i<1024. \<forall>j<1024. i \<notin> own \<longrightarrow> j \<notin> own \<longrightarrow> rd s pd i \<noteq> 0 \<longrightarrow> rd s pd j \<noteq> 0 \<longrightarrow>
          tbl s pd i = tbl s pd j \<longrightarrow> i = j)"

lemma boot_invD:
  assumes "boot_inv pd own lim fm s"
  shows "number_of_frames s \<le> 65536" "KERNEL_BASE \<le> fm" "pd < boot_top fm" "boot_top fm < 65536"
    "boot_top fm < number_of_frames s"
    "i < 1024 \<Longrightarrow> i \<notin> own \<Longrightarrow> rd s pd i \<noteq> 0 \<Longrightarrow> present (rd s pd i) \<and> pd < tbl s pd i \<and> tbl s pd i < boot_top fm"
    "i < 1024 \<Longrightarrow> j < 1024 \<Longrightarrow> i \<notin> own \<Longrightarrow> j \<notin> own \<Longrightarrow> rd s pd i \<noteq> 0 \<Longrightarrow> rd s pd j \<noteq> 0 \<Longrightarrow>
      tbl s pd i = tbl s pd j \<Longrightarrow> i = j"
  using assms unfolding boot_inv_def by auto

text \<open>Writing into a page table leaves the directory alone.\<close>

lemma boot_inv_table:
  assumes "boot_inv pd own lim fm s" and "pd \<noteq> t"
  shows "boot_inv pd own lim fm (wr t j v s)"
proof -
  have "rd (wr t j v s) pd = rd s pd" using assms(2) by (auto simp: rd_wr fun_eq_iff)
  then have "unset (wr t j v s) pd own = unset s pd own" "tbl (wr t j v s) pd = tbl s pd"
    by (auto simp: unset_def tbl_def fun_eq_iff)
  with \<open>rd (wr t j v s) pd = rd s pd\<close> show ?thesis using assms(1) by (simp add: boot_inv_def)
qed

lemma boot_table_exists:
  assumes "boot_inv pd own lim fm s" and "pdx va \<notin> own" and "rd s pd (pdx va) \<noteq> 0"
  shows "boot_get_page_table eok pd va c (fm, s) = Inr (Some (tbl s pd (pdx va)), fm, s)"
proof -
  note d = boot_invD(1-6) [OF assms(1)]
  have "tbl s pd (pdx va) < number_of_frames s" and "0 < tbl s pd (pdx va)"
    using d(6) [OF pdx_less assms(2,3)] d(5) by linarith+
  moreover from this(2) have "EXTRACT_ADDRESS (rd s pd (pdx va)) \<noteq> 0"
    unfolding tbl_def by (metis PPN_EXTRACT PPN_def drop_bit_of_0 unsigned_0 less_irrefl)
  ultimately show ?thesis
    by (simp add: boot_get_page_table_def STATIC_KERNEL_VIRTUAL_ADDRESS_def tbl_def Let_def)
qed

definition new_entry :: "nat \<Rightarrow> uint32" where
  "new_entry f = CONSTRUCT_ENTRY (to_physical_address f) (PERM_PRESENT OR PERM_WRITEABLE)"

lemma new_entry:
  assumes "f < 65536"
  shows "unat (PPN (new_entry f)) = f" "present (new_entry f)" "new_entry f \<noteq> 0"
proof -
  have e: "new_entry f = CONSTRUCT_ENTRY (to_physical_address f) (PERM_WRITEABLE OR PERM_PRESENT)"
    by (simp add: new_entry_def or.commute)
  show "unat (PPN (new_entry f)) = f" "present (new_entry f)"
    unfolding e using CONSTRUCT_frame [of f PERM_WRITEABLE] assms by (simp_all add: PERM_WRITEABLE_def)
  then show "new_entry f \<noteq> 0" by auto
qed

lemma boot_table_new:
  assumes inv: "boot_inv pd own lim fm s" and own: "pdx va \<notin> own" and z: "rd s pd (pdx va) = 0"
  defines "f \<equiv> boot_top fm"
  shows "boot_get_page_table eok pd va True (fm, s) = Inr (Some f, kva f + PAGE_SIZE, wr pd (pdx va) (new_entry f) s)"
    and "boot_inv pd own lim (kva f + PAGE_SIZE) (wr pd (pdx va) (new_entry f) s)"
    and "tbl (wr pd (pdx va) (new_entry f) s) pd (pdx va) = f"
    and "rd (wr pd (pdx va) (new_entry f) s) pd (pdx va) \<noteq> 0"
    and "boot_top (kva f + PAGE_SIZE) = Suc f"
proof -
  note d = boot_invD [OF inv, folded f_def]
  let ?s = "wr pd (pdx va) (new_entry f) s"
  have n: "0 < number_of_frames s" using d(5) by simp
  then show "boot_get_page_table eok pd va True (fm, s) = Inr (Some f, kva f + PAGE_SIZE, ?s)"
    using boot_allocate_space_eq [OF d(2) d(4) [unfolded f_def], of eok PAGE_SIZE s] z d(4)
    by (simp add: boot_get_page_table_def STATIC_KERNEL_VIRTUAL_ADDRESS_def Let_def EXTRACT_ADDRESS_def PPN_def
        new_entry_def f_def)
  show t: "tbl ?s pd (pdx va) = f" and "rd ?s pd (pdx va) \<noteq> 0"
    using new_entry [OF d(4)] by (simp_all add: tbl_def rd_wr)
  have o: "tbl ?s pd i = tbl s pd i" "rd ?s pd i = rd s pd i" if "i \<noteq> pdx va" for i
    using that by (simp_all add: tbl_def rd_wr)
  have "unset ?s pd own = unset s pd own - {pdx va}"
    using new_entry(3) [OF d(4)] by (auto simp: unset_def rd_wr)
  moreover have "pdx va \<in> unset s pd own" using own z by (simp add: unset_def)
  moreover have "finite (unset s pd own)" by (simp add: unset_def)
  ultimately have c: "Suc (card (unset ?s pd own)) = card (unset s pd own)"
    by (simp only: card.remove [of "unset s pd own" "pdx va"])
  have "f * 4096 + unat PAGE_SIZE < 2 ^ 28"
    using inv c d(1) unfolding boot_inv_def f_def [symmetric] by (simp add: PAGE_SIZE_def)
  from boot_top_kva [OF this] have top: "boot_top (kva f + PAGE_SIZE) = Suc f" "KERNEL_BASE \<le> kva f + PAGE_SIZE"
    by (simp_all add: PAGE_SIZE_def)
  show "boot_top (kva f + PAGE_SIZE) = Suc f" by (rule top(1))
  have e: "present (rd ?s pd i) \<and> pd < tbl ?s pd i \<and> tbl ?s pd i < Suc f" if "i < 1024" "i \<notin> own" "rd ?s pd i \<noteq> 0" for i
  proof (cases "i = pdx va")
    case True
    then show ?thesis using d(3) new_entry(2) [OF d(4)] t by (simp add: rd_wr)
  next
    case False
    then have "present (rd s pd i) \<and> pd < tbl s pd i \<and> tbl s pd i < f"
      using that o [OF False] d(6) [of i] by simp
    then show ?thesis using o [OF False] by simp
  qed
  have old: "tbl ?s pd i \<noteq> f" if "i < 1024" "i \<notin> own" "rd ?s pd i \<noteq> 0" "i \<noteq> pdx va" for i
    using that o [OF that(4)] d(6) [of i] by simp
  have u: "i = j" if "i < 1024" "j < 1024" "i \<notin> own" "j \<notin> own" "rd ?s pd i \<noteq> 0" "rd ?s pd j \<noteq> 0" "tbl ?s pd i = tbl ?s pd j" for i j
  proof (cases "i = pdx va \<or> j = pdx va")
    case True
    then show ?thesis using old [of i] old [of j] that t by metis
  next
    case False
    then show ?thesis using that o [of i] o [of j] d(7) [of i j] by simp
  qed
  show "boot_inv pd own lim (kva f + PAGE_SIZE) ?s"
    unfolding boot_inv_def top
  proof (intro conjI allI impI)
    show "Suc f + card (unset ?s pd own) = lim"
      using inv c unfolding boot_inv_def f_def [symmetric] by (simp add: wr_def)
    show "lim < number_of_frames ?s" "number_of_frames ?s \<le> 65536"
      using inv d(1) unfolding boot_inv_def by (simp_all add: wr_def)
  qed (use d(3) top(2) e u in auto)
qed

text \<open>What the boot code changes when it writes entries for the pages \<open>Q\<close>: nothing but memory, no entry of
  the directory that is set, no empty entry that no page of \<open>Q\<close> needs, and no page table entry of a
  page outside \<open>Q\<close>.\<close>

definition only_memory :: "kernel \<Rightarrow> kernel \<Rightarrow> bool" where
  "only_memory s s' \<longleftrightarrow> s\<lparr>pmem := pmem s'\<rparr> = s'"

lemma only_memory_refl [simp]: "only_memory s s" "only_memory s (wr f j v s)"
  by (simp_all add: only_memory_def wr_def)

lemma only_memory_trans [trans]: "only_memory s s' \<Longrightarrow> only_memory s' s'' \<Longrightarrow> only_memory s s''"
  unfolding only_memory_def by (metis kernel.surjective kernel.update_convs(5))

definition boot_keeps :: "nat \<Rightarrow> nat set \<Rightarrow> nat set \<Rightarrow> kernel \<Rightarrow> kernel \<Rightarrow> bool" where
  "boot_keeps pd own Q s s' \<longleftrightarrow>
     (\<forall>i. rd s pd i \<noteq> 0 \<or> (\<forall>q\<in>Q. q div 1024 \<noteq> i) \<longrightarrow> rd s' pd i = rd s pd i)
     \<and> (\<forall>q. q \<notin> Q \<longrightarrow> q < 2 ^ 20 \<longrightarrow> q div 1024 \<notin> own \<longrightarrow> rd s pd (q div 1024) \<noteq> 0 \<longrightarrow>
          pte_at s' pd (q div 1024) (q mod 1024) = pte_at s pd (q div 1024) (q mod 1024))"

lemma boot_keepsD:
  assumes "boot_keeps pd own Q s s'"
  shows "rd s pd i \<noteq> 0 \<Longrightarrow> rd s' pd i = rd s pd i"
    "(\<And>q. q \<in> Q \<Longrightarrow> q div 1024 \<noteq> i) \<Longrightarrow> rd s' pd i = rd s pd i"
    "q \<notin> Q \<Longrightarrow> q < 2 ^ 20 \<Longrightarrow> q div 1024 \<notin> own \<Longrightarrow> rd s pd (q div 1024) \<noteq> 0 \<Longrightarrow>
       pte_at s' pd (q div 1024) (q mod 1024) = pte_at s pd (q div 1024) (q mod 1024)"
proof -
  note k = assms [unfolded boot_keeps_def]
  note p = k [THEN conjunct1, rule_format, of i]
  show "rd s pd i \<noteq> 0 \<Longrightarrow> rd s' pd i = rd s pd i" by (rule p, rule disjI1)
  show "(\<And>q. q \<in> Q \<Longrightarrow> q div 1024 \<noteq> i) \<Longrightarrow> rd s' pd i = rd s pd i" by (rule p) (intro disjI2 ballI)
  show "q \<notin> Q \<Longrightarrow> q < 2 ^ 20 \<Longrightarrow> q div 1024 \<notin> own \<Longrightarrow> rd s pd (q div 1024) \<noteq> 0 \<Longrightarrow>
       pte_at s' pd (q div 1024) (q mod 1024) = pte_at s pd (q div 1024) (q mod 1024)"
    by (rule k [THEN conjunct2, rule_format])
qed

lemma boot_keeps_refl [simp]: "boot_keeps pd own Q s s"
  by (simp add: boot_keeps_def)

lemma boot_keeps_trans:
  assumes a: "boot_keeps pd own Q s s'" and b: "boot_keeps pd own R s' s''"
  shows "boot_keeps pd own (Q \<union> R) s s''"
  unfolding boot_keeps_def
proof (intro conjI allI impI)
  fix i assume i: "rd s pd i \<noteq> 0 \<or> (\<forall>q\<in>Q \<union> R. q div 1024 \<noteq> i)"
  then have "rd s' pd i = rd s pd i" using boot_keepsD(1,2) [OF a, of i] by blast
  moreover from this have "rd s'' pd i = rd s' pd i" using i boot_keepsD(1,2) [OF b, of i] by force
  ultimately show "rd s'' pd i = rd s pd i" by simp
next
  fix q assume "q \<notin> Q \<union> R" and q: "q < 2 ^ 20" "q div 1024 \<notin> own" and s: "rd s pd (q div 1024) \<noteq> 0"
  moreover have "rd s' pd (q div 1024) \<noteq> 0" using boot_keepsD(1) [OF a s] s by simp
  ultimately show "pte_at s'' pd (q div 1024) (q mod 1024) = pte_at s pd (q div 1024) (q mod 1024)"
    using boot_keepsD(3) [OF a _ q] boot_keepsD(3) [OF b _ q] by simp
qed

lemma page_index:
  assumes "q < 2 ^ 20"
  shows "pdx (of_nat (q * 4096)) = q div 1024" "ptx (of_nat (q * 4096)) = q mod 1024"
proof -
  have "q * 4096 < 2 ^ LENGTH(32)" using assms by simp
  then have u: "unat (of_nat (q * 4096) :: uint32) = q * 4096"
    by (simp only: unsigned_of_nat of_nat_id take_bit_nat_eq_self)
  show "ptx (of_nat (q * 4096)) = q mod 1024" unfolding ptx_def unat_PTX u by simp
  have "q * 4096 div 2 ^ 22 = q div 1024"
    using div_mult_mult1 [of 4096 q 1024] by (simp add: mult.commute)
  then show "pdx (of_nat (q * 4096)) = q div 1024" unfolding pdx_def unat_PDX u .
qed

lemma boot_table_step:
  assumes inv: "boot_inv pd own lim fm s" and own: "pdx va \<notin> own"
  shows "\<exists>fm' s'. boot_get_page_table eok pd va True (fm, s) = Inr (Some (tbl s' pd (pdx va)), fm', s')
    \<and> boot_inv pd own lim fm' s' \<and> boot_top fm \<le> boot_top fm' \<and> rd s' pd (pdx va) \<noteq> 0
    \<and> only_memory s s' \<and> (\<forall>i. i \<noteq> pdx va \<or> rd s pd i \<noteq> 0 \<longrightarrow> rd s' pd i = rd s pd i)
    \<and> (\<forall>f. f \<noteq> pd \<longrightarrow> rd s' f = rd s f)"
proof (cases "rd s pd (pdx va) = 0")
  case False
  then show ?thesis
    using boot_table_exists [OF inv own False] inv
    by (intro exI [of _ fm] exI [of _ s]) simp
next
  case True
  note n = boot_table_new [OF inv own True]
  then show ?thesis
    using n(1) [of eok] n(2-5) True
    by (intro exI [of _ "kva (boot_top fm) + PAGE_SIZE"] exI [of _ "wr pd (pdx va) (new_entry (boot_top fm)) s"])
      (auto simp: rd_wr)
qed

lemma boot_keeps_table:
  assumes "boot_inv pd own lim fm s" "q0 div 1024 = k"
    and "\<forall>i. i \<noteq> k \<or> rd s pd i \<noteq> 0 \<longrightarrow> rd s' pd i = rd s pd i" "\<forall>f. f \<noteq> pd \<longrightarrow> rd s' f = rd s f"
  shows "boot_keeps pd own {q0} s s'"
  unfolding boot_keeps_def
proof (intro conjI allI impI)
  fix i assume "rd s pd i \<noteq> 0 \<or> (\<forall>q\<in>{q0}. q div 1024 \<noteq> i)"
  then have "i \<noteq> k \<or> rd s pd i \<noteq> 0" using assms(2) by auto
  then show "rd s' pd i = rd s pd i" using assms(3) by blast
next
  fix q :: nat assume q: "q < 2 ^ 20" "q div 1024 \<notin> own" "rd s pd (q div 1024) \<noteq> 0"
  then have "q div 1024 < 1024" by (simp add: div_less_iff_less_mult)
  then have "tbl s pd (q div 1024) \<noteq> pd" using boot_invD(6) [OF assms(1)] q(2,3) by fastforce
  moreover have "rd s' pd (q div 1024) = rd s pd (q div 1024)" using assms(3) q(3) by blast
  ultimately show "pte_at s' pd (q div 1024) (q mod 1024) = pte_at s pd (q div 1024) (q mod 1024)"
    using assms(4) by (simp add: pte_at_def tbl_def)
qed

text \<open>One round of \<open>boot_map_range\<close>: page \<open>q\<close> gets the entry \<open>v\<close>.\<close>

lemma boot_page_step:
  assumes inv: "boot_inv pd own lim fm s" and q: "q < 2 ^ 20" "q div 1024 \<notin> own"
  shows "\<exists>t fm' s'. boot_get_page_table eok pd (of_nat (q * 4096)) True (fm, s) = Inr (Some t, fm', s')
    \<and> boot_inv pd own lim fm' (wr t (q mod 1024) v s') \<and> boot_top fm \<le> boot_top fm'
    \<and> boot_keeps pd own {q} s (wr t (q mod 1024) v s') \<and> only_memory s (wr t (q mod 1024) v s')
    \<and> rd (wr t (q mod 1024) v s') pd (q div 1024) \<noteq> 0
    \<and> pte_at (wr t (q mod 1024) v s') pd (q div 1024) (q mod 1024) = v"
proof -
  let ?i = "q div 1024" and ?j = "q mod 1024"
  note pi = page_index [OF q(1)]
  have i: "?i < 1024" using q(1) by (simp add: div_less_iff_less_mult)
  obtain fm' s' where st: "boot_get_page_table eok pd (of_nat (q * 4096)) True (fm, s) = Inr (Some (tbl s' pd ?i), fm', s')"
    and inv': "boot_inv pd own lim fm' s'" and le: "boot_top fm \<le> boot_top fm'" and nz: "rd s' pd ?i \<noteq> 0"
    and om: "only_memory s s'" and k: "\<forall>i. i \<noteq> ?i \<or> rd s pd i \<noteq> 0 \<longrightarrow> rd s' pd i = rd s pd i"
      "\<forall>f. f \<noteq> pd \<longrightarrow> rd s' f = rd s f"
    using boot_table_step [OF inv, of "of_nat (q * 4096)" eok] q(2) unfolding pi by blast
  define t where "t = tbl s' pd ?i"
  note lt = boot_invD(6) [OF inv' i q(2) nz, folded t_def]
  let ?w = "wr t ?j v s'"
  have r: "rd ?w pd = rd s' pd" using lt by (auto simp: rd_wr fun_eq_iff)
  have tb: "tbl ?w pd x = tbl s' pd x" for x by (simp add: tbl_def r)
  have k2: "boot_keeps pd own {q} s' ?w"
    unfolding boot_keeps_def
  proof (intro conjI allI impI)
    fix p assume p: "p \<notin> {q}" "p < 2 ^ 20" "p div 1024 \<notin> own" "rd s' pd (p div 1024) \<noteq> 0"
    then have "p div 1024 < 1024" by (simp add: div_less_iff_less_mult)
    have "\<not> (tbl s' pd (p div 1024) = t \<and> p mod 1024 = ?j)"
    proof
      assume a: "tbl s' pd (p div 1024) = t \<and> p mod 1024 = ?j"
      then have "p div 1024 = ?i"
        using boot_invD(7) [OF inv' \<open>p div 1024 < 1024\<close> i p(3) q(2) p(4) nz] by (simp add: t_def)
      then have "p = q" using a by (metis div_mult_mod_eq)
      then show False using p(1) by simp
    qed
    then show "pte_at ?w pd (p div 1024) (p mod 1024) = pte_at s' pd (p div 1024) (p mod 1024)"
      using r by (auto simp: pte_at_def tb rd_wr)
  qed (use r in simp_all)
  have "boot_keeps pd own ({q} \<union> {q}) s ?w"
    by (rule boot_keeps_trans [OF boot_keeps_table [OF inv _ k] k2]) simp
  moreover have "rd ?w pd ?i \<noteq> 0" using r nz by simp
  moreover have "pte_at ?w pd ?i ?j = v" unfolding pte_at_def r tb using nz by (simp add: rd_wr t_def [symmetric])
  moreover have "boot_inv pd own lim fm' ?w" using boot_inv_table [OF inv'] lt by simp
  moreover have "only_memory s ?w" by (rule only_memory_trans [OF om]) simp
  ultimately show ?thesis using st le unfolding t_def by (intro exI [of _ "tbl s' pd ?i"] exI [of _ fm'] exI [of _ s']) simp
qed

definition pages_mapped :: "kernel \<Rightarrow> nat \<Rightarrow> nat \<Rightarrow> nat \<Rightarrow> uint32 \<Rightarrow> uint32 \<Rightarrow> bool" where
  "pages_mapped s pd q n pa perm \<longleftrightarrow>
     (\<forall>k<n. rd s pd ((q + k) div 1024) \<noteq> 0 \<and> pte_at s pd ((q + k) div 1024) ((q + k) mod 1024)
        = CONSTRUCT_ENTRY (pa + of_nat k * PAGE_SIZE) (perm OR PERM_PRESENT))"

lemma boot_map_pages_lemma:
  assumes "boot_inv pd own lim fm s" and "q + n \<le> 2 ^ 20" and "\<And>k. k < n \<Longrightarrow> (q + k) div 1024 \<notin> own"
  shows "\<exists>fm' s'. boot_map_pages n eok pd (of_nat (q * 4096)) pa perm (fm, s) = Inr (fm', s')
    \<and> boot_inv pd own lim fm' s' \<and> boot_top fm \<le> boot_top fm' \<and> boot_keeps pd own {q..<q + n} s s'
    \<and> only_memory s s' \<and> pages_mapped s' pd q n pa perm"
  using assms
proof (induction n arbitrary: q pa fm s)
  case 0
  then show ?case by (simp add: pages_mapped_def)
next
  case (Suc n)
  have q: "q < 2 ^ 20" "q div 1024 \<notin> own" using Suc.prems(2) Suc.prems(3) [of 0] by simp_all
  let ?v = "CONSTRUCT_ENTRY pa (perm OR PERM_PRESENT)"
  obtain t fm1 s1 where g: "boot_get_page_table eok pd (of_nat (q * 4096)) True (fm, s) = Inr (Some t, fm1, s1)"
    and inv: "boot_inv pd own lim fm1 (wr t (q mod 1024) ?v s1)" and le: "boot_top fm \<le> boot_top fm1"
    and k: "boot_keeps pd own {q} s (wr t (q mod 1024) ?v s1)" and om: "only_memory s (wr t (q mod 1024) ?v s1)"
    and e: "rd (wr t (q mod 1024) ?v s1) pd (q div 1024) \<noteq> 0" "pte_at (wr t (q mod 1024) ?v s1) pd (q div 1024) (q mod 1024) = ?v"
    using boot_page_step [OF Suc.prems(1) q] by metis
  let ?s = "wr t (q mod 1024) ?v s1"
  have nx: "of_nat (q * 4096) + PAGE_SIZE = of_nat (Suc q * 4096)" by (simp add: PAGE_SIZE_def algebra_simps)
  have o: "(Suc q + j) div 1024 \<notin> own" if "j < n" for j using Suc.prems(3) [of "Suc j"] that by simp
  obtain fm' s' where m: "boot_map_pages n eok pd (of_nat (Suc q * 4096)) (pa + PAGE_SIZE) perm (fm1, ?s) = Inr (fm', s')"
    and inv': "boot_inv pd own lim fm' s'" and le': "boot_top fm1 \<le> boot_top fm'" and k': "boot_keeps pd own {Suc q..<Suc q + n} ?s s'"
    and om': "only_memory ?s s'"
    and pm: "pages_mapped s' pd (Suc q) n (pa + PAGE_SIZE) perm"
    using Suc.IH [OF inv _ o, of "pa + PAGE_SIZE"] Suc.prems(2) by auto
  have "boot_keeps pd own ({q} \<union> {Suc q..<Suc q + n}) s s'" by (rule boot_keeps_trans [OF k k'])
  moreover have "{q} \<union> {Suc q..<Suc q + n} = {q..<q + Suc n}" by auto
  moreover have "rd s' pd (q div 1024) \<noteq> 0" using boot_keepsD(1) [OF k' e(1)] e(1) by simp
  moreover have "pte_at s' pd (q div 1024) (q mod 1024) = ?v" using boot_keepsD(3) [OF k' _ q e(1)] e(2) by simp
  moreover have "rd s' pd ((q + j) div 1024) \<noteq> 0 \<and> pte_at s' pd ((q + j) div 1024) ((q + j) mod 1024)
      = CONSTRUCT_ENTRY (pa + of_nat j * PAGE_SIZE) (perm OR PERM_PRESENT)" if "j < Suc n" "j \<noteq> 0" for j
  proof -
    from that obtain i where i: "j = Suc i" "i < n" by (cases j) auto
    have "pa + PAGE_SIZE + of_nat i * PAGE_SIZE = pa + of_nat j * PAGE_SIZE" by (simp add: i(1) algebra_simps)
    then show ?thesis using pm i unfolding pages_mapped_def by (metis add_Suc_shift)
  qed
  ultimately have "pages_mapped s' pd q (Suc n) pa perm" "boot_keeps pd own {q..<q + Suc n} s s'"
    unfolding pages_mapped_def by (metis add_0_right mult_zero_left of_nat_0, simp)
  moreover have "boot_map_pages (Suc n) eok pd (of_nat (q * 4096)) pa perm (fm, s) = Inr (fm', s')"
    unfolding boot_map_pages.simps g by (simp only: bindE_Inr prod.case deref_simps nx page_index(2) [OF q(1)] m)
  ultimately show ?case using inv' le le' only_memory_trans [OF om om'] by (metis order.trans)
qed

lemma boot_map_range_lemma:
  assumes "boot_inv pd own lim fm s" and "q + (unat sz + 4095) div 4096 \<le> 2 ^ 20"
    and "\<And>p. q \<le> p \<Longrightarrow> p < q + (unat sz + 4095) div 4096 \<Longrightarrow> p div 1024 \<notin> own"
  shows "\<exists>fm' s'. boot_map_range eok pd (of_nat (q * 4096)) sz pa perm (fm, s) = Inr (fm', s')
    \<and> boot_inv pd own lim fm' s' \<and> boot_top fm \<le> boot_top fm'
    \<and> boot_keeps pd own {q..<q + (unat sz + 4095) div 4096} s s' \<and> only_memory s s'
    \<and> pages_mapped s' pd q ((unat sz + 4095) div 4096) pa perm"
  unfolding boot_map_range_def using boot_map_pages_lemma [OF assms(1,2)] assms(3) by simp

section \<open>The stages of the construction\<close>

lemma boot_inv_start:
  assumes "lim = Suc pd + 1024" "lim < number_of_frames s" "number_of_frames s \<le> 65536"
    and "boot_top fm = Suc pd" "KERNEL_BASE \<le> fm" "\<And>i. rd s pd i = 0"
  shows "boot_inv pd {} lim fm s"
proof -
  have "unset s pd {} = {..<1024}" using assms(6) by (auto simp: unset_def)
  then show ?thesis using assms by (simp add: boot_inv_def)
qed

lemma boot_inv_cong:
  assumes "pmem s' = pmem s" "number_of_frames s' = number_of_frames s"
  shows "boot_inv pd own lim fm s' = boot_inv pd own lim fm s" "rd s' = rd s" "pte_at s' = pte_at s"
    "boot_keeps pd own Q s' u = boot_keeps pd own Q s u" "boot_keeps pd own Q u s' = boot_keeps pd own Q u s"
    "pages_mapped s' = pages_mapped s"
proof -
  show r: "rd s' = rd s" using assms(1) by (simp add: rd_def fun_eq_iff)
  then have t: "tbl s' = tbl s" by (simp add: tbl_def fun_eq_iff)
  then show p: "pte_at s' = pte_at s" using r by (simp add: pte_at_def fun_eq_iff)
  show "boot_inv pd own lim fm s' = boot_inv pd own lim fm s"
    using r t assms(2) by (simp add: boot_inv_def unset_def)
  show "boot_keeps pd own Q s' u = boot_keeps pd own Q s u" "boot_keeps pd own Q u s' = boot_keeps pd own Q u s"
    unfolding boot_keeps_def r p by (rule refl)+
  show "pages_mapped s' = pages_mapped s" by (simp add: pages_mapped_def fun_eq_iff r p)
qed

lemma boot_inv_alloc:
  assumes inv: "boot_inv pd own lim fm s" and n: "lim + (unat sz + 4095) div 4096 < number_of_frames s"
  shows "boot_inv pd own (lim + (unat sz + 4095) div 4096) (kva (boot_top fm) + sz) s"
proof -
  let ?n = "(unat sz + 4095) div 4096"
  have "unat sz \<le> ?n * 4096" by linarith
  moreover have "boot_top fm + card (unset s pd own) = lim" "number_of_frames s \<le> 65536"
    using inv by (simp_all add: boot_inv_def)
  then have "boot_top fm + ?n < 65536" using n by linarith
  then have "boot_top fm * 4096 + ?n * 4096 < 2 ^ 28" by simp
  ultimately have "boot_top fm * 4096 + unat sz < 2 ^ 28" by linarith
  note top = boot_top_kva [OF this]
  show ?thesis
    unfolding boot_inv_def top using inv n top(2) unfolding boot_inv_def by fastforce
qed

lemma boot_keeps_mono: "boot_keeps pd own Q s s' \<Longrightarrow> Q \<subseteq> R \<Longrightarrow> own \<subseteq> own' \<Longrightarrow> boot_keeps pd own' R s s'"
  unfolding boot_keeps_def by (meson subset_iff)

lemma boot_inv_own:
  assumes inv: "boot_inv pd own (Suc lim) fm s" and i: "i < 1024" "i \<notin> own" "rd s pd i = 0"
  shows "boot_inv pd (insert i own) lim fm (wr pd i v s)"
proof -
  have o: "rd (wr pd i v s) pd j = rd s pd j" "tbl (wr pd i v s) pd j = tbl s pd j" if "j \<noteq> i" for j
    using that by (simp_all add: rd_wr tbl_def)
  have "unset (wr pd i v s) pd (insert i own) = unset s pd own - {i}" using o by (auto simp: unset_def)
  moreover have "i \<in> unset s pd own" "finite (unset s pd own)" using i by (simp_all add: unset_def)
  ultimately have c: "Suc (card (unset (wr pd i v s) pd (insert i own))) = card (unset s pd own)"
    by (simp only: card.remove [of "unset s pd own" i])
  show ?thesis
    unfolding boot_inv_def
  proof (intro conjI allI impI)
    show "boot_top fm + card (unset (wr pd i v s) pd (insert i own)) = lim"
      using inv c unfolding boot_inv_def by linarith
    show "lim < number_of_frames (wr pd i v s)" "number_of_frames (wr pd i v s) \<le> 65536" "KERNEL_BASE \<le> fm" "pd < boot_top fm"
      using inv by (simp_all add: boot_inv_def wr_def)
  qed (use o boot_invD(6,7) [OF inv] in auto)
qed

lemma boot_keeps_own:
  assumes "boot_inv pd own lim fm s" and "rd s pd i = 0"
  shows "boot_keeps pd (insert i own) {q. q div 1024 = i} s (wr pd i v s)"
  by (rule boot_keeps_mono [OF boot_keeps_table [OF assms(1), of "i * 1024" i]])
    (use assms(2) in \<open>auto simp: rd_wr fun_eq_iff\<close>)

lemma pages_mapped_keeps:
  assumes "pages_mapped s pd q n pa perm" and "boot_keeps pd own Q s s'" and "q + n \<le> 2 ^ 20"
    and "\<And>k. k < n \<Longrightarrow> q + k \<notin> Q \<and> (q + k) div 1024 \<notin> own"
  shows "pages_mapped s' pd q n pa perm"
  unfolding pages_mapped_def
proof (intro allI impI)
  fix k assume k: "k < n"
  then have m: "rd s pd ((q + k) div 1024) \<noteq> 0" "pte_at s pd ((q + k) div 1024) ((q + k) mod 1024)
      = CONSTRUCT_ENTRY (pa + of_nat k * PAGE_SIZE) (perm OR PERM_PRESENT)"
    using assms(1) unfolding pages_mapped_def by auto
  have "q + k < 2 ^ 20" using assms(3) k by simp
  then show "rd s' pd ((q + k) div 1024) \<noteq> 0 \<and> pte_at s' pd ((q + k) div 1024) ((q + k) mod 1024)
      = CONSTRUCT_ENTRY (pa + of_nat k * PAGE_SIZE) (perm OR PERM_PRESENT)"
    using boot_keepsD(1) [OF assms(2) m(1)] boot_keepsD(3) [OF assms(2) _ _ _ m(1)] assms(4) [OF k] m by auto
qed

lemma boot_tables_fold:
  assumes "boot_inv pd own lim fm s" and "\<And>va. va \<in> set vas \<Longrightarrow> pdx va \<notin> own"
  shows "\<exists>fm' s'. foldE (\<lambda>sva st. bindE (boot_get_page_table eok pd sva True st) (\<lambda>(_, st). Inr st)) vas (fm, s) = Inr (fm', s')
    \<and> boot_inv pd own lim fm' s' \<and> boot_top fm \<le> boot_top fm' \<and> only_memory s s'
    \<and> boot_keeps pd own {q. \<exists>va\<in>set vas. q div 1024 = pdx va} s s'"
  using assms
proof (induction vas arbitrary: fm s)
  case Nil
  then show ?case by (simp add: exI [of _ fm])
next
  case (Cons va vas)
  obtain fm1 s1 where g: "boot_get_page_table eok pd va True (fm, s) = Inr (Some (tbl s1 pd (pdx va)), fm1, s1)"
    and inv: "boot_inv pd own lim fm1 s1" and le: "boot_top fm \<le> boot_top fm1" and om: "only_memory s s1"
    and k: "\<forall>i. i \<noteq> pdx va \<or> rd s pd i \<noteq> 0 \<longrightarrow> rd s1 pd i = rd s pd i" "\<forall>f. f \<noteq> pd \<longrightarrow> rd s1 f = rd s f"
    using boot_table_step [OF Cons.prems(1), of va eok] Cons.prems(2) [of va] by auto
  obtain fm' s' where r: "foldE (\<lambda>sva st. bindE (boot_get_page_table eok pd sva True st) (\<lambda>(_, st). Inr st)) vas (fm1, s1) = Inr (fm', s')"
    and inv': "boot_inv pd own lim fm' s'" and le': "boot_top fm1 \<le> boot_top fm'" and om': "only_memory s1 s'"
    and k': "boot_keeps pd own {q. \<exists>va\<in>set vas. q div 1024 = pdx va} s1 s'"
    using Cons.IH [OF inv] Cons.prems(2) by auto
  have "boot_keeps pd own {pdx va * 1024} s s1" by (rule boot_keeps_table [OF Cons.prems(1) _ k]) simp
  from boot_keeps_trans [OF this k'] have "boot_keeps pd own {q. \<exists>va\<in>set (va # vas). q div 1024 = pdx va} s s'"
    by (rule boot_keeps_mono) auto
  then show ?case using g r inv' le le' only_memory_trans [OF om om'] by auto
qed

lemma or_flags: "unat (PPN (e OR 5)) = unat (PPN e)" "present (e OR 5)"
proof -
  have "PPN (5 :: uint32) = 0" by (simp add: PPN_def)
  then show "unat (PPN (e OR 5)) = unat (PPN e)" by (simp add: PPN_def drop_bit_or)
  show "present (e OR 5)" by (simp add: present_iff_bit bit_or_iff)
qed

lemma boot_inv_flags:
  assumes inv: "boot_inv pd own lim fm s" and i: "i < 1024" "i \<notin> own" "rd s pd i \<noteq> 0"
  defines "s' \<equiv> wr pd i (rd s pd i OR 5) s"
  shows "boot_inv pd own lim fm s'" "pages_mapped s pd q n pa perm \<Longrightarrow> (\<And>k. k < n \<Longrightarrow> (q + k) div 1024 \<notin> own) \<Longrightarrow>
      q + n \<le> 2 ^ 20 \<Longrightarrow> pages_mapped s' pd q n pa perm"
    "rd s' pd j = 0 \<longleftrightarrow> rd s pd j = 0" "j \<noteq> i \<Longrightarrow> rd s' pd j = rd s pd j" "only_memory s s'"
proof -
  have nz: "rd s pd i OR 5 \<noteq> 0" using or_flags(2) [of "rd s pd i"] by (metis present_0)
  have r: "rd s' pd j = (if j = i then rd s pd i OR 5 else rd s pd j)" for j by (simp add: s'_def rd_wr)
  show z: "rd s' pd j = 0 \<longleftrightarrow> rd s pd j = 0" for j using r i(3) nz by simp
  show "j \<noteq> i \<Longrightarrow> rd s' pd j = rd s pd j" using r by simp
  show "only_memory s s'" by (simp add: s'_def)
  have t: "tbl s' pd j = tbl s pd j" for j using r or_flags(1) by (simp add: tbl_def)
  have u: "unset s' pd own = unset s pd own" by (auto simp: unset_def z)
  have p: "present (rd s' pd j)" if "present (rd s pd j)" for j using that r or_flags(2) by simp
  show "boot_inv pd own lim fm s'"
    unfolding boot_inv_def
  proof (intro conjI allI impI)
    show "boot_top fm + card (unset s' pd own) = lim" using inv by (simp add: u boot_inv_def)
    show "lim < number_of_frames s'" "number_of_frames s' \<le> 65536" "KERNEL_BASE \<le> fm" "pd < boot_top fm"
      using inv by (simp_all add: boot_inv_def wr_def s'_def)
  qed (use p z t boot_invD(6,7) [OF inv] in auto)
  assume m: "pages_mapped s pd q n pa perm" and k: "\<And>k. k < n \<Longrightarrow> (q + k) div 1024 \<notin> own" and q: "q + n \<le> 2 ^ 20"
  have "pte_at s' pd j l = pte_at s pd j l" if "j < 1024" "j \<notin> own" for j l
    using boot_invD(6) [OF inv that] z [of j] t [of j] by (auto simp: pte_at_def) (auto simp: s'_def rd_wr)
  moreover have "(q + j) div 1024 < 1024" if "j < n" for j using that q by (simp add: div_less_iff_less_mult)
  ultimately show "pages_mapped s' pd q n pa perm" using m k z unfolding pages_mapped_def by simp
qed

section \<open>The switch to paging and the self-check\<close>

lemma fold_wr_directory:
  "fold (\<lambda>j s. wr pd j (g j) s) [0..<c] s = s\<lparr>pmem := (pmem s)(pd := \<lambda>i. if i < c then g i else pmem s pd i)\<rparr>"
proof (induction c)
  case (Suc c)
  then show ?case by (simp add: wr_def fun_eq_iff less_Suc_eq)
qed simp

lemma fold_copy_entries:
  assumes "c \<le> 960"
  shows "fold (\<lambda>j s. wr pd j (rd s pd (960 + j)) s) [0..<c] s =
    s\<lparr>pmem := (pmem s)(pd := \<lambda>i. if i < c then rd s pd (960 + i) else pmem s pd i)\<rparr>"
  using assms
proof (induction c)
  case (Suc c)
  then show ?case by (simp add: wr_def rd_def fun_eq_iff less_Suc_eq)
qed simp

lemma pdx_KERNEL_BASE [simp]: "pdx KERNEL_BASE = 960"
  by (simp add: pdx_def PDX_def KERNEL_BASE_def)

lemma low_entries_length: "pdx p - 960 < 64"
  using pdx_less [of p] by linarith

lemma copy_kernel_entries_eq:
  "copy_kernel_entries pd p s =
     s\<lparr>pmem := (pmem s)(pd := \<lambda>i. if i < pdx p - 960 then rd s pd (960 + i) else pmem s pd i)\<rparr>"
  unfolding copy_kernel_entries_def low_entries_def pdx_KERNEL_BASE
  using low_entries_length [of p] by (intro fold_copy_entries) linarith

lemma turn_on_paging_eq:
  assumes "\<And>j. j < 64 \<Longrightarrow> rd s (ptr_page_directory s) j = 0"
  shows "turn_on_paging p s = s\<lparr>cr3 := phys_page_directory s\<rparr>"
proof -
  let ?pd = "ptr_page_directory s"
  have "(\<lambda>i. if i < pdx p - 960 then 0 else pmem s ?pd i) = pmem s ?pd"
    using assms low_entries_length [of p] by (force simp: rd_def)
  then show ?thesis
    by (simp add: turn_on_paging_def Let_def low_entries_def fold_wr_directory [where g = "\<lambda>_. 0"] copy_kernel_entries_eq
        cong: if_cong)
qed

lemma PGOFF_add_pages:
  assumes "PGOFF pa = 0"
  shows "PGOFF (pa + of_nat k * PAGE_SIZE) = 0"
proof -
  have "pa + of_nat k * PAGE_SIZE = of_nat (unat pa + k * 4096)" by (simp add: PAGE_SIZE_def)
  then have "unat (pa + of_nat k * PAGE_SIZE) = (unat pa + k * 4096) mod 2 ^ 32" by (simp only: unat_of_nat) simp
  moreover have "unat pa mod 4096 = 0" using assms unat_PGOFF [of pa] by simp
  ultimately have "unat (PGOFF (pa + of_nat k * PAGE_SIZE)) = 0"
    by (simp add: unat_PGOFF mod_mod_cancel)
  then show ?thesis by (simp add: unat_eq_0)
qed

text \<open>\<open>check_va2pa\<close> finds the address that was mapped.\<close>

lemma check_va2pa_mapped:
  assumes inv: "boot_inv pd own lim fm s" and m: "pages_mapped s pd q n pa perm" and k: "k < n"
    and o: "(q + k) div 1024 \<notin> own" and q: "q + n \<le> 2 ^ 20" and perm: "perm AND NOT 0xFFF = 0" and pa: "PGOFF pa = 0"
    and va: "unat va div 4096 = q + k"
  shows "check_va2pa pd va s = Inr (pa + of_nat k * PAGE_SIZE, s)"
proof -
  have i: "(q + k) div 1024 < 1024" using k q by (simp add: div_less_iff_less_mult)
  have x: "pdx va = (q + k) div 1024" "ptx va = (q + k) mod 1024"
    using va div_mult2_eq [of "unat va" 4096 1024] by (simp_all add: pdx_def ptx_def unat_PDX unat_PTX)
  have e: "rd s pd (pdx va) \<noteq> 0" "rd s (tbl s pd (pdx va)) (ptx va) = CONSTRUCT_ENTRY (pa + of_nat k * PAGE_SIZE) (perm OR PERM_PRESENT)"
    using m k unfolding pages_mapped_def x by (auto simp: pte_at_def)
  note t = boot_invD(6) [OF inv i o] and n = boot_invD(5) [OF inv]
  have p: "present (rd s pd (pdx va))" "tbl s pd (pdx va) < number_of_frames s" using t e(1) n unfolding x by auto
  have f: "(perm OR PERM_PRESENT) AND NOT 0xFFF = 0"
    using perm by (simp add: PERM_PRESENT_def bit.conj_disj_distrib2)
  show ?thesis
    using p e(2) EXTRACT_CONSTRUCT [OF PGOFF_add_pages [OF pa] f]
    by (simp add: check_va2pa_def and_one_zero STATIC_KERNEL_VIRTUAL_ADDRESS_def Let_def tbl_def [symmetric])
qed

lemma foldE_checks:
  assumes "\<And>k. k \<in> set ks \<Longrightarrow> f k () = Inr ()"
  shows "foldE f ks () = Inr ()"
  using assms by (induction ks) auto

lemma layout_pages:
  "unat VPT = 959 * 1024 * 4096" "pdx VPT = 959" "pdx UVPT = 957" "pdx UENVS = 955" "pdx (KERNEL_STACK_TOP - 1) = 958"
  "KERNEL_STACK_TOP - KERNEL_STACK_SIZE = of_nat (982008 * 4096)" "UENVS = of_nat (977920 * 4096)"
  "KERNEL_BASE = of_nat (983040 * 4096)" "unat (0 - KERNEL_BASE) div 4096 = 65536" "unat KERNEL_STACK_SIZE div 4096 = 8"
  by (simp_all add: layout_defs pdx_def PDX_def)

lemma unat_page_of:
  assumes "q + k < 2 ^ 20"
  shows "unat (of_nat (q * 4096) + of_nat k * PAGE_SIZE :: uint32) div 4096 = q + k"
proof -
  have e: "of_nat (q * 4096) + of_nat k * PAGE_SIZE = (of_nat ((q + k) * 4096) :: uint32)"
    by (simp add: PAGE_SIZE_def algebra_simps)
  have "(q + k) * 4096 < 2 ^ LENGTH(32)" using assms by simp
  then have "unat (of_nat ((q + k) * 4096) :: uint32) = (q + k) * 4096"
    by (simp only: unsigned_of_nat of_nat_id take_bit_nat_eq_self)
  then show ?thesis unfolding e by simp
qed

text \<open>The slots of the pages that are mapped at boot.\<close>

lemma stack_slot: "(j :: nat) < 8 \<Longrightarrow> (982008 + j) div 1024 = 958"
  by (intro div_nat_eqI) simp_all

lemma kernel_slot: "(983040 :: nat) \<le> q \<Longrightarrow> 960 \<le> q div 1024"
  by (simp add: less_eq_div_iff_mult_less_eq)

lemma check_boot_pgdir_lemma:
  assumes inv: "boot_inv pd {957, 959} lim fm s"
    and kb: "pages_mapped s pd 983040 65536 0 PERM_WRITEABLE"
    and st: "pages_mapped s pd 982008 8 stack_pa PERM_WRITEABLE" "PGOFF stack_pa = 0"
    and b: "STATIC_KERNEL_PHYSICAL_ADDRESS bottom = Inr stack_pa"
    and z: "\<And>i. i < 1024 \<Longrightarrow> rd s pd i = 0 \<longleftrightarrow> i \<notin> {955, 957, 958, 959} \<and> i < 960"
  shows "check_boot_pgdir bottom pd s = Inr ()"
proof -
  have pw: "PERM_WRITEABLE AND NOT 0xFFF = 0" and z0: "PGOFF 0 = 0" by (simp_all add: PERM_WRITEABLE_def PGOFF_def)
  have a: "foldE (\<lambda>k _. bindE (check_va2pa pd (KERNEL_BASE + of_nat k * PAGE_SIZE) s) (\<lambda>(pa, _).
      assertE ''phys mem'' (pa = of_nat k * PAGE_SIZE))) [0..<65536] () = Inr ()"
  proof (rule foldE_checks)
    fix k :: nat assume "k \<in> set [0..<65536]"
    then have k: "k < 65536" by simp
    have "960 \<le> (983040 + k) div 1024" by (rule kernel_slot) simp
    then have "(983040 + k) div 1024 \<notin> {957, 959}" by auto
    from check_va2pa_mapped [OF inv kb k this _ pw z0] k
    have "check_va2pa pd (KERNEL_BASE + of_nat k * PAGE_SIZE) s = Inr (0 + of_nat k * PAGE_SIZE, s)"
      unfolding layout_pages(8) using unat_page_of [of 983040 k] by simp
    then show "bindE (check_va2pa pd (KERNEL_BASE + of_nat k * PAGE_SIZE) s) (\<lambda>(pa, _).
      assertE ''phys mem'' (pa = of_nat k * PAGE_SIZE)) = Inr ()" by (simp add: assertE_def)
  qed
  have c: "foldE (\<lambda>k _. bindE (check_va2pa pd (KERNEL_STACK_TOP - KERNEL_STACK_SIZE + of_nat k * PAGE_SIZE) s)
      (\<lambda>(pa, _). bindE (STATIC_KERNEL_PHYSICAL_ADDRESS bottom) (\<lambda>b.
      assertE ''kernel stack'' (pa = b + of_nat k * PAGE_SIZE)))) [0..<8] () = Inr ()"
  proof (rule foldE_checks)
    fix k :: nat assume "k \<in> set [0..<8]"
    then have k: "k < 8" by simp
    then have "(982008 + k) div 1024 \<notin> {957, 959}" using stack_slot [of k] by simp
    from check_va2pa_mapped [OF inv st(1) k this _ pw st(2)] k
    have "check_va2pa pd (KERNEL_STACK_TOP - KERNEL_STACK_SIZE + of_nat k * PAGE_SIZE) s = Inr (stack_pa + of_nat k * PAGE_SIZE, s)"
      unfolding layout_pages(6) using unat_page_of [of 982008 k] by simp
    then show "bindE (check_va2pa pd (KERNEL_STACK_TOP - KERNEL_STACK_SIZE + of_nat k * PAGE_SIZE) s)
      (\<lambda>(pa, _). bindE (STATIC_KERNEL_PHYSICAL_ADDRESS bottom) (\<lambda>b.
      assertE ''kernel stack'' (pa = b + of_nat k * PAGE_SIZE))) = Inr ()" by (simp add: assertE_def b)
  qed
  have d: "foldE (\<lambda>i _. if i \<in> {pdx VPT, pdx UVPT, pdx (KERNEL_STACK_TOP - 1), pdx UENVS} \<or> pdx KERNEL_BASE \<le> i
      then assertE ''pde present'' (rd s pd i \<noteq> 0) else assertE ''pde zero'' (rd s pd i = 0)) [0..<1024] () = Inr ()"
    unfolding layout_pages(2-5) pdx_KERNEL_BASE
  proof (rule foldE_checks)
    fix i :: nat assume "i \<in> set [0..<1024]"
    then have "rd s pd i = 0 \<longleftrightarrow> i \<notin> {955, 957, 958, 959} \<and> i < 960" using z by simp
    then show "(if i \<in> {959, 957, 958, 955} \<or> 960 \<le> i
      then assertE ''pde present'' (rd s pd i \<noteq> 0) else assertE ''pde zero'' (rd s pd i = 0)) = Inr ()"
      by (auto simp: assertE_def)
  qed
  show ?thesis unfolding check_boot_pgdir_def layout_pages(9,10) a c d bindE_Inr ..
qed

end
