(* ===== verification/Kernel_Start.thy ===== *)
theory Kernel_Start
  imports Kernel_Boot
begin

text \<open>
  What the start of the kernel achieves: the stages of \<open>initialize_kernel_VM\<close> put together, the address
  space that it leaves (\<open>kernel_space\<close>), and \<open>FOS_initialize\<close> of \<^verbatim>\<open>kern/init.c\<close>, which goes on with the free
  frames, the environments and the scheduler and stops before the command prompt.
\<close>

section \<open>The three parts of \<open>initialize_kernel_VM\<close>\<close>

lemma boot_lower:
  assumes inv: "boot_inv pd {} lim fm s" and z: "\<And>i. rd s pd i = 0"
  shows "\<exists>fm2 s2 fm' s'. boot_map_range eok pd (KERNEL_STACK_TOP - KERNEL_STACK_SIZE) KERNEL_STACK_SIZE stack_pa PERM_WRITEABLE (fm, s)
      = Inr (fm2, s2) \<and> boot_tables eok pd (fm2, s2) = Inr (fm', s') \<and> boot_inv pd {} lim fm' s' \<and> boot_top fm \<le> boot_top fm'
    \<and> only_memory s s' \<and> pages_mapped s' pd 982008 8 stack_pa PERM_WRITEABLE
    \<and> (\<forall>i<960. i \<noteq> 958 \<longrightarrow> rd s' pd i = 0)"
proof -
  have n: "(unat KERNEL_STACK_SIZE + 4095) div 4096 = 8" by (simp add: KERNEL_STACK_SIZE_def PAGE_SIZE_def)
  obtain fm2 s2 where a: "boot_map_range eok pd (KERNEL_STACK_TOP - KERNEL_STACK_SIZE) KERNEL_STACK_SIZE stack_pa PERM_WRITEABLE (fm, s)
      = Inr (fm2, s2)" "boot_inv pd {} lim fm2 s2" "boot_top fm \<le> boot_top fm2" "boot_keeps pd {} {982008..<982008 + 8} s s2"
    "only_memory s s2" "pages_mapped s2 pd 982008 8 stack_pa PERM_WRITEABLE"
    using boot_map_range_lemma [OF inv, of 982008 KERNEL_STACK_SIZE eok stack_pa PERM_WRITEABLE] unfolding n layout_pages(6) by auto
  let ?vas = "map (\<lambda>k. KERNEL_BASE + of_nat k * PTSIZE) [0..<Suc (unat (0xFFFFFFFF - KERNEL_BASE) div unat PTSIZE)]"
  have v: "960 \<le> pdx va" if "va \<in> set ?vas" for va
  proof -
    from that obtain k where k: "k < 64" "va = KERNEL_BASE + of_nat k * PTSIZE"
      by (auto simp: KERNEL_BASE_def PTSIZE_def PAGE_SIZE_def)
    then have "va = of_nat (983040 * 4096) + of_nat (k * 1024) * PAGE_SIZE"
      by (simp add: PTSIZE_def PAGE_SIZE_def KERNEL_BASE_def)
    then have "unat va div 4096 = 983040 + k * 1024" using unat_page_of [of 983040 "k * 1024"] k(1) by simp
    then have "pdx va = (983040 + k * 1024) div 1024"
      using div_mult2_eq [of "unat va" 4096 1024] by (simp add: pdx_def unat_PDX)
    then show ?thesis by simp
  qed
  obtain fm' s' where b: "boot_tables eok pd (fm2, s2) = Inr (fm', s')" "boot_inv pd {} lim fm' s'" "boot_top fm2 \<le> boot_top fm'"
    "only_memory s2 s'" "boot_keeps pd {} {q. \<exists>va\<in>set ?vas. q div 1024 = pdx va} s2 s'"
    using boot_tables_fold [OF a(2), of ?vas eok] unfolding boot_tables_def by auto
  have k: "boot_keeps pd {} {q. 960 \<le> q div 1024} s2 s'" by (rule boot_keeps_mono [OF b(5)]) (use v in auto)
  have pm: "pages_mapped s' pd 982008 8 stack_pa PERM_WRITEABLE"
    by (intro pages_mapped_keeps [OF a(6) k]) (simp_all add: stack_slot)
  have "rd s' pd i = 0" if "i < 960" "i \<noteq> 958" for i
  proof -
    have "q div 1024 \<noteq> i" if "q \<in> {982008..<982008 + 8}" for q
    proof -
      have "q div 1024 = 958" using that by (intro div_nat_eqI) auto
      then show ?thesis using \<open>i \<noteq> 958\<close> by simp
    qed
    then have "rd s2 pd i = 0" using boot_keepsD(2) [OF a(4), of i] z by simp
    then show ?thesis using boot_keepsD(2) [OF k, of i] that by simp
  qed
  then show ?thesis using a b pm only_memory_trans [OF a(5) b(4)] by (meson order.trans)
qed

lemma boot_own_entries:
  fixes v w :: uint32
  assumes inv: "boot_inv pd {} (Suc (Suc lim)) fm s" and z: "rd s pd 957 = 0" "rd s pd 959 = 0"
    and m: "pages_mapped s pd 982008 8 stack_pa PERM_WRITEABLE"
  defines "s' \<equiv> wr pd 957 w (wr pd 959 v s)"
  shows "boot_inv pd {957, 959} lim fm s'" "pages_mapped s' pd 982008 8 stack_pa PERM_WRITEABLE"
proof -
  have i1: "boot_inv pd {959} (Suc lim) fm (wr pd 959 v s)" using boot_inv_own [OF inv, of 959 v] z by simp
  have "rd (wr pd 959 v s) pd 957 = 0" using z(1) by (simp add: rd_wr)
  then show "boot_inv pd {957, 959} lim fm s'" unfolding s'_def using boot_inv_own [OF i1, of 957 w] by simp
  note d = stack_slot
  have "pages_mapped (wr pd 959 v s) pd 982008 8 stack_pa PERM_WRITEABLE"
    by (rule pages_mapped_keeps [OF m boot_keeps_own [OF inv z(2)]]) (use d in simp_all)
  moreover have "rd (wr pd 959 v s) pd 957 = 0" using z(1) by (simp add: rd_wr)
  ultimately show "pages_mapped s' pd 982008 8 stack_pa PERM_WRITEABLE"
    unfolding s'_def using d by (intro pages_mapped_keeps [OF _ boot_keeps_own [OF i1]]) simp_all
qed

lemma boot_upper:
  assumes inv: "boot_inv pd {957, 959} lim fm s" and st: "pages_mapped s pd 982008 8 stack_pa PERM_WRITEABLE"
    and z: "\<And>i. i < 960 \<Longrightarrow> i \<notin> {957, 958, 959} \<Longrightarrow> rd s pd i = 0" and nz: "rd s pd 957 \<noteq> 0" "rd s pd 959 \<noteq> 0"
    and sz: "m = (unat sz + 4095) div 4096" "0 < m" "m \<le> 1024"
  shows "\<exists>fm8 s8 fm' s'. boot_map_range eok pd UENVS sz envs_pa PERM_USER (fm, s) = Inr (fm8, s8)
    \<and> boot_map_range eok pd KERNEL_BASE (0xFFFFFFFF - KERNEL_BASE) 0 PERM_WRITEABLE (fm8, wr pd 955 (rd s8 pd 955 OR 5) s8) = Inr (fm', s')
    \<and> boot_inv pd {957, 959} lim fm' s' \<and> boot_top fm \<le> boot_top fm' \<and> only_memory s s'
    \<and> pages_mapped s' pd 982008 8 stack_pa PERM_WRITEABLE \<and> pages_mapped s' pd 977920 m envs_pa PERM_USER
    \<and> pages_mapped s' pd 983040 65536 0 PERM_WRITEABLE
    \<and> (\<forall>i<1024. rd s' pd i = 0 \<longleftrightarrow> i \<notin> {955, 957, 958, 959} \<and> i < 960)
    \<and> rd s' pd 957 = rd s pd 957 \<and> rd s' pd 959 = rd s pd 959"
proof -
  note d = stack_slot
  have e: "q div 1024 = 955" if "977920 \<le> q" "q < 977920 + m" for q using that sz(3) by (intro div_nat_eqI) simp_all
  note g = kernel_slot
  have le: "977920 + m \<le> 2 ^ 20" using sz(3) by simp
  have o: "p div 1024 \<notin> {957, 959}" if "977920 \<le> p" "p < 977920 + m" for p using e [OF that] by simp
  obtain fm8 s8 where a: "boot_map_range eok pd UENVS sz envs_pa PERM_USER (fm, s) = Inr (fm8, s8)"
    "boot_inv pd {957, 959} lim fm8 s8" "boot_top fm \<le> boot_top fm8" "boot_keeps pd {957, 959} {977920..<977920 + m} s s8"
    "only_memory s s8" "pages_mapped s8 pd 977920 m envs_pa PERM_USER"
    using boot_map_range_lemma [OF inv, of 977920 sz eok envs_pa PERM_USER] le o
    unfolding sz(1) [symmetric] layout_pages(7) by blast
  have st8: "pages_mapped s8 pd 982008 8 stack_pa PERM_WRITEABLE"
    using d sz(3) by (intro pages_mapped_keeps [OF st a(4)]) auto
  have p8: "rd s8 pd 955 \<noteq> 0"
    using a(6) sz(2) e [of 977920] unfolding pages_mapped_def by (metis add_0_right le_add1 less_add_same_cancel1)
  have r8: "rd s8 pd i = rd s pd i" if "i \<noteq> 955" for i
    by (rule boot_keepsD(2) [OF a(4)]) (use e that in auto)
  define s9 where "s9 = wr pd 955 (rd s8 pd 955 OR 5) s8"
  note f = boot_inv_flags [OF a(2), of 955, folded s9_def, OF _ _ p8]
  have i9: "boot_inv pd {957, 959} lim fm8 s9" using f(1) by simp
  have st9: "pages_mapped s9 pd 982008 8 stack_pa PERM_WRITEABLE" using d by (intro f(2) [OF _ _ st8]) simp_all
  have ev9: "pages_mapped s9 pd 977920 m envs_pa PERM_USER" using o le by (intro f(2) [OF _ _ a(6)]) simp_all
  have z9: "rd s9 pd j = 0 \<longleftrightarrow> rd s8 pd j = 0" for j using f(3) by simp
  have n: "(unat (0xFFFFFFFF - KERNEL_BASE) + 4095) div 4096 = 65536" by (simp add: KERNEL_BASE_def)
  obtain fm' s' where b: "boot_map_range eok pd KERNEL_BASE (0xFFFFFFFF - KERNEL_BASE) 0 PERM_WRITEABLE (fm8, s9) = Inr (fm', s')"
    "boot_inv pd {957, 959} lim fm' s'" "boot_top fm8 \<le> boot_top fm'" "boot_keeps pd {957, 959} {983040..<983040 + 65536} s9 s'"
    "only_memory s9 s'" "pages_mapped s' pd 983040 65536 0 PERM_WRITEABLE"
    using boot_map_range_lemma [OF i9, of 983040 "0xFFFFFFFF - KERNEL_BASE" eok 0 PERM_WRITEABLE] g
    unfolding n layout_pages(8) by fastforce
  have "pages_mapped s' pd 982008 8 stack_pa PERM_WRITEABLE"
    using d by (intro pages_mapped_keeps [OF st9 b(4)]) auto
  moreover have "pages_mapped s' pd 977920 m envs_pa PERM_USER"
    using o sz(3) by (intro pages_mapped_keeps [OF ev9 b(4)]) auto
  moreover have low: "rd s' pd i = rd s9 pd i" if "i < 960" for i
    by (rule boot_keepsD(2) [OF b(4)]) (use g that in force)
  have "rd s' pd i = 0 \<longleftrightarrow> i \<notin> {955, 957, 958, 959} \<and> i < 960" if i: "i < 1024" for i
  proof (cases "i < 960")
    case True
    have "rd s pd 958 \<noteq> 0" using st d [of 0] unfolding pages_mapped_def by (metis add_0_right zero_less_numeral)
    then show ?thesis using z [OF True] nz p8 low [OF True] z9 [of i] r8 [of i] True by auto
  next
    case False
    define k where "k = (i - 960) * 1024"
    have k: "k < 65536" "(983040 + k) div 1024 = i" using False i by (simp_all add: k_def)
    then have "rd s' pd i \<noteq> 0" using b(6) unfolding pages_mapped_def by metis
    then show ?thesis using False by simp
  qed
  moreover have "rd s' pd 957 = rd s pd 957" "rd s' pd 959 = rd s pd 959"
    using low [of 957] low [of 959] f(4) [of 957] f(4) [of 959] r8 [of 957] r8 [of 959] by simp_all
  moreover have "only_memory s s'"
    using only_memory_trans [OF a(5)] only_memory_trans [OF f(5) b(5)] by simp
  ultimately show ?thesis using a b unfolding s9_def by (meson order.trans)
qed

lemma boot_alloc_step:
  assumes inv: "boot_inv pd own lim fm s" and n: "lim + n < number_of_frames s" "n = (unat sz + 4095) div 4096"
  shows "boot_allocate_space eok sz PAGE_SIZE (fm, s) = (kva (boot_top fm), kva (boot_top fm) + sz, s)"
    "boot_inv pd own (lim + n) (kva (boot_top fm) + sz) s" "boot_top fm < 65536"
  using boot_allocate_space_eq [OF boot_invD(2,4) [OF inv]] boot_inv_alloc [OF inv, of sz] n boot_invD(4) [OF inv]
  by simp_all

text \<open>What \<open>initialize_kernel_VM\<close> leaves outside memory.\<close>

definition boot_state :: "kernel \<Rightarrow> nat \<Rightarrow> (nat \<Rightarrow> nat \<Rightarrow> uint32) \<Rightarrow> kernel" where
  "boot_state s pd m = s\<lparr>pmem := m, frames_info := (\<lambda>i. if i < number_of_frames s then zero_fi else frames_info s i),
     envs := (\<lambda>i. if i < NENV then zero_env else envs s i), ptr_page_directory := pd,
     phys_page_directory := to_physical_address pd, cr3 := to_physical_address pd,
     cfg := (cfg s)\<lparr>memory_scarce_threshold_percentage := DEFAULT_MEM_SCARCE_PERCENTAGE\<rparr>\<rparr>"

text \<open>The address space that it has built.\<close>

definition kernel_space :: "kernel \<Rightarrow> nat \<Rightarrow> uint32 \<Rightarrow> uint32 \<Rightarrow> uint32 \<Rightarrow> bool" where
  "kernel_space s pd fm stack_pa envs_pa \<longleftrightarrow> boot_inv pd {957, 959} (pd + (24 * number_of_frames s + 4095) div 4096 + 2041) fm s
     \<and> pages_mapped s pd 982008 8 stack_pa PERM_WRITEABLE \<and> pages_mapped s pd 977920 238 envs_pa PERM_USER
     \<and> pages_mapped s pd 983040 65536 0 PERM_WRITEABLE
     \<and> (\<forall>i<1024. rd s pd i = 0 \<longleftrightarrow> i \<notin> {955, 957, 958, 959} \<and> i < 960)
     \<and> rd s pd 959 = new_entry pd \<and> rd s pd 957 = to_physical_address pd OR PERM_USER OR PERM_PRESENT"

lemma kernel_space_cong:
  assumes "pmem s' = pmem s" "number_of_frames s' = number_of_frames s"
  shows "kernel_space s' pd fm stack_pa envs_pa = kernel_space s pd fm stack_pa envs_pa"
  unfolding kernel_space_def boot_inv_cong [OF assms] assms(2) ..

lemma only_memory_eq: "only_memory s s' \<Longrightarrow> \<exists>m. s' = s\<lparr>pmem := m\<rparr>"
  unfolding only_memory_def by metis

lemma boot_sizes:
  "n \<le> 65536 \<Longrightarrow> (unat (of_nat n * sizeof_Frame_Info) + 4095) div 4096 = (24 * n + 4095) div 4096"
  "(unat (of_nat PAGES_PER_FILE * sizeof_Frame_Info) + 4095) div 4096 = 780"
  "(unat (of_nat NENV * sizeof_Env) + 4095) div 4096 = 238"
proof -
  assume n: "n \<le> 65536"
  have "of_nat n * sizeof_Frame_Info = of_nat (24 * n)" by (simp add: sizeof_Frame_Info_def mult.commute)
  moreover have "24 * n < 2 ^ LENGTH(32)" using n by simp
  ultimately have "unat (of_nat n * sizeof_Frame_Info) = 24 * n"
    by (simp only: unsigned_of_nat of_nat_id take_bit_nat_eq_self)
  then show "(unat (of_nat n * sizeof_Frame_Info) + 4095) div 4096 = (24 * n + 4095) div 4096" by simp
qed (simp_all add: PAGES_PER_FILE_def sizeof_Frame_Info_def NENV_def sizeof_Env_def sizeof_WorkingSetElement_def
  PWS_MAX_SIZE_def TWS_MAX_SIZE_def)

text \<open>The first page becomes the directory.\<close>

lemma boot_first:
  assumes eok: "KERNEL_BASE \<le> eok" and n: "lim = boot_top eok + 1025" "lim < number_of_frames s" "number_of_frames s \<le> 65536"
  defines "pd \<equiv> boot_top eok"
  defines "s1 \<equiv> (wr_page pd zero_page s)\<lparr>ptr_page_directory := pd, phys_page_directory := to_physical_address pd\<rparr>"
  shows "boot_allocate_space eok PAGE_SIZE PAGE_SIZE (0, s) = (kva pd, kva pd + PAGE_SIZE, s)"
    "boot_inv pd {} lim (kva pd + PAGE_SIZE) s1" "rd s1 pd i = 0" "pd < 65535"
proof -
  show p: "pd < 65535" using n unfolding pd_def by linarith
  then show "boot_allocate_space eok PAGE_SIZE PAGE_SIZE (0, s) = (kva pd, kva pd + PAGE_SIZE, s)"
    using boot_allocate_space_first [OF eok] unfolding pd_def by simp
  show z: "rd s1 pd i = 0" for i by (simp add: s1_def rd_def wr_page_def zero_page_def)
  have "pd * 4096 + unat PAGE_SIZE < 2 ^ 28" using p by (simp add: PAGE_SIZE_def)
  note t = boot_top_kva [OF this]
  show "boot_inv pd {} lim (kva pd + PAGE_SIZE) s1"
    using n t z by (intro boot_inv_start) (simp_all add: pd_def s1_def wr_page_def PAGE_SIZE_def)
qed

lemma PGOFF_sub_KERNEL_BASE: "PGOFF p = 0 \<Longrightarrow> KERNEL_BASE \<le> p \<Longrightarrow> PGOFF (p - KERNEL_BASE) = 0"
proof -
  assume p: "PGOFF p = 0" "KERNEL_BASE \<le> p"
  then have "unat p mod 4096 = 0" "0xF0000000 \<le> unat p" using unat_PGOFF [of p] by (simp_all add: KERNEL_BASE_le_iff)
  then have "(unat p - 0xF0000000) mod 4096 = 0" by (simp add: mod_eq_0_iff_dvd dvd_diff_nat)
  then have "unat (PGOFF (p - KERNEL_BASE)) = 0" using p(2) by (simp add: unat_PGOFF kernel_offset)
  then show ?thesis by (simp add: unat_eq_0)
qed

text \<open>From the arrays of frames to that of environments.\<close>

lemma boot_middle:
  fixes F :: "nat \<Rightarrow> frame_info" and G :: "nat \<Rightarrow> env"
  assumes inv: "boot_inv pd {} (Suc (Suc lim)) fm s" and st: "pages_mapped s pd 982008 8 stack_pa PERM_WRITEABLE"
    and z: "\<forall>i<960. i \<noteq> 958 \<longrightarrow> rd s pd i = 0" and n: "number_of_frames s \<le> 65536"
    and lim: "lim + (24 * number_of_frames s + 4095) div 4096 + 780 + 238 < number_of_frames s"
  defines "fm4 \<equiv> kva (boot_top fm) + of_nat (number_of_frames s) * sizeof_Frame_Info"
  defines "fm5 \<equiv> kva (boot_top fm4) + of_nat PAGES_PER_FILE * sizeof_Frame_Info"
  defines "fm7 \<equiv> kva (boot_top fm5) + of_nat NENV * sizeof_Env"
  defines "s6 \<equiv> wr pd 957 (to_physical_address pd OR PERM_USER OR PERM_PRESENT) (wr pd 959 (new_entry pd) (s\<lparr>frames_info := F\<rparr>))"
  shows "boot_allocate_space eok (of_nat (number_of_frames s) * sizeof_Frame_Info) PAGE_SIZE (fm, s) = (kva (boot_top fm), fm4, s)"
    "boot_allocate_space eok (of_nat PAGES_PER_FILE * sizeof_Frame_Info) PAGE_SIZE (fm4, s\<lparr>frames_info := F\<rparr>)
       = (kva (boot_top fm4), fm5, s\<lparr>frames_info := F\<rparr>)"
    "boot_allocate_space eok (of_nat NENV * sizeof_Env) PAGE_SIZE (fm5, s6) = (kva (boot_top fm5), fm7, s6)"
    "boot_top fm5 < 65536"
    "boot_inv pd {957, 959} (lim + (24 * number_of_frames s + 4095) div 4096 + 780 + 238) fm7 (s6\<lparr>envs := G\<rparr>)"
    "pages_mapped (s6\<lparr>envs := G\<rparr>) pd 982008 8 stack_pa PERM_WRITEABLE"
    "rd (s6\<lparr>envs := G\<rparr>) pd i = (if i = 957 then to_physical_address pd OR PERM_USER OR PERM_PRESENT
       else if i = 959 then new_entry pd else rd s pd i)"
proof -
  let ?n = "number_of_frames s" and ?f = "(24 * number_of_frames s + 4095) div 4096"
  let ?s4 = "s\<lparr>frames_info := F\<rparr>"
  have l: "Suc (Suc lim) + ?f < ?n" "Suc (Suc lim) + ?f + 780 < ?n" using lim by simp_all
  note A = boot_alloc_step [OF inv l(1) boot_sizes(1) [OF n, symmetric], folded fm4_def]
  show "boot_allocate_space eok (of_nat ?n * sizeof_Frame_Info) PAGE_SIZE (fm, s) = (kva (boot_top fm), fm4, s)" by (rule A(1))
  note c4 = boot_inv_cong [of ?s4 s, simplified]
  have "Suc (Suc lim) + ?f + 780 < number_of_frames ?s4" using l(2) by simp
  note B = boot_alloc_step [OF A(2) [folded c4(1)] this boot_sizes(2) [symmetric], folded fm5_def]
  show "boot_allocate_space eok (of_nat PAGES_PER_FILE * sizeof_Frame_Info) PAGE_SIZE (fm4, ?s4) = (kva (boot_top fm4), fm5, ?s4)"
    by (rule B(1))
  have own: "boot_inv pd {957, 959} (lim + ?f + 780) fm5 s6" "pages_mapped s6 pd 982008 8 stack_pa PERM_WRITEABLE"
    using boot_own_entries [OF B(2) [unfolded add_Suc]] z st by (simp_all add: s6_def c4)
  have "lim + ?f + 780 + 238 < number_of_frames s6" using lim by (simp add: s6_def wr_def)
  note C = boot_alloc_step [OF own(1) this boot_sizes(3) [symmetric], folded fm7_def]
  show "boot_allocate_space eok (of_nat NENV * sizeof_Env) PAGE_SIZE (fm5, s6) = (kva (boot_top fm5), fm7, s6)" "boot_top fm5 < 65536"
    by (rule C(1), rule C(3))
  note c7 = boot_inv_cong [of "s6\<lparr>envs := G\<rparr>" s6, simplified]
  show "boot_inv pd {957, 959} (lim + ?f + 780 + 238) fm7 (s6\<lparr>envs := G\<rparr>)" unfolding c7 by (rule C(2))
  show "pages_mapped (s6\<lparr>envs := G\<rparr>) pd 982008 8 stack_pa PERM_WRITEABLE" unfolding c7 by (rule own(2))
  show "rd (s6\<lparr>envs := G\<rparr>) pd i = (if i = 957 then to_physical_address pd OR PERM_USER OR PERM_PRESENT
       else if i = 959 then new_entry pd else rd s pd i)" unfolding c7(2) by (simp add: s6_def rd_wr c4)
qed

definition frames_cleared :: "kernel \<Rightarrow> kernel" where
  "frames_cleared s = s\<lparr>frames_info := (\<lambda>i. if i < number_of_frames s then zero_fi else frames_info s i)\<rparr>"

definition envs_cleared :: "kernel \<Rightarrow> kernel" where
  "envs_cleared s = s\<lparr>envs := (\<lambda>i. if i < NENV then zero_env else envs s i)\<rparr>"

text \<open>The calls of \<open>initialize_kernel_VM\<close>, each with the state that the one before it leaves.\<close>

lemma initialize_kernel_VM_calls:
  assumes "boot_allocate_space eok PAGE_SIZE PAGE_SIZE (0, s) = (kva pd, fm1, s)" "pd < 65536"
    and "STATIC_KERNEL_PHYSICAL_ADDRESS bottom = Inr stack_pa"
    and "boot_map_range eok pd (KERNEL_STACK_TOP - KERNEL_STACK_SIZE) KERNEL_STACK_SIZE stack_pa PERM_WRITEABLE
      (fm1, (wr_page pd zero_page s)\<lparr>ptr_page_directory := pd, phys_page_directory := to_physical_address pd\<rparr>) = Inr st2"
    and "boot_tables eok pd st2 = Inr (fm3, s3)"
    and "boot_allocate_space eok (of_nat (number_of_frames s) * sizeof_Frame_Info) PAGE_SIZE (fm3, s3) = (p4, fm4, s3)"
    and "boot_allocate_space eok (of_nat PAGES_PER_FILE * sizeof_Frame_Info) PAGE_SIZE (fm4, frames_cleared s3) = (p5, fm5, frames_cleared s3)"
    and "boot_allocate_space eok (of_nat NENV * sizeof_Env) PAGE_SIZE
      (fm5, wr pd 957 (to_physical_address pd OR PERM_USER OR PERM_PRESENT) (wr pd 959 (new_entry pd) (frames_cleared s3))) = (kva e, fm7, s6)"
    and "e < 65536"
    and "boot_map_range eok pd UENVS (of_nat NENV * sizeof_Env) (to_physical_address e) PERM_USER (fm7, envs_cleared s6) = Inr (fm8, s8)"
    and "boot_map_range eok pd KERNEL_BASE (0xFFFFFFFF - KERNEL_BASE) 0 PERM_WRITEABLE (fm8, wr pd 955 (rd s8 pd 955 OR 5) s8) = Inr (fm', s')"
    and "check_boot_pgdir bottom pd s' = Inr ()"
  shows "initialize_kernel_VM eok bottom s =
    Inr (fm', turn_on_paging fm' (s'\<lparr>cfg := (cfg s')\<lparr>memory_scarce_threshold_percentage := DEFAULT_MEM_SCARCE_PERCENTAGE\<rparr>\<rparr>))"
proof -
  have f: "PERM_USER OR PERM_PRESENT AND NOT PERM_WRITEABLE = 5" by (simp add: perm_defs)
  have "setup_listing_to_all_page_tables_entries (kva pd) (frames_cleared s3) =
    Inr (wr pd 957 (to_physical_address pd OR PERM_USER OR PERM_PRESENT) (wr pd 959 (new_entry pd) (frames_cleared s3)))"
    using assms(2) by (simp add: setup_listing_to_all_page_tables_entries_def Let_def layout_pages(2-5) new_entry_def)
  then show ?thesis
    unfolding initialize_kernel_VM_def assms(1) Let_def prod.case kva_frame_kva [OF assms(2)] SKPA_kva [OF assms(2)] bindE_Inr
      assms(3-5) frames_cleared_def [symmetric]
    by (simp add: assms(6-12) envs_cleared_def [symmetric] SKPA_kva f layout_pages(2-5))
qed

lemma present_or_flags: "e OR PERM_USER OR PERM_PRESENT \<noteq> 0"
proof -
  have "e OR PERM_USER OR PERM_PRESENT = e OR 5" by (simp add: perm_defs or.assoc)
  then show ?thesis using or_flags(2) [of e] by (metis present_0)
qed

lemma initialize_kernel_VM_lemma:
  assumes eok: "KERNEL_BASE \<le> eok" and n: "number_of_frames s \<le> 65536"
    and bot: "KERNEL_BASE \<le> bottom" "PGOFF bottom = 0"
    and room: "boot_top eok + (24 * number_of_frames s + 4095) div 4096 + 2044 \<le> number_of_frames s"
  defines "pd \<equiv> boot_top eok"
  shows "\<exists>fm m envs_pa. initialize_kernel_VM eok bottom s = Inr (fm, boot_state s pd m)
    \<and> kernel_space (boot_state s pd m) pd fm (bottom - KERNEL_BASE) envs_pa \<and> PGOFF envs_pa = 0"
proof -
  let ?n = "number_of_frames s" and ?f = "(24 * number_of_frames s + 4095) div 4096"
  define lim where "lim = pd + 1023"
  have lim: "Suc (Suc lim) = boot_top eok + 1025" "Suc (Suc lim) < ?n" "lim + ?f + 780 + 238 = pd + ?f + 2041"
    "lim + ?f + 780 + 238 < ?n" using room by (simp_all add: lim_def pd_def)
  note A = boot_first [OF eok lim(1,2) n, folded pd_def]
  define s1 where "s1 = (wr_page pd zero_page s)\<lparr>ptr_page_directory := pd, phys_page_directory := to_physical_address pd\<rparr>"
  define stack_pa where "stack_pa = bottom - KERNEL_BASE"
  have b: "STATIC_KERNEL_PHYSICAL_ADDRESS bottom = Inr stack_pa" "PGOFF stack_pa = 0"
    using bot PGOFF_sub_KERNEL_BASE by (auto simp: STATIC_KERNEL_PHYSICAL_ADDRESS_def stack_pa_def)
  obtain fm2 s2 fm3 s3 where B: "boot_map_range eok pd (KERNEL_STACK_TOP - KERNEL_STACK_SIZE) KERNEL_STACK_SIZE stack_pa
      PERM_WRITEABLE (kva pd + PAGE_SIZE, s1) = Inr (fm2, s2)" "boot_tables eok pd (fm2, s2) = Inr (fm3, s3)" "boot_inv pd {} (Suc (Suc lim)) fm3 s3"
    "only_memory s1 s3" "pages_mapped s3 pd 982008 8 stack_pa PERM_WRITEABLE" "\<forall>i<960. i \<noteq> 958 \<longrightarrow> rd s3 pd i = 0"
    using boot_lower [OF A(2,3), folded s1_def, of eok stack_pa] by blast
  obtain m3 where m3: "s3 = s1\<lparr>pmem := m3\<rparr>" using only_memory_eq [OF B(4)] by blast
  have n3: "number_of_frames s3 = ?n" by (simp add: m3 s1_def wr_page_def)
  define F where "F = (\<lambda>i. if i < ?n then zero_fi else frames_info s3 i)"
  define s6 where "s6 = wr pd 957 (to_physical_address pd OR PERM_USER OR PERM_PRESENT) (wr pd 959 (new_entry pd) (s3\<lparr>frames_info := F\<rparr>))"
  define G where "G = (\<lambda>i. if i < NENV then zero_env else envs s6 i)"
  have fc: "frames_cleared s3 = s3\<lparr>frames_info := F\<rparr>" "envs_cleared s6 = s6\<lparr>envs := G\<rparr>"
    by (simp_all add: frames_cleared_def envs_cleared_def F_def G_def n3)
  define e where "e = boot_top (kva (boot_top (kva (boot_top fm3) + of_nat ?n * sizeof_Frame_Info)) + of_nat PAGES_PER_FILE * sizeof_Frame_Info)"
  note M = boot_middle [OF B(3,5,6), unfolded n3, OF n lim(4), folded e_def]
  note C = M(3) [where F = F, folded s6_def] M(5-7) [where F = F and G = G, folded s6_def]
  have z7: "rd (s6\<lparr>envs := G\<rparr>) pd i = 0" if "i < 960" "i \<notin> {957, 958, 959}" for i using that B(6) by (simp add: C(4))
  have nz7: "rd (s6\<lparr>envs := G\<rparr>) pd 957 \<noteq> 0" "rd (s6\<lparr>envs := G\<rparr>) pd 959 \<noteq> 0"
    using new_entry(3) [of pd] A(4) present_or_flags [of "to_physical_address pd"] by (auto simp: C(4))
  obtain fm8 s8 fm' s' where U: "boot_map_range eok pd UENVS (of_nat NENV * sizeof_Env) (to_physical_address e) PERM_USER
      (kva e + of_nat NENV * sizeof_Env, s6\<lparr>envs := G\<rparr>) = Inr (fm8, s8)"
    "boot_map_range eok pd KERNEL_BASE (0xFFFFFFFF - KERNEL_BASE) 0 PERM_WRITEABLE (fm8, wr pd 955 (rd s8 pd 955 OR 5) s8) = Inr (fm', s')"
    "boot_inv pd {957, 959} (pd + ?f + 2041) fm' s'" "only_memory (s6\<lparr>envs := G\<rparr>) s'"
    "pages_mapped s' pd 982008 8 stack_pa PERM_WRITEABLE" "pages_mapped s' pd 977920 238 (to_physical_address e) PERM_USER"
    "pages_mapped s' pd 983040 65536 0 PERM_WRITEABLE" "\<forall>i<1024. rd s' pd i = 0 \<longleftrightarrow> i \<notin> {955, 957, 958, 959} \<and> i < 960"
    "rd s' pd 957 = rd (s6\<lparr>envs := G\<rparr>) pd 957" "rd s' pd 959 = rd (s6\<lparr>envs := G\<rparr>) pd 959"
    using boot_upper [OF C(2,3) z7 nz7 boot_sizes(3) [symmetric], of eok "to_physical_address e", unfolded lim(3)] by auto
  have chk: "check_boot_pgdir bottom pd s' = Inr ()"
    by (rule check_boot_pgdir_lemma [OF U(3,7,5) b(2,1)]) (use U(8) in blast)
  obtain m' where m': "s' = s6\<lparr>envs := G, pmem := m'\<rparr>" using only_memory_eq [OF U(4)] by auto
  let ?t = "s'\<lparr>cfg := (cfg s')\<lparr>memory_scarce_threshold_percentage := DEFAULT_MEM_SCARCE_PERCENTAGE\<rparr>\<rparr>"
  have "s' = boot_state s pd m'\<lparr>cr3 := cr3 s, cfg := cfg s\<rparr>"
    by (simp add: m' s6_def wr_def m3 s1_def wr_page_def G_def F_def boot_state_def cong: if_cong)
  then have t: "turn_on_paging fm' ?t = boot_state s pd m'" "pmem (boot_state s pd m') = pmem s'"
      "number_of_frames (boot_state s pd m') = number_of_frames s'" "number_of_frames s' = ?n"
    using turn_on_paging_eq [of ?t fm'] U(8) by (simp_all add: boot_state_def rd_def)
  have "kernel_space (boot_state s pd m') pd fm' stack_pa (to_physical_address e)"
    unfolding kernel_space_cong [OF t(2,3)] using U C(4) unfolding kernel_space_def t(4) by simp
  moreover have "initialize_kernel_VM eok bottom s = Inr (fm', boot_state s pd m')"
    unfolding t(1) [symmetric]
  proof (rule initialize_kernel_VM_calls [OF A(1) _ b(1) B(1) [unfolded s1_def] B(2) M(1) M(2) [where F = F, folded fc] _ M(4) _ U(2) chk])
    show "pd < 65536" using A(4) by simp
    show "boot_allocate_space eok (of_nat NENV * sizeof_Env) PAGE_SIZE
      (kva (boot_top (kva (boot_top fm3) + of_nat ?n * sizeof_Frame_Info)) + of_nat PAGES_PER_FILE * sizeof_Frame_Info,
       wr pd 957 (to_physical_address pd OR PERM_USER OR PERM_PRESENT) (wr pd 959 (new_entry pd) (frames_cleared s3)))
      = (kva e, kva e + of_nat NENV * sizeof_Env, s6)"
      using C(1) by (simp only: fc(1) s6_def)
    show "boot_map_range eok pd UENVS (of_nat NENV * sizeof_Env) (to_physical_address e) PERM_USER
      (kva e + of_nat NENV * sizeof_Env, envs_cleared s6) = Inr (fm8, s8)" using U(1) by (simp only: fc(2))
  qed
  ultimately show ?thesis unfolding stack_pa_def [symmetric]
    using PGOFF_to_physical_address [of e] by blast
qed

section \<open>The address space at work\<close>

lemma kernel_spaceD:
  assumes "kernel_space s pd fm stack_pa envs_pa"
  shows "boot_inv pd {957, 959} (pd + (24 * number_of_frames s + 4095) div 4096 + 2041) fm s"
    "pages_mapped s pd 982008 8 stack_pa PERM_WRITEABLE"
    "pages_mapped s pd 977920 238 envs_pa PERM_USER" "pages_mapped s pd 983040 65536 0 PERM_WRITEABLE"
    "i < 1024 \<Longrightarrow> rd s pd i = 0 \<longleftrightarrow> i \<notin> {955, 957, 958, 959} \<and> i < 960"
    "rd s pd 959 = new_entry pd" "rd s pd 957 = to_physical_address pd OR PERM_USER OR PERM_PRESENT"
  using assms unfolding kernel_space_def by blast+

text \<open>Where the boot allocator stops: behind the directory, 66 page tables, the array of frames, the
  780 pages of disk frames and the 238 pages of environments.\<close>

lemma kernel_space_top:
  assumes k: "kernel_space s pd fm stack_pa envs_pa"
  shows "boot_top fm = pd + 1085 + (24 * number_of_frames s + 4095) div 4096"
proof -
  have "unset s pd {957, 959} = {..<960} - {955, 957, 958, 959}"
    using kernel_spaceD(5) [OF k] by (auto simp: unset_def)
  then have "card (unset s pd {957, 959}) = 956" by simp
  then show ?thesis using kernel_spaceD(1) [OF k] unfolding boot_inv_def by linarith
qed

text \<open>Every physical address \<open>x\<close> is seen at \<open>KERNEL_BASE + x\<close>.\<close>

lemma kernel_space_identity:
  assumes k: "kernel_space s pd fm stack_pa envs_pa" and x: "x < 0x10000000"
  shows "check_va2pa pd (KERNEL_BASE + x) s = Inr (EXTRACT_ADDRESS x, s)"
proof -
  define p where "p = unat x div 4096"
  have ux: "unat x < 0x10000000" using x by (simp add: word_less_nat_alt)
  then have p: "p < 65536" by (simp add: p_def)
  have "unat (KERNEL_BASE + x) = 0xF0000000 + unat x"
    using ux by (subst unat_add_lem [THEN iffD1]) (simp_all add: unat_KERNEL_BASE)
  then have va: "unat (KERNEL_BASE + x) div 4096 = 983040 + p" unfolding p_def by simp
  have o: "(983040 + p) div 1024 \<notin> {957, 959}" using kernel_slot [of "983040 + p"] by auto
  have w: "PERM_WRITEABLE AND NOT 0xFFF = 0" "PGOFF 0 = 0" by (simp_all add: PERM_WRITEABLE_def PGOFF_def)
  have "check_va2pa pd (KERNEL_BASE + x) s = Inr (0 + of_nat p * PAGE_SIZE, s)"
    by (rule check_va2pa_mapped [OF kernel_spaceD(1,4) [OF k] p o _ w va]) simp
  moreover have "of_nat p * PAGE_SIZE = EXTRACT_ADDRESS x"
    unfolding PPN_to_pa_roundtrip [symmetric] to_physical_address_def unat_PPN p_def
    by (simp add: PAGE_SIZE_def push_bit_eq_mult)
  ultimately show ?thesis by simp
qed

lemma kernel_space_stack:
  assumes k: "kernel_space s pd fm stack_pa envs_pa" and pa: "PGOFF stack_pa = 0" and i: "i < 8"
  shows "check_va2pa pd (KERNEL_STACK_TOP - KERNEL_STACK_SIZE + of_nat i * PAGE_SIZE) s = Inr (stack_pa + of_nat i * PAGE_SIZE, s)"
proof -
  have o: "(982008 + i) div 1024 \<notin> {957, 959}" using stack_slot [OF i] by simp
  have w: "PERM_WRITEABLE AND NOT 0xFFF = 0" by (simp add: PERM_WRITEABLE_def)
  have va: "unat (of_nat (982008 * 4096) + of_nat i * PAGE_SIZE :: uint32) div 4096 = 982008 + i"
    using i by (intro unat_page_of) simp
  show ?thesis
    unfolding layout_pages(6) by (rule check_va2pa_mapped [OF kernel_spaceD(1,2) [OF k] i o _ w pa va]) simp
qed

text \<open>The directory is also the page table of slot 959: the table of slot \<open>i\<close> is seen at page \<open>i\<close> of \<open>VPT\<close>.\<close>

lemma kernel_space_self:
  assumes k: "kernel_space s pd fm stack_pa envs_pa" and i: "i < 1024" "rd s pd i \<noteq> 0" and pd: "pd < 65536"
  shows "check_va2pa pd (VPT + of_nat i * PAGE_SIZE) s = Inr (EXTRACT_ADDRESS (rd s pd i), s)"
proof -
  note inv = kernel_spaceD(1) [OF k]
  have v: "VPT = of_nat (982016 * 4096)" by (simp add: layout_defs)
  have u: "unat (VPT + of_nat i * PAGE_SIZE) div 4096 = 982016 + i"
    unfolding v using i(1) by (intro unat_page_of) simp
  have "(982016 + i) div 1024 = 959" using i(1) by (intro div_nat_eqI) simp_all
  then have x: "pdx (VPT + of_nat i * PAGE_SIZE) = 959" "ptx (VPT + of_nat i * PAGE_SIZE) = i"
    using u i(1) div_mult2_eq [of "unat (VPT + of_nat i * PAGE_SIZE)" 4096 1024]
    by (simp_all add: pdx_def ptx_def unat_PDX unat_PTX mod_eq_self_iff_div_eq_0 mod_add_left_eq [symmetric])
  have "present (rd s pd i)"
  proof (cases "i \<in> {957, 959}")
    case True
    have "e OR PERM_USER OR PERM_PRESENT = e OR 5" for e :: uint32 by (simp add: perm_defs or.assoc)
    then show ?thesis using True kernel_spaceD(6,7) [OF k] new_entry(2) [OF pd] or_flags(2) by auto
  qed (use boot_invD(6) [OF inv i(1) _ i(2)] in blast)
  moreover have "pd < number_of_frames s" using boot_invD(3,5) [OF inv] by simp
  ultimately show ?thesis
    using new_entry(1,2) [OF pd]
    by (simp add: check_va2pa_def x kernel_spaceD(6) [OF k] and_one_zero STATIC_KERNEL_VIRTUAL_ADDRESS_def Let_def)
qed

text \<open>What is written below the directory does not matter.\<close>

lemma kernel_space_above:
  assumes k: "kernel_space s pd fm stack_pa envs_pa" and m: "\<And>f. pd \<le> f \<Longrightarrow> rd s' f = rd s f"
    and n: "number_of_frames s' = number_of_frames s"
  shows "kernel_space s' pd fm stack_pa envs_pa"
proof -
  note inv = kernel_spaceD(1) [OF k]
  have r: "rd s' pd = rd s pd" using m by simp
  have t: "tbl s' pd = tbl s pd" by (simp add: tbl_def r fun_eq_iff)
  have p: "pte_at s' pd i j = pte_at s pd i j" if "i < 1024" "i \<notin> {957, 959}" for i j
    using boot_invD(6) [OF inv that] m [of "tbl s pd i"] by (auto simp: pte_at_def r t)
  have i: "boot_inv pd {957, 959} (pd + (24 * number_of_frames s' + 4095) div 4096 + 2041) fm s'"
    using inv unfolding boot_inv_def unset_def r t n .
  have g: "pages_mapped s' pd q c pa perm" if "pages_mapped s pd q c pa perm"
    "\<And>j. j < c \<Longrightarrow> (q + j) div 1024 < 1024 \<and> (q + j) div 1024 \<notin> {957, 959}" for q c pa perm
    using that p r unfolding pages_mapped_def by simp
  have "pages_mapped s' pd 982008 8 stack_pa PERM_WRITEABLE"
    by (rule g [OF kernel_spaceD(2) [OF k]]) (simp add: stack_slot)
  moreover have "pages_mapped s' pd 977920 238 envs_pa PERM_USER"
  proof (rule g [OF kernel_spaceD(3) [OF k]])
    fix j :: nat assume "j < 238"
    then have "(977920 + j) div 1024 = 955" by (intro div_nat_eqI) simp_all
    then show "(977920 + j) div 1024 < 1024 \<and> (977920 + j) div 1024 \<notin> {957, 959}" by simp
  qed
  moreover have "pages_mapped s' pd 983040 65536 0 PERM_WRITEABLE"
  proof (rule g [OF kernel_spaceD(4) [OF k]])
    fix j :: nat assume "j < 65536"
    then show "(983040 + j) div 1024 < 1024 \<and> (983040 + j) div 1024 \<notin> {957, 959}"
      using kernel_slot [of "983040 + j"] by (auto simp: div_less_iff_less_mult)
  qed
  ultimately show ?thesis using i kernel_spaceD(5-7) [OF k] unfolding kernel_space_def r by blast
qed

section \<open>The start of the kernel\<close>

text \<open>\<open>FOS_initialize\<close> up to the command prompt, in the order of \<^verbatim>\<open>kern/init.c\<close>, on a machine whose
  uninitialised data the first statement has cleared. The descriptor table that \<open>idt_init\<close> fills and the
  console are not part of the kernel record. \<open>None\<close> is the endless loop of \<open>detect_memory\<close>.\<close>

definition FOS_initialize :: "(uint8 \<Rightarrow> uint8) \<Rightarrow> uint32 \<Rightarrow> uint32 \<Rightarrow> kernel \<Rightarrow> (halt + kernel) option" where
  "FOS_initialize nvram end_of_kernel ptr_stack_bottom s =
     (case detect_memory nvram s of
        None \<Rightarrow> None
      | Some s \<Rightarrow> Some (
          bindE (initialize_kernel_VM end_of_kernel ptr_stack_bottom s) (\<lambda>(ptr_free_mem, s).
          bindE (initialize_paging ptr_free_mem s) (\<lambda>(_, s).
          bindE (env_init s) (\<lambda>(_, s).
          bindE (setPageReplacmentAlgorithmLRU PG_REP_LRU_LISTS_APPROX s) (\<lambda>(_, s).
          let s = setKHeapPlacementStrategyFIRSTFIT (setUHeapPlacementStrategyBESTFIT s);
              s = setModifiedBufferLength 1000 (enableModifiedBuffer 0 (enableBuffering 0 s)) in
          bindE (sched_init (pic_init s)) (\<lambda>(_, s). Inr s)))))))"

lemma env_init_fold_eq:
  assumes "distinct xs" "set xs \<inter> set (env_free_list s) = {}"
  shows "foldE (\<lambda>i s. let s = upd_env i (\<lambda>en. en\<lparr>env_status := ENV_FREE, env_id := 0\<rparr>) s in
      bindE (lst_insert_head i (env_free_list s)) (\<lambda>l. Inr (s\<lparr>env_free_list := l\<rparr>))) xs s =
    Inr (s\<lparr>envs := (\<lambda>i. if i \<in> set xs then (envs s i)\<lparr>env_status := ENV_FREE, env_id := 0\<rparr> else envs s i),
           env_free_list := rev xs @ env_free_list s\<rparr>)"
  using assms
proof (induction xs arbitrary: s)
  case (Cons x xs)
  let ?s = "(upd_env x (\<lambda>en. en\<lparr>env_status := ENV_FREE, env_id := 0\<rparr>) s)\<lparr>env_free_list := x # env_free_list s\<rparr>"
  have "foldE (\<lambda>i s. let s = upd_env i (\<lambda>en. en\<lparr>env_status := ENV_FREE, env_id := 0\<rparr>) s in
      bindE (lst_insert_head i (env_free_list s)) (\<lambda>l. Inr (s\<lparr>env_free_list := l\<rparr>))) xs ?s =
    Inr (?s\<lparr>envs := (\<lambda>i. if i \<in> set xs then (envs ?s i)\<lparr>env_status := ENV_FREE, env_id := 0\<rparr> else envs ?s i),
           env_free_list := rev xs @ env_free_list ?s\<rparr>)"
    by (rule Cons.IH) (use Cons.prems in auto)
  then show ?case using Cons.prems by (auto simp: Let_def upd_env_def fun_eq_iff)
qed simp

lemma env_init_eq:
  "env_free_list s = [] \<Longrightarrow> env_init s = Inr ((), s\<lparr>envs := (\<lambda>i. if i < NENV then (envs s i)\<lparr>env_status := ENV_FREE, env_id := 0\<rparr>
     else envs s i), env_free_list := [0..<NENV]\<rparr>)"
  unfolding env_init_def using env_init_fold_eq [of "rev [0..<NENV]" s] by simp

lemma kclock_set_quantum_clock: "\<exists>c. kclock_set_quantum CLOCK_INTERVAL_IN_MS s = Inr ((), s\<lparr>clock := c\<rparr>)"
proof -
  have "uint CLOCK_INTERVAL_IN_MS = 10" "CLOCK_INTERVAL_IN_MS \<noteq> 0" by (simp_all add: CLOCK_INTERVAL_IN_MS_def)
  then have "IS_VALID_QUANTUM CLOCK_INTERVAL_IN_MS" "CLOCK_INTERVAL_IN_MS \<noteq> 0"
    by (simp_all add: IS_VALID_QUANTUM_def QUANTUM_LIMIT_def c_div_def TIMER_FREQ_def)
  then show ?thesis
    by (auto simp: kclock_set_quantum_def Let_def kclock_stop_def kclock_write_cnt0_LSB_first_def outb_TIMER_MODE_def
        upd_clock_def irq_setmask_8259A_def)
qed

lemma sched_init_eq:
  "\<exists>c. sched_init s = Inr ((), s\<lparr>scheduler_status := SCH_STOPPED, scheduler_method := SCH_RR, num_of_ready_queues := 1,
     quantum := CLOCK_INTERVAL_IN_MS, clock := c, env_ready_queue := [], env_new_queue := [], env_exit_queue := []\<rparr>)"
proof -
  let ?s = "s\<lparr>scheduler_status := SCH_STOPPED, scheduler_method := SCH_RR, num_of_ready_queues := 1, quantum := CLOCK_INTERVAL_IN_MS\<rparr>"
  obtain c where "kclock_set_quantum CLOCK_INTERVAL_IN_MS ?s = Inr ((), ?s\<lparr>clock := c\<rparr>)" using kclock_set_quantum_clock by blast
  then show ?thesis by (auto simp: sched_init_def sched_init_RR_def Let_def)
qed

lemma boot_top_ge: "KERNEL_BASE + PHYS_EXTENDED_MEM \<le> p \<Longrightarrow> 256 \<le> boot_top p \<and> KERNEL_BASE \<le> p"
proof -
  assume p: "KERNEL_BASE + PHYS_EXTENDED_MEM \<le> p"
  then have u: "0xF0100000 \<le> unat p" by (simp add: KERNEL_BASE_def PHYS_EXTENDED_MEM_def word_le_nat_alt)
  then have "KERNEL_BASE \<le> p" by (simp add: KERNEL_BASE_le_iff)
  then show ?thesis using u by (simp add: boot_top_unat less_eq_div_iff_mult_less_eq)
qed

lemma boot_top_above: "KERNEL_BASE \<le> p \<Longrightarrow> 256 < boot_top p \<Longrightarrow> KERNEL_BASE + PHYS_EXTENDED_MEM \<le> p"
proof -
  assume p: "KERNEL_BASE \<le> p" "256 < boot_top p"
  then have "257 \<le> (unat p - 0xF0000000 + 4095) div 4096" by (simp add: boot_top_unat)
  then have "257 * 4096 \<le> unat p - 0xF0000000 + 4095" by (simp only: less_eq_div_iff_mult_less_eq)
  then show ?thesis by (simp add: KERNEL_BASE_def PHYS_EXTENDED_MEM_def word_le_nat_alt)
qed

lemma clear_1024_bytes_other: "g \<noteq> f \<Longrightarrow> rd (clear_1024_bytes f s) g = rd s g"
  "number_of_frames (clear_1024_bytes f s) = number_of_frames s"
  unfolding clear_1024_bytes_eq by (simp_all add: rd_def wr_page_def fun_eq_iff)

text \<open>\<open>initialize_paging\<close> after \<open>initialize_kernel_VM\<close>: the free list avoids everything handed out.\<close>

lemma initialize_paging_after_VM:
  assumes k: "kernel_space s pd fm stack_pa envs_pa" and pd: "256 \<le> pd"
  shows "\<exists>s'. initialize_paging fm s = Inr ((), s') \<and> kernel_space s' pd fm stack_pa envs_pa \<and> frames_ok s'
    \<and> free_frame_list s' = boot_free_frames (boot_top fm) (number_of_frames s) \<and> number_of_frames s' = number_of_frames s
    \<and> frames_info s' = boot_frames_info (boot_top fm) (number_of_frames s) (frames_info s)
    \<and> disk_free_frame_list s' = rev [1..<PAGES_PER_FILE] \<and> cr3 s' = cr3 s \<and> env_free_list s' = env_free_list s
    \<and> ptr_page_directory s' = ptr_page_directory s \<and> cfg s' = cfg s \<and> curenv s' = curenv s \<and> chk s' = chk s"
proof -
  note inv = kernel_spaceD(1) [OF k]
  note d = boot_invD(1-5) [OF inv]
  have p: "KERNEL_BASE + PHYS_EXTENDED_MEM \<le> fm" "256 \<le> boot_top fm" "boot_top fm \<le> number_of_frames s"
    using boot_top_above [OF d(2)] d(3,5) pd by linarith+
  define s' where "s' = (clear_1024_bytes ptr_temp_page (clear_1024_bytes ptr_zero_page s))\<lparr>
       modified_frame_list := [], free_frame_list := boot_free_frames (boot_top fm) (number_of_frames s),
       frames_info := boot_frames_info (boot_top fm) (number_of_frames s) (frames_info s),
       disk_free_frame_list := rev [1..<PAGES_PER_FILE]\<rparr>"
  have i: "initialize_paging fm s = Inr ((), s')" unfolding s'_def by (rule initialize_paging_state [OF p])
  have n: "number_of_frames s' = number_of_frames s" by (simp add: s'_def clear_1024_bytes_other)
  have "rd s' f = rd s f" if "pd \<le> f" for f
    using that pd clear_1024_bytes_other(1) [of f ptr_temp_page] clear_1024_bytes_other(1) [of f ptr_zero_page]
    by (simp add: s'_def rd_def fun_eq_iff ptr_temp_page_def ptr_zero_page_def)
  then have "kernel_space s' pd fm stack_pa envs_pa" by (rule kernel_space_above [OF k _ n])
  moreover have "frames_ok s'"
    by (rule boot_frames_ok [of _ "boot_top fm" "frames_info s"]) (use n p d in \<open>simp_all add: s'_def clear_1024_bytes_other\<close>)
  ultimately show ?thesis using i n
    by (intro exI [of _ s']) (simp add: s'_def clear_1024_bytes_eq wr_page_def)
qed

section \<open>Properties\<close>

lemma detect_memory_bound: "detect_memory nvram s = Some s' \<Longrightarrow> \<exists>n\<le>65536. s' = s\<lparr>number_of_frames := n\<rparr>"
proof -
  assume d: "detect_memory nvram s = Some s'"
  then obtain maxpa where m: "\<not> maxpa > (0xFFFFFFFF - KERNEL_BASE) + 1" "s' = s\<lparr>number_of_frames := unat (maxpa div PAGE_SIZE)\<rparr>"
    unfolding detect_memory_def Let_def by (metis option.discI option.inject)
  then have "unat maxpa \<le> 0x10000000" by (simp add: KERNEL_BASE_def word_le_nat_alt not_less)
  then have "unat (maxpa div PAGE_SIZE) \<le> 65536" by (simp add: unat_div PAGE_SIZE_def div_le_mono [of _ "0x10000000" 4096, simplified])
  then show ?thesis using m(2) by blast
qed

lemma kernel_space_tables:
  assumes k: "kernel_space s pd fm stack_pa envs_pa" and i: "i < 1024" "rd s pd i \<noteq> 0" and pd: "pd < 65536"
  shows "pd \<le> tbl s pd i \<and> tbl s pd i < boot_top fm"
proof (cases "i \<in> {957, 959}")
  case True
  have "unat (PPN (to_physical_address pd OR PERM_USER OR PERM_PRESENT)) = pd"
    using or_flags(1) [of "to_physical_address pd"] PPN_to_physical_address [of pd] pd by (simp add: perm_defs or.assoc)
  then have "tbl s pd i = pd" using True new_entry(1) [OF pd] kernel_spaceD(6,7) [OF k] by (auto simp: tbl_def)
  then show ?thesis using boot_invD(3) [OF kernel_spaceD(1) [OF k]] by simp
next
  case False
  then show ?thesis using boot_invD(6) [OF kernel_spaceD(1) [OF k] i(1) _ i(2)] by simp
qed

text \<open>C11: \<open>initialize_kernel_VM\<close> returns, so the assertions of \<open>check_boot_pgdir\<close> hold, whenever the memory suffices
  for the arrays of the kernel and a page table in every slot. The directory that it installs maps \<open>KERNEL_BASE + x\<close>
  to \<open>x\<close> for all 256 MB, the kernel stack to the boot stack, and each page table that it holds at its page of \<open>VPT\<close>,
  and it has no entry for user addresses.\<close>

theorem initialize_kernel_VM_correct:
  assumes "KERNEL_BASE + PHYS_EXTENDED_MEM \<le> end_of_kernel" and "number_of_frames s \<le> 65536"
    and "KERNEL_BASE \<le> ptr_stack_bottom" and "PGOFF ptr_stack_bottom = 0"
    and "boot_top end_of_kernel + (24 * number_of_frames s + 4095) div 4096 + 2044 \<le> number_of_frames s"
  shows "\<exists>fm s'. initialize_kernel_VM end_of_kernel ptr_stack_bottom s = Inr (fm, s')
    \<and> (let pd = ptr_page_directory s' in pd = boot_top end_of_kernel \<and> cr3 s' = to_physical_address pd
      \<and> (\<forall>x<0x10000000. check_va2pa pd (KERNEL_BASE + x) s' = Inr (EXTRACT_ADDRESS x, s'))
      \<and> (\<forall>i<8. check_va2pa pd (KERNEL_STACK_TOP - KERNEL_STACK_SIZE + of_nat i * PAGE_SIZE) s'
           = Inr (ptr_stack_bottom - KERNEL_BASE + of_nat i * PAGE_SIZE, s'))
      \<and> (\<forall>i<1024. rd s' pd i \<noteq> 0 \<longleftrightarrow> i \<in> {955, 957, 958, 959} \<union> {960..<1024})
      \<and> (\<forall>i\<in>{955, 957, 958, 959} \<union> {960..<1024}.
           check_va2pa pd (VPT + of_nat i * PAGE_SIZE) s' = Inr (EXTRACT_ADDRESS (rd s' pd i), s')))"
proof -
  let ?pd = "boot_top end_of_kernel"
  have kb: "KERNEL_BASE \<le> end_of_kernel" using boot_top_ge [OF assms(1)] by simp
  obtain fm m envs_pa where r: "initialize_kernel_VM end_of_kernel ptr_stack_bottom s = Inr (fm, boot_state s ?pd m)"
    and k: "kernel_space (boot_state s ?pd m) ?pd fm (ptr_stack_bottom - KERNEL_BASE) envs_pa"
    using initialize_kernel_VM_lemma [OF kb assms(2-5)] by blast
  have pd: "?pd < 65536" using assms(2,5) by linarith
  have pg: "PGOFF (ptr_stack_bottom - KERNEL_BASE) = 0" using assms(3,4) by (simp add: PGOFF_sub_KERNEL_BASE)
  have s: "\<forall>i<1024. rd (boot_state s ?pd m) ?pd i \<noteq> 0 \<longleftrightarrow> i \<in> {955, 957, 958, 959} \<union> {960..<1024}"
    using kernel_spaceD(5) [OF k] by auto
  moreover have "\<forall>i\<in>{955, 957, 958, 959} \<union> {960..<1024}. check_va2pa ?pd (VPT + of_nat i * PAGE_SIZE) (boot_state s ?pd m)
      = Inr (EXTRACT_ADDRESS (rd (boot_state s ?pd m) ?pd i), boot_state s ?pd m)"
  proof
    fix i assume i: "i \<in> {955, 957, 958, 959} \<union> {960..<1024 :: nat}"
    then have "i < 1024" by auto
    then show "check_va2pa ?pd (VPT + of_nat i * PAGE_SIZE) (boot_state s ?pd m)
      = Inr (EXTRACT_ADDRESS (rd (boot_state s ?pd m) ?pd i), boot_state s ?pd m)"
      using kernel_space_self [OF k _ _ pd] s i by blast
  qed
  moreover have "ptr_page_directory (boot_state s ?pd m) = ?pd" "cr3 (boot_state s ?pd m) = to_physical_address ?pd"
    by (simp_all add: boot_state_def)
  ultimately show ?thesis
    using r kernel_space_identity [OF k] kernel_space_stack [OF k pg] unfolding Let_def
    by (intro exI [of _ fm] exI [of _ "boot_state s ?pd m"]) simp
qed

text \<open>A machine with 64 MB, of which the CMOS reports 48 MB above the first 16.\<close>

definition nvram_64MB :: "uint8 \<Rightarrow> uint8" where
  "nvram_64MB r = (if r = 0x35 then 3 else 0)"

definition boot_example :: kernel where
  "boot_example = tiny\<lparr>env_free_list := [], number_of_frames := 16384\<rparr>"

lemma boot_example_room:
  "boot_top 0xF0200000 + (24 * 16384 + 4095) div 4096 + 2044 \<le> 16384" "KERNEL_BASE + PHYS_EXTENDED_MEM \<le> 0xF0200000"
  "KERNEL_BASE \<le> 0xF0110000" "PGOFF 0xF0110000 = 0"
  by (simp_all add: boot_top_unat KERNEL_BASE_def PHYS_EXTENDED_MEM_def PGOFF_def)

theorem initialize_kernel_VM_correct_witness:
  "\<exists>fm s'. initialize_kernel_VM 0xF0200000 0xF0110000 boot_example = Inr (fm, s') \<and> ptr_page_directory s' = 512"
proof -
  have n: "number_of_frames boot_example = 16384" by (simp add: boot_example_def)
  have "boot_top 0xF0200000 = 512" by (simp add: boot_top_unat KERNEL_BASE_def)
  then show ?thesis
    using initialize_kernel_VM_correct [of "0xF0200000" boot_example "0xF0110000"] boot_example_room
    unfolding n Let_def by auto
qed

lemma boot_references:
  assumes "f < n" and "256 \<le> tp" and "fi f = zero_fi"
  shows "references (boot_frames_info tp n fi f) = (if f \<in> set (boot_free_frames tp n) then 0 else 1)"
proof -
  have "f \<in> set (boot_free_frames tp n) \<longleftrightarrow> f \<in> {3..<160} \<or> f \<in> {tp..<n}"
    by (simp add: boot_free_frames_def disj_commute del: upt_rec_numeral)
  moreover have "references (boot_frames_info tp n fi f) = (if f \<in> {3..<160} \<or> f \<in> {tp..<n} then 0 else 1)"
    using assms by (auto simp: boot_frames_info_def zero_fi_def)
  ultimately show ?thesis by simp
qed

text \<open>The state that \<open>FOS_initialize\<close> reaches.\<close>

lemma FOS_initialize_state:
  assumes det: "detect_memory nvram s = Some s0" and fresh: "env_free_list s = []"
    and eok: "KERNEL_BASE + PHYS_EXTENDED_MEM \<le> end_of_kernel"
    and bot: "KERNEL_BASE \<le> ptr_stack_bottom" "PGOFF ptr_stack_bottom = 0"
    and room: "boot_top end_of_kernel + (24 * number_of_frames s0 + 4095) div 4096 + 2044 \<le> number_of_frames s0"
  shows "\<exists>s'. FOS_initialize nvram end_of_kernel ptr_stack_bottom s = Some (Inr s')
    \<and> (let pd = ptr_page_directory s'; n = number_of_frames s0;
           top = boot_top end_of_kernel + 1085 + (24 * n + 4095) div 4096 in
      frames_ok s' \<and> number_of_frames s' = n \<and> top < n \<and> free_frame_list s' = rev [top..<n] @ rev [3..<160]
      \<and> (\<forall>f<n. references (frames_info s' f) = (if f \<in> set (free_frame_list s') then 0 else 1))
      \<and> pd = boot_top end_of_kernel \<and> (\<forall>i<1024. rd s' pd i \<noteq> 0 \<longrightarrow> tbl s' pd i \<in> {pd..<top})
      \<and> cr3 s' = to_physical_address pd \<and> (\<forall>x<0x10000000. check_va2pa pd (KERNEL_BASE + x) s' = Inr (EXTRACT_ADDRESS x, s'))
      \<and> env_free_list s' = [0..<NENV] \<and> env_ready_queue s' = [] \<and> env_new_queue s' = [] \<and> env_exit_queue s' = []
      \<and> scheduler_status s' = SCH_STOPPED \<and> PageRepAlgoType (cfg s') = PG_REP_LRU_LISTS_APPROX)
    \<and> curenv s' = curenv s \<and> chk s' = chk s \<and> scheduler_method s' = SCH_RR \<and> quantum s' = CLOCK_INTERVAL_IN_MS"
proof -
  let ?pd = "boot_top end_of_kernel"
  obtain n where n: "n \<le> 65536" "s0 = s\<lparr>number_of_frames := n\<rparr>" using detect_memory_bound [OF det] by blast
  have kb: "KERNEL_BASE \<le> end_of_kernel" "256 \<le> ?pd" using boot_top_ge [OF eok] by simp_all
  obtain fm m envs_pa where r: "initialize_kernel_VM end_of_kernel ptr_stack_bottom s0 = Inr (fm, boot_state s0 ?pd m)"
    and k0: "kernel_space (boot_state s0 ?pd m) ?pd fm (ptr_stack_bottom - KERNEL_BASE) envs_pa"
    using initialize_kernel_VM_lemma [OF kb(1) _ bot room] n by auto
  let ?b = "boot_state s0 ?pd m"
  obtain s1 where p: "initialize_paging fm ?b = Inr ((), s1)" and k1: "kernel_space s1 ?pd fm (ptr_stack_bottom - KERNEL_BASE) envs_pa"
    and i1: "frames_ok s1" "free_frame_list s1 = boot_free_frames (boot_top fm) (number_of_frames ?b)"
      "number_of_frames s1 = number_of_frames ?b" "cr3 s1 = cr3 ?b" "env_free_list s1 = env_free_list ?b"
      "ptr_page_directory s1 = ptr_page_directory ?b" "curenv s1 = curenv ?b" "chk s1 = chk ?b"
      "frames_info s1 = boot_frames_info (boot_top fm) (number_of_frames ?b) (frames_info ?b)"
    using initialize_paging_after_VM [OF k0 kb(2)] by blast
  have b: "number_of_frames ?b = n" "cr3 ?b = to_physical_address ?pd" "env_free_list ?b = []" "ptr_page_directory ?b = ?pd"
    "curenv ?b = curenv s" "chk ?b = chk s" "\<And>i. i < n \<Longrightarrow> frames_info ?b i = zero_fi"
    using fresh n(2) by (simp_all add: boot_state_def)
  note f1 = i1 [unfolded b(1-6)]
  define s2 where "s2 = s1\<lparr>envs := (\<lambda>i. if i < NENV then (envs s1 i)\<lparr>env_status := ENV_FREE, env_id := 0\<rparr> else envs s1 i),
     env_free_list := [0..<NENV]\<rparr>"
  have e: "env_init s1 = Inr ((), s2)" unfolding s2_def by (rule env_init_eq [OF f1(5)])
  define s3 where "s3 = pic_init (setModifiedBufferLength 1000 (enableModifiedBuffer 0 (enableBuffering 0
     (setKHeapPlacementStrategyFIRSTFIT (setUHeapPlacementStrategyBESTFIT (set_algo PG_REP_LRU_LISTS_APPROX s2))))))"
  obtain c where c: "sched_init s3 = Inr ((), s3\<lparr>scheduler_status := SCH_STOPPED, scheduler_method := SCH_RR, num_of_ready_queues := 1,
     quantum := CLOCK_INTERVAL_IN_MS, clock := c, env_ready_queue := [], env_new_queue := [], env_exit_queue := []\<rparr>)"
    using sched_init_eq by blast
  define s4 where "s4 = s3\<lparr>scheduler_status := SCH_STOPPED, scheduler_method := SCH_RR, num_of_ready_queues := 1,
     quantum := CLOCK_INTERVAL_IN_MS, clock := c, env_ready_queue := [], env_new_queue := [], env_exit_queue := []\<rparr>"
  have run: "FOS_initialize nvram end_of_kernel ptr_stack_bottom s = Some (Inr s4)"
    using c by (simp add: FOS_initialize_def det r p e setPageReplacmentAlgorithmLRU_def s3_def s4_def Let_def)
  have fields: "pmem s4 = pmem s1" "number_of_frames s4 = number_of_frames s1" "frames_info s4 = frames_info s1"
    "free_frame_list s4 = free_frame_list s1" "cr3 s4 = cr3 s1" "ptr_page_directory s4 = ptr_page_directory s1"
    "env_free_list s4 = [0..<NENV]" "PageRepAlgoType (cfg s4) = PG_REP_LRU_LISTS_APPROX"
    "env_ready_queue s4 = []" "env_new_queue s4 = []" "env_exit_queue s4 = []" "scheduler_status s4 = SCH_STOPPED"
    "curenv s4 = curenv s1" "chk s4 = chk s1" "scheduler_method s4 = SCH_RR" "quantum s4 = CLOCK_INTERVAL_IN_MS"
    by (simp_all add: s4_def s3_def s2_def pic_init_def Let_def upd_clock_def irq_setmask_8259A_def setModifiedBufferLength_def
        enableModifiedBuffer_def enableBuffering_def setKHeapPlacementStrategyFIRSTFIT_def set_KHP_def
        setUHeapPlacementStrategyBESTFIT_def set_UHP_def set_algo_def)
  have k: "kernel_space s4 ?pd fm (ptr_stack_bottom - KERNEL_BASE) envs_pa"
    using k1 kernel_space_cong [OF fields(1,2)] by blast
  have pd: "?pd < 65536" "?pd < boot_top fm" using boot_invD(3,4) [OF kernel_spaceD(1) [OF k]] by simp_all
  have top: "boot_top fm = ?pd + 1085 + (24 * n + 4095) div 4096" "boot_top fm < n"
    using kernel_space_top [OF k] boot_invD(5) [OF kernel_spaceD(1) [OF k]] by (simp_all add: fields(2) f1(3))
  have "frames_ok s4" using f1(1) frames_ok_cong [OF fields(2,4)] fields(3) by simp
  moreover have "free_frame_list s4 = rev [boot_top fm..<n] @ rev [3..<160]"
    unfolding fields(4) f1(2) by (simp add: boot_free_frames_def)
  moreover have "references (frames_info s4 f) = (if f \<in> set (free_frame_list s4) then 0 else 1)" if "f < n" for f
    using that kb(2) pd(2) b(7) [OF that] unfolding fields(3,4) f1(2,9)
    by (intro boot_references) auto
  moreover have "number_of_frames s0 = n" "number_of_frames s4 = n" using n(2) fields(2) f1(3) by simp_all
  ultimately show ?thesis
    using run kernel_space_tables [OF k _ _ pd(1)] kernel_space_identity [OF k] top fields(5-16) f1(4,6-8)
    unfolding Let_def by (intro exI [of _ s4]) simp
qed

text \<open>C10: on a machine with enough memory \<open>FOS_initialize\<close> reaches the command prompt. Then the free frames are
  exactly frames 3 to 159 and those from \<open>top\<close> on, where \<open>top\<close> is the frame behind everything that was handed out:
  the kernel image, one directory, 66 page tables, the array of frames (24 bytes a frame), 780 pages of disk frames and
  238 of environments. So no frame of the image, the directory, a page table or one of the arrays is free, and no other
  memory is lost; every other frame is referenced once. The table of frames is
  consistent, the kernel sees physical address \<open>x\<close> at \<open>KERNEL_BASE + x\<close>, all environments are free, the
  queues are empty, the scheduler is stopped, and faults use the list approximation of LRU.\<close>

theorem FOS_initialize_correct:
  assumes det: "detect_memory nvram s = Some s0" and fresh: "env_free_list s = []"
    and eok: "KERNEL_BASE + PHYS_EXTENDED_MEM \<le> end_of_kernel"
    and bot: "KERNEL_BASE \<le> ptr_stack_bottom" "PGOFF ptr_stack_bottom = 0"
    and room: "boot_top end_of_kernel + (24 * number_of_frames s0 + 4095) div 4096 + 2044 \<le> number_of_frames s0"
  shows "\<exists>s'. FOS_initialize nvram end_of_kernel ptr_stack_bottom s = Some (Inr s')
    \<and> (let pd = ptr_page_directory s'; n = number_of_frames s0;
           top = boot_top end_of_kernel + 1085 + (24 * n + 4095) div 4096 in
      frames_ok s' \<and> number_of_frames s' = n \<and> top < n \<and> free_frame_list s' = rev [top..<n] @ rev [3..<160]
      \<and> (\<forall>f<n. references (frames_info s' f) = (if f \<in> set (free_frame_list s') then 0 else 1))
      \<and> pd = boot_top end_of_kernel \<and> (\<forall>i<1024. rd s' pd i \<noteq> 0 \<longrightarrow> tbl s' pd i \<in> {pd..<top})
      \<and> cr3 s' = to_physical_address pd \<and> (\<forall>x<0x10000000. check_va2pa pd (KERNEL_BASE + x) s' = Inr (EXTRACT_ADDRESS x, s'))
      \<and> env_free_list s' = [0..<NENV] \<and> env_ready_queue s' = [] \<and> env_new_queue s' = [] \<and> env_exit_queue s' = []
      \<and> scheduler_status s' = SCH_STOPPED \<and> PageRepAlgoType (cfg s') = PG_REP_LRU_LISTS_APPROX)"
  using FOS_initialize_state [OF assms] unfolding Let_def by blast

theorem FOS_initialize_correct_witness:
  "\<exists>s'. FOS_initialize nvram_64MB 0xF0200000 0xF0110000 (tiny\<lparr>env_free_list := []\<rparr>) = Some (Inr s') \<and> frames_ok s'
     \<and> free_frame_list s' = rev [1693..<16384] @ rev [3..<160]"
proof -
  have n: "nvram_read nvram_64MB 0x34 = 0x300" by (simp add: nvram_read_def mc146818_read_def nvram_64MB_def)
  have d: "detect_memory nvram_64MB (tiny\<lparr>env_free_list := []\<rparr>) = Some boot_example"
    by (simp add: detect_memory_def n Let_def ROUNDDOWN_def PAGE_SIZE_def KERNEL_BASE_def boot_example_def)
  have m: "number_of_frames boot_example = 16384" by (simp add: boot_example_def)
  have t: "boot_top 0xF0200000 + 1085 + (24 * 16384 + 4095) div 4096 = 1693" by (simp add: boot_top_unat KERNEL_BASE_def)
  have e: "env_free_list (tiny\<lparr>env_free_list := []\<rparr>) = []" by simp
  show ?thesis
    using FOS_initialize_correct [OF d e boot_example_room(2-4)] boot_example_room(1)
    unfolding m t Let_def by blast
qed

text \<open>A machine whose CMOS reports base memory only is taken to have no memory at all, whatever the size.\<close>

lemma detect_memory_no_extended:
  assumes "nvram 0x17 = 0" "nvram 0x18 = 0" "nvram 0x34 = 0" "nvram 0x35 = 0"
  shows "detect_memory nvram s = Some (s\<lparr>number_of_frames := 0\<rparr>)"
  using assms by (simp add: detect_memory_def nvram_read_def mc146818_read_def NVRAM_EXTLO_def ROUNDDOWN_def Let_def)

text \<open>A page table that the boot code creates keeps what the memory held: its other entries are arbitrary.\<close>

lemma boot_table_not_cleared:
  assumes "boot_inv pd own lim fm s" and "pdx va \<notin> own" and "rd s pd (pdx va) = 0"
  shows "\<exists>t fm' s'. boot_get_page_table eok pd va True (fm, s) = Inr (Some t, fm', s') \<and> pmem s' t = pmem s t"
  using boot_table_new(1) [OF assms, of eok] boot_invD(3) [OF assms(1)] by (auto simp: wr_def)

end
