(* ===== verification/C_String.thy ===== *)
theory C_String
  imports Prelude
begin

text \<open>
  The string and memory routines of \<^verbatim>\<open>lib/string.c\<close>, over a byte-addressed memory with 32-bit
  pointers that wrap at the top of the address space. A loop that is bounded by a length argument
  is a recursive function of the length; a loop that only ends at a terminator is a partial function
  whose value is \<open>None\<close> when memory holds none, and its properties show that it returns. \<open>cstr m p xs\<close>
  says that the bytes \<open>xs\<close> followed by a terminator are stored at \<open>p\<close>.
\<close>

type_synonym memory = "uint32 \<Rightarrow> uint8"

fun cstr :: "memory \<Rightarrow> uint32 \<Rightarrow> uint8 list \<Rightarrow> bool" where
  "cstr m p [] = (m p = 0)"
| "cstr m p (x # xs) = (m p = x \<and> x \<noteq> 0 \<and> cstr m (p + 1) xs)"

section \<open>Strings\<close>

partial_function (option) strlen_loop :: "memory \<Rightarrow> uint32 \<Rightarrow> int \<Rightarrow> int option" where
  "strlen_loop m s n = (if m s \<noteq> 0 then strlen_loop m (s + 1) (wrap32 (n + 1)) else Some n)"

definition strlen :: "memory \<Rightarrow> uint32 \<Rightarrow> int option" where
  "strlen m s = strlen_loop m s 0"

fun strnlen_loop :: "memory \<Rightarrow> uint32 \<Rightarrow> nat \<Rightarrow> int \<Rightarrow> int" where
  "strnlen_loop m s 0 n = n"
| "strnlen_loop m s (Suc size') n =
     (if m s \<noteq> 0 then strnlen_loop m (s + 1) size' (wrap32 (n + 1)) else n)"

definition strnlen :: "memory \<Rightarrow> uint32 \<Rightarrow> uint32 \<Rightarrow> int" where
  "strnlen m s size' = strnlen_loop m s (unat size') 0"

text \<open>The result is the memory; the returned pointer is \<open>dst\<close> itself.\<close>

partial_function (option) strcpy :: "memory \<Rightarrow> uint32 \<Rightarrow> uint32 \<Rightarrow> memory option" where
  "strcpy m dst src =
     (let c = m src; m = m(dst := c) in
      if c \<noteq> 0 then strcpy m (dst + 1) (src + 1) else Some m)"

fun strncpy_loop :: "memory \<Rightarrow> uint32 \<Rightarrow> uint32 \<Rightarrow> nat \<Rightarrow> memory" where
  "strncpy_loop m dst src 0 = m"
| "strncpy_loop m dst src (Suc i) =
     (let m = m(dst := m src) in
      strncpy_loop m (dst + 1) (if m src \<noteq> 0 then src + 1 else src) i)"

definition strncpy :: "memory \<Rightarrow> uint32 \<Rightarrow> uint32 \<Rightarrow> uint32 \<Rightarrow> memory" where
  "strncpy m dst src size' = strncpy_loop m dst src (unat size')"

text \<open>\<open>n\<close> is the value of \<open>size\<close> after the decrement in the condition.\<close>

fun strlcpy_loop :: "memory \<Rightarrow> uint32 \<Rightarrow> uint32 \<Rightarrow> nat \<Rightarrow> memory \<times> uint32" where
  "strlcpy_loop m dst src 0 = (m(dst := 0), dst)"
| "strlcpy_loop m dst src (Suc n) =
     (if m src \<noteq> 0 then strlcpy_loop (m(dst := m src)) (dst + 1) (src + 1) n
      else (m(dst := 0), dst))"

definition strlcpy :: "memory \<Rightarrow> uint32 \<Rightarrow> uint32 \<Rightarrow> uint32 \<Rightarrow> memory \<times> uint32" where
  "strlcpy m dst src size' =
     (if 0 < size' then
        (let (m, d) = strlcpy_loop m dst src (unat (size' - 1)) in (m, d - dst))
      else (m, dst - dst))"

partial_function (option) strcmp :: "memory \<Rightarrow> uint32 \<Rightarrow> uint32 \<Rightarrow> int option" where
  "strcmp m p q =
     (if m p \<noteq> 0 \<and> m p = m q then strcmp m (p + 1) (q + 1)
      else Some (uint (m p) - uint (m q)))"

fun strncmp_loop :: "memory \<Rightarrow> uint32 \<Rightarrow> uint32 \<Rightarrow> nat \<Rightarrow> int" where
  "strncmp_loop m p q 0 = 0"
| "strncmp_loop m p q (Suc n) =
     (if m p \<noteq> 0 \<and> m p = m q then strncmp_loop m (p + 1) (q + 1) n
      else uint (m p) - uint (m q))"

definition strncmp :: "memory \<Rightarrow> uint32 \<Rightarrow> uint32 \<Rightarrow> uint32 \<Rightarrow> int" where
  "strncmp m p q n = strncmp_loop m p q (unat n)"

text \<open>A null result is address 0.\<close>

partial_function (option) strchr :: "memory \<Rightarrow> uint32 \<Rightarrow> uint8 \<Rightarrow> uint32 option" where
  "strchr m s c =
     (if m s \<noteq> 0 then (if m s = c then Some s else strchr m (s + 1) c) else Some 0)"

partial_function (option) strfind :: "memory \<Rightarrow> uint32 \<Rightarrow> uint8 \<Rightarrow> uint32 option" where
  "strfind m s c =
     (if m s \<noteq> 0 then (if m s = c then Some s else strfind m (s + 1) c) else Some s)"

section \<open>Memory\<close>

text \<open>The counter of \<open>memset\<close> is a signed \<open>int\<close>.\<close>

fun memset_loop :: "memory \<Rightarrow> uint32 \<Rightarrow> uint8 \<Rightarrow> nat \<Rightarrow> memory" where
  "memset_loop m p c 0 = m"
| "memset_loop m p c (Suc n) = memset_loop (m(p := c)) (p + 1) c n"

definition memset :: "memory \<Rightarrow> uint32 \<Rightarrow> int \<Rightarrow> uint32 \<Rightarrow> memory" where
  "memset m v c n = memset_loop m v (word_of_int c) (nat (sint n))"

fun copy_up :: "memory \<Rightarrow> uint32 \<Rightarrow> uint32 \<Rightarrow> nat \<Rightarrow> memory" where
  "copy_up m d s 0 = m"
| "copy_up m d s (Suc n) = copy_up (m(d := m s)) (d + 1) (s + 1) n"

fun copy_down :: "memory \<Rightarrow> uint32 \<Rightarrow> uint32 \<Rightarrow> nat \<Rightarrow> memory" where
  "copy_down m d s 0 = m"
| "copy_down m d s (Suc n) = copy_down (m(d - 1 := m (s - 1))) (d - 1) (s - 1) n"

definition memcpy :: "memory \<Rightarrow> uint32 \<Rightarrow> uint32 \<Rightarrow> uint32 \<Rightarrow> memory" where
  "memcpy m dst src n = copy_up m dst src (unat n)"

definition memmove :: "memory \<Rightarrow> uint32 \<Rightarrow> uint32 \<Rightarrow> uint32 \<Rightarrow> memory" where
  "memmove m dst src n =
     (if src < dst \<and> src + n > dst then copy_down m (dst + n) (src + n) (unat n)
      else copy_up m dst src (unat n))"

fun memcmp_loop :: "memory \<Rightarrow> uint32 \<Rightarrow> uint32 \<Rightarrow> nat \<Rightarrow> int" where
  "memcmp_loop m s1 s2 0 = 0"
| "memcmp_loop m s1 s2 (Suc n) =
     (if m s1 \<noteq> m s2 then uint (m s1) - uint (m s2) else memcmp_loop m (s1 + 1) (s2 + 1) n)"

definition memcmp :: "memory \<Rightarrow> uint32 \<Rightarrow> uint32 \<Rightarrow> uint32 \<Rightarrow> int" where
  "memcmp m v1 v2 n = memcmp_loop m v1 v2 (unat n)"

function memfind_loop :: "memory \<Rightarrow> uint32 \<Rightarrow> uint32 \<Rightarrow> uint8 \<Rightarrow> uint32" where
  "memfind_loop m s ends c =
     (if s < ends then (if m s = c then s else memfind_loop m (s + 1) ends c) else s)"
  by auto

lemma word_Suc_less: "s < ends \<Longrightarrow> unat (s + 1) = Suc (unat s)" for s :: uint32
proof -
  assume "s < ends"
  then have "Suc (unat s) < 2 ^ 32"
    using unsigned_less [of ends, where ?'a = nat] by (simp add: word_less_nat_alt)
  then show ?thesis by (simp add: unat_word_ariths)
qed

termination memfind_loop
  by (relation "measure (\<lambda>(m, s, ends, c). unat ends - unat s)")
    (auto simp: word_less_nat_alt word_Suc_less intro!: diff_less_mono2)

definition memfind :: "memory \<Rightarrow> uint32 \<Rightarrow> int \<Rightarrow> uint32 \<Rightarrow> uint32" where
  "memfind m s c n = memfind_loop m s (s + n) (word_of_int c)"


section \<open>Numbers\<close>

partial_function (option) skip_space :: "memory \<Rightarrow> uint32 \<Rightarrow> uint32 option" where
  "skip_space m s = (if m s = 32 \<or> m s = 9 then skip_space m (s + 1) else Some s)"

text \<open>The value of a digit character; \<open>None\<close> is the \<open>break\<close>.\<close>

definition digit_of :: "uint8 \<Rightarrow> int option" where
  "digit_of c =
     (if 48 \<le> c \<and> c \<le> 57 then Some (uint c - 48)
      else if 97 \<le> c \<and> c \<le> 122 then Some (uint c - 97 + 10)
      else if 65 \<le> c \<and> c \<le> 90 then Some (uint c - 65 + 10)
      else None)"

partial_function (option) strtol_digits ::
  "memory \<Rightarrow> int \<Rightarrow> uint32 \<Rightarrow> int \<Rightarrow> (int \<times> uint32) option" where
  "strtol_digits m base s val =
     (case digit_of (m s) of
        None \<Rightarrow> Some (val, s)
      | Some dig \<Rightarrow> if base \<le> dig then Some (val, s)
                    else strtol_digits m base (s + 1) (wrap32 (val * base + dig)))"

text \<open>The result pairs the number with \<open>*endptr\<close>.\<close>

definition strtol :: "memory \<Rightarrow> uint32 \<Rightarrow> int \<Rightarrow> (int \<times> uint32) option" where
  "strtol m s base =
     Option.bind (skip_space m s) (\<lambda>s.
       let (s, neg) = (if m s = 43 then (s + 1, False)
                       else if m s = 45 then (s + 1, True) else (s, False));
           (s, base) = (if (base = 0 \<or> base = 16) \<and> m s = 48 \<and> m (s + 1) = 120 then (s + 2, 16)
                        else if base = 0 \<and> m s = 48 then (s + 1, 8)
                        else if base = 0 then (s, 10) else (s, base)) in
       Option.bind (strtol_digits m base s 0) (\<lambda>(val, s).
       Some (if neg then wrap32 (- val) else val, s)))"

text \<open>The \<open>do\<close> loop of \<open>ltostr\<close>, which returns the memory and \<open>s\<close>.\<close>

function ltostr_digits :: "memory \<Rightarrow> uint32 \<Rightarrow> nat \<Rightarrow> int \<Rightarrow> memory \<times> nat" where
  "ltostr_digits m str s value =
     (let m = m(str + of_nat s := word_of_int (c_mod value 10 + 48)) in
      if c_mod (c_div value 10) 10 \<noteq> 0 then ltostr_digits m str (s + 1) (c_div value 10)
      else (m, s + 1))"
  by auto

lemma c_div_10_smaller: "c_mod (c_div v 10) 10 \<noteq> 0 \<Longrightarrow> nat \<bar>c_div v 10\<bar> < nat \<bar>v\<bar>"
  by (auto simp: c_mod_def c_div_def abs_mult sgn_if split: if_splits)

termination ltostr_digits
  by (relation "measure (\<lambda>(m, str, s, v). nat \<bar>v\<bar>)")
    (rule wf_measure, simp only: in_measure prod.case, rule c_div_10_smaller)

function reverse_loop :: "memory \<Rightarrow> uint32 \<Rightarrow> int \<Rightarrow> int \<Rightarrow> memory" where
  "reverse_loop m str start end' =
     (if start < end' then
        (let tmp = m (str + of_int start);
             m = m(str + of_int start := m (str + of_int end'));
             m = m(str + of_int end' := tmp) in
         reverse_loop m str (start + 1) (end' - 1))
      else m)"
  by auto
termination reverse_loop
  by (relation "measure (\<lambda>(m, str, start, end'). nat (end' - start))") auto

definition ltostr :: "memory \<Rightarrow> int \<Rightarrow> uint32 \<Rightarrow> memory" where
  "ltostr m value str =
     (let neg = value < 0;
          m = (if neg then m(str := 45) else m);
          (m, s) = ltostr_digits m str (if neg then 1 else 0) (if neg then wrap32 (value * -1) else value);
          m = reverse_loop m str (if neg then 1 else 0) (int s - 1) in
      m(str + of_nat s := 0))"

section \<open>Concatenation and splitting\<close>

definition strcconcat :: "memory \<Rightarrow> uint32 \<Rightarrow> uint32 \<Rightarrow> uint32 \<Rightarrow> memory option" where
  "strcconcat m str1 str2 final =
     Option.bind (strlen m str1) (\<lambda>len1.
     Option.bind (strlen m str2) (\<lambda>len2.
       let m = copy_up m final str1 (nat len1);
           m = copy_up m (final + of_int (max 0 len1)) str2 (nat len2) in
       Some (m(final + of_int (max 0 len1) + of_int (max 0 len2) := 0))))"

definition MAX_ARGUMENTS :: nat where "MAX_ARGUMENTS = 16"

text \<open>\<open>argv\<close> is an array of its own, the list of the pointers stored so far; the terminating null
  pointer follows them. The two inner loops of \<open>strsplit\<close>:\<close>

partial_function (option) trim_split ::
  "uint32 \<Rightarrow> memory \<Rightarrow> uint32 \<Rightarrow> (memory \<times> uint32) option" where
  "trim_split split m string =
     (if m string = 0 then Some (m, string)
      else Option.bind (strchr m split (m string)) (\<lambda>p.
             if p \<noteq> 0 then trim_split split (m(string := 0)) (string + 1)
             else Some (m, string)))"

partial_function (option) skip_arg :: "uint32 \<Rightarrow> memory \<Rightarrow> uint32 \<Rightarrow> uint32 option" where
  "skip_arg split m string =
     (if m string = 0 then Some string
      else Option.bind (strchr m split (m string)) (\<lambda>p.
             if p = 0 then skip_arg split m (string + 1) else Some string))"

text \<open>The result is the memory, \<open>argv\<close>, and the return value.\<close>

partial_function (option) strsplit_loop ::
  "uint32 \<Rightarrow> memory \<Rightarrow> uint32 \<Rightarrow> uint32 list \<Rightarrow> (memory \<times> uint32 list \<times> int) option" where
  "strsplit_loop split m string argv =
     Option.bind (trim_split split m string) (\<lambda>(m, string).
       if m string = 0 then Some (m, argv, 1)
       else if length argv = MAX_ARGUMENTS - 1 then Some (m, argv, 0)
       else Option.bind (skip_arg split m string) (\<lambda>string'.
              strsplit_loop split m string' (argv @ [string])))"

definition strsplit ::
  "memory \<Rightarrow> uint32 \<Rightarrow> uint32 \<Rightarrow> (memory \<times> uint32 list \<times> int) option" where
  "strsplit m string split = strsplit_loop split m string []"
section \<open>Stored strings\<close>

lemma addr_inj: "i < 2 ^ 32 \<Longrightarrow> j < 2 ^ 32 \<Longrightarrow> p + of_nat i = p + of_nat j \<Longrightarrow> i = j" for p :: uint32
proof -
  assume i: "i < 2 ^ 32" and j: "j < 2 ^ 32" and "p + of_nat i = p + of_nat j"
  then have "unat (of_nat i :: uint32) = unat (of_nat j :: uint32)" by simp
  then show "i = j" using i j by (simp add: unsigned_of_nat take_bit_nat_eq_self)
qed

lemma addr_Suc: "p + of_nat (Suc i) = (p + 1) + of_nat i" for p :: uint32
  by simp

lemma cstr_iff:
  "cstr m p xs \<longleftrightarrow> (\<forall>i<length xs. m (p + of_nat i) = xs ! i \<and> xs ! i \<noteq> 0) \<and> m (p + of_nat (length xs)) = 0"
proof (induction xs arbitrary: p)
  case (Cons x xs)
  have all: "(\<forall>i<Suc n. P i) \<longleftrightarrow> P 0 \<and> (\<forall>i<n. P (Suc i))" for P n
    by (auto simp: less_Suc_eq_0_disj)
  show ?case
    by (simp only: cstr.simps Cons.IH length_Cons all nth_Cons_0 nth_Cons_Suc addr_Suc) simp
qed simp

text \<open>A string is shorter than the address space, so its cells are pairwise different.\<close>

lemma cstr_length: "cstr m p xs \<Longrightarrow> length xs < 2 ^ 32"
proof (rule ccontr)
  assume c: "cstr m p xs" and "\<not> length xs < 2 ^ 32"
  then have l: "2 ^ 32 \<le> length xs" by simp
  have "(of_nat (length xs - 2 ^ 32) :: uint32) = of_nat (length xs)"
    using l by (simp add: of_nat_diff)
  moreover have "\<forall>i<length xs. m (p + of_nat i) \<noteq> 0" using c by (auto simp: cstr_iff)
  then have "m (p + of_nat (length xs - 2 ^ 32)) \<noteq> 0" using l by (auto simp del: of_nat_diff)
  ultimately have "m (p + of_nat (length xs)) \<noteq> 0" by simp
  then show False using c by (simp add: cstr_iff)
qed

lemma cstr_cong:
  assumes "cstr m p xs" and "\<And>i. i \<le> length xs \<Longrightarrow> m' (p + of_nat i) = m (p + of_nat i)"
  shows "cstr m' p xs"
  using assms by (simp add: cstr_iff)

lemma cstr_unique: "cstr m p xs \<Longrightarrow> cstr m p ys \<Longrightarrow> xs = ys"
proof (induction xs arbitrary: p ys)
  case Nil
  then show ?case by (cases ys) auto
next
  case (Cons x xs)
  then show ?case by (cases ys) auto
qed

lemma strlen_loop_cstr:
  "cstr m p xs \<Longrightarrow> strlen_loop m p n = Some (if xs = [] then n else wrap32 (n + int (length xs)))"
proof (induction xs arbitrary: p n)
  case Nil
  then show ?case by (subst strlen_loop.simps) simp
next
  case (Cons x xs)
  then have "strlen_loop m p n = strlen_loop m (p + 1) (wrap32 (n + 1))"
    by (subst strlen_loop.simps) simp
  then show ?case using Cons.IH[of "p + 1" "wrap32 (n + 1)"] Cons.prems
    by (simp add: wrap32_mod add.assoc)
qed

lemma strlen_cstr: "cstr m p xs \<Longrightarrow> length xs < 2 ^ 31 \<Longrightarrow> strlen m p = Some (int (length xs))"
  by (auto simp: strlen_def strlen_loop_cstr wrap32_id)

section \<open>Comparison\<close>

definition byte_less :: "(uint8 \<times> uint8) set" where
  "byte_less = {(a, b). a < b}"

lemma strcmp_loop:
  assumes "cstr m p xs" and "cstr m q ys"
  shows "\<exists>r. strcmp m p q = Some r \<and> (r = 0 \<longleftrightarrow> xs = ys) \<and> (r < 0 \<longleftrightarrow> (xs, ys) \<in> lexord byte_less)"
  using assms
proof (induction xs arbitrary: p q ys)
  case Nil
  have "0 < uint (m q)" if "m q \<noteq> 0"
    using that uint_0_iff [of "m q"] by (simp add: less_le)
  moreover have "strcmp m p q = Some (uint (m p) - uint (m q))"
    using Nil by (subst strcmp.simps) simp
  ultimately show ?case using Nil by (cases ys) auto
next
  case (Cons x xs)
  show ?case
  proof (cases "m q = x")
    case True
    then obtain ys' where ys: "ys = x # ys'" "cstr m (q + 1) ys'"
      using Cons.prems by (cases ys) auto
    have "strcmp m p q = strcmp m (p + 1) (q + 1)"
      using Cons.prems True by (subst strcmp.simps) simp
    then show ?thesis using Cons.IH[of "p + 1" "q + 1" ys'] Cons.prems ys
      by (auto simp: byte_less_def)
  next
    case False
    have "strcmp m p q = Some (uint x - uint (m q))"
      using Cons.prems False by (subst strcmp.simps) simp
    moreover have "uint x \<noteq> uint (m q)" using False unsigned_word_eqI by blast
    ultimately show ?thesis using Cons.prems False
      by (cases ys) (auto simp: word_less_def byte_less_def)
  qed
qed
section \<open>Copying\<close>

lemma copy_up_other:
  "(\<forall>i<n. a \<noteq> d + of_nat i) \<Longrightarrow> copy_up m d s n a = m a"
proof (induction n arbitrary: m d s)
  case (Suc n)
  have "a \<noteq> d + 1 + of_nat i" if "i < n" for i
    using Suc.prems [rule_format, of "Suc i"] that by (simp add: add.assoc)
  moreover have "a \<noteq> d" using Suc.prems [rule_format, of 0] by simp
  ultimately show ?case using Suc.IH by simp
qed simp

text \<open>Copying upwards reads every byte before it is overwritten when the destination does not
  start inside the source, beyond its first byte.\<close>

lemma copy_up_value:
  assumes "n \<le> 2 ^ 32" and "\<forall>k. 0 < k \<and> k < n \<longrightarrow> d \<noteq> s + of_nat k" and "i < n"
  shows "copy_up m d s n (d + of_nat i) = m (s + of_nat i)"
  using assms
proof (induction n arbitrary: m d s i)
  case (Suc n)
  let ?m = "m(d := m s)"
  show ?case
  proof (cases i)
    case 0
    have "d \<noteq> d + 1 + of_nat k" if "k < n" for k
      using addr_inj[of 0 "Suc k" d] that Suc.prems(1) by (auto simp: add.assoc)
    then show ?thesis using 0 copy_up_other by simp
  next
    case (Suc k)
    have "s + of_nat (Suc k) \<noteq> d" using Suc.prems(2,3) Suc by force
    moreover have "copy_up ?m (d + 1) (s + 1) n (d + 1 + of_nat k) = ?m (s + 1 + of_nat k)"
      by (rule Suc.IH) (use Suc.prems Suc in \<open>auto simp: algebra_simps\<close>)
    ultimately show ?thesis using Suc by (simp add: add.assoc)
  qed
qed simp

lemma copy_down_other:
  "(\<forall>i<n. a \<noteq> d - 1 - of_nat i) \<Longrightarrow> copy_down m d s n a = m a"
proof (induction n arbitrary: m d s)
  case (Suc n)
  have "a \<noteq> d - 1 - 1 - of_nat i" if "i < n" for i
    using Suc.prems [rule_format, of "Suc i"] that by (simp add: diff_diff_eq)
  moreover have "a \<noteq> d - 1" using Suc.prems [rule_format, of 0] by simp
  ultimately show ?case using Suc.IH by simp
qed simp

lemma copy_down_value:
  assumes "n \<le> 2 ^ 32" and "\<forall>k. 0 < k \<and> k < n \<longrightarrow> s \<noteq> d + of_nat k" and "i < n"
  shows "copy_down m d s n (d - 1 - of_nat i) = m (s - 1 - of_nat i)"
  using assms
proof (induction n arbitrary: m d s i)
  case (Suc n)
  let ?m = "m(d - 1 := m (s - 1))"
  show ?case
  proof (cases i)
    case 0
    have "d - 1 \<noteq> d - 1 - 1 - of_nat k" if "k < n" for k
    proof -
      have "(of_nat (Suc k) :: uint32) \<noteq> 0" using addr_inj[of 0 "Suc k" 0] that Suc.prems(1) by auto
      then have "d - 1 - of_nat (Suc k) \<noteq> d - 1" by (simp del: of_nat_Suc)
      then show ?thesis by (simp add: diff_diff_eq)
    qed
    then show ?thesis using 0 copy_down_other by simp
  next
    case (Suc k)
    have "s \<noteq> d + of_nat (Suc k)" using Suc.prems(2,3) Suc by force
    then have "s - 1 - of_nat (Suc k) \<noteq> d - 1" by (simp add: diff_eq_eq ac_simps)
    moreover have "copy_down ?m (d - 1) (s - 1) n (d - 1 - 1 - of_nat k) = ?m (s - 1 - 1 - of_nat k)"
      by (rule Suc.IH) (use Suc.prems Suc in \<open>auto simp: algebra_simps\<close>)
    ultimately show ?thesis using Suc by (simp add: diff_diff_eq)
  qed
qed simp

lemma unat_addr: "unat a + k < 2 ^ 32 \<Longrightarrow> unat (a + of_nat k) = unat a + k" for a :: uint32
proof -
  assume "unat a + k < 2 ^ 32"
  moreover have "a + of_nat k = of_nat (unat a + k)" by simp
  ultimately show ?thesis by (simp only: unsigned_of_nat) (simp add: take_bit_nat_eq_self)
qed
text \<open>Copying down from the ends, when the target starts after the source.\<close>

lemma copy_down_range:
  assumes "unat dst + unat n < 2 ^ 32" and "src < dst"
  shows "i < unat n \<Longrightarrow> copy_down m (dst + n) (src + n) (unat n) (dst + of_nat i) = m (src + of_nat i)"
    and "\<forall>i<unat n. a \<noteq> dst + of_nat i \<Longrightarrow> copy_down m (dst + n) (src + n) (unat n) a = m a"
proof -
  let ?n = "unat n"
  have rev: "b + n - 1 - of_nat i = b + of_nat (?n - Suc i)" if "i < ?n" for b i
    using that by (simp add: of_nat_diff)
  have "src + n \<noteq> dst + n + of_nat k" if "0 < k" "k < ?n" for k
  proof
    assume "src + n = dst + n + of_nat k"
    then have "src = dst + of_nat k" by (simp add: algebra_simps)
    moreover have "unat (dst + of_nat k) = unat dst + k" using that(2) assms(1) by (intro unat_addr) simp
    ultimately show False using assms(2) by (simp add: word_less_nat_alt)
  qed
  then have v: "copy_down m (dst + n) (src + n) ?n (dst + n - 1 - of_nat i) = m (src + n - 1 - of_nat i)"
    if "i < ?n" for i using that assms(1) by (intro copy_down_value) auto
  show "copy_down m (dst + n) (src + n) ?n (dst + of_nat i) = m (src + of_nat i)" if "i < ?n"
  proof -
    have "i = ?n - Suc (?n - Suc i)" "?n - Suc i < ?n" using that by simp_all
    then show ?thesis using v[of "?n - Suc i"] rev[of "?n - Suc i"] by simp
  qed
  show "copy_down m (dst + n) (src + n) ?n a = m a" if "\<forall>i<?n. a \<noteq> dst + of_nat i"
  proof (rule copy_down_other, intro allI impI)
    fix i assume "i < ?n"
    then have "a \<noteq> dst + of_nat (?n - Suc i)" using that [rule_format, of "?n - Suc i"] by simp
    then show "a \<noteq> dst + n - 1 - of_nat i" by (simp only: rev [OF \<open>i < ?n\<close>] not_False_eq_True)
  qed
qed

text \<open>C30: \<open>memmove\<close> copies correctly even when the two regions overlap, and touches nothing
  outside the destination, provided that neither region reaches the top of the address space.\<close>

theorem memmove_correct:
  assumes "unat src + unat n < 2 ^ 32" and "unat dst + unat n < 2 ^ 32"
  shows "(\<forall>i<unat n. memmove m dst src n (dst + of_nat i) = m (src + of_nat i))
    \<and> (\<forall>a. (\<forall>i<unat n. a \<noteq> dst + of_nat i) \<longrightarrow> memmove m dst src n a = m a)"
proof (cases "src < dst \<and> src + n > dst")
  case True
  then show ?thesis using copy_down_range [OF assms(2)] by (simp add: memmove_def)
next
  case False
  let ?n = "unat n"
  have n: "?n \<le> 2 ^ 32" using assms by simp
  have "dst \<noteq> src + of_nat k" if "0 < k" "k < ?n" for k
  proof
    assume "dst = src + of_nat k"
    moreover have "unat (src + of_nat k) = unat src + k" using that(2) assms(1) by (intro unat_addr) simp
    moreover have "unat (src + n) = unat src + ?n" using unat_addr [of src ?n] assms(1) by simp
    ultimately show False using False that by (auto simp: word_less_nat_alt)
  qed
  then show ?thesis using False copy_up_value[OF n] copy_up_other[of ?n _ dst m src]
    by (auto simp: memmove_def)
qed

definition sample :: memory where
  "sample = (\<lambda>_. 0)(100 := 97, 101 := 98, 102 := 99)"

theorem memmove_correct_witness:
  "memmove sample 101 100 3 103 = 99"
proof -
  have "\<forall>i<unat (3::uint32). memmove sample 101 100 3 (101 + of_nat i) = sample (100 + of_nat i)"
    using memmove_correct[of 100 3 101 sample] by simp
  from this [rule_format, of 2] show ?thesis by (simp add: sample_def)
qed

text \<open>\<open>strcmp\<close> returns on every pair of stored strings, with 0 exactly for equal strings and a
  negative number exactly when the first precedes the second in the lexicographic order of
  unsigned bytes.\<close>

theorem strcmp_orders:
  assumes "cstr m p xs" and "cstr m q ys"
  shows "\<exists>r. strcmp m p q = Some r \<and> (r = 0 \<longleftrightarrow> xs = ys) \<and> (r < 0 \<longleftrightarrow> (xs, ys) \<in> lexord byte_less)"
  using strcmp_loop[OF assms] .

theorem strcmp_orders_witness:
  "\<exists>r. strcmp sample 100 101 = Some r \<and> r < 0"
proof -
  have "([97, 98, 99], [98, 99]) \<in> lexord byte_less" by (simp add: byte_less_def)
  then show ?thesis
    using strcmp_orders[of sample 100 "[97, 98, 99]" 101 "[98, 99]"] by (auto simp: sample_def)
qed

text \<open>The counter of \<open>memset\<close> is signed, so a length of \<open>2 ^ 31\<close> or more clears nothing.\<close>

lemma memset_loop_value:
  "n \<le> 2 ^ 32 \<Longrightarrow> memset_loop m p c n a = (if \<exists>i<n. a = p + of_nat i then c else m a)"
proof (induction n arbitrary: m p)
  case (Suc n)
  have eq: "(\<exists>i<Suc n. a = p + of_nat i) \<longleftrightarrow> a = p \<or> (\<exists>i<n. a = p + 1 + of_nat i)"
    by (auto simp: less_Suc_eq_0_disj add.assoc)
  have "memset_loop (m(p := c)) (p + 1) c n a
      = (if \<exists>i<n. a = p + 1 + of_nat i then c else (m(p := c)) a)"
    using Suc by simp
  then show ?case
    unfolding memset_loop.simps eq by (cases "\<exists>i<n. a = p + 1 + of_nat i") (auto simp del: add_left_cancel)
qed simp

text \<open>\<open>memset\<close> writes the low byte of its value to exactly the bytes of the region when the length
  is below \<open>2 ^ 31\<close>; its counter is a signed \<open>int\<close>, and a larger length leaves memory as it was.\<close>

theorem memset_fills:
  "memset m v c n a = (if n < 2 ^ 31 \<and> (\<exists>i<unat n. a = v + of_nat i) then word_of_int c else m a)"
proof (cases "n < 2 ^ 31")
  case True
  have "unat n < 2 ^ 31" using True by (simp add: word_less_nat_alt)
  moreover have "uint n < 2 ^ 31" using True by (simp add: word_less_def)
  moreover from this have "sint n = uint n"
    unfolding sint_uint by (intro signed_take_bit_int_eq_self order_trans [OF _ uint_ge_0]) simp_all
  ultimately show ?thesis using True by (simp add: memset_def memset_loop_value)
next
  case False
  then have "2 ^ 31 \<le> uint n" by (simp add: word_less_def)
  then have "uint n div 2 ^ 31 = 1"
    using uint_bounded [of n] by (intro int_div_pos_eq [of _ _ _ "uint n - 2 ^ 31"]) simp_all
  then have "bit (uint n) 31" by (simp add: bit_iff_odd)
  then have "sint n < 0" unfolding sint_uint by (simp add: signed_take_bit_negative_iff)
  then have "nat (sint n) = 0" by simp
  then show ?thesis using False by (simp add: memset_def)
qed
section \<open>Bounded copy\<close>

lemma strlcpy_loop_value:
  assumes "cstr m src xs" and "n < 2 ^ 32"
    and "\<forall>i\<le>n. \<forall>j\<le>length xs. dst + of_nat i \<noteq> src + of_nat j"
  shows "\<exists>m'. strlcpy_loop m dst src n = (m', dst + of_nat (min n (length xs)))
    \<and> cstr m' dst (take n xs) \<and> (\<forall>a. (\<forall>i\<le>n. a \<noteq> dst + of_nat i) \<longrightarrow> m' a = m a)"
  using assms
proof (induction n arbitrary: m dst src xs)
  case 0
  then show ?case by (auto intro!: exI [of _ "m(dst := 0)"])
next
  case (Suc n)
  show ?case
  proof (cases xs)
    case Nil
    then show ?thesis using Suc.prems
      by (auto intro!: exI [of _ "m(dst := 0)"] dest: spec [of _ 0])
  next
    case (Cons x ys)
    let ?m = "m(dst := x)"
    have sep: "dst + of_nat i \<noteq> src + of_nat j" if "i \<le> Suc n" "j \<le> length xs" for i j
      using Suc.prems(3) that by blast
    have c: "cstr ?m (src + 1) ys"
    proof (rule cstr_cong)
      show "cstr m (src + 1) ys" using Suc.prems(1) Cons by simp
      show "?m (src + 1 + of_nat i) = m (src + 1 + of_nat i)" if "i \<le> length ys" for i
        using sep[of 0 "Suc i"] that Cons by (auto simp: add.assoc)
    qed
    have sep': "\<forall>i\<le>n. \<forall>j\<le>length ys. dst + 1 + of_nat i \<noteq> src + 1 + of_nat j"
    proof (intro allI impI)
      fix i j assume "i \<le> n" "j \<le> length ys"
      then have "dst + of_nat (Suc i) \<noteq> src + of_nat (Suc j)" using sep[of "Suc i" "Suc j"] Cons by simp
      then show "dst + 1 + of_nat i \<noteq> src + 1 + of_nat j" by (simp add: add.assoc)
    qed
    obtain m' where m': "strlcpy_loop ?m (dst + 1) (src + 1) n = (m', dst + 1 + of_nat (min n (length ys)))"
      "cstr m' (dst + 1) (take n ys)" "\<And>a. (\<forall>i\<le>n. a \<noteq> dst + 1 + of_nat i) \<Longrightarrow> m' a = ?m a"
      using Suc.IH[OF c Suc_lessD [OF Suc.prems(2)] sep'] by blast
    have x: "m src = x" "x \<noteq> 0" using Suc.prems(1) Cons by simp_all
    have d: "dst \<noteq> dst + 1 + of_nat i" if "i \<le> n" for i
      using addr_inj[of 0 "Suc i" dst] that Suc.prems(2) by (auto simp: add.assoc)
    then have "m' dst = x" using m'(3) by simp
    moreover have "m' a = m a" if "\<forall>i\<le>Suc n. a \<noteq> dst + of_nat i" for a
    proof -
      have "a \<noteq> dst" using that [rule_format, of 0] by simp
      moreover have "a \<noteq> dst + 1 + of_nat i" if "i \<le> n" for i
        using \<open>\<forall>i\<le>Suc n. a \<noteq> dst + of_nat i\<close> [rule_format, of "Suc i"] that by (simp add: add.assoc)
      ultimately show ?thesis using m'(3) by simp
    qed
    moreover have "dst + 1 + of_nat (min n (length ys)) = dst + of_nat (min (Suc n) (length xs))"
      using Cons by (simp add: add.assoc)
    ultimately show ?thesis using m'(1,2) x Cons by (intro exI [of _ m']) simp
  qed
qed

text \<open>\<open>strlcpy\<close> into a region of a positive size that does not overlap the source stores the
  longest prefix that fits with its terminator, always terminated, returns its length, and writes
  nothing outside the region.\<close>

theorem strlcpy_correct:
  assumes "cstr m src xs" and "0 < n"
    and "\<forall>i<unat n. \<forall>j\<le>length xs. dst + of_nat i \<noteq> src + of_nat j"
  shows "\<exists>m'. strlcpy m dst src n = (m', of_nat (min (unat n - 1) (length xs)))
    \<and> cstr m' dst (take (unat n - 1) xs)
    \<and> (\<forall>a. (\<forall>i<unat n. a \<noteq> dst + of_nat i) \<longrightarrow> m' a = m a)"
proof -
  have n0: "n \<noteq> 0" using assms(2) by auto
  then have u: "unat (n - 1) = unat n - 1" "0 < unat n" by (simp_all add: unat_minus_one unat_gt_0)
  have le: "i \<le> unat n - 1 \<longleftrightarrow> i < unat n" for i using u(2) by linarith
  have "unat n - 1 < 2 ^ 32" using unsigned_less [of n, where ?'a = nat] by simp
  then obtain m' where "strlcpy_loop m dst src (unat n - 1) = (m', dst + of_nat (min (unat n - 1) (length xs)))"
    "cstr m' dst (take (unat n - 1) xs)"
    "\<forall>a. (\<forall>i\<le>unat n - 1. a \<noteq> dst + of_nat i) \<longrightarrow> m' a = m a"
    using strlcpy_loop_value[OF assms(1), of "unat n - 1" dst] assms(3) unfolding le by blast
  then show ?thesis using assms(2) u unfolding le by (intro exI [of _ m']) (simp add: strlcpy_def)
qed

theorem strlcpy_correct_witness:
  "\<exists>m'. strlcpy sample 200 100 3 = (m', 2) \<and> cstr m' 200 [97, 98]"
proof -
  have "(200::uint32) + of_nat i \<noteq> 100 + of_nat j" if "i < 3" "j \<le> 3" for i j :: nat
  proof -
    from that have "i \<in> {0, 1, 2}" "j \<in> {0, 1, 2, 3}" by auto
    then show ?thesis by auto
  qed
  then have "\<forall>i<unat (3::uint32). \<forall>j\<le>length [97, 98, 99::uint8]. (200::uint32) + of_nat i \<noteq> 100 + of_nat j"
    by simp
  then show ?thesis
    using strlcpy_correct[of sample 100 "[97, 98, 99]" 3 200] by (auto simp: sample_def)
qed
section \<open>Printing and reading numbers\<close>

text \<open>The digits that \<open>ltostr\<close> produces for \<open>v\<close>, the last one first.\<close>

fun printed :: "nat \<Rightarrow> nat list" where
  "printed v = (v mod 10) # (if v div 10 mod 10 \<noteq> 0 then printed (v div 10) else [])"

declare printed.simps [simp del]

lemma printed_nonempty [simp]: "printed v \<noteq> []" "0 < length (printed v)"
  by (simp_all add: printed.simps)

lemma printed_digit: "d \<in> set (printed v) \<Longrightarrow> d < 10"
  by (induction v rule: printed.induct) (subst (asm) printed.simps, auto split: if_splits)

fun digits_value :: "nat list \<Rightarrow> nat" where
  "digits_value [] = 0"
| "digits_value (d # ds) = d + 10 * digits_value ds"

lemma printed_value: "digits_value (printed v) = v mod 10 ^ length (printed v)"
proof (induction v rule: printed.induct)
  case (1 v)
  show ?case
  proof (cases "v div 10 mod 10 = 0")
    case True
    then show ?thesis by (subst (1 2) printed.simps) simp
  next
    case False
    then have p: "printed v = (v mod 10) # printed (v div 10)" by (subst printed.simps) simp
    have "v mod 10 + 10 * (v div 10 mod 10 ^ n) = v mod 10 ^ Suc n" for n
      using mod_mult2_eq [of v 10 "10 ^ n"] by simp
    then show ?thesis using 1 False p by simp
  qed
qed

lemma printed_length: "length (printed v) = (LEAST k. 0 < k \<and> v div 10 ^ k mod 10 = 0)"
proof (induction v rule: printed.induct)
  case (1 v)
  show ?case
  proof (cases "v div 10 mod 10 = 0")
    case True
    have "(LEAST k. 0 < k \<and> v div 10 ^ k mod 10 = 0) = 1"
      by (rule Least_equality) (use True in auto)
    then show ?thesis using True by (subst printed.simps) simp
  next
    case False
    let ?P = "\<lambda>k. 0 < k \<and> v div 10 ^ k mod 10 = 0"
    let ?Q = "\<lambda>k. 0 < k \<and> v div 10 div 10 ^ k mod 10 = 0"
    have sh: "?P (Suc k) = (v div 10 div 10 ^ k mod 10 = 0)" for k
      by (simp add: div_mult2_eq)
    have "v < 10 ^ Suc v"
    proof -
      have "v < 2 ^ v" by (rule less_exp)
      also have "(2::nat) ^ v \<le> 10 ^ v" by (rule power_mono) simp_all
      finally show ?thesis by simp
    qed
    then have "v div 10 div 10 ^ Suc v = 0" by (meson div_less div_le_dividend le_less_trans)
    then have "?Q (Suc v)" by simp
    then have ex: "?P (Suc (Suc v))" unfolding sh by blast
    have "(LEAST k. ?P k) = Suc (LEAST k. ?P (Suc k))"
      by (rule Least_Suc [of ?P, OF ex]) simp
    also have "(LEAST k. ?P (Suc k)) = (LEAST k. ?Q k)"
    proof -
      have "?P (Suc k) = ?Q k" for k
        using False unfolding sh by (cases k) simp_all
      then show ?thesis by (simp only:)
    qed
    finally show ?thesis using 1 False by (subst printed.simps) simp
  qed
qed

lemma c_div_nat: "c_div (int v) 10 = int (v div 10)" "c_mod (int v) 10 = int (v mod 10)"
proof -
  show d: "c_div (int v) 10 = int (v div 10)" by (simp add: c_div_def sgn_if zdiv_int)
  show "c_mod (int v) 10 = int (v mod 10)"
    unfolding c_mod_def d by (simp add: zdiv_int zmod_int minus_mult_div_eq_mod)
qed

declare ltostr_digits.simps [simp del] reverse_loop.simps [simp del]

lemma ltostr_digits_value:
  assumes "s + length (printed v) \<le> 2 ^ 32"
  shows "\<exists>m'. ltostr_digits m str s (int v) = (m', s + length (printed v))
    \<and> (\<forall>i<length (printed v). m' (str + of_nat (s + i)) = of_nat (printed v ! i + 48))
    \<and> (\<forall>a. (\<forall>i<length (printed v). a \<noteq> str + of_nat (s + i)) \<longrightarrow> m' a = m a)"
  using assms
proof (induction v arbitrary: m s rule: printed.induct)
  case (1 v)
  let ?m = "m(str + of_nat s := of_nat (v mod 10 + 48))"
  have w: "word_of_int (c_mod (int v) 10 + 48) = (of_nat (v mod 10 + 48) :: uint8)"
    by (simp add: c_div_nat)
  have step: "ltostr_digits m str s (int v) =
    (if v div 10 mod 10 \<noteq> 0 then ltostr_digits ?m str (s + 1) (int (v div 10)) else (?m, s + 1))"
    by (subst ltostr_digits.simps) (simp only: Let_def w, simp add: c_div_nat)
  show ?case
  proof (cases "v div 10 mod 10 = 0")
    case True
    then have "printed v = [v mod 10]" by (subst printed.simps) simp
    then show ?thesis using True by (intro exI [of _ ?m]) (simp add: step fun_upd_def)
  next
    case False
    then have p: "printed v = (v mod 10) # printed (v div 10)" by (subst printed.simps) simp
    let ?L = "length (printed (v div 10))"
    have "s + 1 + ?L \<le> 2 ^ 32" using 1(2) p by simp
    from 1(1) [OF False this, of ?m] obtain m' where m': "ltostr_digits ?m str (s + 1) (int (v div 10)) = (m', s + 1 + ?L)"
      "\<And>i. i < ?L \<Longrightarrow> m' (str + of_nat (s + 1 + i)) = of_nat (printed (v div 10) ! i + 48)"
      "\<And>a. (\<forall>i<?L. a \<noteq> str + of_nat (s + 1 + i)) \<Longrightarrow> m' a = ?m a"
      by blast
    have "str + of_nat s \<noteq> str + of_nat (s + 1 + i)" if "i < ?L" for i
      using addr_inj[of s "s + 1 + i" str] that 1(2) p by auto
    then have s0: "m' (str + of_nat s) = of_nat (v mod 10 + 48)" using m'(3) by simp
    have a1: "m' (str + of_nat (s + i)) = of_nat (printed v ! i + 48)" if "i < length (printed v)" for i
      using s0 m'(2)[of "i - 1"] that p by (cases i) simp_all
    have a2: "m' a = m a" if h: "\<forall>i<length (printed v). a \<noteq> str + of_nat (s + i)" for a
    proof -
      have "a \<noteq> str + of_nat s" using h [rule_format, of 0] by simp
      moreover have "a \<noteq> str + of_nat (s + 1 + i)" if "i < ?L" for i
        using h [rule_format, of "Suc i"] that p by simp
      ultimately show ?thesis using m'(3) by simp
    qed
    show ?thesis using m'(1) a1 a2 False p by (intro exI [of _ m']) (simp add: step)
  qed
qed
lemma reverse_loop_value:
  assumes "0 \<le> a" and "b < 2 ^ 32"
  shows "(\<forall>i. a \<le> i \<and> i \<le> b \<longrightarrow> reverse_loop m str a b (str + of_int i) = m (str + of_int (a + b - i)))
    \<and> (\<forall>p. (\<forall>i. a \<le> i \<and> i \<le> b \<longrightarrow> p \<noteq> str + of_int i) \<longrightarrow> reverse_loop m str a b p = m p)"
  using assms
proof (induction m str a b rule: reverse_loop.induct)
  case (1 m str a b)
  have inj: "str + of_int i = str + of_int j \<longleftrightarrow> i = j" if "0 \<le> i" "i \<le> b" "0 \<le> j" "j \<le> b" for i j
    using addr_inj[of "nat i" "nat j" str] that 1(3) by (auto simp: nat_less_iff)
  show ?case
  proof (cases "a < b")
    case False
    then have "a + b - i = i" if "a \<le> i" "i \<le> b" for i using that by simp
    moreover have "reverse_loop m str a b = m" using False by (simp add: reverse_loop.simps)
    ultimately show ?thesis by metis
  next
    case True
    let ?m = "m(str + of_int a := m (str + of_int b), str + of_int b := m (str + of_int a))"
    have r: "reverse_loop m str a b = reverse_loop ?m str (a + 1) (b - 1)"
      using True by (simp add: reverse_loop.simps [of m str a b] Let_def)
    have prem: "0 \<le> a + 1" "b - 1 < 2 ^ 32" using 1(2,3) by simp_all
    note raw = 1(1) [OF True refl refl refl prem]
    have IH: "\<And>i. a + 1 \<le> i \<Longrightarrow> i \<le> b - 1 \<Longrightarrow> reverse_loop ?m str (a + 1) (b - 1) (str + of_int i)
          = ?m (str + of_int (a + 1 + (b - 1) - i))"
      "\<And>p. (\<forall>i. a + 1 \<le> i \<and> i \<le> b - 1 \<longrightarrow> p \<noteq> str + of_int i) \<Longrightarrow> reverse_loop ?m str (a + 1) (b - 1) p = ?m p"
      using raw by blast+
    have "reverse_loop m str a b (str + of_int i) = m (str + of_int (a + b - i))" if i: "a \<le> i" "i \<le> b" for i
    proof (cases "i = a \<or> i = b")
      case True
      have "\<forall>k. a + 1 \<le> k \<and> k \<le> b - 1 \<longrightarrow> str + of_int i \<noteq> str + of_int k"
        using True i inj[of i] 1(2) by auto
      then have "reverse_loop m str a b (str + of_int i) = ?m (str + of_int i)" unfolding r by (rule IH(2))
      then show ?thesis using True inj[of a b] 1(2) \<open>a < b\<close> by auto
    next
      case False
      then have k: "a + 1 \<le> i" "i \<le> b - 1" using i by simp_all
      have e: "a + 1 + (b - 1) - i = a + b - i" by simp
      have "reverse_loop m str a b (str + of_int i) = ?m (str + of_int (a + b - i))"
        unfolding r using IH(1)[OF k] unfolding e .
      then show ?thesis using inj[of "a + b - i" a] inj[of "a + b - i" b] 1(2) k by simp
    qed
    moreover have "reverse_loop m str a b p = m p" if p: "\<forall>i. a \<le> i \<and> i \<le> b \<longrightarrow> p \<noteq> str + of_int i" for p
    proof -
      have "reverse_loop m str a b p = ?m p" unfolding r by (rule IH(2)) (use p in auto)
      then show ?thesis using p True by simp
    qed
    ultimately show ?thesis by blast
  qed
qed

lemma strtol_digits_value:
  assumes "cstr m s (map (\<lambda>d. of_nat (d + 48)) ds)" and "\<forall>d \<in> set ds. d < 10"
    and "0 \<le> val" and "val * 10 ^ length ds + int (digits_value (rev ds)) < 2 ^ 31"
  shows "strtol_digits m 10 s val = Some (val * 10 ^ length ds + int (digits_value (rev ds)), s + of_nat (length ds))"
  using assms
proof (induction ds arbitrary: s val)
  case Nil
  then show ?case by (subst strtol_digits.simps) (simp add: digit_of_def)
next
  case (Cons d ds)
  have dv: "digits_value (xs @ [d]) = digits_value xs + 10 ^ length xs * d" for xs
    by (induction xs) (simp_all add: algebra_simps)
  have d: "d < 10" using Cons.prems(2) by simp
  then have "d \<in> {0, 1, 2, 3, 4, 5, 6, 7, 8, 9}" by auto
  then have dig: "digit_of (of_nat (d + 48)) = Some (int d)" by (auto simp: digit_of_def)
  have val: "(val * 10 + int d) * 10 ^ length ds + int (digits_value (rev ds))
      = val * 10 ^ length (d # ds) + int (digits_value (rev (d # ds)))"
    by (simp add: dv algebra_simps)
  have pos: "0 \<le> val * 10 + int d" using Cons.prems(3) by simp
  have "(val * 10 + int d) * 1 \<le> (val * 10 + int d) * 10 ^ length ds"
    using pos by (intro mult_left_mono) simp_all
  then have w: "wrap32 (val * 10 + int d) = val * 10 + int d"
    using pos Cons.prems(4) unfolding val [symmetric] by (intro wrap32_id) simp_all
  have "m s = of_nat (d + 48)" "cstr m (s + 1) (map (\<lambda>d. of_nat (d + 48)) ds)"
    using Cons.prems(1) by simp_all
  then have "strtol_digits m 10 s val = strtol_digits m 10 (s + 1) (val * 10 + int d)"
    using dig d w by (subst strtol_digits.simps) simp
  also have "\<dots> = Some ((val * 10 + int d) * 10 ^ length ds + int (digits_value (rev ds)), s + 1 + of_nat (length ds))"
    using Cons.prems pos val by (intro Cons.IH) simp_all
  finally show ?case using val by (simp add: add.assoc)
qed
lemma printed_length_le: "length (printed v) \<le> Suc v"
proof (induction v rule: printed.induct)
  case (1 v)
  show ?case
  proof (cases "v div 10 mod 10 = 0")
    case True
    then show ?thesis by (subst printed.simps) simp
  next
    case False
    then have "v div 10 < v" by (cases "v = 0") auto
    then show ?thesis using 1 False by (subst printed.simps) simp
  qed
qed

lemma digit_char: "d < 10 \<Longrightarrow> of_nat (d + 48) \<notin> {0, 9, 32, 43, 45 :: uint8}"
proof -
  assume "d < 10"
  then have "d \<in> {0, 1, 2, 3, 4, 5, 6, 7, 8, 9}" by auto
  then show ?thesis by auto
qed

lemma ltostr_value:
  assumes "- (2 ^ 31) < v" and "v < 2 ^ 31" and n: "n = (if v < 0 then 1 else 0)"
  shows "cstr (ltostr m v str) (str + of_nat n) (map (\<lambda>d. of_nat (d + 48)) (rev (printed (nat \<bar>v\<bar>))))"
    and "v < 0 \<Longrightarrow> ltostr m v str str = 45"
proof -
  let ?a = "nat \<bar>v\<bar>" let ?D = "printed ?a" let ?L = "length ?D"
  let ?m = "if v < 0 then m(str := 45) else m"
  have len: "n + ?L < 2 ^ 32" "n \<le> 1" using printed_length_le[of ?a] assms by auto
  have abs: "(if v < 0 then wrap32 (v * -1) else v) = int ?a"
    using assms(1,2) by (simp add: wrap32_id)
  obtain m2 where m2: "ltostr_digits ?m str n (int ?a) = (m2, n + ?L)"
    "\<And>i. i < ?L \<Longrightarrow> m2 (str + of_nat (n + i)) = of_nat (?D ! i + 48)"
    "\<And>a. (\<forall>i<?L. a \<noteq> str + of_nat (n + i)) \<Longrightarrow> m2 a = ?m a"
    using ltostr_digits_value[of n ?a ?m str] len by auto
  define m3 where "m3 = reverse_loop m2 str (int n) (int (n + ?L) - 1)"
  have m3: "\<And>i. int n \<le> i \<Longrightarrow> i \<le> int (n + ?L) - 1 \<Longrightarrow>
      m3 (str + of_int i) = m2 (str + of_int (int n + (int (n + ?L) - 1) - i))"
    "\<And>p. (\<forall>i. int n \<le> i \<and> i \<le> int (n + ?L) - 1 \<longrightarrow> p \<noteq> str + of_int i) \<Longrightarrow> m3 p = m2 p"
    using reverse_loop_value[of "int n" "int (n + ?L) - 1" m2 str] len unfolding m3_def by auto
  have res: "ltostr m v str = m3(str + of_nat (n + ?L) := 0)"
  proof -
    have i: "(if v < 0 then 1 else 0) = n" "(if v < 0 then 1 else 0) = int n" using n by simp_all
    show ?thesis unfolding ltostr_def Let_def abs i m2(1) m3_def prod.case ..
  qed
  have dig: "ltostr m v str (str + of_nat (n + i)) = of_nat (rev ?D ! i + 48)" if i: "i < ?L" for i
  proof -
    have "str + of_nat (n + i) \<noteq> str + of_nat (n + ?L)"
      using addr_inj[of "n + i" "n + ?L" str] len i by auto
    then have "ltostr m v str (str + of_nat (n + i)) = m3 (str + of_int (int (n + i)))"
      unfolding res by simp
    also have "\<dots> = m2 (str + of_int (int n + (int (n + ?L) - 1) - int (n + i)))"
      using i by (intro m3(1)) simp_all
    also have "int n + (int (n + ?L) - 1) - int (n + i) = int (n + (?L - Suc i))" using i by simp
    also have "m2 (str + of_int (int (n + (?L - Suc i)))) = of_nat (?D ! (?L - Suc i) + 48)"
      using m2(2)[of "?L - Suc i"] i by simp
    finally show ?thesis using i by (simp add: rev_nth)
  qed
  have dlt: "rev ?D ! i < 10" if "i < ?L" for i
    using printed_digit[of "rev ?D ! i" ?a] that by (metis length_rev nth_mem set_rev)
  show "cstr (ltostr m v str) (str + of_nat n) (map (\<lambda>d. of_nat (d + 48)) (rev ?D))"
    unfolding cstr_iff
  proof (intro conjI allI impI)
    fix i assume "i < length (map (\<lambda>d. of_nat (d + 48) :: uint8) (rev ?D))"
    then have i: "i < ?L" by simp
    show "ltostr m v str (str + of_nat n + of_nat i) = map (\<lambda>d. of_nat (d + 48)) (rev ?D) ! i"
      using dig[OF i] i by (simp add: add.assoc)
    show "map (\<lambda>d. of_nat (d + 48)) (rev ?D) ! i \<noteq> (0 :: uint8)"
      using digit_char[OF dlt[OF i]] i by simp
  next
    show "ltostr m v str (str + of_nat n + of_nat (length (map (\<lambda>d. of_nat (d + 48) :: uint8) (rev ?D)))) = 0"
      unfolding res by (simp add: add.assoc)
  qed
  show "ltostr m v str str = 45" if "v < 0"
  proof -
    have one: "n = 1" using n that by simp
    have ne: "str \<noteq> str + of_nat k" if "0 < k" "k \<le> n + ?L" for k
      using addr_inj[of 0 k str] that len by auto
    have "str \<noteq> str + of_int i" if "int n \<le> i" "i \<le> int (n + ?L) - 1" for i
      using ne[of "nat i"] that one by simp
    then have "m3 str = m2 str" by (intro m3(2)) blast
    also have "m2 str = ?m str"
    proof (rule m2(3), intro allI impI)
      fix i assume "i < ?L"
      then show "str \<noteq> str + of_nat (n + i)" using one by (intro ne) simp_all
    qed
    also have "?m str = 45" using that by simp
    finally show ?thesis unfolding res using ne[of "n + ?L"] by simp
  qed
qed

text \<open>For every number but the smallest, reading back what \<open>ltostr\<close> printed gives the number cut
  off above its lowest zero digit other than the last one: \<open>k\<close> is the least positive position with
  digit zero. So the round trip is exact for \<open>120\<close> and loses the leading digits of \<open>105\<close>.\<close>

theorem ltostr_strtol:
  assumes "- (2 ^ 31) < v" and "v < 2 ^ 31"
    and "k = (LEAST k. 0 < k \<and> nat \<bar>v\<bar> div 10 ^ k mod 10 = 0)"
  shows "strtol (ltostr m v str) str 10
    = Some (sgn v * int (nat \<bar>v\<bar> mod 10 ^ k), str + of_nat (k + (if v < 0 then 1 else 0)))"
proof -
  let ?a = "nat \<bar>v\<bar>" let ?m = "ltostr m v str"
  define n :: nat where "n = (if v < 0 then 1 else 0)"
  have k: "k = length (printed ?a)" using assms(3) printed_length by simp
  have val: "digits_value (printed ?a) = ?a mod 10 ^ k" by (simp add: k printed_value)
  have c: "cstr ?m (str + of_nat n) (map (\<lambda>d. of_nat (d + 48)) (rev (printed ?a)))"
    using ltostr_value(1)[OF assms(1,2) n_def] .
  obtain d ds where ds: "rev (printed ?a) = d # ds" by (metis neq_Nil_conv printed_nonempty(1) rev_is_Nil_conv)
  have "d < 10" using printed_digit[of d ?a] ds by (metis list.set_intros(1) set_rev)
  then have d: "?m (str + of_nat n) \<notin> {0, 9, 32, 43, 45}" using c digit_char[of d] unfolding ds by simp
  have lt: "?a mod 10 ^ k \<le> ?a" by simp
  moreover have "?a < 2 ^ 31" using assms(1,2) by simp
  ultimately have b: "?a mod 10 ^ k < 2 ^ 31" by (rule le_less_trans)
  have digits: "strtol_digits ?m 10 (str + of_nat n) 0 = Some (int (?a mod 10 ^ k), str + of_nat n + of_nat k)"
    using strtol_digits_value[OF c, of 0] printed_digit[of _ ?a] val b unfolding k by auto
  show ?thesis
  proof (cases "v < 0")
    case True
    then have "?m str = 45" using ltostr_value(2)[OF assms(1,2) n_def] by simp
    moreover have "skip_space ?m str = Some str" using \<open>?m str = 45\<close> by (subst skip_space.simps) simp
    moreover have "wrap32 (- int (?a mod 10 ^ k)) = - int (?a mod 10 ^ k)"
      using b by (intro wrap32_id) simp_all
    ultimately show ?thesis using digits True
      by (simp add: strtol_def n_def add.assoc add.commute)
  next
    case False
    have "skip_space ?m str = Some str" using d False by (subst skip_space.simps) (simp add: n_def)
    then show ?thesis using digits False d
      by (cases "v = 0") (simp_all add: strtol_def n_def)
  qed
qed

theorem ltostr_strtol_witness:
  "strtol (ltostr sample 105 100) 100 10 = Some (5, 101)
   \<and> strtol (ltostr sample (-120) 100) 100 10 = Some (-120, 104)"
proof -
  have 1: "(LEAST k. 0 < k \<and> nat \<bar>105\<bar> div 10 ^ k mod 10 = 0) = (1::nat)"
    by (rule Least_equality) auto
  have 2: "(LEAST k. 0 < k \<and> nat \<bar>-120\<bar> div 10 ^ k mod 10 = 0) = (3::nat)"
  proof (rule Least_equality)
    fix y :: nat assume y: "0 < y \<and> nat \<bar>-120\<bar> div 10 ^ y mod 10 = 0"
    show "3 \<le> y"
    proof (rule ccontr)
      assume "\<not> 3 \<le> y"
      then have "y \<in> {1, 2}" using y by auto
      then show False using y by auto
    qed
  qed simp
  show ?thesis
    using ltostr_strtol[of 105 1 sample 100] ltostr_strtol[of "-120" 3 sample 100] unfolding 1 2 by simp
qed
section \<open>Splitting into arguments\<close>

text \<open>The maximal runs of bytes outside \<open>S\<close>.\<close>

function tokens :: "uint8 set \<Rightarrow> uint8 list \<Rightarrow> uint8 list list" where
  "tokens S xs =
     (case dropWhile (\<lambda>c. c \<in> S) xs of
        [] \<Rightarrow> []
      | y # ys \<Rightarrow> takeWhile (\<lambda>c. c \<notin> S) (y # ys) # tokens S (dropWhile (\<lambda>c. c \<notin> S) (y # ys)))"
  by auto

lemma dropWhile_Cons_hd: "dropWhile P xs = y # ys \<Longrightarrow> \<not> P y \<and> length ys < length xs"
  by (induction xs) (auto split: if_splits)

termination tokens
proof (relation "measure (\<lambda>(S, xs). length xs)", simp)
  fix S :: "uint8 set" and xs ys :: "uint8 list" and y :: uint8
  assume "dropWhile (\<lambda>c. c \<in> S) xs = y # ys"
  then have "y \<notin> S" "length ys < length xs" using dropWhile_Cons_hd by fastforce+
  moreover have "length (dropWhile (\<lambda>c. c \<notin> S) ys) \<le> length ys" by (rule length_dropWhile_le)
  ultimately show "((S, dropWhile (\<lambda>c. c \<notin> S) (y # ys)), S, xs) \<in> measure (\<lambda>(S, xs). length xs)"
    by (simp del: length_dropWhile_le)
qed

declare tokens.simps [simp del]

text \<open>The separators \<open>cs\<close> are stored at \<open>q\<close>, away from address 0.\<close>

definition separators :: "memory \<Rightarrow> uint32 \<Rightarrow> uint8 list \<Rightarrow> bool" where
  "separators m q cs \<longleftrightarrow> cstr m q cs \<and> (\<forall>i \<le> length cs. q + of_nat i \<noteq> 0)"

lemma strchr_cstr:
  "cstr m q cs \<Longrightarrow> c \<noteq> 0 \<Longrightarrow> \<forall>i \<le> length cs. q + of_nat i \<noteq> 0 \<Longrightarrow>
    \<exists>p. strchr m q c = Some p \<and> (p \<noteq> 0 \<longleftrightarrow> c \<in> set cs)"
proof (induction cs arbitrary: q)
  case Nil
  then show ?case by (subst strchr.simps) simp
next
  case (Cons x cs)
  have nz: "q \<noteq> 0" "\<forall>i \<le> length cs. q + 1 + of_nat i \<noteq> 0"
  proof -
    show "q \<noteq> 0" using Cons.prems(3) [rule_format, of 0] by simp
    have "q + 1 + of_nat i \<noteq> 0" if "i \<le> length cs" for i
      using Cons.prems(3) [rule_format, of "Suc i"] that by (simp add: add.assoc)
    then show "\<forall>i \<le> length cs. q + 1 + of_nat i \<noteq> 0" by blast
  qed
  show ?case
  proof (cases "x = c")
    case True
    then show ?thesis using Cons.prems nz by (subst strchr.simps) simp
  next
    case False
    then have "strchr m q c = strchr m (q + 1) c" using Cons.prems by (subst strchr.simps) simp
    then show ?thesis using Cons.IH[of "q + 1"] Cons.prems nz False by simp
  qed
qed

lemma separators_strchr:
  "separators m q cs \<Longrightarrow> c \<noteq> 0 \<Longrightarrow> \<exists>p. strchr m q c = Some p \<and> (p \<noteq> 0 \<longleftrightarrow> c \<in> set cs)"
  unfolding separators_def using strchr_cstr by blast

lemma separators_upd:
  "separators m q cs \<Longrightarrow> \<forall>j \<le> length cs. a \<noteq> q + of_nat j \<Longrightarrow> separators (m(a := v)) q cs"
proof -
  assume s: "separators m q cs" and n: "\<forall>j \<le> length cs. a \<noteq> q + of_nat j"
  have "cstr (m(a := v)) q cs"
  proof (rule cstr_cong)
    show "cstr m q cs" using s by (simp add: separators_def)
    show "(m(a := v)) (q + of_nat i) = m (q + of_nat i)" if "i \<le> length cs" for i
      using n [rule_format, OF that] by simp
  qed
  then show ?thesis using s by (simp add: separators_def)
qed

lemma trim_split_value:
  assumes "separators m q cs" and "cstr m p xs"
    and "\<forall>i \<le> length xs. \<forall>j \<le> length cs. p + of_nat i \<noteq> q + of_nat j"
    and "ys = dropWhile (\<lambda>c. c \<in> set cs) xs"
  shows "\<exists>m'. trim_split q m p = Some (m', p + of_nat (length xs - length ys))
    \<and> separators m' q cs \<and> cstr m' (p + of_nat (length xs - length ys)) ys
    \<and> (\<forall>a. (\<forall>i < length xs - length ys. a \<noteq> p + of_nat i) \<longrightarrow> m' a = m a)
    \<and> (ys \<noteq> xs \<or> xs = [] \<longrightarrow> m' p = 0)"
  using assms
proof (induction xs arbitrary: m p)
  case Nil
  then show ?case by (subst trim_split.simps) simp
next
  case (Cons x xs)
  have x: "m p = x" "x \<noteq> 0" using Cons.prems(2) by simp_all
  obtain t where t: "strchr m q x = Some t" "t \<noteq> 0 \<longleftrightarrow> x \<in> set cs"
    using separators_strchr[OF Cons.prems(1) x(2)] by blast
  show ?case
  proof (cases "x \<in> set cs")
    case False
    then show ?thesis using t x Cons.prems by (subst trim_split.simps) simp
  next
    case True
    let ?m = "m(p := 0)"
    let ?ys = "dropWhile (\<lambda>c. c \<in> set cs) xs"
    have ysx: "ys = ?ys" using Cons.prems(4) True by simp
    have len: "length xs < 2 ^ 32 - 1" using cstr_length[OF Cons.prems(2)] by simp
    have le: "length ?ys \<le> length xs" by (rule length_dropWhile_le)
    have np: "p \<noteq> p + 1 + of_nat i" if "i \<le> length xs" for i
    proof -
      have "Suc i < 2 ^ 32" using that len by simp
      then have "p + of_nat 0 \<noteq> p + of_nat (Suc i)" using addr_inj[of 0 "Suc i" p] by force
      then show ?thesis by (simp add: add.assoc)
    qed
    have step: "trim_split q m p = trim_split q ?m (p + 1)"
      using t x True by (subst trim_split.simps) simp
    have s: "separators ?m q cs"
      using Cons.prems(3) [rule_format, of 0] by (intro separators_upd[OF Cons.prems(1)]) simp
    have c: "cstr ?m (p + 1) xs"
    proof (rule cstr_cong)
      show "cstr m (p + 1) xs" using Cons.prems(2) by simp
      show "?m (p + 1 + of_nat i) = m (p + 1 + of_nat i)" if "i \<le> length xs" for i
        using np[OF that] by (metis fun_upd_other)
    qed
    have sep: "\<forall>i \<le> length xs. \<forall>j \<le> length cs. p + 1 + of_nat i \<noteq> q + of_nat j"
    proof (intro allI impI)
      fix i j assume "i \<le> length xs" "j \<le> length cs"
      then show "p + 1 + of_nat i \<noteq> q + of_nat j"
        using Cons.prems(3) [rule_format, of "Suc i" j] by (simp add: add.assoc)
    qed
    obtain m' where m': "trim_split q ?m (p + 1) = Some (m', p + 1 + of_nat (length xs - length ?ys))"
      "separators m' q cs" "cstr m' (p + 1 + of_nat (length xs - length ?ys)) ?ys"
      "\<And>a. (\<forall>i < length xs - length ?ys. a \<noteq> p + 1 + of_nat i) \<Longrightarrow> m' a = ?m a"
      using Cons.IH [OF s c sep ysx, unfolded ysx] by blast
    have e: "p + of_nat (length (x # xs) - length ?ys) = p + 1 + of_nat (length xs - length ?ys)"
      using le by (simp add: Suc_diff_le add.assoc)
    have "m' p = ?m p" by (rule m'(4)) (use np in auto)
    moreover have "m' a = m a" if h: "\<forall>i < length (x # xs) - length ?ys. a \<noteq> p + of_nat i" for a
    proof -
      have "a \<noteq> p" using h [rule_format, of 0] le by simp
      moreover have "a \<noteq> p + 1 + of_nat i" if "i < length xs - length ?ys" for i
        using h [rule_format, of "Suc i"] that by (simp add: add.assoc)
      ultimately show ?thesis using m'(4) by simp
    qed
    ultimately show ?thesis using m'(1-3) step unfolding ysx e by (intro exI [of _ m']) simp
  qed
qed

lemma skip_arg_value:
  assumes "separators m q cs" and "cstr m p xs"
  shows "skip_arg q m p = Some (p + of_nat (length (takeWhile (\<lambda>c. c \<notin> set cs) xs)))"
  using assms(2)
proof (induction xs arbitrary: p)
  case Nil
  then show ?case by (subst skip_arg.simps) simp
next
  case (Cons x xs)
  have x: "m p = x" "x \<noteq> 0" using Cons.prems by simp_all
  obtain t where t: "strchr m q x = Some t" "t \<noteq> 0 \<longleftrightarrow> x \<in> set cs"
    using separators_strchr[OF assms(1) x(2)] by blast
  show ?case
  proof (cases "x \<in> set cs")
    case True
    then show ?thesis using t x by (subst skip_arg.simps) simp
  next
    case False
    then have "skip_arg q m p = skip_arg q m (p + 1)" using t x by (subst skip_arg.simps) simp
    then show ?thesis using Cons False by (simp add: add.assoc)
  qed
qed
lemma tokens_step:
  "dropWhile (\<lambda>c. c \<in> S) xs = [] \<Longrightarrow> tokens S xs = []"
  "dropWhile (\<lambda>c. c \<in> S) xs = y # ys \<Longrightarrow>
    tokens S xs = takeWhile (\<lambda>c. c \<notin> S) (y # ys) # tokens S (dropWhile (\<lambda>c. c \<notin> S) (y # ys))"
  by (subst tokens.simps, simp only: list.case)+

lemma cstr_append: "cstr m p (us @ vs) \<Longrightarrow> cstr m (p + of_nat (length us)) vs"
proof (induction us arbitrary: p)
  case (Cons u us)
  then have "cstr m (p + 1 + of_nat (length us)) vs" by simp
  then show ?case by (simp add: add.assoc)
qed simp

text \<open>What \<open>strsplit_loop\<close> adds to \<open>argv\<close>, and that it terminates the argument before \<open>p\<close>.\<close>

definition split_post ::
  "memory \<Rightarrow> uint32 \<Rightarrow> uint8 set \<Rightarrow> uint8 list \<Rightarrow> uint32 list \<Rightarrow> memory \<times> uint32 list \<times> int \<Rightarrow> bool" where
  "split_post m p S xs argv res =
     (case res of (m', argv', r) \<Rightarrow>
        (\<exists>new. argv' = argv @ new
           \<and> r = (if length (tokens S xs) \<le> 15 - length argv then 1 else 0)
           \<and> length new = min (15 - length argv) (length (tokens S xs))
           \<and> (\<forall>i<length new. cstr m' (new ! i) (tokens S xs ! i)))
        \<and> (\<forall>a. (\<forall>i \<le> length xs. a \<noteq> p + of_nat i) \<longrightarrow> m' a = m a)
        \<and> (xs = [] \<or> hd xs \<in> S \<longrightarrow> m' p = 0))"

lemma argument_word:
  assumes c1: "cstr ma p1 ys" and t0: "mb (p1 + of_nat (length (takeWhile P ys))) = 0"
    and apart: "\<And>i. i < length (takeWhile P ys) \<Longrightarrow> mb (p1 + of_nat i) = ma (p1 + of_nat i)"
  shows "cstr mb p1 (takeWhile P ys)"
  unfolding cstr_iff
proof (intro conjI allI impI)
  fix i assume i: "i < length (takeWhile P ys)"
  then have "i < length ys" using length_takeWhile_le [of P ys] by linarith
  then have "ma (p1 + of_nat i) = ys ! i \<and> ys ! i \<noteq> 0" using c1 unfolding cstr_iff by auto
  moreover have "takeWhile P ys ! i = ys ! i" using i by (rule takeWhile_nth)
  ultimately show "mb (p1 + of_nat i) = takeWhile P ys ! i" "takeWhile P ys ! i \<noteq> 0"
    using apart [OF i] by auto
qed (use t0 in simp)

lemma split_post_Cons:
  assumes res: "split_post m1 p2 S zs (argv @ [p1]) (m', av, r)" and le: "length argv < 15"
    and tok: "tokens S xs = w # tokens S zs"
    and cw: "cstr m' p1 w" and out: "\<forall>a. (\<forall>i \<le> length xs. a \<noteq> p + of_nat i) \<longrightarrow> m' a = m a"
    and z: "xs = [] \<or> hd xs \<in> S \<Longrightarrow> m' p = 0"
  shows "split_post m p S xs argv (m', av, r)"
proof -
  obtain new where new: "av = (argv @ [p1]) @ new"
    "r = (if length (tokens S zs) \<le> 15 - length (argv @ [p1]) then 1 else 0)"
    "length new = min (15 - length (argv @ [p1])) (length (tokens S zs))"
    "\<forall>i<length new. cstr m' (new ! i) (tokens S zs ! i)"
    using res unfolding split_post_def prod.case by blast
  have cs: "\<forall>i<length (p1 # new). cstr m' ((p1 # new) ! i) (tokens S xs ! i)"
    unfolding tok length_Cons All_less_Suc2 nth_Cons_0 nth_Cons_Suc using cw new(4) by blast
  have r: "r = (if length (tokens S xs) \<le> 15 - length argv then 1 else 0)"
    unfolding tok new(2) using le by auto
  have l: "length (p1 # new) = min (15 - length argv) (length (tokens S xs))"
    unfolding tok using new(3) le by simp
  have "av = argv @ p1 # new" using new(1) by simp
  then show ?thesis unfolding split_post_def prod.case using cs r l out z by blast
qed

lemma strsplit_loop_value:
  assumes "separators m q cs" and "cstr m p xs" and "length argv \<le> 15"
    and "\<forall>i \<le> length xs. \<forall>j \<le> length cs. p + of_nat i \<noteq> q + of_nat j"
  shows "\<exists>res. strsplit_loop q m p argv = Some res \<and> split_post m p (set cs) xs argv res"
  using assms
proof (induction "length xs" arbitrary: m p xs argv rule: less_induct)
  case less
  let ?S = "set cs"
  let ?ys = "dropWhile (\<lambda>c. c \<in> ?S) xs"
  let ?k = "length xs - length ?ys"
  obtain m1 where m1: "trim_split q m p = Some (m1, p + of_nat ?k)" "separators m1 q cs"
    "cstr m1 (p + of_nat ?k) ?ys" "\<And>a. (\<forall>i < ?k. a \<noteq> p + of_nat i) \<Longrightarrow> m1 a = m a"
    "?ys \<noteq> xs \<or> xs = [] \<Longrightarrow> m1 p = 0"
    using trim_split_value[OF less.prems(1,2,4) refl] by blast
  have len: "length xs < 2 ^ 32" using cstr_length[OF less.prems(2)] .
  have yle: "length ?ys \<le> length xs" by (rule length_dropWhile_le)
  have out1: "m1 a = m a" if "\<forall>i \<le> length xs. a \<noteq> p + of_nat i" for a
    using that by (intro m1(4)) auto
  have z: "m1 p = 0" if "xs = [] \<or> hd xs \<in> ?S"
    using m1(5) that by (cases xs) (auto dest: dropWhile_Cons_hd)
  show ?case
  proof (cases ?ys)
    case Nil
    have "strsplit_loop q m p argv = Some (m1, argv, 1)"
      using m1(1,3) Nil by (subst strsplit_loop.simps) simp
    then show ?thesis using out1 z Nil by (simp add: split_post_def tokens_step)
  next
    case (Cons y ys)
    let ?p1 = "p + of_nat ?k"
    let ?w = "takeWhile (\<lambda>c. c \<notin> ?S) ?ys" let ?zs = "dropWhile (\<lambda>c. c \<notin> ?S) ?ys"
    have y: "y \<notin> ?S" using dropWhile_Cons_hd[OF Cons] by blast
    have nz: "m1 ?p1 \<noteq> 0" using m1(3) Cons by simp
    have tok: "tokens ?S xs = ?w # tokens ?S ?zs" using tokens_step(2)[OF Cons] Cons by simp
    show ?thesis
    proof (cases "length argv = 15")
      case True
      have "strsplit_loop q m p argv = Some (m1, argv, 0)"
        using m1(1) nz True by (subst strsplit_loop.simps) (simp add: MAX_ARGUMENTS_def)
      then show ?thesis using out1 z True tok by (simp add: split_post_def)
    next
      case False
      let ?p2 = "?p1 + of_nat (length ?w)"
      have sk: "skip_arg q m1 ?p1 = Some ?p2" using skip_arg_value[OF m1(2,3)] .
      have wlen: "length ?w + length ?zs = length ?ys" by (metis length_append takeWhile_dropWhile_id)
      have wpos: "0 < length ?w" using y Cons by simp
      have c2: "cstr m1 ?p2 ?zs" by (rule cstr_append) (use m1(3) in simp)
      have shift: "?p2 + of_nat i = p + of_nat (?k + length ?w + i)" for i by (simp add: add.assoc)
      have bound: "?k + length ?w + i \<le> length xs" if "i \<le> length ?zs" for i
        using that wlen yle by linarith
      have sep: "\<forall>i \<le> length ?zs. \<forall>j \<le> length cs. ?p2 + of_nat i \<noteq> q + of_nat j"
        unfolding shift using less.prems(4) bound by blast
      have "length ?zs < length xs" using wlen wpos yle by linarith
      moreover have "length (argv @ [?p1]) \<le> 15" using False less.prems(3) by simp
      ultimately obtain res where res: "strsplit_loop q m1 ?p2 (argv @ [?p1]) = Some res"
        "split_post m1 ?p2 ?S ?zs (argv @ [?p1]) res"
        using less.hyps [OF _ m1(2) c2 _ sep, of "argv @ [?p1]"] by blast
      obtain m' av r where res_eq: "res = (m', av, r)" by (cases res)
      have rest: "\<And>a. (\<forall>i \<le> length ?zs. a \<noteq> ?p2 + of_nat i) \<Longrightarrow> m' a = m1 a"
        "?zs = [] \<or> hd ?zs \<in> ?S \<Longrightarrow> m' ?p2 = 0"
        using res(2) unfolding split_post_def res_eq prod.case by blast+
      have run: "strsplit_loop q m p argv = Some res"
        using m1(1) nz False sk res(1) by (subst strsplit_loop.simps) (simp add: MAX_ARGUMENTS_def)
      have apart: "m' (p + of_nat j) = m1 (p + of_nat j)" if "j < ?k + length ?w" for j
      proof (rule rest(1), unfold shift, intro allI impI)
        fix i assume "i \<le> length ?zs"
        then show "p + of_nat j \<noteq> p + of_nat (?k + length ?w + i)"
          using addr_inj[of j "?k + length ?w + i" p] bound[of i] that len by auto
      qed
      have t0: "m' ?p2 = 0"
        using rest(2) hd_dropWhile[of "\<lambda>c. c \<notin> ?S" ?ys] by blast
      have cw: "cstr m' ?p1 ?w"
      proof (rule argument_word [where mb = m', OF m1(3) t0])
        fix i assume "i < length ?w"
        then show "m' (?p1 + of_nat i) = m1 (?p1 + of_nat i)"
          using apart [of "?k + i"] by (simp add: add.assoc)
      qed
      have out: "m' a = m a" if h: "\<forall>i \<le> length xs. a \<noteq> p + of_nat i" for a
      proof -
        have "m' a = m1 a" by (rule rest(1)) (unfold shift, use h bound in blast)
        then show ?thesis using out1 h by simp
      qed
      have z': "m' p = 0" if "xs = [] \<or> hd xs \<in> ?S"
        using apart[of 0] z[OF that] wpos by simp
      have "split_post m p ?S xs argv res"
        using split_post_Cons [OF res(2) [unfolded res_eq] _ tok cw _ z'] out False less.prems(3) by (simp add: res_eq)
      then show ?thesis using run by blast
    qed
  qed
qed
text \<open>C25: \<open>strsplit\<close> on a stored string always returns. Its arguments are the maximal runs of
  non-separator bytes in order, each terminated in place, at most 15 of them, and the result is 1
  exactly when no run was left over.\<close>

theorem strsplit_correct:
  assumes "separators m q cs" and "cstr m p xs"
    and "\<forall>i \<le> length xs. \<forall>j \<le> length cs. p + of_nat i \<noteq> q + of_nat j"
  shows "\<exists>m' argv. strsplit m p q = Some (m', argv, if length (tokens (set cs) xs) \<le> 15 then 1 else 0)
    \<and> length argv = min 15 (length (tokens (set cs) xs))
    \<and> (\<forall>i<length argv. cstr m' (argv ! i) (tokens (set cs) xs ! i))"
proof -
  obtain res where r: "strsplit_loop q m p [] = Some res" "split_post m p (set cs) xs [] res"
    using strsplit_loop_value[OF assms(1,2) _ assms(3), of "[]"] by auto
  obtain m' av k where res: "res = (m', av, k)" by (cases res)
  show ?thesis
    using r unfolding res split_post_def strsplit_def by auto
qed

definition cmd_line :: memory where
  "cmd_line = (\<lambda>_. 0)(100 := 32, 101 := 97, 102 := 98, 103 := 32, 104 := 99, 200 := 32)"

theorem strsplit_correct_witness:
  "\<exists>m' a b. strsplit cmd_line 100 200 = Some (m', [a, b], 1) \<and> cstr m' a [97, 98] \<and> cstr m' b [99]"
proof -
  have sep: "separators cmd_line 200 [32]"
    by (simp add: separators_def cmd_line_def le_Suc_eq all_conj_distrib)
  have str: "cstr cmd_line 100 [32, 97, 98, 32, 99]" by (simp add: cmd_line_def)
  have tok: "tokens (set [32]) [32, 97, 98, 32, 99 :: uint8] = [[97, 98], [99]]"
    by (simp add: tokens.simps)
  have dis: "\<forall>i \<le> length [32, 97, 98, 32, 99 :: uint8]. \<forall>j \<le> length [32 :: uint8].
      (100 :: uint32) + of_nat i \<noteq> 200 + of_nat j"
  proof (intro allI impI)
    fix i j assume "i \<le> length [32, 97, 98, 32, 99 :: uint8]" "j \<le> length [32 :: uint8]"
    then have "i \<in> {0, 1, 2, 3, 4, 5}" "j \<in> {0, 1}" by auto
    then show "(100 :: uint32) + of_nat i \<noteq> 200 + of_nat j" by auto
  qed
  obtain m' argv where w: "strsplit cmd_line 100 200 = Some (m', argv, 1)" "length argv = 2"
    "\<forall>i<length argv. cstr m' (argv ! i) ([[97, 98], [99]] ! i)"
    using strsplit_correct[OF sep str dis] unfolding tok by auto
  obtain a b where ab: "argv = [a, b]" using w(2) by (auto simp: numeral_2_eq_2 length_Suc_conv)
  have "cstr m' a [97, 98]" using w(3) [rule_format, of 0] ab by simp
  moreover have "cstr m' b [99]" using w(3) [rule_format, of 1] ab by simp
  ultimately show ?thesis using w(1) ab by blast
qed

end
