(* ===== verification/Printfmt.thy ===== *)
theory Printfmt
  imports C_String Kernel_State
begin

text \<open>
  Formatted output (\<^verbatim>\<open>lib/printfmt.c\<close>, \<^verbatim>\<open>lib/printf.c\<close>, \<^verbatim>\<open>kern/printf.c\<close>). The result of \<open>vprintfmt\<close> is
  the sequence of characters it passes to \<open>putch\<close>; \<open>snprintf\<close> and the two \<open>cprintf\<close> feed that
  sequence to their own \<open>putch\<close>. The format is the list of its bytes; \<open>ap\<close> is the address of the next
  argument on the stack, of which every conversion reads one or two words. A string argument without
  terminator is \<open>OutOfFuel\<close>. A buffer that overlaps the format or the arguments is not modelled.
\<close>

section \<open>Numbers\<close>

definition hex_digit :: "nat \<Rightarrow> int" where
  "hex_digit d = (if d < 10 then 48 + int d else 87 + int d)"

text \<open>The callers pass base 10 or 16; with a base of 0 or 1 the C code would not end.\<close>

function printnum :: "nat \<Rightarrow> nat \<Rightarrow> int \<Rightarrow> int \<Rightarrow> int list" where
  "printnum num base width padc =
     (if base \<le> num \<and> 1 < base then printnum (num div base) base (wrap32 (width - 1)) padc
      else replicate (nat (wrap32 (width - 1))) padc) @ [hex_digit (num mod base)]"
  by auto
termination by (relation "measure (\<lambda>(num, _). num)") auto

declare printnum.simps [simp del]

definition mem32 :: "memory \<Rightarrow> uint32 \<Rightarrow> uint32" where
  "mem32 m a = word_of_bytes (m a) (m (a + 1)) (m (a + 2)) (m (a + 3))"

definition getuint :: "memory \<Rightarrow> uint32 \<Rightarrow> nat \<Rightarrow> nat \<times> uint32" where
  "getuint m ap lflag =
     (if 2 \<le> lflag then (unat (mem32 m ap) + 2 ^ 32 * unat (mem32 m (ap + 4)), ap + 8)
      else (unat (mem32 m ap), ap + 4))"

definition getint :: "memory \<Rightarrow> uint32 \<Rightarrow> nat \<Rightarrow> int \<times> uint32" where
  "getint m ap lflag =
     (if 2 \<le> lflag then (uint (mem32 m ap) + 2 ^ 32 * sint (mem32 m (ap + 4)), ap + 8)
      else (sint (mem32 m ap), ap + 4))"

section \<open>Conversions\<close>

record fmt_flags =
  f_padc :: int
  f_width :: int
  f_prec :: int
  f_lflag :: nat
  f_alt :: bool

definition no_flags :: fmt_flags where
  "no_flags = \<lparr>f_padc = 32, f_width = -1, f_prec = -1, f_lflag = 0, f_alt = False\<rparr>"

definition MAXERROR :: int where "MAXERROR = 100"

definition text_of :: "string \<Rightarrow> int list" where
  "text_of s = map (\<lambda>c. int (of_char c)) s"

definition error_string :: "(string option) list" where
  "error_string = [None, Some ''unspecified error'', Some ''bad environment'', Some ''invalid parameter'',
     Some ''out of memory'', Some ''out of environments'', Some ''segmentation fault''] @ replicate 94 None"

definition conv_e :: "int \<Rightarrow> halt + int list" where
  "conv_e err =
     (let err = (if err < 0 then wrap32 (- err) else err) in
      if err > MAXERROR then Inr (text_of ''error '' @ printnum (nat err) 10 (-1) 32)
      else if err < 0 then Inl OutOfBounds
      else case error_string ! nat err of
             None \<Rightarrow> Inr (text_of ''error '' @ printnum (nat err) 10 (-1) 32)
           | Some t \<Rightarrow> Inr (text_of t))"

text \<open>The bytes at \<open>p\<close> before the terminator, at most \<open>n\<close> of them.\<close>

fun bytes_at :: "memory \<Rightarrow> uint32 \<Rightarrow> nat \<Rightarrow> uint8 list" where
  "bytes_at m p 0 = []"
| "bytes_at m p (Suc n) = (if m p = 0 then [] else m p # bytes_at m (p + 1) n)"

text \<open>What a string conversion prints and the length its padding is computed from. A character of the
  string is signed, so a byte from 128 on is negative.\<close>

definition string_arg :: "memory \<Rightarrow> uint32 \<Rightarrow> int \<Rightarrow> halt + int list \<times> int" where
  "string_arg m p precision =
     (if p = 0 then
        (let t = text_of ''(null)''; t = (if precision < 0 then t else take (nat precision) t)
         in Inr (t, int (length t)))
      else if precision < 0 then
        (let bs = bytes_at m p (2 ^ 32) in
         if length bs = 2 ^ 32 then Inl OutOfFuel
         else Inr (map sint bs, strnlen m p (of_int precision)))
      else Inr (map sint (bytes_at m p (nat precision)), strnlen m p (of_int precision)))"

definition conv_s :: "memory \<Rightarrow> uint32 \<Rightarrow> fmt_flags \<Rightarrow> halt + int list" where
  "conv_s m p f =
     bindE (string_arg m p (f_prec f)) (\<lambda>(cs, len).
     let width = f_width f;
         pad = (width > 0 \<and> f_padc f \<noteq> 45);
         width = (if pad then wrap32 (width - len) else width);
         left = (if pad then replicate (nat width) (f_padc f) else []);
         width = (if pad then min width 0 else width);
         shown = map (\<lambda>ch. if f_alt f \<and> (ch < 32 \<or> ch > 126) then 63 else ch) cs;
         width = wrap32 (width - int (length cs))
     in Inr (left @ shown @ replicate (nat width) 32))"

definition conv_d :: "memory \<Rightarrow> uint32 \<Rightarrow> fmt_flags \<Rightarrow> int list \<times> uint32" where
  "conv_d m ap f =
     (let (num, ap) = getint m ap (f_lflag f)
      in ((if num < 0 then [45] else []) @ printnum (nat \<bar>num\<bar>) 10 (f_width f) (f_padc f), ap))"

definition conv_u :: "nat \<Rightarrow> memory \<Rightarrow> uint32 \<Rightarrow> fmt_flags \<Rightarrow> int list \<times> uint32" where
  "conv_u base m ap f =
     (let (num, ap) = getuint m ap (f_lflag f) in (printnum num base (f_width f) (f_padc f), ap))"

definition process_precision :: "int \<Rightarrow> fmt_flags \<Rightarrow> fmt_flags" where
  "process_precision p f =
     (if f_width f < 0 then f\<lparr>f_width := p, f_prec := -1\<rparr> else f\<lparr>f_prec := p\<rparr>)"

definition is_digit :: "uint8 \<Rightarrow> bool" where
  "is_digit ch \<longleftrightarrow> 48 \<le> ch \<and> ch \<le> 57"

fun width_digits :: "int \<Rightarrow> uint8 list \<Rightarrow> int \<times> uint8 list" where
  "width_digits p [] = (p, [])"
| "width_digits p (ch # cs) =
     (if is_digit ch then width_digits (wrap32 (p * 10 + uint ch - 48)) cs else (p, ch # cs))"

lemma width_digits_length: "width_digits p cs = (q, ds) \<Longrightarrow> length ds \<le> length cs"
  by (induction p cs rule: width_digits.induct) (auto split: if_splits)
text \<open>
  The conversion character \<open>ch\<close>: \<open>cs\<close> is what follows it in the format, \<open>saved\<close> what follows the
  percent sign, to which the code goes back after a character it does not know. The result is the
  output, the rest of the format and the next argument.
\<close>

definition convert :: "memory \<Rightarrow> uint8 list \<Rightarrow> uint8 \<Rightarrow> uint8 list \<Rightarrow> fmt_flags \<Rightarrow> uint32 \<Rightarrow>
    halt + int list \<times> uint8 list \<times> uint32" where
  "convert m saved ch cs f ap =
     (if ch = 99 then Inr ([sint (mem32 m ap)], cs, ap + 4)
      else if ch = 101 then bindE (conv_e (sint (mem32 m ap))) (\<lambda>t. Inr (t, cs, ap + 4))
      else if ch = 115 then bindE (conv_s m (mem32 m ap) f) (\<lambda>t. Inr (t, cs, ap + 4))
      else if ch = 100 then (let (t, ap) = conv_d m ap f in Inr (t, cs, ap))
      else if ch = 117 then (let (t, ap) = conv_u 10 m ap f in Inr (t, cs, ap))
      else if ch = 111 then Inr ([88, 88, 88], cs, ap)
      else if ch = 112 then
        Inr ([48, 120] @ printnum (unat (mem32 m ap)) 16 (f_width f) (f_padc f), cs, ap + 4)
      else if ch = 120 then (let (t, ap) = conv_u 16 m ap f in Inr (t, cs, ap))
      else if ch = 37 then Inr ([37], cs, ap)
      else Inr ([37], saved, ap))"

lemma convert_rest: "convert m saved ch cs f ap = Inr (t, rest, ap') \<Longrightarrow> rest = cs \<or> rest = saved"
  by (auto simp: convert_def bindE_eq_Inr split: if_splits prod.splits)

text \<open>The flags before the conversion character, in any order.\<close>

function escape :: "memory \<Rightarrow> uint8 list \<Rightarrow> uint8 list \<Rightarrow> fmt_flags \<Rightarrow> uint32 \<Rightarrow>
    halt + int list \<times> uint8 list \<times> uint32" where
  "escape m saved [] f ap = Inr ([37], saved, ap)"
| "escape m saved (ch # cs) f ap =
     (if ch = 45 then escape m saved cs (f\<lparr>f_padc := 45\<rparr>) ap
      else if ch = 48 then escape m saved cs (f\<lparr>f_padc := 48\<rparr>) ap
      else if is_digit ch then
        escape m saved (snd (width_digits (uint ch - 48) cs))
          (process_precision (fst (width_digits (uint ch - 48) cs)) f) ap
      else if ch = 42 then escape m saved cs (process_precision (sint (mem32 m ap)) f) (ap + 4)
      else if ch = 46 then escape m saved cs (if f_width f < 0 then f\<lparr>f_width := 0\<rparr> else f) ap
      else if ch = 35 then escape m saved cs (f\<lparr>f_alt := True\<rparr>) ap
      else if ch = 108 then escape m saved cs (f\<lparr>f_lflag := f_lflag f + 1\<rparr>) ap
      else convert m saved ch cs f ap)"
  by pat_completeness auto

lemma width_digits_rest: "length (snd (width_digits p cs)) \<le> length cs"
  using width_digits_length [of p cs] by (cases "width_digits p cs") auto

termination escape
  by (relation "measure (\<lambda>(m, saved, fmt, f, ap). length fmt)")
    (simp_all add: width_digits_rest less_Suc_eq_le)

declare escape.simps [simp del]

lemma escape_rest:
  "escape m saved fmt f ap = Inr (t, rest, ap') \<Longrightarrow> length rest \<le> max (length saved) (length fmt)"
proof (induction m saved fmt f ap rule: escape.induct)
  case (1 m saved f ap)
  then show ?case by (simp add: escape.simps)
next
  case (2 m saved ch cs f ap)
  note e = 2(8) [unfolded escape.simps(2)]
  show ?case
  proof (cases "ch = 45 \<or> ch = 48 \<or> is_digit ch \<or> ch = 42 \<or> ch = 46 \<or> ch = 35 \<or> ch = 108")
    case True
    then show ?thesis
      using 2(1-7) e width_digits_rest [of "uint ch - 48" cs] by (auto split: if_splits)
  next
    case False
    then have "convert m saved ch cs f ap = Inr (t, rest, ap')" using e by simp
    then show ?thesis using convert_rest by fastforce
  qed
qed

function vprintfmt :: "memory \<Rightarrow> uint8 list \<Rightarrow> uint32 \<Rightarrow> halt + int list" where
  "vprintfmt m [] ap = Inr []"
| "vprintfmt m (c # cs) ap =
     (if c \<noteq> 37 then bindE (vprintfmt m cs ap) (\<lambda>out. Inr (uint c # out))
      else case escape m cs cs no_flags ap of
             Inl h \<Rightarrow> Inl h
           | Inr (t, rest, ap) \<Rightarrow> bindE (vprintfmt m rest ap) (\<lambda>out. Inr (t @ out)))"
  by pat_completeness auto

termination vprintfmt
  by (relation "measure (\<lambda>(m, fmt, ap). length fmt)") (auto dest!: escape_rest)

section \<open>Destinations\<close>

record sprintbuf =
  sb_buf :: uint32
  sb_ebuf :: uint32
  sb_cnt :: int

definition sprintputch :: "int \<Rightarrow> memory \<times> sprintbuf \<Rightarrow> memory \<times> sprintbuf" where
  "sprintputch ch = (\<lambda>(m, b).
     let b = b\<lparr>sb_cnt := wrap32 (sb_cnt b + 1)\<rparr> in
     if sb_buf b < sb_ebuf b then (m(sb_buf b := of_int ch), b\<lparr>sb_buf := sb_buf b + 1\<rparr>) else (m, b))"

definition vsnprintf :: "memory \<Rightarrow> uint32 \<Rightarrow> int \<Rightarrow> uint8 list \<Rightarrow> uint32 \<Rightarrow> halt + memory \<times> int" where
  "vsnprintf m buf n fmt ap =
     (if buf = 0 \<or> n < 1 then Inr (m, - E_INVAL)
      else bindE (vprintfmt m fmt ap) (\<lambda>out.
        let (m, b) = fold sprintputch out (m, \<lparr>sb_buf = buf, sb_ebuf = buf + of_int n - 1, sb_cnt = 0\<rparr>)
        in Inr (m(sb_buf b := 0), sb_cnt b)))"

text \<open>The user library collects up to 255 characters for one system call; the first component of the
  state lists the strings that were passed to \<open>sys_cputs\<close>.\<close>

record printbuf =
  pb_buf :: "uint8 list"     \<comment> \<open>\<open>buf[0..idx-1]\<close>\<close>
  pb_cnt :: int

definition putch :: "int \<Rightarrow> uint8 list list \<times> printbuf \<Rightarrow> uint8 list list \<times> printbuf" where
  "putch ch = (\<lambda>(calls, b).
     let b = b\<lparr>pb_buf := pb_buf b @ [of_int ch]\<rparr>;
         (calls, b) = (if length (pb_buf b) = 256 - 1 then (calls @ [pb_buf b], b\<lparr>pb_buf := []\<rparr>) else (calls, b))
     in (calls, b\<lparr>pb_cnt := wrap32 (pb_cnt b + 1)\<rparr>))"

definition user_vcprintf :: "memory \<Rightarrow> uint8 list \<Rightarrow> uint32 \<Rightarrow> halt + uint8 list list \<times> int" where
  "user_vcprintf m fmt ap =
     bindE (vprintfmt m fmt ap) (\<lambda>out.
     let (calls, b) = fold putch out ([], \<lparr>pb_buf = [], pb_cnt = 0\<rparr>)
     in Inr (calls @ [pb_buf b], pb_cnt b))"

text \<open>In the kernel \<open>*cnt++\<close> increments the local copy of the pointer, not the count.\<close>

definition kernel_vcprintf :: "memory \<Rightarrow> uint8 list \<Rightarrow> uint32 \<Rightarrow> halt + int list \<times> int" where
  "kernel_vcprintf m fmt ap = bindE (vprintfmt m fmt ap) (\<lambda>out. Inr (out, 0))"
section \<open>Printed numbers\<close>

definition value_of :: "nat \<Rightarrow> nat list \<Rightarrow> nat" where
  "value_of b ds = foldl (\<lambda>v d. v * b + d) 0 ds"

lemma value_of_snoc: "value_of b (ds @ [d]) = value_of b ds * b + d"
  by (simp add: value_of_def)

lemma printnum_digits:
  assumes "1 < b"
  shows "n < b ^ k \<Longrightarrow> - (2 ^ 31) + int k \<le> w \<Longrightarrow> w < 2 ^ 31 \<Longrightarrow> 0 < k \<Longrightarrow>
    \<exists>ds. printnum n b w c = replicate (nat w - length ds) c @ map hex_digit ds \<and> value_of b ds = n
    \<and> (\<forall>d \<in> set ds. d < b) \<and> (ds = [0] \<or> ds \<noteq> [] \<and> hd ds \<noteq> 0)"
proof (induction n arbitrary: w k rule: less_induct)
  case (less n)
  have w: "wrap32 (w - 1) = w - 1" using less.prems(2-4) by (intro wrap32_id) simp_all
  show ?case
  proof (cases "b \<le> n")
    case False
    then have "printnum n b w c = replicate (nat w - length [n]) c @ map hex_digit [n]"
      by (simp add: printnum.simps [of n] nat_diff_distrib' w)
    moreover have "value_of b [n] = n" by (simp add: value_of_def)
    ultimately show ?thesis using False by (intro exI [of _ "[n]"]) auto
  next
    case True
    then have lt: "n div b < n" using assms by (intro div_less_dividend) simp_all
    obtain k' where k: "k = Suc k'" "0 < k'" using less.prems(1,4) True by (cases k; cases "k - 1") auto
    have "n div b < b ^ k'" using less.prems(1) assms unfolding k(1) by (simp add: less_mult_imp_div_less mult.commute)
    then obtain ds where ds: "printnum (n div b) b (w - 1) c = replicate (nat (w - 1) - length ds) c @ map hex_digit ds"
      "value_of b ds = n div b" "\<forall>d \<in> set ds. d < b" "ds = [0] \<or> ds \<noteq> [] \<and> hd ds \<noteq> 0"
      using less.IH [OF lt, of k' "w - 1"] less.prems(2,3) k by auto
    have "n div b \<noteq> 0" using True assms by (simp add: div_greater_zero_iff)
    then have "ds \<noteq> [0]" using ds(2) by (auto simp: value_of_def)
    then have hd: "ds \<noteq> []" "hd (ds @ [n mod b]) \<noteq> 0" using ds(4) by auto
    have "nat (w - 1) - length ds = nat w - length (ds @ [n mod b])" by simp
    then have "printnum n b w c = replicate (nat w - length (ds @ [n mod b])) c @ map hex_digit (ds @ [n mod b])"
      using True assms ds(1) by (simp add: printnum.simps [of n] w)
    moreover have "value_of b (ds @ [n mod b]) = n" by (simp add: value_of_snoc ds(2))
    ultimately show ?thesis using ds(3) hd assms by (intro exI [of _ "ds @ [n mod b]"]) auto
  qed
qed

lemma value_of_lower: "ds \<noteq> [] \<Longrightarrow> hd ds \<noteq> 0 \<Longrightarrow> b ^ (length ds - 1) \<le> value_of b ds"
proof (induction ds rule: rev_induct)
  case Nil
  then show ?case by simp
next
  case (snoc d ds)
  show ?case
  proof (cases "ds = []")
    case True
    then show ?thesis using snoc.prems by (simp add: value_of_def)
  next
    case False
    then have "b ^ (length ds - 1) \<le> value_of b ds" using snoc by simp
    have "b ^ length ds = b * b ^ (length ds - 1)" using False by (cases ds) auto
    also have "\<dots> \<le> b * value_of b ds"
      by (rule mult_le_mono2) fact
    finally show ?thesis by (simp add: value_of_snoc mult.commute)
  qed
qed

text \<open>\<open>printnum\<close> prints the digits of the number in the base, the most significant first and
  without leading zeros, so that they read back as the number, and pads on the left to the width.
  The width is an \<open>int\<close> that is counted down once per digit, so it must not be among the smallest ones.\<close>

theorem printnum_correct:
  assumes "1 < b" and "b \<le> 16" and "n < 2 ^ 64" and "- (2 ^ 31) + 64 \<le> w" and "w < 2 ^ 31"
  shows "\<exists>ds. printnum n b w c = replicate (nat w - length ds) c @ map hex_digit ds \<and> value_of b ds = n
    \<and> set ds \<subseteq> {..<b} \<and> (length ds = 1 \<or> b ^ (length ds - 1) \<le> n)"
proof -
  obtain ds where ds: "printnum n b w c = replicate (nat w - length ds) c @ map hex_digit ds" "value_of b ds = n"
    "\<forall>d \<in> set ds. d < b" "ds = [0] \<or> ds \<noteq> [] \<and> hd ds \<noteq> 0"
    using printnum_digits [OF assms(1), of n 64 w c] assms power_mono [of 2 b 64] by fastforce
  then show ?thesis using value_of_lower [of ds b] by (intro exI [of _ ds]) auto
qed

theorem printnum_correct_witness:
  "\<exists>ds. printnum 48879 16 6 48 = replicate (6 - length ds) 48 @ map hex_digit ds \<and> value_of 16 ds = 48879"
  using printnum_correct [of 16 48879 6 48] by simp blast

section \<open>snprintf\<close>

fun write_bytes :: "memory \<Rightarrow> uint32 \<Rightarrow> uint8 list \<Rightarrow> memory" where
  "write_bytes m p [] = m"
| "write_bytes m p (b # bs) = write_bytes (m(p := b)) (p + 1) bs"

lemma write_bytes_value:
  "length bs \<le> 2 ^ 32 \<Longrightarrow> write_bytes m p bs a = (if unat (a - p) < length bs then bs ! unat (a - p) else m a)"
proof (induction bs arbitrary: m p)
  case Nil
  then show ?case by simp
next
  case (Cons b bs)
  show ?case
  proof (cases "a = p")
    case True
    have "unat (a - (p + 1)) = 2 ^ 32 - 1" by (simp add: True unsigned_minus_1_eq_mask mask_eq_exp_minus_1)
    then have "\<not> unat (a - (p + 1)) < length bs" using Cons.prems by simp
    then show ?thesis using Cons True by simp
  next
    case False
    then have "a - p \<noteq> 0" "unat (a - p) \<noteq> 0" by (simp_all add: unat_eq_zero)
    then have "unat (a - p) = Suc (unat (a - p - 1))" by (simp add: unat_minus_one)
    then show ?thesis using Cons False by (simp add: diff_diff_eq [symmetric])
  qed
qed

lemma fold_sprintputch:
  "unat p \<le> unat e \<Longrightarrow>
   fold sprintputch out (m, \<lparr>sb_buf = p, sb_ebuf = e, sb_cnt = n\<rparr>) =
    (write_bytes m p (take (unat e - unat p) (map of_int out)),
     \<lparr>sb_buf = p + of_nat (min (length out) (unat e - unat p)), sb_ebuf = e, sb_cnt = (if out = [] then n else wrap32 (n + int (length out)))\<rparr>)"
proof (induction out arbitrary: m p n)
  case Nil
  then show ?case by simp
next
  case (Cons ch out)
  show ?case
  proof (cases "p < e")
    case True
    then have s: "unat (p + 1) = Suc (unat p)" "unat p < unat e"
      using unsigned_less [of e, where ?'a = nat] by (auto simp: word_less_nat_alt unat_word_ariths)
    then have d: "unat e - unat p = Suc (unat e - unat (p + 1))" by simp
    show ?thesis using Cons.IH [of "p + 1"] s
      by (simp add: sprintputch_def True d add.assoc wrap32_mod del: unat_1)
  next
    case False
    then have "unat e = unat p" using Cons.prems by (simp add: word_less_nat_alt)
    then show ?thesis using Cons.IH [of p] False by (simp add: sprintputch_def add.assoc wrap32_mod)
  qed
qed

lemma vsnprintf_stores:
  assumes "buf \<noteq> 0" and "0 < n" and "unat buf + n \<le> 2 ^ 32" and "n < 2 ^ 31"
    and "vprintfmt m fmt ap = Inr out" and "k = min (length out) (n - 1)"
  shows "\<exists>m'. vsnprintf m buf (int n) fmt ap = Inr (m', wrap32 (int (length out)))
    \<and> (\<forall>i < k. m' (buf + of_nat i) = of_int (out ! i)) \<and> m' (buf + of_nat k) = 0
    \<and> (\<forall>a. k < unat (a - buf) \<longrightarrow> m' a = m a)"
proof -
  let ?e = "buf + of_int (int n) - 1"
  have e: "unat ?e = unat buf + (n - 1)"
  proof -
    have eq: "?e = buf + of_nat (n - 1)" using assms(2) by (simp add: of_nat_diff)
    show ?thesis unfolding eq using assms(2,3) by (intro unat_addr) simp
  qed
  have k: "min (length out) (unat ?e - unat buf) = k" using e assms(6) by simp
  let ?bs = "take (n - 1) (map of_int out) :: uint8 list"
  have len: "length ?bs = k" "length ?bs \<le> 2 ^ 32" "k < 2 ^ 32" using assms(4,6) by auto
  let ?m = "write_bytes m buf ?bs"
  have "fold sprintputch out (m, \<lparr>sb_buf = buf, sb_ebuf = ?e, sb_cnt = 0\<rparr>) =
      (?m, \<lparr>sb_buf = buf + of_nat k, sb_ebuf = ?e, sb_cnt = wrap32 (int (length out))\<rparr>)"
    using fold_sprintputch [of buf ?e out m 0] e k by (simp add: wrap32_id)
  then have r: "vsnprintf m buf (int n) fmt ap = Inr (?m(buf + of_nat k := 0), wrap32 (int (length out)))"
    using assms(1,2,5) by (simp add: vsnprintf_def)
  have at: "unat (of_nat i :: uint32) = i" if "i \<le> k" for i
    using that len(3) by (simp add: unsigned_of_nat take_bit_nat_eq_self)
  have "?m (buf + of_nat i) = of_int (out ! i) \<and> buf + of_nat i \<noteq> buf + of_nat k" if "i < k" for i
  proof
    show "?m (buf + of_nat i) = of_int (out ! i)"
      using that len at [of i] assms(6) by (simp add: write_bytes_value)
    show "buf + of_nat i \<noteq> buf + of_nat k" using that at [of i] at [of k] by auto
  qed
  moreover have "?m a = m a \<and> a \<noteq> buf + of_nat k" if "k < unat (a - buf)" for a
    using that len at [of k] by (auto simp: write_bytes_value)
  ultimately show ?thesis using r by auto
qed

text \<open>C32: \<open>vsnprintf\<close> stores the longest prefix of the output that leaves room for the terminator,
  terminates it and writes no byte outside the buffer. It returns what its counter, an \<open>int\<close>, holds after the whole
  output: the length of the output when this is below \<open>2 ^ 31\<close>, and the length wrapped around to 32 bits, which may
  be negative, for a longer one.\<close>

theorem vsnprintf_bounded:
  assumes "buf \<noteq> 0" and "0 < n" and "unat buf + n \<le> 2 ^ 32" and "n < 2 ^ 31"
    and "vprintfmt m fmt ap = Inr out" and "k = min (length out) (n - 1)"
  shows "\<exists>m' r. vsnprintf m buf (int n) fmt ap = Inr (m', r)
    \<and> r = (if length out < 2 ^ 31 then int (length out) else (int (length out) + 2 ^ 31) mod 2 ^ 32 - 2 ^ 31)
    \<and> (\<forall>i < k. m' (buf + of_nat i) = of_int (out ! i)) \<and> m' (buf + of_nat k) = 0
    \<and> (\<forall>a. k < unat (a - buf) \<longrightarrow> m' a = m a)"
proof -
  have "wrap32 (int (length out)) =
    (if length out < 2 ^ 31 then int (length out) else (int (length out) + 2 ^ 31) mod 2 ^ 32 - 2 ^ 31)"
    by (simp add: wrap32_id) (simp add: wrap32_def)
  then show ?thesis using vsnprintf_stores [OF assms] by metis
qed

theorem vsnprintf_bounded_witness:
  "\<exists>m'. vsnprintf (\<lambda>_. 1) 100 2 [72, 105] 0 = Inr (m', 2) \<and> m' 100 = 72 \<and> m' 101 = 0
    \<and> (\<forall>a. 1 < unat (a - 100) \<longrightarrow> m' a = 1)"
  using vsnprintf_bounded [of 100 2 "\<lambda>_. 1" "[72, 105]" 0 "[72, 105]" 1] by simp

lemma fold_putch:
  assumes "length (pb_buf b) < 255" and "\<forall>c \<in> set calls. length c = 255"
  shows "\<exists>calls' b'. fold putch out (calls, b) = (calls', b') \<and> concat calls' @ pb_buf b' = concat calls @ pb_buf b @ map of_int out
    \<and> pb_cnt b' = (if out = [] then pb_cnt b else wrap32 (pb_cnt b + int (length out))) \<and> (\<forall>c \<in> set calls'. length c = 255) \<and> length (pb_buf b') < 255"
  using assms
proof (induction out arbitrary: calls b)
  case Nil
  then show ?case by simp
next
  case (Cons ch out)
  show ?case
  proof (cases "length (pb_buf b) = 254")
    case True
    let ?b = "b\<lparr>pb_buf := [], pb_cnt := wrap32 (pb_cnt b + 1)\<rparr>"
    have "putch ch (calls, b) = (calls @ [pb_buf b @ [of_int ch]], ?b)" using True by (simp add: putch_def)
    moreover have "length (pb_buf ?b) < 255" "\<forall>c \<in> set (calls @ [pb_buf b @ [of_int ch]]). length c = 255"
      using Cons.prems True by auto
    ultimately show ?thesis using Cons.IH [of ?b "calls @ [pb_buf b @ [of_int ch]]"]
      by (auto simp: wrap32_mod add.assoc)
  next
    case False
    let ?b = "b\<lparr>pb_buf := pb_buf b @ [of_int ch], pb_cnt := wrap32 (pb_cnt b + 1)\<rparr>"
    have "putch ch (calls, b) = (calls, ?b)" using False by (simp add: putch_def)
    moreover have "length (pb_buf ?b) < 255" using Cons.prems False by simp
    ultimately show ?thesis using Cons.IH [of ?b calls] Cons.prems(2)
      by (auto simp: wrap32_mod add.assoc)
  qed
qed

text \<open>\<open>cprintf\<close> of the user library passes its whole output to the kernel in pieces of 255
  characters and a last shorter one, and returns its length, wrapped around to an \<open>int\<close>.\<close>

theorem user_vcprintf_pieces:
  "case user_vcprintf m fmt ap of
     Inl h \<Rightarrow> vprintfmt m fmt ap = Inl h
   | Inr (calls, cnt) \<Rightarrow> \<exists>out. vprintfmt m fmt ap = Inr out \<and> concat calls = map of_int out \<and> cnt = wrap32 (int (length out))
       \<and> length ` set (butlast calls) \<subseteq> {255} \<and> length (last calls) < 255"
proof (cases "vprintfmt m fmt ap")
  case (Inl h)
  then show ?thesis by (simp add: user_vcprintf_def)
next
  case (Inr out)
  obtain calls b where f: "fold putch out ([], \<lparr>pb_buf = [], pb_cnt = 0\<rparr>) = (calls, b)"
    "concat calls @ pb_buf b = map of_int out" "pb_cnt b = wrap32 (int (length out))" "\<forall>c \<in> set calls. length c = 255"
    "length (pb_buf b) < 255"
    using fold_putch [of "\<lparr>pb_buf = [], pb_cnt = 0\<rparr>" "[]" out] by (auto simp: wrap32_id)
  then show ?thesis by (auto simp: user_vcprintf_def Inr)
qed

text \<open>\<open>%d\<close> in a buffer of at least 12 bytes.\<close>

lemma value_of_digits: "value_of 10 ds = digits_value (rev ds)"
proof (induction ds rule: rev_induct)
  case (snoc d ds)
  then show ?case by (simp add: value_of_snoc)
qed (simp add: value_of_def)

lemma vprintfmt_d: "vprintfmt m [37, 100] ap = Inr ((if sint (mem32 m ap) < 0 then [45] else []) @ printnum (nat \<bar>sint (mem32 m ap)\<bar>) 10 (-1) 32)"
  by (simp add: escape.simps is_digit_def convert_def conv_d_def no_flags_def getint_def)

lemma strtol_decimal:
  assumes c: "cstr m s ((if neg then [45] else []) @ map (\<lambda>d. of_nat (d + 48)) ds)" and "ds \<noteq> []" and d: "\<forall>d \<in> set ds. d < 10"
    and v: "digits_value (rev ds) < 2 ^ 31"
  shows "strtol m s 10 = Some (if neg then - int (digits_value (rev ds)) else int (digits_value (rev ds)),
    s + of_nat (length ds + (if neg then 1 else 0)))"
proof -
  obtain d0 ds' where ds: "ds = d0 # ds'" using assms(2) by (cases ds) auto
  have d0: "of_nat (d0 + 48) \<notin> {0, 9, 32, 43, 45 :: uint8}" using digit_char [of d0] d ds by simp
  show ?thesis
  proof (cases neg)
    case True
    have c1: "m s = 45" "cstr m (s + 1) (map (\<lambda>d. of_nat (d + 48)) ds)" using c True by simp_all
    have "skip_space m s = Some s" using c1 by (subst skip_space.simps) simp
    moreover have "strtol_digits m 10 (s + 1) 0 = Some (int (digits_value (rev ds)), s + 1 + of_nat (length ds))"
      using strtol_digits_value [OF c1(2) d, of 0] v by simp
    moreover have "wrap32 (- int (digits_value (rev ds))) = - int (digits_value (rev ds))"
      using v by (intro wrap32_id) simp_all
    ultimately show ?thesis using True c1 by (simp add: strtol_def add.assoc)
  next
    case False
    have c1: "cstr m s (map (\<lambda>d. of_nat (d + 48)) ds)" using c False by simp
    have m: "m s = of_nat (d0 + 48)" using c1 ds by simp
    have "skip_space m s = Some s" using m d0 by (subst skip_space.simps) simp
    moreover have "strtol_digits m 10 s 0 = Some (int (digits_value (rev ds)), s + of_nat (length ds))"
      using strtol_digits_value [OF c1 d, of 0] v by simp
    ultimately show ?thesis using False m d0 by (simp add: strtol_def)
  qed
qed

lemma stored_cstr:
  assumes "\<forall>i < length out. m (buf + of_nat i) = of_int (out ! i)" and "m (buf + of_nat (length out)) = 0"
    and "\<forall>ch \<in> set out. of_int ch \<noteq> (0 :: uint8)"
  shows "cstr m buf (map of_int out)"
  using assms unfolding cstr_iff by simp

text \<open>C22: a number that \<open>snprintf\<close> prints with \<open>%d\<close> into a buffer of at least 12 bytes is read back by
  \<open>strtol\<close>: for every 32-bit value but the smallest, whose absolute value has no \<open>int\<close>.\<close>

theorem snprintf_strtol:
  assumes "buf \<noteq> 0" and "12 \<le> n" and "unat buf + n \<le> 2 ^ 32" and "n < 2 ^ 31"
    and "v = sint (mem32 m ap)" and "v \<noteq> - (2 ^ 31)"
  shows "\<exists>m' len. vsnprintf m buf (int n) [37, 100] ap = Inr (m', int len) \<and> len \<le> 11
    \<and> strtol m' buf 10 = Some (v, buf + of_nat len)"
proof -
  have range: "- (2 ^ 31) < v" "v < 2 ^ 31"
    using assms(5,6) sint_ge [of "mem32 m ap"] sint_lt [of "mem32 m ap"] by auto
  then have abs: "nat \<bar>v\<bar> < 10000000000" by simp
  obtain ds where ds: "printnum (nat \<bar>v\<bar>) 10 (-1) 32 = map hex_digit ds" "value_of 10 ds = nat \<bar>v\<bar>"
    "\<forall>d \<in> set ds. d < 10" "ds = [0] \<or> ds \<noteq> [] \<and> hd ds \<noteq> 0"
    using printnum_digits [of 10 "nat \<bar>v\<bar>" 10 "-1" 32] abs by auto
  have val: "digits_value (rev ds) < 2 ^ 31" "int (digits_value (rev ds)) = \<bar>v\<bar>"
    using ds(2) range by (simp_all add: value_of_digits [symmetric])
  have ne: "ds \<noteq> []" using ds(4) by auto
  have len: "length ds \<le> 10"
  proof (rule ccontr)
    assume "\<not> ?thesis"
    then have "ds \<noteq> [0]" and l: "10 \<le> length ds - 1" by auto
    then have "10 ^ (length ds - 1) \<le> nat \<bar>v\<bar>" using value_of_lower [OF ne, of 10] ds(2,4) by simp
    moreover have "(10 :: nat) ^ 10 \<le> 10 ^ (length ds - 1)" using l by (rule power_increasing) simp
    ultimately have "(10 :: nat) ^ 10 \<le> nat \<bar>v\<bar>" by (rule order_trans [rotated])
    then show False using range by simp
  qed
  let ?out = "(if v < 0 then [45] else []) @ map hex_digit ds"
  have out: "vprintfmt m [37, 100] ap = Inr ?out" unfolding vprintfmt_d assms(5) [symmetric] ds(1) by simp
  have lo: "length ?out \<le> 11" "min (length ?out) (n - 1) = length ?out" using len assms(2) by auto
  have "wrap32 (int (length ?out)) = int (length ?out)" using lo(1) by (intro wrap32_id) simp_all
  then obtain m' where m': "vsnprintf m buf (int n) [37, 100] ap = Inr (m', int (length ?out))"
    "\<forall>i < length ?out. m' (buf + of_nat i) = of_int (?out ! i)" "m' (buf + of_nat (length ?out)) = 0"
    using vsnprintf_stores [OF assms(1) _ assms(3,4) out refl] assms(2) unfolding lo(2) by auto
  have digit: "map (\<lambda>ch. of_int ch :: uint8) (map hex_digit ds) = map (\<lambda>d. of_nat (d + 48)) ds"
    using ds(3) by (simp add: hex_digit_def add.commute)
  have "cstr m' buf (map of_int ?out)"
  proof (rule stored_cstr [OF m'(2,3)])
    have "\<forall>x \<in> set (map (\<lambda>ch. of_int ch :: uint8) ?out). x \<noteq> 0"
      using ds(3) digit_char unfolding map_append digit by (auto split: if_splits)
    then show "\<forall>ch \<in> set ?out. of_int ch \<noteq> (0 :: uint8)" unfolding set_map by blast
  qed
  then have "cstr m' buf ((if v < 0 then [45] else []) @ map (\<lambda>d. of_nat (d + 48)) ds)"
    unfolding map_append digit by (simp split: if_splits)
  from strtol_decimal [OF this ne ds(3) val(1)]
  have "strtol m' buf 10 = Some (v, buf + of_nat (length ?out))" using val(2) by (simp add: add.commute split: if_splits)
  then show ?thesis using m'(1) lo(1) by blast
qed

theorem snprintf_strtol_witness:
  "\<exists>m' len. vsnprintf ((\<lambda>_. 0)(0 := 42)) 100 12 [37, 100] 0 = Inr (m', int len) \<and> len \<le> 11
    \<and> strtol m' 100 10 = Some (42, 100 + of_nat len)"
  using snprintf_strtol [of 100 12 42 "(\<lambda>_. 0)(0 := 42)" 0] by (simp add: mem32_def word_of_bytes_def)

end
