(* ===== verification/Ide_Driver.thy ===== *)
theory Ide_Driver
  imports Disk_Pages
begin

text \<open>
  The disk driver of \<^verbatim>\<open>lib/disk.c\<close> at the level of its port instructions (\<^verbatim>\<open>inc/x86.h\<close>). The machine's ports are
  a parameter: a \<open>ports\<close> gives the effect of each port instruction on a device of any type. The locale
  \<open>ata_drive\<close> states what the driver relies on, the PIO protocol of an ATA drive. A sector can fail in two ways: the
  drive refuses it, which it reports in the status that it gives instead of asking for the data; or the
  drive takes the data and cannot write it, which it reports in the status after the data. \<open>ide_fail\<close> of
  \<^verbatim>\<open>Disk_Pages\<close> says which sectors the drive refuses. Inside the locale the driver is shown to move exactly the
  sectors that \<open>ide_read_loop\<close> and \<open>ide_write_loop\<close> move, and what it makes of a sector that is not written.
  \<open>ide_drive\<close> is a drive with arbitrary contents, arbitrary failing sectors of both kinds and an arbitrary
  number of busy answers before each ready one, on which the locale is interpreted.
\<close>

section \<open>Port instructions\<close>

record 'd ports =
  inb :: "uint16 \<Rightarrow> 'd \<Rightarrow> uint8 \<times> 'd"
  outb :: "uint16 \<Rightarrow> uint8 \<Rightarrow> 'd \<Rightarrow> 'd"
  insl :: "uint16 \<Rightarrow> nat \<Rightarrow> 'd \<Rightarrow> (nat \<Rightarrow> uint32) \<times> 'd"
  outsl :: "uint16 \<Rightarrow> nat \<Rightarrow> (nat \<Rightarrow> uint32) \<Rightarrow> 'd \<Rightarrow> 'd"

section \<open>The driver\<close>

definition IDE_BSY :: uint8 where "IDE_BSY = 0x80"
definition IDE_DRDY :: uint8 where "IDE_DRDY = 0x40"
definition IDE_DF :: uint8 where "IDE_DF = 0x20"
definition IDE_ERR :: uint8 where "IDE_ERR = 0x01"
definition diskno :: uint8 where "diskno = 0"

text \<open>The loop polls until the drive is ready, so it returns only if the drive gets ready.\<close>

partial_function (option) wait_status :: "('d, 'z) ports_scheme \<Rightarrow> 'd \<Rightarrow> (uint8 \<times> 'd) option" where
  "wait_status P d =
     (let (r, d) = inb P 0x1F7 d in
      if r AND (IDE_BSY OR IDE_DRDY) \<noteq> IDE_DRDY then wait_status P d else Some (r, d))"

definition ide_wait_ready :: "('d, 'z) ports_scheme \<Rightarrow> bool \<Rightarrow> 'd \<Rightarrow> (int \<times> 'd) option" where
  "ide_wait_ready P check_error d =
     Option.bind (wait_status P d) (\<lambda>(r, d).
       Some (if check_error \<and> r AND (IDE_DF OR IDE_ERR) \<noteq> 0 then -1 else 0, d))"

text \<open>The six register writes that start a command.\<close>

definition ide_command :: "('d, 'z) ports_scheme \<Rightarrow> uint32 \<Rightarrow> nat \<Rightarrow> uint8 \<Rightarrow> 'd \<Rightarrow> 'd" where
  "ide_command P secno nsecs cmd d =
     (let d = outb P 0x1F2 (of_nat nsecs) d;
          d = outb P 0x1F3 (ucast (secno AND 0xFF)) d;
          d = outb P 0x1F4 (ucast (drop_bit 8 secno AND 0xFF)) d;
          d = outb P 0x1F5 (ucast (drop_bit 16 secno AND 0xFF)) d;
          d = outb P 0x1F6 (0xE0 OR push_bit 4 (diskno AND 1) OR ucast (drop_bit 24 secno AND 0x0F)) d
      in outb P 0x1F7 cmd d)"

text \<open>A buffer is a function from word index to word; \<open>off\<close> counts the words that \<open>dst\<close> and \<open>src\<close> have advanced.\<close>

fun pio_read_loop :: "('d, 'z) ports_scheme \<Rightarrow> nat \<Rightarrow> nat \<Rightarrow> (nat \<Rightarrow> uint32) \<Rightarrow> 'd \<Rightarrow> (int \<times> (nat \<Rightarrow> uint32) \<times> 'd) option" where
  "pio_read_loop P 0 off dst d = Some (0, dst, d)"
| "pio_read_loop P (Suc n) off dst d =
     Option.bind (ide_wait_ready P True d) (\<lambda>(r, d).
       if r < 0 then Some (r, dst, d)
       else let (ws, d) = insl P 0x1F0 128 d in
         pio_read_loop P n (off + 128) (\<lambda>i. if off \<le> i \<and> i < off + 128 then ws (i - off) else dst i) d)"

fun pio_write_loop :: "('d, 'z) ports_scheme \<Rightarrow> nat \<Rightarrow> nat \<Rightarrow> (nat \<Rightarrow> uint32) \<Rightarrow> 'd \<Rightarrow> (int \<times> 'd) option" where
  "pio_write_loop P 0 off src d = Some (0, d)"
| "pio_write_loop P (Suc n) off src d =
     Option.bind (ide_wait_ready P True d) (\<lambda>(r, d).
       if r < 0 then Some (r, d)
       else pio_write_loop P n (off + 128) src (outsl P 0x1F0 128 (\<lambda>i. src (off + i)) d))"

definition pio_read :: "('d, 'z) ports_scheme \<Rightarrow> uint32 \<Rightarrow> (nat \<Rightarrow> uint32) \<Rightarrow> nat \<Rightarrow> 'd \<Rightarrow> (halt + int \<times> (nat \<Rightarrow> uint32) \<times> 'd) option" where
  "pio_read P secno dst nsecs d =
     (if 256 < nsecs then Some (Inl (AssertFailed ''nsecs <= 256''))
      else Option.bind (ide_wait_ready P False d) (\<lambda>(_, d).
        map_option Inr (pio_read_loop P nsecs 0 dst (ide_command P secno nsecs 0x20 d))))"

definition pio_write :: "('d, 'z) ports_scheme \<Rightarrow> uint32 \<Rightarrow> (nat \<Rightarrow> uint32) \<Rightarrow> nat \<Rightarrow> 'd \<Rightarrow> (halt + int \<times> 'd) option" where
  "pio_write P secno src nsecs d =
     (if 256 < nsecs then Some (Inl (AssertFailed ''nsecs <= 256''))
      else Option.bind (ide_wait_ready P False d) (\<lambda>(_, d).
        map_option Inr (pio_write_loop P nsecs 0 src (ide_command P secno nsecs 0x30 d))))"

section \<open>The protocol of the drive\<close>

text \<open>What the driver can see of a drive: the task-file registers, the transfer in progress, whether the sector
  whose data the drive took last was not written, and the sectors.\<close>

record ata =
  task_file :: "uint16 \<Rightarrow> uint8"
  xfer_left :: nat
  xfer_lba :: nat
  xfer_write :: bool
  xfer_error :: bool
  sectors :: "nat \<Rightarrow> nat \<Rightarrow> uint32"

text \<open>The sector number and the sector count in the registers; a count of 0 stands for 256.\<close>

definition lba_of :: "(uint16 \<Rightarrow> uint8) \<Rightarrow> nat" where
  "lba_of t = unat (word_of_bytes (t 0x1F3) (t 0x1F4) (t 0x1F5) (t 0x1F6 AND 0x0F))"

definition count_of :: "(uint16 \<Rightarrow> uint8) \<Rightarrow> nat" where
  "count_of t = (if t 0x1F2 = 0 then 256 else unat (t 0x1F2))"

definition start_xfer :: "bool \<Rightarrow> ata \<Rightarrow> ata" where
  "start_xfer w v = v\<lparr>xfer_left := count_of (task_file v), xfer_lba := lba_of (task_file v), xfer_write := w,
     xfer_error := False\<rparr>"

definition next_sector :: "ata \<Rightarrow> ata" where
  "next_sector v = v\<lparr>xfer_left := xfer_left v - 1, xfer_lba := xfer_lba v + 1\<rparr>"

text \<open>The drive takes the data of a sector; if it cannot write it, the sector holds something else.\<close>

definition write_sector :: "bool \<Rightarrow> (nat \<Rightarrow> uint32) \<Rightarrow> (nat \<Rightarrow> uint32) \<Rightarrow> ata \<Rightarrow> ata" where
  "write_sector bad rest ws v =
     (next_sector v)\<lparr>sectors := (sectors v)(xfer_lba v := if bad then rest else ws), xfer_error := bad\<rparr>"

definition status_ready :: "uint8 \<Rightarrow> bool" where
  "status_ready r \<longleftrightarrow> r AND (IDE_BSY OR IDE_DRDY) = IDE_DRDY"

definition status_error :: "uint8 \<Rightarrow> bool" where
  "status_error r \<longleftrightarrow> r AND (IDE_DF OR IDE_ERR) \<noteq> 0"

definition command_file :: "uint32 \<Rightarrow> nat \<Rightarrow> (uint16 \<Rightarrow> uint8) \<Rightarrow> uint16 \<Rightarrow> uint8" where
  "command_file secno nsecs t = t(0x1F2 := of_nat nsecs, 0x1F3 := ucast (secno AND 0xFF),
     0x1F4 := ucast (drop_bit 8 secno AND 0xFF), 0x1F5 := ucast (drop_bit 16 secno AND 0xFF),
     0x1F6 := 0xE0 OR push_bit 4 (diskno AND 1) OR ucast (drop_bit 24 secno AND 0x0F))"

text \<open>The registers that the driver writes hold the low 28 bits of the sector number and the count.\<close>

lemma low_nibble: "(0xE0 OR b) AND (0x0F :: uint8) = b AND 0x0F"
  by (simp add: bit.conj_disj_distrib2)

lemma word_of_bytes_low28:
  "word_of_bytes (ucast x) (ucast (drop_bit 8 x)) (ucast (drop_bit 16 x)) (ucast (drop_bit 24 x) AND 0x0F)
     = take_bit 28 (x :: uint32)"
proof (rule bit_word_eqI)
  have F: "(0x0F :: uint8) = mask 4" by (simp add: mask_eq_exp_minus_1)
  fix n assume "n < LENGTH(32)"
  then consider "n < 8" | "8 \<le> n" "n < 16" | "16 \<le> n" "n < 24" | "24 \<le> n" "n < 28" | "28 \<le> n" "n < 32" by fastforce
  then show "bit (word_of_bytes (ucast x) (ucast (drop_bit 8 x)) (ucast (drop_bit 16 x)) (ucast (drop_bit 24 x) AND 0x0F)) n
      = bit (take_bit 28 x) n"
    by cases (auto simp: word_of_bytes_def bit_simps F)
qed

lemma ucast_masked: "ucast (x AND 0xFF :: uint32) = (ucast x :: uint8)" "ucast (x AND 0x0F :: uint32) = (ucast x AND 0x0F :: uint8)"
proof -
  have F: "(0xFF :: uint32) = mask 8" "(0x0F :: uint32) = mask 4" "(0x0F :: uint8) = mask 4" by (simp_all add: mask_eq_exp_minus_1)
  show "ucast (x AND 0xFF :: uint32) = (ucast x :: uint8)" "ucast (x AND 0x0F :: uint32) = (ucast x AND 0x0F :: uint8)"
    unfolding F by (rule bit_word_eqI, auto simp: bit_simps)+
qed

lemma lba_of_command: "lba_of (command_file secno nsecs t) = unat (take_bit 28 secno)"
  unfolding word_of_bytes_low28 [symmetric]
  by (simp add: lba_of_def command_file_def ucast_masked low_nibble diskno_def)

lemma count_of_command: "nsecs \<le> 256 \<Longrightarrow> count_of (command_file secno nsecs t) = (if nsecs = 0 then 256 else nsecs)"
proof (cases "nsecs = 256")
  case False
  assume "nsecs \<le> 256"
  then have "unat (of_nat nsecs :: uint8) = nsecs" using False by (simp add: unat_of_nat)
  then show ?thesis by (cases "nsecs = 0") (auto simp: count_of_def command_file_def)
qed (simp add: count_of_def command_file_def)

text \<open>The course of a write of \<open>n\<close> sectors from \<open>lba\<close> on: the result, whether the last status would show an error,
  and the sectors.\<close>

fun write_run :: "(nat \<Rightarrow> bool) \<Rightarrow> (nat \<Rightarrow> bool) \<Rightarrow> (nat \<Rightarrow> (nat \<Rightarrow> uint32) \<Rightarrow> nat \<Rightarrow> uint32) \<Rightarrow> nat \<Rightarrow> nat \<Rightarrow> nat \<Rightarrow>
    (nat \<Rightarrow> uint32) \<Rightarrow> (nat \<Rightarrow> nat \<Rightarrow> uint32) \<Rightarrow> int \<times> bool \<times> (nat \<Rightarrow> nat \<Rightarrow> uint32)" where
  "write_run fail lost damage 0 lba off src D = (0, False, D)"
| "write_run fail lost damage (Suc n) lba off src D =
     (if fail lba then (-1, False, D)
      else if lost lba then (if n = 0 then 0 else -1, True, D(lba := damage lba (\<lambda>i. src (off + i))))
      else write_run fail lost damage n (lba + 1) (off + 128) src (D(lba := \<lambda>i. src (off + i))))"

lemma write_run_safe:
  "(\<And>j. j < n \<Longrightarrow> \<not> lost (lba + j)) \<Longrightarrow>
    write_run fail lost damage n lba off src D = (fst (ide_write_loop fail n lba off src D), False, snd (ide_write_loop fail n lba off src D))"
proof (induction n arbitrary: lba off D)
  case 0
  then show ?case by simp
next
  case (Suc n)
  have "\<not> lost lba" using Suc.prems [of 0] by simp
  moreover have "\<not> lost (lba + 1 + j)" if "j < n" for j using Suc.prems [of "Suc j"] that by simp
  ultimately show ?case using Suc.IH [of "lba + 1" "off + 128"] by simp
qed

lemma write_run_lost:
  "j < n \<Longrightarrow> lost (lba + j) \<Longrightarrow> \<not> fail (lba + j) \<Longrightarrow> (\<And>i. i < j \<Longrightarrow> \<not> lost (lba + i) \<and> \<not> fail (lba + i)) \<Longrightarrow>
    write_run fail lost damage n lba off src D =
      (if n = Suc j then 0 else -1, True,
       \<lambda>l. if l = lba + j then damage l (\<lambda>i. src (off + 128 * j + i))
           else if lba \<le> l \<and> l < lba + j then \<lambda>i. src (off + 128 * (l - lba) + i) else D l)"
proof (induction n arbitrary: lba off D j)
  case 0
  then show ?case by simp
next
  case (Suc n)
  show ?case
  proof (cases j)
    case 0
    then show ?thesis using Suc.prems by (auto simp: fun_eq_iff)
  next
    case (Suc k)
    have h: "\<not> lost lba" "\<not> fail lba" using Suc.prems(4) [of 0] Suc by simp_all
    have i: "\<not> lost (lba + 1 + i) \<and> \<not> fail (lba + 1 + i)" if "i < k" for i using Suc.prems(4) [of "Suc i"] Suc that by simp
    note r = Suc.IH [of k "lba + 1" "off + 128" "D(lba := \<lambda>i. src (off + i))"]
    have r': "write_run fail lost damage n (lba + 1) (off + 128) src (D(lba := \<lambda>i. src (off + i))) =
      (if n = Suc k then 0 else -1, True,
       \<lambda>l. if l = lba + 1 + k then damage l (\<lambda>i. src (off + 128 + 128 * k + i))
           else if lba + 1 \<le> l \<and> l < lba + 1 + k then \<lambda>i. src (off + 128 + 128 * (l - (lba + 1)) + i)
           else (D(lba := \<lambda>i. src (off + i))) l)"
      by (rule r) (use Suc.prems(1-3) Suc i in auto)
    have e: "(\<lambda>l. if l = lba + 1 + k then damage l (\<lambda>i. src (off + 128 + 128 * k + i))
           else if lba + 1 \<le> l \<and> l < lba + 1 + k then \<lambda>i. src (off + 128 + 128 * (l - (lba + 1)) + i)
           else (D(lba := \<lambda>i. src (off + i))) l)
      = (\<lambda>l. if l = lba + j then damage l (\<lambda>i. src (off + 128 * j + i))
           else if lba \<le> l \<and> l < lba + j then \<lambda>i. src (off + 128 * (l - lba) + i) else D l)" (is "?L = ?R")
    proof
      fix l
      have "l - lba = Suc (l - (lba + 1))" if "lba + 1 \<le> l" using that by simp
      then show "?L l = ?R l" using Suc by (auto simp: add.assoc)
    qed
    show ?thesis using h r' Suc unfolding e by simp
  qed
qed

locale ata_drive =
  fixes P :: "'d ports"
    and view :: "'d \<Rightarrow> ata"
    and wait :: "'d \<Rightarrow> nat"
    and fail :: "nat \<Rightarrow> bool"
    and lost :: "nat \<Rightarrow> bool"
    and damage :: "nat \<Rightarrow> (nat \<Rightarrow> uint32) \<Rightarrow> nat \<Rightarrow> uint32"
  assumes poll_view: "view (snd (inb P 0x1F7 d)) = view d"
    and poll_wait: "\<not> status_ready (fst (inb P 0x1F7 d)) \<Longrightarrow> wait (snd (inb P 0x1F7 d)) < wait d"
    and poll_error: "status_ready (fst (inb P 0x1F7 d)) \<Longrightarrow>
      status_error (fst (inb P 0x1F7 d)) \<longleftrightarrow> xfer_error (view d) \<or> 0 < xfer_left (view d) \<and> fail (xfer_lba (view d))"
    and out_register: "p \<in> {0x1F2, 0x1F3, 0x1F4, 0x1F5, 0x1F6} \<Longrightarrow>
      view (outb P p b d) = (view d)\<lparr>task_file := (task_file (view d))(p := b)\<rparr>"
    and out_read: "view (outb P 0x1F7 0x20 d) = start_xfer False (view d)"
    and out_write: "view (outb P 0x1F7 0x30 d) = start_xfer True (view d)"
    and in_data: "0 < xfer_left (view d) \<Longrightarrow> \<not> xfer_write (view d) \<Longrightarrow> \<not> fail (xfer_lba (view d)) \<Longrightarrow> i < 128 \<Longrightarrow>
      fst (insl P 0x1F0 128 d) i = sectors (view d) (xfer_lba (view d)) i"
    and in_view: "0 < xfer_left (view d) \<Longrightarrow> \<not> xfer_write (view d) \<Longrightarrow>
      view (snd (insl P 0x1F0 128 d)) = next_sector (view d)"
    and out_data: "0 < xfer_left (view d) \<Longrightarrow> xfer_write (view d) \<Longrightarrow> \<not> fail (xfer_lba (view d)) \<Longrightarrow> \<not> xfer_error (view d) \<Longrightarrow>
      view (outsl P 0x1F0 128 ws d) = write_sector (lost (xfer_lba (view d))) (damage (xfer_lba (view d)) ws) ws (view d)"
begin

lemma wait_status_returns:
  "\<exists>r d'. wait_status P d = Some (r, d') \<and> view d' = view d \<and> status_ready r \<and>
     (status_error r \<longleftrightarrow> xfer_error (view d) \<or> 0 < xfer_left (view d) \<and> fail (xfer_lba (view d)))"
proof (induction "wait d" arbitrary: d rule: less_induct)
  case less
  obtain r d1 where s: "inb P 0x1F7 d = (r, d1)" by force
  have v: "view d1 = view d" using poll_view [of d] s by simp
  show ?case
  proof (cases "status_ready r")
    case True
    then show ?thesis
      using s v poll_error [of d] by (subst wait_status.simps) (simp add: status_ready_def)
  next
    case False
    then have "wait d1 < wait d" using poll_wait [of d] s by simp
    from less [OF this] show ?thesis
      using False s v by (subst wait_status.simps) (simp add: status_ready_def)
  qed
qed

lemma ide_wait_ready_returns:
  "\<exists>d'. ide_wait_ready P c d =
       Some (if c \<and> (xfer_error (view d) \<or> 0 < xfer_left (view d) \<and> fail (xfer_lba (view d))) then -1 else 0, d') \<and>
     view d' = view d"
proof -
  obtain r d' where "wait_status P d = Some (r, d')" "view d' = view d"
    "status_error r \<longleftrightarrow> xfer_error (view d) \<or> 0 < xfer_left (view d) \<and> fail (xfer_lba (view d))"
    using wait_status_returns by blast
  then show ?thesis by (auto simp: ide_wait_ready_def status_error_def)
qed

lemma ide_command_view:
  "view (ide_command P secno nsecs cmd d) =
     start_xfer w ((view d)\<lparr>task_file := command_file secno nsecs (task_file (view d))\<rparr>)"
  if "cmd = (if w then 0x30 else 0x20)"
  using that by (cases w) (simp_all add: ide_command_def command_file_def out_register out_read out_write)

text \<open>The transfer loops move what the loops of \<^verbatim>\<open>Disk_Pages\<close> move.\<close>

lemma pio_read_loop_refines:
  "n \<le> xfer_left (view d) \<Longrightarrow> \<not> xfer_write (view d) \<Longrightarrow> \<not> xfer_error (view d) \<Longrightarrow>
   \<exists>d'. pio_read_loop P n off dst d =
     Some (fst (ide_read_loop fail (sectors (view d)) n (xfer_lba (view d)) off dst),
           snd (ide_read_loop fail (sectors (view d)) n (xfer_lba (view d)) off dst), d') \<and>
     sectors (view d') = sectors (view d)"
proof (induction n arbitrary: off dst d)
  case 0
  then show ?case by simp
next
  case (Suc n)
  then have x: "0 < xfer_left (view d)" by simp
  with ide_wait_ready_returns [of True d] obtain d1
    where w: "ide_wait_ready P True d = Some (if fail (xfer_lba (view d)) then -1 else 0, d1)" and v: "view d1 = view d"
    using Suc.prems(3) by auto
  show ?case
  proof (cases "fail (xfer_lba (view d))")
    case True
    then show ?thesis using w v by simp
  next
    case False
    define d2 where "d2 = snd (insl P 0x1F0 128 d1)"
    have v2: "view d2 = next_sector (view d)" using in_view [of d1] x Suc.prems v by (simp add: d2_def)
    have buf: "(\<lambda>i. if off \<le> i \<and> i < off + 128 then fst (insl P 0x1F0 128 d1) (i - off) else dst i)
        = (\<lambda>i. if off \<le> i \<and> i < off + 128 then sectors (view d) (xfer_lba (view d)) (i - off) else dst i)"
      using in_data [of d1] x Suc.prems v False by (intro ext if_cong refl) auto
    show ?thesis
      using Suc.IH [of d2 "off + 128" "\<lambda>i. if off \<le> i \<and> i < off + 128 then sectors (view d) (xfer_lba (view d)) (i - off) else dst i"]
        Suc.prems False w v2 by (simp add: split_beta buf d2_def [symmetric] next_sector_def)
  qed
qed

text \<open>What the driver makes of a write: it sees that a sector was not written only when it asks for the next one.\<close>

lemma pio_write_loop_runs:
  "n \<le> xfer_left (view d) \<Longrightarrow> xfer_write (view d) \<Longrightarrow> \<not> xfer_error (view d) \<Longrightarrow>
   \<exists>d'. pio_write_loop P n off src d =
     Some (fst (write_run fail lost damage n (xfer_lba (view d)) off src (sectors (view d))), d') \<and>
     (xfer_error (view d'), sectors (view d')) = snd (write_run fail lost damage n (xfer_lba (view d)) off src (sectors (view d)))"
proof (induction n arbitrary: off d)
  case 0
  then show ?case by simp
next
  case (Suc n)
  then have x: "0 < xfer_left (view d)" by simp
  with ide_wait_ready_returns [of True d] obtain d1
    where w: "ide_wait_ready P True d = Some (if fail (xfer_lba (view d)) then -1 else 0, d1)" and v: "view d1 = view d"
    using Suc.prems(3) by auto
  show ?case
  proof (cases "fail (xfer_lba (view d))")
    case True
    then show ?thesis using w v Suc.prems by simp
  next
    case ok: False
    define d2 where "d2 = outsl P 0x1F0 128 (\<lambda>i. src (off + i)) d1"
    have v2: "view d2 = write_sector (lost (xfer_lba (view d))) (damage (xfer_lba (view d)) (\<lambda>i. src (off + i))) (\<lambda>i. src (off + i)) (view d)"
      using out_data [of d1] x Suc.prems v ok by (simp add: d2_def)
    have step: "pio_write_loop P (Suc n) off src d = pio_write_loop P n (off + 128) src d2"
      using w ok by (simp add: d2_def)
    show ?thesis
    proof (cases "lost (xfer_lba (view d))")
      case True
      then have e: "xfer_error (view d2)"
        "sectors (view d2) = (sectors (view d))(xfer_lba (view d) := damage (xfer_lba (view d)) (\<lambda>i. src (off + i)))"
        using v2 by (simp_all add: write_sector_def)
      show ?thesis
      proof (cases n)
        case 0
        then show ?thesis using e True ok unfolding step by simp
      next
        case (Suc m)
        obtain d3 where "ide_wait_ready P True d2 = Some (-1, d3)" "view d3 = view d2"
          using ide_wait_ready_returns [of True d2] e(1) by auto
        then show ?thesis using e True ok Suc unfolding step by simp
      qed
    next
      case False
      then have e: "\<not> xfer_error (view d2)" "xfer_write (view d2)" "n \<le> xfer_left (view d2)"
        "xfer_lba (view d2) = xfer_lba (view d) + 1"
        "sectors (view d2) = (sectors (view d))(xfer_lba (view d) := \<lambda>i. src (off + i))"
        using v2 Suc.prems by (simp_all add: write_sector_def next_sector_def)
      show ?thesis unfolding step using Suc.IH [OF e(3,2,1), of "off + 128"] e(4,5) ok False by (simp del: fun_upd_apply)
    qed
  qed
qed

lemma pio_read_returns:
  assumes "0 < nsecs" and "nsecs \<le> 256"
  shows "\<exists>d'. pio_read P secno dst nsecs d =
      Some (Inr (fst (ide_read_loop fail (sectors (view d)) nsecs (unat (take_bit 28 secno)) 0 dst),
                 snd (ide_read_loop fail (sectors (view d)) nsecs (unat (take_bit 28 secno)) 0 dst), d')) \<and>
    sectors (view d') = sectors (view d)"
proof -
  obtain x d1 where w: "ide_wait_ready P False d = Some (x, d1)" and v: "view d1 = view d"
    using ide_wait_ready_returns [of False d] by auto
  define d2 where "d2 = ide_command P secno nsecs 0x20 d1"
  have "xfer_left (view d2) = nsecs" "xfer_lba (view d2) = unat (take_bit 28 secno)" "\<not> xfer_write (view d2)"
    "sectors (view d2) = sectors (view d)" "\<not> xfer_error (view d2)"
    using assms by (simp_all add: d2_def ide_command_view [where w = False] start_xfer_def lba_of_command count_of_command v)
  then show ?thesis
    using pio_read_loop_refines [of nsecs d2 0 dst] assms(2) by (auto simp: pio_read_def w d2_def [symmetric])
qed

lemma pio_write_returns:
  assumes "0 < nsecs" and "nsecs \<le> 256"
  shows "\<exists>d'. pio_write P secno src nsecs d =
      Some (Inr (fst (write_run fail lost damage nsecs (unat (take_bit 28 secno)) 0 src (sectors (view d))), d')) \<and>
    (xfer_error (view d'), sectors (view d')) =
      snd (write_run fail lost damage nsecs (unat (take_bit 28 secno)) 0 src (sectors (view d)))"
proof -
  obtain x d1 where w: "ide_wait_ready P False d = Some (x, d1)" and v: "view d1 = view d"
    using ide_wait_ready_returns [of False d] by auto
  define d2 where "d2 = ide_command P secno nsecs 0x30 d1"
  have "xfer_left (view d2) = nsecs" "xfer_lba (view d2) = unat (take_bit 28 secno)" "xfer_write (view d2)"
    "sectors (view d2) = sectors (view d)" "\<not> xfer_error (view d2)"
    using assms by (simp_all add: d2_def ide_command_view [where w = True] start_xfer_def lba_of_command count_of_command v)
  then show ?thesis
    using pio_write_loop_runs [of nsecs d2 0 src] assms(2) by (auto simp: pio_write_def w d2_def [symmetric])
qed

end

section \<open>A drive\<close>

text \<open>After a command and after each sector the drive is busy for \<open>drive_delay n\<close> polls, where \<open>n\<close> counts these events.\<close>

record ide_drive =
  drive_ata :: ata
  drive_busy :: nat
  drive_time :: nat
  drive_delay :: "nat \<Rightarrow> nat"

definition drive_event :: "(ata \<Rightarrow> ata) \<Rightarrow> ide_drive \<Rightarrow> ide_drive" where
  "drive_event f d =
     d\<lparr>drive_ata := f (drive_ata d), drive_busy := drive_delay d (drive_time d), drive_time := drive_time d + 1\<rparr>"

definition drive_in :: "(nat \<Rightarrow> bool) \<Rightarrow> uint16 \<Rightarrow> ide_drive \<Rightarrow> uint8 \<times> ide_drive" where
  "drive_in F p d =
     (if p = 0x1F7 then
        if 0 < drive_busy d then (IDE_BSY, d\<lparr>drive_busy := drive_busy d - 1\<rparr>)
        else (IDE_DRDY OR (if xfer_error (drive_ata d) \<or> 0 < xfer_left (drive_ata d) \<and> F (xfer_lba (drive_ata d))
                           then IDE_ERR else 0), d)
      else (task_file (drive_ata d) p, d))"

definition drive_out :: "uint16 \<Rightarrow> uint8 \<Rightarrow> ide_drive \<Rightarrow> ide_drive" where
  "drive_out p b d =
     (if p = 0x1F7 then
        if b = 0x20 then drive_event (start_xfer False) d
        else if b = 0x30 then drive_event (start_xfer True) d else d
      else d\<lparr>drive_ata := (drive_ata d)\<lparr>task_file := (task_file (drive_ata d))(p := b)\<rparr>\<rparr>)"

definition drive_in_data :: "uint16 \<Rightarrow> nat \<Rightarrow> ide_drive \<Rightarrow> (nat \<Rightarrow> uint32) \<times> ide_drive" where
  "drive_in_data p n d =
     (if p = 0x1F0 \<and> 0 < xfer_left (drive_ata d) \<and> \<not> xfer_write (drive_ata d)
      then (sectors (drive_ata d) (xfer_lba (drive_ata d)), drive_event next_sector d) else (\<lambda>_. 0, d))"

definition drive_out_data :: "(nat \<Rightarrow> bool) \<Rightarrow> (nat \<Rightarrow> (nat \<Rightarrow> uint32) \<Rightarrow> nat \<Rightarrow> uint32) \<Rightarrow>
    uint16 \<Rightarrow> nat \<Rightarrow> (nat \<Rightarrow> uint32) \<Rightarrow> ide_drive \<Rightarrow> ide_drive" where
  "drive_out_data W g p n ws d =
     (if p = 0x1F0 \<and> 0 < xfer_left (drive_ata d) \<and> xfer_write (drive_ata d) \<and> \<not> xfer_error (drive_ata d)
      then drive_event (\<lambda>v. write_sector (W (xfer_lba v)) (g (xfer_lba v) ws) ws v) d else d)"

text \<open>A drive that refuses the sectors \<open>F\<close> and cannot write the sectors \<open>W\<close>, which then hold what \<open>g\<close> says.\<close>

definition drive_ports :: "(nat \<Rightarrow> bool) \<Rightarrow> (nat \<Rightarrow> bool) \<Rightarrow> (nat \<Rightarrow> (nat \<Rightarrow> uint32) \<Rightarrow> nat \<Rightarrow> uint32) \<Rightarrow> ide_drive ports" where
  "drive_ports F W g = \<lparr>inb = drive_in F, outb = drive_out, insl = drive_in_data, outsl = drive_out_data W g\<rparr>"

interpretation ide: ata_drive "drive_ports F W g" drive_ata drive_busy F W g for F W g
proof unfold_locales
  fix d :: ide_drive
  let ?P = "drive_ports F W g"
  show "drive_ata (snd (inb ?P 0x1F7 d)) = drive_ata d" by (simp add: drive_ports_def drive_in_def)
  show "drive_busy (snd (inb ?P 0x1F7 d)) < drive_busy d" if "\<not> status_ready (fst (inb ?P 0x1F7 d))"
    using that by (auto simp: drive_ports_def drive_in_def status_ready_def IDE_BSY_def IDE_DRDY_def IDE_ERR_def split: if_splits)
  show "status_error (fst (inb ?P 0x1F7 d)) =
      (xfer_error (drive_ata d) \<or> 0 < xfer_left (drive_ata d) \<and> F (xfer_lba (drive_ata d)))"
    if "status_ready (fst (inb ?P 0x1F7 d))"
    using that by (auto simp: drive_ports_def drive_in_def status_ready_def status_error_def IDE_BSY_def IDE_DRDY_def IDE_ERR_def
        IDE_DF_def split: if_splits)
qed (auto simp: drive_ports_def drive_out_def drive_event_def drive_in_data_def drive_out_data_def)

text \<open>C36: on a drive that gets ready after any number of polls, the port-level driver terminates for one sector or
  more. It reads as \<open>ide_read\<close> of \<^verbatim>\<open>Disk_Pages\<close> does, sectors that the drive refuses included, and it writes as
  \<open>ide_write\<close> does when the drive can write every sector whose data it takes. When it cannot write one of them, which
  it reports after the data, the driver stops there and reports the error, except for the last sector:
  it does not look at the status again and returns 0.\<close>

theorem pio_refines:
  assumes "0 < nsecs" and "sectors (drive_ata d) = disk s" and "lba = unat (take_bit 28 secno)"
  shows "(\<exists>d'. pio_read (drive_ports (ide_fail s) W g) secno buf nsecs d =
           Some (case ide_read secno buf nsecs s of Inl e \<Rightarrow> Inl e | Inr (r, dst) \<Rightarrow> Inr (r, dst, d')) \<and>
           sectors (drive_ata d') = disk s) \<and>
    ((\<forall>j < nsecs. \<not> W (lba + j)) \<longrightarrow>
      (\<exists>d'. pio_write (drive_ports (ide_fail s) W g) secno buf nsecs d =
           Some (case ide_write secno buf nsecs s of Inl e \<Rightarrow> Inl e | Inr (r, s') \<Rightarrow> Inr (r, d')) \<and>
           sectors (drive_ata d') = disk (case ide_write secno buf nsecs s of Inl _ \<Rightarrow> s | Inr (_, s') \<Rightarrow> s'))) \<and>
    (\<forall>j < nsecs. nsecs \<le> 256 \<and> W (lba + j) \<and> \<not> ide_fail s (lba + j) \<and>
        (\<forall>i < j. \<not> W (lba + i) \<and> \<not> ide_fail s (lba + i)) \<longrightarrow>
      (\<exists>d'. pio_write (drive_ports (ide_fail s) W g) secno buf nsecs d =
           Some (Inr (if j + 1 = nsecs then 0 else -1, d')) \<and>
         xfer_error (drive_ata d') \<and>
         sectors (drive_ata d') =
           (\<lambda>l. if l = lba + j then g l (\<lambda>i. buf (128 * j + i))
                else if lba \<le> l \<and> l < lba + j then \<lambda>i. buf (128 * (l - lba) + i) else disk s l)))"
proof (cases "nsecs \<le> 256")
  case True
  note r = ide.pio_read_returns [OF assms(1) True, of "ide_fail s" W g secno buf d]
  obtain d' where d': "pio_write (drive_ports (ide_fail s) W g) secno buf nsecs d =
      Some (Inr (fst (write_run (ide_fail s) W g nsecs lba 0 buf (disk s)), d'))"
    "(xfer_error (drive_ata d'), sectors (drive_ata d')) = snd (write_run (ide_fail s) W g nsecs lba 0 buf (disk s))"
    using ide.pio_write_returns [OF assms(1) True, of "ide_fail s" W g secno buf d] assms(2,3) by auto
  have safe: "\<exists>d'. pio_write (drive_ports (ide_fail s) W g) secno buf nsecs d =
           Some (case ide_write secno buf nsecs s of Inl e \<Rightarrow> Inl e | Inr (r, s') \<Rightarrow> Inr (r, d')) \<and>
           sectors (drive_ata d') = disk (case ide_write secno buf nsecs s of Inl _ \<Rightarrow> s | Inr (_, s') \<Rightarrow> s')"
    if "\<forall>j < nsecs. \<not> W (lba + j)"
  proof -
    have "write_run (ide_fail s) W g nsecs lba 0 buf (disk s) = (fst (ide_write_loop (ide_fail s) nsecs lba 0 buf (disk s)), False,
        snd (ide_write_loop (ide_fail s) nsecs lba 0 buf (disk s)))"
      by (rule write_run_safe) (use that in simp)
    then show ?thesis using d' True by (auto simp: ide_write_def split_beta assms(3))
  qed
  have bad: "\<exists>d'. pio_write (drive_ports (ide_fail s) W g) secno buf nsecs d =
           Some (Inr (if j + 1 = nsecs then 0 else -1, d')) \<and> xfer_error (drive_ata d') \<and>
         sectors (drive_ata d') = (\<lambda>l. if l = lba + j then g l (\<lambda>i. buf (128 * j + i))
                else if lba \<le> l \<and> l < lba + j then \<lambda>i. buf (128 * (l - lba) + i) else disk s l)"
    if "j < nsecs" "W (lba + j)" "\<not> ide_fail s (lba + j)" "\<forall>i < j. \<not> W (lba + i) \<and> \<not> ide_fail s (lba + i)" for j
    using d' write_run_lost [of j nsecs W lba "ide_fail s" g 0 buf "disk s"] that by auto
  show ?thesis
    using r safe bad assms(2) True by (auto simp: ide_read_def split_beta)
next
  case False
  then show ?thesis using assms(2) by (auto simp: pio_read_def pio_write_def ide_read_def ide_write_def)
qed

definition example_drive :: ide_drive where
  "example_drive = \<lparr>drive_ata = \<lparr>task_file = \<lambda>_. 0, xfer_left = 0, xfer_lba = 0, xfer_write = False, xfer_error = False,
       sectors = \<lambda>n i. of_nat (n + i)\<rparr>,
     drive_busy = 3, drive_time = 0, drive_delay = \<lambda>n. n\<rparr>"

definition example_disk :: kernel where
  "example_disk = tiny\<lparr>ide_fail := (\<lambda>n. n = 20), disk := (\<lambda>n i. of_nat (n + i))\<rparr>"

text \<open>Two sectors are written from 8 on, the second one is damaged, and the driver reports success.\<close>

theorem pio_refines_witness:
  "\<exists>d'. pio_write (drive_ports (ide_fail example_disk) (\<lambda>l. l = 9) (\<lambda>_ _ _. 0)) 8 (\<lambda>_. 5) 2 example_drive = Some (Inr (0, d'))
    \<and> sectors (drive_ata d') 8 7 = 5 \<and> sectors (drive_ata d') 9 7 = 0 \<and> xfer_error (drive_ata d')"
proof -
  have t: "unat (take_bit 28 (8 :: uint32)) = 8" by code_simp
  have d: "sectors (drive_ata example_drive) = disk example_disk" by (simp add: example_drive_def example_disk_def)
  have j: "(1 :: nat) < 2" "(2 :: nat) \<le> 256 \<and> (8 :: nat) + 1 = 9 \<and> \<not> ide_fail example_disk (8 + 1)
    \<and> (\<forall>i < 1. \<not> (8 :: nat) + i = 9 \<and> \<not> ide_fail example_disk (8 + i))" by (simp_all add: example_disk_def tiny_def)
  have two: "(0 :: nat) < 2" by simp
  note r = pio_refines [where nsecs = 2 and secno = 8 and W = "\<lambda>l. l = 9" and g = "\<lambda>_ _ _. 0" and buf = "\<lambda>_. 5",
    OF two d refl, unfolded t]
  from mp [OF spec [OF conjunct2 [OF conjunct2 [OF r]], of 1] j(1)] j(2) show ?thesis by fastforce
qed

text \<open>For no sector at all the driver still starts a command, which the drive reads as 256 sectors.\<close>

lemma pio_read_no_sector:
  "\<exists>d'. pio_read (drive_ports F W g) secno dst 0 d = Some (Inr (0, dst, d')) \<and> xfer_left (drive_ata d') = 256"
proof -
  obtain x d1 where w: "ide_wait_ready (drive_ports F W g) False d = Some (x, d1)"
    using ide.ide_wait_ready_returns [of F W g False d] by auto
  show ?thesis
    by (simp add: pio_read_def w ide.ide_command_view [where w = False] start_xfer_def count_of_command)
qed

end
