(* ===== verification/Boot_Loader.thy ===== *)
theory Boot_Loader
  imports Program_Loader Printfmt Ide_Driver
begin

text \<open>
  The boot loader (\<^verbatim>\<open>boot/main.c\<close>): it reads the kernel, an ELF image from the second sector of the disk on, and
  copies its segments to memory. Memory is bytes by physical address, the disk is bytes by sector. \<open>readsect\<close> reads a
  sector in one step; the last section shows that the port instructions of the code do this on every drive that
  follows the protocol of \<^verbatim>\<open>Ide_Driver\<close>.
\<close>

type_synonym boot_disk = "nat \<Rightarrow> nat \<Rightarrow> uint8"

definition SECTSIZE :: uint32 where "SECTSIZE = 512"
definition ELFHDR :: uint32 where "ELFHDR = 0x10000"

text \<open>The sector number has 28 bits.\<close>

definition readsect :: "boot_disk \<Rightarrow> uint32 \<Rightarrow> uint32 \<Rightarrow> memory \<Rightarrow> memory" where
  "readsect d dst offset m =
     (\<lambda>a. if a - dst < SECTSIZE then d (unat offset mod 2 ^ 28) (unat (a - dst)) else m a)"

partial_function (option) readseg_loop :: "boot_disk \<Rightarrow> uint32 \<Rightarrow> uint32 \<Rightarrow> uint32 \<Rightarrow> memory \<Rightarrow> memory option" where
  "readseg_loop d va end_va offset m =
     (if va < end_va then readseg_loop d (va + SECTSIZE) end_va (offset + 1) (readsect d va offset m)
      else Some m)"

definition readseg :: "boot_disk \<Rightarrow> uint32 \<Rightarrow> uint32 \<Rightarrow> uint32 \<Rightarrow> memory \<Rightarrow> memory option" where
  "readseg d va count offset m =
     (let va = va AND 0xFFFFFF; end_va = va + count; va = va AND NOT (SECTSIZE - 1); offset = offset div SECTSIZE + 1
      in readseg_loop d va end_va offset m)"

text \<open>The loop over the program headers reads each header when it comes to it.\<close>

partial_function (option) load_segments :: "boot_disk \<Rightarrow> uint32 \<Rightarrow> uint32 \<Rightarrow> memory \<Rightarrow> memory option" where
  "load_segments d ph eph m =
     (if ph < eph then
        Option.bind (readseg d (mem32 m (ph + 8)) (mem32 m (ph + 20)) (mem32 m (ph + 4)) m) (load_segments d (ph + 32) eph)
      else Some m)"

text \<open>The result is the address that the loader jumps to, \<open>None\<close> for the endless loop at \<open>bad\<close>.\<close>

definition cmain :: "boot_disk \<Rightarrow> memory \<Rightarrow> (uint32 option \<times> memory) option" where
  "cmain d m =
     Option.bind (readseg d ELFHDR (SECTSIZE * 8) 0 m) (\<lambda>m.
     if mem32 m ELFHDR \<noteq> ELF_MAGIC then Some (None, m)
     else
       let ph = ELFHDR + mem32 m (ELFHDR + 28); eph = ph + 32 * word_of_bytes (m (ELFHDR + 44)) (m (ELFHDR + 45)) 0 0 in
       Option.bind (load_segments d ph eph m) (\<lambda>m. Some (Some (mem32 m (ELFHDR + 24) AND 0xFFFFFF), m)))"

section \<open>Reading a segment\<close>

text \<open>Byte \<open>i\<close> of the kernel image.\<close>

definition image_byte :: "boot_disk \<Rightarrow> nat \<Rightarrow> uint8" where
  "image_byte d i = d (i div 512 + 1) (i mod 512)"

lemma readsect_value:
  assumes "A + 512 \<le> 2 ^ 32" and "off < 2 ^ 28"
  shows "readsect d (of_nat A) (of_nat off) m a =
    (if A \<le> unat a \<and> unat a < A + 512 then d off (unat a - A) else m a)"
proof -
  have A: "unat (of_nat A :: uint32) = A" using assms(1) by (intro unat_small) simp
  have o: "unat (of_nat off :: uint32) mod 2 ^ 28 = off" using assms(2) by (subst unat_small) simp_all
  have "unat (a - of_nat A) < 512 \<longleftrightarrow> A \<le> unat a \<and> unat a < A + 512"
  proof (cases "A \<le> unat a")
    case True
    then have "unat (a - of_nat A) = unat a - A" using A by (simp add: unat_sub word_le_nat_alt)
    then show ?thesis using True by auto
  next
    case False
    have "unat (a - of_nat A) = 2 ^ 32 + unat a - A"
      using False A by (simp add: unat_sub_if_size word_size)
    then show ?thesis using False assms(1) by auto
  qed
  moreover have "unat (a - of_nat A) = unat a - A" if "A \<le> unat a" using that A by (simp add: unat_sub word_le_nat_alt)
  ultimately show ?thesis unfolding readsect_def SECTSIZE_def o by (simp add: word_less_nat_alt)
qed

lemma readseg_loop_value:
  assumes "E \<le> A + 512 * n" and "n = 0 \<or> A + 512 * (n - 1) < E" and "A + 512 * n < 2 ^ 32" and "off + n \<le> 2 ^ 28" and "E < 2 ^ 32"
  shows "readseg_loop d (of_nat A) (of_nat E) (of_nat off) m =
    Some (\<lambda>a. if A \<le> unat a \<and> unat a < A + 512 * n then d (off + (unat a - A) div 512) ((unat a - A) mod 512) else m a)"
  using assms
proof (induction n arbitrary: A off m)
  case 0
  then show ?case by (subst readseg_loop.simps) (auto simp: word_less_nat_alt unat_small fun_eq_iff)
next
  case (Suc n)
  let ?m = "readsect d (of_nat A) (of_nat off) m"
  have "A < E" using Suc.prems(2) by simp
  then have "(of_nat A :: uint32) < of_nat E" using Suc.prems(3,5) by (simp add: word_less_nat_alt unat_small)
  then have "readseg_loop d (of_nat A) (of_nat E) (of_nat off) m = readseg_loop d (of_nat (A + 512)) (of_nat E) (of_nat (off + 1)) ?m"
    by (subst readseg_loop.simps) (simp add: SECTSIZE_def add.commute)
  also have "\<dots> = Some (\<lambda>a. if A + 512 \<le> unat a \<and> unat a < A + 512 + 512 * n
      then d (off + 1 + (unat a - (A + 512)) div 512) ((unat a - (A + 512)) mod 512) else ?m a)"
    by (rule Suc.IH) (use Suc.prems in auto)
  also have "(\<lambda>a. if A + 512 \<le> unat a \<and> unat a < A + 512 + 512 * n
      then d (off + 1 + (unat a - (A + 512)) div 512) ((unat a - (A + 512)) mod 512) else ?m a)
    = (\<lambda>a. if A \<le> unat a \<and> unat a < A + 512 * Suc n then d (off + (unat a - A) div 512) ((unat a - A) mod 512) else m a)"
  proof
    fix a
    have v: "?m a = (if A \<le> unat a \<and> unat a < A + 512 then d off (unat a - A) else m a)"
      by (rule readsect_value) (use Suc.prems(3,4) in simp_all)
    show "(if A + 512 \<le> unat a \<and> unat a < A + 512 + 512 * n
        then d (off + 1 + (unat a - (A + 512)) div 512) ((unat a - (A + 512)) mod 512) else ?m a)
      = (if A \<le> unat a \<and> unat a < A + 512 * Suc n then d (off + (unat a - A) div 512) ((unat a - A) mod 512) else m a)"
    proof (cases "A + 512 \<le> unat a")
      case True
      obtain x where x: "unat a = A + 512 + x" using True le_Suc_ex by blast
      have "x + 512 = 512 * 1 + x" by simp
      then have "(512 + x) div 512 = Suc (x div 512)" "(512 + x) mod 512 = x mod 512" by simp_all
      then show ?thesis using v x by (simp add: add.assoc)
    next
      case False
      then show ?thesis using v by auto
    qed
  qed
  finally show ?case .
qed

text \<open>The bytes that \<open>readseg\<close> writes: whole sectors.\<close>

definition seg_start :: "uint32 \<Rightarrow> nat" where "seg_start va = unat va mod 2 ^ 24"

definition footprint :: "uint32 \<Rightarrow> uint32 \<Rightarrow> nat set" where
  "footprint va count = {seg_start va div 512 * 512 ..< (seg_start va + unat count + 511) div 512 * 512}"

lemma boot_masks: "(0xFFFFFF :: uint32) = mask 24" "SECTSIZE - 1 = mask 9"
  by (simp_all add: mask_eq_exp_minus_1 SECTSIZE_def)

lemma seg_start_and: "unat (va AND 0xFFFFFF) = seg_start va"
  unfolding boot_masks seg_start_def by (rule unat_and_mask)

lemma sector_down: "unat (w AND NOT (SECTSIZE - 1)) = unat w div 512 * 512"
proof -
  have "w AND NOT (SECTSIZE - 1) = push_bit 9 (drop_bit 9 w)"
    unfolding boot_masks by (rule bit_word_eqI) (auto simp: bit_simps)
  also have "\<dots> = of_nat (unat w div 512 * 512)"
    by (simp add: drop_bit_eq_div push_bit_eq_mult word_arith_nat_div)
  finally have "unat (w AND NOT (SECTSIZE - 1)) = unat (of_nat (unat w div 512 * 512) :: uint32)" by simp
  also have "\<dots> = unat w div 512 * 512"
    by (rule unat_small) (rule le_less_trans [OF div_times_less_eq_dividend], simp add: unsigned_less [where ?'b = 32 and ?'a = nat, simplified])
  finally show ?thesis .
qed

lemma word_of_unat: "unat w = n \<Longrightarrow> w = (of_nat n :: uint32)"
  using unat_small [of n] unsigned_less [of w, where ?'a = nat] by (simp add: word_unat_eq_iff)

lemma readseg_value:
  assumes "seg_start va + unat count + 511 < 2 ^ 31"
  shows "\<exists>m'. readseg d va count offset m = Some m'
    \<and> (\<forall>a. unat a \<notin> footprint va count \<longrightarrow> m' a = m a)
    \<and> (\<forall>a. unat a \<in> footprint va count \<longrightarrow>
         m' a = d (unat offset div 512 + 1 + (unat a - seg_start va div 512 * 512) div 512) ((unat a - seg_start va div 512 * 512) mod 512))"
proof -
  let ?V = "seg_start va"
  define q r where "q = ?V div 512" and "r = (?V + unat count + 511) div 512"
  define n where "n = r - q"
  have qr: "512 * q \<le> ?V" "?V < 512 * q + 512" "512 * r \<le> ?V + unat count + 511" "?V + unat count + 511 < 512 * r + 512" "q \<le> r"
    unfolding q_def r_def by (auto intro: div_le_mono)
  have n: "512 * q + 512 * n = 512 * r" using qr(5) by (simp add: n_def algebra_simps)
  have va: "(va AND 0xFFFFFF) AND NOT (SECTSIZE - 1) = of_nat (512 * q)"
    by (rule word_of_unat) (simp only: sector_down seg_start_and q_def mult.commute)
  have en: "(va AND 0xFFFFFF) + count = of_nat (?V + unat count)"
    by (rule word_of_unat) (use assms in \<open>simp add: unat_word_ariths seg_start_and\<close>)
  have off: "offset div SECTSIZE + 1 = of_nat (unat offset div 512 + 1)"
    by (simp add: SECTSIZE_def word_arith_nat_div)
  have o: "unat offset div 512 < 2 ^ 23" using unsigned_less [of offset, where ?'a = nat] by (simp add: div_less_iff_less_mult)
  have r: "512 * r < 2 ^ 31" using qr(3) assms by simp
  have "readseg_loop d (of_nat (512 * q)) (of_nat (?V + unat count)) (of_nat (unat offset div 512 + 1)) m =
    Some (\<lambda>a. if 512 * q \<le> unat a \<and> unat a < 512 * q + 512 * n
       then d (unat offset div 512 + 1 + (unat a - 512 * q) div 512) ((unat a - 512 * q) mod 512) else m a)"
  proof (rule readseg_loop_value)
    show "?V + unat count \<le> 512 * q + 512 * n" using qr(4) unfolding n by simp
    show "n = 0 \<or> 512 * q + 512 * (n - 1) < ?V + unat count"
    proof (cases n)
      case (Suc k)
      then have "512 * q + 512 * k + 512 = 512 * r" using n by simp
      then show ?thesis using qr(3) Suc by simp
    qed simp
    show "512 * q + 512 * n < 2 ^ 32" using r unfolding n by simp
    show "unat offset div 512 + 1 + n \<le> 2 ^ 28" using o r n by simp
    show "?V + unat count < 2 ^ 32" using assms by simp
  qed
  then have "readseg d va count offset m = Some (\<lambda>a. if 512 * q \<le> unat a \<and> unat a < 512 * r
       then d (unat offset div 512 + 1 + (unat a - 512 * q) div 512) ((unat a - 512 * q) mod 512) else m a)"
    unfolding readseg_def Let_def va en off n .
  moreover have "footprint va count = {512 * q ..< 512 * r}" by (simp add: footprint_def q_def r_def mult.commute)
  ultimately show ?thesis by (simp add: q_def mult.commute)
qed

text \<open>When the address and the offset of a segment agree modulo the sector size, \<open>readseg\<close> returns and puts the bytes of
  the image at their addresses; it writes whole sectors and nothing outside them.\<close>

lemma readseg_loads:
  assumes "seg_start va + unat count + 511 < 2 ^ 31" and "seg_start va mod 512 = unat offset mod 512"
  shows "\<exists>m'. readseg d va count offset m = Some m'
    \<and> (\<forall>k < unat count. m' (of_nat (seg_start va + k)) = image_byte d (unat offset + k))
    \<and> (\<forall>a. unat a \<notin> footprint va count \<longrightarrow> m' a = m a)"
proof -
  let ?V = "seg_start va" and ?o = "unat offset"
  obtain m' where m': "readseg d va count offset m = Some m'" "\<forall>a. unat a \<notin> footprint va count \<longrightarrow> m' a = m a"
    "\<forall>a. unat a \<in> footprint va count \<longrightarrow>
         m' a = d (?o div 512 + 1 + (unat a - ?V div 512 * 512) div 512) ((unat a - ?V div 512 * 512) mod 512)"
    using readseg_value [OF assms(1)] by metis
  have "m' (of_nat (?V + k)) = image_byte d (?o + k)" if k: "k < unat count" for k
  proof -
    have u: "unat (of_nat (?V + k) :: uint32) = ?V + k" using assms(1) k by (intro unat_small) simp
    have V: "?V = ?V div 512 * 512 + ?o mod 512" using div_mult_mod_eq [of ?V 512] assms(2) by simp
    have "?V + k < (?V + unat count + 511) div 512 * 512"
      using k div_mult_mod_eq [of "?V + unat count + 511" 512] mod_less_divisor [of 512 "?V + unat count + 511"] by linarith
    then have "?V + k \<in> footprint va count" using V by (simp add: footprint_def trans_le_add1)
    then have "m' (of_nat (?V + k)) = d (?o div 512 + 1 + (?V + k - ?V div 512 * 512) div 512) ((?V + k - ?V div 512 * 512) mod 512)"
      using m'(3) u by simp
    also have "?V + k - ?V div 512 * 512 = ?o mod 512 + k" using V by simp
    also have "?o div 512 + 1 + (?o mod 512 + k) div 512 = (?o + k) div 512 + 1"
      using div_mult_self3 [of 512 "?o div 512" "?o mod 512 + k"] by (simp add: add.assoc [symmetric])
    also have "(?o mod 512 + k) mod 512 = (?o + k) mod 512" by (simp add: mod_add_left_eq)
    finally show ?thesis by (simp add: image_byte_def)
  qed
  then show ?thesis using m'(1,2) by blast
qed

section \<open>Loading the kernel\<close>

definition image32 :: "boot_disk \<Rightarrow> nat \<Rightarrow> uint32" where
  "image32 d n = word_of_bytes (image_byte d n) (image_byte d (n + 1)) (image_byte d (n + 2)) (image_byte d (n + 3))"

text \<open>Offset and number of the program headers, and the fields of header \<open>j\<close>, in the image.\<close>

definition phoff :: "boot_disk \<Rightarrow> nat" where "phoff d = unat (image32 d 28)"
definition phnum :: "boot_disk \<Rightarrow> nat" where "phnum d = unat (word_of_bytes (image_byte d 44) (image_byte d 45) 0 0)"
definition seg_va :: "boot_disk \<Rightarrow> nat \<Rightarrow> uint32" where "seg_va d j = image32 d (phoff d + 32 * j + 8)"
definition seg_size :: "boot_disk \<Rightarrow> nat \<Rightarrow> uint32" where "seg_size d j = image32 d (phoff d + 32 * j + 20)"
definition seg_offset :: "boot_disk \<Rightarrow> nat \<Rightarrow> uint32" where "seg_offset d j = image32 d (phoff d + 32 * j + 4)"

definition header_area :: "nat set" where "header_area = {0x10000 ..< 0x11000}"

text \<open>An image that the loader can load: the headers are in the first 4096 bytes, the segments lie below \<open>2 ^ 31\<close>, each
  at an address that agrees with its offset, and the sectors of no segment reach into another one or into the headers.\<close>

definition loadable :: "boot_disk \<Rightarrow> bool" where
  "loadable d \<longleftrightarrow> image32 d 0 = ELF_MAGIC \<and> phoff d + 32 * phnum d \<le> 4096 \<and>
     (\<forall>j < phnum d. seg_start (seg_va d j) + unat (seg_size d j) + 511 < 2 ^ 31
        \<and> seg_start (seg_va d j) mod 512 = unat (seg_offset d j) mod 512
        \<and> footprint (seg_va d j) (seg_size d j) \<inter> header_area = {}
        \<and> (\<forall>i < j. footprint (seg_va d i) (seg_size d i) \<inter> footprint (seg_va d j) (seg_size d j) = {}))"

definition loaded :: "boot_disk \<Rightarrow> nat \<Rightarrow> memory \<Rightarrow> bool" where
  "loaded d j m \<longleftrightarrow> (\<forall>k < unat (seg_size d j). m (of_nat (seg_start (seg_va d j) + k)) = image_byte d (unat (seg_offset d j) + k))"

definition header_read :: "boot_disk \<Rightarrow> memory \<Rightarrow> bool" where
  "header_read d m \<longleftrightarrow> (\<forall>i < 4096. m (ELFHDR + of_nat i) = image_byte d i)"

lemma header_field: "header_read d m \<Longrightarrow> n + 3 < 4096 \<Longrightarrow> mem32 m (ELFHDR + of_nat n) = image32 d n"
proof -
  assume h: "header_read d m" "n + 3 < 4096"
  have r: "m (ELFHDR + of_nat i) = image_byte d i" if "i < 4096" for i using h(1) that unfolding header_read_def by blast
  have "m (ELFHDR + of_nat n + 1) = image_byte d (n + 1)" "m (ELFHDR + of_nat n + 2) = image_byte d (n + 2)"
    "m (ELFHDR + of_nat n + 3) = image_byte d (n + 3)"
    using r [of "n + 1"] r [of "n + 2"] r [of "n + 3"] h(2) by (simp_all add: ac_simps)
  then show "mem32 m (ELFHDR + of_nat n) = image32 d n" using r [of n] h(2) unfolding mem32_def image32_def by simp
qed

lemma header_kept: "header_read d m \<Longrightarrow> F \<inter> header_area = {} \<Longrightarrow> \<forall>a. unat a \<notin> F \<longrightarrow> m' a = m a \<Longrightarrow> header_read d m'"
  unfolding header_read_def
proof (intro allI impI)
  fix i :: nat assume a: "\<forall>i<4096. m (ELFHDR + of_nat i) = image_byte d i" "F \<inter> header_area = {}"
    "\<forall>a. unat a \<notin> F \<longrightarrow> m' a = m a" "i < 4096"
  have "ELFHDR + of_nat i = of_nat (0x10000 + i)" by (simp add: ELFHDR_def)
  then have "unat (ELFHDR + of_nat i) = 0x10000 + i" using unat_small [of "0x10000 + i"] a(4) by simp
  then have "unat (ELFHDR + of_nat i) \<notin> F" using a(2,4) by (auto simp: header_area_def)
  then show "m' (ELFHDR + of_nat i) = image_byte d i" using a(1,3,4) by simp
qed

lemma loaded_kept:
  assumes "loaded d i m" and "seg_start (seg_va d i) + unat (seg_size d i) + 511 < 2 ^ 31"
    and "footprint (seg_va d i) (seg_size d i) \<inter> F = {}" and "\<forall>a. unat a \<notin> F \<longrightarrow> m' a = m a"
  shows "loaded d i m'"
  unfolding loaded_def
proof (intro allI impI)
  fix k assume k: "k < unat (seg_size d i)"
  let ?V = "seg_start (seg_va d i)" and ?c = "unat (seg_size d i)"
  have "unat (of_nat (?V + k) :: uint32) = ?V + k" using assms(2) k by (intro unat_small) simp
  moreover have "?V + k < (?V + ?c + 511) div 512 * 512"
    using k div_mult_mod_eq [of "?V + ?c + 511" 512] mod_less_divisor [of 512 "?V + ?c + 511"] by linarith
  then have "?V + k \<in> footprint (seg_va d i) (seg_size d i)" by (simp add: footprint_def trans_le_add1)
  ultimately have "unat (of_nat (?V + k) :: uint32) \<notin> F" using assms(3) by auto
  then show "m' (of_nat (?V + k)) = image_byte d (unat (seg_offset d i) + k)" using assms(1,4) k by (simp add: loaded_def)
qed

lemma load_segments_all:
  assumes l: "loadable d"
  shows "j + n = phnum d \<Longrightarrow> header_read d m \<Longrightarrow> \<forall>i < j. loaded d i m \<Longrightarrow>
    \<exists>m'. load_segments d (ELFHDR + of_nat (phoff d + 32 * j)) (ELFHDR + of_nat (phoff d + 32 * phnum d)) m = Some m'
      \<and> header_read d m' \<and> (\<forall>i < phnum d. loaded d i m')"
proof (induction n arbitrary: j m)
  case 0
  then show ?case by (subst load_segments.simps) simp
next
  case (Suc n)
  have j: "j < phnum d" using Suc.prems(1) by simp
  have b: "phoff d + 32 * phnum d \<le> 4096" using l by (simp add: loadable_def)
  have u: "unat (ELFHDR + of_nat x) = 0x10000 + x" if "x \<le> 4096" for x
  proof -
    have "ELFHDR + of_nat x = of_nat (0x10000 + x)" by (simp add: ELFHDR_def)
    then show ?thesis using unat_small [of "0x10000 + x"] that by simp
  qed
  let ?p = "phoff d + 32 * j"
  have le: "?p + 32 \<le> 4096" using j b by simp
  have lt: "ELFHDR + of_nat ?p < ELFHDR + of_nat (phoff d + 32 * phnum d)"
    unfolding word_less_nat_alt using u [of ?p] u [OF b] le j by simp
  have f: "mem32 m (ELFHDR + of_nat ?p + 8) = seg_va d j" "mem32 m (ELFHDR + of_nat ?p + 20) = seg_size d j"
    "mem32 m (ELFHDR + of_nat ?p + 4) = seg_offset d j"
    using header_field [OF Suc.prems(2), of "?p + 8"] header_field [OF Suc.prems(2), of "?p + 20"]
      header_field [OF Suc.prems(2), of "?p + 4"] le by (simp_all add: seg_va_def seg_size_def seg_offset_def add.assoc)
  note s = l [unfolded loadable_def, THEN conjunct2, THEN conjunct2, rule_format, OF j]
  let ?F = "footprint (seg_va d j) (seg_size d j)"
  obtain m1 where m1: "readseg d (seg_va d j) (seg_size d j) (seg_offset d j) m = Some m1"
    "\<forall>k < unat (seg_size d j). m1 (of_nat (seg_start (seg_va d j) + k)) = image_byte d (unat (seg_offset d j) + k)"
    "\<forall>a. unat a \<notin> ?F \<longrightarrow> m1 a = m a"
    using readseg_loads [of "seg_va d j" "seg_size d j" "seg_offset d j" d m] s by blast
  have "header_read d m1" by (rule header_kept [OF Suc.prems(2) _ m1(3)]) (use s in blast)
  moreover have "loaded d i m1" if "i < Suc j" for i
  proof (cases "i = j")
    case True
    then show ?thesis using m1(2) by (simp add: loaded_def)
  next
    case False
    then have i: "i < j" using that by simp
    have "seg_start (seg_va d i) + unat (seg_size d i) + 511 < 2 ^ 31"
      using l i j unfolding loadable_def by (meson less_trans)
    then show ?thesis using loaded_kept [OF _ _ _ m1(3), of d i] Suc.prems(3) i s by blast
  qed
  ultimately obtain m' where "load_segments d (ELFHDR + of_nat (phoff d + 32 * Suc j)) (ELFHDR + of_nat (phoff d + 32 * phnum d)) m1 = Some m'"
    "header_read d m'" "\<forall>i < phnum d. loaded d i m'"
    using Suc.IH [of "Suc j" m1] Suc.prems(1) by auto
  moreover have nx: "ELFHDR + of_nat ?p + 32 = ELFHDR + of_nat (phoff d + 32 * Suc j)" by (simp add: algebra_simps)
  have "load_segments d (ELFHDR + of_nat ?p) (ELFHDR + of_nat (phoff d + 32 * phnum d)) m
      = load_segments d (ELFHDR + of_nat (phoff d + 32 * Suc j)) (ELFHDR + of_nat (phoff d + 32 * phnum d)) m1"
    by (subst load_segments.simps) (simp only: lt f m1(1) if_True Option.bind.bind_lunit nx)
  ultimately show ?case by (simp only:) blast
qed

lemma cmain_reads_header:
  "\<exists>m1. readseg d ELFHDR (SECTSIZE * 8) 0 m = Some m1 \<and> header_read d m1 \<and> mem32 m1 ELFHDR = image32 d 0"
proof -
  have z: "seg_start ELFHDR = 0x10000" "unat (SECTSIZE * 8) = 4096"
    by (simp_all add: seg_start_def ELFHDR_def SECTSIZE_def)
  obtain m1 where m1: "readseg d ELFHDR (SECTSIZE * 8) 0 m = Some m1" "\<forall>k < 4096. m1 (of_nat (0x10000 + k)) = image_byte d k"
    using readseg_loads [of ELFHDR "SECTSIZE * 8" 0 d m] unfolding z by auto
  have h: "header_read d m1" using m1(2) by (simp add: header_read_def ELFHDR_def)
  then show ?thesis using m1(1) header_field [OF h, of 0] by simp
qed

lemma cmain_bad: "image32 d 0 \<noteq> ELF_MAGIC \<Longrightarrow> \<exists>m'. cmain d m = Some (None, m')"
  using cmain_reads_header [of d m] by (auto simp: cmain_def)

text \<open>C23: on a loadable image the boot loader returns, with every segment in memory at its address in the low 16 megabytes,
  and jumps to the entry point.\<close>

theorem cmain_loads:
  assumes l: "loadable d"
  shows "\<exists>m'. cmain d m = Some (Some (image32 d 24 AND 0xFFFFFF), m')
    \<and> (\<forall>j < phnum d. \<forall>k < unat (seg_size d j).
         m' (of_nat (seg_start (seg_va d j) + k)) = image_byte d (unat (seg_offset d j) + k))"
proof -
  obtain m1 where m1: "readseg d ELFHDR (SECTSIZE * 8) 0 m = Some m1" "header_read d m1" "mem32 m1 ELFHDR = image32 d 0"
    using cmain_reads_header by blast
  note h = m1(2)
  have ph: "mem32 m1 (ELFHDR + 28) = of_nat (phoff d)" using header_field [OF h, of 28] by (simp add: phoff_def)
  have "m1 (ELFHDR + 44) = image_byte d 44" "m1 (ELFHDR + 45) = image_byte d 45"
    using h [unfolded header_read_def, rule_format, of 44] h [unfolded header_read_def, rule_format, of 45] by simp_all
  then have pn: "word_of_bytes (m1 (ELFHDR + 44)) (m1 (ELFHDR + 45)) 0 0 = of_nat (phnum d)" by (simp add: phnum_def)
  obtain m' where m': "load_segments d (ELFHDR + of_nat (phoff d)) (ELFHDR + of_nat (phoff d + 32 * phnum d)) m1 = Some m'"
    "header_read d m'" "\<forall>i < phnum d. loaded d i m'"
    using load_segments_all [OF l, of 0 "phnum d" m1] h by auto
  have e: "mem32 m' (ELFHDR + 24) = image32 d 24" using header_field [OF m'(2), of 24] by simp
  have "ELFHDR + of_nat (phoff d) + 32 * of_nat (phnum d) = ELFHDR + of_nat (phoff d + 32 * phnum d)" by (simp add: add.assoc)
  moreover have "image32 d 0 = ELF_MAGIC" using l by (simp add: loadable_def)
  ultimately have "cmain d m = Some (Some (image32 d 24 AND 0xFFFFFF), m')"
    unfolding cmain_def m1(1) Option.bind.bind_lunit Let_def ph pn m1(3) using m'(1) e by (simp only: Option.bind.bind_lunit simp_thms if_False)
  then show ?thesis using m'(3) unfolding loaded_def by blast
qed

section \<open>Example\<close>

text \<open>An image with one segment of four bytes at offset 512, for address \<open>0x100000\<close>, and entry point \<open>0xF010000C\<close>.\<close>

definition boot_example :: boot_disk where
  "boot_example s i =
     (if s = 1 then
        ((\<lambda>_. 0)(0 := 0x7F, 1 := 0x45, 2 := 0x4C, 3 := 0x46, 24 := 0x0C, 26 := 0x10, 27 := 0xF0, 28 := 52, 44 := 1,
           57 := 2, 62 := 0x10, 72 := 4)) i
      else if s = 2 \<and> i = 0 then 0xFA else 0)"

lemma boot_example_fields: "image32 boot_example 0 = ELF_MAGIC" "image32 boot_example 24 = 0xF010000C" "phoff boot_example = 52"
  "phnum boot_example = 1" "seg_va boot_example 0 = 0x100000" "seg_size boot_example 0 = 4" "seg_offset boot_example 0 = 512"
proof -
  show ph: "phoff boot_example = 52"
    by (simp add: phoff_def image32_def image_byte_def boot_example_def word_of_bytes_def)
  show "image32 boot_example 0 = ELF_MAGIC" "image32 boot_example 24 = 0xF010000C" "phnum boot_example = 1"
    by (simp_all add: phnum_def image32_def image_byte_def boot_example_def word_of_bytes_def ELF_MAGIC_def)
  show "seg_va boot_example 0 = 0x100000" "seg_size boot_example 0 = 4" "seg_offset boot_example 0 = 512"
    by (simp_all add: seg_va_def seg_size_def seg_offset_def ph image32_def image_byte_def boot_example_def word_of_bytes_def)
qed

theorem cmain_loads_witness:
  "\<forall>m. \<exists>m'. cmain boot_example m = Some (Some 0x10000C, m') \<and> m' 0x100000 = 0xFA \<and> m' 0x100003 = 0"
proof
  fix m
  note f = boot_example_fields
  have fp: "footprint 0x100000 4 = {0x100000 ..< 0x100200}" by (simp add: footprint_def seg_start_def)
  have "loadable boot_example"
    unfolding loadable_def f by (simp add: f fp seg_start_def header_area_def)
  from cmain_loads [OF this, of m] obtain m' where m': "cmain boot_example m = Some (Some 0x10000C, m')"
    "\<forall>k < 4. m' (0x100000 + of_nat k) = image_byte boot_example (512 + k)"
    by (auto simp: f seg_start_def)
  then show "\<exists>m'. cmain boot_example m = Some (Some 0x10000C, m') \<and> m' 0x100000 = 0xFA \<and> m' 0x100003 = 0"
    using m'(2) [rule_format, of 0] m'(2) [rule_format, of 3]
    by (intro exI [of _ m']) (simp add: image_byte_def boot_example_def)
qed

section \<open>Reading a sector through the ports\<close>

partial_function (option) waitdisk :: "'d ports \<Rightarrow> 'd \<Rightarrow> 'd option" where
  "waitdisk P d = (let (r, d) = inb P 0x1F7 d in if r AND 0xC0 \<noteq> 0x40 then waitdisk P d else Some d)"

text \<open>\<open>insl\<close> stores 128 words, the least significant byte of each first.\<close>

definition store_longs :: "uint32 \<Rightarrow> (nat \<Rightarrow> uint32) \<Rightarrow> memory \<Rightarrow> memory" where
  "store_longs dst ws m =
     (\<lambda>a. if a - dst < SECTSIZE then byte_of (ws (unat (a - dst) div 4)) (unat (a - dst) mod 4) else m a)"

definition readsect_command :: "'d ports \<Rightarrow> uint32 \<Rightarrow> 'd \<Rightarrow> 'd" where
  "readsect_command P offset d =
     (let d = outb P 0x1F2 1 d;
          d = outb P 0x1F3 (ucast offset) d;
          d = outb P 0x1F4 (ucast (drop_bit 8 offset)) d;
          d = outb P 0x1F5 (ucast (drop_bit 16 offset)) d;
          d = outb P 0x1F6 (ucast (drop_bit 24 offset OR 0xE0)) d
      in outb P 0x1F7 0x20 d)"

definition pio_readsect :: "'d ports \<Rightarrow> uint32 \<Rightarrow> uint32 \<Rightarrow> memory \<Rightarrow> 'd \<Rightarrow> (memory \<times> 'd) option" where
  "pio_readsect P dst offset m d =
     Option.bind (waitdisk P d) (\<lambda>d.
     Option.bind (waitdisk P (readsect_command P offset d)) (\<lambda>d.
       let (ws, d) = insl P 0x1F0 128 d in Some (store_longs dst ws m, d)))"

text \<open>The sectors of a drive as bytes.\<close>

definition bytes_of_sectors :: "(nat \<Rightarrow> nat \<Rightarrow> uint32) \<Rightarrow> boot_disk" where
  "bytes_of_sectors ss = (\<lambda>n i. byte_of (ss n (i div 4)) (i mod 4))"

context ata_drive
begin

lemma waitdisk_returns: "\<exists>d'. waitdisk P d = Some d' \<and> view d' = view d"
proof (induction "wait d" arbitrary: d rule: less_induct)
  case less
  obtain r d1 where s: "inb P 0x1F7 d = (r, d1)" by force
  have v: "view d1 = view d" using poll_view [of d] s by simp
  have m: "status_ready r \<longleftrightarrow> r AND 0xC0 = 0x40" by (simp add: status_ready_def IDE_BSY_def IDE_DRDY_def)
  show ?case
  proof (cases "status_ready r")
    case True
    then show ?thesis using s v m by (subst waitdisk.simps) simp
  next
    case False
    then have "wait d1 < wait d" using poll_wait [of d] s by simp
    from less [OF this] show ?thesis using False s v m by (subst waitdisk.simps) simp
  qed
qed

lemma readsect_command_view:
  "xfer_left (view (readsect_command P offset d)) = 1"
  "xfer_lba (view (readsect_command P offset d)) = unat offset mod 2 ^ 28"
  "\<not> xfer_write (view (readsect_command P offset d))"
  "sectors (view (readsect_command P offset d)) = sectors (view d)"
proof -
  have e: "ucast (drop_bit 24 offset OR 0xE0) = (0xE0 OR ucast (drop_bit 24 offset) :: uint8)"
    by (simp add: unsigned_or_eq or.commute)
  have l: "unat (take_bit 28 offset) = unat offset mod 2 ^ 28" by (simp add: take_bit_eq_mod unat_mod)
  show "xfer_lba (view (readsect_command P offset d)) = unat offset mod 2 ^ 28"
    unfolding l [symmetric] word_of_bytes_low28 [symmetric]
    by (simp add: readsect_command_def out_register out_read start_xfer_def lba_of_def e low_nibble)
qed (simp_all add: readsect_command_def out_register out_read start_xfer_def count_of_def)

lemma pio_readsect_returns:
  "\<exists>d'. pio_readsect P dst offset m d = Some (readsect (bytes_of_sectors (sectors (view d))) dst offset m, d') \<and>
     sectors (view d') = sectors (view d)" if "\<not> fail (unat offset mod 2 ^ 28)"
proof -
  obtain d1 where d1: "waitdisk P d = Some d1" "view d1 = view d" using waitdisk_returns by blast
  obtain d2 where d2: "waitdisk P (readsect_command P offset d1) = Some d2" "view d2 = view (readsect_command P offset d1)"
    using waitdisk_returns by blast
  have "xfer_left (view d2) = 1" "xfer_lba (view d2) = unat offset mod 2 ^ 28" "\<not> xfer_write (view d2)"
    "sectors (view d2) = sectors (view d)"
    using readsect_command_view [of offset d1] d1 d2 by simp_all
  note v = this
  have ws: "fst (insl P 0x1F0 128 d2) i = sectors (view d) (unat offset mod 2 ^ 28) i" if "i < 128" for i
    using in_data [of d2 i] v that \<open>\<not> fail (unat offset mod 2 ^ 28)\<close> by simp
  have "store_longs dst (fst (insl P 0x1F0 128 d2)) m = readsect (bytes_of_sectors (sectors (view d))) dst offset m"
  proof
    fix a
    have "unat (a - dst) div 4 < 128" if "a - dst < SECTSIZE"
      using that by (simp add: SECTSIZE_def word_less_nat_alt)
    then show "store_longs dst (fst (insl P 0x1F0 128 d2)) m a = readsect (bytes_of_sectors (sectors (view d))) dst offset m a"
      by (simp add: store_longs_def readsect_def bytes_of_sectors_def ws)
  qed
  then show ?thesis
    using in_view [of d2] v by (simp add: pio_readsect_def d1 d2 split_beta next_sector_def)
qed

end

text \<open>A sector that the drive can read arrives in memory, whatever time the drive takes.\<close>

lemma pio_readsect_correct:
  "\<not> F (unat offset mod 2 ^ 28) \<Longrightarrow>
   \<exists>d'. pio_readsect (drive_ports F W g) dst offset m d = Some (readsect (bytes_of_sectors (sectors (drive_ata d))) dst offset m, d') \<and>
     sectors (drive_ata d') = sectors (drive_ata d)"
  by (rule ide.pio_readsect_returns)

end
