(* ===== verification/Console.thy ===== *)
theory Console
  imports Printfmt
begin

text \<open>
  The console (\<^verbatim>\<open>kern/console.c\<close>) and the line editor (\<^verbatim>\<open>lib/readline.c\<close>, \<^verbatim>\<open>lib/console.c\<close>). The devices
  are arguments: the bytes that the keyboard controller and the serial port deliver before they report
  that nothing is waiting, and the characters that \<open>getchar\<close> returns one after the other. The state is
  the record \<open>console\<close>: the text on the screen and the cursor, the modifier keys, and the circular buffer.
  Output to ports (parallel port, position of the cursor, speed of the serial line) is not recorded.
\<close>

section \<open>State\<close>

type_synonym uint16 = "16 word"

record console =
  text_length :: int
  serial_exists :: bool
  crt_buf :: "nat \<Rightarrow> uint16"      \<comment> \<open>the video memory from \<open>crt_buf\<close> on\<close>
  crt_pos :: uint16
  kbd_shift :: uint32              \<comment> \<open>the variable \<open>shift\<close> of \<open>kbd_proc_data\<close>\<close>
  cons_buf :: "nat \<Rightarrow> uint8"
  rpos :: nat
  wpos :: nat

definition CRT_COLS :: nat where "CRT_COLS = 80"

definition CRT_SIZE :: nat where "CRT_SIZE = 25 * CRT_COLS"

definition CONSBUFSIZE :: nat where "CONSBUFSIZE = 512"

text \<open>Codes of the special keys.\<close>

definition KEY_HOME :: uint8 where "KEY_HOME = 0xe0"

definition KEY_END :: uint8 where "KEY_END = 0xe1"

definition KEY_UP :: uint8 where "KEY_UP = 0xe2"

definition KEY_DN :: uint8 where "KEY_DN = 0xe3"

definition KEY_LF :: uint8 where "KEY_LF = 0xe4"

definition KEY_RT :: uint8 where "KEY_RT = 0xe5"

definition KEY_PGUP :: uint8 where "KEY_PGUP = 0xe6"

definition KEY_PGDN :: uint8 where "KEY_PGDN = 0xe7"

definition KEY_INS :: uint8 where "KEY_INS = 0xe8"

definition KEY_DEL :: uint8 where "KEY_DEL = 0xe9"

definition KEY_SPACE :: uint8 where "KEY_SPACE = 0xFF"

lemmas key_defs = KEY_HOME_def KEY_END_def KEY_UP_def KEY_DN_def KEY_LF_def KEY_RT_def KEY_PGUP_def
  KEY_PGDN_def KEY_INS_def KEY_DEL_def KEY_SPACE_def

section \<open>The screen\<close>

text \<open>The last part of \<open>cga_putc\<close>: a cursor behind the last cell scrolls the screen by a line.\<close>

definition cga_scroll :: "console \<Rightarrow> console" where
  "cga_scroll s =
     (if CRT_SIZE \<le> unat (crt_pos s) then
        s\<lparr>crt_buf := (\<lambda>i. if i < CRT_SIZE - CRT_COLS then crt_buf s (i + CRT_COLS)
                          else if i < CRT_SIZE then 0x0700 OR 32 else crt_buf s i),
          crt_pos := crt_pos s - of_nat CRT_COLS\<rparr>
      else s)"

lemma low_byte: "(c OR 0x0700) AND 0xFF = c AND (0xFF :: uint32)"
  by (simp add: bit.conj_disj_distrib2)

function cga_putc :: "uint32 \<Rightarrow> console \<Rightarrow> console" where
  "cga_putc c s =
     (let c = (if c AND NOT 0xFF = 0 then c OR 0x0700 else c);
          ch = c AND 0xFF; pos = crt_pos s in
      cga_scroll
        (if ch = 8 then
           (if 0 < pos then s\<lparr>crt_pos := pos - 1, crt_buf := (crt_buf s)(unat (pos - 1) := ucast (c AND NOT 0xFF OR 32))\<rparr>
            else s)
         else if ch = 10 then
           (let pos = pos + of_nat CRT_COLS in s\<lparr>text_length := 0, crt_pos := pos - pos mod of_nat CRT_COLS\<rparr>)
         else if ch = 13 then s\<lparr>crt_pos := pos - pos mod of_nat CRT_COLS\<rparr>
         else if ch = 9 then cga_putc 32 (cga_putc 32 (cga_putc 32 (cga_putc 32 (cga_putc 32 s))))
         else if ch = 228 then (if 0 < pos then s\<lparr>crt_pos := pos - 1\<rparr> else s)
         else if ch = 229 then (if unat pos < CRT_SIZE then s\<lparr>crt_pos := pos + 1\<rparr> else s)
         else if c \<noteq> ucast KEY_LF \<and> c \<noteq> ucast KEY_RT then
           (let pos' = pos + 1; s = s\<lparr>crt_buf := (crt_buf s)(unat pos := ucast c), crt_pos := pos'\<rparr> in
            if int (unat pos') > 1920 + text_length s then s\<lparr>text_length := text_length s + 1\<rparr> else s)
         else s))"
  by auto
termination
  by (relation "measure (\<lambda>(c, s). if c AND 0xFF = 9 then 1 else 0)")
    (auto simp: low_byte split: if_splits)

declare cga_putc.simps [simp del]

definition cons_putc :: "uint32 \<Rightarrow> console \<Rightarrow> console" where
  "cons_putc c s = cga_putc c s"

definition cputchar :: "uint32 \<Rightarrow> console \<Rightarrow> console" where
  "cputchar c s = cons_putc c s"

section \<open>The keyboard\<close>

definition SHIFT :: uint32 where "SHIFT = 1"

definition CTL :: uint32 where "CTL = 2"

definition ALT :: uint32 where "ALT = 4"

definition CAPSLOCK :: uint32 where "CAPSLOCK = 8"

definition NUMLOCK :: uint32 where "NUMLOCK = 16"

definition SCROLLLOCK :: uint32 where "SCROLLLOCK = 32"

definition E0ESC :: uint32 where "E0ESC = 64"

lemmas shift_defs = SHIFT_def CTL_def ALT_def CAPSLOCK_def NUMLOCK_def SCROLLLOCK_def E0ESC_def

definition shiftcode :: "uint8 \<Rightarrow> uint32" where
  "shiftcode d = (if d = 0x1D then CTL else if d = 0x2A then SHIFT else if d = 0x36 then SHIFT
     else if d = 0x38 then ALT else if d = 0x9D then CTL else if d = 0xB8 then ALT else 0)"

definition togglecode :: "uint8 \<Rightarrow> uint32" where
  "togglecode d = (if d = 0x3A then CAPSLOCK else if d = 0x45 then NUMLOCK else if d = 0x46 then SCROLLLOCK else 0)"

text \<open>A table of 256 codes from its first entries and the entries that have a designator.\<close>

definition key_table :: "uint8 list \<Rightarrow> (uint8 \<times> uint8) list \<Rightarrow> uint8 \<Rightarrow> uint8" where
  "key_table low ext d =
     (case map_of ext d of Some c \<Rightarrow> c | None \<Rightarrow> if unat d < length low then low ! unat d else 0)"

definition extended_keys :: "(uint8 \<times> uint8) list" where
  "extended_keys =
    [(0x97, KEY_HOME), (0x9c, 10), (0xb5, 47), (0xc8, KEY_UP), (0xc9, KEY_PGUP), (0xcb, KEY_LF),
     (0xcd, KEY_RT), (0xcf, KEY_END), (0xd0, KEY_DN), (0xd1, KEY_PGDN), (0xd2, KEY_INS), (0xd3, KEY_DEL)]"

definition normalmap :: "uint8 \<Rightarrow> uint8" where
  "normalmap = key_table
    [0, 27, 49, 50, 51, 52, 53, 54, 55, 56, 57, 48, 45, 61, 8, 9, 113, 119, 101, 114, 116, 121, 117,
     105, 111, 112, 91, 93, 10, 0, 97, 115, 100, 102, 103, 104, 106, 107, 108, 59, 39, 96, 0, 92,
     122, 120, 99, 118, 98, 110, 109, 44, 46, 47, 0, 42, 0, 32, 0, 0, 0, 0, 0, 0, 0, 0, 0, 0, 0, 0,
     0, 55, 56, 57, 45, 52, 53, 54, 43, 49, 50, 51, 48, 46, 0, 0, 0, 0]
    extended_keys"

definition shiftmap :: "uint8 \<Rightarrow> uint8" where
  "shiftmap = key_table
    [0, 27, 33, 64, 35, 36, 37, 94, 38, 42, 40, 41, 95, 43, 8, 9, 81, 87, 69, 82, 84, 89, 85, 73,
     79, 80, 123, 125, 10, 0, 65, 83, 68, 70, 71, 72, 74, 75, 76, 58, 34, 126, 0, 124, 90, 88, 67,
     86, 66, 78, 77, 60, 62, 63, 0, 42, 0, 32, 0, 0, 0, 0, 0, 0, 0, 0, 0, 0, 0, 0, 0, 55, 56, 57,
     45, 52, 53, 54, 43, 49, 50, 51, 48, 46, 0, 0, 0, 0]
    extended_keys"

definition ctlmap :: "uint8 \<Rightarrow> uint8" where
  "ctlmap = key_table
    [0, 0, 0, 0, 0, 0, 0, 0, 0, 0, 0, 0, 0, 0, 0, 0, 17, 23, 5, 18, 20, 25, 21, 9, 15, 16, 0, 0, 13,
     0, 1, 19, 4, 6, 7, 8, 10, 11, 12, 0, 0, 0, 0, 28, 26, 24, 3, 22, 2, 14, 13, 0, 0, 239, 0, 0]
    [(0x39, KEY_SPACE), (0x97, KEY_HOME), (0xb5, 239), (0xc8, KEY_UP), (0xc9, KEY_PGUP), (0xcb, KEY_LF), (0xcd, KEY_RT),
     (0xcf, KEY_END), (0xd0, KEY_DN), (0xd1, KEY_PGDN), (0xd2, KEY_INS), (0xd3, KEY_DEL)]"

definition charcode :: "uint32 \<Rightarrow> uint8 \<Rightarrow> uint8" where
  "charcode sh = (if sh AND (CTL OR SHIFT) = 0 then normalmap
     else if sh AND (CTL OR SHIFT) = SHIFT then shiftmap else ctlmap)"

text \<open>The branch for \<open>KEY_DEL\<close>: the cells behind the cursor move one to the left, up to the end of the line.\<close>

definition delete_char :: "console \<Rightarrow> uint8 \<times> console" where
  "delete_char s =
     (if 0 < text_length s then
        (if int (unat (crt_pos s)) = 1920 + text_length s then (0, s)
         else
           let s = s\<lparr>text_length := text_length s - 1\<rparr>;
               n = nat (text_length s - (int (unat (crt_pos s)) - 1925) + 1)
           in (KEY_DEL, s\<lparr>crt_buf := fold (\<lambda>i b. b(i := b (i + 1)))
                 [unat (crt_pos s)..<unat (crt_pos s) + n] (crt_buf s)\<rparr>))
      else (0, s))"

text \<open>The locks, and the characters that are dropped; the code for Ctrl-Alt-Del that follows is not reached,
  since \<open>KEY_DEL\<close> was handled before.\<close>

definition lock_keys :: "uint32 \<Rightarrow> uint8 \<Rightarrow> uint8" where
  "lock_keys shift c =
     (let c = (if shift AND CAPSLOCK \<noteq> 0 then
                 (if 97 \<le> c \<and> c \<le> 122 then c - 32 else if 65 \<le> c \<and> c \<le> 90 then c + 32 else c)
               else c) in
      if shift = NUMLOCK \<and> 48 \<le> c \<and> c \<le> 57 then 0 else if c = 255 then 0 else c)"

text \<open>A key that went down.\<close>

definition kbd_key :: "uint8 \<Rightarrow> console \<Rightarrow> uint8 \<times> console" where
  "kbd_key data s =
     (let shift = (kbd_shift s OR shiftcode data) XOR togglecode data;
          s = s\<lparr>kbd_shift := shift\<rparr>;
          c = charcode shift data in
      if c = KEY_DEL then delete_char s else (lock_keys shift c, s))"

text \<open>\<open>kbd_proc_data\<close> for a byte from the controller; the character is 0 when the key gives none.\<close>

definition kbd_proc_data :: "uint8 \<Rightarrow> console \<Rightarrow> uint8 \<times> console" where
  "kbd_proc_data data s =
     (let shift = kbd_shift s in
      if data = 0xE0 then (0, s\<lparr>kbd_shift := shift OR E0ESC\<rparr>)
      else if data AND 0x80 \<noteq> 0 then
        (let data = (if shift AND E0ESC \<noteq> 0 then data else data AND 0x7F)
         in (0, s\<lparr>kbd_shift := shift AND NOT (shiftcode data OR E0ESC)\<rparr>))
      else if shift AND E0ESC \<noteq> 0 then kbd_key (data OR 0x80) (s\<lparr>kbd_shift := shift AND NOT E0ESC\<rparr>)
      else kbd_key data s)"

section \<open>The input buffer\<close>

definition cons_put :: "uint8 \<Rightarrow> console \<Rightarrow> console" where
  "cons_put c s =
     (if c = 0 then s
      else s\<lparr>cons_buf := (cons_buf s)(wpos s := c), wpos := (if wpos s + 1 = CONSBUFSIZE then 0 else wpos s + 1)\<rparr>)"

definition cons_get :: "console \<Rightarrow> uint8 \<times> console" where
  "cons_get s =
     (if rpos s \<noteq> wpos s then
        (cons_buf s (rpos s), s\<lparr>rpos := (if rpos s + 1 = CONSBUFSIZE then 0 else rpos s + 1)\<rparr>)
      else (0, s))"

text \<open>\<open>cons_intr\<close> with each of the two devices.\<close>

definition serial_intr :: "uint8 list \<Rightarrow> console \<Rightarrow> console" where
  "serial_intr bytes s = (if serial_exists s then fold cons_put bytes s else s)"

definition kbd_byte :: "uint8 \<Rightarrow> console \<Rightarrow> console" where
  "kbd_byte data s = (let (c, s) = kbd_proc_data data s in cons_put c s)"

definition kbd_intr :: "uint8 list \<Rightarrow> console \<Rightarrow> console" where
  "kbd_intr bytes s = fold kbd_byte bytes s"

definition cons_getc :: "uint8 list \<Rightarrow> uint8 list \<Rightarrow> console \<Rightarrow> uint8 \<times> console" where
  "cons_getc serial kbd s = cons_get (kbd_intr kbd (serial_intr serial s))"

text \<open>\<open>cons_getc2\<close> polls each device once; \<open>None\<close> is a device with nothing waiting. Its \<open>c2 > 0\<close> holds for
  every character but 0.\<close>

definition cons_getc2 :: "uint8 option \<Rightarrow> uint8 option \<Rightarrow> console \<Rightarrow> uint8 \<times> console" where
  "cons_getc2 serial kbd s =
     (let s = (case serial of None \<Rightarrow> s | Some c1 \<Rightarrow> if serial_exists s then cons_put c1 s else s) in
      case kbd of None \<Rightarrow> (0, s)
      | Some data \<Rightarrow>
          let (c2, s) = kbd_proc_data data s; s = cons_put c2 s
          in if c2 \<noteq> 0 then cons_get s else (0, s))"

text \<open>\<open>serial_init\<close> and \<open>cga_init\<close>: what the status port and the video memory answered. \<open>cga_present\<close> is the
  outcome of writing \<open>0xA55A\<close> to the colour display and reading it back.\<close>

definition serial_init :: "uint8 \<Rightarrow> console \<Rightarrow> console" where
  "serial_init lsr s = s\<lparr>serial_exists := (lsr \<noteq> 0xFF)\<rparr>"

definition cga_init :: "uint8 \<Rightarrow> uint8 \<Rightarrow> (nat \<Rightarrow> uint16) \<Rightarrow> console \<Rightarrow> console" where
  "cga_init pos_high pos_low video s = s\<lparr>crt_buf := video, crt_pos := 256 * ucast pos_high OR ucast pos_low\<rparr>"

definition console_initialize :: "uint8 \<Rightarrow> uint8 \<Rightarrow> (nat \<Rightarrow> uint16) \<Rightarrow> uint8 \<Rightarrow> console \<Rightarrow> console" where
  "console_initialize pos_high pos_low video lsr s = serial_init lsr (cga_init pos_high pos_low video s)"

section \<open>The line editor\<close>

definition BUFLEN :: nat where "BUFLEN = 1024"

text \<open>\<open>readline\<close> on the characters that \<open>getchar\<close> returns, with \<open>i\<close> characters in the buffer; the result is the
  memory, the characters that are echoed and the input that is left. \<open>None\<close>: it still waits for input.\<close>

fun readline_loop :: "int list \<Rightarrow> memory \<Rightarrow> uint32 \<Rightarrow> nat \<Rightarrow> int list \<Rightarrow> (memory \<times> int list \<times> int list) option" where
  "readline_loop [] m buf i out = None"
| "readline_loop (c # cs) m buf i out =
     (if c < 0 then Some (m, out, cs)
      else if 32 \<le> c \<and> i < BUFLEN - 1 then readline_loop cs (m(buf + of_nat i := of_int c)) buf (i + 1) (out @ [c])
      else if c = 8 \<and> 0 < i then readline_loop cs m buf (i - 1) (out @ [c])
      else if c = 10 \<or> c = 13 then Some (m(buf + of_nat i := 0), out @ [c], cs)
      else readline_loop cs m buf i out)"

definition readline :: "int list \<Rightarrow> memory \<Rightarrow> uint32 \<Rightarrow> (memory \<times> int list \<times> int list) option" where
  "readline input m buf = readline_loop input m buf 0 []"

text \<open>\<open>atomic_readline\<close> runs the same loop with the interrupts disabled and enables them on each of its returns; the last
  component is the interrupt flag.\<close>

definition atomic_readline :: "int list \<Rightarrow> memory \<Rightarrow> uint32 \<Rightarrow> (memory \<times> int list \<times> int list \<times> bool) option" where
  "atomic_readline input m buf =
     map_option (\<lambda>(m, out, rest). (m, out, rest, True)) (readline_loop input m buf 0 [])"

section \<open>Properties of the screen\<close>

definition screen_ok :: "console \<Rightarrow> bool" where
  "screen_ok s \<longleftrightarrow> unat (crt_pos s) < CRT_SIZE \<and> 0 \<le> text_length s \<and> text_length s \<le> 80"

text \<open>What no output touches: the cells behind the screen, the keyboard and the input buffer.\<close>

definition off_screen :: "console \<Rightarrow> (nat \<Rightarrow> uint16) \<times> uint32 \<times> (nat \<Rightarrow> uint8) \<times> nat \<times> nat \<times> bool" where
  "off_screen s = (\<lambda>i. crt_buf s (i + CRT_SIZE), kbd_shift s, cons_buf s, rpos s, wpos s, serial_exists s)"

lemmas screen_defs = CRT_SIZE_def CRT_COLS_def

lemma cga_scroll_ok:
  assumes "unat (crt_pos s) < CRT_SIZE + CRT_COLS" and "0 \<le> text_length s" and "text_length s \<le> 80"
  shows "screen_ok (cga_scroll s)" and "off_screen (cga_scroll s) = off_screen s"
  using assms by (auto simp: cga_scroll_def screen_ok_def off_screen_def screen_defs unat_sub word_le_nat_alt)

lemma line_start:
  fixes p :: uint16
  shows "unat (p - p mod of_nat CRT_COLS) = unat p - unat p mod CRT_COLS"
    and "unat p < CRT_SIZE \<Longrightarrow> unat (p + of_nat CRT_COLS) = unat p + CRT_COLS"
proof -
  have "p mod of_nat CRT_COLS \<le> p" by (simp add: word_le_nat_alt unat_mod)
  then show "unat (p - p mod of_nat CRT_COLS) = unat p - unat p mod CRT_COLS"
    by (simp add: unat_sub unat_mod screen_defs)
  show "unat (p + of_nat CRT_COLS) = unat p + CRT_COLS" if "unat p < CRT_SIZE"
    using that by (simp add: unat_word_ariths screen_defs)
qed

lemma cursor_step:
  fixes p :: uint16
  shows "unat p < CRT_SIZE \<Longrightarrow> unat (p + 1) = unat p + 1" and "0 < p \<Longrightarrow> unat (p - 1) = unat p - 1"
proof -
  show "unat p < CRT_SIZE \<Longrightarrow> unat (p + 1) = unat p + 1" by (simp add: unat_word_ariths screen_defs)
  show "0 < p \<Longrightarrow> unat (p - 1) = unat p - 1" by (metis unat_minus_one word_neq_0_conv)
qed

text \<open>What a character does before the scrolling; a tab is five spaces.\<close>

definition cga_effect :: "uint32 \<Rightarrow> console \<Rightarrow> console" where
  "cga_effect c s =
     (let c = (if c AND NOT 0xFF = 0 then c OR 0x0700 else c); ch = c AND 0xFF; pos = crt_pos s in
      if ch = 8 then
        (if 0 < pos then s\<lparr>crt_pos := pos - 1, crt_buf := (crt_buf s)(unat (pos - 1) := ucast (c AND NOT 0xFF OR 32))\<rparr>
         else s)
      else if ch = 10 then
        (let pos = pos + of_nat CRT_COLS in s\<lparr>text_length := 0, crt_pos := pos - pos mod of_nat CRT_COLS\<rparr>)
      else if ch = 13 then s\<lparr>crt_pos := pos - pos mod of_nat CRT_COLS\<rparr>
      else if ch = 9 then ((cga_putc 32) ^^ 5) s
      else if ch = 228 then (if 0 < pos then s\<lparr>crt_pos := pos - 1\<rparr> else s)
      else if ch = 229 then (if unat pos < CRT_SIZE then s\<lparr>crt_pos := pos + 1\<rparr> else s)
      else if c \<noteq> ucast KEY_LF \<and> c \<noteq> ucast KEY_RT then
        (let pos' = pos + 1; s = s\<lparr>crt_buf := (crt_buf s)(unat pos := ucast c), crt_pos := pos'\<rparr> in
         if int (unat pos') > 1920 + text_length s then s\<lparr>text_length := text_length s + 1\<rparr> else s)
      else s)"

lemma five: "(f ^^ 5) x = f (f (f (f (f x))))"
  by (simp add: numeral_eq_Suc)

lemma cga_putc_eq: "cga_putc c s = cga_scroll (cga_effect c s)"
  unfolding cga_putc.simps [of c s] cga_effect_def Let_def five ..

lemma cga_effect_plain:
  assumes ok: "screen_ok s" and "c AND 0xFF \<noteq> 9" and t: "t = cga_effect c s"
  shows "unat (crt_pos t) < CRT_SIZE + CRT_COLS \<and> 0 \<le> text_length t \<and> text_length t \<le> 80 \<and> off_screen t = off_screen s"
proof -
  let ?c = "if c AND NOT 0xFF = 0 then c OR 0x0700 else c"
  have c: "?c AND 0xFF = c AND 0xFF" by (simp add: low_byte)
  have p: "unat (crt_pos s) < CRT_SIZE" "0 \<le> text_length s" "text_length s \<le> 80"
    using ok by (simp_all add: screen_ok_def)
  note steps = cursor_step(1) [OF p(1)] cursor_step(2) [of "crt_pos s"] line_start(2) [OF p(1)]
  consider "c AND 0xFF = 8" | "c AND 0xFF = 10" | "c AND 0xFF = 13" | "c AND 0xFF = 228" | "c AND 0xFF = 229"
    | "c AND 0xFF \<notin> {8, 10, 13, 228, 229}" by blast
  then show ?thesis
  proof cases
    case 1
    then show ?thesis
      using p steps unfolding t cga_effect_def Let_def c by (auto simp: off_screen_def fun_eq_iff)
  next
    case 2
    then show ?thesis
      using p steps line_start(1) [of "crt_pos s + of_nat CRT_COLS"] unfolding t cga_effect_def Let_def c
      by (auto simp: off_screen_def)
  next
    case 3
    then show ?thesis
      using p line_start(1) [of "crt_pos s"] unfolding t cga_effect_def Let_def c by (auto simp: off_screen_def)
  next
    case 4
    then show ?thesis
      using p steps unfolding t cga_effect_def Let_def c by (auto simp: off_screen_def)
  next
    case 5
    then show ?thesis
      using p steps unfolding t cga_effect_def Let_def c by (auto simp: off_screen_def screen_defs)
  next
    case 6
    define d where "d = ?c"
    have "t = (if d \<noteq> ucast KEY_LF \<and> d \<noteq> ucast KEY_RT then
        (let pos' = crt_pos s + 1; s' = s\<lparr>crt_buf := (crt_buf s)(unat (crt_pos s) := ucast d), crt_pos := pos'\<rparr> in
         if int (unat pos') > 1920 + text_length s' then s'\<lparr>text_length := text_length s' + 1\<rparr> else s') else s)"
      using 6 assms(2) unfolding t cga_effect_def Let_def c d_def by simp
    moreover have "uint (crt_pos s + 1) \<le> 2000"
      using steps(1) p(1) unfolding uint_nat screen_defs by linarith
    ultimately show ?thesis
      using p steps by (auto simp: off_screen_def screen_defs Let_def fun_eq_iff)
  qed
qed

lemma cga_putc_plain:
  assumes "screen_ok s" and "c AND 0xFF \<noteq> 9"
  shows "screen_ok (cga_putc c s) \<and> off_screen (cga_putc c s) = off_screen s"
  using cga_effect_plain [OF assms refl] cga_scroll_ok [of "cga_effect c s"] by (simp add: cga_putc_eq)

lemma cga_putc_ok:
  assumes "screen_ok s"
  shows "screen_ok (cga_putc c s) \<and> off_screen (cga_putc c s) = off_screen s"
proof (cases "c AND 0xFF = 9")
  case True
  have "screen_ok (((cga_putc 32) ^^ n) s) \<and> off_screen (((cga_putc 32) ^^ n) s) = off_screen s" for n
    using assms by (induction n) (simp_all add: cga_putc_plain)
  note this [of 5]
  moreover have "cga_effect c s = ((cga_putc 32) ^^ 5) s"
    using True by (simp add: cga_effect_def Let_def low_byte)
  ultimately show ?thesis
    using cga_scroll_ok [of "((cga_putc 32) ^^ 5) s"] by (simp add: cga_putc_eq screen_ok_def)
qed (use assms in \<open>simp add: cga_putc_plain\<close>)

text \<open>Printing of plain text that stays on the screen.\<close>

lemma cga_putc_char:
  assumes "32 \<le> ch" and "ch < 127" and p: "unat (crt_pos s) + 1 < CRT_SIZE"
  shows "unat (crt_pos (cga_putc (ucast (ch :: uint8)) s)) = unat (crt_pos s) + 1"
    and "crt_buf (cga_putc (ucast ch) s) = (crt_buf s)(unat (crt_pos s) := ucast ch OR 0x0700)"
proof -
  let ?c = "ucast ch :: uint32"
  have u: "32 \<le> uint ch" "uint ch < 127" using assms by (simp_all add: word_le_def word_less_def)
  have m: "(0xFF :: uint32) = mask 8" by (simp add: mask_eq_exp_minus_1)
  have hi: "?c AND NOT 0xFF = 0" and lo: "?c AND 0xFF = ?c"
    unfolding m by (rule bit_word_eqI, auto simp: bit_simps dest: bit_imp_le_length)+
  have "?c \<noteq> 8" "?c \<noteq> 10" "?c \<noteq> 13" "?c \<noteq> 9" "?c \<noteq> 228" "?c \<noteq> 229"
    using u by (auto simp: word_uint_eq_iff unsigned_ucast_eq take_bit_int_eq_self)
  moreover have "?c OR 0x0700 \<noteq> ucast KEY_LF" "?c OR 0x0700 \<noteq> ucast KEY_RT"
  proof -
    have "bit (?c OR 0x0700) 8" by (simp add: bit_simps)
    moreover have "\<not> bit (ucast KEY_LF :: uint32) 8" "\<not> bit (ucast KEY_RT :: uint32) 8" 
      by (simp_all add: KEY_LF_def KEY_RT_def)
    ultimately show "?c OR 0x0700 \<noteq> ucast KEY_LF" "?c OR 0x0700 \<noteq> ucast KEY_RT" by metis+
  qed
  moreover have "ucast (?c OR 0x0700) = (ucast ch OR 0x0700 :: uint16)"
    by (rule bit_word_eqI) (auto simp: bit_simps)
  ultimately have e: "crt_pos (cga_effect ?c s) = crt_pos s + 1"
    "crt_buf (cga_effect ?c s) = (crt_buf s)(unat (crt_pos s) := ucast ch OR 0x0700)"
    unfolding cga_effect_def Let_def if_P [OF hi] low_byte lo by simp_all
  have "unat (crt_pos s + 1) = unat (crt_pos s) + 1" using p cursor_step(1) [of "crt_pos s"] by simp
  then show "unat (crt_pos (cga_putc ?c s)) = unat (crt_pos s) + 1"
    "crt_buf (cga_putc ?c s) = (crt_buf s)(unat (crt_pos s) := ucast ch OR 0x0700)"
    using e p by (simp_all add: cga_putc_eq cga_scroll_def)
qed

section \<open>The input buffer as a queue\<close>

definition buffered :: "console \<Rightarrow> uint8 list" where
  "buffered s = map (\<lambda>k. cons_buf s ((rpos s + k) mod CONSBUFSIZE)) [0..<(wpos s + CONSBUFSIZE - rpos s) mod CONSBUFSIZE]"

definition buf_ok :: "console \<Rightarrow> bool" where
  "buf_ok s \<longleftrightarrow> rpos s < CONSBUFSIZE \<and> wpos s < CONSBUFSIZE"

lemma ring_distance:
  assumes "r < n" and "w < (n :: nat)"
  shows "(w + n - r) mod n = (if r \<le> w then w - r else w + n - r)" and "(r + (w + n - r) mod n) mod n = w"
proof -
  show d: "(w + n - r) mod n = (if r \<le> w then w - r else w + n - r)"
    using assms by (auto simp: mod_if)
  show "(r + (w + n - r) mod n) mod n = w" unfolding d using assms by (auto simp: mod_if)
qed

lemma ring_inj: "r < n \<Longrightarrow> k < n \<Longrightarrow> k' < n \<Longrightarrow> (r + k) mod n = (r + k') mod n \<longleftrightarrow> k = (k' :: nat)"
  by (auto simp: mod_if split: if_splits)

lemma ring_next: "i < n \<Longrightarrow> (if i + 1 = n then 0 else i + 1) = (i + 1) mod (n :: nat)"
  by (auto simp: mod_if)

lemma buf_ok_put [simp]: "buf_ok s \<Longrightarrow> buf_ok (cons_put c s)"
  by (auto simp: buf_ok_def cons_put_def CONSBUFSIZE_def)

lemma buffered_put:
  assumes ok: "buf_ok s" and "c \<noteq> 0" and "length (buffered s) + 1 < CONSBUFSIZE"
  shows "buffered (cons_put c s) = buffered s @ [c]"
proof -
  let ?n = CONSBUFSIZE let ?d = "(wpos s + ?n - rpos s) mod ?n"
  have b: "rpos s < ?n" "wpos s < ?n" using ok by (simp_all add: buf_ok_def)
  have d: "?d + 1 < ?n" using assms(3) by (simp add: buffered_def)
  have "(wpos (cons_put c s) + ?n - rpos s) mod ?n = ?d + 1"
    using b d assms(2) unfolding ring_distance(1) [OF b] cons_put_def
    by (auto simp: mod_if CONSBUFSIZE_def split: if_splits)
  moreover have "(rpos s + k) mod ?n \<noteq> wpos s" if "k < ?d" for k
    using that d ring_inj [OF b(1), of k ?d] ring_distance(2) [OF b] by auto
  ultimately show ?thesis
    using assms(2) ring_distance(2) [OF b] by (simp add: buffered_def cons_put_def)
qed

text \<open>A character that arrives when 511 are waiting makes the buffer empty.\<close>

lemma buffered_overflow:
  assumes "buf_ok s" and "c \<noteq> 0" and "length (buffered s) = CONSBUFSIZE - 1"
  shows "buffered (cons_put c s) = []"
proof -
  let ?n = CONSBUFSIZE
  have b: "rpos s < ?n" "wpos s < ?n" using assms(1) by (simp_all add: buf_ok_def)
  have "(rpos s + (?n - 1)) mod ?n = wpos s" using assms(3) ring_distance(2) [OF b] by (simp add: buffered_def)
  then have "(wpos s + 1) mod ?n = (rpos s + (?n - 1) + 1) mod ?n" by (metis mod_Suc_eq Suc_eq_plus1)
  then have "(wpos s + 1) mod ?n = rpos s" using b by (simp add: CONSBUFSIZE_def)
  then have "wpos (cons_put c s) = rpos s" using assms(2) ring_next [OF b(2)] by (simp add: cons_put_def)
  moreover have "rpos (cons_put c s) = rpos s" by (simp add: cons_put_def)
  ultimately show ?thesis by (simp add: buffered_def)
qed

lemma buffered_get:
  assumes ok: "buf_ok s"
  shows "buffered s = [] \<Longrightarrow> cons_get s = (0, s)"
    and "buffered s = c # cs \<Longrightarrow> \<exists>s'. cons_get s = (c, s') \<and> buffered s' = cs \<and> buf_ok s'"
proof -
  let ?n = CONSBUFSIZE let ?d = "(wpos s + ?n - rpos s) mod ?n"
  have b: "rpos s < ?n" "wpos s < ?n" using ok by (simp_all add: buf_ok_def)
  have d0: "?d = 0 \<longleftrightarrow> rpos s = wpos s" using ring_distance(1) [OF b] b by auto
  show "buffered s = [] \<Longrightarrow> cons_get s = (0, s)" using d0 by (auto simp: buffered_def cons_get_def)
  assume cs: "buffered s = c # cs"
  then have ne: "rpos s \<noteq> wpos s" "?d \<noteq> 0" using d0 by (auto simp: buffered_def)
  let ?s = "s\<lparr>rpos := (rpos s + 1) mod ?n\<rparr>"
  have g: "cons_get s = (cons_buf s (rpos s), ?s)"
    using ne(1) b(1) by (simp add: cons_get_def ring_next [symmetric])
  have d: "(wpos s + ?n - (rpos s + 1) mod ?n) mod ?n = ?d - 1"
    using b ne(1) unfolding ring_distance(1) [OF b] by (auto simp: mod_if)
  have "[0..<?d] = 0 # map Suc [0..<?d - 1]" using ne(2) by (simp add: map_Suc_upt upt_conv_Cons)
  then have "buffered s = cons_buf s (rpos s) # map (\<lambda>k. cons_buf s ((rpos s + Suc k) mod ?n)) [0..<?d - 1]"
    using b by (simp add: buffered_def)
  moreover have "buffered ?s = map (\<lambda>k. cons_buf s ((rpos s + Suc k) mod ?n)) [0..<?d - 1]"
    unfolding buffered_def using d by (simp add: mod_simps)
  ultimately show "\<exists>s'. cons_get s = (c, s') \<and> buffered s' = cs \<and> buf_ok s'"
    using cs g b by (simp add: buf_ok_def CONSBUFSIZE_def)
qed

lemma buffered_screen:
  "rpos t = rpos s \<Longrightarrow> wpos t = wpos s \<Longrightarrow> cons_buf t = cons_buf s \<Longrightarrow> buffered t = buffered s \<and> buf_ok t = buf_ok s"
  by (simp add: buffered_def buf_ok_def)

text \<open>The keyboard decoder does not touch the buffer.\<close>

lemma delete_char_buffer:
  "rpos (snd (delete_char s)) = rpos s \<and> wpos (snd (delete_char s)) = wpos s \<and> cons_buf (snd (delete_char s)) = cons_buf s
   \<and> serial_exists (snd (delete_char s)) = serial_exists s"
  by (simp add: delete_char_def Let_def)

lemma kbd_proc_data_buffer:
  "rpos (snd (kbd_proc_data d s)) = rpos s \<and> wpos (snd (kbd_proc_data d s)) = wpos s
   \<and> cons_buf (snd (kbd_proc_data d s)) = cons_buf s \<and> serial_exists (snd (kbd_proc_data d s)) = serial_exists s"
proof -
  have "rpos (snd (kbd_key d s)) = rpos s \<and> wpos (snd (kbd_key d s)) = wpos s
   \<and> cons_buf (snd (kbd_key d s)) = cons_buf s \<and> serial_exists (snd (kbd_key d s)) = serial_exists s" for d s
    using delete_char_buffer [of "s\<lparr>kbd_shift := (kbd_shift s OR shiftcode d) XOR togglecode d\<rparr>"]
    by (simp add: kbd_key_def Let_def)
  then show ?thesis by (simp add: kbd_proc_data_def Let_def)
qed

lemma kbd_byte_eq: "kbd_byte d s = cons_put (fst (kbd_proc_data d s)) (snd (kbd_proc_data d s))"
  by (simp add: kbd_byte_def split: prod.split)

text \<open>The characters that a sequence of bytes from the keyboard gives.\<close>

fun kbd_chars :: "uint8 list \<Rightarrow> console \<Rightarrow> uint8 list" where
  "kbd_chars [] s = []"
| "kbd_chars (d # ds) s = filter (\<lambda>c. c \<noteq> 0) [fst (kbd_proc_data d s)] @ kbd_chars ds (kbd_byte d s)"

lemma cons_put_buffered:
  "buf_ok s \<Longrightarrow> length (buffered s @ filter (\<lambda>c. c \<noteq> 0) [c]) < CONSBUFSIZE \<Longrightarrow>
   buffered (cons_put c s) = buffered s @ filter (\<lambda>c. c \<noteq> 0) [c]"
  using buffered_put [of s c] by (cases "c = 0") (simp_all add: cons_put_def)

lemma kbd_intr_buffered:
  "buf_ok s \<Longrightarrow> length (buffered s @ kbd_chars ds s) < CONSBUFSIZE \<Longrightarrow>
   buffered (kbd_intr ds s) = buffered s @ kbd_chars ds s \<and> buf_ok (kbd_intr ds s)"
proof (induction ds arbitrary: s)
  case (Cons d ds)
  let ?s = "snd (kbd_proc_data d s)" let ?c = "fst (kbd_proc_data d s)"
  have s: "buffered ?s = buffered s" "buf_ok ?s"
    using buffered_screen [of ?s s] kbd_proc_data_buffer [of d s] Cons.prems(1) by auto
  have p: "buffered (kbd_byte d s) = buffered s @ filter (\<lambda>c. c \<noteq> 0) [?c]"
    using cons_put_buffered [OF s(2), of ?c] Cons.prems(2) s(1) unfolding kbd_byte_eq by simp
  have "buf_ok (kbd_byte d s)" unfolding kbd_byte_eq using s(2) by simp
  then show ?case
    using Cons.IH [of "kbd_byte d s"] Cons.prems(2) p by (simp add: kbd_intr_def)
qed (simp add: kbd_intr_def)

lemma serial_intr_buffered:
  "buf_ok s \<Longrightarrow> length (buffered s @ filter (\<lambda>c. c \<noteq> 0) cs) < CONSBUFSIZE \<Longrightarrow>
   buffered (fold cons_put cs s) = buffered s @ filter (\<lambda>c. c \<noteq> 0) cs \<and> buf_ok (fold cons_put cs s)"
proof (induction cs arbitrary: s)
  case (Cons c cs)
  have "buffered (cons_put c s) = buffered s @ filter (\<lambda>c. c \<noteq> 0) [c]"
    using cons_put_buffered [OF Cons.prems(1), of c] Cons.prems(2) by auto
  then show ?case using Cons.IH [of "cons_put c s"] Cons.prems by auto
qed simp

text \<open>C16: the console input is a queue: as long as fewer than 512 characters are waiting, \<open>cons_getc\<close> returns
  them in the order in which the devices delivered them, each once, and 0 when there is none.\<close>

theorem cons_getc_fifo:
  assumes "buf_ok s" and "t = serial_intr serial s"
    and "waiting = buffered s @ (if serial_exists s then filter (\<lambda>c. c \<noteq> 0) serial else []) @ kbd_chars kbd t"
    and "length waiting < CONSBUFSIZE"
  shows "\<exists>s'. cons_getc serial kbd s = (case waiting of [] \<Rightarrow> 0 | c # _ \<Rightarrow> c, s') \<and> buffered s' = tl waiting \<and> buf_ok s'"
proof -
  have t: "buffered t = buffered s @ (if serial_exists s then filter (\<lambda>c. c \<noteq> 0) serial else [])" "buf_ok t"
    using serial_intr_buffered [OF assms(1), of serial] assms by (auto simp: serial_intr_def)
  have k: "buffered (kbd_intr kbd t) = waiting" "buf_ok (kbd_intr kbd t)"
    using kbd_intr_buffered [OF t(2), of kbd] t(1) assms(3,4) by auto
  show ?thesis
    using buffered_get [OF k(2)] k unfolding cons_getc_def assms(2) [symmetric] by (cases waiting) auto
qed

definition console_sample :: console where
  "console_sample = \<lparr>text_length = 0, serial_exists = True, crt_buf = (\<lambda>_. 0), crt_pos = 0, kbd_shift = 1,
     cons_buf = (\<lambda>_. 0), rpos = 511, wpos = 511\<rparr>"

theorem cons_getc_fifo_witness:
  "\<exists>s'. cons_getc [104, 105] [] console_sample = (104, s') \<and> buffered s' = [105]"
  using cons_getc_fifo [of console_sample _ "[104, 105]" "[104, 105]" "[]"]
  by (auto simp: buf_ok_def CONSBUFSIZE_def buffered_def console_sample_def)

section \<open>Letters\<close>

definition letter_codes :: "uint8 list" where
  "letter_codes = map of_nat ([16..<26] @ [30..<39] @ [44..<51])"

text \<open>The keys of the 26 letters in the order of the rows.\<close>

lemma letter_keys:
  "map normalmap letter_codes = map of_char (''qwertyuiop'' @ ''asdfghjkl'' @ ''zxcvbnm'')"
  "map shiftmap letter_codes = map of_char (''QWERTYUIOP'' @ ''ASDFGHJKL'' @ ''ZXCVBNM'')"
  by (simp_all add: letter_codes_def normalmap_def shiftmap_def key_table_def extended_keys_def upt_rec)

lemma letter_facts:
  assumes "d \<in> set letter_codes"
  shows "shiftcode d = 0" and "togglecode d = 0" and "d AND 0x80 = 0" and "d \<noteq> 0xE0"
    and "97 \<le> normalmap d" and "normalmap d \<le> 122" and "shiftmap d = normalmap d - 32"
proof -
  have "\<forall>d \<in> set letter_codes. shiftcode d = 0 \<and> togglecode d = 0 \<and> d AND 0x80 = 0 \<and> d \<noteq> 0xE0"
    by (simp add: letter_codes_def shiftcode_def togglecode_def upt_rec)
  moreover have "\<forall>d \<in> set letter_codes. 97 \<le> normalmap d \<and> normalmap d \<le> 122 \<and> shiftmap d = normalmap d - 32"
    by (simp add: letter_codes_def normalmap_def shiftmap_def key_table_def extended_keys_def upt_rec)
  ultimately show "shiftcode d = 0" "togglecode d = 0" "d AND 0x80 = 0" "d \<noteq> 0xE0"
    "97 \<le> normalmap d" "normalmap d \<le> 122" "shiftmap d = normalmap d - 32" using assms by auto
qed

lemma lock_keys_letter:
  assumes "97 \<le> c" and "c \<le> 122"
  shows "lock_keys sh c = (if sh AND CAPSLOCK \<noteq> 0 then c - 32 else c)"
    and "lock_keys sh (c - 32) = (if sh AND CAPSLOCK \<noteq> 0 then c else c - 32)"
proof -
  have u: "97 \<le> uint c" "uint c \<le> 122" using assms by (simp_all add: word_le_def)
  then have v: "uint (c - 32) = uint c - 32" using uint_sub_lem [of 32 c] by simp
  show "lock_keys sh c = (if sh AND CAPSLOCK \<noteq> 0 then c - 32 else c)"
    "lock_keys sh (c - 32) = (if sh AND CAPSLOCK \<noteq> 0 then c else c - 32)"
    using u v by (auto simp: lock_keys_def word_le_def word_uint_eq_iff [of _ "255"] Let_def)
qed

text \<open>With neither a prefix byte nor Ctrl pending, the key of a letter gives that letter, in upper case exactly
  when either Shift is held or Caps Lock is on but not both, and leaves the console as it was.\<close>

theorem letter_case:
  assumes d: "d \<in> set letter_codes" and sh: "kbd_shift s AND E0ESC = 0" "kbd_shift s AND CTL = 0"
  shows "kbd_proc_data d s =
    (if (kbd_shift s AND SHIFT \<noteq> 0) = (kbd_shift s AND CAPSLOCK \<noteq> 0) then normalmap d else normalmap d - 32, s)"
proof -
  let ?sh = "kbd_shift s"
  note f = letter_facts [OF d]
  have "?sh AND SHIFT = 0 \<or> ?sh AND SHIFT = SHIFT" by (auto simp: SHIFT_def and_one_eq)
  moreover have "?sh AND (CTL OR SHIFT) = ?sh AND SHIFT" using sh(2) by (simp add: bit.conj_disj_distrib)
  ultimately have c: "charcode ?sh d = (if ?sh AND SHIFT \<noteq> 0 then normalmap d - 32 else normalmap d)"
    using f(7) by (auto simp: charcode_def SHIFT_def)
  have "normalmap d \<noteq> KEY_DEL" "normalmap d - 32 \<noteq> KEY_DEL"
    using f(5,6) by (auto simp: KEY_DEL_def word_le_def word_uint_eq_iff uint_word_ariths)
  moreover have "kbd_proc_data d s = kbd_key d s" using f(3,4) sh(1) by (simp add: kbd_proc_data_def)
  ultimately show ?thesis
    using c f(1,2) lock_keys_letter [OF f(5,6), of ?sh] by (simp add: kbd_key_def Let_def)
qed

theorem letter_case_witness: "kbd_proc_data 30 console_sample = (65, console_sample)"
proof -
  have "30 \<in> set letter_codes" by (simp add: letter_codes_def)
  from letter_case [OF this, of console_sample] show ?thesis
    by (simp add: console_sample_def shift_defs normalmap_def key_table_def extended_keys_def)
qed

text \<open>With Num Lock on and no other modifier every digit is dropped, the digits of the main block too.\<close>

lemma numlock_drops_digits: "48 \<le> c \<Longrightarrow> c \<le> 57 \<Longrightarrow> lock_keys NUMLOCK c = 0"
  by (simp add: lock_keys_def shift_defs)

text \<open>\<open>KEY_DEL\<close> near the end of a full line moves cells that lie behind the screen.\<close>

lemma delete_past_screen:
  assumes "text_length s = 79" and "crt_pos s = 1990"
  shows "crt_buf (snd (delete_char s)) 2003 = crt_buf s 2004"
  using assms by (simp add: delete_char_def upt_rec)

section \<open>Output\<close>

text \<open>Whatever is printed, the cursor stays on the screen, and nothing but the cells of the screen, the cursor
  and the length of the line changes: not the memory behind the screen, the modifier keys or the input buffer.\<close>

theorem cputchar_on_screen:
  assumes "screen_ok s"
  shows "screen_ok (cputchar c s) \<and> off_screen (cputchar c s) = off_screen s"
  using cga_putc_ok [OF assms] by (simp add: cputchar_def cons_putc_def)

theorem cputchar_on_screen_witness:
  "screen_ok (cputchar 10 (console_sample\<lparr>crt_pos := 1999\<rparr>))"
  using cputchar_on_screen [of "console_sample\<lparr>crt_pos := 1999\<rparr>" 10]
  by (simp add: screen_ok_def console_sample_def screen_defs)

text \<open>Plain text.\<close>

lemma cputchar_text:
  assumes "\<forall>ch \<in> set cs. 32 \<le> ch \<and> ch < (127 :: uint8)" and "unat (crt_pos s) + length cs < CRT_SIZE"
  defines "t \<equiv> fold (\<lambda>ch. cputchar (ucast ch)) cs s"
  shows "unat (crt_pos t) = unat (crt_pos s) + length cs
    \<and> (\<forall>i < length cs. crt_buf t (unat (crt_pos s) + i) = ucast (cs ! i) OR 0x0700)
    \<and> (\<forall>j. j < unat (crt_pos s) \<or> unat (crt_pos s) + length cs \<le> j \<longrightarrow> crt_buf t j = crt_buf s j)"
  using assms(1,2) unfolding t_def
proof (induction cs arbitrary: s)
  case (Cons ch cs)
  let ?s = "cputchar (ucast ch) s"
  have c: "unat (crt_pos ?s) = unat (crt_pos s) + 1" "crt_buf ?s = (crt_buf s)(unat (crt_pos s) := ucast ch OR 0x0700)"
    using cga_putc_char [of ch s] Cons.prems by (simp_all add: cputchar_def cons_putc_def)
  have "unat (crt_pos ?s) + length cs < CRT_SIZE" using Cons.prems(2) c(1) by simp
  from Cons.IH [OF _ this] Cons.prems(1)
  show ?case unfolding c fold_Cons o_apply by (auto simp: All_less_Suc2)
qed simp

section \<open>The edited line\<close>

text \<open>What a line is, given the characters typed: printable characters are added as long as they fit, a
  backspace takes the last one away, anything else is ignored.\<close>

definition edit :: "int \<Rightarrow> int list \<Rightarrow> int list" where
  "edit c line = (if 32 \<le> c \<and> length line < BUFLEN - 1 then line @ [c] else if c = 8 then butlast line else line)"

lemma edit_length: "length line < BUFLEN \<Longrightarrow> length (edit c line) < BUFLEN"
  by (auto simp: edit_def)

definition holds_line :: "memory \<Rightarrow> memory \<Rightarrow> uint32 \<Rightarrow> int list \<Rightarrow> bool" where
  "holds_line m m' buf line \<longleftrightarrow> (\<forall>i < length line. m' (buf + of_nat i) = of_int (line ! i))
     \<and> (\<forall>a. BUFLEN \<le> unat (a - buf) \<longrightarrow> m' a = m a)"

lemma holds_line_edit:
  assumes "holds_line m m' buf line" and "length line < BUFLEN"
  shows "32 \<le> c \<Longrightarrow> length line < BUFLEN - 1 \<Longrightarrow>
      holds_line m (m'(buf + of_nat (length line) := of_int c)) buf (line @ [c])"
    and "holds_line m m' buf (butlast line)"
    and "holds_line m (m'(buf + of_nat (length line) := 0)) buf line"
proof -
  have i: "unat (of_nat i :: uint32) = i" if "i < BUFLEN" for i
    using that by (simp add: BUFLEN_def unsigned_of_nat take_bit_nat_eq_self)
  have eq: "of_nat i = (of_nat j :: uint32) \<longleftrightarrow> i = j" if "i < BUFLEN" "j < BUFLEN" for i j
    using i [OF that(1)] i [OF that(2)] by metis
  show "holds_line m (m'(buf + of_nat (length line) := of_int c)) buf (line @ [c])" if "32 \<le> c" "length line < BUFLEN - 1"
    using assms that(2) i [of "length line"] eq by (auto simp: holds_line_def nth_append less_Suc_eq)
  show "holds_line m m' buf (butlast line)" using assms by (simp add: holds_line_def nth_butlast)
  show "holds_line m (m'(buf + of_nat (length line) := 0)) buf line"
    using assms i [of "length line"] eq by (auto simp: holds_line_def)
qed

lemma readline_loop_line:
  assumes "\<forall>c \<in> set cs. 0 \<le> c \<and> c \<noteq> 10 \<and> c \<noteq> 13" and "nl = 10 \<or> nl = 13"
    and "holds_line m m' buf line" and "length line < BUFLEN"
  shows "\<exists>m'' out'. readline_loop (cs @ nl # rest) m' buf (length line) out = Some (m'', out', rest)
    \<and> holds_line m m'' buf (fold edit cs line) \<and> m'' (buf + of_nat (length (fold edit cs line))) = 0
    \<and> length (fold edit cs line) < BUFLEN"
  using assms
proof (induction cs arbitrary: m' line out)
  case Nil
  then show ?case using holds_line_edit(3) [OF Nil.prems(3,4)] by auto
next
  case (Cons c cs)
  have step: "\<exists>m1 out1. readline_loop ((c # cs) @ nl # rest) m' buf (length line) out
      = readline_loop (cs @ nl # rest) m1 buf (length (edit c line)) out1 \<and> holds_line m m1 buf (edit c line)"
    using Cons.prems(1,3) holds_line_edit(1) [OF Cons.prems(3,4), of c]
      holds_line_edit(2) [OF Cons.prems(3,4)] by (auto simp: edit_def)
  then obtain m1 out1 where s: "readline_loop ((c # cs) @ nl # rest) m' buf (length line) out
      = readline_loop (cs @ nl # rest) m1 buf (length (edit c line)) out1" "holds_line m m1 buf (edit c line)" by blast
  show ?case
    using Cons.IH [OF _ Cons.prems(2) s(2) edit_length [OF Cons.prems(4)]] Cons.prems(1)
    unfolding s(1) fold_Cons o_apply by simp
qed

text \<open>C20: when a line end is typed, \<open>readline\<close> returns, leaves the edited line with its terminator in the buffer,
  at most 1024 bytes with the terminator, and touches nothing outside the buffer.\<close>

theorem readline_correct:
  assumes "\<forall>c \<in> set cs. 0 \<le> c \<and> c \<noteq> 10 \<and> c \<noteq> 13" and "nl = 10 \<or> nl = 13" and "line = fold edit cs []"
  shows "\<exists>m' out. readline (cs @ nl # rest) m buf = Some (m', out, rest) \<and> length line < BUFLEN
    \<and> (\<forall>i < length line. m' (buf + of_nat i) = of_int (line ! i)) \<and> m' (buf + of_nat (length line)) = 0
    \<and> (\<forall>a. BUFLEN \<le> unat (a - buf) \<longrightarrow> m' a = m a)"
  using readline_loop_line [OF assms(1,2), of m m buf "[]" rest "[]"] assms(3)
  by (auto simp: readline_def holds_line_def BUFLEN_def)

theorem readline_correct_witness:
  "\<exists>m' out. readline [104, 120, 8, 105, 10, 7] (\<lambda>_. 9) 100 = Some (m', out, [7]) \<and> m' 100 = 104 \<and> m' 101 = 105 \<and> m' 102 = 0"
  using readline_correct [of "[104, 120, 8, 105]" 10 _ "[7]" "\<lambda>_. 9" 100] by (auto simp: BUFLEN_def edit_def numeral_2_eq_2 All_less_Suc2)

end
