(* ===== verification/Command_Prompt.thy ===== *)
theory Command_Prompt
  imports Trap_Dispatch Console
begin

text \<open>
  The interpreter of the kernel command prompt (\<^verbatim>\<open>kern/command_prompt.c\<close>): splitting a line into
  arguments, the table of commands and its functions. A command gets the memory that holds the line and the
  pointers to its arguments. Every command function that returns gives 0, so its value is only where control
  goes: \<open>Returns\<close> to the prompt, or away from it when it runs the scheduler. What the commands print is left out.
\<close>

section \<open>Arguments\<close>

text \<open>\<open>typed\<close> are the characters that arrive while a command reads from the keyboard and \<open>str_buf\<close> its local
  buffer, \<open>whitespace\<close> is the address of the constant \<open>WHITESPACE\<close>, and \<open>ktest\<close> runs a test of \<^verbatim>\<open>kern/test_kheap.c\<close>
  or \<^verbatim>\<open>kern/test_priority.c\<close>, which are not modelled, by its name.\<close>

record prompt_env =
  typed :: "int list"
  str_buf :: uint32
  whitespace :: uint32
  ktest :: "string \<Rightarrow> kernel \<Rightarrow> control result"

type_synonym handler = "prompt_env \<Rightarrow> memory \<Rightarrow> uint32 list \<Rightarrow> kernel \<Rightarrow> control result"

text \<open>\<open>arguments[i]\<close>: \<open>strsplit\<close> stores a null pointer behind the last argument, which faults when it is
  dereferenced; the elements after it are not initialised.\<close>

definition argument :: "uint32 list \<Rightarrow> nat \<Rightarrow> halt + uint32" where
  "argument arguments i =
     (if i < length arguments then Inr (arguments ! i)
      else if i = length arguments then Inl NullDeref else Inl OutOfBounds)"

definition number :: "memory \<Rightarrow> uint32 \<Rightarrow> int \<Rightarrow> halt + int" where
  "number m p base = (case strtol m p base of None \<Rightarrow> Inl OutOfFuel | Some (v, _) \<Rightarrow> Inr v)"

definition arg_number :: "memory \<Rightarrow> uint32 list \<Rightarrow> nat \<Rightarrow> int \<Rightarrow> halt + int" where
  "arg_number m arguments i base = bindE (argument arguments i) (\<lambda>p. number m p base)"

partial_function (option) cstring :: "memory \<Rightarrow> uint32 \<Rightarrow> uint8 list option" where
  "cstring m p = (if m p = 0 then Some [] else Option.bind (cstring m (p + 1)) (\<lambda>xs. Some (m p # xs)))"

definition bytes :: "string \<Rightarrow> uint8 list" where
  "bytes = map of_char"

definition arg_string :: "memory \<Rightarrow> uint32 list \<Rightarrow> nat \<Rightarrow> halt + string" where
  "arg_string m arguments i =
     bindE (argument arguments i) (\<lambda>p.
     case cstring m p of None \<Rightarrow> Inl OutOfFuel | Some xs \<Rightarrow> Inr (map (\<lambda>b. char_of (unat b)) xs))"

definition returns :: "kernel \<Rightarrow> control result" where
  "returns s = Inr (Returns, s)"

section \<open>Commands on memory\<close>

definition command_writeusermem :: handler where
  "command_writeusermem pe m arguments s =
     bindE (arg_number m arguments 1 10) (\<lambda>envId.
     bindE (envid2env (word_of_int envId) False s) (\<lambda>((_, env), s).
     bindE (arg_number m arguments 3 16) (\<lambda>address.
     case env of
       None \<Rightarrow> returns s
     | Some e \<Rightarrow>
         let oldDir = cr3 s; s = s\<lparr>cr3 := env_cr3 (envs s e)\<rparr> in
         bindE (argument arguments 2) (\<lambda>p.
         bindE (cpu_store_byte (word_of_int address) (m p) s) (\<lambda>s. returns (s\<lparr>cr3 := oldDir\<rparr>))))))"

definition command_writemem_k :: handler where
  "command_writemem_k pe m arguments s =
     bindE (arg_number m arguments 1 16) (\<lambda>a.
     bindE (arg_number m arguments 2 10) (\<lambda>size'.
     bindE (argument arguments 3) (\<lambda>p.
     case strlen m p of
       None \<Rightarrow> Inl OutOfFuel
     | Some stringLen \<Rightarrow>
         bindE (foldE (\<lambda>_. foldE (\<lambda>i (address, s). bindE (cpu_store_byte address (m (p + of_nat i)) s) (\<lambda>s. Inr (address + 1, s)))
                  [0..<nat stringLen]) [0..<nat size'] (word_of_int a + KERNEL_BASE, s)) (\<lambda>(_, s). returns s))))"

definition command_readusermem :: handler where
  "command_readusermem pe m arguments s =
     bindE (arg_number m arguments 1 10) (\<lambda>envId.
     bindE (envid2env (word_of_int envId) False s) (\<lambda>((_, env), s).
     bindE (arg_number m arguments 2 16) (\<lambda>address.
     case env of
       None \<Rightarrow> returns s
     | Some e \<Rightarrow>
         let oldDir = cr3 s; s = s\<lparr>cr3 := env_cr3 (envs s e)\<rparr> in
         bindE (cpu_load_byte (word_of_int address) s) (\<lambda>(_, s). returns (s\<lparr>cr3 := oldDir\<rparr>)))))"

definition load_bytes :: "nat \<Rightarrow> uint32 \<times> kernel \<Rightarrow> halt + uint32 \<times> kernel" where
  "load_bytes n = foldE (\<lambda>_ (address, s). bindE (cpu_load_byte address s) (\<lambda>(_, s). Inr (address + 1, s))) [0..<n]"

definition command_readmem_k :: handler where
  "command_readmem_k pe m arguments s =
     bindE (arg_number m arguments 1 16) (\<lambda>a.
     bindE (arg_number m arguments 2 10) (\<lambda>size'.
     bindE (load_bytes (nat size') (word_of_int a + KERNEL_BASE, s)) (\<lambda>(_, s). returns s)))"

definition command_readuserblock :: handler where
  "command_readuserblock pe m arguments s =
     bindE (arg_number m arguments 1 10) (\<lambda>envId.
     bindE (envid2env (word_of_int envId) False s) (\<lambda>((_, env), s).
     bindE (arg_number m arguments 2 16) (\<lambda>address.
     bindE (arg_number m arguments 3 10) (\<lambda>nBytes.
     case env of
       None \<Rightarrow> returns s
     | Some e \<Rightarrow>
         let oldDir = cr3 s; s = s\<lparr>cr3 := env_cr3 (envs s e)\<rparr> in
         bindE (load_bytes (nat nBytes) (word_of_int address, s)) (\<lambda>(_, s). returns (s\<lparr>cr3 := oldDir\<rparr>))))))"

definition command_remove_table :: handler where
  "command_remove_table pe m arguments s =
     bindE (arg_number m arguments 1 10) (\<lambda>envId.
     bindE (envid2env (word_of_int envId) False s) (\<lambda>((_, env), s).
     case env of
       None \<Rightarrow> returns s
     | Some e \<Rightarrow>
         bindE (arg_number m arguments 2 16) (\<lambda>a.
         let address = word_of_int a in
         bindE (deref (env_page_directory (envs s e))) (\<lambda>pd.
         let table_pa = rd s pd (pdx address) AND 0xFFFFF000 in
         bindE (to_frame_info table_pa s) (\<lambda>t.
         bindE (free_frame t (upd_fi t (\<lambda>f. f\<lparr>references := 0\<rparr>) s)) (\<lambda>(_, s).
         returns (wr pd (pdx address) (rd s pd (pdx address) AND NOT PERM_PRESENT) s)))))))"

definition command_allocuserpage :: handler where
  "command_allocuserpage pe m arguments s =
     bindE (arg_number m arguments 1 10) (\<lambda>envId.
     bindE (envid2env (word_of_int envId) False s) (\<lambda>((_, env), s).
     case env of
       None \<Rightarrow> returns s
     | Some e \<Rightarrow>
         bindE (arg_number m arguments 2 16) (\<lambda>a.
         bindE (allocate_frame s) (\<lambda>(f, s).
         bindE (deref (env_page_directory (envs s e))) (\<lambda>pd.
         bindE (map_frame pd f (word_of_int a) (PERM_WRITEABLE OR PERM_USER) s) (\<lambda>(_, s). returns s))))))"

section \<open>Commands on environments\<close>

definition MAX_PAGE_WS :: uint32 where "MAX_PAGE_WS = of_nat PWS_MAX_SIZE"

definition CreateEnv :: "memory \<Rightarrow> uint32 list \<Rightarrow> kernel \<Rightarrow> nat option result" where
  "CreateEnv m arguments s =
     (let lists = isPageReplacmentAlgorithmLRU PG_REP_LRU_LISTS_APPROX s \<noteq> 0; no = length arguments;
          num = (\<lambda>i. bindE (arg_number m arguments i 10) (\<lambda>v. Inr (word_of_int v :: uint32))) in
      bindE (if no = 5 then
               if \<not> lists then Inr None
               else bindE (num 4) (\<lambda>pct. bindE (num 3) (\<lambda>snd. bindE (num 2) (\<lambda>ws. Inr (Some (ws, snd, pct)))))
             else if no = 4 then
               bindE (num 3) (\<lambda>v. bindE (num 2) (\<lambda>ws. Inr (Some (if \<not> lists then (ws, 0, v) else (ws, v, 0)))))
             else if no = 3 then
               if lists then Inr None else bindE (num 2) (\<lambda>ws. Inr (Some (ws, 0, 0)))
             else Inr None) (\<lambda>sizes.
      case sizes of
        None \<Rightarrow> Inr (None, s)
      | Some (pageWSSize, LRUSecondListSize, percent) \<Rightarrow>
          if pageWSSize > MAX_PAGE_WS then Inr (None, s)
          else if lists \<and> LRUSecondListSize > pageWSSize - 1 then Inr (None, s)
          else if \<not> percent \<le> 100 then Inl (AssertFailed ''percent_WS_pages_to_remove'')
          else bindE (arg_string m arguments 1) (\<lambda>name. env_create name pageWSSize LRUSecondListSize percent s)))"

definition command_run_program :: handler where
  "command_run_program pe m arguments s =
     bindE (CreateEnv m arguments s) (\<lambda>(env, s).
     case env of
       None \<Rightarrow> returns s
     | Some e \<Rightarrow> bindE (sched_new_env (Some e) s) (\<lambda>s. sched_run_env (env_id (envs s e)) s))"

definition command_kill_program :: handler where
  "command_kill_program pe m arguments s =
     bindE (arg_number m arguments 1 10) (\<lambda>envId. sched_kill_env (word_of_int envId) s)"

definition commnad_load_env :: handler where
  "commnad_load_env pe m arguments s =
     bindE (CreateEnv m arguments s) (\<lambda>(env, s).
     case env of None \<Rightarrow> returns s | Some e \<Rightarrow> bindE (sched_new_env (Some e) s) returns)"

definition command_run_all :: handler where
  "command_run_all pe m arguments s = sched_run_all s"

definition command_kill_all :: handler where
  "command_kill_all pe m arguments s = sched_kill_all s"

section \<open>Commands that change settings\<close>

definition command_set_page_rep_LRU :: handler where
  "command_set_page_rep_LRU pe m arguments s =
     (if length arguments < 2 then returns s
      else bindE (arg_number m arguments 1 10) (\<lambda>t.
        if word_of_int t = PG_REP_LRU_TIME_APPROX \<or> word_of_int t = PG_REP_LRU_LISTS_APPROX
        then bindE (setPageReplacmentAlgorithmLRU (word_of_int t) s) (\<lambda>(_, s). returns s) else returns s))"

definition command_set_page_rep_CLOCK :: handler where
  "command_set_page_rep_CLOCK pe m arguments s = returns (setPageReplacmentAlgorithmCLOCK s)"
definition command_set_page_rep_FIFO :: handler where
  "command_set_page_rep_FIFO pe m arguments s = returns (setPageReplacmentAlgorithmFIFO s)"
definition command_set_page_rep_ModifiedCLOCK :: handler where
  "command_set_page_rep_ModifiedCLOCK pe m arguments s = returns (setPageReplacmentAlgorithmModifiedCLOCK s)"

definition command_sch_RR :: handler where
  "command_sch_RR pe m arguments s =
     bindE (arg_number m arguments 1 10) (\<lambda>q. bindE (sched_init_RR (word_of_int q) s) (\<lambda>(_, s). returns s))"

definition command_sch_MLFQ :: handler where
  "command_sch_MLFQ pe m arguments s =
     bindE (arg_number m arguments 1 10) (\<lambda>numOfLevels.
     bindE (foldE (\<lambda>i qs. bindE (arg_number m arguments i 10) (\<lambda>q. Inr (qs @ [word_of_int q])))
              [2..<length arguments] []) (\<lambda>quantumOfEachLevel.
     bindE (sched_init_MLFQ (word_of_int numOfLevels) quantumOfEachLevel s) (\<lambda>(_, s). returns s)))"

definition command_sch_test :: handler where
  "command_sch_test pe m arguments s =
     bindE (arg_number m arguments 1 10) (\<lambda>status. returns (chksch (word_of_int status) s))"

definition command_set_uheap_plac_FIRSTFIT :: handler where
  "command_set_uheap_plac_FIRSTFIT pe m arguments s = returns (setUHeapPlacementStrategyFIRSTFIT s)"
definition command_set_uheap_plac_BESTFIT :: handler where
  "command_set_uheap_plac_BESTFIT pe m arguments s = returns (setUHeapPlacementStrategyBESTFIT s)"
definition command_set_uheap_plac_NEXTFIT :: handler where
  "command_set_uheap_plac_NEXTFIT pe m arguments s = returns (setUHeapPlacementStrategyNEXTFIT s)"
definition command_set_uheap_plac_WORSTFIT :: handler where
  "command_set_uheap_plac_WORSTFIT pe m arguments s = returns (setUHeapPlacementStrategyWORSTFIT s)"

definition command_set_kheap_plac_CONTALLOC :: handler where
  "command_set_kheap_plac_CONTALLOC pe m arguments s = returns (setKHeapPlacementStrategyCONTALLOC s)"
definition command_set_kheap_plac_FIRSTFIT :: handler where
  "command_set_kheap_plac_FIRSTFIT pe m arguments s = returns (setKHeapPlacementStrategyFIRSTFIT s)"
definition command_set_kheap_plac_BESTFIT :: handler where
  "command_set_kheap_plac_BESTFIT pe m arguments s = returns (setKHeapPlacementStrategyBESTFIT s)"
definition command_set_kheap_plac_NEXTFIT :: handler where
  "command_set_kheap_plac_NEXTFIT pe m arguments s = returns (setKHeapPlacementStrategyNEXTFIT s)"
definition command_set_kheap_plac_WORSTFIT :: handler where
  "command_set_kheap_plac_WORSTFIT pe m arguments s = returns (setKHeapPlacementStrategyWORSTFIT s)"

definition command_disable_modified_buffer :: handler where
  "command_disable_modified_buffer pe m arguments s =
     (if isBufferingEnabled s = 0 then returns s else returns (enableModifiedBuffer 0 s))"
definition command_enable_modified_buffer :: handler where
  "command_enable_modified_buffer pe m arguments s =
     (if isBufferingEnabled s = 0 then returns s else returns (enableModifiedBuffer 1 s))"
definition command_disable_buffering :: handler where
  "command_disable_buffering pe m arguments s = returns (enableModifiedBuffer 0 (enableBuffering 0 s))"

definition command_enable_buffering :: handler where
  "command_enable_buffering pe m arguments s =
     (let s = enableModifiedBuffer 1 (enableBuffering 1 s) in
      if getModifiedBufferLength s = 0 then
        (case readline (typed pe) m (str_buf pe) of
           None \<Rightarrow> Inl OutOfFuel
         | Some (m, _, _) \<Rightarrow> bindE (number m (str_buf pe) 10) (\<lambda>n. returns (setModifiedBufferLength (word_of_int n) s)))
      else returns s)"

definition command_set_modified_buffer_length :: handler where
  "command_set_modified_buffer_length pe m arguments s =
     bindE (arg_number m arguments 1 10) (\<lambda>n. returns (setModifiedBufferLength (word_of_int n) s))"

text \<open>The commands that only print: \<open>help\<close>, \<open>kernel_info\<close>, \<open>meminfo\<close>, \<open>printall\<close>, \<open>sched?\<close>, \<open>rep?\<close>, \<open>uheap?\<close>,
  \<open>kheap?\<close> and \<open>modbufflength?\<close>.\<close>

definition command_prints :: handler where
  "command_prints pe m arguments s = returns s"

section \<open>Test commands\<close>

definition command_test_kmalloc :: handler where
  "command_test_kmalloc pe m arguments s =
     bindE (if length arguments = 2 then arg_number m arguments 1 10 else Inr 0) (\<lambda>testNum.
     if isKHeapPlacementStrategyCONTALLOC s \<noteq> 0 then ktest pe ''test_kmalloc'' s
     else if isKHeapPlacementStrategyFIRSTFIT s \<noteq> 0 then
       (if testNum = 1 then ktest pe ''test_kmalloc_firstfit1'' s
        else if testNum = 2 then ktest pe ''test_kmalloc_firstfit2'' s else returns s)
     else if isKHeapPlacementStrategyBESTFIT s \<noteq> 0 then
       (if testNum = 1 then ktest pe ''test_kmalloc'' s
        else if testNum = 2 then ktest pe ''test_kmalloc_bestfit1'' s
        else if testNum = 3 then ktest pe ''test_kmalloc_bestfit2'' s else returns s)
     else if isKHeapPlacementStrategyNEXTFIT s \<noteq> 0 then
       (if testNum = 1 then ktest pe ''test_kmalloc'' s
        else if testNum = 2 then ktest pe ''test_kmalloc_nextfit'' s else returns s)
     else if isKHeapPlacementStrategyWORSTFIT s \<noteq> 0 then ktest pe ''test_kmalloc_worstfit'' s
     else returns s)"

definition command_test_kfree :: handler where
  "command_test_kfree pe m arguments s =
     (if isKHeapPlacementStrategyBESTFIT s \<noteq> 0 then ktest pe ''test_kfree_bestfit'' s else ktest pe ''test_kfree'' s)"

definition command_test_krealloc :: handler where
  "command_test_krealloc pe m arguments s =
     (if isKHeapPlacementStrategyNEXTFIT s \<noteq> 0 then ktest pe ''test_krealloc'' s
      else if isKHeapPlacementStrategyBESTFIT s \<noteq> 0 then ktest pe ''test_krealloc_BF'' s else returns s)"

definition command_test :: "string \<Rightarrow> handler" where
  "command_test name pe m arguments s = ktest pe name s"

text \<open>The loop over the exit queue of \<open>command_test_sc_MLFQ\<close>.\<close>

fun count_slaves :: "(nat \<Rightarrow> env) \<Rightarrow> nat list \<Rightarrow> bool \<Rightarrow> int \<Rightarrow> int" where
  "count_slaves es [] firstTime cnt = cnt"
| "count_slaves es (e # q) firstTime cnt =
     (if prog_name (es e) = ''tmlfq_2'' then count_slaves es q False (cnt + 1)
      else if \<not> firstTime then cnt else count_slaves es q firstTime cnt)"

definition command_test_sc_MLFQ :: handler where
  "command_test_sc_MLFQ pe m arguments s =
     bindE (arg_number m arguments 1 10) (\<lambda>numOfSlave2.
     if count_slaves (envs s) (env_exit_queue s) True 0 = numOfSlave2 then returns s
     else Inl (Panic ''MLFQScenario# failed''))"

section \<open>The table and the interpreter\<close>

definition commands :: "(string \<times> handler) list" where
  "commands =
     [(''help'', command_prints), (''kernel_info'', command_prints), (''wum'', command_writeusermem),
      (''rum'', command_readusermem), (''wm'', command_writemem_k), (''rm'', command_readmem_k),
      (''rub'', command_readuserblock), (''kill'', command_kill_program), (''rut'', command_remove_table),
      (''aup'', command_allocuserpage), (''meminfo'', command_prints),
      (''schedMLFQ'', command_sch_MLFQ), (''schedRR'', command_sch_RR), (''sched?'', command_prints),
      (''schedTest'', command_sch_test),
      (''run'', command_run_program), (''load'', commnad_load_env), (''runall'', command_run_all),
      (''printall'', command_prints), (''killall'', command_kill_all), (''lru'', command_set_page_rep_LRU),
      (''fifo'', command_set_page_rep_FIFO), (''clock'', command_set_page_rep_CLOCK),
      (''modifiedclock'', command_set_page_rep_ModifiedCLOCK), (''rep?'', command_prints),
      (''uhfirstfit'', command_set_uheap_plac_FIRSTFIT), (''uhbestfit'', command_set_uheap_plac_BESTFIT),
      (''uhnextfit'', command_set_uheap_plac_NEXTFIT), (''uhworstfit'', command_set_uheap_plac_WORSTFIT),
      (''uheap?'', command_prints),
      (''khcontalloc'', command_set_kheap_plac_CONTALLOC), (''khfirstfit'', command_set_kheap_plac_FIRSTFIT),
      (''khbestfit'', command_set_kheap_plac_BESTFIT), (''khnextfit'', command_set_kheap_plac_NEXTFIT),
      (''khworstfit'', command_set_kheap_plac_WORSTFIT), (''kheap?'', command_prints),
      (''nobuff'', command_disable_buffering), (''buff'', command_enable_buffering),
      (''nomodbuff'', command_disable_modified_buffer), (''modbuff'', command_enable_modified_buffer),
      (''modbufflength?'', command_prints), (''modbufflength'', command_set_modified_buffer_length),
      (''tstkmalloc'', command_test_kmalloc), (''tstkfree'', command_test_kfree),
      (''tstkphysaddr'', command_test ''test_kheap_phys_addr''), (''tstkvirtaddr'', command_test ''test_kheap_virt_addr''),
      (''tst3functions'', command_test ''test_three_creation_functions''), (''tstkfreeall'', command_test ''test_kfreeall''),
      (''tstkexpand'', command_test ''test_kexpand''), (''tstkshrink'', command_test ''test_kshrink''),
      (''tstkfreelast'', command_test ''test_kfreelast''), (''tstkrealloc'', command_test_krealloc),
      (''tstpriority1'', command_test ''test_priority_normal_and_higher''),
      (''tstpriority2'', command_test ''test_priority_normal_and_lower''), (''tstsc4'', command_test_sc_MLFQ)]"

text \<open>\<open>strcmp(arguments[0], commands[i].name) == 0\<close>: the name is the string stored at \<open>arguments[0]\<close>.\<close>

definition execute_command :: "prompt_env \<Rightarrow> memory \<Rightarrow> uint32 \<Rightarrow> kernel \<Rightarrow> control result" where
  "execute_command pe m command_string s =
     (case strsplit m command_string (whitespace pe) of
        None \<Rightarrow> Inl OutOfFuel
      | Some (m, arguments, _) \<Rightarrow>
          if arguments = [] then returns s
          else (case find (\<lambda>(name, f). cstr m (arguments ! 0) (bytes name)) commands of
                  None \<Rightarrow> returns s
                | Some (_, f) \<Rightarrow> f pe m arguments s))"

section \<open>Dispatch\<close>

lemma of_char_byte: "(of_char c :: uint8) = of_nat (of_char c)"
  by (cases c) (simp add: of_char_def)

lemma of_char_byte_inj: "(of_char c :: uint8) = of_char d \<longleftrightarrow> c = d"
proof
  assume a: "(of_char c :: uint8) = of_char d"
  have "unat (of_nat (of_char e) :: uint8) = of_char e" for e :: char
    using nat_of_char_less_256 [of e] by (simp add: unsigned_of_nat take_bit_nat_eq_self)
  then have "(of_char c :: nat) = of_char d" using arg_cong [OF a, of unat] unfolding of_char_byte by simp
  then show "c = d" by simp
qed simp

lemma bytes_inj: "bytes a = bytes b \<longleftrightarrow> a = b"
  unfolding bytes_def using inj_map_eq_map [of "of_char :: char \<Rightarrow> uint8" a b] by (simp add: inj_def of_char_byte_inj)

lemma commands_distinct: "distinct (map fst commands)"
  by code_simp

lemma find_command:
  assumes "cstr m p w"
  shows "(name, f) \<in> set commands \<Longrightarrow> w = bytes name \<Longrightarrow> find (\<lambda>(name, f). cstr m p (bytes name)) commands = Some (name, f)"
    "w \<notin> bytes ` fst ` set commands \<Longrightarrow> find (\<lambda>(name, f). cstr m p (bytes name)) commands = None"
proof -
  have c: "cstr m p (bytes n) \<longleftrightarrow> bytes n = w" for n using assms cstr_unique [OF assms, of "bytes n"] by metis
  show "find (\<lambda>(name, f). cstr m p (bytes name)) commands = None" if "w \<notin> bytes ` fst ` set commands"
    using that by (force simp: find_None_iff c image_iff)
  assume n: "(name, f) \<in> set commands" "w = bytes name"
  have e: "(\<lambda>(name, f). cstr m p (bytes name)) = (\<lambda>x :: string \<times> handler. fst x = name)"
    by (simp add: fun_eq_iff c n(2) bytes_inj)
  have "find (\<lambda>x. fst x = name) xs = Some (name, f)" if "distinct (map fst xs)" "(name, f) \<in> set xs" for xs :: "(string \<times> handler) list"
    using that by (induction xs) (force simp: image_iff)+
  then show "find (\<lambda>(name, f). cstr m p (bytes name)) commands = Some (name, f)"
    unfolding e using commands_distinct n(1) by blast
qed

definition WHITESPACE :: "uint8 list" where "WHITESPACE = [9, 13, 10, 32]"

lemma strsplit_words:
  assumes "separators m q cs" and "cstr m p xs"
    and "\<forall>i \<le> length xs. \<forall>j \<le> length cs. p + of_nat i \<noteq> q + of_nat j"
  shows "\<exists>m' argv r. strsplit m p q = Some (m', argv, r) \<and> length argv = min 15 (length (tokens (set cs) xs))
    \<and> (\<forall>i<length argv. cstr m' (argv ! i) (tokens (set cs) xs ! i))"
proof -
  obtain res where r: "strsplit_loop q m p [] = Some res" "split_post m p (set cs) xs [] res"
    using strsplit_loop_value [OF assms(1,2) _ assms(3), of "[]"] by auto
  obtain m' av k where "res = (m', av, k)" by (cases res)
  then show ?thesis using r unfolding split_post_def strsplit_def by auto
qed

text \<open>C28: a command line runs the function of the command that its first word names, with the words of the
  line as arguments, at most 15 of them, each a terminated string; a blank line and an unknown word change
  nothing and return to the prompt.\<close>

theorem execute_command_dispatch:
  assumes "separators m (whitespace pe) WHITESPACE" and "cstr m p xs"
    and "\<forall>i \<le> length xs. \<forall>j \<le> length WHITESPACE. p + of_nat i \<noteq> whitespace pe + of_nat j"
    and ts: "ts = tokens (set WHITESPACE) xs"
  shows "if ts = [] \<or> hd ts \<notin> bytes ` fst ` set commands then execute_command pe m p s = Inr (Returns, s)
    else \<exists>name f m' arguments. (name, f) \<in> set commands \<and> hd ts = bytes name
      \<and> execute_command pe m p s = f pe m' arguments s \<and> length arguments = min 15 (length ts)
      \<and> (\<forall>i<length arguments. cstr m' (arguments ! i) (ts ! i))"
proof -
  obtain m' argv r where w: "strsplit m p (whitespace pe) = Some (m', argv, r)" "length argv = min 15 (length ts)"
    "\<forall>i<length argv. cstr m' (argv ! i) (ts ! i)"
    using strsplit_words [OF assms(1-3)] unfolding ts by blast
  show ?thesis
  proof (cases "ts = []")
    case True
    then show ?thesis using w by (simp add: execute_command_def returns_def)
  next
    case False
    then have "0 < length argv" using w(2) by simp
    then have a: "argv \<noteq> []" "cstr m' (argv ! 0) (hd ts)" using w(3) False by (auto simp: hd_conv_nth)
    show ?thesis
    proof (cases "hd ts \<in> bytes ` fst ` set commands")
      case True
      then obtain name f where n: "(name, f) \<in> set commands" "hd ts = bytes name" by auto
      have "execute_command pe m p s = f pe m' argv s"
        using find_command(1) [OF a(2) n] w(1) a(1) by (simp add: execute_command_def)
      then have "\<exists>name f m' arguments. (name, f) \<in> set commands \<and> hd ts = bytes name
        \<and> execute_command pe m p s = f pe m' arguments s \<and> length arguments = min 15 (length ts)
        \<and> (\<forall>i<length arguments. cstr m' (arguments ! i) (ts ! i))" using n w(2,3) by blast
      then show ?thesis using True False by simp
    next
      case unknown: False
      then show ?thesis
        using find_command(2) [OF a(2) unknown] w(1) a(1) by (simp add: execute_command_def returns_def)
    qed
  qed
qed

text \<open>The line \<open>fifo now\<close>, stored at address 100.\<close>

definition fifo_line :: memory where
  "fifo_line = (\<lambda>_. 0)(100 := 102, 101 := 105, 102 := 102, 103 := 111, 104 := 32, 105 := 110,
     200 := 9, 201 := 13, 202 := 10, 203 := 32)"

definition prompt_example :: prompt_env where
  "prompt_example = \<lparr>typed = [], str_buf = 300, whitespace = 200, ktest = (\<lambda>_ s. returns s)\<rparr>"

theorem execute_command_dispatch_witness:
  "\<forall>s. execute_command prompt_example fifo_line 100 s = Inr (Returns, setPageReplacmentAlgorithmFIFO s)"
proof
  fix s
  have w: "whitespace prompt_example = 200" by (simp add: prompt_example_def)
  have sep: "separators fifo_line (whitespace prompt_example) WHITESPACE"
    by (simp add: w separators_def fifo_line_def WHITESPACE_def le_Suc_eq all_conj_distrib)
  have str: "cstr fifo_line 100 [102, 105, 102, 111, 32, 110]" by (simp add: fifo_line_def)
  have tok: "tokens (set WHITESPACE) [102, 105, 102, 111, 32, 110 :: uint8] = [[102, 105, 102, 111], [110]]"
    by (simp add: tokens.simps WHITESPACE_def)
  have dis: "\<forall>i \<le> length [102, 105, 102, 111, 32, 110 :: uint8]. \<forall>j \<le> length WHITESPACE.
      (100 :: uint32) + of_nat i \<noteq> whitespace prompt_example + of_nat j"
    by (simp add: w WHITESPACE_def le_Suc_eq all_conj_distrib)
  have b: "bytes ''fifo'' = [102, 105, 102, 111]" by (simp add: bytes_def)
  have c: "(''fifo'', command_set_page_rep_FIFO) \<in> set commands" by (simp add: commands_def)
  then have i: "[102, 105, 102, 111] \<in> bytes ` fst ` set commands" unfolding b [symmetric] by force
  obtain name f m' arguments where f: "(name, f) \<in> set commands" "hd [[102, 105, 102, 111], [110 :: uint8]] = bytes name"
    "execute_command prompt_example fifo_line 100 s = f prompt_example m' arguments s"
    using execute_command_dispatch [OF sep str dis tok [symmetric], of s] i by auto
  have "bytes name = bytes ''fifo''" using f(2) unfolding b list.sel by (rule sym)
  then have "name = ''fifo''" unfolding bytes_inj .
  then have "f = command_set_page_rep_FIFO" using f(1) eq_key_imp_eq_value [OF commands_distinct _ c] by blast
  then show "execute_command prompt_example fifo_line 100 s = Inr (Returns, setPageReplacmentAlgorithmFIFO s)"
    using f(3) by (simp add: command_set_page_rep_FIFO_def returns_def)
qed

section \<open>Commands on the address space of an environment\<close>

text \<open>\<open>aup\<close> maps the first free frame at the given user page of the environment, writable for the user, keeps
  every other mapping and the invariant of the address space, and hands the frame out with its old contents.\<close>

theorem command_allocuserpage_correct:
  assumes "arg_number m arguments 1 10 = Inr n" and "arg_number m arguments 2 16 = Inr a"
    and "envid2env (word_of_int n) False s = Inr ((r, Some e), s)" and "env_page_directory (envs s e) = Some pd"
    and "aspace_ok s pd" and "pdx (word_of_int a) < pdx USER_TOP" and "free_frame_list s = f # g # fs"
  shows "\<exists>s'. command_allocuserpage pe m arguments s = Inr (Returns, s') \<and> aspace_ok s' pd
    \<and> check_va2pa pd (word_of_int a) s' = Inr (to_physical_address f, s') \<and> pmem s' f = pmem s f
    \<and> (\<forall>k l. k < UPDES \<and> l < 1024 \<and> (k, l) \<noteq> (pdx (word_of_int a), ptx (word_of_int a)) \<longrightarrow> pte_at s' pd k l = pte_at s pd k l)"
proof -
  define va :: uint32 where "va = word_of_int a"
  have fr: "frames_ok s" using assms(5) by (simp add: aspace_ok_def)
  note al0 = allocate_frame_Cons [OF fr assms(7)]
  let ?s = "s\<lparr>free_frame_list := g # fs\<rparr>"
  note al = allocate_frame_aspace [OF assms(5) al0]
  have va: "pdx va < UPDES" using assms(6) by (simp add: va_def UPDES_USER_TOP)
  have perm: "(PERM_WRITEABLE OR PERM_USER) AND NOT 0xFFF = 0" by (simp add: perm_defs)
  have f: "f < number_of_frames ?s" "f \<notin> set (free_frame_list ?s)" "references (frames_info ?s f) \<noteq> 0xFFFF"
    using al(2,3,6) by simp_all
  obtain ret s' where m: "map_frame pd f va (PERM_WRITEABLE OR PERM_USER) ?s = Inr (ret, s')"
    using map_frame_returns [OF al(1) va] by fastforce
  note ml = map_frame_lemma [OF al(1) va f perm m]
  have "pmem s' f = pmem s f" using map_frame_pmem [OF al(1) va m f(2)] al(5) by simp
  moreover have "command_allocuserpage pe m arguments s = Inr (Returns, s')"
    using assms(1-4) al0 m by (simp add: command_allocuserpage_def va_def returns_def)
  moreover have "check_va2pa pd va s' = Inr (to_physical_address f, s')"
  proof -
    have "EXTRACT_ADDRESS (pte_at s' pd (pdx va) (ptx va)) = to_physical_address f"
      using ml(4) PPN_to_pa_roundtrip by metis
    then show ?thesis using ml(2,3) check_va2pa_ok [OF _ va, of s' pd] by (simp add: aspace_ok_def)
  qed
  moreover have "pte_at s' pd k l = pte_at s pd k l" if "k < UPDES \<and> l < 1024 \<and> (k, l) \<noteq> (pdx va, ptx va)" for k l
    using ml(5) [of k l] al(7) that by simp
  ultimately show ?thesis using ml(2) unfolding va_def by blast
qed

text \<open>\<open>aup 4096 800000\<close>: the id and the address, at 10 and 20.\<close>

definition aup_line :: memory where
  "aup_line = (\<lambda>_. 0)(10 := 52, 11 := 48, 12 := 57, 13 := 54, 20 := 56, 21 := 48, 22 := 48, 23 := 48, 24 := 48, 25 := 48)"

lemma aup_numbers: "number aup_line 10 10 = Inr 4096" "number aup_line 20 16 = Inr 0x800000"
proof -
  note d = strtol_digits.simps [of aup_line]
  have v: "aup_line 10 = 52" "aup_line 11 = 48" "aup_line 12 = 57" "aup_line 13 = 54" "aup_line 14 = 0" "aup_line 20 = 56"
    "aup_line 21 = 48" "aup_line 22 = 48" "aup_line 23 = 48" "aup_line 24 = 48" "aup_line 25 = 48" "aup_line 26 = 0"
    by (simp_all add: aup_line_def)
  have "skip_space aup_line 10 = Some 10" "skip_space aup_line 20 = Some 20"
    by (subst skip_space.simps, simp add: v)+
  moreover have "strtol_digits aup_line 10 10 0 = Some (4096, 14)"
    by (subst d, simp add: v digit_of_def wrap32_def)+
  moreover have "strtol_digits aup_line 16 20 0 = Some (0x800000, 26)"
    by (subst d, simp add: v digit_of_def wrap32_def)+
  ultimately show "number aup_line 10 10 = Inr 4096" "number aup_line 20 16 = Inr 0x800000"
    by (simp_all add: number_def strtol_def v Let_def)
qed

definition aup_machine :: kernel where
  "aup_machine = upd_env 0 (\<lambda>en. en\<lparr>env_id := 4096, env_status := ENV_READY\<rparr>) tiny"

theorem command_allocuserpage_correct_witness:
  "\<exists>s'. command_allocuserpage prompt_example aup_line [30, 10, 20] aup_machine = Inr (Returns, s')
     \<and> check_va2pa 3 0x800000 s' = Inr (0x4000, s')"
proof -
  let ?s = aup_machine
  have a: "arg_number aup_line [30, 10, 20] 1 10 = Inr 4096" "arg_number aup_line [30, 10, 20] 2 16 = Inr 0x800000"
    by (simp_all add: arg_number_def argument_def aup_numbers)
  have "ENVX 4096 = 0" by (simp add: ENVX_def NENV_def)
  then have e: "envid2env (word_of_int 4096) False ?s = Inr ((0, Some 0), ?s)"
    by (simp add: envid2env_def aup_machine_def upd_env_def status_defs)
  have h: "env_page_directory (envs ?s 0) = Some 3" "free_frame_list ?s = 4 # 5 # [6, 7, 8, 9, 10, 11, 12, 13, 14, 15]"
    by (simp_all add: aup_machine_def upd_env_def tiny_def)
  have "aspace_ok ?s 3"
  proof -
    have "pmem ?s = pmem tiny" by (simp add: aup_machine_def upd_env_def)
    from aspace_cong [OF this, of 3] tiny_aspace show ?thesis
      by (simp add: aspace_ok_def refs_ok_def frames_ok_def aup_machine_def upd_env_def)
  qed
  moreover have "pdx (word_of_int 0x800000) < pdx USER_TOP" by (simp add: user_small UPDES_USER_TOP [symmetric] UPDES_def)
  ultimately obtain s' where "command_allocuserpage prompt_example aup_line [30, 10, 20] ?s = Inr (Returns, s')"
    "check_va2pa 3 (word_of_int 0x800000) s' = Inr (to_physical_address 4, s')"
    using command_allocuserpage_correct [OF a e h(1) _ _ h(2)] by blast
  then show ?thesis by (simp add: to_physical_address_def)
qed

text \<open>\<open>rut\<close> frees the table but only clears the present bit of its directory entry, which keeps the address of a free
  frame: the address space is broken.\<close>

lemma command_remove_table_breaks:
  assumes "arg_number m arguments 1 10 = Inr n" and "arg_number m arguments 2 16 = Inr a"
    and "envid2env (word_of_int n) False s = Inr ((r, Some e), s)" and "env_page_directory (envs s e) = Some pd"
    and i: "pdx (word_of_int a) < UPDES" and t: "0 < tbl s pd (pdx (word_of_int a))"
    and c: "command_remove_table pe m arguments s = Inr (Returns, s')"
  shows "\<not> pd_ok s' pd" "tbl s' pd (pdx (word_of_int a)) \<in> set (free_frame_list s')"
proof -
  define i where "i = pdx (word_of_int a :: uint32)"
  define x where "x = rd s pd i"
  have e1: "PPN (x AND 0xFFFFF000) = PPN x" 
  proof -
    have "(0xFFFFF000 :: uint32) = NOT 0xFFF" by simp
    then show ?thesis using PPN_EXTRACT [of x] unfolding EXTRACT_ADDRESS_def by (simp only:)
  qed
  have e2: "PPN (x AND NOT PERM_PRESENT) = PPN x"
  proof (rule bit_word_eqI)
    fix n assume "n < LENGTH(32)"
    have "bit (x AND NOT PERM_PRESENT) (12 + n) = bit x (12 + n)"
      using bit_imp_le_length [of x "12 + n"] unfolding PERM_PRESENT_def bit_and_iff bit_not_iff bit_1_iff by auto
    then show "bit (PPN (x AND NOT PERM_PRESENT)) n = bit (PPN x) n" unfolding PPN_def bit_drop_bit_eq o_def .
  qed
  obtain s1 where f: "free_frame (tbl s pd i) (upd_fi (tbl s pd i) (\<lambda>f. f\<lparr>references := 0\<rparr>) s) = Inr ((), s1)"
    and s': "s' = wr pd i (rd s1 pd i AND NOT PERM_PRESENT) s1"
    using c assms(1-4) e1 unfolding i_def [symmetric] x_def
    by (auto simp: command_remove_table_def bindE_eq_Inr returns_def Let_def to_frame_info_def tbl_def i_def [symmetric] split: if_splits)
  note fi = free_frame_Inr [OF f]
  have "rd s1 pd i = x" by (simp add: fi(2) rd_def upd_fi_def x_def)
  then have r: "rd s' pd i = x AND NOT PERM_PRESENT" by (simp add: s' rd_wr)
  then have t': "tbl s' pd i = tbl s pd i" unfolding tbl_def r e2 by (simp add: x_def)
  then show "tbl s' pd (pdx (word_of_int a)) \<in> set (free_frame_list s')"
    unfolding i_def [symmetric] by (simp add: s' wr_def fi(2))
  have "rd s' pd i \<noteq> 0"
  proof
    assume "rd s' pd i = 0"
    then have "tbl s' pd i = 0" by (simp add: tbl_def PPN_def)
    then show False using t t' unfolding i_def [symmetric] by simp
  qed
  moreover have "\<not> present (rd s' pd i)" unfolding r by (simp add: present_iff_bit bit_simps PERM_PRESENT_def)
  ultimately show "\<not> pd_ok s' pd" using i unfolding i_def [symmetric] pd_ok_def by blast
qed

text \<open>A working set of size 0 passes the checks of \<open>CreateEnv\<close>, because \<open>pageWSSize - 1\<close> wraps around.\<close>

lemma CreateEnv_zero_working_set:
  assumes "PageRepAlgoType (cfg s) = PG_REP_LRU_LISTS_APPROX"
    and "number m p2 10 = Inr 0" and "number m p3 10 = Inr n" and "arg_string m [p0, p1, p2, p3] 1 = Inr name"
  shows "CreateEnv m [p0, p1, p2, p3] s = env_create name 0 (word_of_int n) 0 s"
  using assms by (simp add: CreateEnv_def isPageReplacmentAlgorithmLRU_def arg_number_def argument_def Let_def)

end
