(* ===== verification/Command_Line.thy ===== *)
theory Command_Line
  imports Command_Prompt
begin

text \<open>
  The line editor of the command prompt (\<^verbatim>\<open>kern/command_prompt.c\<close>): cursor keys, overwriting, the history of
  commands and the completion of command and program names. The line buffer, the history and the local copies lie
  in one memory, at the addresses of \<open>line_data\<close>, so that a write outside an array is an ordinary write. The
  characters that the editor reads are a list, and a result \<open>None\<close> means that it waits for more of them, or that a
  string in memory has no end. \<open>ed_out\<close> collects the characters it prints.
\<close>

section \<open>The editor\<close>

definition HISTORY_MAX :: int where "HISTORY_MAX = 19"

text \<open>\<open>empty_line\<close> is the array \<open>empty\<close>; \<open>program_names\<close> are those of \<open>ptr_UserPrograms\<close>.\<close>

record line_data =
  command_history :: uint32
  empty_line :: uint32
  temp_buf :: uint32
  white_space :: uint32
  program_names :: "string list"

text \<open>\<open>PrefixList\<close> holds the completions as byte lists. \<open>last_c\<close> and \<open>prefix_list_size\<close> have no initial value in the
  code.\<close>

record editor =
  ed_mem :: memory
  ed_i :: int
  lastIndex :: int
  commandidx :: int
  last_command_idx :: int
  last_c :: int
  prefix_list_idx :: nat
  PrefixList :: "uint8 list list"
  ed_out :: "int list"

definition history_row :: "line_data \<Rightarrow> int \<Rightarrow> uint32" where
  "history_row ld k = command_history ld + of_int k * 1024"

fun write_bytes_at :: "memory \<Rightarrow> uint32 \<Rightarrow> uint8 list \<Rightarrow> memory" where
  "write_bytes_at m p [] = m"
| "write_bytes_at m p (x # xs) = write_bytes_at (m(p := x)) (p + 1) xs"

text \<open>\<open>clearandwritecommand\<close>, and \<open>RoundAutoCompleteCommandWithTheSamePrefix\<close> with the old and the new completion:
  both clear the buffer and write a string to it.\<close>

definition clearandwritecommand :: "line_data \<Rightarrow> uint32 \<Rightarrow> editor \<Rightarrow> editor option" where
  "clearandwritecommand ld buf ed =
     (let row = history_row ld (commandidx ed) in
      Option.bind (strlen (ed_mem ed) row) (\<lambda>len.
      let m = memcpy (ed_mem ed) buf (empty_line ld) 1024;
          m = copy_up m buf row (nat len)
      in Some (ed\<lparr>ed_mem := m, ed_i := len, lastIndex := len,
           ed_out := ed_out ed @ replicate (nat (ed_i ed)) 8 @ map (\<lambda>k. sint (m (row + of_nat k))) [0..<nat len]\<rparr>)))"

definition RoundAutoCompleteCommandWithTheSamePrefix ::
  "line_data \<Rightarrow> uint32 \<Rightarrow> uint8 list \<Rightarrow> uint8 list \<Rightarrow> editor \<Rightarrow> editor" where
  "RoundAutoCompleteCommandWithTheSamePrefix ld buf old new ed =
     (let m = memcpy (ed_mem ed) buf (empty_line ld) 1024
      in ed\<lparr>ed_mem := write_bytes_at m buf new, ed_i := int (length new), lastIndex := int (length new),
           ed_out := ed_out ed @ replicate (length old) 8 @ map sint new\<rparr>)"

text \<open>The first Tab: \<open>completions\<close> are the names that start with the string at \<open>temp_buf\<close>. \<open>continue\<close> leaves
  \<open>last_c\<close> unchanged.\<close>

definition completions :: "uint8 list \<Rightarrow> uint8 list \<Rightarrow> string list \<Rightarrow> uint8 list list" where
  "completions before w names = map (\<lambda>n. before @ bytes n) (filter (\<lambda>n. take (length w) (bytes n) = w) names)"

definition show_completion :: "uint32 \<Rightarrow> int \<Rightarrow> uint8 list list \<Rightarrow> editor \<Rightarrow> editor option" where
  "show_completion buf bufLength found ed =
     (let ed = ed\<lparr>PrefixList := found, last_c := 9\<rparr> in
      if found = [] then Some ed
      else
        let m = write_bytes_at (ed_mem ed) buf (hd found) in
        Option.bind (cstring m buf) (\<lambda>line.
        Some (ed\<lparr>ed_mem := m, prefix_list_idx := 0, ed_i := int (length line), lastIndex := int (length line),
                ed_out := ed_out ed @ replicate (nat bufLength) 8 @ map sint line\<rparr>)))"

definition first_tab :: "line_data \<Rightarrow> uint32 \<Rightarrow> editor \<Rightarrow> editor option" where
  "first_tab ld buf ed =
     Option.bind (cstring (ed_mem ed) buf) (\<lambda>line.
     let bufLength = length line; ed = ed\<lparr>PrefixList := map (\<lambda>_. []) (PrefixList ed)\<rparr> in
     if line = [] \<or> last_c ed = 255 then Some ed
     else if last line = 32 then Some (ed\<lparr>PrefixList := []\<rparr>)
     else
       let m0 = ed_mem ed; ed = ed\<lparr>PrefixList := []\<rparr> in
       Option.bind (strsplit (write_bytes_at m0 (temp_buf ld) (line @ [0])) (temp_buf ld) (white_space ld)) (\<lambda>(m, arguments, _).
       if length arguments > 1 then
         if \<not> cstr m (arguments ! 0) (bytes ''run'') \<and> \<not> cstr m (arguments ! 0) (bytes ''load'') then Some (ed\<lparr>ed_mem := m\<rparr>)
         else
           Option.bind (cstring m (last arguments)) (\<lambda>w.
           let before = take (bufLength - length w) line;
               m = write_bytes_at m buf (before @ [0]); m = write_bytes_at m (temp_buf ld) (w @ [0])
           in show_completion buf (int bufLength) (completions before w (program_names ld)) (ed\<lparr>ed_mem := m\<rparr>))
       else
         Option.bind (cstring m (temp_buf ld)) (\<lambda>w.
         show_completion buf (int bufLength)
           (completions [] w (if length arguments = 1 then map fst commands else program_names ld)) (ed\<lparr>ed_mem := m\<rparr>))))"

definition next_tab :: "line_data \<Rightarrow> uint32 \<Rightarrow> editor \<Rightarrow> editor" where
  "next_tab ld buf ed =
     (let n = length (PrefixList ed); prev = prefix_list_idx ed; k = (prev + 1) mod n in
      if 0 < n then (RoundAutoCompleteCommandWithTheSamePrefix ld buf (PrefixList ed ! prev) (PrefixList ed ! k) ed)\<lparr>prefix_list_idx := k, last_c := 9\<rparr>
      else ed\<lparr>last_c := 9\<rparr>)"

text \<open>One key other than the end of the line, \<open>c \<ge> 0\<close>.\<close>

definition edit_key :: "line_data \<Rightarrow> uint32 \<Rightarrow> int \<Rightarrow> editor \<Rightarrow> editor option" where
  "edit_key ld buf c ed =
     (let i = ed_i ed; m = ed_mem ed; ed' = ed\<lparr>last_c := c\<rparr> in
      if c = 226 then
        clearandwritecommand ld buf (ed'\<lparr>commandidx := (if commandidx ed \<noteq> 0 then commandidx ed - 1 else commandidx ed)\<rparr>)
      else if c = 227 then
        (let ed' = ed'\<lparr>commandidx := (if commandidx ed < last_command_idx ed then commandidx ed + 1 else commandidx ed)\<rparr>
         in if 0 \<le> last_command_idx ed then clearandwritecommand ld buf ed' else Some ed')
      else if c = 9 then (if last_c ed \<noteq> 9 then first_tab ld buf ed else Some (next_tab ld buf ed))
      else if c = 228 then Some (if 0 < i then ed'\<lparr>ed_i := i - 1, ed_out := ed_out ed @ [c]\<rparr> else ed')
      else if c = 229 then Some (if i < lastIndex ed then ed'\<lparr>ed_i := i + 1, ed_out := ed_out ed @ [c]\<rparr> else ed')
      else if c = 0xE9 \<and> 0 < i then
        Some (ed'\<lparr>ed_mem := copy_up m (buf + of_int i) (buf + of_int i + 1) (nat (lastIndex ed - i + 1)), lastIndex := lastIndex ed - 1\<rparr>)
      else if 32 \<le> c \<and> i < int BUFLEN - 1 then
        Some (ed'\<lparr>ed_mem := m(buf + of_int i := of_int c), ed_i := i + 1, lastIndex := lastIndex ed + 1, ed_out := ed_out ed @ [c]\<rparr>)
      else if c = 8 \<and> 0 < i then
        Some (ed'\<lparr>ed_mem := m(buf + of_int (i - 1) := m (buf + of_int i)), ed_i := i - 1, ed_out := ed_out ed @ [c]\<rparr>)
      else Some ed')"

text \<open>The end of the line: terminate it and enter it into the history.\<close>

definition enter_history :: "line_data \<Rightarrow> uint32 \<Rightarrow> editor \<Rightarrow> editor option" where
  "enter_history ld buf ed =
     (if last_command_idx ed = HISTORY_MAX then
        (let m = fold (\<lambda>k m. memcpy m (history_row ld (int k)) (history_row ld (int k + 1)) 1024) [0..<nat HISTORY_MAX] (ed_mem ed)
         in Some (ed\<lparr>ed_mem := memcpy m (history_row ld HISTORY_MAX) buf 1024\<rparr>))
      else
        Option.bind (strcmp (ed_mem ed) (history_row ld (last_command_idx ed)) buf) (\<lambda>r.
        Some (if r \<noteq> 0 then
                ed\<lparr>last_command_idx := last_command_idx ed + 1,
                  ed_mem := memcpy (ed_mem ed) (history_row ld (last_command_idx ed + 1)) buf 1024\<rparr>
              else ed)))"

definition end_line :: "line_data \<Rightarrow> uint32 \<Rightarrow> int \<Rightarrow> editor \<Rightarrow> editor option" where
  "end_line ld buf c ed =
     enter_history ld buf (ed\<lparr>ed_mem := (ed_mem ed)(buf + of_int (lastIndex ed) := 0), ed_out := ed_out ed @ [c]\<rparr>)"

fun prompt_loop :: "line_data \<Rightarrow> uint32 \<Rightarrow> int list \<Rightarrow> editor \<Rightarrow> (editor \<times> int list) option" where
  "prompt_loop ld buf [] ed = None"
| "prompt_loop ld buf (c # cs) ed =
     (let ed = (if ed_i ed > lastIndex ed then ed\<lparr>lastIndex := ed_i ed\<rparr> else ed) in
      if c < 0 then Some (ed, cs)
      else if c = 10 \<or> c = 13 then Option.bind (end_line ld buf c ed) (\<lambda>ed. Some (ed, cs))
      else Option.bind (edit_key ld buf c ed) (prompt_loop ld buf cs))"

text \<open>The memory and \<open>last_command_idx\<close> survive a call; \<open>c0\<close> is the value that the uninitialised \<open>last_c\<close> holds, and
  \<open>found\<close> are the rows of \<open>PrefixList\<close> that the uninitialised \<open>prefix_list_size\<close> counts.\<close>

definition command_prompt_readline ::
  "line_data \<Rightarrow> int \<Rightarrow> uint8 list list \<Rightarrow> uint32 \<Rightarrow> int list \<Rightarrow> memory \<times> int \<Rightarrow> (editor \<times> int list) option" where
  "command_prompt_readline ld c0 found buf input = (\<lambda>(m, l).
     prompt_loop ld buf input \<lparr>ed_mem = m, ed_i = 0, lastIndex = 0, commandidx = l + 1, last_command_idx = l,
       last_c = c0, prefix_list_idx = 0, PrefixList = found, ed_out = []\<rparr>)"

text \<open>One round of \<open>run_command_prompt\<close>: the buffer is cleared, a line is read and executed. No command returns a
  negative number, so the loop never ends by itself.\<close>

definition run_command_prompt_round ::
  "line_data \<Rightarrow> int \<Rightarrow> uint8 list list \<Rightarrow> prompt_env \<Rightarrow> uint32 \<Rightarrow> int list \<Rightarrow> memory \<times> int \<Rightarrow> kernel
   \<Rightarrow> ((memory \<times> int) \<times> int list \<times> (halt + control \<times> kernel)) option" where
  "run_command_prompt_round ld c0 found pe command_line input = (\<lambda>(m, l) s.
     Option.bind (command_prompt_readline ld c0 found command_line input (memset m command_line 0 1024, l)) (\<lambda>(ed, input).
     Some ((ed_mem ed, last_command_idx ed), input, execute_command (pe\<lparr>typed := input\<rparr>) (ed_mem ed) command_line s)))"

section \<open>The history\<close>

definition apart :: "uint32 \<Rightarrow> nat \<Rightarrow> uint32 \<Rightarrow> nat \<Rightarrow> bool" where
  "apart p n q k \<longleftrightarrow> (\<forall>i<n. \<forall>j<k. p + of_nat i \<noteq> q + of_nat j)"

definition outside :: "uint32 \<Rightarrow> uint32 \<Rightarrow> nat \<Rightarrow> bool" where
  "outside a p n \<longleftrightarrow> (\<forall>i<n. a \<noteq> p + of_nat i)"

lemma apartI: "unat p + n \<le> unat q \<Longrightarrow> unat q + k \<le> 2 ^ 32 \<Longrightarrow> apart p n q k \<and> apart q k p n"
proof -
  assume a: "unat p + n \<le> unat q" "unat q + k \<le> 2 ^ 32"
  have "p + of_nat i \<noteq> q + of_nat j" if "i < n" "j < k" for i j
  proof
    assume e: "p + of_nat i = q + of_nat j"
    have "unat (x + of_nat k) = unat x + k" if "unat x + k < 2 ^ 32" for x :: uint32 and k
      using that by (simp add: unat_word_ariths unsigned_of_nat take_bit_eq_mod mod_add_right_eq)
    then have "unat (p + of_nat i) = unat p + i" "unat (q + of_nat j) = unat q + j"
      using a that by simp_all
    then show False using e a that by simp
  qed
  then show ?thesis unfolding apart_def by metis
qed

lemma apart_sub: "apart p n q k \<Longrightarrow> n' \<le> n \<Longrightarrow> d + k' \<le> k \<Longrightarrow> apart p n' (q + of_nat d) k'"
  unfolding apart_def
proof (intro allI impI)
  fix i j assume a: "\<forall>i<n. \<forall>j<k. p + of_nat i \<noteq> q + of_nat j" "n' \<le> n" "d + k' \<le> k" "i < n'" "j < k'"
  then show "p + of_nat i \<noteq> q + of_nat d + of_nat j" using a(1) [rule_format, of i "d + j"] by (simp add: add.assoc)
qed

lemma apart_sym: "apart p n q k \<longleftrightarrow> apart q k p n"
  unfolding apart_def by metis

lemma unat_numeral_1024: "unat (1024 :: uint32) = 1024"
  by simp

lemma memcpy_row:
  assumes "apart d 1024 s 1024"
  shows "i < 1024 \<Longrightarrow> memcpy m d s 1024 (d + of_nat i) = m (s + of_nat i)"
    and "outside a d 1024 \<Longrightarrow> memcpy m d s 1024 a = m a"
proof -
  have "\<forall>k. 0 < k \<and> k < (1024 :: nat) \<longrightarrow> d \<noteq> s + of_nat k"
  proof (intro allI impI)
    fix k :: nat assume "0 < k \<and> k < 1024"
    then show "d \<noteq> s + of_nat k" using assms [unfolded apart_def, rule_format, of 0 k] by simp
  qed
  then show "i < 1024 \<Longrightarrow> memcpy m d s 1024 (d + of_nat i) = m (s + of_nat i)"
    using copy_up_value [of 1024 d s i m] unfolding memcpy_def unat_numeral_1024 by simp
  show "outside a d 1024 \<Longrightarrow> memcpy m d s 1024 a = m a"
    unfolding memcpy_def unat_numeral_1024 outside_def by (rule copy_up_other)
qed

lemma cstr_same: "cstr m p xs \<Longrightarrow> (\<And>i. i \<le> length xs \<Longrightarrow> m' (q + of_nat i) = m (p + of_nat i)) \<Longrightarrow> cstr m' q xs"
  by (simp add: cstr_iff)

lemma history_row_nat: "history_row ld (int k) = command_history ld + of_nat (1024 * k)"
  by (simp add: history_row_def)

text \<open>\<open>hs\<close> are the lines of the history, the oldest first. \<open>remember\<close> enters a line.\<close>

definition holds_history :: "line_data \<Rightarrow> memory \<Rightarrow> uint8 list list \<Rightarrow> bool" where
  "holds_history ld m hs \<longleftrightarrow> length hs \<le> 20
     \<and> (\<forall>k<length hs. cstr m (history_row ld (int k)) (hs ! k) \<and> length (hs ! k) < 1024)"

definition remember :: "uint8 list \<Rightarrow> uint8 list list \<Rightarrow> uint8 list list" where
  "remember line hs =
     (if length hs = 20 then tl hs @ [line] else if last hs = line then hs else hs @ [line])"

lemma rows_apart:
  assumes "j < 20" "k < 20" "j \<noteq> k"
  shows "apart (history_row ld (int j)) 1024 (history_row ld (int k)) 1024"
  unfolding apart_def history_row_nat
proof (intro allI impI notI)
  fix x y :: nat assume x: "x < 1024" "y < 1024"
  assume "command_history ld + of_nat (1024 * j) + of_nat x = command_history ld + of_nat (1024 * k) + of_nat y"
  then have "unat (of_nat (1024 * j + x) :: uint32) = unat (of_nat (1024 * k + y) :: uint32)" by (simp add: add.assoc)
  moreover have "unat (of_nat n :: uint32) = n" if "n < 2 ^ 32" for n
    using that by (simp add: unsigned_of_nat take_bit_nat_eq_self)
  moreover have "1024 * j + x < 2 ^ 32" "1024 * k + y < 2 ^ 32" using assms x by simp_all
  ultimately have "1024 * j + x = 1024 * k + y" by (simp only:)
  then have "(1024 * j + x) div 1024 = (1024 * k + y) div 1024" by simp
  then show False using x assms(3) by simp
qed

lemma row_outside: "j < 20 \<Longrightarrow> k < 20 \<Longrightarrow> j \<noteq> k \<Longrightarrow> i < 1024 \<Longrightarrow> outside (history_row ld (int k) + of_nat i) (history_row ld (int j)) 1024"
  using rows_apart [of j k ld] unfolding apart_def outside_def by metis

lemma history_outside: "outside a (command_history ld) 20480 \<Longrightarrow> k < 20 \<Longrightarrow> outside a (history_row ld (int k)) 1024"
  unfolding outside_def history_row_nat
proof (intro allI impI)
  fix i :: nat assume a: "\<forall>i<20480. a \<noteq> command_history ld + of_nat i" "k < 20" "i < 1024"
  show "a \<noteq> command_history ld + of_nat (1024 * k) + of_nat i"
    using a(1) [rule_format, of "1024 * k + i"] a(2,3) by (simp add: add.assoc)
qed

lemma shift_history:
  fixes m :: memory and ld :: line_data
  assumes "n \<le> 19"
  defines "m' \<equiv> fold (\<lambda>k m. memcpy m (history_row ld (int k)) (history_row ld (int k + 1)) 1024) [0..<n] m"
  shows "k < 20 \<Longrightarrow> i < 1024 \<Longrightarrow>
      m' (history_row ld (int k) + of_nat i) = m (history_row ld (int (if k < n then Suc k else k)) + of_nat i)"
    and "outside a (command_history ld) 20480 \<Longrightarrow> m' a = m a"
proof -
  have *: "(\<forall>k<20. \<forall>i<1024. fold (\<lambda>k m. memcpy m (history_row ld (int k)) (history_row ld (int k + 1)) 1024) [0..<n] m
      (history_row ld (int k) + of_nat i) = m (history_row ld (int (if k < n then Suc k else k)) + of_nat i))
    \<and> (\<forall>a. outside a (command_history ld) 20480 \<longrightarrow>
      fold (\<lambda>k m. memcpy m (history_row ld (int k)) (history_row ld (int k + 1)) 1024) [0..<n] m a = m a)"
    using assms(1)
  proof (induction n)
    case (Suc n)
    let ?m = "fold (\<lambda>k m. memcpy m (history_row ld (int k)) (history_row ld (int k + 1)) 1024) [0..<n] m"
    have n1: "int n + 1 = int (Suc n)" by simp
    have ap: "apart (history_row ld (int n)) 1024 (history_row ld (int (Suc n))) 1024"
      by (rule rows_apart) (use Suc.prems in auto)
    note c = memcpy_row [OF ap, of _ ?m]
    have "memcpy ?m (history_row ld (int n)) (history_row ld (int (Suc n))) 1024 (history_row ld (int k) + of_nat i)
        = m (history_row ld (int (if k < Suc n then Suc k else k)) + of_nat i)" if k: "k < 20" "i < 1024" for k i
    proof (cases "k = n")
      case True
      then show ?thesis using c(1) [OF k(2)] Suc.IH [THEN conjunct1, rule_format, of "Suc n" i] Suc.prems k by simp
    next
      case False
      then show ?thesis
        using c(2) [OF row_outside [of n k i ld]] Suc.IH [THEN conjunct1, rule_format, of k i] Suc.prems k by simp
    qed
    moreover have "memcpy ?m (history_row ld (int n)) (history_row ld (int (Suc n))) 1024 a = m a"
      if "outside a (command_history ld) 20480" for a
      using c(2) [OF history_outside [OF that]] Suc that by simp
    ultimately show ?case unfolding n1 [symmetric] by simp
  qed simp
  show "k < 20 \<Longrightarrow> i < 1024 \<Longrightarrow>
      m' (history_row ld (int k) + of_nat i) = m (history_row ld (int (if k < n then Suc k else k)) + of_nat i)"
    using * unfolding m'_def by blast
  show "outside a (command_history ld) 20480 \<Longrightarrow> m' a = m a" using * unfolding m'_def by blast
qed

text \<open>The end of a line enters it into the history, where \<open>prev\<close> is the string at the row of the last command.\<close>

lemma history_shifted:
  assumes h: "holds_history ld m hs" and full: "length hs = 20"
    and line: "cstr m buf line" "length line < 1024" and ap: "apart buf 1024 (command_history ld) 20480"
    and to_row: "apart (history_row ld (int 19)) 1024 buf 1024"
    and m2: "m2 = memcpy (fold (\<lambda>k m. memcpy m (history_row ld (int k)) (history_row ld (int k + 1)) 1024) [0..<19] m)
      (history_row ld (int 19)) buf 1024"
  shows "holds_history ld m2 (tl hs @ [line])"
    and "outside a (command_history ld) 20480 \<Longrightarrow> m2 a = m a"
proof -
  let ?m1 = "fold (\<lambda>k m. memcpy m (history_row ld (int k)) (history_row ld (int k + 1)) 1024) [0..<19] m"
  have rows: "cstr m (history_row ld (int k)) (hs ! k)" "length (hs ! k) < 1024" if "k < length hs" for k
    using h that unfolding holds_history_def by blast+
  have buf_out: "outside (buf + of_nat i) (command_history ld) 20480" if "i < 1024" for i
    using ap that unfolding apart_def outside_def by blast
  have up: "m2 (history_row ld (int k) + of_nat i) = m (history_row ld (int (Suc k)) + of_nat i)" if "k < 19" "i < 1024" for k i
    using memcpy_row(2) [OF to_row row_outside [of 19 k i ld], of ?m1] shift_history(1) [of 19 k i ld m] that by (simp add: m2)
  have new: "m2 (history_row ld (int 19) + of_nat i) = m (buf + of_nat i)" if "i < 1024" for i
    using memcpy_row(1) [OF to_row that, of ?m1] shift_history(2) [of 19 "buf + of_nat i" ld m] buf_out [OF that] by (simp add: m2)
  have "cstr m2 (history_row ld (int k)) ((tl hs @ [line]) ! k) \<and> length ((tl hs @ [line]) ! k) < 1024" if k: "k < 20" for k
  proof (cases "k = 19")
    case True
    have "(tl hs @ [line]) ! 19 = line" using full by (simp add: nth_append)
    then show ?thesis using cstr_same [OF line(1), of m2 "history_row ld (int 19)"] new line(2) True by simp
  next
    case False
    then have "(tl hs @ [line]) ! k = hs ! Suc k" using full k by (simp add: nth_append nth_tl)
    then show ?thesis
      using cstr_same [OF rows(1) [of "Suc k"], of m2 "history_row ld (int k)"] up [of k] rows(2) [of "Suc k"] False k full by simp
  qed
  then show "holds_history ld m2 (tl hs @ [line])" unfolding holds_history_def using full by simp
  show "m2 a = m a" if "outside a (command_history ld) 20480"
    using memcpy_row(2) [OF to_row history_outside [OF that], of ?m1] shift_history(2) [of 19 a ld m] that by (simp add: m2)
qed

lemma history_appended:
  assumes h: "holds_history ld m hs" and room: "length hs < 20" and line: "cstr m buf line" "length line < 1024"
    and to_row: "apart (history_row ld (int (length hs))) 1024 buf 1024"
    and m2: "m2 = memcpy m (history_row ld (int (length hs))) buf 1024"
  shows "holds_history ld m2 (hs @ [line])"
    and "outside a (command_history ld) 20480 \<Longrightarrow> m2 a = m a"
proof -
  have rows: "cstr m (history_row ld (int k)) (hs ! k)" "length (hs ! k) < 1024" if "k < length hs" for k
    using h that unfolding holds_history_def by blast+
  have "cstr m2 (history_row ld (int j)) ((hs @ [line]) ! j) \<and> length ((hs @ [line]) ! j) < 1024"
    if j: "j < Suc (length hs)" for j
  proof (cases "j = length hs")
    case True
    then show ?thesis
      using cstr_same [OF line(1), of m2 "history_row ld (int j)"] memcpy_row(1) [OF to_row, of _ m] line(2)
      by (simp add: m2)
  next
    case False
    have "m2 (history_row ld (int j) + of_nat i) = m (history_row ld (int j) + of_nat i)" if "i < 1024" for i
      using memcpy_row(2) [OF to_row row_outside [of "length hs" j i ld], of m] room False j that by (simp add: m2)
    then show ?thesis
      using cstr_same [OF rows(1) [of j], of m2 "history_row ld (int j)"] rows(2) [of j] False j by (simp add: nth_append)
  qed
  then show "holds_history ld m2 (hs @ [line])" unfolding holds_history_def using room by simp
  show "m2 a = m a" if "outside a (command_history ld) 20480"
    using memcpy_row(2) [OF to_row history_outside [OF that room], of m] by (simp add: m2)
qed

lemma enter_history_remember:
  assumes h: "holds_history ld (ed_mem ed) hs" and "hs \<noteq> []" and l: "last_command_idx ed = int (length hs) - 1"
    and line: "cstr (ed_mem ed) buf line" "length line < 1024"
    and ap: "apart buf 1024 (command_history ld) 20480"
  shows "\<exists>ed'. enter_history ld buf ed = Some ed' \<and> holds_history ld (ed_mem ed') (remember line hs)
    \<and> last_command_idx ed' = int (length (remember line hs)) - 1
    \<and> (\<forall>a. outside a (command_history ld) 20480 \<longrightarrow> ed_mem ed' a = ed_mem ed a)"
proof -
  let ?m = "ed_mem ed"
  have rows: "cstr ?m (history_row ld (int k)) (hs ! k)" "length (hs ! k) < 1024" if "k < length hs" for k
    using h that unfolding holds_history_def by blast+
  have n: "length hs \<le> 20" "0 < length hs" using h assms(2) by (simp_all add: holds_history_def)
  have to_row: "apart (history_row ld (int k)) 1024 buf 1024" if "k < 20" for k
    using apart_sub [OF ap, of 1024 "1024 * k" 1024] that unfolding history_row_nat apart_sym [of buf] by simp
  show ?thesis
  proof (cases "length hs = 20")
    case True
    let ?m1 = "fold (\<lambda>k m. memcpy m (history_row ld (int k)) (history_row ld (int k + 1)) 1024) [0..<19] ?m"
    let ?m2 = "memcpy ?m1 (history_row ld (int 19)) buf 1024"
    have e: "enter_history ld buf ed = Some (ed\<lparr>ed_mem := ?m2\<rparr>)"
      using True l by (simp add: enter_history_def HISTORY_MAX_def)
    have r: "remember line hs = tl hs @ [line]" using True by (simp add: remember_def)
    have ap19: "apart (history_row ld (int 19)) 1024 buf 1024" by (rule to_row) simp
    note sh = history_shifted [OF h True line ap ap19 refl]
    show ?thesis unfolding e using l True r sh by simp
  next
    case False
    then have n': "length hs < 20" using n by simp
    define k where "k = length hs - 1"
    have k: "k < length hs" "int (length hs) - 1 = int k" "hs ! k = last hs"
      using n assms(2) by (simp_all add: k_def last_conv_nth int_ops(6))
    have k1: "int k + 1 = int (length hs)" using k(2) by simp
    obtain c where c: "strcmp ?m (history_row ld (int k)) buf = Some c" "c = 0 \<longleftrightarrow> last hs = line"
      using strcmp_loop [OF rows(1) [OF k(1)] line(1)] k(3) by auto
    have e: "enter_history ld buf ed = Some (if c \<noteq> 0 then ed\<lparr>last_command_idx := last_command_idx ed + 1,
        ed_mem := memcpy ?m (history_row ld (int (length hs))) buf 1024\<rparr> else ed)"
      using l n' c(1) k k1 by (simp add: enter_history_def HISTORY_MAX_def)
    show ?thesis
    proof (cases "c = 0")
      case True
      then show ?thesis using e c(2) h l n' by (simp add: remember_def)
    next
      case c0: False
      let ?m2 = "memcpy ?m (history_row ld (int (length hs))) buf 1024"
      have r: "remember line hs = hs @ [line]" using c0 c(2) n' by (simp add: remember_def)
      note app = history_appended [OF h n' line to_row [OF n'] refl]
      show ?thesis unfolding e using c0 l r app by simp
    qed
  qed
qed

section \<open>Typing a line\<close>

text \<open>A key that types a character or takes the last one away.\<close>

definition typing_key :: "int \<Rightarrow> bool" where
  "typing_key c \<longleftrightarrow> c = 8 \<or> 32 \<le> c \<and> c < 226"

text \<open>With the cursor behind the line, the buffer holds the line and is zero behind it. \<open>lastIndex\<close> counts the
  characters typed, because a backspace does not decrease it.\<close>

definition line_typed :: "memory \<Rightarrow> uint32 \<Rightarrow> int list \<Rightarrow> nat \<Rightarrow> editor \<Rightarrow> bool" where
  "line_typed m0 buf line n ed \<longleftrightarrow> ed_i ed = int (length line) \<and> length line \<le> n \<and> length line < BUFLEN \<and> lastIndex ed = int n
     \<and> (\<forall>j<BUFLEN. ed_mem ed (buf + of_nat j) = (if j < length line then of_int (line ! j) else 0))
     \<and> (\<forall>a. outside a buf BUFLEN \<longrightarrow> ed_mem ed a = m0 a)"

lemma buf_index: "i < BUFLEN \<Longrightarrow> j < BUFLEN \<Longrightarrow> buf + of_nat i = buf + of_nat j \<longleftrightarrow> i = j" for buf :: uint32
proof -
  have u: "unat (of_nat i :: uint32) = i" if "i < BUFLEN" for i
    using that by (simp add: BUFLEN_def unsigned_of_nat take_bit_nat_eq_self)
  show "i < BUFLEN \<Longrightarrow> j < BUFLEN \<Longrightarrow> buf + of_nat i = buf + of_nat j \<longleftrightarrow> i = j"
    using u [of i] u [of j] by (metis add_left_cancel)
qed

lemma line_typed_key:
  assumes "line_typed m0 buf line n ed" and "typing_key c"
  shows "\<exists>ed'. edit_key ld buf c ed = Some ed'
    \<and> line_typed m0 buf (edit c line) (if 32 \<le> c \<and> length line < BUFLEN - 1 then n + 1 else n) ed'
    \<and> last_command_idx ed' = last_command_idx ed"
proof -
  let ?m = "ed_mem ed"
  have out: "outside a buf BUFLEN \<Longrightarrow> i < BUFLEN \<Longrightarrow> a \<noteq> buf + of_nat i" for a i unfolding outside_def by blast
  have t: "ed_i ed = int (length line)" "length line \<le> n" "length line < BUFLEN" "lastIndex ed = int n"
    "\<And>j. j < BUFLEN \<Longrightarrow> ?m (buf + of_nat j) = (if j < length line then of_int (line ! j) else 0)"
    "\<And>a. outside a buf BUFLEN \<Longrightarrow> ?m a = m0 a"
    using assms(1) unfolding line_typed_def by blast+
  consider "c = 8" "line = []" | x xs where "c = 8" "line = xs @ [x]" | "32 \<le> c" "c < 226" "length line < BUFLEN - 1"
    | "32 \<le> c" "c < 226" "length line = BUFLEN - 1"
    using assms(2) t(3) unfolding typing_key_def by (metis rev_exhaust less_antisym Suc_pred' BUFLEN_def zero_less_numeral)
  then show ?thesis
  proof cases
    case 1
    then show ?thesis using assms(1) by (simp add: edit_key_def edit_def line_typed_def Let_def)
  next
    case (2 x xs)
    let ?ed = "ed\<lparr>last_c := c, ed_mem := ?m(buf + of_nat (length xs) := 0), ed_i := int (length xs), ed_out := ed_out ed @ [c]\<rparr>"
    have "?m (buf + of_nat (length line)) = 0" using t(5) [OF t(3)] by simp
    then have "edit_key ld buf c ed = Some ?ed" using 2 t(1) by (simp add: edit_key_def Let_def)
    moreover have "(?m(buf + of_nat (length xs) := 0)) (buf + of_nat j) = (if j < length xs then of_int (xs ! j) else 0)"
      if "j < BUFLEN" for j
      using t(5) [OF that] buf_index [OF that, of "length xs" buf] t(3) 2 by (simp add: nth_append less_Suc_eq)
    moreover have "(?m(buf + of_nat (length xs) := 0)) a = m0 a" if "outside a buf BUFLEN" for a
      using t(6) [OF that] out [OF that, of "length xs"] t(3) 2 by simp
    ultimately show ?thesis using t(2-4) 2 by (simp add: edit_def line_typed_def)
  next
    case 3
    let ?m' = "?m(buf + of_nat (length line) := of_int c)"
    have "edit_key ld buf c ed = Some (ed\<lparr>last_c := c, ed_mem := ?m', ed_i := ed_i ed + 1, lastIndex := lastIndex ed + 1,
        ed_out := ed_out ed @ [c]\<rparr>)"
      using 3 t(1) by (simp add: edit_key_def Let_def BUFLEN_def)
    moreover have "?m' (buf + of_nat j) = (if j < Suc (length line) then of_int ((line @ [c]) ! j) else 0)" if "j < BUFLEN" for j
      using t(5) [OF that] buf_index [OF that t(3), of buf] by (simp add: nth_append less_Suc_eq)
    moreover have "?m' a = m0 a" if "outside a buf BUFLEN" for a
      using t(6) [OF that] out [OF that t(3)] by simp
    ultimately show ?thesis using t(1-4) 3 by (simp add: edit_def line_typed_def)
  next
    case 4
    then have "edit_key ld buf c ed = Some (ed\<lparr>last_c := c\<rparr>)" using t(1) by (simp add: edit_key_def Let_def BUFLEN_def)
    then show ?thesis using assms(1) 4 by (simp add: edit_def line_typed_def)
  qed
qed

lemma prompt_loop_types:
  assumes "\<forall>c \<in> set cs. typing_key c" and "line_typed m0 buf line n ed"
  shows "\<exists>ed' n'. prompt_loop ld buf (cs @ rest) ed = prompt_loop ld buf rest ed' \<and> line_typed m0 buf (fold edit cs line) n' ed'
    \<and> last_command_idx ed' = last_command_idx ed \<and> n' \<le> n + length (filter (\<lambda>c. c \<noteq> 8) cs)"
  using assms
proof (induction cs arbitrary: line n ed)
  case Nil
  then show ?case by auto
next
  case (Cons c cs)
  obtain ed1 where ed1: "edit_key ld buf c ed = Some ed1"
    "line_typed m0 buf (edit c line) (if 32 \<le> c \<and> length line < BUFLEN - 1 then n + 1 else n) ed1"
    "last_command_idx ed1 = last_command_idx ed"
    using line_typed_key [OF Cons.prems(2), of c ld] Cons.prems(1) by auto
  have "\<not> ed_i ed > lastIndex ed" using Cons.prems(2) by (simp add: line_typed_def)
  moreover have "0 \<le> c" "c \<noteq> 10" "c \<noteq> 13" using Cons.prems(1) by (auto simp: typing_key_def)
  ultimately have s: "prompt_loop ld buf ((c # cs) @ rest) ed = prompt_loop ld buf (cs @ rest) ed1" using ed1(1) by simp
  from Cons.IH [OF _ ed1(2)] Cons.prems(1) obtain ed' n' where
    "prompt_loop ld buf (cs @ rest) ed1 = prompt_loop ld buf rest ed'" "line_typed m0 buf (fold edit (c # cs) line) n' ed'"
    "last_command_idx ed' = last_command_idx ed1"
    "n' \<le> (if 32 \<le> c \<and> length line < BUFLEN - 1 then n + 1 else n) + length (filter (\<lambda>c. c \<noteq> 8) cs)" by auto
  then show ?case unfolding s using ed1(3) by (intro exI [of _ ed'] exI [of _ n']) (auto split: if_splits)
qed

lemma cstr_line:
  assumes "\<forall>j<length line. m (buf + of_nat j) = (of_int (line ! j) :: uint8)" "m (buf + of_nat (length line)) = 0"
    and "\<forall>c \<in> set line. 32 \<le> c \<and> c < 226"
  shows "cstr m buf (map of_int line)"
proof -
  have "of_int c \<noteq> (0 :: uint8)" if c: "c \<in> set line" for c
  proof
    assume "of_int c = (0 :: uint8)"
    then have "uint (of_int c :: uint8) = 0" by simp
    then have "c mod 256 = 0" by (simp add: uint_word_of_int)
    moreover have "c mod 256 = c" using assms(3) c by (auto intro!: mod_pos_pos_trivial)
    ultimately show False using assms(3) c by auto
  qed
  then show ?thesis using assms(1,2) by (simp add: cstr_iff)
qed

lemma fold_edit_printable: "\<forall>c \<in> set cs. typing_key c \<Longrightarrow> \<forall>c \<in> set line. 32 \<le> c \<and> c < 226 \<Longrightarrow>
  \<forall>c \<in> set (fold edit cs line). 32 \<le> c \<and> c < 226"
proof (induction cs arbitrary: line)
  case (Cons c cs)
  have "set (edit c line) \<subseteq> insert c (set line)" "c = 8 \<Longrightarrow> set (edit c line) \<subseteq> set line"
    by (auto simp: edit_def dest: in_set_butlastD)
  moreover have "c = 8 \<or> 32 \<le> c \<and> c < 226" using Cons.prems(1) by (simp add: typing_key_def)
  ultimately have "\<forall>c \<in> set (edit c line). 32 \<le> c \<and> c < 226" using Cons.prems(2) by blast
  with Cons.prems(1) show ?case unfolding fold_Cons o_apply by (intro Cons.IH) simp_all
qed simp

text \<open>The end of a line whose terminator lies in the buffer.\<close>

lemma end_line_remember:
  assumes h: "holds_history ld m hs" "hs \<noteq> []" and ap: "apart buf 1024 (command_history ld) 20480"
    and ed: "lastIndex ed = int n" "n < 1024" "last_command_idx ed = int (length hs) - 1"
    and line: "cstr ((ed_mem ed)(buf + of_nat n := 0)) buf line" "length line < 1024"
    and m: "\<And>a. outside a buf 1024 \<Longrightarrow> ed_mem ed a = m a"
  shows "\<exists>ed'. end_line ld buf c ed = Some ed' \<and> cstr (ed_mem ed') buf line \<and> holds_history ld (ed_mem ed') (remember line hs)
    \<and> last_command_idx ed' = int (length (remember line hs)) - 1
    \<and> (\<forall>a. outside a buf 1024 \<and> outside a (command_history ld) 20480 \<longrightarrow> ed_mem ed' a = m a)"
proof -
  let ?m = "(ed_mem ed)(buf + of_nat n := 0)"
  let ?ed = "ed\<lparr>ed_mem := ?m, ed_out := ed_out ed @ [c]\<rparr>"
  have m': "?m a = m a" if "outside a buf 1024" for a
    using m [OF that] that ed(2) unfolding outside_def by simp
  have row: "outside (history_row ld (int k) + of_nat i) buf 1024" if "k < 20" "i < 1024" for k i
  proof -
    have "apart buf 1024 (history_row ld (int k)) 1024"
      using apart_sub [OF ap, of 1024 "1024 * k" 1024] that(1) unfolding history_row_nat by simp
    then show ?thesis using that(2) unfolding apart_def outside_def by metis
  qed
  have hm: "holds_history ld ?m hs"
    unfolding holds_history_def
  proof (intro conjI allI impI)
    show "length hs \<le> 20" using h(1) by (simp add: holds_history_def)
    fix k assume k: "k < length hs"
    then have r: "cstr m (history_row ld (int k)) (hs ! k)" "length (hs ! k) < 1024" "k < 20"
      using h(1) unfolding holds_history_def by auto
    show "cstr ?m (history_row ld (int k)) (hs ! k)"
      by (rule cstr_same [OF r(1)]) (use r(2,3) m' [OF row] in simp)
    show "length (hs ! k) < 1024" by (rule r(2))
  qed
  obtain ed' where e: "enter_history ld buf ?ed = Some ed'" "holds_history ld (ed_mem ed') (remember line hs)"
    "last_command_idx ed' = int (length (remember line hs)) - 1"
    "\<And>a. outside a (command_history ld) 20480 \<Longrightarrow> ed_mem ed' a = ?m a"
    using enter_history_remember [of ld ?ed hs buf line] hm h(2) ed(3) line ap by auto
  have "ed_mem ed' (buf + of_nat i) = ?m (buf + of_nat i)" if "i < 1024" for i
    by (rule e(4)) (use ap that in \<open>simp add: apart_def outside_def\<close>)
  then have "cstr (ed_mem ed') buf line" using cstr_same [OF line(1), of "ed_mem ed'" buf] line(2) by simp
  moreover have "end_line ld buf c ed = Some ed'" using e(1) ed(1) by (simp add: end_line_def)
  ultimately show ?thesis using e(2-4) m' by auto
qed

text \<open>C13: a line of fewer than 1024 typed characters, edited with backspaces, is returned in the buffer as a terminated
  string; it becomes the newest line of the history, which keeps the last 20 lines, unless it repeats the newest one;
  memory outside the buffer and the history is not touched.\<close>

theorem command_prompt_readline_correct:
  assumes "\<forall>c \<in> set cs. typing_key c" and "length (filter (\<lambda>c. c \<noteq> 8) cs) < 1024" and "nl = 10 \<or> nl = 13"
    and "\<forall>i<1024. m (buf + of_nat i) = 0" and "holds_history ld m hs" "hs \<noteq> []"
    and "apart buf 1024 (command_history ld) 20480" and line: "line = map of_int (fold edit cs [])"
  shows "\<exists>ed. command_prompt_readline ld c0 found buf (cs @ nl # rest) (m, int (length hs) - 1) = Some (ed, rest)
    \<and> cstr (ed_mem ed) buf line \<and> holds_history ld (ed_mem ed) (remember line hs)
    \<and> last_command_idx ed = int (length (remember line hs)) - 1
    \<and> (\<forall>a. outside a buf 1024 \<and> outside a (command_history ld) 20480 \<longrightarrow> ed_mem ed a = m a)"
proof -
  let ?ed = "\<lparr>ed_mem = m, ed_i = 0, lastIndex = 0, commandidx = int (length hs) - 1 + 1, last_command_idx = int (length hs) - 1,
       last_c = c0, prefix_list_idx = 0, PrefixList = found, ed_out = []\<rparr>"
  have "line_typed m buf [] 0 ?ed" using assms(4) by (simp add: line_typed_def BUFLEN_def)
  then obtain ed n where e: "prompt_loop ld buf (cs @ nl # rest) ?ed = prompt_loop ld buf (nl # rest) ed"
    "line_typed m buf (fold edit cs []) n ed" "last_command_idx ed = int (length hs) - 1" "n < 1024"
    using prompt_loop_types [OF assms(1), of m buf "[]" 0 ?ed ld "nl # rest"] assms(2) by auto
  let ?xs = "fold edit cs []"
  let ?m = "(ed_mem ed)(buf + of_nat n := 0)"
  have t: "\<not> ed_i ed > lastIndex ed" "lastIndex ed = int n" "length ?xs \<le> n"
    "\<And>j. j < 1024 \<Longrightarrow> ed_mem ed (buf + of_nat j) = (if j < length ?xs then of_int (?xs ! j) else 0)"
    "\<And>a. outside a buf 1024 \<Longrightarrow> ed_mem ed a = m a"
    using e(2) unfolding line_typed_def BUFLEN_def by simp_all
  have z: "?m (buf + of_nat j) = (if j < length ?xs then of_int (?xs ! j) else 0)" if "j < 1024" for j
    using t(3) t(4) [OF that] buf_index [of j n buf] that e(4) by (simp add: BUFLEN_def)
  have l: "length line < 1024" using t(3) e(4) by (simp add: line)
  have "cstr ?m buf line"
    unfolding line by (rule cstr_line) (use z t(3) e(4) fold_edit_printable [OF assms(1), of "[]"] in simp_all)
  then obtain ed' where "end_line ld buf nl ed = Some ed'" "cstr (ed_mem ed') buf line"
    "holds_history ld (ed_mem ed') (remember line hs)" "last_command_idx ed' = int (length (remember line hs)) - 1"
    "\<forall>a. outside a buf 1024 \<and> outside a (command_history ld) 20480 \<longrightarrow> ed_mem ed' a = m a"
    using end_line_remember [OF assms(5-7) t(2) e(4) e(3) _ l t(5), where c = nl] by blast
  moreover have "prompt_loop ld buf (nl # rest) ed = Option.bind (end_line ld buf nl ed) (\<lambda>ed. Some (ed, rest))"
    using assms(3) t(1) by auto
  ultimately show ?thesis unfolding command_prompt_readline_def using e(1) by simp
qed

section \<open>Recalling a line\<close>

lemma clearandwritecommand_row:
  assumes e: "\<forall>i<1024. ed_mem ed (empty_line ld + of_nat i) = 0" and ap: "apart buf 1024 (empty_line ld) 1024"
    "apart buf 1024 (command_history ld) 20480"
    and h: "holds_history ld (ed_mem ed) hs" "commandidx ed = int k" "k < length hs"
  shows "\<exists>ed'. clearandwritecommand ld buf ed = Some ed' \<and> ed_i ed' = int (length (hs ! k)) \<and> lastIndex ed' = int (length (hs ! k))
    \<and> commandidx ed' = int k \<and> last_command_idx ed' = last_command_idx ed
    \<and> cstr (ed_mem ed') buf (hs ! k) \<and> (\<forall>a. outside a buf 1024 \<longrightarrow> ed_mem ed' a = ed_mem ed a)"
proof -
  let ?row = "history_row ld (int k)" and ?len = "length (hs ! k)"
  have r: "cstr (ed_mem ed) ?row (hs ! k)" "?len < 1024" "k < 20" using h unfolding holds_history_def by auto
  have len: "strlen (ed_mem ed) ?row = Some (int ?len)" using strlen_cstr [OF r(1)] r(2) by simp
  let ?m1 = "memcpy (ed_mem ed) buf (empty_line ld) 1024"
  let ?m2 = "copy_up ?m1 buf ?row ?len"
  have apr: "apart buf 1024 ?row 1024"
    using apart_sub [OF ap(2), of 1024 "1024 * k" 1024] r(3) unfolding history_row_nat by simp
  have row_out: "outside (?row + of_nat i) buf 1024" if "i < 1024" for i
    using apr that unfolding apart_def outside_def by metis
  have "\<forall>j. 0 < j \<and> j < ?len \<longrightarrow> buf \<noteq> ?row + of_nat j"
    using apr [unfolded apart_def, rule_format, of 0] r(2) by simp
  then have c1: "?m2 (buf + of_nat i) = ed_mem ed (?row + of_nat i)" if "i < ?len" for i
    using copy_up_value [of ?len buf ?row i ?m1] that r(2) memcpy_row(2) [OF ap(1) row_out, of i "ed_mem ed"] by simp
  have "\<forall>i<?len. buf + of_nat ?len \<noteq> buf + of_nat i" using buf_index [of ?len _ buf] r(2) by (auto simp: BUFLEN_def)
  then have "?m2 (buf + of_nat ?len) = ?m1 (buf + of_nat ?len)" by (rule copy_up_other)
  also have "\<dots> = 0" using memcpy_row(1) [OF ap(1) r(2), of "ed_mem ed"] e r(2) by simp
  finally have c2: "?m2 (buf + of_nat ?len) = 0" .
  have z: "ed_mem ed (?row + of_nat ?len) = 0" using r(1) by (simp add: cstr_iff)
  have "cstr ?m2 buf (hs ! k)"
    by (rule cstr_same [OF r(1)]) (use c1 c2 z in \<open>auto simp: le_less\<close>)
  moreover have "?m2 a = ed_mem ed a" if "outside a buf 1024" for a
    using copy_up_other [of ?len a buf ?m1 ?row] memcpy_row(2) [OF ap(1) that, of "ed_mem ed"] that r(2)
    unfolding outside_def by simp
  ultimately show ?thesis using h(2) len by (simp add: clearandwritecommand_def Let_def)
qed

lemma holds_history_cong:
  assumes "holds_history ld m hs" "apart buf 1024 (command_history ld) 20480" "\<And>a. outside a buf 1024 \<Longrightarrow> m' a = m a"
  shows "holds_history ld m' hs"
  unfolding holds_history_def
proof (intro conjI allI impI)
  show "length hs \<le> 20" using assms(1) by (simp add: holds_history_def)
  fix k assume "k < length hs"
  then have r: "cstr m (history_row ld (int k)) (hs ! k)" "length (hs ! k) < 1024" "k < 20"
    using assms(1) unfolding holds_history_def by auto
  have "apart buf 1024 (history_row ld (int k)) 1024"
    using apart_sub [OF assms(2), of 1024 "1024 * k" 1024] r(3) unfolding history_row_nat by simp
  then have "outside (history_row ld (int k) + of_nat i) buf 1024" if "i < 1024" for i
    using that unfolding apart_def outside_def by metis
  then show "cstr m' (history_row ld (int k)) (hs ! k)" using cstr_cong [OF r(1), of m'] assms(3) r(2) by simp
  show "length (hs ! k) < 1024" by (rule r(2))
qed

text \<open>One press of the up arrow, when the cursor of the history is at \<open>c\<close>.\<close>

lemma up_key:
  assumes e: "\<forall>i<1024. m (empty_line ld + of_nat i) = 0" and ap: "apart buf 1024 (empty_line ld) 1024"
    "apart buf 1024 (command_history ld) 20480"
    and h: "holds_history ld m hs" "hs \<noteq> []"
    and ed: "commandidx ed = int c" "c \<le> length hs" "\<And>a. outside a buf 1024 \<Longrightarrow> ed_mem ed a = m a"
  shows "\<exists>ed'. edit_key ld buf 226 ed = Some ed' \<and> commandidx ed' = int (c - 1)
    \<and> ed_i ed' = int (length (hs ! (c - 1))) \<and> lastIndex ed' = ed_i ed' \<and> last_command_idx ed' = last_command_idx ed
    \<and> cstr (ed_mem ed') buf (hs ! (c - 1)) \<and> (\<forall>a. outside a buf 1024 \<longrightarrow> ed_mem ed' a = m a)"
proof -
  let ?ed = "ed\<lparr>last_c := 226, commandidx := int (c - 1)\<rparr>"
  have "outside (empty_line ld + of_nat i) buf 1024" if "i < 1024" for i
    using ap(1) that unfolding apart_def outside_def by metis
  then have "\<forall>i<1024. ed_mem ?ed (empty_line ld + of_nat i) = 0" using e ed(3) by simp
  moreover have "holds_history ld (ed_mem ?ed) hs" using holds_history_cong [OF h(1) ap(2), of "ed_mem ed"] ed(3) by simp
  moreover have "c - 1 < length hs" using ed(2) h(2) by (cases c) auto
  ultimately obtain ed' where e: "clearandwritecommand ld buf ?ed = Some ed'" "ed_i ed' = int (length (hs ! (c - 1)))"
    "lastIndex ed' = int (length (hs ! (c - 1)))" "commandidx ed' = int (c - 1)" "last_command_idx ed' = last_command_idx ed"
    "cstr (ed_mem ed') buf (hs ! (c - 1))" "\<forall>a. outside a buf 1024 \<longrightarrow> ed_mem ed' a = ed_mem ed a"
    using clearandwritecommand_row [OF _ ap, of ?ed hs "c - 1"] by auto
  have "edit_key ld buf 226 ed = Some ed'" using e(1) ed(1) by (cases c) (simp_all add: edit_key_def)
  then show ?thesis using ed(3) e by simp
qed

lemma prompt_loop_recalls:
  assumes m: "\<forall>i<1024. m (empty_line ld + of_nat i) = 0" and ap: "apart buf 1024 (empty_line ld) 1024"
    "apart buf 1024 (command_history ld) 20480"
    and h: "holds_history ld m hs" "hs \<noteq> []"
    and ed: "commandidx ed = int c" "c \<le> length hs" "\<not> lastIndex ed < ed_i ed" "\<And>a. outside a buf 1024 \<Longrightarrow> ed_mem ed a = m a"
  shows "\<exists>ed'. prompt_loop ld buf (replicate (Suc n) 226 @ rest) ed = prompt_loop ld buf rest ed'
    \<and> ed_i ed' = int (length (hs ! (c - Suc n))) \<and> lastIndex ed' = ed_i ed' \<and> last_command_idx ed' = last_command_idx ed
    \<and> cstr (ed_mem ed') buf (hs ! (c - Suc n)) \<and> (\<forall>a. outside a buf 1024 \<longrightarrow> ed_mem ed' a = m a)"
  using ed
proof (induction n arbitrary: ed c)
  case (0 ed c)
  then show ?case using up_key [OF m ap h 0(1,2,4)] by auto
next
  case (Suc n ed c)
  obtain ed1 where e: "edit_key ld buf 226 ed = Some ed1" "commandidx ed1 = int (c - 1)" "lastIndex ed1 = ed_i ed1"
    "last_command_idx ed1 = last_command_idx ed" "\<And>a. outside a buf 1024 \<Longrightarrow> ed_mem ed1 a = m a"
    using up_key [OF m ap h Suc.prems(1,2,4)] by auto
  have "prompt_loop ld buf (replicate (Suc (Suc n)) 226 @ rest) ed = prompt_loop ld buf (replicate (Suc n) 226 @ rest) ed1"
    using e(1) Suc.prems(3) by simp
  moreover have "c - 1 \<le> length hs" "\<not> lastIndex ed1 < ed_i ed1" using Suc.prems(2) e(3) by simp_all
  ultimately show ?case using Suc.IH [OF e(2) _ _ e(5)] e(4) by simp
qed

text \<open>C21: pressing the up arrow \<open>n + 1\<close> times and ending the line gives the \<open>n\<close>-th last line of the history, or the oldest
  one when there are not as many, and enters it as the newest line.\<close>

theorem command_prompt_recall:
  assumes "\<forall>i<1024. m (empty_line ld + of_nat i) = 0" and "apart buf 1024 (empty_line ld) 1024"
    and "apart buf 1024 (command_history ld) 20480" and "holds_history ld m hs" "hs \<noteq> []" and "nl = 10 \<or> nl = 13"
    and line: "line = hs ! (length hs - Suc n)"
  shows "\<exists>ed. command_prompt_readline ld c0 found buf (replicate (Suc n) 226 @ nl # rest) (m, int (length hs) - 1) = Some (ed, rest)
    \<and> cstr (ed_mem ed) buf line \<and> holds_history ld (ed_mem ed) (remember line hs)
    \<and> last_command_idx ed = int (length (remember line hs)) - 1"
proof -
  let ?ed = "\<lparr>ed_mem = m, ed_i = 0, lastIndex = 0, commandidx = int (length hs) - 1 + 1, last_command_idx = int (length hs) - 1,
       last_c = c0, prefix_list_idx = 0, PrefixList = found, ed_out = []\<rparr>"
  obtain ed where e: "prompt_loop ld buf (replicate (Suc n) 226 @ nl # rest) ?ed = prompt_loop ld buf (nl # rest) ed"
    "ed_i ed = int (length line)" "lastIndex ed = int (length line)" "last_command_idx ed = int (length hs) - 1"
    "cstr (ed_mem ed) buf line" "\<And>a. outside a buf 1024 \<Longrightarrow> ed_mem ed a = m a"
    using prompt_loop_recalls [OF assms(1-5), of ?ed "length hs" n "nl # rest"] line by auto
  have "length hs - Suc n < length hs" using assms(5) by (cases hs) auto
  then have l: "length line < 1024" using assms(4) line unfolding holds_history_def by simp
  have "(ed_mem ed)(buf + of_nat (length line) := 0) = ed_mem ed" using e(5) by (simp add: cstr_iff fun_upd_idem)
  then obtain ed' where "end_line ld buf nl ed = Some ed'" "cstr (ed_mem ed') buf line"
    "holds_history ld (ed_mem ed') (remember line hs)" "last_command_idx ed' = int (length (remember line hs)) - 1"
    using end_line_remember [OF assms(4,5,3) e(3) l e(4) _ l e(6), where c = nl] e(5) by auto
  then show ?thesis
    unfolding command_prompt_readline_def using e(1-3) assms(6) by auto
qed

section \<open>Examples\<close>

definition line_data_example :: line_data where
  "line_data_example = \<lparr>command_history = 0x10000, empty_line = 0x20000, temp_buf = 0x40000, white_space = 0x50000, program_names = []\<rparr>"

text \<open>A history with the single line \<open>a\<close>.\<close>

definition history_example :: memory where
  "history_example = (\<lambda>_. 0)(0x10000 := 97)"

lemma history_example_holds:
  "apart 0x30000 1024 (command_history line_data_example) 20480" "apart 0x30000 1024 (empty_line line_data_example) 1024"
  "holds_history line_data_example history_example [[97]]"
  "\<forall>i<1024. history_example (0x30000 + of_nat i) = 0" "\<forall>i<1024. history_example (empty_line line_data_example + of_nat i) = 0"
proof -
  show h: "apart 0x30000 1024 (command_history line_data_example) 20480"
    using apartI [of "0x10000" 20480 "0x30000" 1024] by (simp add: line_data_example_def)
  show "apart 0x30000 1024 (empty_line line_data_example) 1024"
    using apartI [of "0x20000" 1024 "0x30000" 1024] by (simp add: line_data_example_def)
  show "holds_history line_data_example history_example [[97]]"
    by (simp add: holds_history_def history_row_def line_data_example_def history_example_def)
  have "0x30000 + of_nat i \<noteq> (0x10000 :: uint32)" if "i < 1024" for i
    using apartI [of "0x10000" 1 "0x30000" 1024, unfolded apart_def] that by force
  then show "\<forall>i<1024. history_example (0x30000 + of_nat i) = 0" unfolding history_example_def by simp
  have "0x20000 + of_nat i \<noteq> (0x10000 :: uint32)" if "i < 1024" for i
    using apartI [of "0x10000" 1 "0x20000" 1024, unfolded apart_def] that by force
  then show "\<forall>i<1024. history_example (empty_line line_data_example + of_nat i) = 0"
    unfolding history_example_def by (simp add: line_data_example_def)
qed

theorem command_prompt_readline_correct_witness:
  "\<exists>ed. command_prompt_readline line_data_example 0 [] 0x30000 [104, 120, 8, 105, 10, 7] (history_example, 0) = Some (ed, [7])
     \<and> cstr (ed_mem ed) 0x30000 [104, 105] \<and> holds_history line_data_example (ed_mem ed) [[97], [104, 105]]
     \<and> last_command_idx ed = 1"
proof -
  note h = history_example_holds
  have "[104, 105] = map of_int (fold edit [104, 120, 8, 105] [])" by (simp add: edit_def BUFLEN_def)
  from command_prompt_readline_correct [OF _ _ _ h(4) h(3) _ h(1) this, where nl = 10 and ?c0.0 = 0 and found = "[]" and rest = "[7]"]
  show ?thesis by (auto simp: typing_key_def remember_def)
qed

theorem command_prompt_recall_witness:
  "\<exists>ed. command_prompt_readline line_data_example 0 [] 0x30000 [226, 13] (history_example, 0) = Some (ed, [])
     \<and> cstr (ed_mem ed) 0x30000 [97] \<and> last_command_idx ed = 0"
  using command_prompt_recall [OF history_example_holds(5,2,1,3) _ _ refl,
      where nl = 13 and n = 0 and ?c0.0 = 0 and found = "[]" and rest = "[]"]
  by (simp add: remember_def) blast

section \<open>Keys that break the line\<close>

text \<open>\<open>lastIndex\<close> is not decreased by a backspace: after 1024 characters, each taken back at once, the terminator is
  written behind the buffer.\<close>

lemma typed_and_erased:
  "line_typed m buf [] n ed \<Longrightarrow> \<exists>ed'. prompt_loop ld buf (concat (replicate k [97, 8]) @ rest) ed = prompt_loop ld buf rest ed'
     \<and> line_typed m buf [] (n + k) ed'"
proof (induction k arbitrary: n ed)
  case (Suc k)
  obtain ed1 where e1: "edit_key ld buf 97 ed = Some ed1" "line_typed m buf [97] (n + 1) ed1"
    using line_typed_key [OF Suc.prems, of 97 ld] by (auto simp: typing_key_def edit_def BUFLEN_def)
  obtain ed2 where e2: "edit_key ld buf 8 ed1 = Some ed2" "line_typed m buf [] (n + 1) ed2"
    using line_typed_key [OF e1(2), of 8 ld] by (auto simp: typing_key_def edit_def)
  have "\<not> lastIndex ed < ed_i ed" "\<not> lastIndex ed1 < ed_i ed1" using Suc.prems e1(2) by (simp_all add: line_typed_def)
  then have "prompt_loop ld buf (concat (replicate (Suc k) [97, 8]) @ rest) ed
      = prompt_loop ld buf (concat (replicate k [97, 8]) @ rest) ed2"
    using e1(1) e2(1) by simp
  then show ?case using Suc.IH [OF e2(2)] by simp
qed auto

lemma erased_line_overflows:
  assumes "\<forall>i<1024. m (buf + of_nat i) = 0"
  shows "\<exists>ed. command_prompt_readline ld c0 found buf (concat (replicate 1024 [97, 8]) @ 10 # rest) (m, l)
      = Option.bind (enter_history ld buf ed) (\<lambda>ed. Some (ed, rest)) \<and> ed_mem ed = m(buf + 1024 := 0)"
proof -
  let ?ed = "\<lparr>ed_mem = m, ed_i = 0, lastIndex = 0, commandidx = l + 1, last_command_idx = l,
       last_c = c0, prefix_list_idx = 0, PrefixList = found, ed_out = []\<rparr>"
  have "line_typed m buf [] 0 ?ed" using assms by (simp add: line_typed_def BUFLEN_def)
  from typed_and_erased [OF this, of ld 1024 "10 # rest"] obtain ed where e:
    "prompt_loop ld buf (concat (replicate 1024 [97, 8]) @ 10 # rest) ?ed = prompt_loop ld buf (10 # rest) ed"
    "line_typed m buf [] 1024 ed" by auto
  have "ed_mem ed a = m a" for a
  proof (cases "outside a buf BUFLEN")
    case True
    then show ?thesis using e(2) by (simp add: line_typed_def)
  next
    case False
    then show ?thesis using e(2) assms by (auto simp: line_typed_def outside_def BUFLEN_def)
  qed
  then have "ed_mem ed = m" by (rule ext)
  moreover have "\<not> lastIndex ed < ed_i ed" "lastIndex ed = 1024" using e(2) by (simp_all add: line_typed_def)
  ultimately show ?thesis unfolding command_prompt_readline_def using e(1)
    by (intro exI [of _ "ed\<lparr>ed_mem := m(buf + 1024 := 0), ed_out := ed_out ed @ [10]\<rparr>"]) (simp add: end_line_def)
qed

text \<open>A backspace inside the line copies one character and shortens nothing: \<open>abc\<close>, left, backspace gives \<open>acc\<close>.\<close>

lemma backspace_inside_line:
  "\<exists>ed. prompt_loop ld 0 ([97, 98, 99, 228, 8] @ rest) \<lparr>ed_mem = \<lambda>_. 0, ed_i = 0, lastIndex = 0, commandidx = 0, last_command_idx = 0,
       last_c = 0, prefix_list_idx = 0, PrefixList = [], ed_out = []\<rparr> = prompt_loop ld 0 rest ed
     \<and> lastIndex ed = 3 \<and> cstr (ed_mem ed) 0 [97, 99, 99]"
  by (simp add: edit_key_def BUFLEN_def Let_def) (rule exI, rule conjI [OF refl], simp)

end
