(* ===== verification/Kernel_Heap.thy ===== *)
theory Kernel_Heap
  imports Kernel_State
begin

text \<open>
  The kernel heap (\<^verbatim>\<open>kern/kheap.c\<close>), program priorities (\<^verbatim>\<open>kern/priority_manager.c\<close>) and the buddy system of the
  user heap (\<^verbatim>\<open>lib/ubuddy.c\<close>). All but the initialisation of the free buddy nodes panic in this commit.
\<close>

section \<open>Kernel heap and priorities\<close>

definition kmalloc :: "uint32 \<Rightarrow> kernel \<Rightarrow> uint32 result" where
  "kmalloc sz s = Inl (Panic ''this function is not required...!!'')"

definition kfree :: "uint32 \<Rightarrow> kernel \<Rightarrow> unit result" where
  "kfree va s = Inl (Panic ''this function is not required...!!'')"

definition kheap_virtual_address :: "uint32 \<Rightarrow> kernel \<Rightarrow> uint32 result" where
  "kheap_virtual_address pa s = Inl (Panic ''this function is not required...!!'')"

definition kheap_physical_address :: "uint32 \<Rightarrow> kernel \<Rightarrow> uint32 result" where
  "kheap_physical_address va s = Inl (Panic ''this function is not required...!!'')"

definition krealloc :: "uint32 \<Rightarrow> uint32 \<Rightarrow> kernel \<Rightarrow> uint32 result" where
  "krealloc va new_size s = Inl (Panic ''this function is not required...!!'')"

definition set_program_priority :: "nat \<Rightarrow> int \<Rightarrow> kernel \<Rightarrow> unit result" where
  "set_program_priority e p s = Inl (Panic ''set_program_priority() is not implemented yet...!!'')"

section \<open>Buddy nodes\<close>

text \<open>A node is its index in \<open>FreeNodes\<close>; \<open>BuddyFreeNodesList\<close> is the list of its elements.\<close>

record buddy_node =
  node_level :: uint8
  node_status :: uint8
  node_va :: uint32
  node_parent :: "nat option"
  myBuddy :: "nat option"

definition BUDDY_NUM_FREE_NODES :: nat where "BUDDY_NUM_FREE_NODES = 40000"
definition BUDDY_FREE :: uint8 where "BUDDY_FREE = 0"

definition ClearNodeData :: "buddy_node \<Rightarrow> buddy_node" where
  "ClearNodeData node = node\<lparr>node_level := 0, node_status := BUDDY_FREE, node_va := 0, node_parent := None, myBuddy := None\<rparr>"

definition initialize_buddy :: "nat list \<times> (nat \<Rightarrow> buddy_node) \<Rightarrow> halt + nat list \<times> (nat \<Rightarrow> buddy_node)" where
  "initialize_buddy =
     foldE (\<lambda>i (BuddyFreeNodesList, FreeNodes).
       bindE (lst_insert_head i BuddyFreeNodesList) (\<lambda>l. Inr (l, FreeNodes(i := ClearNodeData (FreeNodes i)))))
     [0..<BUDDY_NUM_FREE_NODES]"

definition CreateNewBuddySpace :: "kernel \<Rightarrow> unit result" where
  "CreateNewBuddySpace s = Inl (Panic ''CreateNewBuddySpace() is not required...!!'')"

definition FindAllocationUsingBuddy :: "int \<Rightarrow> kernel \<Rightarrow> uint32 result" where
  "FindAllocationUsingBuddy sz s = Inl (Panic ''FindAllocationUsingBuddy() is not required...!!'')"

definition FreeAllocationUsingBuddy :: "uint32 \<Rightarrow> kernel \<Rightarrow> unit result" where
  "FreeAllocationUsingBuddy va s = Inl (Panic ''FreeAllocationUsingBuddy() is not required...!!'')"

text \<open>The initialisation puts every node into the free list once, cleared.\<close>

lemma initialize_buddy_correct:
  "\<exists>l nodes'. initialize_buddy ([], nodes) = Inr (l, nodes') \<and> l = rev [0..<BUDDY_NUM_FREE_NODES]
     \<and> (\<forall>i < BUDDY_NUM_FREE_NODES. nodes' i = ClearNodeData (nodes i))"
proof -
  define f where "f = (\<lambda>i (BuddyFreeNodesList, FreeNodes).
       bindE (lst_insert_head i BuddyFreeNodesList) (\<lambda>l. Inr (l, FreeNodes(i := ClearNodeData (FreeNodes i)))))"
  have "\<exists>nodes'. foldE f [0..<n] ([], nodes) = Inr (rev [0..<n], nodes') \<and> (\<forall>i < n. nodes' i = ClearNodeData (nodes i))
      \<and> (\<forall>i \<ge> n. nodes' i = nodes i)" for n
  proof (induction n)
    case (Suc n)
    then obtain nodes' where s: "foldE f [0..<n] ([], nodes) = Inr (rev [0..<n], nodes')"
      "\<forall>i < n. nodes' i = ClearNodeData (nodes i)" "\<forall>i \<ge> n. nodes' i = nodes i" by blast
    have "f n (rev [0..<n], nodes') = Inr (n # rev [0..<n], nodes'(n := ClearNodeData (nodes n)))"
      using s(3) by (simp add: f_def lst_insert_head_def)
    then show ?case using s by (auto simp: foldE_append less_Suc_eq)
  qed simp
  then show ?thesis unfolding initialize_buddy_def f_def by blast
qed

end
