(* ===== verification/Debug_Info.thy ===== *)
theory Debug_Info
  imports Printfmt
begin

text \<open>
  Debug information (\<^verbatim>\<open>kern/kdebug.c\<close>): the binary search of the table of stabs and the lookup of an
  instruction address. The tables lie in the memory of bytes; the linker symbols of the kernel's own
  tables are an argument. A string constant of the kernel is \<open>Unknown\<close>, a pointer into a string table
  is \<open>At\<close> its address.
\<close>

section \<open>Definitions\<close>

definition N_FUN :: uint8 where "N_FUN = 0x24"

definition N_SO :: uint8 where "N_SO = 0x64"

definition N_SOL :: uint8 where "N_SOL = 0x84"

record Stab =
  n_strx :: uint32
  n_type :: uint8
  n_other :: uint8
  n_desc :: "16 word"
  n_value :: uint32

record UserStabData =
  stabs :: uint32
  stab_end :: uint32
  stabstr :: uint32
  stabstr_end :: uint32

text \<open>The subscript \<open>stabs[i]\<close> of a table at \<open>base\<close>; an entry has 12 bytes.\<close>

definition stab_at :: "memory \<Rightarrow> uint32 \<Rightarrow> int \<Rightarrow> Stab" where
  "stab_at m base i =
     (let p = base + of_int (12 * i) in
      \<lparr>n_strx = mem32 m p, n_type = m (p + 4), n_other = m (p + 5),
       n_desc = ucast (m (p + 6)) + 256 * ucast (m (p + 7)), n_value = mem32 m (p + 8)\<rparr>)"

text \<open>\<open>while (m >= l && stabs[m].n_type != type) m--\<close>.\<close>

function back_to_type :: "(int \<Rightarrow> Stab) \<Rightarrow> int \<Rightarrow> uint8 \<Rightarrow> int \<Rightarrow> int" where
  "back_to_type st l ty m = (if l \<le> m \<and> n_type (st m) \<noteq> ty then back_to_type st l ty (m - 1) else m)"
  by auto
termination by (relation "measure (\<lambda>(st, l, ty, m). nat (m - l + 1))") auto

declare back_to_type.simps [simp del]

lemma back_to_type_props:
  "back_to_type st l ty m \<le> m \<and> (l \<le> m + 1 \<longrightarrow> l - 1 \<le> back_to_type st l ty m)
   \<and> (l \<le> back_to_type st l ty m \<longrightarrow> n_type (st (back_to_type st l ty m)) = ty)
   \<and> (\<forall>i. back_to_type st l ty m < i \<and> i \<le> m \<longrightarrow> n_type (st i) \<noteq> ty)"
proof (induction st l ty m rule: back_to_type.induct)
  case (1 st l ty m)
  show ?case
  proof (cases "l \<le> m \<and> n_type (st m) \<noteq> ty")
    case True
    then have e: "back_to_type st l ty m = back_to_type st l ty (m - 1)" by (subst back_to_type.simps) simp
    have "n_type (st i) \<noteq> ty" if "back_to_type st l ty (m - 1) < i" "i \<le> m" for i
      using 1 [OF True] True that by (cases "i = m") auto
    then show ?thesis unfolding e using 1 [OF True] True by auto
  next
    case False
    then have "back_to_type st l ty m = m" by (subst back_to_type.simps) (simp only: if_False)
    then show ?thesis using False by auto
  qed
qed

lemmas back_to_type_le = back_to_type_props [THEN conjunct1]

text \<open>
  The state of the search: the interval that is left, the two results, and whether an entry of the
  type was seen. \<open>addr\<close> is a pointer to words, so \<open>addr++\<close> adds four.
\<close>

function binsearch_loop :: "(int \<Rightarrow> Stab) \<Rightarrow> uint8 \<Rightarrow> uint32 \<Rightarrow> int \<Rightarrow> int \<Rightarrow> int \<times> int \<times> bool \<Rightarrow> int \<times> int \<times> bool" where
  "binsearch_loop st ty addr l r (left, right, any) =
     (if l \<le> r then
        (let true_m = c_div (l + r) 2; m = back_to_type st l ty true_m in
         if m < l then binsearch_loop st ty addr (true_m + 1) r (left, right, any)
         else if n_value (st m) < addr then binsearch_loop st ty addr (true_m + 1) r (m, right, True)
         else if n_value (st m) > addr then binsearch_loop st ty addr l (m - 1) (left, m - 1, True)
         else binsearch_loop st ty (addr + 4) m r (m, right, True))
      else (left, right, any))"
  by pat_completeness auto

lemma c_div_mid: "l \<le> r \<Longrightarrow> l \<le> c_div (l + r) 2 \<and> c_div (l + r) 2 \<le> r"
  by (auto simp: c_div_def sgn_if)

text \<open>After an exact match the interval may stay the same, but then its first entry does not match any more.\<close>

lemma binsearch_measure:
  fixes l r l' r' :: int
  assumes "l \<le> r" and "l \<le> l'" and "r' \<le> r" and "l' \<le> r' + 1" and "l < l' \<or> r' < r \<or> f' < f" and "f \<le> (1 :: nat)" and "f' \<le> 1"
  shows "2 * nat (r' - l' + 1) + f' < 2 * nat (r - l + 1) + f"
  using assms by linarith

termination binsearch_loop
proof (relation "measure (\<lambda>(st, ty, addr, l, r, _). 2 * nat (r - l + 1)
    + (if n_type (st l) = ty \<and> n_value (st l) = addr then 1 else 0))", goal_cases)
  case 1
  then show ?case by simp
next
  case (2 st ty addr l r left right any true_m m)
  note mid = c_div_mid [OF 2(1), folded 2(2)]
  then show ?case by (auto intro!: binsearch_measure)
next
  case (3 st ty addr l r left right any true_m m)
  note mid = c_div_mid [OF 3(1), folded 3(2)]
  then show ?case by (auto intro!: binsearch_measure)
next
  case (4 st ty addr l r left right any true_m m)
  note mid = c_div_mid [OF 4(1), folded 4(2)]
  have "m \<le> true_m" using 4(3) back_to_type_le by simp
  then show ?case using 4 mid by (auto intro!: binsearch_measure)
next
  case (5 st ty addr l r left right any true_m m)
  note mid = c_div_mid [OF 5(1), folded 5(2)]
  have m: "l \<le> m" "m \<le> r" "n_type (st m) = ty" "n_value (st m) = addr"
    using 5(3-6) mid back_to_type_props [of st l ty true_m] by auto
  show ?case
  proof (cases "m = l")
    case True
    then show ?thesis using m by simp
  next
    case False
    then show ?thesis unfolding in_measure prod.case using m 5(1) by (intro binsearch_measure) auto
  qed
qed

declare binsearch_loop.simps [simp del]

text \<open>\<open>for (l = *region_right; l > *region_left && stabs[l].n_type != type; l--)\<close>.\<close>

definition stab_binsearch :: "(int \<Rightarrow> Stab) \<Rightarrow> int \<Rightarrow> int \<Rightarrow> uint8 \<Rightarrow> uint32 \<Rightarrow> int \<times> int" where
  "stab_binsearch st region_left region_right ty addr =
     (let (left, right, any) = binsearch_loop st ty addr region_left region_right (region_left, region_right, False) in
      if \<not> any then (left, left - 1)
      else (back_to_type st (left + 1) ty right, right))"

datatype text_ptr = Unknown | At uint32

record Eipdebuginfo =
  eip_file :: text_ptr
  eip_line :: int
  eip_fn_name :: text_ptr
  eip_fn_namelen :: int
  eip_fn_addr :: uint32
  eip_fn_narg :: int

definition USTABDATA :: uint32 where "USTABDATA = PTSIZE div 2"

text \<open>The loop that goes back to the file name.\<close>

function back_to_file :: "(int \<Rightarrow> Stab) \<Rightarrow> int \<Rightarrow> int \<Rightarrow> int" where
  "back_to_file st lfile lline =
     (if lfile \<le> lline \<and> n_type (st lline) \<noteq> N_SOL \<and> (n_type (st lline) \<noteq> N_SO \<or> n_value (st lline) = 0)
      then back_to_file st lfile (lline - 1) else lline)"
  by auto
termination by (relation "measure (\<lambda>(st, l, m). nat (m - l + 1))") auto

declare back_to_file.simps [simp del]

definition stab_data :: "UserStabData \<Rightarrow> memory \<Rightarrow> uint32 \<Rightarrow> UserStabData" where
  "stab_data kernel_stabs m addr =
     (if USER_LIMIT \<le> addr then kernel_stabs
      else \<lparr>stabs = mem32 m USTABDATA, stab_end = mem32 m (USTABDATA + 4),
            stabstr = mem32 m (USTABDATA + 8), stabstr_end = mem32 m (USTABDATA + 12)\<rparr>)"

text \<open>The length of a name up to the colon; \<open>None\<close> when the name has no end.\<close>

definition name_length :: "memory \<Rightarrow> text_ptr \<Rightarrow> int option" where
  "name_length m p =
     (case p of Unknown \<Rightarrow> Some 9
      | At s \<Rightarrow> map_option (\<lambda>e. sint (e - s)) (strfind m s 58))"

definition debuginfo_eip :: "UserStabData \<Rightarrow> memory \<Rightarrow> uint32 \<Rightarrow> (int \<times> Eipdebuginfo) option" where
  "debuginfo_eip kernel_stabs m addr =
     (let info = \<lparr>eip_file = Unknown, eip_line = 0, eip_fn_name = Unknown, eip_fn_namelen = 9,
                  eip_fn_addr = addr, eip_fn_narg = 0\<rparr>;
          d = stab_data kernel_stabs m addr; st = stab_at m (stabs d);
          in_strings = (\<lambda>x. x < stabstr_end d - stabstr d) in
      if stabstr_end d \<le> stabstr d \<or> m (stabstr_end d - 1) \<noteq> 0 then Some (-1, info)
      else
        let (lfile, rfile) = stab_binsearch st 0 (c_div (sint (stab_end d - stabs d)) 12 - 1) N_SO addr in
        if lfile = 0 then Some (-1, info)
        else
          let (lfun, rfun) = stab_binsearch st lfile rfile N_FUN addr;
              (info, lline) =
                (if lfun \<le> rfun then
                   ((if in_strings (n_strx (st lfun)) then info\<lparr>eip_fn_name := At (stabstr d + n_strx (st lfun))\<rparr>
                     else info)\<lparr>eip_fn_addr := n_value (st lfun)\<rparr>, lfun)
                 else (info\<lparr>eip_fn_addr := addr\<rparr>, lfile)) in
          (case name_length m (eip_fn_name info) of
             None \<Rightarrow> None
           | Some n \<Rightarrow>
               let info = info\<lparr>eip_fn_namelen := n\<rparr>;
                   lline = back_to_file st lfile lline in
               Some (0, if lfile \<le> lline \<and> in_strings (n_strx (st lline))
                        then info\<lparr>eip_file := At (stabstr d + n_strx (st lline))\<rparr> else info)))"

section \<open>The search\<close>

text \<open>The entries of a type in a range, and what the search is meant to find.\<close>

definition of_type :: "(int \<Rightarrow> Stab) \<Rightarrow> uint8 \<Rightarrow> int \<Rightarrow> int \<Rightarrow> int set" where
  "of_type st ty L R = {i. L \<le> i \<and> i \<le> R \<and> n_type (st i) = ty}"

definition region_spec :: "(int \<Rightarrow> Stab) \<Rightarrow> int \<Rightarrow> int \<Rightarrow> uint8 \<Rightarrow> uint32 \<Rightarrow> int \<times> int" where
  "region_spec st L R ty a =
     (let T = of_type st ty L R; below = {i \<in> T. n_value (st i) \<le> a}; above = {i \<in> T. a < n_value (st i)};
          right = (if above = {} then R else Min above - 1)
      in if T = {} then (L, L - 1)
         else (if below = {} then min L right else Max below, right))"

lemma finite_of_type [simp]: "finite (of_type st ty L R)"
  by (rule finite_subset [of _ "{L..R}"]) (auto simp: of_type_def)

definition sorted_stabs :: "(int \<Rightarrow> Stab) \<Rightarrow> uint8 \<Rightarrow> int \<Rightarrow> int \<Rightarrow> bool" where
  "sorted_stabs st ty L R \<longleftrightarrow>
     (\<forall>i \<in> of_type st ty L R. \<forall>j \<in> of_type st ty L R. i \<le> j \<longrightarrow> n_value (st i) \<le> n_value (st j))"

text \<open>If an entry starts at the address itself, then none starts within the four bytes after it, and
  four bytes can be added without wrapping around. For an address that starts no entry this says nothing.\<close>

definition no_near :: "(int \<Rightarrow> Stab) \<Rightarrow> uint8 \<Rightarrow> int \<Rightarrow> int \<Rightarrow> uint32 \<Rightarrow> bool" where
  "no_near st ty L R a \<longleftrightarrow>
     (\<forall>k \<in> of_type st ty L R. n_value (st k) = a \<longrightarrow>
        unat a + 4 < 2 ^ 32 \<and> (\<forall>i \<in> of_type st ty L R. a < n_value (st i) \<longrightarrow> a + 4 < n_value (st i)))"

text \<open>The invariant of the loop: what is left of the interval is below or equal, what is right of it above.\<close>

definition search_inv :: "(int \<Rightarrow> Stab) \<Rightarrow> uint8 \<Rightarrow> int \<Rightarrow> int \<Rightarrow> uint32 \<Rightarrow> uint32 \<Rightarrow> int \<Rightarrow> int \<Rightarrow> int \<times> int \<times> bool \<Rightarrow> bool" where
  "search_inv st ty L R a addr l r = (\<lambda>(left, right, any).
     (addr = a \<or> addr = a + 4 \<and> (\<exists>k \<in> of_type st ty L R. n_value (st k) = a)) \<and> L \<le> l \<and> l \<le> r + 1 \<and> right = r \<and> r \<le> R
     \<and> (\<forall>i \<in> of_type st ty L R. (i < l \<longrightarrow> n_value (st i) \<le> a) \<and> (r < i \<longrightarrow> a < n_value (st i)))
     \<and> (r = R \<or> r + 1 \<in> of_type st ty L R)
     \<and> (left = L \<or> left \<in> of_type st ty L R \<and> n_value (st left) \<le> a)
     \<and> (any \<longrightarrow> of_type st ty L R \<noteq> {}) \<and> (\<not> any \<longrightarrow> of_type st ty L R \<subseteq> {l..r}))"

lemma near_cases:
  assumes "no_near st ty L R a" and "addr = a \<or> addr = a + 4 \<and> (\<exists>k \<in> of_type st ty L R. n_value (st k) = a)"
    and "i \<in> of_type st ty L R"
  shows "n_value (st i) < addr \<Longrightarrow> n_value (st i) \<le> a" and "addr < n_value (st i) \<Longrightarrow> a < n_value (st i)"
    and "n_value (st i) = addr \<Longrightarrow> n_value (st i) = a"
proof -
  have far: "a < a + 4" "a < n_value (st i) \<Longrightarrow> a + 4 < n_value (st i)" if "addr \<noteq> a"
  proof -
    have n: "unat a + 4 < 2 ^ 32" "a < n_value (st i) \<Longrightarrow> a + 4 < n_value (st i)"
      using that assms by (auto simp: no_near_def)
    then have "unat (a + 4) = unat a + 4" by (simp add: unat_word_ariths)
    then show "a < a + 4" by (simp add: word_less_nat_alt)
    show "a < n_value (st i) \<Longrightarrow> a + 4 < n_value (st i)" by (rule n(2))
  qed
  show "n_value (st i) \<le> a" if "n_value (st i) < addr"
  proof (rule ccontr)
    assume "\<not> n_value (st i) \<le> a"
    then have gt: "a < n_value (st i)" by simp
    then have "addr \<noteq> a" using that by auto
    then have "a + 4 < n_value (st i)" "addr = a + 4" using far(2) gt assms(2) by auto
    then show False using that by auto
  qed
  show "a < n_value (st i)" if "addr < n_value (st i)" using that assms(2) far(1) by (cases "addr = a") auto
  show "n_value (st i) = a" if "n_value (st i) = addr"
    using that assms(2) far by (cases "addr = a") auto
qed

lemma search_step:
  assumes so: "sorted_stabs st ty L R" and nn: "no_near st ty L R a"
    and inv: "search_inv st ty L R a addr l r (left, right, any)" and lr: "l \<le> r"
    and tm: "true_m = c_div (l + r) 2" and m: "m = back_to_type st l ty true_m"
  shows "m < l \<Longrightarrow> search_inv st ty L R a addr (true_m + 1) r (left, right, any)"
    and "l \<le> m \<Longrightarrow> n_value (st m) < addr \<Longrightarrow> search_inv st ty L R a addr (true_m + 1) r (m, right, True)"
    and "l \<le> m \<Longrightarrow> addr < n_value (st m) \<Longrightarrow> search_inv st ty L R a addr l (m - 1) (left, m - 1, True)"
    and "l \<le> m \<Longrightarrow> n_value (st m) = addr \<Longrightarrow> search_inv st ty L R a (addr + 4) m r (m, right, True)"
proof -
  let ?T = "of_type st ty L R"
  note inv' = inv [unfolded search_inv_def prod.case]
  have mid: "l \<le> true_m" "true_m \<le> r" using c_div_mid [OF lr] tm by auto
  have b: "m \<le> true_m" "l - 1 \<le> m" "l \<le> m \<Longrightarrow> n_type (st m) = ty" "\<And>i. m < i \<Longrightarrow> i \<le> true_m \<Longrightarrow> n_type (st i) \<noteq> ty"
    using back_to_type_props [of st l ty true_m] mid unfolding m by auto
  have skip: "i \<le> m \<or> true_m < i" if "i \<in> ?T" for i using that b(4) [of i] by (force simp: of_type_def)
  have mT: "m \<in> ?T" if "l \<le> m" using that b inv' mid by (auto simp: of_type_def)
  have mono: "n_value (st i) \<le> n_value (st j)" if "i \<in> ?T" "j \<in> ?T" "i \<le> j" for i j
    using so that by (auto simp: sorted_stabs_def)
  note near = near_cases [OF nn inv' [THEN conjunct1]]
  show "search_inv st ty L R a addr (true_m + 1) r (left, right, any)" if "m < l"
  proof -
    have "i < l \<or> true_m < i" if "i \<in> ?T" for i using skip [OF that] \<open>m < l\<close> by auto
    then have "i < l" if "i \<in> ?T" "i < true_m + 1" for i using that by fastforce
    moreover have "?T \<subseteq> {true_m + 1..r}" if "\<not> any"
      using that inv' \<open>\<And>i. i \<in> ?T \<Longrightarrow> i < l \<or> true_m < i\<close> by fastforce
    ultimately show ?thesis using inv' mid unfolding search_inv_def prod.case by simp
  qed
  show "search_inv st ty L R a addr (true_m + 1) r (m, right, True)" if "l \<le> m" "n_value (st m) < addr"
  proof -
    have le: "n_value (st m) \<le> a" using near(1) [OF mT] that by simp
    have "n_value (st i) \<le> a" if "i \<in> ?T" "i < true_m + 1" for i
      using skip [OF that(1)] that mono [OF that(1) mT] le \<open>l \<le> m\<close> by fastforce
    then show ?thesis using inv' mid le mT [OF that(1)] unfolding search_inv_def by auto
  qed
  show "search_inv st ty L R a addr l (m - 1) (left, m - 1, True)" if "l \<le> m" "addr < n_value (st m)"
  proof -
    have gt: "a < n_value (st m)" using near(2) [OF mT] that by simp
    have "a < n_value (st i)" if "i \<in> ?T" "m - 1 < i" for i
      using that mono [OF mT that(1)] gt \<open>l \<le> m\<close> by fastforce
    then show ?thesis using inv' mid b(1) mT [OF that(1)] that unfolding search_inv_def by auto
  qed
  show "search_inv st ty L R a (addr + 4) m r (m, right, True)" if "l \<le> m" "n_value (st m) = addr"
  proof -
    have eq: "n_value (st m) = a" "addr = a" using near(3) [OF mT] that by auto
    have "n_value (st i) \<le> a" if "i \<in> ?T" "i < m" for i using mono [OF that(1) mT] that \<open>l \<le> m\<close> eq by auto
    then show ?thesis using inv' mid b(1) mT [OF that(1)] that eq unfolding search_inv_def by auto
  qed
qed

lemma binsearch_loop_inv:
  assumes "sorted_stabs st ty L R" and "no_near st ty L R a" and "search_inv st ty L R a addr l r s"
  shows "\<exists>addr' r'. search_inv st ty L R a addr' (r' + 1) r' (binsearch_loop st ty addr l r s)"
  using assms
proof (induction st ty addr l r s rule: binsearch_loop.induct)
  case (1 st ty addr l r left right any)
  note step = search_step [OF 1(5,6,7) _ refl refl]
  show ?case
  proof (cases "l \<le> r")
    case True
    let ?t = "c_div (l + r) 2" let ?m = "back_to_type st l ty ?t"
    consider "?m < l" | "l \<le> ?m" "n_value (st ?m) < addr" | "l \<le> ?m" "addr < n_value (st ?m)" | "l \<le> ?m" "n_value (st ?m) = addr"
      by fastforce
    then show ?thesis
      by cases (use True step [OF True] 1(1-4) [OF True refl refl] 1(5,6) in \<open>simp_all add: binsearch_loop.simps [of st ty addr l r] Let_def\<close>)
  next
    case False
    then have "l = r + 1" using 1(7) by (simp add: search_inv_def)
    moreover have "binsearch_loop st ty addr l r (left, right, any) = (left, right, any)"
      using False by (simp add: binsearch_loop.simps)
    ultimately show ?thesis using 1(7) by auto
  qed
qed

text \<open>What the invariant says when the interval is empty.\<close>

lemma search_end:
  assumes "search_inv st ty L R a addr (r + 1) r (left, right, any)"
  defines "T \<equiv> of_type st ty L R"
  shows "{i \<in> T. n_value (st i) \<le> a} = {i \<in> T. i \<le> r}" and "{i \<in> T. a < n_value (st i)} = {i \<in> T. r < i}"
    and "any \<longleftrightarrow> T \<noteq> {}" and "left = L \<or> left \<in> T \<and> left \<le> r" and "r = R \<or> r + 1 \<in> T"
    and "L \<le> r + 1" and "r \<le> R" and "right = r"
proof -
  have v: "i \<in> T \<Longrightarrow> n_value (st i) \<le> a \<longleftrightarrow> i \<le> r" for i
    using assms unfolding search_inv_def prod.case
    by (metis leD less_eq_iff_succ_less linorder_le_less_linear zless_imp_add1_zle zle_add1_eq_le)
  then show "{i \<in> T. n_value (st i) \<le> a} = {i \<in> T. i \<le> r}" "{i \<in> T. a < n_value (st i)} = {i \<in> T. r < i}"
    by (auto simp flip: not_le)
  show "left = L \<or> left \<in> T \<and> left \<le> r" using assms v [of left] by (auto simp: search_inv_def)
qed (use assms in \<open>auto simp: search_inv_def\<close>)

lemma right_end:
  assumes "r = R \<or> r + 1 \<in> T" and "T \<subseteq> {L..R}" and "finite T"
  shows "(if {i \<in> T. r < i} = {} then R else Min {i \<in> T. r < i} - 1) = (r :: int)"
proof (cases "r = R")
  case True
  then have "{i \<in> T. r < i} = {}" using assms(2) by auto
  then show ?thesis using True by simp
next
  case False
  then have r: "r + 1 \<in> {i \<in> T. r < i}" using assms(1) by simp
  have "Min {i \<in> T. r < i} = r + 1" using r assms(3) by (intro Min_eqI) auto
  then show ?thesis using r by auto
qed

lemma left_end:
  assumes left: "left = L \<or> left \<in> T \<and> left \<le> r" and r: "r \<le> R" "L \<le> r + 1" and T: "T = of_type st ty L R"
  shows "back_to_type st (left + 1) ty r = (if {i \<in> T. i \<le> r} = {} then min L r else Max {i \<in> T. i \<le> r})"
proof -
  let ?k = "back_to_type st (left + 1) ty r"
  have k: "?k \<le> r" "left \<le> r \<Longrightarrow> left \<le> ?k" "left < ?k \<Longrightarrow> n_type (st ?k) = ty"
    using back_to_type_props [of st "left + 1" ty r] by auto
  have L: "L \<le> left" using left T by (auto simp: of_type_def)
  have kT: "left < ?k \<Longrightarrow> ?k \<in> T" using k r L T by (simp add: of_type_def)
  have le: "i \<le> ?k" if "i \<in> T" "i \<le> r" for i
    using back_to_type_props [of st "left + 1" ty r] that T by (force simp: of_type_def)
  show ?thesis
  proof (cases "{i \<in> T. i \<le> r} = {}")
    case True
    then have "left = L" "?k \<notin> T" using left k(1) by auto
    moreover have "\<not> L \<le> r \<Longrightarrow> left = L \<Longrightarrow> ?k = r" by (subst back_to_type.simps) simp
    ultimately have "?k = min L r" using k kT r by fastforce
    then show ?thesis using True by simp
  next
    case False
    then obtain b where b: "b \<in> T" "b \<le> r" by auto
    have "left \<le> r" using left b T by (auto simp: of_type_def)
    then have "left = ?k \<or> ?k \<in> T" using k(2) kT by fastforce
    moreover have "L \<le> b" using b T by (simp add: of_type_def)
    ultimately have "?k \<in> T" using le [OF b] left b by force
    then have "Max {i \<in> T. i \<le> r} = ?k" using k(1) le T by (intro Max_eqI) auto
    then show ?thesis unfolding if_not_P [OF False] by simp
  qed
qed

lemma stab_binsearch_region:
  assumes so: "sorted_stabs st ty L R" and nn: "no_near st ty L R a" and "L \<le> R + 1"
  shows "stab_binsearch st L R ty a = region_spec st L R ty a"
proof -
  have "search_inv st ty L R a a L R (L, R, False)"
    using assms(3) by (auto simp: search_inv_def of_type_def)
  from binsearch_loop_inv [OF so nn this] obtain addr r left any
    where e: "binsearch_loop st ty a L R (L, R, False) = (left, r, any)"
      and inv: "search_inv st ty L R a addr (r + 1) r (left, r, any)"
    by (cases "binsearch_loop st ty a L R (L, R, False)") (auto simp: search_inv_def)
  note en = search_end [OF inv]
  have "of_type st ty L R \<subseteq> {L..R}" by (auto simp: of_type_def)
  note right = right_end [OF en(5) this finite_of_type]
  show ?thesis
    using en(3,4) left_end [OF en(4,7,6) refl]
    unfolding stab_binsearch_def e region_spec_def Let_def en(1,2) right by auto
qed

lemma region_spec_found:
  assumes so: "sorted_stabs st ty L R" and i: "i \<in> of_type st ty L R" "n_value (st i) \<le> a"
    and last: "\<forall>j \<in> of_type st ty L R. i < j \<longrightarrow> a < n_value (st j)"
  shows "\<exists>r. region_spec st L R ty a = (i, r) \<and> i \<le> r \<and> r \<le> R \<and> of_type st ty (i + 1) r = {}
    \<and> (r = R \<or> r + 1 \<in> of_type st ty L R)"
proof -
  let ?T = "of_type st ty L R" let ?above = "{j \<in> ?T. a < n_value (st j)}"
  let ?r = "if ?above = {} then R else Min ?above - 1"
  have "Max {j \<in> ?T. n_value (st j) \<le> a} = i"
    using i last by (intro Max_eqI) (auto simp: not_le [symmetric])
  moreover have ne: "?T \<noteq> {}" "{j \<in> ?T. n_value (st j) \<le> a} \<noteq> {}" using i by auto
  ultimately have e: "region_spec st L R ty a = (i, ?r)"
    unfolding region_spec_def Let_def if_not_P [OF ne(1)] if_not_P [OF ne(2)] by (simp only:)
  have lt: "i < j \<and> j \<le> R" if "j \<in> ?above" for j
    using that i so by (force simp: sorted_stabs_def of_type_def not_le [symmetric])
  have r: "i \<le> ?r \<and> ?r \<le> R \<and> (\<forall>j \<in> ?above. ?r < j) \<and> (?r = R \<or> ?r + 1 \<in> ?T)"
  proof (cases "?above = {}")
    case True
    then show ?thesis using i(1) by (simp add: of_type_def)
  next
    case False
    then have "Min ?above \<in> ?above" by (intro Min_in) auto
    then have "i < Min ?above" "Min ?above \<le> R" "Min ?above \<in> ?T" using lt by auto
    moreover have "\<forall>j \<in> ?above. Min ?above - 1 < j"
    proof
      fix j assume "j \<in> ?above"
      then have "Min ?above \<le> j" by (intro Min_le) auto
      then show "Min ?above - 1 < j" by simp
    qed
    ultimately show ?thesis unfolding if_not_P [OF False] by simp
  qed
  define r where "r = ?r"
  note r = r [folded r_def]
  have "of_type st ty (i + 1) r = {}"
  proof (rule equals0I)
    fix j assume "j \<in> of_type st ty (i + 1) r"
    then have "j \<in> ?T" "i < j" "j \<le> r" using i(1) r by (auto simp: of_type_def)
    then show False using last r by auto
  qed
  then show ?thesis using e [folded r_def] r by blast
qed

text \<open>On a table sorted by address the search returns the range of the entry that contains the address:
  the last entry of the type that starts at or before it, up to the next entry of the type, provided that,
  if an entry starts exactly at the address, none starts in the four bytes after it.\<close>

theorem stab_binsearch_correct:
  assumes "sorted_stabs st ty L R" and "no_near st ty L R a"
    and "i \<in> of_type st ty L R" and "n_value (st i) \<le> a" and "\<forall>j \<in> of_type st ty L R. i < j \<longrightarrow> a < n_value (st j)"
  shows "\<exists>r. stab_binsearch st L R ty a = (i, r) \<and> i \<le> r \<and> r \<le> R \<and> of_type st ty (i + 1) r = {}
    \<and> (r = R \<or> r + 1 \<in> of_type st ty L R)"
proof -
  have "L \<le> R + 1" using assms(3) by (simp add: of_type_def)
  then show ?thesis using region_spec_found [OF assms(1,3-5)] stab_binsearch_region [OF assms(1,2)] by simp
qed

definition near_table :: "int \<Rightarrow> Stab" where
  "near_table i = \<lparr>n_strx = 0, n_type = N_SO, n_other = 0, n_desc = 0,
     n_value = (if i \<le> 0 then 0xf0100040 else if i = 1 then 0xf0100176 else 0xf0100178)\<rparr>"

theorem stab_binsearch_correct_witness:
  "\<exists>r. stab_binsearch near_table 0 2 N_SO 0xf0100170 = (0, r) \<and> 0 \<le> r \<and> r \<le> 2"
proof -
  have T: "of_type near_table N_SO 0 2 = {0, 1, 2}" by (auto simp: of_type_def near_table_def)
  have "sorted_stabs near_table N_SO 0 2" "no_near near_table N_SO 0 2 0xf0100170"
    by (simp_all add: sorted_stabs_def no_near_def T near_table_def)
  from stab_binsearch_correct [OF this, of 0] show ?thesis by (auto simp: T near_table_def)
qed

text \<open>The table of the comment at \<open>stab_binsearch\<close>, cut to three entries: the address of an entry that is
  followed by another one after two bytes is attributed to the next entry, because \<open>addr++\<close> adds four.\<close>

lemma near_entry_skipped:
  "stab_binsearch near_table 0 2 N_SO 0xf0100176 = (2, 2)"
  "region_spec near_table 0 2 N_SO 0xf0100176 = (1, 1)"
proof -
  show "stab_binsearch near_table 0 2 N_SO 0xf0100176 = (2, 2)"
    by (simp add: stab_binsearch_def binsearch_loop.simps back_to_type.simps near_table_def c_div_def)
  have "of_type near_table N_SO 0 2 = {0, 1, 2}" by (auto simp: of_type_def near_table_def)
  then have "{i \<in> of_type near_table N_SO 0 2. n_value (near_table i) \<le> 0xf0100176} = {0, 1}"
    "{i \<in> of_type near_table N_SO 0 2. 0xf0100176 < n_value (near_table i)} = {2}"
    by (auto simp: near_table_def)
  then show "region_spec near_table 0 2 N_SO 0xf0100176 = (1, 1)"
    unfolding region_spec_def Let_def by (simp only:) (simp add: \<open>of_type near_table N_SO 0 2 = {0, 1, 2}\<close>)
qed

text \<open>An address before the first entry, when that is the first of the table, gives the index \<open>-1\<close>.\<close>

lemma search_before_first:
  assumes "sorted_stabs st ty 0 R" and "no_near st ty 0 R a" and "0 \<le> R" and "n_type (st 0) = ty" and "a < n_value (st 0)"
  shows "stab_binsearch st 0 R ty a = (-1, -1)"
proof -
  have T: "0 \<in> of_type st ty 0 R" using assms(3,4) by (simp add: of_type_def)
  have "a < n_value (st i)" if "i \<in> of_type st ty 0 R" for i
    using assms(1,5) T that by (force simp: sorted_stabs_def of_type_def)
  then have s: "{i \<in> of_type st ty 0 R. n_value (st i) \<le> a} = {}"
    "{i \<in> of_type st ty 0 R. a < n_value (st i)} = of_type st ty 0 R" by (auto simp: not_le)
  have "Min (of_type st ty 0 R) = 0" using T by (intro Min_eqI) (simp, auto simp: of_type_def)
  then have "region_spec st 0 R ty a = (-1, -1)" using T unfolding region_spec_def s Let_def by auto
  then show ?thesis using stab_binsearch_region [OF assms(1,2)] assms(3) by simp
qed

section \<open>The lookup\<close>

lemma strfind_returns: "m (s + of_nat n) = 0 \<Longrightarrow> \<exists>e. strfind m s c = Some e"
proof (induction n arbitrary: s)
  case 0
  then show ?case by (subst strfind.simps) simp
next
  case (Suc n)
  then show ?case using Suc.IH [of "s + 1"] by (subst strfind.simps) (simp add: add.assoc)
qed

lemma name_length_returns:
  assumes "m (stabstr_end d - 1) = 0" and "stabstr d < stabstr_end d"
  shows "\<exists>n. name_length m (At (stabstr d + x)) = Some n"
proof -
  let ?n = "unat (stabstr_end d - 1 - (stabstr d + x))"
  have "m (stabstr d + x + of_nat ?n) = 0" using assms(1) by simp
  then have "\<exists>e. strfind m (stabstr d + x) 58 = Some e" by (rule strfind_returns)
  then show ?thesis by (auto simp: name_length_def)
qed

lemma of_type_sub: "L \<le> L' \<Longrightarrow> R' \<le> R \<Longrightarrow> of_type st ty L' R' \<subseteq> of_type st ty L R"
  by (auto simp: of_type_def)

lemma sorted_stabs_sub: "sorted_stabs st ty L R \<Longrightarrow> L \<le> L' \<Longrightarrow> R' \<le> R \<Longrightarrow> sorted_stabs st ty L' R'"
  unfolding sorted_stabs_def using of_type_sub [of L L' R' R st ty] by blast

lemma no_near_sub: "no_near st ty L R a \<Longrightarrow> L \<le> L' \<Longrightarrow> R' \<le> R \<Longrightarrow> no_near st ty L' R' a"
  unfolding no_near_def using of_type_sub [of L L' R' R st ty] by blast

text \<open>C24: for a kernel address the lookup finds the function: when the table is sorted by address for source files and
  for functions, \<open>so\<close> is the last source file
  that starts at or before the address (and not entry 0, which the code takes for no file) and \<open>f\<close> the last function of that file that does, with a name inside a string table that ends in a terminator, it returns 0 and
  reports the start address of \<open>f\<close> and its name. One case is excluded, because the search is wrong there
  (\<open>near_entry_skipped\<close>): a source file or function that starts exactly at the address and is followed by another
  one at most four bytes later. For an address that is not the start of an entry nothing is asked of the
  distances (\<open>no_near\<close>), and for one that is, the next entry must start more than four bytes later.\<close>

theorem debuginfo_eip_finds:
  assumes d: "USER_LIMIT \<le> addr" "stabstr d < stabstr_end d" "m (stabstr_end d - 1) = 0"
    and N: "stab_end d - stabs d = of_nat (12 * N)" "12 * N < 2 ^ 31" and st: "st = stab_at m (stabs d)"
    and tab: "\<forall>ty \<in> {N_SO, N_FUN}. sorted_stabs st ty 0 (int N - 1) \<and> no_near st ty 0 (int N - 1) addr"
    and so: "so \<in> of_type st N_SO 1 (int N - 1)" "n_value (st so) \<le> addr"
      "\<forall>j \<in> of_type st N_SO 0 (int N - 1). so < j \<longrightarrow> addr < n_value (st j)"
    and f: "f \<in> of_type st N_FUN so (int N - 1)" "n_value (st f) \<le> addr" "n_strx (st f) < stabstr_end d - stabstr d"
      "\<forall>j. so < j \<and> j \<le> f \<longrightarrow> n_type (st j) \<noteq> N_SO" "\<forall>j \<in> of_type st N_FUN f (int N - 1). f < j \<longrightarrow> addr < n_value (st j)"
  shows "\<exists>info. debuginfo_eip d m addr = Some (0, info) \<and> eip_fn_addr info = n_value (st f)
    \<and> eip_fn_name info = At (stabstr d + n_strx (st f))"
proof -
  have so0: "so \<in> of_type st N_SO 0 (int N - 1)" "1 \<le> so" using so(1) by (auto simp: of_type_def)
  obtain r where r: "stab_binsearch st 0 (int N - 1) N_SO addr = (so, r)" "so \<le> r" "r \<le> int N - 1"
    "r = int N - 1 \<or> r + 1 \<in> of_type st N_SO 0 (int N - 1)"
    using region_spec_found [OF _ so0(1) so(2,3)] stab_binsearch_region [of st N_SO 0 "int N - 1" addr] tab by fastforce
  have "f \<le> r"
  proof (rule ccontr)
    assume "\<not> f \<le> r"
    then have "n_type (st (r + 1)) \<noteq> N_SO" using f(4) r(2) by simp
    then show False using r(4) f(1) \<open>\<not> f \<le> r\<close> by (auto simp: of_type_def)
  qed
  then have "f \<in> of_type st N_FUN so r" "\<forall>j \<in> of_type st N_FUN so r. f < j \<longrightarrow> addr < n_value (st j)"
    using f(1,5) r(3) by (auto simp: of_type_def)
  then obtain rf where rf: "stab_binsearch st so r N_FUN addr = (f, rf)" "f \<le> rf"
    using region_spec_found [of st N_FUN so r f addr] stab_binsearch_region [of st N_FUN so r addr] tab f(2)
      sorted_stabs_sub [of st N_FUN 0 "int N - 1" so r] no_near_sub [of st N_FUN 0 "int N - 1" addr so r] so0(2) r(2,3)
    by fastforce
  have data: "stab_data d m addr = d" using d(1) by (simp add: stab_data_def)
  have cnt: "c_div (sint (stab_end d - stabs d)) 12 = int N"
  proof -
    have "sint (of_nat (12 * N) :: uint32) = int (12 * N)"
      unfolding signed_of_nat of_int_eq_id id_apply using N(2) by (intro signed_take_bit_int_eq_self) simp_all
    then show ?thesis unfolding N(1) by (simp add: c_div_def sgn_if)
  qed
  obtain n where "name_length m (At (stabstr d + n_strx (st f))) = Some n"
    using name_length_returns [of m d] d(2,3) by auto
  then show ?thesis
    using d(2,3) so0(2) r(1) rf f(3)
    by (simp add: debuginfo_eip_def data cnt st [symmetric] Let_def not_le)
qed

text \<open>A table of three entries at \<open>0xf0200000\<close>, for a file at \<open>0xf0100000\<close> with one function at \<open>0xf0100040\<close>.\<close>

definition debug_sample :: memory where
  "debug_sample = (\<lambda>_. 0)(0xf0200010 := 0x64, 0xf0200016 := 0x10, 0xf0200017 := 0xf0,
     0xf020001c := 0x24, 0xf0200020 := 0x40, 0xf0200022 := 0x10, 0xf0200023 := 0xf0)"

lemma debug_sample_entries:
  "stab_at debug_sample 0xf0200000 0 = \<lparr>n_strx = 0, n_type = 0, n_other = 0, n_desc = 0, n_value = 0\<rparr>"
  "stab_at debug_sample 0xf0200000 1 = \<lparr>n_strx = 0, n_type = N_SO, n_other = 0, n_desc = 0, n_value = 0xf0100000\<rparr>"
  "stab_at debug_sample 0xf0200000 2 = \<lparr>n_strx = 0, n_type = N_FUN, n_other = 0, n_desc = 0, n_value = 0xf0100040\<rparr>"
  "debug_sample 0xf0300007 = 0"
  by (simp_all add: stab_at_def mem32_def word_of_bytes_def debug_sample_def N_SO_def N_FUN_def)

theorem debuginfo_eip_finds_witness:
  "\<exists>info. debuginfo_eip \<lparr>stabs = 0xf0200000, stab_end = 0xf0200024, stabstr = 0xf0300000, stabstr_end = 0xf0300008\<rparr>
     debug_sample 0xf0100050 = Some (0, info) \<and> eip_fn_addr info = 0xf0100040 \<and> eip_fn_name info = At 0xf0300000"
proof -
  let ?d = "\<lparr>stabs = 0xf0200000, stab_end = 0xf0200024, stabstr = 0xf0300000, stabstr_end = 0xf0300008\<rparr>"
  let ?st = "stab_at debug_sample 0xf0200000"
  have ints: "0 \<le> i \<and> i \<le> 2 \<longleftrightarrow> i = 0 \<or> i = 1 \<or> i = 2" "1 \<le> i \<and> i \<le> 2 \<longleftrightarrow> i = 1 \<or> i = 2" "i = 0 \<or> i = 1 \<or> i = 2 \<Longrightarrow> P 0 \<Longrightarrow> P 1 \<Longrightarrow> P 2 \<Longrightarrow> P i" for i :: int and P
    by auto
  have T: "of_type ?st N_SO 0 2 = {1}" "of_type ?st N_FUN 0 2 = {2}" "of_type ?st N_SO 1 2 = {1}" "of_type ?st N_FUN 1 2 = {2}"
    "of_type ?st N_FUN 2 2 = {2}"
    unfolding of_type_def conj_assoc [symmetric] ints by (auto simp: debug_sample_entries N_SO_def N_FUN_def)
  have "\<forall>ty \<in> {N_SO, N_FUN}. sorted_stabs ?st ty 0 (int 3 - 1) \<and> no_near ?st ty 0 (int 3 - 1) 0xf0100050"
    by (simp add: sorted_stabs_def no_near_def T debug_sample_entries)
  moreover have "\<forall>j. 1 < j \<and> j \<le> 2 \<longrightarrow> n_type (?st j) \<noteq> N_SO"
  proof (intro allI impI)
    fix j :: int
    assume "1 < j \<and> j \<le> 2"
    then have "j = 2" by simp
    then show "n_type (?st j) \<noteq> N_SO" by (simp add: debug_sample_entries N_SO_def N_FUN_def)
  qed
  ultimately have "\<exists>info. debuginfo_eip ?d debug_sample 0xf0100050 = Some (0, info)
      \<and> eip_fn_addr info = n_value (?st 2) \<and> eip_fn_name info = At (stabstr ?d + n_strx (?st 2))"
    by (intro debuginfo_eip_finds [where N = 3 and so = 1 and f = 2])
      (simp_all add: T debug_sample_entries layout_defs)
  then show ?thesis by (simp add: debug_sample_entries)
qed

end
