(* ===== verification/User_Heap.thy ===== *)
theory User_Heap
  imports Syscalls
begin

text \<open>
  The user heap (\<^verbatim>\<open>lib/uheap.c\<close>): \<open>malloc\<close> with the best-fit search and \<open>free\<close>, over the three arrays of the
  library. \<open>malloc_user\<close> is what \<open>malloc\<close> does to the arrays and the address it asks the kernel for, \<open>None\<close>
  standing for the null pointer without a call; the arrays have \<open>100000\<close> elements.
\<close>

section \<open>Definitions\<close>

record uheap =
  last_addres :: uint32
  changes :: int
  sizeofarray :: nat
  addresses :: "nat \<Rightarrow> uint32"
  changed :: "nat \<Rightarrow> int"
  numOfPages :: "nat \<Rightarrow> int"

definition uheap_init :: uheap where
  "uheap_init = \<lparr>last_addres = USER_HEAP_START, changes = 0, sizeofarray = 0, addresses = (\<lambda>_. 0),
     changed = (\<lambda>_. 0), numOfPages = (\<lambda>_. 0)\<rparr>"

text \<open>The statements at the end of both branches that extend the heap.\<close>

definition append_block :: "int \<Rightarrow> uheap \<Rightarrow> halt + (uint32 \<times> uheap) option" where
  "append_block num h =
     (if 100000 \<le> sizeofarray h then Inl OutOfBounds
      else let p = last_addres h; n = sizeofarray h in
        Inr (Some (p, h\<lparr>last_addres := p + of_int num * PAGE_SIZE, numOfPages := (numOfPages h)(n := num),
          addresses := (addresses h)(n := p), changed := (changed h)(n := 1), sizeofarray := n + 1\<rparr>)))"

record gap_search =
  g_count :: int
  g_min :: int
  g_f :: nat
  g_best :: "(nat \<times> uint32 \<times> nat) option"    \<comment> \<open>\<open>index\<close>, \<open>min_addresss\<close> and \<open>lastindex\<close> when \<open>bool\<close> is set\<close>

definition gap_step :: "uheap \<Rightarrow> int \<Rightarrow> nat \<Rightarrow> gap_search \<Rightarrow> gap_search" where
  "gap_step h num i g =
     (if changed h i = 0 then g\<lparr>g_count := g_count g + numOfPages h i, g_f := g_f g + 1\<rparr>
      else (if g_count g < g_min g \<and> num \<le> g_count g
            then g\<lparr>g_min := g_count g,
                   g_best := Some (i - g_f g, addresses h i - of_int (g_count g) * PAGE_SIZE, i)\<rparr>
            else g)\<lparr>g_f := 0, g_count := 0\<rparr>)"

definition find_gap :: "uheap \<Rightarrow> int \<Rightarrow> (nat \<times> uint32 \<times> nat) option" where
  "find_gap h num =
     g_best (fold (gap_step h num) [0..<sizeofarray h] \<lparr>g_count = 0, g_min = 4000, g_f = 0, g_best = None\<rparr>)"

text \<open>\<open>for (i = sizeofarray-1; i > index; i--) a[i] = a[i-1]\<close>, counting \<open>k\<close> steps from \<open>i\<close> on.\<close>

fun shift_up :: "nat \<Rightarrow> nat \<Rightarrow> (nat \<Rightarrow> 'a) \<Rightarrow> nat \<Rightarrow> 'a" where
  "shift_up i 0 a = a"
| "shift_up i (Suc k) a = shift_up (i - 1) k (a(i := a (i - 1)))"

definition take_gap :: "uint32 \<Rightarrow> int \<Rightarrow> nat \<times> uint32 \<times> nat \<Rightarrow> uheap \<Rightarrow> halt + (uint32 \<times> uheap) option" where
  "take_gap sz num = (\<lambda>(index, min_addresss, lastindex) h.
     if 100000 \<le> sizeofarray h then Inl OutOfBounds
     else
       let n = sizeofarray h + 1; k = n - 1 - index;
           h = h\<lparr>sizeofarray := n, addresses := shift_up (n - 1) k (addresses h),
                 numOfPages := shift_up (n - 1) k (numOfPages h), changed := shift_up (n - 1) k (changed h)\<rparr>;
           h = h\<lparr>addresses := (addresses h)(index + 1 := min_addresss + sz),
                 numOfPages := (numOfPages h)(index + 1 := numOfPages h index - num),
                 changed := (changed h)(index + 1 := 0)\<rparr>;
           h = h\<lparr>numOfPages := (numOfPages h)(index := num)\<rparr>
       in Inr (Some (min_addresss, if index < lastindex then h\<lparr>changed := (changed h)(index := 1)\<rparr> else h)))"

definition pages_of :: "uint32 \<Rightarrow> int" where
  "pages_of sz = uint (sz div PAGE_SIZE) + (if sz mod PAGE_SIZE \<noteq> 0 then 1 else 0)"

definition malloc_user :: "uint32 \<Rightarrow> uheap \<Rightarrow> halt + (uint32 \<times> uheap) option" where
  "malloc_user sz h =
     (if sz > USER_HEAP_MAX - USER_HEAP_START then Inr None
      else
        let num = pages_of sz in
        if changes h = 0 then append_block num h
        else case find_gap h num of
               Some g \<Rightarrow> take_gap sz num g h
             | None \<Rightarrow> if sz > USER_HEAP_MAX - last_addres h then Inr None else append_block num h)"


definition free :: "uint32 \<Rightarrow> uheap \<Rightarrow> kernel \<Rightarrow> uheap result" where
  "free va h s =
     (case List.find (\<lambda>i. addresses h i = va \<and> changed h i = 1) [0..<sizeofarray h] of
        None \<Rightarrow> Inr (h, s)
      | Some i \<Rightarrow>
          bindE (sys_freeMem va (of_int (numOfPages h i) * PAGE_SIZE) s) (\<lambda>(_, s).
          Inr (h\<lparr>changed := (changed h)(i := 0), changes := changes h + 1\<rparr>, s)))"

text \<open>The rest of the library's heap interface panics in this commit.\<close>

definition smalloc :: "uint32 \<Rightarrow> uint32 \<Rightarrow> uint8 \<Rightarrow> kernel \<Rightarrow> uint32 result" where
  "smalloc sharedVarName sz isWritable s = Inl (Panic ''this function is not required...!!'')"

definition sget :: "uint32 \<Rightarrow> uint32 \<Rightarrow> kernel \<Rightarrow> uint32 result" where
  "sget ownerEnvID sharedVarName s = Inl (Panic ''this function is not required...!!'')"

definition sfree :: "uint32 \<Rightarrow> kernel \<Rightarrow> unit result" where
  "sfree va s = Inl (Panic ''this function is not required...!!'')"

definition realloc :: "uint32 \<Rightarrow> uint32 \<Rightarrow> kernel \<Rightarrow> uint32 result" where
  "realloc va new_size s = Inl (Panic ''this function is not required...!!'')"

definition expand :: "uint32 \<Rightarrow> kernel \<Rightarrow> unit result" where
  "expand newSize s = Inl (Panic ''this function is not required...!!'')"

definition shrink :: "uint32 \<Rightarrow> kernel \<Rightarrow> unit result" where
  "shrink newSize s = Inl (Panic ''this function is not required...!!'')"

definition freeHeap :: "uint32 \<Rightarrow> kernel \<Rightarrow> unit result" where
  "freeHeap va s = Inl (Panic ''this function is not required...!!'')"

section \<open>The invariant\<close>

text \<open>\<open>pos h i\<close> is where the \<open>i\<close>-th entry starts when the entries lie next to each other, \<open>run h i\<close> the
  number of pages in the free entries right before it and \<open>frees h i\<close> the number of these entries.\<close>

primrec pos :: "uheap \<Rightarrow> nat \<Rightarrow> int" where
  "pos h 0 = uint USER_HEAP_START"
| "pos h (Suc i) = pos h i + numOfPages h i * 4096"

primrec run :: "uheap \<Rightarrow> nat \<Rightarrow> int" where
  "run h 0 = 0"
| "run h (Suc i) = (if changed h i = 0 then run h i + numOfPages h i else 0)"

primrec frees :: "uheap \<Rightarrow> nat \<Rightarrow> nat" where
  "frees h 0 = 0"
| "frees h (Suc i) = (if changed h i = 0 then frees h i + 1 else 0)"

text \<open>A free entry may have a negative number of pages, when a block was taken from several free entries;
  but the free entries between two blocks never do in total.\<close>

definition heap_inv :: "uheap \<Rightarrow> bool" where
  "heap_inv h \<longleftrightarrow>
     (\<forall>i < sizeofarray h. addresses h i = of_int (pos h i) \<and> (changed h i = 0 \<or> changed h i = 1 \<and> 1 \<le> numOfPages h i \<and> 0 \<le> run h i))
     \<and> 0 \<le> run h (sizeofarray h) \<and> last_addres h = of_int (pos h (sizeofarray h)) \<and> pos h (sizeofarray h) \<le> uint USER_HEAP_MAX"

definition used_blocks :: "uheap \<Rightarrow> (int \<times> int) set" where
  "used_blocks h = {(uint (addresses h i), numOfPages h i) | i. i < sizeofarray h \<and> changed h i = 1}"

lemma heap_inv_init: "heap_inv uheap_init"
  by (simp add: heap_inv_def uheap_init_def layout_defs)

text \<open>The end of the last block before an entry.\<close>

abbreviation base :: "uheap \<Rightarrow> nat \<Rightarrow> int" where
  "base h i \<equiv> pos h i - run h i * 4096"

lemma base_mono_step: "heap_inv h \<Longrightarrow> i < sizeofarray h \<Longrightarrow> base h i \<le> base h (Suc i)"
  by (auto simp: heap_inv_def algebra_simps)

lemma base_mono: "heap_inv h \<Longrightarrow> i \<le> j \<Longrightarrow> j \<le> sizeofarray h \<Longrightarrow> base h i \<le> base h j"
proof (induction j)
  case (Suc j)
  then show ?case using base_mono_step [of h j] by (cases "i = Suc j") auto
qed simp

lemma uint_heap_address:
  "uint USER_HEAP_START \<le> x \<Longrightarrow> x \<le> uint USER_HEAP_MAX \<Longrightarrow> uint (of_int x :: uint32) = x"
  by (simp add: unsigned_of_int layout_defs take_bit_int_eq_self)

text \<open>Blocks lie in the heap, in the order of their entries.\<close>

lemma pos_range:
  assumes inv: "heap_inv h" and "i \<le> sizeofarray h" and "i < sizeofarray h \<Longrightarrow> changed h i = 1"
  shows "uint USER_HEAP_START \<le> pos h i" and "pos h i \<le> uint USER_HEAP_MAX" and "0 \<le> run h i"
    and "i < sizeofarray h \<Longrightarrow> uint (addresses h i) = pos h i"
proof -
  show run: "0 \<le> run h i"
  proof (cases "i = sizeofarray h")
    case False
    then have "i < sizeofarray h" "changed h i = 1" using assms by auto
    then show ?thesis using inv by (force simp: heap_inv_def)
  qed (use inv in \<open>simp add: heap_inv_def\<close>)
  have "base h 0 \<le> base h i" using assms(2) by (intro base_mono [OF inv]) simp_all
  then show lo: "uint USER_HEAP_START \<le> pos h i" using run by simp
  show hi: "pos h i \<le> uint USER_HEAP_MAX"
  proof (cases "i = sizeofarray h")
    case True
    then show ?thesis using inv by (simp add: heap_inv_def)
  next
    case False
    then have i: "i < sizeofarray h" "changed h i = 1" using assms by auto
    then have "pos h i \<le> base h (Suc i)" using inv by (force simp: heap_inv_def)
    also have "\<dots> \<le> base h (sizeofarray h)" using i by (intro base_mono [OF inv]) simp_all
    also have "\<dots> \<le> uint USER_HEAP_MAX" using inv by (simp add: heap_inv_def)
    finally show ?thesis .
  qed
  show "uint (addresses h i) = pos h i" if "i < sizeofarray h"
  proof -
    show ?thesis using inv that uint_heap_address [OF lo hi] by (simp add: heap_inv_def)
  qed
qed

lemma blocks_in_order:
  assumes inv: "heap_inv h" and "i < j" and "j \<le> sizeofarray h" and "changed h i = 1" and "j < sizeofarray h \<Longrightarrow> changed h j = 1"
  shows "pos h i + numOfPages h i * 4096 \<le> base h j" and "base h j \<le> pos h j"
proof -
  have "base h (Suc i) \<le> base h j" using base_mono [OF inv, of "Suc i" j] assms by simp
  then show "pos h i + numOfPages h i * 4096 \<le> base h j" using assms(4) by simp
  show "base h j \<le> pos h j" using pos_range(3) [OF inv assms(3,5)] by simp
qed

section \<open>The search for a gap\<close>

definition gap_ok :: "uheap \<Rightarrow> int \<Rightarrow> nat \<Rightarrow> gap_search \<Rightarrow> bool" where
  "gap_ok h num k g \<longleftrightarrow> g_count g = run h k \<and> g_f g = frees h k \<and>
     (case g_best g of
        None \<Rightarrow> g_min g = 4000 \<and> (\<forall>j < k. changed h j \<noteq> 0 \<longrightarrow> \<not> (num \<le> run h j \<and> run h j < 4000))
      | Some (ix, p, j) \<Rightarrow> j < k \<and> changed h j \<noteq> 0 \<and> num \<le> run h j \<and> run h j < 4000 \<and> g_min g = run h j
          \<and> ix = j - frees h j \<and> p = addresses h j - of_int (run h j) * PAGE_SIZE
          \<and> (\<forall>j' < k. changed h j' \<noteq> 0 \<longrightarrow> num \<le> run h j' \<longrightarrow> run h j \<le> run h j'))"

lemma gap_step_ok:
  assumes "gap_ok h num k g"
  shows "gap_ok h num (Suc k) (gap_step h num k g)"
proof (cases "changed h k = 0")
  case True
  then show ?thesis
    using assms by (auto simp: gap_ok_def gap_step_def less_Suc_eq split: option.splits)
next
  case False
  show ?thesis
  proof (cases "g_count g < g_min g \<and> num \<le> g_count g")
    case take: True
    then show ?thesis
      using assms False by (fastforce simp: gap_ok_def gap_step_def less_Suc_eq split: option.splits)
  next
    case keep: False
    then show ?thesis
      using assms False by (auto simp: gap_ok_def gap_step_def less_Suc_eq split: option.splits)
  qed
qed

lemma find_gap_ok:
  "gap_ok h num k (fold (gap_step h num) [0..<k] \<lparr>g_count = 0, g_min = 4000, g_f = 0, g_best = None\<rparr>)"
  by (induction k) (simp_all add: gap_step_ok, simp add: gap_ok_def)

lemma find_gap_Some:
  assumes "find_gap h num = Some (ix, p, j)"
  shows "j < sizeofarray h" and "changed h j \<noteq> 0" and "num \<le> run h j" and "run h j < 4000" and "ix = j - frees h j"
    and "p = addresses h j - of_int (run h j) * PAGE_SIZE"
    and "j' < sizeofarray h \<Longrightarrow> changed h j' \<noteq> 0 \<Longrightarrow> num \<le> run h j' \<Longrightarrow> run h j \<le> run h j'"
  using find_gap_ok [of h num "sizeofarray h"] assms by (auto simp: gap_ok_def find_gap_def)

lemma find_gap_None:
  assumes "find_gap h num = None" and "j < sizeofarray h" and "changed h j \<noteq> 0"
  shows "\<not> (num \<le> run h j \<and> run h j < 4000)"
  using find_gap_ok [of h num "sizeofarray h"] assms by (auto simp: gap_ok_def find_gap_def)

lemma frees_before:
  "frees h j \<le> j" "j - frees h j \<le> i \<Longrightarrow> i < j \<Longrightarrow> changed h i = 0" "run h (j - frees h j) = 0"
  "base h (j - frees h j) = base h j" "frees h j = 0 \<Longrightarrow> run h j = 0"
proof (induction j)
  case (Suc j)
  { case 1 then show ?case using Suc(1) by simp }
  { case 2 then show ?case using Suc(2) by (cases "i = j") (auto split: if_splits) }
  { case 3 then show ?case using Suc(3) by simp }
  { case 4 then show ?case using Suc(4) by (simp add: algebra_simps) }
  { case 5 then show ?case by (simp split: if_splits) }
qed simp_all

section \<open>A block from a gap\<close>

lemma shift_up_value: "k \<le> i \<Longrightarrow> shift_up i k a x = (if i - k < x \<and> x \<le> i then a (x - 1) else a x)"
proof (induction k arbitrary: i a)
  case (Suc k)
  then show ?case using Suc.IH [of "i - 1" "a(i := a (i - 1))"] by (auto simp: fun_upd_apply)
qed auto

text \<open>The arrays after a block was taken: the entry \<open>ix\<close> is split in two.\<close>

definition split_entry :: "nat \<Rightarrow> 'a \<Rightarrow> 'a \<Rightarrow> nat \<Rightarrow> (nat \<Rightarrow> 'a) \<Rightarrow> nat \<Rightarrow> 'a" where
  "split_entry ix x y n a i = (if i = ix then x else if i = ix + 1 then y else if ix < i \<and> i \<le> n then a (i - 1) else a i)"

definition gap_heap :: "uint32 \<Rightarrow> int \<Rightarrow> nat \<Rightarrow> uint32 \<Rightarrow> uheap \<Rightarrow> uheap" where
  "gap_heap sz num ix p h = h\<lparr>sizeofarray := sizeofarray h + 1,
     addresses := split_entry ix (addresses h ix) (p + sz) (sizeofarray h) (addresses h),
     changed := split_entry ix 1 0 (sizeofarray h) (changed h),
     numOfPages := split_entry ix num (numOfPages h ix - num) (sizeofarray h) (numOfPages h)\<rparr>"

lemma shift_up_split:
  assumes "ix < n"
  shows "(shift_up n (n - ix) a)(Suc ix := y) = split_entry ix (a ix) y n a"
    and "(split_entry ix z y n a)(ix := x) = split_entry ix x y n a" and "shift_up n (n - ix) a ix = a ix"
  using assms by (auto simp: fun_eq_iff shift_up_value split_entry_def)

lemma take_gap_eq:
  assumes "ix < j" and "j < sizeofarray h" and "sizeofarray h < 100000"
  shows "take_gap sz num (ix, p, j) h = Inr (Some (p, gap_heap sz num ix p h))"
proof -
  have "ix < sizeofarray h" using assms by simp
  then show ?thesis
    using assms by (simp add: take_gap_def gap_heap_def shift_up_split Let_def)
qed



lemma heap_invD:
  assumes "heap_inv h" and "i < sizeofarray h"
  shows "addresses h i = of_int (pos h i)" and "changed h i \<noteq> 0 \<Longrightarrow> changed h i = 1 \<and> 1 \<le> numOfPages h i \<and> 0 \<le> run h i"
  using assms by (auto simp: heap_inv_def)

text \<open>What the search returned, under the invariant.\<close>

lemma found_gap:
  assumes inv: "heap_inv h" and g: "find_gap h num = Some (ix, p, j)" and "1 \<le> num"
  shows "ix = j - frees h j" and "ix < j" and "j < sizeofarray h" and "changed h j = 1" and "num \<le> run h j"
    and "pos h ix = base h j" and "p = of_int (base h j)" and "uint p = base h j" and "\<And>i. ix \<le> i \<Longrightarrow> i < j \<Longrightarrow> changed h i = 0"
proof -
  note f = find_gap_Some [OF g]
  show j: "ix = j - frees h j" "j < sizeofarray h" "num \<le> run h j" by (rule f)+
  show used: "changed h j = 1" using heap_invD(2) [OF inv f(1)] f(2) by simp
  have "frees h j \<noteq> 0" using frees_before(5) [of h j] assms(3) f(3) by fastforce
  then show "ix < j" using frees_before(1) [of h j] j(1) by simp
  show "pos h ix = base h j" using frees_before(3,4) [of h j] j(1) by simp
  show p: "p = of_int (base h j)"
    unfolding f(6) heap_invD(1) [OF inv j(2)] by (simp add: layout_defs)
  have "uint USER_HEAP_START \<le> base h j"
    using base_mono [OF inv, of 0 j] j(2) by simp
  moreover have "base h j \<le> uint USER_HEAP_MAX"
    using pos_range(2,3) [OF inv] j(2) used by (smt (verit) less_imp_le mult_nonneg_nonneg)
  ultimately show "uint p = base h j" unfolding p by (rule uint_heap_address)
  show "\<And>i. ix \<le> i \<Longrightarrow> i < j \<Longrightarrow> changed h i = 0" using frees_before(2) [of j h] j(1) by simp
qed






section \<open>A block at the end\<close>

definition end_heap :: "int \<Rightarrow> uheap \<Rightarrow> uheap" where
  "end_heap num h = (let n = sizeofarray h in
     h\<lparr>last_addres := last_addres h + of_int num * PAGE_SIZE, numOfPages := (numOfPages h)(n := num),
       addresses := (addresses h)(n := last_addres h), changed := (changed h)(n := 1), sizeofarray := n + 1\<rparr>)"

lemma append_block_eq: "sizeofarray h < 100000 \<Longrightarrow> append_block num h = Inr (Some (last_addres h, end_heap num h))"
  by (simp add: append_block_def end_heap_def Let_def)



section \<open>malloc and free\<close>

lemma pages_of_exact:
  assumes n: "0 \<le> num" "num * 4096 < 2 ^ 32"
  shows "uint (of_int (num * 4096) :: uint32) = num * 4096" and "pages_of (of_int (num * 4096)) = num"
proof -
  show u: "uint (of_int (num * 4096) :: uint32) = num * 4096"
    by (simp only: uint_word_of_int_eq) (rule take_bit_int_eq_self, use n in simp_all)
  have "uint ((of_int (num * 4096) :: uint32) mod PAGE_SIZE) = 0"
    unfolding uint_mod_distrib u by (simp add: layout_defs)
  then have "(of_int (num * 4096) :: uint32) mod PAGE_SIZE = 0" by (simp only: uint_0_iff)
  moreover have "uint ((of_int (num * 4096) :: uint32) div PAGE_SIZE) = num"
    unfolding uint_div_distrib u by (simp add: layout_defs)
  ultimately show "pages_of (of_int (num * 4096)) = num" by (simp only: pages_of_def) simp
qed



lemma last_addres_pos:
  assumes inv: "heap_inv h"
  shows "uint (last_addres h) = pos h (sizeofarray h)" "uint USER_HEAP_START \<le> uint (last_addres h)"
    "uint (last_addres h) \<le> uint USER_HEAP_MAX"
  using inv uint_heap_address [OF pos_range(1,2) [OF inv order_refl]] pos_range(1,2) [OF inv order_refl]
  by (simp_all add: heap_inv_def)

lemma malloc_eq:
  assumes inv: "heap_inv h" and "sizeofarray h < 100000" and num: "1 \<le> num" "num * 4096 < 2 ^ 32" and sz: "sz = of_int (num * 4096)"
  shows "malloc_user sz h =
    (if uint USER_HEAP_MAX - uint USER_HEAP_START < num * 4096 then Inr None
     else case (if changes h = 0 then None else find_gap h num) of
       Some (ix, p, j) \<Rightarrow> Inr (Some (p, gap_heap sz num ix p h))
     | None \<Rightarrow> if changes h \<noteq> 0 \<and> uint USER_HEAP_MAX < uint (last_addres h) + num * 4096 then Inr None
         else Inr (Some (last_addres h, end_heap num h)))"
proof -
  note l = last_addres_pos [OF inv]
  have u: "uint sz = num * 4096" "pages_of sz = num" using pages_of_exact [of num] num sz by simp_all
  have "uint (USER_HEAP_MAX - last_addres h) = uint USER_HEAP_MAX - uint (last_addres h)"
    using l(3) by (rule uint_sub_lem [THEN iffD1])
  then have e: "sz > USER_HEAP_MAX - last_addres h \<longleftrightarrow> uint USER_HEAP_MAX < uint (last_addres h) + num * 4096"
    using u(1) by (auto simp: word_less_def)
  have g: "sz > USER_HEAP_MAX - USER_HEAP_START \<longleftrightarrow> uint USER_HEAP_MAX - uint USER_HEAP_START < num * 4096"
    using u(1) by (simp add: word_less_def layout_defs)
  have "take_gap sz num (ix, p, j) h = Inr (Some (p, gap_heap sz num ix p h))" if "find_gap h num = Some (ix, p, j)" for ix p j
    using take_gap_eq found_gap(2,3) [OF inv that num(1)] assms(2) by simp
  then show ?thesis
    using append_block_eq [OF assms(2)] by (simp add: malloc_user_def u(2) Let_def e g split: option.splits)
qed




definition gaps :: "uheap \<Rightarrow> (int \<times> int) set" where
  "gaps h = {(base h j, run h j) | j. j < sizeofarray h \<and> changed h j = 1}"



text \<open>Once something was freed, \<open>malloc\<close> takes the block from the start of the smallest gap between blocks
  that is large enough, if there is one of less than 4000 pages.\<close>

theorem malloc_best_fit:
  assumes inv: "heap_inv h" and "sizeofarray h < 100000" and num: "1 \<le> num" and sz: "sz = of_int (num * 4096)"
    and room: "uint (last_addres h) + num * 4096 \<le> uint USER_HEAP_MAX" and "changes h \<noteq> 0"
    and "(q, g) \<in> gaps h" and "num \<le> g" and "g < 4000"
  shows "\<exists>p h' m. malloc_user sz h = Inr (Some (p, h')) \<and> (uint p, m) \<in> gaps h \<and> num \<le> m
    \<and> (\<forall>(q, g) \<in> gaps h. num \<le> g \<longrightarrow> m \<le> g)"
proof -
  have n: "num * 4096 < 2 ^ 32" using room last_addres_pos(2) [OF inv] by (simp add: layout_defs)
  obtain ix p j where f: "find_gap h num = Some (ix, p, j)"
    using find_gap_None [of h num] assms(7-9) by (cases "find_gap h num") (auto simp: gaps_def)
  have "run h j \<le> g" if "(q, g) \<in> gaps h" "num \<le> g" for q g
    using find_gap_Some(7) [OF f] that by (auto simp: gaps_def)
  then show ?thesis
    using malloc_eq [OF inv assms(2) num n sz] room last_addres_pos(2) [OF inv] f assms(6) found_gap(3,4,5,8) [OF inv f num]
    by (intro exI [of _ p] exI [of _ "gap_heap sz num ix p h"] exI [of _ "run h j"]) (auto simp: gaps_def)
qed

lemma free_run: "changed h i = 1 \<Longrightarrow> 0 \<le> run h i \<Longrightarrow> 1 \<le> numOfPages h i \<Longrightarrow>
    run h k \<le> run (h\<lparr>changed := (changed h)(i := 0), changes := c\<rparr>) k"
  by (induction k) auto

lemma free_pos: "pos (h\<lparr>changed := cs, changes := c\<rparr>) k = pos h k"
  by (induction k) auto

lemma block_unique:
  assumes inv: "heap_inv h" and "i < sizeofarray h" "j < sizeofarray h" "changed h i = 1" "changed h j = 1" "addresses h i = addresses h j"
  shows "i = j"
proof -
  have "pos h i < pos h j" if "i < j" "i < sizeofarray h" "j < sizeofarray h" "changed h i = 1" "changed h j = 1" for i j
    using blocks_in_order [OF inv that(1) _ that(4)] heap_invD(2) [OF inv that(2)] that by fastforce
  moreover have "pos h i = pos h j" using pos_range(4) [OF inv] assms(2-6) by (metis less_imp_le)
  ultimately show ?thesis using assms(2-5) by (metis less_irrefl linorder_neqE_nat)
qed

lemma free_unknown: "uint va \<notin> fst ` used_blocks h \<Longrightarrow> free va h s = Inr (h, s)"
proof -
  assume "uint va \<notin> fst ` used_blocks h"
  then have "List.find (\<lambda>i. addresses h i = va \<and> changed h i = 1) [0..<sizeofarray h] = None"
    by (force simp: find_None_iff used_blocks_def)
  then show ?thesis by (simp add: free_def)
qed

text \<open>C29: \<open>free\<close> of a block in use asks the kernel to free exactly its pages, takes the block off the
  books and keeps the bookkeeping consistent.\<close>

theorem free_correct:
  assumes inv: "heap_inv h" and "(uint va, n) \<in> used_blocks h"
  shows "\<exists>h'. free va h s = bindE (sys_freeMem va (of_int n * PAGE_SIZE) s) (\<lambda>(_, s'). Inr (h', s'))
    \<and> heap_inv h' \<and> used_blocks h' = used_blocks h - {(uint va, n)} \<and> changes h' = changes h + 1"
proof -
  obtain i where i: "i < sizeofarray h" "changed h i = 1" "addresses h i = va" "numOfPages h i = n"
    using assms(2) by (auto simp: used_blocks_def word_uint_eq_iff)
  let ?h = "h\<lparr>changed := (changed h)(i := 0), changes := changes h + 1\<rparr>"
  let ?P = "\<lambda>i. addresses h i = va \<and> changed h i = 1"
  have un: "k = i" if "k < sizeofarray h" "?P k" for k using block_unique [OF inv that(1) i(1) _ i(2)] that(2) i(3) by simp
  have "List.find ?P [0..<sizeofarray h] \<noteq> None" using i by (auto simp: find_None_iff)
  then obtain k where k: "List.find ?P [0..<sizeofarray h] = Some k" by auto
  then have "k < sizeofarray h \<and> ?P k" by (auto simp: find_Some_iff)
  then have "List.find ?P [0..<sizeofarray h] = Some i" using k un by simp
  then have "free va h s = bindE (sys_freeMem va (of_int n * PAGE_SIZE) s) (\<lambda>(_, s'). Inr (?h, s'))"
    using i(4) by (simp add: free_def)
  moreover have "run h k \<le> run ?h k" for k
    using free_run [of h i k "changes h + 1"] heap_invD(2) [OF inv i(1)] i(2) by simp
  then have "heap_inv ?h" using inv unfolding heap_inv_def by (auto simp: free_pos) (meson order_trans)+
  moreover have "used_blocks ?h = used_blocks h - {(uint va, n)}"
  proof -
    have "(uint (addresses h k), numOfPages h k) \<noteq> (uint va, n)" if "k < sizeofarray h" "changed h k = 1" "k \<noteq> i" for k
      using un [of k] that by (auto simp: word_uint_eq_iff)
    moreover have "used_blocks ?h = (\<lambda>k. (uint (addresses h k), numOfPages h k)) ` {k. k < sizeofarray h \<and> changed h k = 1 \<and> k \<noteq> i}"
      by (auto simp: used_blocks_def)
    moreover have "used_blocks h = (\<lambda>k. (uint (addresses h k), numOfPages h k)) ` {k. k < sizeofarray h \<and> changed h k = 1}"
      by (auto simp: used_blocks_def)
    ultimately show ?thesis using i by auto
  qed
  ultimately show ?thesis by (intro exI [of _ ?h]) simp
qed

section \<open>Examples\<close>

text \<open>A heap whose first block, of three pages, was freed, and whose second block has one page.\<close>

definition gap_example :: uheap where
  "gap_example = \<lparr>last_addres = 0x80004000, changes = 1, sizeofarray = 2,
     addresses = (\<lambda>i. if i = 0 then 0x80000000 else 0x80003000),
     changed = (\<lambda>i. if i = 0 then 0 else 1), numOfPages = (\<lambda>i. if i = 0 then 3 else 1)\<rparr>"

lemma gap_example_inv: "heap_inv gap_example"
proof -
  have two: "pos gap_example 2 = pos gap_example (Suc (Suc 0))" "run gap_example 2 = run gap_example (Suc (Suc 0))"
    by (simp_all only: numeral_2_eq_2)
  have "pos gap_example 0 = 0x80000000" "pos gap_example (Suc 0) = 0x80003000" "pos gap_example 2 = 0x80004000"
    "run gap_example (Suc 0) = 3" "run gap_example 2 = 0"
    unfolding two by (simp_all add: gap_example_def layout_defs)
  then show ?thesis
    by (auto simp: heap_inv_def gap_example_def [THEN arg_cong [where f = sizeofarray]] less_2_cases_iff)
      (simp_all add: gap_example_def layout_defs)
qed


theorem malloc_best_fit_witness:
  "\<exists>p h' m. malloc_user 0x2000 gap_example = Inr (Some (p, h')) \<and> (uint p, m) \<in> gaps gap_example \<and> 2 \<le> m"
proof -
  have "(0x80000000, 3) \<in> gaps gap_example"
    unfolding gaps_def by (intro CollectI exI [of _ 1]) (simp add: gap_example_def layout_defs)
  then show ?thesis
    using malloc_best_fit [OF gap_example_inv, of 2 "0x2000" "0x80000000" 3] by (simp add: gap_example_def layout_defs) blast
qed

theorem free_correct_witness:
  "\<forall>s. \<exists>h'. free 0x80003000 gap_example s = bindE (sys_freeMem 0x80003000 0x1000 s) (\<lambda>(_, s'). Inr (h', s')) \<and> heap_inv h'"
proof -
  have "(uint (0x80003000 :: uint32), 1) \<in> used_blocks gap_example"
    unfolding used_blocks_def by (intro CollectI exI [of _ 1]) (simp add: gap_example_def)
  from free_correct [OF gap_example_inv this] show ?thesis by (simp add: layout_defs) blast
qed

text \<open>Before anything is freed nothing checks the end of the heap: the block after one that fills the heap
  starts at \<open>USER_HEAP_MAX\<close>.\<close>

lemma malloc_past_end:
  "\<exists>h. malloc_user (USER_HEAP_MAX - USER_HEAP_START) uheap_init = Inr (Some (USER_HEAP_START, h))
     \<and> (\<exists>h'. malloc_user 0x1000 h = Inr (Some (USER_HEAP_MAX, h')))"
  by (simp add: malloc_user_def uheap_init_def append_block_def pages_of_def layout_defs)

text \<open>After a block of one byte was taken from a gap, the next block of that gap is recorded under an address that is
  one byte behind the block before it, and \<open>free\<close> of the address that was returned is ignored.\<close>

lemma malloc_loses_block:
  "\<exists>h h'. malloc_user 1 gap_example = Inr (Some (0x80000000, h)) \<and> malloc_user 0x1000 h = Inr (Some (0x80001000, h'))
     \<and> (\<forall>s. free 0x80001000 h' s = Inr (h', s))"
proof -
  have u: "[0..<2] = [0, 1]" "[0..<3] = [0, 1, 2]" "[0..<4] = [0, 1, 2, 3]" by (simp_all add: upt_rec)
  let ?h = "gap_heap 1 1 0 0x80000000 gap_example" let ?h' = "gap_heap 0x1000 1 1 0x80001000 ?h"
  note ex = gap_heap_def split_entry_def gap_example_def
  have f: "find_gap gap_example 1 = Some (0, 0x80000000, 1)" "find_gap ?h 1 = Some (1, 0x80001000, 2)"
    by (simp_all add: find_gap_def gap_step_def ex u layout_defs)
  have "malloc_user 1 gap_example = Inr (Some (0x80000000, ?h))"
    using f(1) take_gap_eq [of 0 1 gap_example] by (simp add: malloc_user_def pages_of_def layout_defs) (simp add: ex)
  moreover have "malloc_user 0x1000 ?h = Inr (Some (0x80001000, ?h'))"
    using f(2) take_gap_eq [of 1 2 ?h] by (simp add: malloc_user_def pages_of_def layout_defs) (simp add: ex)
  moreover have "\<forall>s. free 0x80001000 ?h' s = Inr (?h', s)" by (simp add: free_def ex u)
  ultimately show ?thesis by blast
qed

end
