(* ===== verification/User_Library.thy ===== *)
theory User_Library
  imports Trap_Dispatch C_String
begin

text \<open>
  The user library without its heap: the stubs of the system calls (\<^verbatim>\<open>lib/syscall.c\<close>), which raise the system-call
  trap of \<open>Trap_Dispatch\<close>, the start and the end of a program (\<^verbatim>\<open>lib/libmain.c\<close>, \<^verbatim>\<open>lib/exit.c\<close>,
  \<^verbatim>\<open>lib/panic.c\<close>), and waiting (\<^verbatim>\<open>lib/concurrency.c\<close>). \<open>tf\<close> are the registers of the program when it
  executes the trap instruction, other than those that pass the arguments.
\<close>

section \<open>The system-call trap\<close>

text \<open>The trap gives control back to the caller, or the processor goes on elsewhere.\<close>

datatype 'a answer = Back 'a | Gone resumed

type_synonym 'a user = "hardware \<Rightarrow> trapframe \<Rightarrow> kernel \<Rightarrow> 'a answer result"

definition syscall_frame :: "sysno \<Rightarrow> uint32 \<Rightarrow> uint32 \<Rightarrow> uint32 \<Rightarrow> uint32 \<Rightarrow> uint32 \<Rightarrow> trapframe \<Rightarrow> trapframe" where
  "syscall_frame num a1 a2 a3 a4 a5 tf =
     tf\<lparr>reg_eax := of_nat (length (takeWhile (\<lambda>n. n \<noteq> num) sysnos)), reg_edx := a1, reg_ecx := a2, reg_ebx := a3,
        reg_edi := a4, reg_esi := a5, tf_trapno := T_SYSCALL\<rparr>"

text \<open>\<open>syscall\<close> of the library: the result is the register \<open>eax\<close> of the environment when it runs again.\<close>

definition syscall_user :: "sysno \<Rightarrow> uint32 \<Rightarrow> uint32 \<Rightarrow> uint32 \<Rightarrow> uint32 \<Rightarrow> uint32 \<Rightarrow> uint32 user" where
  "syscall_user num a1 a2 a3 a4 a5 hw tf s =
     bindE (trap hw (syscall_frame num a1 a2 a3 a4 a5 tf) s) (\<lambda>(k, s').
     case k of
       User e \<Rightarrow> if curenv s = Some e then Inr (Back (reg_eax (env_tf (envs s' e))), s') else Inr (Gone k, s')
     | _ \<Rightarrow> Inr (Gone k, s'))"

text \<open>Sequencing in the program; a program that is gone does nothing more.\<close>

definition bindU :: "'a user \<Rightarrow> ('a \<Rightarrow> 'b user) \<Rightarrow> 'b user" where
  "bindU m f hw tf s =
     bindE (m hw tf s) (\<lambda>(r, s). case r of Back v \<Rightarrow> f v hw tf s | Gone k \<Rightarrow> Inr (Gone k, s))"

definition retU :: "'a \<Rightarrow> 'a user" where
  "retU v hw tf s = Inr (Back v, s)"

definition void :: "uint32 user \<Rightarrow> unit user" where
  "void m = bindU m (\<lambda>_. retU ())"

definition as_int :: "uint32 user \<Rightarrow> int user" where
  "as_int m = bindU m (\<lambda>v. retU (sint v))"

section \<open>The stubs\<close>

text \<open>A parameter of a narrower type is widened to \<open>uint32\<close>, a \<open>char\<close> with its sign. An argument that a stub does not
  use is 0.\<close>

definition stub_sys_cputs :: "uint32 \<Rightarrow> uint32 \<Rightarrow> uint8 \<Rightarrow> unit user" where
  "stub_sys_cputs s len printProgName = void (syscall_user SYS_cputs s len (ucast printProgName) 0 0)"

definition stub_sys_cgetc :: "int user" where
  "stub_sys_cgetc = as_int (syscall_user SYS_cgetc 0 0 0 0 0)"

definition stub_sys_env_destroy :: "uint32 \<Rightarrow> int user" where
  "stub_sys_env_destroy envid = as_int (syscall_user SYS_env_destroy envid 0 0 0 0)"

definition stub_sys_getenvid :: "int user" where
  "stub_sys_getenvid = as_int (syscall_user SYS_getenvid 0 0 0 0 0)"

definition stub_sys_getenvindex :: "int user" where
  "stub_sys_getenvindex = as_int (syscall_user SYS_getenvindex 0 0 0 0 0)"

definition stub_sys_getparentenvid :: "int user" where
  "stub_sys_getparentenvid = as_int (syscall_user SYS_getparentenvid 0 0 0 0 0)"

definition stub_sys_env_exit :: "unit user" where
  "stub_sys_env_exit = void (syscall_user SYS_env_exit 0 0 0 0 0)"

definition stub_sys_allocate_page :: "uint32 \<Rightarrow> uint32 \<Rightarrow> int user" where
  "stub_sys_allocate_page va perm = as_int (syscall_user SYS_allocate_page va perm 0 0 0)"

definition stub_sys_map_frame :: "uint32 \<Rightarrow> uint32 \<Rightarrow> uint32 \<Rightarrow> uint32 \<Rightarrow> uint32 \<Rightarrow> int user" where
  "stub_sys_map_frame srcenv srcva dstenv dstva perm = as_int (syscall_user SYS_map_frame srcenv srcva dstenv dstva perm)"

definition stub_sys_unmap_frame :: "uint32 \<Rightarrow> uint32 \<Rightarrow> int user" where
  "stub_sys_unmap_frame envid va = as_int (syscall_user SYS_unmap_frame envid va 0 0 0)"

definition stub_sys_calculate_required_frames :: "uint32 \<Rightarrow> uint32 \<Rightarrow> uint32 user" where
  "stub_sys_calculate_required_frames start_va sz = syscall_user SYS_calc_req_frames start_va sz 0 0 0"

definition stub_sys_calculate_free_frames :: "uint32 user" where
  "stub_sys_calculate_free_frames = syscall_user SYS_calc_free_frames 0 0 0 0 0"

definition stub_sys_calculate_modified_frames :: "uint32 user" where
  "stub_sys_calculate_modified_frames = syscall_user SYS_calc_modified_frames 0 0 0 0 0"

definition stub_sys_calculate_notmod_frames :: "uint32 user" where
  "stub_sys_calculate_notmod_frames = syscall_user SYS_calc_notmod_frames 0 0 0 0 0"

definition stub_sys_freeMem :: "uint32 \<Rightarrow> uint32 \<Rightarrow> unit user" where
  "stub_sys_freeMem va sz = void (syscall_user SYS_freeMem va sz 0 0 0)"

definition stub_sys_allocateMem :: "uint32 \<Rightarrow> uint32 \<Rightarrow> unit user" where
  "stub_sys_allocateMem va sz = void (syscall_user SYS_allocateMem va sz 0 0 0)"

definition stub_sys_pf_calculate_allocated_pages :: "int user" where
  "stub_sys_pf_calculate_allocated_pages = as_int (syscall_user SYS_pf_calc_allocated_pages 0 0 0 0 0)"

definition stub_sys_calculate_pages_tobe_removed_ready_exit :: "uint32 \<Rightarrow> int user" where
  "stub_sys_calculate_pages_tobe_removed_ready_exit WS_or_MEMORY_flag = as_int (syscall_user SYS_calculate_pages_tobe_removed_ready_exit WS_or_MEMORY_flag 0 0 0 0)"

definition stub_sys_scarce_memory :: "unit user" where
  "stub_sys_scarce_memory = void (syscall_user SYS_scarce_memory 0 0 0 0 0)"

definition stub_sys_disable_interrupt :: "unit user" where
  "stub_sys_disable_interrupt = void (syscall_user SYS_disableINTR 0 0 0 0 0)"

definition stub_sys_enable_interrupt :: "unit user" where
  "stub_sys_enable_interrupt = void (syscall_user SYS_enableINTR 0 0 0 0 0)"

definition stub_sys_cputc :: "uint8 \<Rightarrow> unit user" where
  "stub_sys_cputc c = void (syscall_user SYS_cputc (scast c) 0 0 0 0)"

definition stub_sys_clear_ffl :: "unit user" where
  "stub_sys_clear_ffl = void (syscall_user SYS_clearFFL 0 0 0 0 0)"

definition stub_sys_createSemaphore :: "uint32 \<Rightarrow> uint32 \<Rightarrow> int user" where
  "stub_sys_createSemaphore semaphoreName initialValue = as_int (syscall_user SYS_create_semaphore semaphoreName initialValue 0 0 0)"

definition stub_sys_getSemaphoreValue :: "uint32 \<Rightarrow> uint32 \<Rightarrow> int user" where
  "stub_sys_getSemaphoreValue ownerEnvID semaphoreName = as_int (syscall_user SYS_get_semaphore_value ownerEnvID semaphoreName 0 0 0)"

definition stub_sys_waitSemaphore :: "uint32 \<Rightarrow> uint32 \<Rightarrow> unit user" where
  "stub_sys_waitSemaphore ownerEnvID semaphoreName = void (syscall_user SYS_wait_semaphore ownerEnvID semaphoreName 0 0 0)"

definition stub_sys_signalSemaphore :: "uint32 \<Rightarrow> uint32 \<Rightarrow> unit user" where
  "stub_sys_signalSemaphore ownerEnvID semaphoreName = void (syscall_user SYS_signal_semaphore ownerEnvID semaphoreName 0 0 0)"

definition stub_sys_createSharedObject :: "uint32 \<Rightarrow> uint32 \<Rightarrow> uint8 \<Rightarrow> uint32 \<Rightarrow> int user" where
  "stub_sys_createSharedObject shareName sz isWritable va = as_int (syscall_user SYS_create_shared_object shareName sz (ucast isWritable) va 0)"

definition stub_sys_getSizeOfSharedObject :: "uint32 \<Rightarrow> uint32 \<Rightarrow> int user" where
  "stub_sys_getSizeOfSharedObject ownerID shareName = as_int (syscall_user SYS_get_size_of_shared_object ownerID shareName 0 0 0)"

definition stub_sys_getSharedObject :: "uint32 \<Rightarrow> uint32 \<Rightarrow> uint32 \<Rightarrow> int user" where
  "stub_sys_getSharedObject ownerID shareName va = as_int (syscall_user SYS_get_shared_object ownerID shareName va 0 0)"

definition stub_sys_freeSharedObject :: "uint32 \<Rightarrow> uint32 \<Rightarrow> int user" where
  "stub_sys_freeSharedObject sharedObjectID startVA = as_int (syscall_user SYS_free_shared_object sharedObjectID startVA 0 0 0)"

definition stub_sys_getMaxShares :: "uint32 user" where
  "stub_sys_getMaxShares = syscall_user SYS_get_max_shares 0 0 0 0 0"

definition stub_sys_create_env :: "uint32 \<Rightarrow> uint32 \<Rightarrow> uint32 \<Rightarrow> uint32 \<Rightarrow> int user" where
  "stub_sys_create_env programName page_WS_size LRU_second_list_size percent = as_int (syscall_user SYS_create_env programName page_WS_size LRU_second_list_size percent 0)"

definition stub_sys_run_env :: "uint32 \<Rightarrow> unit user" where
  "stub_sys_run_env envId = void (syscall_user SYS_run_env envId 0 0 0 0)"

definition stub_sys_free_env :: "uint32 \<Rightarrow> unit user" where
  "stub_sys_free_env envId = void (syscall_user SYS_free_env envId 0 0 0 0)"

definition stub_sys_moveMem :: "uint32 \<Rightarrow> uint32 \<Rightarrow> uint32 \<Rightarrow> unit user" where
  "stub_sys_moveMem src dst sz = void (syscall_user SYS_moveMem src dst sz 0 0)"

definition stub_sys_rcr2 :: "uint32 user" where
  "stub_sys_rcr2 = syscall_user SYS_rcr2 0 0 0 0 0"

definition stub_sys_bypassPageFault :: "uint8 \<Rightarrow> unit user" where
  "stub_sys_bypassPageFault instrLength = void (syscall_user SYS_bypassPageFault (ucast instrLength) 0 0 0 0)"

definition stub_rsttst :: "unit user" where
  "stub_rsttst = void (syscall_user SYS_rsttst 0 0 0 0 0)"

definition stub_tst :: "uint32 \<Rightarrow> uint32 \<Rightarrow> uint32 \<Rightarrow> uint8 \<Rightarrow> uint32 \<Rightarrow> unit user" where
  "stub_tst n v1 v2 c i = void (syscall_user SYS_testNum n v1 v2 (scast c) i)"

definition stub_chktst :: "uint32 \<Rightarrow> unit user" where
  "stub_chktst n = void (syscall_user SYS_chktst n 0 0 0 0)"

definition stub_inctst :: "unit user" where
  "stub_inctst = void (syscall_user SYS_inctst 0 0 0 0 0)"

definition stub_gettst :: "uint32 user" where
  "stub_gettst = syscall_user SYS_gettst 0 0 0 0 0"

definition stub_sys_set_uheap_strategy :: "uint32 \<Rightarrow> unit user" where
  "stub_sys_set_uheap_strategy heapStrategy = void (syscall_user SYS_set_heap_strategy heapStrategy 0 0 0 0)"

definition stub_sys_check_LRU_lists :: "uint32 \<Rightarrow> uint32 \<Rightarrow> uint32 \<Rightarrow> uint32 \<Rightarrow> int user" where
  "stub_sys_check_LRU_lists active_list_content second_list_content actual_active_list_size actual_second_list_size = as_int (syscall_user SYS_check_LRU_lists active_list_content second_list_content actual_active_list_size actual_second_list_size 0)"

definition stub_sys_check_LRU_lists_free :: "uint32 \<Rightarrow> uint32 \<Rightarrow> int user" where
  "stub_sys_check_LRU_lists_free list_content list_size = as_int (syscall_user SYS_check_LRU_lists_free list_content list_size 0 0 0)"

definition stub_sys_isUHeapPlacementStrategyFIRSTFIT :: "uint32 user" where
  "stub_sys_isUHeapPlacementStrategyFIRSTFIT = bindU (syscall_user SYS_get_heap_strategy 0 0 0 0 0) (\<lambda>r. retU (if r = UHP_PLACE_FIRSTFIT then 1 else 0))"

definition stub_sys_isUHeapPlacementStrategyBESTFIT :: "uint32 user" where
  "stub_sys_isUHeapPlacementStrategyBESTFIT = bindU (syscall_user SYS_get_heap_strategy 0 0 0 0 0) (\<lambda>r. retU (if r = UHP_PLACE_BESTFIT then 1 else 0))"

definition stub_sys_isUHeapPlacementStrategyNEXTFIT :: "uint32 user" where
  "stub_sys_isUHeapPlacementStrategyNEXTFIT = bindU (syscall_user SYS_get_heap_strategy 0 0 0 0 0) (\<lambda>r. retU (if r = UHP_PLACE_NEXTFIT then 1 else 0))"

definition stub_sys_isUHeapPlacementStrategyWORSTFIT :: "uint32 user" where
  "stub_sys_isUHeapPlacementStrategyWORSTFIT = bindU (syscall_user SYS_get_heap_strategy 0 0 0 0 0) (\<lambda>r. retU (if r = UHP_PLACE_WORSTFIT then 1 else 0))"

text \<open>\<open>result\<close> is the address of the local variable on the stack; the program reads it through its page tables.\<close>

definition stub_sys_get_virtual_time :: "uint32 \<Rightarrow> (uint32 \<times> uint32) user" where
  "stub_sys_get_virtual_time result' =
     bindU (syscall_user SYS_get_virtual_time result' (result' + 4) 0 0 0) (\<lambda>_ hw tf s.
     bindE (cpu_load_word result' s) (\<lambda>(low, s).
     bindE (cpu_load_word (result' + 4) s) (\<lambda>(hi, s). Inr (Back (low, hi), s))))"

section \<open>Start and end of a program\<close>

definition destroy :: "unit user" where
  "destroy = bindU (stub_sys_env_destroy 0) (\<lambda>_. retU ())"

definition exit :: "unit user" where
  "exit = stub_sys_env_exit"

text \<open>\<open>main\<close> is the program; what \<open>libmain\<close> prints at the end is left out, and so is the name for \<open>panic\<close>.\<close>

definition libmain :: "(nat \<Rightarrow> unit user) \<Rightarrow> unit user" where
  "libmain main =
     bindU stub_sys_getenvindex (\<lambda>envIndex.
     bindU (main (nat envIndex)) (\<lambda>_.
     bindU stub_sys_disable_interrupt (\<lambda>_.
     bindU stub_sys_enable_interrupt (\<lambda>_. exit))))"

text \<open>\<open>_panic\<close> prints, exits, and would loop for ever if \<open>exit\<close> returned.\<close>

definition panic_user :: "unit user" where
  "panic_user = bindU exit (\<lambda>_ hw tf s. Inl OutOfFuel)"

text \<open>The first loop body that finds no page and the final comparison both panic.\<close>

definition CheckWSWithoutLastIndex :: "uint32 list \<Rightarrow> env \<Rightarrow> bool" where
  "CheckWSWithoutLastIndex expectedPages myEnv =
     (let n = page_WS_max_size myEnv; pws = ptr_pageWorkingSet myEnv in
      length expectedPages = n
      \<and> list_all (\<lambda>v. v = 0 \<or> list_ex (\<lambda>w. ws_empty (pws w) = 0 \<and> ROUNDDOWN (ws_va (pws w)) PAGE_SIZE = v) [0..<n]) expectedPages
      \<and> length (filter (\<lambda>v. v = 0) expectedPages) = length (filter (\<lambda>w. ws_empty (pws w) = 1) [0..<n]))"

section \<open>Waiting\<close>

definition CYCLES_PER_MILLISEC :: uint32 where "CYCLES_PER_MILLISEC = 10000"

text \<open>The times that the calls of \<open>sys_get_virtual_time\<close> return, low and high words, are a list; the result are the times left
  when the loop ends. The high word of the difference is computed and not used.\<close>

fun env_sleep_loop :: "uint32 \<Rightarrow> uint32 \<Rightarrow> uint32 \<times> uint32 \<Rightarrow> (uint32 \<times> uint32) list \<Rightarrow> (uint32 \<times> uint32) list option" where
  "env_sleep_loop cycles_counter time_in_cycles base readings =
     (if cycles_counter < time_in_cycles then
        (case readings of
           [] \<Rightarrow> None
         | t # readings \<Rightarrow> env_sleep_loop (fst t - fst base) time_in_cycles base readings)
      else Some readings)"

definition env_sleep :: "uint32 \<Rightarrow> (uint32 \<times> uint32) list \<Rightarrow> (uint32 \<times> uint32) list option" where
  "env_sleep approxMilliSeconds readings =
     (case readings of
        [] \<Rightarrow> None
      | base # readings \<Rightarrow> env_sleep_loop 0 (approxMilliSeconds * CYCLES_PER_MILLISEC) base readings)"

function busy_wait_loop :: "uint32 \<Rightarrow> uint32 \<Rightarrow> uint32" where
  "busy_wait_loop i loopMax = (if i < loopMax then busy_wait_loop (i + 1) loopMax else i)"
  by auto

termination busy_wait_loop
  by (relation "measure (\<lambda>(i, m). unat m - unat i)") (auto simp: word_less_nat_alt word_Suc_less intro!: diff_less_mono2)

declare busy_wait_loop.simps [simp del]

definition busy_wait :: "uint32 \<Rightarrow> uint32" where
  "busy_wait loopMax = busy_wait_loop 0 loopMax"

section \<open>A system call\<close>

lemma sysno_index: "length (takeWhile (\<lambda>n. n \<noteq> num) sysnos) < length sysnos"
    "sysnos ! length (takeWhile (\<lambda>n. n \<noteq> num) sysnos) = num"
proof -
  have m: "num \<in> set sysnos" using sysnos_all(1) sysnos_all(3) [of num] by (auto simp: in_set_conv_nth)
  have "length (takeWhile (\<lambda>n. n \<noteq> num) xs) < length xs" if "num \<in> set xs" for xs
    using that by (induction xs) auto
  from this [OF m] show l: "length (takeWhile (\<lambda>n. n \<noteq> num) sysnos) < length sysnos" .
  show "sysnos ! length (takeWhile (\<lambda>n. n \<noteq> num) sysnos) = num" using nth_length_takeWhile [OF l] by simp
qed

text \<open>The kernel that the call sees: the timer is stopped and the registers of the program are saved.\<close>

definition trapped :: "nat \<Rightarrow> trapframe \<Rightarrow> kernel \<Rightarrow> kernel" where
  "trapped c tf s = upd_env c (\<lambda>en. en\<lparr>env_tf := tf\<rparr>) (kclock_stop s)"

definition resumed_with :: "nat \<Rightarrow> uint32 \<Rightarrow> kernel \<Rightarrow> kernel" where
  "resumed_with c v s = env_run c (upd_env c (\<lambda>en. en\<lparr>env_tf := (env_tf en)\<lparr>reg_eax := v\<rparr>\<rparr>) s)"

text \<open>A call that leaves the caller running returns the value of the kernel's operation.\<close>

lemma syscall_user_returns:
  assumes tf: "tf_cs tf AND 3 = 3" and c: "curenv s = Some c"
    and k: "call hw num a1 a2 a3 a4 a5 (trapped c (syscall_frame num a1 a2 a3 a4 a5 tf) s) = Inr (Ret v, s1)"
    and s1: "curenv s1 = Some c" "env_status (envs s1 c) = ENV_RUNNABLE"
  shows "syscall_user num a1 a2 a3 a4 a5 hw tf s = Inr (Back v, resumed_with c v s1)"
proof -
  let ?tf = "syscall_frame num a1 a2 a3 a4 a5 tf"
  let ?n = "length (takeWhile (\<lambda>n. n \<noteq> num) sysnos)"
  have n: "unat (of_nat ?n :: uint32) = ?n" 
    using sysno_index(1) [of num] sysnos_all(1) by (simp add: unsigned_of_nat take_bit_nat_eq_self)
  have t: "tf_trapno ?tf = T_SYSCALL" "tf_cs ?tf AND 3 = 3" using tf by (simp_all add: syscall_frame_def)
  have ne: "T_SYSCALL \<noteq> T_PGFLT" "T_SYSCALL \<noteq> IRQ0_Clock" by (simp_all add: T_SYSCALL_def T_PGFLT_def IRQ0_Clock_def)
  have c': "curenv (kclock_stop s) = Some c" using kclock_stop_frame [of s] c by auto
  have tr: "env_tf (envs (trapped c ?tf s) c) = ?tf" by (simp add: trapped_def upd_env_def)
  have sc: "syscall hw (reg_eax ?tf) (reg_edx ?tf) (reg_ecx ?tf) (reg_ebx ?tf) (reg_edi ?tf) (reg_esi ?tf) (trapped c ?tf s)
      = Inr (Ret v, s1)"
    using k n sysno_index [of num] by (simp add: syscall_def syscall_frame_def)
  let ?s2 = "upd_env c (\<lambda>en. en\<lparr>env_tf := (env_tf en)\<lparr>reg_eax := v\<rparr>\<rparr>) s1"
  have d: "trap_dispatch hw (Saved c) (trapped c ?tf s) = Inr (Ret (Saved c), ?s2)"
    using tr t ne sc by (simp add: trap_dispatch_def frame_at_def upd_frame_def)
  have s2: "curenv ?s2 = Some c" "env_status (envs ?s2 c) = ENV_RUNNABLE" using s1 by (simp_all add: upd_env_def)
  have "trap hw ?tf s = Inr (User c, env_run c ?s2)"
    using t ne c' d s2 by (simp add: trap_def trapped_def [symmetric] run_cur_def Let_def)
  moreover have "reg_eax (env_tf (envs (env_run c ?s2) c)) = v" by (simp add: env_run_frame upd_env_def)
  ultimately show ?thesis using c by (simp add: syscall_user_def resumed_with_def)
qed

section \<open>Reserving memory from a program\<close>

text \<open>What the return to the program depends on.\<close>

definition caller_view :: "kernel \<Rightarrow> nat option \<times> (nat \<Rightarrow> trapframe \<times> uint32)" where
  "caller_view s = (curenv s, \<lambda>c. (env_tf (envs s c), env_status (envs s c)))"

lemma caller_view_simps [simp]:
  "caller_view (s\<lparr>free_frame_list := l\<rparr>) = caller_view s" "caller_view (s\<lparr>disk_free_frame_list := dl\<rparr>) = caller_view s"
  "caller_view (upd_fi f h s) = caller_view s" "caller_view (wr f i v s) = caller_view s" "caller_view (wr_page f p s) = caller_view s"
  by (simp_all add: caller_view_def upd_fi_def wr_def wr_page_def)

lemma get_disk_page_directory_total:
  assumes ok: "pf_ok s e" and "1 \<le> length (free_frame_list s)"
  shows "\<exists>r s1. get_disk_page_directory e s = Inr (r, s1) \<and> caller_view s1 = caller_view s
    \<and> length (free_frame_list s) \<le> length (free_frame_list s1) + 1"
proof (cases "disk_env_pgdir (envs s e)")
  case (Some dd)
  then show ?thesis by (simp add: get_disk_page_directory_def)
next
  case None
  have fr: "frames_ok s" using ok by (simp add: pf_ok_def)
  obtain f fs where f: "free_frame_list s = f # fs" using assms(2) by (cases "free_frame_list s") auto
  note a = allocate_frame_Cons [OF fr f]
  note al = allocate_frame_Inr [OF fr a]
  have sk: "STATIC_KERNEL_VIRTUAL_ADDRESS (to_physical_address f) (upd_fi f h (s\<lparr>free_frame_list := fs\<rparr>)) = Inr f" for h
    by (rule SKVA_frame) (use al(3,4) in \<open>simp_all add: frames_ok_def\<close>)
  show ?thesis
    using None a sk f by (auto simp: get_disk_page_directory_def Let_def caller_view_def upd_env_def upd_fi_def wr_page_def)
qed

lemma get_disk_page_table_total:
  assumes dd: "dd_ok s dd" and fr: "frames_ok s" and n: "1 \<le> length (free_frame_list s)"
  shows "\<exists>t s1. get_disk_page_table dd va True s = Inr (Some t, s1) \<and> caller_view s1 = caller_view s
    \<and> length (free_frame_list s) \<le> length (free_frame_list s1) + 1"
proof (cases "rd s dd (pdx va) = 0")
  case False
  have "STATIC_KERNEL_VIRTUAL_ADDRESS (EXTRACT_ADDRESS (rd s dd (pdx va))) s = Inr (tbl s dd (pdx va))"
    using dd_okD(1) [OF dd pdx_less False] by (simp add: STATIC_KERNEL_VIRTUAL_ADDRESS_def tbl_def)
  then show ?thesis using False by (simp add: get_disk_page_table_def Let_def)
next
  case True
  have N0: "0 < number_of_frames s" using dd by (auto simp: dd_ok_def)
  have sk0: "STATIC_KERNEL_VIRTUAL_ADDRESS (EXTRACT_ADDRESS (rd s dd (pdx va))) s = Inr 0"
    using True N0 by (simp add: STATIC_KERNEL_VIRTUAL_ADDRESS_def EXTRACT_ADDRESS_def PPN_def)
  obtain f fs where f: "free_frame_list s = f # fs" using n by (cases "free_frame_list s") auto
  note a = allocate_frame_Cons [OF fr f]
  note al = allocate_frame_Inr [OF fr a]
  have sk: "STATIC_KERNEL_VIRTUAL_ADDRESS (to_physical_address f) (s\<lparr>free_frame_list := fs\<rparr>) = Inr f"
    by (rule SKVA_frame) (use al(3,4) in \<open>simp_all add: frames_ok_def\<close>)
  show ?thesis using True sk0 a sk f by (simp add: get_disk_page_table_def Let_def)
qed

lemma pf_get_dfn_total:
  assumes ok: "pf_ok s e" and n: "2 \<le> length (free_frame_list s)"
  shows "\<exists>r s'. pf_get_dfn e va s = Inr (r, s') \<and> caller_view s' = caller_view s
    \<and> length (free_frame_list s) \<le> length (free_frame_list s') + 2"
proof -
  obtain r1 s1 where g1: "get_disk_page_directory e s = Inr (r1, s1)" "caller_view s1 = caller_view s"
    "length (free_frame_list s) \<le> length (free_frame_list s1) + 1"
    using get_disk_page_directory_total [OF ok] n by auto
  obtain dd where dd: "disk_env_pgdir (envs s1 e) = Some dd" "dd_ok s1 dd" "frames_ok s1" "disk_list_ok s1"
    using get_disk_page_directory_ok [OF ok g1(1)] by blast
  obtain t s2 where g2: "get_disk_page_table dd va True s1 = Inr (Some t, s2)" "caller_view s2 = caller_view s1"
    "length (free_frame_list s1) \<le> length (free_frame_list s2) + 1"
    using get_disk_page_table_total [OF dd(2,3)] g1(3) n by fastforce
  obtain r dfn s3 where g3: "allocate_disk_frame (rd s2 t (ptx va)) s2 = Inr ((r, dfn), s3)" "caller_view s3 = caller_view s2"
    "free_frame_list s3 = free_frame_list s2"
    by (cases "disk_free_frame_list s2") (auto simp: allocate_disk_frame_def lst_remove_def)
  have w: "free_frame_list (wr t j d s3) = free_frame_list s3" for j d by (simp add: wr_def)
  show ?thesis using g1 dd(1) g2 g3 w by (auto simp: pf_get_dfn_def Let_def)
qed

lemma allocateMem_fold_total:
  assumes "pf_ok s e" and "2 * length xs \<le> length (free_frame_list s)" and "\<forall>i \<in> set xs. va + of_nat i * PAGE_SIZE < KERNEL_BASE"
  shows "\<exists>s'. foldE (\<lambda>i s. bindE (pf_add_empty_env_page e (va + of_nat i * PAGE_SIZE) False s) (\<lambda>(_, s). Inr s)) xs s = Inr s'
    \<and> caller_view s' = caller_view s"
  using assms
proof (induction xs arbitrary: s)
  case (Cons i xs)
  let ?va = "va + of_nat i * PAGE_SIZE"
  obtain r s1 where g: "pf_get_dfn e ?va s = Inr (r, s1)" "caller_view s1 = caller_view s"
    "length (free_frame_list s) \<le> length (free_frame_list s1) + 2"
    using pf_get_dfn_total [OF Cons.prems(1), of ?va] Cons.prems(2) by auto
  then obtain r' where a: "pf_add_empty_env_page e ?va False s = Inr (r', s1)"
    using Cons.prems(3) by (cases r) (auto simp: pf_add_empty_env_page_def)
  have "2 * length xs \<le> length (free_frame_list s1)" using g(3) Cons.prems(2) by simp
  then obtain s' where "foldE (\<lambda>i s. bindE (pf_add_empty_env_page e (va + of_nat i * PAGE_SIZE) False s) (\<lambda>(_, s). Inr s)) xs s1 = Inr s'"
    "caller_view s' = caller_view s1"
    using Cons.IH [of s1] pf_get_dfn_ok(1) [OF Cons.prems(1) g(1)] Cons.prems(3) by auto
  then show ?case using a g(2) by simp
qed simp

lemma pf_cong:
  assumes "pmem s' = pmem s" "number_of_frames s' = number_of_frames s" "free_frame_list s' = free_frame_list s"
    "frames_info s' = frames_info s" "disk_free_frame_list s' = disk_free_frame_list s" "disk s' = disk s"
    "disk_env_pgdir (envs s' e) = disk_env_pgdir (envs s e)"
  shows "pf_ok s' e = pf_ok s e" "pf_content s' e v = pf_content s e v"
proof -
  have r: "rd s' = rd s" using assms(1) by (simp add: fun_eq_iff rd_def)
  then have t: "tbl s' = tbl s" by (simp add: fun_eq_iff tbl_def)
  have p: "pte_at s' = pte_at s" by (simp add: fun_eq_iff pte_at_def r t)
  have d: "disk_page s' = disk_page s" using assms(6) by (simp add: fun_eq_iff disk_page_def)
  show "pf_ok s' e = pf_ok s e"
    using assms(2-7) by (simp add: pf_ok_def frames_ok_def disk_list_ok_def dd_ok_def r t p cong: option.case_cong)
  show "pf_content s' e v = pf_content s e v"
    unfolding pf_content_def pf_dfn_def assms(7) p d by (rule refl)
qed

lemma trapped_pf: "pf_ok (trapped c tf s) e = pf_ok s e" "pf_content (trapped c tf s) e v = pf_content s e v"
  "free_frame_list (trapped c tf s) = free_frame_list s" "caller_view (trapped c tf s) = (curenv s, \<lambda>x. (if x = c then tf else env_tf (envs s x), env_status (envs s x)))"
proof -
  obtain t where t: "trapped c tf s = upd_env c (\<lambda>en. en\<lparr>env_tf := tf\<rparr>) (s\<lparr>clock := t\<rparr>)"
    using kclock_stop_frame [of s] by (auto simp: trapped_def)
  show "pf_ok (trapped c tf s) e = pf_ok s e" by (rule pf_cong) (simp_all add: t upd_env_def)
  show "pf_content (trapped c tf s) e v = pf_content s e v" by (rule pf_cong) (simp_all add: t upd_env_def)
  show "free_frame_list (trapped c tf s) = free_frame_list s" by (simp add: t upd_env_def)
  show "caller_view (trapped c tf s) = (curenv s, \<lambda>x. (if x = c then tf else env_tf (envs s x), env_status (envs s x)))"
    by (auto simp: t upd_env_def caller_view_def)
qed

lemma resumed_pf: "pf_ok (resumed_with c v s) e = pf_ok s e" "pf_content (resumed_with c v s) e w = pf_content s e w"
  "disk_free_frame_list (resumed_with c v s) = disk_free_frame_list s"
  "env_tf (envs (resumed_with c v s) c) = (env_tf (envs s c))\<lparr>reg_eax := v\<rparr>"
proof -
  let ?u = "upd_env c (\<lambda>en. en\<lparr>env_tf := (env_tf en)\<lparr>reg_eax := v\<rparr>\<rparr>) s"
  obtain t where t: "resumed_with c v s = upd_env c (\<lambda>en. en\<lparr>env_status := ENV_RUNNABLE\<rparr>)
    (if curenv ?u \<noteq> Some c then
       let s = upd_env c (\<lambda>en. en\<lparr>env_runs := env_runs en + 1\<rparr>) (?u\<lparr>curenv := Some c\<rparr>)
       in s\<lparr>cr3 := env_cr3 (envs s c)\<rparr> else ?u)\<lparr>clock := t\<rparr>"
    unfolding resumed_with_def using kclock_resume_frame by (auto simp: env_run_def Let_def)
  show "pf_ok (resumed_with c v s) e = pf_ok s e" by (rule pf_cong) (simp_all add: t upd_env_def Let_def)
  show "pf_content (resumed_with c v s) e w = pf_content s e w" by (rule pf_cong) (simp_all add: t upd_env_def Let_def)
  show "disk_free_frame_list (resumed_with c v s) = disk_free_frame_list s" by (simp add: t upd_env_def Let_def)
  show "env_tf (envs (resumed_with c v s) c) = (env_tf (envs s c))\<lparr>reg_eax := v\<rparr>"
    by (simp add: resumed_with_def env_run_frame upd_env_def)
qed

text \<open>C12: a program that calls \<open>sys_allocateMem\<close> goes through the trap, and when two frames per page are free it gets
  control back with its registers, except \<open>eax\<close>, as it passed them; every page of the range is then in its page
  file, unless that is used up, and pages that were there keep their contents.\<close>

theorem sys_allocateMem_from_user:
  assumes "tf_cs tf AND 3 = 3" and "curenv s = Some c" and "env_status (envs s c) = ENV_RUNNABLE" and "pf_ok s c"
    and "2 * (unat sz div 4096 + 1) \<le> length (free_frame_list s)"
    and "\<forall>i \<le> unat sz div 4096. va + of_nat i * PAGE_SIZE < KERNEL_BASE"
  shows "\<exists>s'. stub_sys_allocateMem va sz hw tf s = Inr (Back (), s') \<and> pf_ok s' c
    \<and> env_tf (envs s' c) = (syscall_frame SYS_allocateMem va sz 0 0 0 tf)\<lparr>reg_eax := 0\<rparr>
    \<and> (\<forall>i. i * 4096 < unat sz \<longrightarrow> disk_free_frame_list s' \<noteq> [] \<longrightarrow> pf_content s' c (va + of_nat i * PAGE_SIZE) \<noteq> None)
    \<and> (\<forall>v p. pf_content s c v = Some p \<longrightarrow> pf_content s' c v = Some p)"
proof -
  let ?tf = "syscall_frame SYS_allocateMem va sz 0 0 0 tf"
  let ?s = "trapped c ?tf s"
  define n where "n = (if sz mod PAGE_SIZE \<noteq> 0 then unat (sz div PAGE_SIZE) + 1 else unat (sz div PAGE_SIZE))"
  have n: "n \<le> unat sz div 4096 + 1" by (simp add: n_def PAGE_SIZE_def unat_div_distrib)
  have ok: "pf_ok ?s c" using assms(4) by (simp add: trapped_pf)
  obtain s1 where f: "foldE (\<lambda>i s. bindE (pf_add_empty_env_page c (va + of_nat i * PAGE_SIZE) False s) (\<lambda>(_, s). Inr s)) [0..<n] ?s = Inr s1"
    "caller_view s1 = caller_view ?s"
    using allocateMem_fold_total [OF ok, of "[0..<n]" va] assms(5,6) n by (fastforce simp: trapped_pf)
  then have a: "allocateMem c va sz ?s = Inr ((), s1)" by (simp add: allocateMem_def n_def Let_def)
  have cv: "curenv s1 = Some c" "env_tf (envs s1 c) = ?tf" "env_status (envs s1 c) = ENV_RUNNABLE" "curenv ?s = Some c"
    using f(2) trapped_pf(4) [of c ?tf s] assms(2,3) by (auto simp: caller_view_def fun_eq_iff)
  have k: "call hw SYS_allocateMem va sz 0 0 0 ?s = Inr (Ret 0, s1)"
    using a cv(4) by (simp add: call_def ret_0_def sys_allocateMem_def)
  have "stub_sys_allocateMem va sz hw tf s = Inr (Back (), resumed_with c 0 s1)"
    using syscall_user_returns [OF assms(1,2) k cv(1,3)] by (simp add: stub_sys_allocateMem_def void_def bindU_def retU_def)
  then show ?thesis
    using allocateMem_reserves [OF ok a] cv(2) by (auto simp: resumed_pf trapped_pf)
qed

definition calling_machine :: kernel where
  "calling_machine = upd_env 0 (\<lambda>en. en\<lparr>env_status := ENV_RUNNABLE\<rparr>) (tiny\<lparr>curenv := Some 0\<rparr>)"

definition user_frame :: trapframe where
  "user_frame = (env_tf (envs tiny 0))\<lparr>tf_cs := 0x1B\<rparr>"

theorem sys_allocateMem_from_user_witness:
  "\<forall>hw. \<exists>s'. stub_sys_allocateMem 0x80000000 4096 hw user_frame calling_machine = Inr (Back (), s') \<and> pf_ok s' 0"
proof
  fix hw
  have "pf_ok calling_machine 0 = pf_ok tiny 0"
    by (rule pf_cong) (simp_all add: calling_machine_def upd_env_def)
  then have ok: "pf_ok calling_machine 0" using tiny_pf_ok by simp
  have m: "curenv calling_machine = Some 0" "env_status (envs calling_machine 0) = ENV_RUNNABLE"
    "length (free_frame_list calling_machine) = 12" "tf_cs user_frame AND 3 = 3"
    by (simp_all add: calling_machine_def user_frame_def upd_env_def tiny_def)
  have "0x80000000 + of_nat i * PAGE_SIZE < KERNEL_BASE" if "i \<le> 1" for i
    using that by (cases i) (simp_all add: PAGE_SIZE_def layout_defs)
  then show "\<exists>s'. stub_sys_allocateMem 0x80000000 4096 hw user_frame calling_machine = Inr (Back (), s') \<and> pf_ok s' 0"
    using sys_allocateMem_from_user [OF m(4,1,2) ok, of 4096 "0x80000000" hw] m(3) by auto
qed

section \<open>Waiting and checking\<close>

text \<open>\<open>env_sleep\<close> returns at the first reading of the clock that lies far enough behind the first one.\<close>

lemma env_sleep_loop_dropWhile:
  "c < n \<Longrightarrow> env_sleep_loop c n base ts =
     (case dropWhile (\<lambda>t. fst t - fst base < n) ts of [] \<Rightarrow> None | _ # rest \<Rightarrow> Some rest)"
proof (induction ts arbitrary: c)
  case (Cons t ts)
  then show ?case by (cases "fst t - fst base < n") simp_all
qed simp

lemma env_sleep_correct:
  assumes "0 < unat ms" "unat ms * 10000 < 2 ^ 32"
  shows "env_sleep ms (base # ts) =
    (case dropWhile (\<lambda>t. unat (fst t - fst base) < unat ms * 10000) ts of [] \<Rightarrow> None | _ # rest \<Rightarrow> Some rest)"
proof -
  have n: "unat (ms * CYCLES_PER_MILLISEC) = unat ms * 10000"
    using assms(2) by (simp add: CYCLES_PER_MILLISEC_def unat_word_ariths)
  then have "0 < ms * CYCLES_PER_MILLISEC" using assms(1) by (simp add: word_less_nat_alt)
  then show ?thesis
    by (simp add: env_sleep_def env_sleep_loop_dropWhile word_less_nat_alt n del: env_sleep_loop.simps)
qed

text \<open>From 429497 ms on, the number of cycles wraps around: this call waits for 2704 cycles, a quarter of a millisecond.\<close>

lemma env_sleep_overflow: "env_sleep 429497 [(0, 0), (2704, 0)] = Some []"
  by (simp add: env_sleep_def CYCLES_PER_MILLISEC_def)

lemma busy_wait_counts: "busy_wait n = n"
proof -
  have "busy_wait_loop i m = m" if "i \<le> m" for i m
    using that
  proof (induction i m rule: busy_wait_loop.induct)
    case (1 i m)
    show ?case
    proof (cases "i < m")
      case True
      then have "i + 1 \<le> m" by (simp add: word_le_nat_alt word_less_nat_alt word_Suc_less)
      then show ?thesis using 1 True by (subst busy_wait_loop.simps) simp
    next
      case False
      then show ?thesis using 1 by (subst busy_wait_loop.simps) simp
    qed
  qed
  then show ?thesis by (simp add: busy_wait_def)
qed

text \<open>On a list of different pages with zeros behind them, and a working set without a page twice,
  \<open>CheckWSWithoutLastIndex\<close> compares the sets.\<close>

lemma CheckWS_compares:
  assumes len: "length expected = page_WS_max_size env" and d: "distinct (filter (\<lambda>v. v \<noteq> 0) expected)"
  defines "n \<equiv> page_WS_max_size env" and "page \<equiv> (\<lambda>w. ROUNDDOWN (ws_va (ptr_pageWorkingSet env w)) PAGE_SIZE)"
    and "used \<equiv> filter (\<lambda>w. ws_empty (ptr_pageWorkingSet env w) = 0) [0..<page_WS_max_size env]"
  assumes flag: "\<forall>w<n. ws_empty (ptr_pageWorkingSet env w) = 0 \<or> ws_empty (ptr_pageWorkingSet env w) = 1"
    and inj: "inj_on page (set used)" and nz: "0 \<notin> page ` set used"
  shows "CheckWSWithoutLastIndex expected env \<longleftrightarrow> set expected - {0} = page ` set used"
proof -
  let ?e = "filter (\<lambda>v. v \<noteq> 0) expected"
  have es: "set ?e = set expected - {0}" by auto
  have le: "length ?e + length (filter (\<lambda>v. v = 0) expected) = n"
    using sum_length_filter_compl [of "\<lambda>v. v = 0" expected] len by (simp add: n_def)
  have "filter (\<lambda>w. ws_empty (ptr_pageWorkingSet env w) = 1) [0..<n] = filter (\<lambda>w. \<not> ws_empty (ptr_pageWorkingSet env w) = 0) [0..<n]"
    by (rule filter_cong) (use flag in auto)
  then have lu: "length used + length (filter (\<lambda>w. ws_empty (ptr_pageWorkingSet env w) = 1) [0..<n]) = n"
    using sum_length_filter_compl [of "\<lambda>w. ws_empty (ptr_pageWorkingSet env w) = 0" "[0..<n]"] by (simp add: used_def n_def)
  have cu: "card (page ` set used) = length used"
    using card_image [OF inj] distinct_card [of used] by (simp add: used_def)
  have ce: "card (set expected - {0}) = length ?e" using distinct_card [OF d] es by simp
  have sub: "list_all (\<lambda>v. v = 0 \<or> list_ex (\<lambda>w. ws_empty (ptr_pageWorkingSet env w) = 0 \<and> page w = v) [0..<n]) expected
      \<longleftrightarrow> set expected - {0} \<subseteq> page ` set used"
  proof -
    have "list_ex (\<lambda>w. ws_empty (ptr_pageWorkingSet env w) = 0 \<and> page w = v) [0..<n] \<longleftrightarrow> v \<in> page ` set used" for v
      by (force simp: list_ex_iff used_def n_def)
    then show ?thesis by (auto simp: list_all_iff)
  qed
  have "CheckWSWithoutLastIndex expected env \<longleftrightarrow> set expected - {0} \<subseteq> page ` set used \<and> length ?e = length used"
    unfolding CheckWSWithoutLastIndex_def Let_def using len le lu sub unfolding n_def page_def by auto
  also have "\<dots> \<longleftrightarrow> set expected - {0} = page ` set used"
    using card_subset_eq [of "page ` set used" "set expected - {0}"] ce cu by auto
  finally show ?thesis .
qed

end
