(* ===== verification/Sorting_Programs.thy ===== *)
theory Sorting_Programs
  imports Prelude "HOL-Library.Multiset"
begin

text \<open>
  The sorting programs (\<^verbatim>\<open>user/quicksort.c\<close>, \<^verbatim>\<open>user/mergesort_leakage.c\<close>, \<^verbatim>\<open>user/arrayOperations_stats.c\<close>);
  the other \<^verbatim>\<open>user/quicksort*.c\<close> and \<^verbatim>\<open>user/mergesort*.c\<close> have the same functions. An array is a function
  from subscripts, so that every subscript the code computes has a value; the properties state that only
  those of the array are written. The last subscript is computed as an \<open>int\<close> and wraps for the smallest
  one. \<open>None\<close> is a run that does not return.
\<close>

type_synonym array = "int \<Rightarrow> int"

section \<open>Definitions\<close>

definition Swap :: "array \<Rightarrow> int \<Rightarrow> int \<Rightarrow> array" where
  "Swap E First Second = (let Tmp = E First; E = E(First := E Second) in E(Second := Tmp))"

text \<open>The two inner loops of \<open>QSort\<close>.\<close>

function scan_up :: "array \<Rightarrow> int \<Rightarrow> int \<Rightarrow> int \<Rightarrow> int" where
  "scan_up E startIndex finalIndex i =
     (if i \<le> finalIndex \<and> E startIndex \<ge> E i then scan_up E startIndex finalIndex (i + 1) else i)"
  by auto
termination by (relation "measure (\<lambda>(E, s, f, i). nat (f + 1 - i))") auto

function scan_down :: "array \<Rightarrow> int \<Rightarrow> int \<Rightarrow> int" where
  "scan_down E startIndex j = (if j > startIndex \<and> E startIndex \<le> E j then scan_down E startIndex (j - 1) else j)"
  by auto
termination by (relation "measure (\<lambda>(E, s, j). nat (j - s))") auto

declare scan_up.simps [simp del] scan_down.simps [simp del]

partial_function (option) partition_loop :: "array \<Rightarrow> int \<Rightarrow> int \<Rightarrow> int \<Rightarrow> int \<Rightarrow> (array \<times> int \<times> int) option" where
  "partition_loop E startIndex finalIndex i j =
     (if i \<le> j then
        (let i' = scan_up E startIndex finalIndex i; j' = scan_down E startIndex j in
         partition_loop (if i' \<le> j' then Swap E i' j' else E) startIndex finalIndex i' j')
      else Some (E, i, j))"

partial_function (option) QSort :: "array \<Rightarrow> int \<Rightarrow> int \<Rightarrow> int \<Rightarrow> array option" where
  "QSort E NumOfElements startIndex finalIndex =
     (if startIndex \<ge> finalIndex then Some E
      else Option.bind (partition_loop E startIndex finalIndex (startIndex + 1) finalIndex) (\<lambda>r.
        let E = Swap (fst r) startIndex (snd (snd r)) in
        Option.bind (QSort E NumOfElements startIndex (snd (snd r) - 1)) (\<lambda>E.
        QSort E NumOfElements (fst (snd r)) finalIndex)))"

definition QuickSort :: "array \<Rightarrow> int \<Rightarrow> array option" where
  "QuickSort E NumOfElements = QSort E NumOfElements 0 (wrap32 (NumOfElements - 1))"

definition CheckSorted :: "array \<Rightarrow> int \<Rightarrow> int" where
  "CheckSorted E NumOfElements =
     (if List.find (\<lambda>i. E i > E (i + 1)) [0..wrap32 (NumOfElements - 1) - 1] = None then 1 else 0)"

definition InitializeAscending :: "array \<Rightarrow> int \<Rightarrow> array" where
  "InitializeAscending E NumOfElements = fold (\<lambda>i E. E(i := i)) [0..NumOfElements - 1] E"

definition InitializeDescending :: "array \<Rightarrow> int \<Rightarrow> array" where
  "InitializeDescending E NumOfElements = fold (\<lambda>i E. E(i := NumOfElements - i - 1)) [0..NumOfElements - 1] E"

text \<open>A division by zero is a fault of the program.\<close>

definition InitializeSemiRandom :: "array \<Rightarrow> int \<Rightarrow> array option" where
  "InitializeSemiRandom E NumOfElements =
     (let Repetition = c_div NumOfElements 3 in
      if 0 < NumOfElements \<and> Repetition = 0 then None
      else Some (fold (\<lambda>i E. E(i := c_mod i Repetition)) [0..NumOfElements - 1] E))"

text \<open>The second loop of \<open>Merge\<close> with the copies \<open>Left\<close> and \<open>Right\<close>; \<open>n\<close> rounds are left.\<close>

fun merge_loop :: "nat \<Rightarrow> array \<Rightarrow> array \<Rightarrow> int \<Rightarrow> int \<Rightarrow> array \<Rightarrow> int \<Rightarrow> int \<Rightarrow> int \<Rightarrow> array" where
  "merge_loop 0 LeftA RightA leftCapacity rightCapacity A k leftIndex rightIndex = A"
| "merge_loop (Suc n) LeftA RightA leftCapacity rightCapacity A k leftIndex rightIndex =
     (if leftIndex < leftCapacity \<and> rightIndex < rightCapacity then
        (if LeftA leftIndex < RightA rightIndex
         then merge_loop n LeftA RightA leftCapacity rightCapacity (A(k - 1 := LeftA leftIndex)) (k + 1) (leftIndex + 1) rightIndex
         else merge_loop n LeftA RightA leftCapacity rightCapacity (A(k - 1 := RightA rightIndex)) (k + 1) leftIndex (rightIndex + 1))
      else if leftIndex < leftCapacity
      then merge_loop n LeftA RightA leftCapacity rightCapacity (A(k - 1 := LeftA leftIndex)) (k + 1) (leftIndex + 1) rightIndex
      else merge_loop n LeftA RightA leftCapacity rightCapacity (A(k - 1 := RightA rightIndex)) (k + 1) leftIndex (rightIndex + 1))"

text \<open>The first two loops fill the blocks that \<open>malloc\<close> returned, which overlap neither each other nor the
  array; what the blocks held before is \<open>junk\<close>, in \<open>MSort\<close> for the merge of each range. A null pointer is left
  to \<open>MSort_stack\<close> of \<^verbatim>\<open>User_Programs\<close>.\<close>

definition Merge :: "array \<Rightarrow> array \<Rightarrow> int \<Rightarrow> int \<Rightarrow> int \<Rightarrow> array" where
  "Merge junk A p q r =
     (let leftCapacity = q - p + 1; rightCapacity = r - q;
          LeftA = (\<lambda>i. if 0 \<le> i \<and> i < leftCapacity then A (p + i - 1) else junk i);
          RightA = (\<lambda>j. if 0 \<le> j \<and> j < rightCapacity then A (q + j) else junk j)
      in merge_loop (nat (r - p + 1)) LeftA RightA leftCapacity rightCapacity A p 0 0)"

partial_function (option) MSort :: "(int \<Rightarrow> int \<Rightarrow> array) \<Rightarrow> array \<Rightarrow> int \<Rightarrow> int \<Rightarrow> array option" where
  "MSort junk A p r =
     (if p \<ge> r then Some A
      else let q = c_div (wrap32 (p + r)) 2 in
        Option.bind (MSort junk A p q) (\<lambda>A.
        Option.bind (MSort junk A (q + 1) r) (\<lambda>A.
        Some (Merge (junk p r) A p q r))))"

text \<open>The selection of \<^verbatim>\<open>arrayOperations_stats.c\<close>; \<open>RAND\<close> reads the cycle counter and is an argument.\<close>

partial_function (option) QSelect :: "(int \<Rightarrow> int \<Rightarrow> int) \<Rightarrow> array \<Rightarrow> int \<Rightarrow> int \<Rightarrow> int \<Rightarrow> (int \<times> array) option" where
  "QSelect RAND E startIndex finalIndex kIndex =
     (if startIndex \<ge> finalIndex then Some (E finalIndex, E)
      else Option.bind (partition_loop (Swap E startIndex (RAND startIndex finalIndex)) startIndex finalIndex (startIndex + 1) finalIndex)
        (\<lambda>r. let i = fst (snd r); j = snd (snd r); E = Swap (fst r) startIndex j in
          if kIndex = j then Some (E kIndex, E)
          else if kIndex < j then QSelect RAND E startIndex (j - 1) kIndex
          else QSelect RAND E i finalIndex kIndex))"

definition KthElement :: "(int \<Rightarrow> int \<Rightarrow> int) \<Rightarrow> array \<Rightarrow> int \<Rightarrow> int \<Rightarrow> (int \<times> array) option" where
  "KthElement RAND E NumOfElements k = QSelect RAND E 0 (wrap32 (NumOfElements - 1)) (wrap32 (k - 1))"

section \<open>Arrays\<close>

text \<open>The elements of a range, as a multiset.\<close>

definition elems :: "array \<Rightarrow> int \<Rightarrow> int \<Rightarrow> int multiset" where
  "elems E a b = image_mset E (mset_set {a..b})"

definition sorted_range :: "array \<Rightarrow> int \<Rightarrow> int \<Rightarrow> bool" where
  "sorted_range E a b \<longleftrightarrow> (\<forall>i j. a \<le> i \<and> i \<le> j \<and> j \<le> b \<longrightarrow> E i \<le> E j)"

definition same_outside :: "array \<Rightarrow> array \<Rightarrow> int \<Rightarrow> int \<Rightarrow> bool" where
  "same_outside E E' a b \<longleftrightarrow> (\<forall>i. i < a \<or> b < i \<longrightarrow> E' i = E i)"

lemma Swap_value: "Swap E i j k = (if k = j then E i else if k = i then E j else E k)"
  by (simp add: Swap_def)

lemma elems_Swap:
  assumes "a \<le> i" "i \<le> b" "a \<le> j" "j \<le> b"
  shows "elems (Swap E i j) a b = elems E a b"
proof -
  let ?t = "\<lambda>k. if k = j then i else if k = i then j else k"
  have inj: "inj_on ?t {a..b}" by (auto simp: inj_on_def)
  have "?t ` {a..b} = {a..b}"
  proof
    show "?t ` {a..b} \<subseteq> {a..b}" using assms by auto
    show "{a..b} \<subseteq> ?t ` {a..b}"
    proof
      fix x assume "x \<in> {a..b}"
      then have "x = ?t (?t x)" "?t x \<in> {a..b}" using assms by auto
      then show "x \<in> ?t ` {a..b}" by blast
    qed
  qed
  then have "image_mset ?t (mset_set {a..b}) = mset_set {a..b}" using inj by (simp add: image_mset_mset_set)
  moreover have "Swap E i j = (\<lambda>k. E (?t k))" by (simp add: fun_eq_iff Swap_value)
  ultimately show ?thesis unfolding elems_def by (metis (no_types, lifting) comp_apply ext multiset.map_comp)
qed

lemma elems_split: "a \<le> m \<Longrightarrow> m \<le> b + 1 \<Longrightarrow> elems E a b = elems E a (m - 1) + elems E m b"
proof -
  assume m: "a \<le> m" "m \<le> b + 1"
  then have "{a..b} = {a..m - 1} \<union> {m..b}" by auto
  moreover have "mset_set ({a..m - 1} \<union> {m..b}) = mset_set {a..m - 1} + mset_set {m..b}"
    by (intro mset_set_Union) auto
  ultimately show ?thesis by (simp add: elems_def)
qed

lemma elems_cong: "(\<And>i. a \<le> i \<Longrightarrow> i \<le> b \<Longrightarrow> E i = E' i) \<Longrightarrow> elems E a b = elems E' a b"
  unfolding elems_def by (intro image_mset_cong) auto

lemma elems_bounds:
  "elems E' a b = elems E a b \<Longrightarrow> (\<forall>i. a \<le> i \<and> i \<le> b \<longrightarrow> P (E' i)) \<longleftrightarrow> (\<forall>i. a \<le> i \<and> i \<le> b \<longrightarrow> P (E i))"
proof -
  assume e: "elems E' a b = elems E a b"
  have "(\<forall>i. a \<le> i \<and> i \<le> b \<longrightarrow> P (F i)) \<longleftrightarrow> (\<forall>x \<in># elems F a b. P x)" for F
    by (auto simp: elems_def)
  then show ?thesis using e by simp
qed

section \<open>Partition\<close>

lemma scan_up_props:
  "i \<le> scan_up E s f i \<and> (i \<le> f + 1 \<longrightarrow> scan_up E s f i \<le> f + 1)
   \<and> (\<forall>k. i \<le> k \<and> k < scan_up E s f i \<longrightarrow> E k \<le> E s) \<and> (scan_up E s f i \<le> f \<longrightarrow> E s < E (scan_up E s f i))"
proof (induction E s f i rule: scan_up.induct)
  case (1 E s f i)
  show ?case
  proof (cases "i \<le> f \<and> E s \<ge> E i")
    case True
    then have e: "scan_up E s f i = scan_up E s f (i + 1)" by (subst scan_up.simps) simp
    have "E k \<le> E s" if "i \<le> k" "k < scan_up E s f (i + 1)" for k
      using 1 [OF True] True that by (cases "k = i") auto
    then show ?thesis unfolding e using 1 [OF True] True by auto
  next
    case False
    then have "scan_up E s f i = i" by (subst scan_up.simps) (simp only: if_False)
    then show ?thesis using False by auto
  qed
qed

lemma scan_down_props:
  "scan_down E s j \<le> j \<and> (s \<le> j \<longrightarrow> s \<le> scan_down E s j)
   \<and> (\<forall>k. scan_down E s j < k \<and> k \<le> j \<longrightarrow> E s \<le> E k) \<and> (s < scan_down E s j \<longrightarrow> E (scan_down E s j) < E s)"
proof (induction E s j rule: scan_down.induct)
  case (1 E s j)
  show ?case
  proof (cases "j > s \<and> E s \<le> E j")
    case True
    then have e: "scan_down E s j = scan_down E s (j - 1)" by (subst scan_down.simps) simp
    have "E s \<le> E k" if "scan_down E s (j - 1) < k" "k \<le> j" for k
      using 1 [OF True] True that by (cases "k = j") auto
    then show ?thesis unfolding e using 1 [OF True] True by auto
  next
    case False
    then have "scan_down E s j = j" by (subst scan_down.simps) (simp only: if_False)
    then show ?thesis using False by auto
  qed
qed

text \<open>What holds between the rounds of the partition of \<open>s..f\<close> with the pivot at \<open>s\<close>.\<close>

definition part_inv :: "array \<Rightarrow> int \<Rightarrow> int \<Rightarrow> array \<Rightarrow> int \<Rightarrow> int \<Rightarrow> bool" where
  "part_inv E0 s f E i j \<longleftrightarrow> s < i \<and> i \<le> f + 1 \<and> s \<le> j \<and> j \<le> f \<and> E s = E0 s
     \<and> (\<forall>k. s < k \<and> k < i \<longrightarrow> E k \<le> E s) \<and> (\<forall>k. j < k \<and> k \<le> f \<longrightarrow> E s \<le> E k)
     \<and> elems E s f = elems E0 s f \<and> same_outside E0 E s f"

lemma partition_loop_returns:
  "part_inv E0 s f E i j \<Longrightarrow> \<exists>E' i' j'. partition_loop E s f i j = Some (E', i', j') \<and> part_inv E0 s f E' i' j' \<and> j' < i'"
proof (induction "2 * nat (j - i + 1) + (if E s < E i then 1 else 0)" arbitrary: E i j rule: less_induct)
  case less
  note inv = less(2) [unfolded part_inv_def]
  show ?case
  proof (cases "i \<le> j")
    case False
    then show ?thesis using less(2) by (subst partition_loop.simps) auto
  next
    case True
    define i' where "i' = scan_up E s f i"
    define j' where "j' = scan_down E s j"
    define E' where "E' = (if i' \<le> j' then Swap E i' j' else E)"
    have u: "i \<le> i'" "i' \<le> f + 1" "\<And>k. i \<le> k \<Longrightarrow> k < i' \<Longrightarrow> E k \<le> E s" "i' \<le> f \<Longrightarrow> E s < E i'"
      using scan_up_props [of i E s f] inv unfolding i'_def by auto
    have d: "j' \<le> j" "s \<le> j'" "\<And>k. j' < k \<Longrightarrow> k \<le> j \<Longrightarrow> E s \<le> E k" "s < j' \<Longrightarrow> E j' < E s"
      using scan_down_props [of E s j] inv unfolding j'_def by auto
    have step: "partition_loop E s f i j = partition_loop E' s f i' j'"
      using True unfolding E'_def i'_def j'_def by (subst partition_loop.simps) (simp add: Let_def)
    have up: "E k \<le> E s" if "s < k" "k < i'" for k using u(3) [of k] inv that by (cases "k < i") auto
    have down: "E s \<le> E k" if "j' < k" "k \<le> f" for k using d(3) [of k] inv that by (cases "j < k") auto
    have val: "E' k = (if i' \<le> j' \<and> k = j' then E i' else if i' \<le> j' \<and> k = i' then E j' else E k)" for k
      by (simp add: E'_def Swap_value)
    have "part_inv E0 s f E' i' j'"
    proof -
      have "E' s = E s" using u(1) inv d by (auto simp: val)
      moreover have "E' k \<le> E s" if "s < k" "k < i'" for k using that up by (auto simp: val)
      moreover have "E s \<le> E' k" if "j' < k" "k \<le> f" for k using that down by (auto simp: val)
      moreover have "elems E' s f = elems E0 s f"
        unfolding E'_def using elems_Swap [of s i' f j' E] u d inv by auto
      moreover have "same_outside E0 E' s f" using inv u d by (auto simp: same_outside_def val)
      ultimately show ?thesis using inv u d unfolding part_inv_def by auto
    qed
    moreover have "2 * nat (j' - i' + 1) + (if E' s < E' i' then 1 else 0) < 2 * nat (j - i + 1) + (if E s < E i then 1 else 0 :: nat)"
    proof (cases "i' = i \<and> j' = j")
      case same: True
      then have "E s < E i" "E j < E s" using u(4) d(4) True inv by auto
      moreover have "E' s = E s" "E' i' = E j" using same True inv u(1) by (auto simp: val)
      ultimately show ?thesis using same by simp
    next
      case False
      then have "nat (j' - i' + 1) + 1 \<le> nat (j - i + 1)" using u(1) d(1) True by auto
      moreover have "(if E' s < E' i' then 1 else 0) \<le> (1 :: nat)" by simp
      ultimately show ?thesis by linarith
    qed
    ultimately show ?thesis unfolding step by (intro less(1))
  qed
qed

text \<open>After the swap of the pivot into its place.\<close>

lemma partition_result:
  assumes "s < f"
  shows "\<exists>E' i j. partition_loop E s f (s + 1) f = Some (E', i, j) \<and> s \<le> j \<and> j < i \<and> i \<le> f + 1
    \<and> elems (Swap E' s j) s f = elems E s f \<and> same_outside E (Swap E' s j) s f
    \<and> (\<forall>k. s \<le> k \<and> k < j \<longrightarrow> Swap E' s j k \<le> E s) \<and> (\<forall>k. j \<le> k \<and> k < i \<longrightarrow> Swap E' s j k = E s)
    \<and> (\<forall>k. i \<le> k \<and> k \<le> f \<longrightarrow> E s \<le> Swap E' s j k)"
proof -
  have "part_inv E s f E (s + 1) f" using assms by (auto simp: part_inv_def same_outside_def)
  then obtain E' i j where p: "partition_loop E s f (s + 1) f = Some (E', i, j)" and inv: "part_inv E s f E' i j" "j < i"
    using partition_loop_returns by blast
  have v: "Swap E' s j k = (if k = j then E' s else if k = s then E' j else E' k)" for k by (rule Swap_value)
  have "elems (Swap E' s j) s f = elems E s f" using inv assms by (auto simp: part_inv_def elems_Swap)
  moreover have "same_outside E (Swap E' s j) s f" using inv by (auto simp: part_inv_def same_outside_def v)
  moreover have "Swap E' s j k \<le> E s" if "s \<le> k" "k < j" for k
    using inv that by (cases "k = s") (auto simp: part_inv_def v)
  moreover have "Swap E' s j k = E s" if "j \<le> k" "k < i" for k
    using inv that by (cases "k = j") (auto simp: part_inv_def v intro!: antisym)
  moreover have "E s \<le> Swap E' s j k" if "i \<le> k" "k \<le> f" for k
    using inv that by (auto simp: part_inv_def v)
  ultimately show ?thesis using p inv by (auto simp: part_inv_def)
qed

text \<open>Two sorted ranges with the pivot between them.\<close>

lemma sorted_range_join:
  assumes "sorted_range E s (j - 1)" and "sorted_range E i f" and "j \<le> i"
    and "\<forall>k. s \<le> k \<and> k < j \<longrightarrow> E k \<le> p" and "\<forall>k. j \<le> k \<and> k < i \<longrightarrow> E k = p" and "\<forall>k. i \<le> k \<and> k \<le> f \<longrightarrow> p \<le> E k"
  shows "sorted_range E s f"
  unfolding sorted_range_def
proof (intro allI impI)
  fix a b :: int
  assume ab: "s \<le> a \<and> a \<le> b \<and> b \<le> f"
  consider "b < j" | "i \<le> a" | "j \<le> b" "a < i" by linarith
  then show "E a \<le> E b"
  proof cases
    case 3
    have "E a \<le> p" using assms(4,5) ab 3 by (cases "a < j") auto
    also have "p \<le> E b" using assms(5,6) ab 3 by (cases "b < i") auto
    finally show ?thesis .
  qed (use assms(1,2) ab in \<open>auto simp: sorted_range_def\<close>)
qed

lemma sorted_range_small: "f \<le> s \<Longrightarrow> sorted_range E s f"
proof (unfold sorted_range_def, intro allI impI)
  fix i j :: int
  assume "f \<le> s" "s \<le> i \<and> i \<le> j \<and> j \<le> f"
  then have "i = j" by linarith
  then show "E i \<le> E j" by simp
qed

lemma QSort_sorts:
  "\<exists>E'. QSort E n s f = Some E' \<and> sorted_range E' s f \<and> elems E' s f = elems E s f \<and> same_outside E E' s f"
proof (induction "nat (f - s)" arbitrary: E s f rule: less_induct)
  case less
  show ?case
  proof (cases "s \<ge> f")
    case True
    then show ?thesis by (subst QSort.simps) (simp add: sorted_range_small same_outside_def)
  next
    case False
    then obtain E1 i j where p: "partition_loop E s f (s + 1) f = Some (E1, i, j)" and ij: "s \<le> j" "j < i" "i \<le> f + 1"
      and el: "elems (Swap E1 s j) s f = elems E s f" and out: "same_outside E (Swap E1 s j) s f"
      and parts: "\<forall>k. s \<le> k \<and> k < j \<longrightarrow> Swap E1 s j k \<le> E s" "\<forall>k. j \<le> k \<and> k < i \<longrightarrow> Swap E1 s j k = E s"
        "\<forall>k. i \<le> k \<and> k \<le> f \<longrightarrow> E s \<le> Swap E1 s j k"
      using partition_result [of s f E] by auto
    let ?E = "Swap E1 s j"
    obtain E2 where E2: "QSort ?E n s (j - 1) = Some E2" "sorted_range E2 s (j - 1)" "elems E2 s (j - 1) = elems ?E s (j - 1)"
      "same_outside ?E E2 s (j - 1)"
      using less [of "j - 1" s ?E] ij False by auto
    obtain E3 where E3: "QSort E2 n i f = Some E3" "sorted_range E3 i f" "elems E3 i f = elems E2 i f" "same_outside E2 E3 i f"
      using less [of f i E2] ij False by auto
    have r: "QSort E n s f = Some E3" using False p E2(1) E3(1) by (subst QSort.simps) (simp add: Let_def)
    have lo: "E3 k = E2 k" if "k < i" for k using E3(4) that by (simp add: same_outside_def)
    have mid: "E2 k = ?E k" if "j \<le> k" for k using E2(4) that by (simp add: same_outside_def)
    have "elems E3 s f = elems ?E s f"
      using elems_split [of s j f] elems_split [of j i f] elems_cong [of s "j - 1" E3 E2] elems_cong [of j "i - 1" E3 ?E]
        elems_cong [of i f E2 ?E] E2(3) E3(3) ij lo mid by simp
    moreover have "sorted_range E3 s f"
    proof (rule sorted_range_join)
      show "sorted_range E3 s (j - 1)" using E2(2) lo ij by (simp add: sorted_range_def)
      show "sorted_range E3 i f" "j \<le> i" using E3(2) ij by auto
      show "\<forall>k. j \<le> k \<and> k < i \<longrightarrow> E3 k = E s" using parts(2) lo mid by simp
      have "\<forall>k. s \<le> k \<and> k \<le> j - 1 \<longrightarrow> E2 k \<le> E s" using elems_bounds [OF E2(3), of "\<lambda>x. x \<le> E s"] parts(1) by simp
      then show "\<forall>k. s \<le> k \<and> k < j \<longrightarrow> E3 k \<le> E s" using lo ij by simp
      have "\<forall>k. i \<le> k \<and> k \<le> f \<longrightarrow> E s \<le> E2 k" using parts(3) mid ij by simp
      then show "\<forall>k. i \<le> k \<and> k \<le> f \<longrightarrow> E s \<le> E3 k" using elems_bounds [OF E3(3), of "\<lambda>x. E s \<le> x"] by simp
    qed
    moreover have "same_outside E E3 s f" using out E2(4) E3(4) ij by (auto simp: same_outside_def)
    ultimately show ?thesis using r el by auto
  qed
qed

lemma neighbours_sorted: "sorted_range E 0 m \<longleftrightarrow> (\<forall>i. 0 \<le> i \<and> i \<le> m - 1 \<longrightarrow> E i \<le> E (i + 1))"
proof
  assume step: "\<forall>i. 0 \<le> i \<and> i \<le> m - 1 \<longrightarrow> E i \<le> E (i + 1)"
  have "E i \<le> E (i + int k)" if "0 \<le> i" "i + int k \<le> m" for i k
    using that
  proof (induction k)
    case (Suc k)
    then have "E i \<le> E (i + int k)" "E (i + int k) \<le> E (i + int k + 1)" using step by simp_all
    then show ?case by (simp add: algebra_simps)
  qed simp
  then have "E i \<le> E j" if "0 \<le> i" "i \<le> j" "j \<le> m" for i j
    using that by (metis add.commute diff_add_cancel diff_ge_0_iff_ge nat_0_le)
  then show "sorted_range E 0 m" by (simp add: sorted_range_def)
qed (simp add: sorted_range_def)

lemma CheckSorted_iff: "CheckSorted E n = 1 \<longleftrightarrow> sorted_range E 0 (wrap32 (n - 1))"
  unfolding neighbours_sorted by (force simp: CheckSorted_def find_None_iff not_less)

lemma last_subscript: "- (2 ^ 31) < n \<Longrightarrow> n < 2 ^ 31 \<Longrightarrow> wrap32 (n - 1) = n - 1"
  by (rule wrap32_id) simp_all

text \<open>C15: \<open>QuickSort\<close> returns on every array, sorts it by permuting its elements, writes nothing else, and the
  program's own check of the result succeeds. The last subscript is \<open>n - 1\<close>, which for the smallest \<open>int\<close>
  wraps to the largest one.\<close>

theorem QuickSort_correct:
  "\<exists>E'. QuickSort E n = Some E' \<and> CheckSorted E' n = 1 \<and> elems E' 0 (wrap32 (n - 1)) = elems E 0 (wrap32 (n - 1))
    \<and> same_outside E E' 0 (wrap32 (n - 1))"
  using QSort_sorts [of E n 0 "wrap32 (n - 1)"] by (simp add: QuickSort_def CheckSorted_iff)

section \<open>Merge sort\<close>

lemma elems_list: "elems E a b = mset (map E [a..b])"
  using mset_set_set [of "[a..b]"] by (simp add: elems_def)

lemma sorted_range_list: "sorted_range E a b \<longleftrightarrow> sorted (map E [a..b])"
proof
  assume s: "sorted (map E [a..b])"
  show "sorted_range E a b"
    unfolding sorted_range_def
  proof (intro allI impI)
    fix i j
    assume ij: "a \<le> i \<and> i \<le> j \<and> j \<le> b"
    have "map E [a..b] ! nat (i - a) \<le> map E [a..b] ! nat (j - a)"
      using ij by (intro sorted_nth_mono [OF s]) auto
    then show "E i \<le> E j" using ij by simp
  qed
next
  assume "sorted_range E a b"
  then show "sorted (map E [a..b])" by (auto simp: sorted_range_def sorted_iff_nth_mono)
qed

fun mrg :: "int list \<Rightarrow> int list \<Rightarrow> int list" where
  "mrg [] ys = ys"
| "mrg xs [] = xs"
| "mrg (x # xs) (y # ys) = (if x < y then x # mrg xs (y # ys) else y # mrg (x # xs) ys)"

lemma mrg_Nil2 [simp]: "mrg xs [] = xs"
  by (cases xs) simp_all

lemma mset_mrg: "mset (mrg xs ys) = mset xs + mset ys"
  by (induction xs ys rule: mrg.induct) simp_all

lemma length_mrg [simp]: "length (mrg xs ys) = length xs + length ys"
  by (induction xs ys rule: mrg.induct) simp_all

lemma sorted_mrg: "sorted xs \<Longrightarrow> sorted ys \<Longrightarrow> sorted (mrg xs ys)"
proof (induction xs ys rule: mrg.induct)
  case (3 x xs y ys)
  have "set (mrg xs ys) = set xs \<union> set ys" for xs ys using mset_mrg [of xs ys] by (metis set_mset_mset set_mset_union)
  then show ?case using 3 by fastforce
qed simp_all

lemma write_front:
  assumes "(\<forall>t < n. T (k + 1 - 1 + int t) = out ! t) \<and> (\<forall>x. x < k + 1 - 1 \<or> k + 1 - 1 + int n \<le> x \<longrightarrow> T x = (A(k - 1 := v)) x)"
  shows "(\<forall>t < Suc n. T (k - 1 + int t) = (v # out) ! t) \<and> (\<forall>x. x < k - 1 \<or> k - 1 + int (Suc n) \<le> x \<longrightarrow> T x = A x)"
  using assms by (auto simp: All_less_Suc2 algebra_simps)

lemma merge_loop_mrg:
  assumes "0 \<le> li" "li \<le> lc" "0 \<le> ri" "ri \<le> rc" and "n = nat (lc - li) + nat (rc - ri)"
  shows "(\<forall>t < n. merge_loop n L R lc rc A k li ri (k - 1 + int t)
      = mrg (map L [li..lc - 1]) (map R [ri..rc - 1]) ! t)
    \<and> (\<forall>x. x < k - 1 \<or> k - 1 + int n \<le> x \<longrightarrow> merge_loop n L R lc rc A k li ri x = A x)"
  using assms
proof (induction n arbitrary: A k li ri)
  case (Suc n)
  let ?l = "\<lambda>li. map L [li..lc - 1]" let ?r = "\<lambda>ri. map R [ri..rc - 1]"
  have cons: "li < lc \<Longrightarrow> ?l li = L li # ?l (li + 1)" "ri < rc \<Longrightarrow> ?r ri = R ri # ?r (ri + 1)"
    by (simp_all add: upto_rec1)
  have empty: "\<not> li < lc \<Longrightarrow> ?l li = []" "\<not> ri < rc \<Longrightarrow> ?r ri = []" using Suc.prems by simp_all
  consider (left) "li < lc" "ri < rc \<Longrightarrow> L li < R ri" | (right) "ri < rc" "li < lc \<Longrightarrow> \<not> L li < R ri"
    using Suc.prems by (cases "li < lc"; cases "ri < rc"; cases "L li < R ri") auto
  then show ?case
  proof cases
    case left
    have m: "mrg (?l li) (?r ri) = L li # mrg (?l (li + 1)) (?r ri)"
      using left empty(2) by (cases "ri < rc") (simp_all add: cons)
    have e: "merge_loop (Suc n) L R lc rc A k li ri = merge_loop n L R lc rc (A(k - 1 := L li)) (k + 1) (li + 1) ri"
      using left by simp
    show ?thesis unfolding e m
      by (rule write_front, rule Suc.IH) (use left(1) Suc.prems in auto)
  next
    case right
    have m: "mrg (?l li) (?r ri) = R ri # mrg (?l li) (?r (ri + 1))"
      using right empty(1) by (cases "li < lc") (simp_all add: cons)
    have e: "merge_loop (Suc n) L R lc rc A k li ri = merge_loop n L R lc rc (A(k - 1 := R ri)) (k + 1) li (ri + 1)"
      using right by simp
    show ?thesis unfolding e m
      by (rule write_front, rule Suc.IH) (use right(1) Suc.prems in auto)
  qed
qed simp

lemma Merge_sorts:
  assumes "p \<le> q" "q \<le> r" and "sorted_range A (p - 1) (q - 1)" "sorted_range A q (r - 1)"
  shows "sorted_range (Merge junk A p q r) (p - 1) (r - 1) \<and> elems (Merge junk A p q r) (p - 1) (r - 1) = elems A (p - 1) (r - 1)
    \<and> same_outside A (Merge junk A p q r) (p - 1) (r - 1)"
proof -
  let ?L = "\<lambda>i. if 0 \<le> i \<and> i < q - p + 1 then A (p + i - 1) else junk i"
  let ?R = "\<lambda>j. if 0 \<le> j \<and> j < r - q then A (q + j) else junk j"
  let ?M = "Merge junk A p q r" let ?n = "nat (r - p + 1)"
  have L: "map ?L [0..q - p + 1 - 1] = map A [p - 1..q - 1]"
  proof (rule nth_equalityI)
    fix i assume "i < length (map ?L [0..q - p + 1 - 1])"
    then have "int i < q - p + 1" using assms(1) by simp
    then show "map ?L [0..q - p + 1 - 1] ! i = map A [p - 1..q - 1] ! i" by (simp add: algebra_simps)
  qed simp
  have R: "map ?R [0..r - q - 1] = map A [q..r - 1]"
  proof (rule nth_equalityI)
    fix i assume "i < length (map ?R [0..r - q - 1])"
    then have "int i < r - q" using assms(2) by simp
    then show "map ?R [0..r - q - 1] ! i = map A [q..r - 1] ! i" by (simp add: algebra_simps)
  qed simp
  have n: "?n = nat (q - p + 1 - 0) + nat (r - q - 0)" using assms(1,2) by linarith
  have M: "?M = merge_loop ?n ?L ?R (q - p + 1) (r - q) A p 0 0" by (simp add: Merge_def Let_def)
  note loop = merge_loop_mrg [of 0 "q - p + 1" 0 "r - q" ?n ?L ?R A p, folded M, unfolded L R, OF _ _ _ _ n]
  have "map ?M [p - 1..r - 1] = mrg (map A [p - 1..q - 1]) (map A [q..r - 1])"
    using assms(1,2) loop by (intro nth_equalityI) auto
  moreover have "sorted (mrg (map A [p - 1..q - 1]) (map A [q..r - 1]))"
    using assms(3,4) by (intro sorted_mrg) (simp_all add: sorted_range_list)
  moreover have "elems A (p - 1) (r - 1) = elems A (p - 1) (q - 1) + elems A q (r - 1)"
    using elems_split [of "p - 1" q "r - 1" A] assms(1,2) by simp
  moreover have "same_outside A ?M (p - 1) (r - 1)"
    using loop assms(1,2) by (auto simp: same_outside_def)
  ultimately show ?thesis by (simp add: sorted_range_list elems_list mset_mrg)
qed

text \<open>\<open>MSort\<close> returns, sorts the elements numbered \<open>p\<close> to \<open>r\<close> from 1 on by permuting them, and writes nothing else.\<close>

theorem MSort_correct:
  assumes "1 \<le> p" and "r < 2 ^ 30"
  shows "\<exists>A'. MSort junk A p r = Some A' \<and> sorted_range A' (p - 1) (r - 1) \<and> elems A' (p - 1) (r - 1) = elems A (p - 1) (r - 1)
    \<and> same_outside A A' (p - 1) (r - 1)"
  using assms
proof (induction "nat (r - p)" arbitrary: A p r rule: less_induct)
  case less
  show ?case
  proof (cases "p \<ge> r")
    case True
    then show ?thesis by (subst MSort.simps) (simp add: sorted_range_small same_outside_def)
  next
    case False
    define q where "q = c_div (p + r) 2"
    have q: "p \<le> q" "q < r" using False less(2) by (auto simp: q_def c_div_def sgn_if)
    have w: "wrap32 (p + r) = p + r" using False less(2,3) by (intro wrap32_id) simp_all
    obtain A1 where A1: "MSort junk A p q = Some A1" "sorted_range A1 (p - 1) (q - 1)" "elems A1 (p - 1) (q - 1) = elems A (p - 1) (q - 1)"
      "same_outside A A1 (p - 1) (q - 1)" using less(1) [of q p A] less(2,3) q by auto
    obtain A2 where A2: "MSort junk A1 (q + 1) r = Some A2" "sorted_range A2 q (r - 1)" "elems A2 q (r - 1) = elems A1 q (r - 1)"
      "same_outside A1 A2 q (r - 1)" using less(1) [of r "q + 1" A1] less(2,3) q by auto
    have r: "MSort junk A p r = Some (Merge (junk p r) A2 p q r)"
      using False A1(1) A2(1) by (subst MSort.simps) (simp add: w q_def [symmetric] Let_def)
    have lo: "A2 i = A1 i" if "i \<le> q - 1" for i using A2(4) that by (simp add: same_outside_def)
    have hi: "A1 i = A i" if "q \<le> i" for i using A1(4) that by (simp add: same_outside_def)
    have "sorted_range A2 (p - 1) (q - 1)" using A1(2) lo by (simp add: sorted_range_def)
    moreover have "elems A2 (p - 1) (r - 1) = elems A (p - 1) (r - 1)"
      using elems_split [of "p - 1" q "r - 1"] elems_cong [of "p - 1" "q - 1" A2 A1] elems_cong [of q "r - 1" A1 A] A1(3) A2(3) q lo hi
      by simp
    moreover have "same_outside A A2 (p - 1) (r - 1)" using A1(4) A2(4) q by (auto simp: same_outside_def)
    ultimately show ?thesis
      using r Merge_sorts [OF q(1) less_imp_le [OF q(2)] _ A2(2), of "junk p r"] by (auto simp: same_outside_def)
  qed
qed

theorem MSort_correct_witness:
  "\<exists>A'. MSort (\<lambda>_ _ _. 0) (\<lambda>i. 7 - i) 1 3 = Some A' \<and> sorted_range A' 0 2"
  using MSort_correct [of 1 3 "\<lambda>_ _ _. 0" "\<lambda>i. 7 - i"] by auto

section \<open>Selection\<close>

definition distinct_range :: "array \<Rightarrow> int \<Rightarrow> int \<Rightarrow> bool" where
  "distinct_range E a b \<longleftrightarrow> inj_on E {a..b}"

lemma distinct_rangeD: "distinct_range E a b \<Longrightarrow> a \<le> i \<Longrightarrow> i \<le> b \<Longrightarrow> a \<le> j \<Longrightarrow> j \<le> b \<Longrightarrow> E i = E j \<Longrightarrow> i = j"
  by (auto simp: distinct_range_def inj_on_def)

lemma distinct_range_elems: "elems E a b = elems E' a b \<Longrightarrow> distinct_range E a b = distinct_range E' a b"
  using mset_eq_imp_distinct_iff [of "map E [a..b]" "map E' [a..b]"]
  by (simp add: elems_list distinct_range_def distinct_map)

text \<open>The number of elements below \<open>x\<close>.\<close>

definition rank :: "int multiset \<Rightarrow> int \<Rightarrow> nat" where
  "rank M x = size (filter_mset (\<lambda>y. y < x) M)"

lemma rank_add: "rank (M + N) x = rank M x + rank N x"
  by (simp add: rank_def)

lemma mem_elems: "x \<in># elems E a b \<longleftrightarrow> (\<exists>i. a \<le> i \<and> i \<le> b \<and> x = E i)"
  by (auto simp: elems_def)

lemma rank_none: "(\<And>i. a \<le> i \<Longrightarrow> i \<le> b \<Longrightarrow> x \<le> E i) \<Longrightarrow> rank (elems E a b) x = 0"
  by (auto simp: rank_def elems_list not_less filter_empty_conv simp flip: mset_filter)

lemma rank_all: "(\<And>i. a \<le> i \<Longrightarrow> i \<le> b \<Longrightarrow> E i < x) \<Longrightarrow> rank (elems E a b) x = nat (b - a + 1)"
proof -
  assume l: "\<And>i. a \<le> i \<Longrightarrow> i \<le> b \<Longrightarrow> E i < x"
  have "filter (\<lambda>y. y < x) (map E [a..b]) = map E [a..b]" using l by (auto simp: filter_id_conv)
  then show ?thesis by (simp add: rank_def elems_list flip: mset_filter mset_map)
qed

text \<open>With distinct elements the pivot ends strictly between the two sides, which are adjacent to it.\<close>

lemma random_partition:
  assumes rnd: "\<And>a b. a < b \<Longrightarrow> a \<le> RAND a b \<and> RAND a b \<le> b" and "s < f" and "distinct_range E s f"
  shows "\<exists>E1 j. partition_loop (Swap E s (RAND s f)) s f (s + 1) f = Some (E1, j + 1, j) \<and> s \<le> j \<and> j \<le> f
    \<and> elems (Swap E1 s j) s f = elems E s f \<and> distinct_range (Swap E1 s j) s f
    \<and> (\<forall>m. s \<le> m \<and> m < j \<longrightarrow> Swap E1 s j m < Swap E1 s j j) \<and> (\<forall>m. j < m \<and> m \<le> f \<longrightarrow> Swap E1 s j j < Swap E1 s j m)"
proof -
  define E0 where "E0 = Swap E s (RAND s f)"
  have e0: "elems E0 s f = elems E s f" unfolding E0_def using rnd [of s f] assms(2) by (intro elems_Swap) auto
  obtain E1 i j where p: "partition_loop E0 s f (s + 1) f = Some (E1, i, j)" and ij: "s \<le> j" "j < i" "i \<le> f + 1"
    and el: "elems (Swap E1 s j) s f = elems E0 s f"
    and parts: "\<forall>k. s \<le> k \<and> k < j \<longrightarrow> Swap E1 s j k \<le> E0 s" "\<forall>k. j \<le> k \<and> k < i \<longrightarrow> Swap E1 s j k = E0 s"
      "\<forall>k. i \<le> k \<and> k \<le> f \<longrightarrow> E0 s \<le> Swap E1 s j k"
    using partition_result [of s f E0] assms(2) by auto
  let ?E = "Swap E1 s j"
  have e: "elems ?E s f = elems E s f" using el e0 by simp
  have d: "distinct_range ?E s f" using assms(3) distinct_range_elems [OF e] by simp
  have i: "i = j + 1" using distinct_rangeD [OF d, of j "j + 1"] parts(2) ij by (cases "j + 1 < i") auto
  have ne: "?E m \<noteq> ?E j" if "s \<le> m" "m \<le> f" "m \<noteq> j" for m using distinct_rangeD [OF d, of m j] that ij by auto
  have "?E m < ?E j" if "s \<le> m" "m < j" for m using parts(1,2) ij ne [of m] that by (simp add: order_less_le)
  moreover have "?E j < ?E m" if "j < m" "m \<le> f" for m
    using parts(2,3) ij i ne [of m] that by (simp add: order_less_le)
  ultimately show ?thesis using p ij i e d unfolding E0_def by (intro exI [of _ E1] exI [of _ j]) auto
qed

lemma QSelect_finds:
  assumes rnd: "\<And>a b. a < b \<Longrightarrow> a \<le> RAND a b \<and> RAND a b \<le> b" and "s \<le> k" "k \<le> f" and "distinct_range E s f"
  shows "\<exists>x E'. QSelect RAND E s f k = Some (x, E') \<and> x \<in># elems E s f \<and> rank (elems E s f) x = nat (k - s)"
  using assms(2-4)
proof (induction "nat (f - s)" arbitrary: E s f rule: less_induct)
  case less
  show ?case
  proof (cases "s \<ge> f")
    case True
    then have "s = f" "k = f" using less.prems by auto
    moreover have "rank (elems E f f) (E f) = 0" by (rule rank_none) auto
    ultimately show ?thesis using mem_elems by (subst QSelect.simps) auto
  next
    case False
    then obtain E1 j where p: "partition_loop (Swap E s (RAND s f)) s f (s + 1) f = Some (E1, j + 1, j)" and j: "s \<le> j" "j \<le> f"
      and e: "elems (Swap E1 s j) s f = elems E s f" and d: "distinct_range (Swap E1 s j) s f"
      and lo: "\<And>m. s \<le> m \<Longrightarrow> m < j \<Longrightarrow> Swap E1 s j m < Swap E1 s j j" and hi: "\<And>m. j < m \<Longrightarrow> m \<le> f \<Longrightarrow> Swap E1 s j j < Swap E1 s j m"
      using random_partition [OF rnd, of s f E] less.prems(3) by auto
    let ?E = "Swap E1 s j"
    have step: "QSelect RAND E s f k = (if k = j then Some (?E k, ?E) else if k < j then QSelect RAND ?E s (j - 1) k
        else QSelect RAND ?E (j + 1) f k)"
      using False p by (subst QSelect.simps) (simp add: Let_def)
    have sub: "distinct_range ?E a b" if "s \<le> a" "b \<le> f" for a b
      using d that unfolding distinct_range_def by (elim inj_on_subset) auto
    have parts: "elems E s f = elems ?E s (j - 1) + elems ?E j f" "elems ?E j f = elems ?E j j + elems ?E (j + 1) f"
      using elems_split [of s j f ?E] elems_split [of j "j + 1" f ?E] j e by simp_all
    consider "k = j" | "k < j" | "j < k" by linarith
    then show ?thesis
    proof cases
      case 1
      have "rank (elems ?E j f) (?E j) = 0" by (rule rank_none) (use hi in \<open>force simp: order_le_less\<close>)
      then have "rank (elems E s f) (?E j) = nat (j - s)"
        unfolding parts(1) rank_add using rank_all [of s "j - 1" ?E "?E j"] lo by simp
      moreover have "?E j \<in># elems E s f" using j e [symmetric] by (auto simp: mem_elems)
      ultimately show ?thesis using step 1 by auto
    next
      case 2
      then obtain x E' where x: "QSelect RAND ?E s (j - 1) k = Some (x, E')" "x \<in># elems ?E s (j - 1)"
        "rank (elems ?E s (j - 1)) x = nat (k - s)"
        using less(1) [of "j - 1" s ?E] sub j less.prems by auto
      have "x \<le> ?E j" using x(2) lo by (force simp: mem_elems)
      then have "rank (elems ?E j f) x = 0" by (intro rank_none) (use hi in \<open>force simp: order_le_less\<close>)
      then show ?thesis using step 2 x by (auto simp: parts(1) rank_add)
    next
      case 3
      then obtain x E' where x: "QSelect RAND ?E (j + 1) f k = Some (x, E')" "x \<in># elems ?E (j + 1) f"
        "rank (elems ?E (j + 1) f) x = nat (k - (j + 1))"
        using less(1) [of f "j + 1" ?E] sub j less.prems by auto
      have "?E j < x" using x(2) hi by (force simp: mem_elems)
      then have "rank (elems ?E s (j - 1)) x = nat (j - s)" "rank (elems ?E j j) x = 1"
        using rank_all [of s "j - 1" ?E x] rank_all [of j j ?E x] lo by (force intro: less_trans, simp)
      then have "rank (elems E s f) x = nat (k - s)" using x(3) 3 j by (simp add: parts rank_add)
      then show ?thesis using step 3 x by (auto simp: parts)
    qed
  qed
qed

text \<open>On an array of distinct elements \<open>KthElement\<close> returns the element that exactly \<open>k - 1\<close> others are smaller
  than, whatever pivots the random numbers choose.\<close>

theorem KthElement_correct:
  assumes "\<And>a b. a < b \<Longrightarrow> a \<le> RAND a b \<and> RAND a b \<le> b" and "1 \<le> k" and "k \<le> n" and "distinct_range E 0 (n - 1)"
    and "n < 2 ^ 31"
  shows "\<exists>x E'. KthElement RAND E n k = Some (x, E') \<and> x \<in># elems E 0 (n - 1) \<and> rank (elems E 0 (n - 1)) x = nat (k - 1)"
  using QSelect_finds [OF assms(1), of 0 "k - 1" "n - 1" E] assms(2-5) by (simp add: KthElement_def last_subscript)

theorem KthElement_correct_witness:
  "\<exists>x E'. KthElement (\<lambda>a b. b) (\<lambda>i. 7 - i) 3 2 = Some (x, E') \<and> rank (elems (\<lambda>i. 7 - i) 0 2) x = 1"
  using KthElement_correct [of "\<lambda>a b. b" 2 3 "\<lambda>i. 7 - i"] by (auto simp: distinct_range_def inj_on_def)

text \<open>With equal elements it can be wrong: the second smallest element of 1, 1, 1, 3, 2 is reported to be 2.\<close>

lemma KthElement_duplicates:
  "\<exists>E'. KthElement (\<lambda>a b. a) (\<lambda>i. if i \<le> 2 then 1 else if i = 3 then 3 else 2) 5 2 = Some (2, E')"
  by (simp add: KthElement_def wrap32_def QSelect.simps partition_loop.simps scan_up.simps scan_down.simps Swap_def)

section \<open>Statistics\<close>

text \<open>\<open>ArrayStats\<close> with the mean, the variance, the smallest and the largest element and the median; \<open>None\<close> also
  stands for the division by zero on an empty array. Sums and products wrap around.\<close>

definition stats_step :: "array \<Rightarrow> int \<Rightarrow> int \<times> int \<times> int \<Rightarrow> int \<times> int \<times> int" where
  "stats_step E i = (\<lambda>(mean, mn, mx).
     (wrap32 (mean + E i), if E i < mn then E i else mn, if E i > mx then E i else mx))"

definition ArrayStats :: "(int \<Rightarrow> int \<Rightarrow> int) \<Rightarrow> array \<Rightarrow> int \<Rightarrow> ((int \<times> int \<times> int \<times> int \<times> int) \<times> array) option" where
  "ArrayStats RAND E NumOfElements =
     (let (mean, mn, mx) = fold (stats_step E) [0..NumOfElements - 1] (0, 0x7FFFFFFF, - 0x80000000) in
      Option.bind (KthElement RAND E NumOfElements (c_div NumOfElements 2)) (\<lambda>(med, E).
      if NumOfElements = 0 then None
      else
        let mean = c_div mean NumOfElements;
            var = fold (\<lambda>i v. wrap32 (v + wrap32 (wrap32 (E i - mean) * wrap32 (E i - mean)))) [0..NumOfElements - 1] 0
        in Some ((mean, c_div var NumOfElements, mn, mx, med), E)))"

lemma upto_int_Suc: "[0..int (Suc k) - 1] = [0..int k - 1] @ [int k]"
  using upto_rec2 [of 0 "int k"] by simp

lemma stats_step_eq: "stats_step E i (w, a, b) = (wrap32 (w + E i), min (E i) a, max (E i) b)"
  by (simp add: stats_step_def min_def max_def)

lemma stats_fold:
  "fold (stats_step E) [0..int n - 1] (0, 0x7FFFFFFF, - 0x80000000)
    = (wrap32 (\<Sum>i<n. E (int i)), Min (insert 0x7FFFFFFF (E ` {0..<int n})), Max (insert (- 0x80000000) (E ` {0..<int n})))"
proof (induction n)
  case 0
  show ?case by (simp add: wrap32_def)
next
  case (Suc n)
  have r: "{0..<int (Suc n)} = insert (int n) {0..<int n}" by auto
  have mn: "Min (insert 0x7FFFFFFF (E ` {0..<int (Suc n)})) = min (E (int n)) (Min (insert 0x7FFFFFFF (E ` {0..<int n})))"
    unfolding r by (simp add: insert_commute [of "0x7FFFFFFF"])
  have mx: "Max (insert (- 0x80000000) (E ` {0..<int (Suc n)})) = max (E (int n)) (Max (insert (- 0x80000000) (E ` {0..<int n})))"
    unfolding r by (simp add: insert_commute [of "- 0x80000000"])
  have sum: "(\<Sum>i<Suc n. E (int i)) = (\<Sum>i<n. E (int i)) + E (int n)" by simp
  show ?case
    unfolding upto_int_Suc fold_append o_apply Suc mn mx sum fold_simps stats_step_eq wrap32_mod(1) by (rule refl)
qed

text \<open>On different elements whose sum is an \<open>int\<close>, the results are the truncated mean, the smallest and the largest
  element, and the element of rank \<open>n / 2 - 1\<close>.\<close>

lemma ArrayStats_correct:
  assumes rnd: "\<And>a b. a < b \<Longrightarrow> a \<le> RAND a b \<and> RAND a b \<le> b" and n: "2 \<le> n" "n < 2 ^ 31" and d: "distinct_range E 0 (int n - 1)"
    and r: "\<forall>i < int n. - 0x80000000 \<le> E i \<and> E i \<le> 0x7FFFFFFF"
    and s: "- 0x80000000 \<le> (\<Sum>i<n. E (int i))" "(\<Sum>i<n. E (int i)) \<le> 0x7FFFFFFF"
  shows "\<exists>var med E'. ArrayStats RAND E (int n)
      = Some ((c_div (\<Sum>i<n. E (int i)) (int n), var, Min (E ` {0..<int n}), Max (E ` {0..<int n}), med), E')
    \<and> med \<in># elems E 0 (int n - 1) \<and> rank (elems E 0 (int n - 1)) med = n div 2 - 1"
proof -
  have h: "c_div (int n) 2 = int (n div 2)" using n by (simp add: c_div_def zdiv_int)
  have n1: "1 \<le> int (n div 2)" "int (n div 2) \<le> int n" using n by linarith+
  obtain med E' where k: "KthElement RAND E (int n) (c_div (int n) 2) = Some (med, E')" "med \<in># elems E 0 (int n - 1)"
    "rank (elems E 0 (int n - 1)) med = nat (int (n div 2) - 1)"
    using KthElement_correct [OF rnd n1 d] n(2) unfolding h by auto
  have ne: "E ` {0..<int n} \<noteq> {}" using n by simp
  have mn: "Min (insert 0x7FFFFFFF (E ` {0..<int n})) = Min (E ` {0..<int n})"
  proof -
    have "Min (E ` {0..<int n}) \<le> 0x7FFFFFFF" using r Min_in [OF _ ne] by fastforce
    then show ?thesis using Min_insert [OF _ ne, of "0x7FFFFFFF"] by (simp add: min_absorb2)
  qed
  have mx: "Max (insert (- 0x80000000) (E ` {0..<int n})) = Max (E ` {0..<int n})"
  proof -
    have "- 0x80000000 \<le> Max (E ` {0..<int n})" using r Max_in [OF _ ne] by fastforce
    then show ?thesis using Max_insert [OF _ ne, of "- 0x80000000"] by (simp add: max_absorb2)
  qed
  have w: "wrap32 (\<Sum>i<n. E (int i)) = (\<Sum>i<n. E (int i))" using s by (simp add: wrap32_def)
  show ?thesis using n k
    by (simp add: ArrayStats_def stats_fold mn mx w Let_def nat_diff_distrib)
qed

end
