(* ===== verification/Example_Programs.thy ===== *)
theory Example_Programs
  imports Prelude
begin

text \<open>
  The recursive functions of the example programs \<^verbatim>\<open>user/fos_factorial.c\<close> and \<^verbatim>\<open>user/fos_fibonacci.c\<close>; \<^verbatim>\<open>ef_fos_*.c\<close>
  have the same functions. Their \<open>int\<close> results wrap around.
\<close>

function factorial :: "int \<Rightarrow> int" where
  "factorial n = (if n \<le> 1 then 1 else wrap32 (n * factorial (n - 1)))"
  by auto

termination factorial
  by (relation "measure nat") auto

function fibonacci :: "int \<Rightarrow> int" where
  "fibonacci n = (if n \<le> 1 then 1 else wrap32 (fibonacci (n - 1) + fibonacci (n - 2)))"
  by auto

termination fibonacci
  by (relation "measure nat") auto

declare factorial.simps [simp del] fibonacci.simps [simp del]

text \<open>The functions compute the factorial and the Fibonacci numbers, which start with 1 and 1, modulo \<open>2 ^ 32\<close>.\<close>

fun fib_from_1 :: "nat \<Rightarrow> int" where
  "fib_from_1 0 = 1"
| "fib_from_1 (Suc 0) = 1"
| "fib_from_1 (Suc (Suc n)) = fib_from_1 (Suc n) + fib_from_1 n"

lemma factorial_correct: "factorial (int n) = wrap32 (fact n)"
proof (induction n)
  case 0
  show ?case by (subst factorial.simps) (simp add: wrap32_def)
next
  case (Suc n)
  show ?case
  proof (cases "n = 0")
    case True
    then show ?thesis by (subst factorial.simps) (simp add: wrap32_def)
  next
    case False
    then have "factorial (int (Suc n)) = wrap32 (int (Suc n) * wrap32 (fact n))"
      using Suc by (subst factorial.simps) simp
    also have "\<dots> = wrap32 (int (Suc n) * fact n)"
      by (rule wrap32_cong) (metis wrap32_mod_eq mod_mult_right_eq)
    finally show ?thesis by simp
  qed
qed

lemma fibonacci_correct: "fibonacci (int n) = wrap32 (fib_from_1 n)"
proof (induction n rule: fib_from_1.induct)
  case (3 n)
  have "fibonacci (int (Suc (Suc n))) = wrap32 (wrap32 (fib_from_1 (Suc n)) + wrap32 (fib_from_1 n))"
    using 3 by (subst fibonacci.simps) (simp add: add.commute)
  also have "\<dots> = wrap32 (fib_from_1 (Suc n) + fib_from_1 n)"
    by (rule wrap32_cong) (metis wrap32_mod_eq mod_add_eq)
  finally show ?case by simp
qed (subst fibonacci.simps, simp add: wrap32_def)+

text \<open>The factorial is exact up to 12.\<close>

lemma factorial_exact: "n \<le> 12 \<Longrightarrow> factorial (int n) = fact n"
proof -
  assume n: "n \<le> 12"
  have "(fact n :: int) \<le> fact 12" using n by (rule fact_mono)
  then have "(fact n :: int) < 2 ^ 31" by (simp add: fact_numeral)
  moreover have "(0 :: int) \<le> fact n" by simp
  ultimately show ?thesis unfolding factorial_correct by (simp add: wrap32_def)
qed

end
