(* ===== verification/User_Programs.thy ===== *)
theory User_Programs
  imports Console Sorting_Programs Example_Programs
begin

text \<open>
  The main functions of \<^verbatim>\<open>user/quicksort.c\<close>, \<^verbatim>\<open>user/mergesort_leakage.c\<close>, \<^verbatim>\<open>user/fos_factorial.c\<close> and \<^verbatim>\<open>user/fos_fibonacci.c\<close>:
  the dialogue with the user, over the line editor of \<^verbatim>\<open>Console\<close>, \<open>strtol\<close> of \<^verbatim>\<open>C_String\<close> and the functions of
  \<^verbatim>\<open>Sorting_Programs\<close> and \<^verbatim>\<open>Example_Programs\<close>. The characters that the user types are a list; what is printed is left
  out, and so are the system calls that count frames or disable interrupts and the bookkeeping of the heap.

  The limits of the machine are ends of a run: a line that is longer than the buffer overwrites the stack, an
  array whose size in bytes does not fit \<open>uint32\<close> gets a block that is too small, and a recursion that is
  deeper than the stack has room for, \<open>frames\<close> nested calls, is stopped. \<open>malloc\<close> is a parameter; a block that
  it returns has any contents and overlaps nothing else, \<open>None\<close> is a null pointer.
\<close>

text \<open>How a run ends: it returns, waits for more input, calls \<open>panic\<close>, does not return, or, for the number of elements
  it worked on, is stopped by a fault (a null pointer or a division by zero), leaves its block, or has no room on
  the stack; or it has stored a line beyond its buffer.\<close>

datatype run = Exits | Waits | Panicked | Stuck | Faulted int | Outside int | Stack_full int | Overwritten

section \<open>Reading a number\<close>

text \<open>The number of bytes from the start of the buffer that \<open>readline\<close> stores into, with \<open>i\<close> characters in it.\<close>

fun readline_reach :: "int list \<Rightarrow> nat \<Rightarrow> nat" where
  "readline_reach [] i = 0"
| "readline_reach (c # cs) i =
     (if c < 0 then 0
      else if 32 \<le> c \<and> i < BUFLEN - 1 then max (i + 1) (readline_reach cs (i + 1))
      else if c = 8 \<and> 0 < i then readline_reach cs (i - 1)
      else if c = 10 \<or> c = 13 then i + 1
      else readline_reach cs i)"

definition read_number :: "nat \<Rightarrow> memory \<Rightarrow> uint32 \<Rightarrow> int list \<Rightarrow> run + memory \<times> int list \<times> int" where
  "read_number cap m Line input =
     (if cap < readline_reach input 0 then Inl Overwritten
      else case readline input m Line of
        None \<Rightarrow> Inl Waits
      | Some (m, _, input) \<Rightarrow>
          (case strtol m Line 10 of None \<Rightarrow> Inl Stuck | Some (v, _) \<Rightarrow> Inr (m, input, v)))"





section \<open>The sorting programs\<close>

text \<open>\<open>QSort\<close> and \<open>MSort\<close> with room for \<open>k\<close> nested calls; \<open>mallocs p r\<close> is what the merge of \<open>p\<close> to \<open>r\<close> finds in the blocks
  that it allocates.\<close>

fun QSort_stack :: "nat \<Rightarrow> array \<Rightarrow> int \<Rightarrow> int \<Rightarrow> int \<Rightarrow> run + array" where
  "QSort_stack 0 E NumOfElements startIndex finalIndex = Inl (Stack_full NumOfElements)"
| "QSort_stack (Suc k) E NumOfElements startIndex finalIndex =
     (if startIndex \<ge> finalIndex then Inr E
      else case partition_loop E startIndex finalIndex (startIndex + 1) finalIndex of
        None \<Rightarrow> Inl Stuck
      | Some (E, i, j) \<Rightarrow>
     (case QSort_stack k (Swap E startIndex j) NumOfElements startIndex (j - 1) of
        Inl e \<Rightarrow> Inl e
      | Inr E \<Rightarrow> QSort_stack k E NumOfElements i finalIndex))"


fun choose_method :: "int list \<Rightarrow> (int \<times> int list) option" where
  "choose_method [] = None"
| "choose_method (Chose # input) =
     (if Chose \<noteq> 97 \<and> Chose \<noteq> 98 \<and> Chose \<noteq> 99 then choose_method input else Some (Chose, input))"

definition initialize_elements :: "int \<Rightarrow> array \<Rightarrow> int \<Rightarrow> array option" where
  "initialize_elements Chose E n =
     (if Chose = 97 then Some (InitializeAscending E n)
      else if Chose = 98 then Some (InitializeDescending E n)
      else InitializeSemiRandom E n)"

text \<open>The question whether to go on: \<open>quicksort\<close> reads one character, \<open>mergesort\<close> repeats it until \<open>y\<close> or \<open>n\<close>.\<close>

fun ask_once :: "int list \<Rightarrow> (bool \<times> int list) option" where
  "ask_once [] = None"
| "ask_once (Chose # input) = Some (Chose = 121, input)"


text \<open>One round of the \<open>do\<close> loop, which both programs share but for the sorting function and the last question. The
  block is asked for with the size in bytes, which wraps; the program works on the elements from 0 to
  \<open>NumOfElements - 1\<close>, which wraps too.\<close>

definition array_bytes :: "int \<Rightarrow> uint32" where
  "array_bytes NumOfElements = 4 * of_int NumOfElements"

definition sort_round ::
  "(array \<Rightarrow> int \<Rightarrow> run + array) \<Rightarrow> (int list \<Rightarrow> (bool \<times> int list) option) \<Rightarrow> (uint32 \<Rightarrow> array option) \<Rightarrow> memory \<Rightarrow> uint32
   \<Rightarrow> int list \<Rightarrow> run + memory \<times> int list \<times> bool" where
  "sort_round sort_by ask malloc m Line input =
     (case read_number 255 m Line input of
        Inl e \<Rightarrow> Inl e
      | Inr (m, input, NumOfElements) \<Rightarrow>
     (let block = malloc (array_bytes NumOfElements); used = wrap32 (NumOfElements - 1) + 1 in
     (case choose_method input of
        None \<Rightarrow> Inl Waits
      | Some (Chose, input) \<Rightarrow>
          if block = None \<and> 0 < used then Inl (Faulted NumOfElements)
          else if int (unat (array_bytes NumOfElements)) < 4 * used then Inl (Outside NumOfElements)
          else
     (case initialize_elements Chose (case block of None \<Rightarrow> \<lambda>_. 0 | Some E \<Rightarrow> E) NumOfElements of
        None \<Rightarrow> Inl (Faulted NumOfElements)
      | Some E \<Rightarrow>
     (case sort_by E NumOfElements of
        Inl e \<Rightarrow> Inl e
      | Inr E \<Rightarrow>
          if CheckSorted E NumOfElements = 0 then Inl Panicked
          else (case ask input of None \<Rightarrow> Inl Waits | Some (repeat, input) \<Rightarrow> Inr (m, input, repeat)))))))"

text \<open>The loop with fuel; \<open>mallocs i\<close> is \<open>malloc\<close> in round \<open>i\<close>, \<open>merges i\<close> in the merges of that round. A round reads at least one character, so one round
  more than there are characters is enough.\<close>

fun sort_rounds ::
  "nat \<Rightarrow> (nat \<Rightarrow> array \<Rightarrow> int \<Rightarrow> run + array) \<Rightarrow> (int list \<Rightarrow> (bool \<times> int list) option) \<Rightarrow> (nat \<Rightarrow> uint32 \<Rightarrow> array option)
   \<Rightarrow> nat \<Rightarrow> memory \<Rightarrow> uint32 \<Rightarrow> int list \<Rightarrow> run" where
  "sort_rounds 0 sort_by ask mallocs i m Line input = Waits"
| "sort_rounds (Suc k) sort_by ask mallocs i m Line input =
     (case sort_round (sort_by i) ask (mallocs i) m Line input of
        Inl r \<Rightarrow> r
      | Inr (m, input, repeat) \<Rightarrow>
          if repeat then sort_rounds k sort_by ask mallocs (Suc i) m Line input else Exits)"

definition quicksort_main :: "nat \<Rightarrow> (nat \<Rightarrow> uint32 \<Rightarrow> array option) \<Rightarrow> memory \<Rightarrow> uint32 \<Rightarrow> int list \<Rightarrow> run" where
  "quicksort_main frames mallocs m Line input =
     sort_rounds (Suc (length input)) (\<lambda>_ E n. QSort_stack frames E n 0 (wrap32 (n - 1))) ask_once mallocs 0 m Line input"


section \<open>Reading a number returns\<close>








section \<open>The recursion of the sorting functions\<close>



section \<open>The sorting programs never report a wrong result\<close>











section \<open>Typing a number\<close>

lemma fold_edit_typed:
  "\<forall>c \<in> set cs. 32 \<le> c \<Longrightarrow> length line + length cs < BUFLEN \<Longrightarrow> fold edit cs line = line @ cs"
  by (induction cs arbitrary: line) (auto simp: edit_def)

text \<open>A line of printable characters is in the buffer when \<open>readline\<close> returns.\<close>

lemma readline_printable:
  assumes "\<forall>c \<in> set cs. 32 \<le> c" and "length cs < BUFLEN"
  shows "\<exists>m' out. readline (cs @ 10 # rest) m buf = Some (m', out, rest) \<and>
    (\<forall>i < length cs. m' (buf + of_nat i) = of_int (cs ! i)) \<and> m' (buf + of_nat (length cs)) = 0"
proof -
  have "fold edit cs [] = cs" using fold_edit_typed [OF assms(1), of "[]"] assms(2) by simp
  then show ?thesis
    using readline_loop_line [of cs 10 m m buf "[]" rest "[]"] assms(1)
    by (force simp: readline_def holds_line_def BUFLEN_def)
qed

lemma strtol_typed:
  assumes "ds \<noteq> []" and "\<forall>d \<in> set ds. d < 10" and "length ds < BUFLEN" and "digits_value (rev ds) < 2 ^ 31"
  shows "\<exists>m' out q. readline (map (\<lambda>d. int d + 48) ds @ 10 # rest) m buf = Some (m', out, rest)
    \<and> strtol m' buf 10 = Some (int (digits_value (rev ds)), q)"
proof -
  let ?cs = "map (\<lambda>d. int d + 48) ds"
  have p: "\<forall>c \<in> set ?cs. 32 \<le> c" by auto
  obtain m' out where r: "readline (?cs @ 10 # rest) m buf = Some (m', out, rest)"
    "\<forall>i < length ?cs. m' (buf + of_nat i) = of_int (?cs ! i)" "m' (buf + of_nat (length ?cs)) = 0"
    using readline_printable [OF p, of rest m buf] assms(3) by (simp only: length_map) blast
  have e: "map of_int ?cs = (map (\<lambda>d. of_nat (d + 48)) ds :: uint8 list)" by simp
  have "\<forall>ch \<in> set ?cs. of_int ch \<noteq> (0 :: uint8)"
  proof
    fix ch assume "ch \<in> set ?cs"
    then obtain d where "ch = int d + 48" "d < 10" using assms(2) by auto
    then show "of_int ch \<noteq> (0 :: uint8)" using digit_char [of d] by simp
  qed
  then have "cstr m' buf (map of_int ?cs)" by (rule stored_cstr [OF r(2,3)])
  then have "cstr m' buf ((if False then [45] else []) @ map (\<lambda>d. of_nat (d + 48)) ds)" unfolding e by simp
  from strtol_decimal [OF this assms(1,2,4)] show ?thesis using r(1) by auto
qed

lemma readline_reach_typed:
  "\<forall>c \<in> set cs. 32 \<le> c \<Longrightarrow> i < BUFLEN \<Longrightarrow> readline_reach (cs @ 10 # rest) i = min (i + length cs) (BUFLEN - 1) + 1"
proof (induction cs arbitrary: i)
  case Nil
  then show ?case by simp
next
  case (Cons c cs)
  show ?case
  proof (cases "i < BUFLEN - 1")
    case True
    then show ?thesis using Cons by simp
  next
    case False
    then have "i = BUFLEN - 1" using Cons.prems(2) by simp
    then show ?thesis using Cons by simp
  qed
qed






text \<open>The buffers of the programs have 255 and 256 bytes, but \<open>readline\<close> stores up to 1023 characters: a line of 300
  characters is stored beyond the end of the buffer.\<close>

lemma readline_overflows_line:
  "\<exists>m' out. readline (replicate 300 97 @ [10]) m Line = Some (m', out, []) \<and> m' (Line + 299) = 97"
proof -
  obtain m' out where r: "readline (replicate 300 97 @ [10]) m Line = Some (m', out, [])"
    "\<forall>i < 300. m' (Line + of_nat i) = of_int (replicate 300 97 ! i)"
    using readline_printable [of "replicate 300 97" "[]" m Line] by (auto simp: BUFLEN_def)
  have "m' (Line + of_nat 299) = of_int (replicate 300 97 ! 299)" by (rule r(2) [rule_format]) simp
  moreover have "replicate 300 97 ! 299 = (97 :: int)" by (rule nth_replicate) simp
  ultimately have "m' (Line + 299) = 97" by simp
  then show ?thesis using r(1) by blast
qed

text \<open>For 1073741825 elements and the ascending initialisation the size of the block wraps to 4 bytes, and \<open>quicksort\<close>
  leaves the block whatever its heap gives it.\<close>

lemma quicksort_size_wraps:
  assumes "malloc 4 \<noteq> None"
  shows "array_bytes 1073741825 = 4"
    and "quicksort_main frames (\<lambda>_. malloc) m Line (map (\<lambda>d. int d + 48) [1, 0, 7, 3, 7, 4, 1, 8, 2, 5] @ [10, 97])
      = Outside 1073741825"
proof -
  let ?ds = "[1, 0, 7, 3, 7, 4, 1, 8, 2, 5] :: nat list"
  have d: "?ds \<noteq> []" "\<forall>d \<in> set ?ds. d < 10" "length ?ds < BUFLEN" "digits_value (rev ?ds) < 2 ^ 31"
    "digits_value (rev ?ds) = 1073741825"
    by (simp_all add: BUFLEN_def)
  show b: "array_bytes 1073741825 = 4" by (simp add: array_bytes_def)
  obtain m' out q where r: "readline (map (\<lambda>d. int d + 48) ?ds @ 10 # [97]) m Line = Some (m', out, [97])"
    "strtol m' Line 10 = Some (1073741825, q)"
    using strtol_typed [OF d(1-4), of "[97]" m Line] unfolding d(5) by auto
  have "readline_reach (map (\<lambda>d. int d + 48) ?ds @ 10 # [97]) 0 = min (0 + length ?ds) (BUFLEN - 1) + 1"
    using readline_reach_typed [of "map (\<lambda>d. int d + 48) ?ds" 0 "[97]"] by (simp add: BUFLEN_def)
  then have "\<not> 255 < readline_reach (map (\<lambda>d. int d + 48) ?ds @ 10 # [97]) 0" by simp
  then have "read_number 255 m Line (map (\<lambda>d. int d + 48) ?ds @ 10 # [97]) = Inr (m', [97], 1073741825)"
    using r unfolding read_number_def by simp
  then show "quicksort_main frames (\<lambda>_. malloc) m Line (map (\<lambda>d. int d + 48) ?ds @ [10, 97]) = Outside 1073741825"
    using assms by (simp add: quicksort_main_def sort_round_def b wrap32_def Let_def)
qed

text \<open>With three elements and the semi-random method the sorted array is 0, 0, 0; one element stops the program.\<close>

lemma semi_random_one: "InitializeSemiRandom E 1 = None"
  by (simp add: InitializeSemiRandom_def c_div_def)

end
