(* ===== verification/Trap_Entry.thy ===== *)
theory Trap_Entry
  imports Trap_Dispatch
begin

text \<open>
  The way into \<open>trap\<close> and out of it: the interrupt descriptor table that \<open>idt_init\<close> fills
  (\<^verbatim>\<open>kern/trap.c\<close>), the entry points of \<^verbatim>\<open>kern/trapentry.S\<close>, and \<open>env_pop_tf\<close>
  (\<^verbatim>\<open>kern/user_environment.c\<close>). The processor's part is modelled as its manual has it: an interrupt looks the gate
  up, changes to the stack of the task state when it comes from user code, and pushes the interrupted
  registers and, for some exceptions, an error code. The addresses of the entry points are those the linker
  chose, a parameter, and so is the upper half of the word that is pushed for a segment register.
\<close>

section \<open>Gates\<close>

text \<open>The labels of \<^verbatim>\<open>trapentry.S\<close>.\<close>

datatype entry_point = PAGE_FAULT | SYSCALL_HANDLER | DBL_FAULT | ALL_FAULTS nat

record gatedesc =
  gd_off_15_0 :: uint16
  gd_ss :: uint16
  gd_trap :: bool           \<comment> \<open>\<open>gd_type\<close>: \<open>STS_TG32\<close>, else \<open>STS_IG32\<close>\<close>
  gd_dpl :: nat
  gd_p :: bool
  gd_off_31_16 :: uint16

definition SETGATE :: "nat \<Rightarrow> bool \<Rightarrow> uint16 \<Rightarrow> uint32 \<Rightarrow> nat \<Rightarrow> (nat \<Rightarrow> gatedesc) \<Rightarrow> nat \<Rightarrow> gatedesc" where
  "SETGATE n istrap sel off dpl idt =
     idt(n := \<lparr>gd_off_15_0 = ucast off, gd_ss = sel, gd_trap = istrap, gd_dpl = dpl, gd_p = True,
               gd_off_31_16 = ucast (drop_bit 16 off)\<rparr>)"

definition gd_offset :: "gatedesc \<Rightarrow> uint32" where
  "gd_offset g = push_bit 16 (ucast (gd_off_31_16 g)) OR ucast (gd_off_15_0 g)"

definition idt_empty :: "nat \<Rightarrow> gatedesc" where
  "idt_empty = (\<lambda>_. \<lparr>gd_off_15_0 = 0, gd_ss = 0, gd_trap = False, gd_dpl = 0, gd_p = False, gd_off_31_16 = 0\<rparr>)"

text \<open>The lines of \<open>idt_init\<close>, in their order: the element of the table, whether the gate is a trap gate, the segment
  and the entry point it names, and the privilege that \<open>int\<close> needs to go through it.\<close>

definition gate_lines :: "(nat \<times> bool \<times> uint16 \<times> entry_point \<times> nat) list" where
  "gate_lines =
    [(14, False, GD_KT, PAGE_FAULT, 0),
     (48, False, GD_KT, SYSCALL_HANDLER, 3),
     (8, False, GD_KT, DBL_FAULT, 0),
     (0, False, GD_KT, ALL_FAULTS 0, 3),
     (1, True, GD_KT, ALL_FAULTS 1, 3),
     (2, False, GD_KT, ALL_FAULTS 2, 3),
     (3, True, GD_KT, ALL_FAULTS 3, 3),
     (4, True, GD_KT, ALL_FAULTS 4, 3),
     (5, False, GD_KT, ALL_FAULTS 5, 3),
     (6, False, GD_KT, ALL_FAULTS 6, 3),
     (7, False, GD_KT, ALL_FAULTS 7, 3),
     (10, False, GD_KT, ALL_FAULTS 10, 3),
     (11, False, GD_KT, ALL_FAULTS 11, 3),
     (12, False, GD_KT, ALL_FAULTS 12, 3),
     (13, False, GD_KT, ALL_FAULTS 13, 3),
     (16, False, GD_KT, ALL_FAULTS 16, 3),
     (17, False, GD_KT, ALL_FAULTS 17, 3),
     (18, False, GD_KT, ALL_FAULTS 18, 3),
     (19, False, GD_KT, ALL_FAULTS 19, 3),
     (32, False, GD_KT, ALL_FAULTS 32, 3),
     (33, False, GD_KT, ALL_FAULTS 33, 3),
     (34, False, GD_KT, ALL_FAULTS 34, 3),
     (35, False, GD_KT, ALL_FAULTS 35, 3),
     (36, False, GD_KT, ALL_FAULTS 36, 3),
     (37, False, GD_KT, ALL_FAULTS 37, 3),
     (38, False, GD_KT, ALL_FAULTS 38, 3),
     (39, False, GD_KT, ALL_FAULTS 39, 3),
     (40, False, GD_KT, ALL_FAULTS 40, 3),
     (41, False, GD_KT, ALL_FAULTS 41, 3),
     (42, False, GD_KT, ALL_FAULTS 42, 3),
     (43, False, GD_KT, ALL_FAULTS 43, 3),
     (44, False, GD_KT, ALL_FAULTS 44, 3),
     (45, False, GD_KT, ALL_FAULTS 45, 3),
     (46, False, GD_KT, ALL_FAULTS 46, 3),
     (47, False, GD_KT, ALL_FAULTS 47, 3)]"

text \<open>\<open>idt_init\<close>: the table and the stack of the task state. Loading the registers of the processor is left
  out.\<close>

record trap_tables =
  idt :: "nat \<Rightarrow> gatedesc"
  ts_esp0 :: uint32
  ts_ss0 :: uint16

definition idt_init :: "(entry_point \<Rightarrow> uint32) \<Rightarrow> trap_tables" where
  "idt_init label =
     \<lparr>idt = fold (\<lambda>(n, istrap, sel, e, dpl). SETGATE n istrap sel (label e) dpl) gate_lines idt_empty,
      ts_esp0 = KERNEL_STACK_TOP, ts_ss0 = GD_KD\<rparr>"

section \<open>Entry points\<close>

datatype entry_macro = TRAPHANDLER | TRAPHANDLER_NOEC

text \<open>The lines of \<^verbatim>\<open>trapentry.S\<close>, in their order.\<close>

definition trapentry :: "(entry_point \<times> entry_macro \<times> uint32) list" where
  "trapentry =
    [(PAGE_FAULT, TRAPHANDLER, T_PGFLT),
     (SYSCALL_HANDLER, TRAPHANDLER_NOEC, T_SYSCALL),
     (DBL_FAULT, TRAPHANDLER, T_DBLFLT),
     (ALL_FAULTS 0, TRAPHANDLER_NOEC, 0),
     (ALL_FAULTS 1, TRAPHANDLER_NOEC, 1),
     (ALL_FAULTS 2, TRAPHANDLER_NOEC, 2),
     (ALL_FAULTS 3, TRAPHANDLER_NOEC, 3),
     (ALL_FAULTS 4, TRAPHANDLER_NOEC, 4),
     (ALL_FAULTS 5, TRAPHANDLER_NOEC, 5),
     (ALL_FAULTS 6, TRAPHANDLER_NOEC, 6),
     (ALL_FAULTS 7, TRAPHANDLER_NOEC, 7),
     (ALL_FAULTS 10, TRAPHANDLER, 10),
     (ALL_FAULTS 11, TRAPHANDLER, 11),
     (ALL_FAULTS 12, TRAPHANDLER, 12),
     (ALL_FAULTS 13, TRAPHANDLER, 13),
     (ALL_FAULTS 16, TRAPHANDLER_NOEC, 16),
     (ALL_FAULTS 17, TRAPHANDLER, 17),
     (ALL_FAULTS 18, TRAPHANDLER_NOEC, 18),
     (ALL_FAULTS 19, TRAPHANDLER_NOEC, 19),
     (ALL_FAULTS 32, TRAPHANDLER_NOEC, IRQ0_Clock),
     (ALL_FAULTS 33, TRAPHANDLER_NOEC, 33),
     (ALL_FAULTS 34, TRAPHANDLER_NOEC, 34),
     (ALL_FAULTS 35, TRAPHANDLER_NOEC, 35),
     (ALL_FAULTS 36, TRAPHANDLER_NOEC, 36),
     (ALL_FAULTS 37, TRAPHANDLER_NOEC, 37),
     (ALL_FAULTS 38, TRAPHANDLER_NOEC, 38),
     (ALL_FAULTS 39, TRAPHANDLER_NOEC, 39),
     (ALL_FAULTS 40, TRAPHANDLER_NOEC, 40),
     (ALL_FAULTS 41, TRAPHANDLER_NOEC, 41),
     (ALL_FAULTS 42, TRAPHANDLER_NOEC, 42),
     (ALL_FAULTS 43, TRAPHANDLER_NOEC, 43),
     (ALL_FAULTS 44, TRAPHANDLER_NOEC, 44),
     (ALL_FAULTS 45, TRAPHANDLER_NOEC, 45),
     (ALL_FAULTS 46, TRAPHANDLER_NOEC, 46),
     (ALL_FAULTS 47, TRAPHANDLER_NOEC, 47)]"

text \<open>A stack: its pointer and the words from there on.\<close>

type_synonym stack = "uint32 \<times> uint32 list"

definition push :: "uint32 \<Rightarrow> stack \<Rightarrow> stack" where
  "push w st = (fst st - 4, w # snd st)"

fun enter :: "entry_macro \<Rightarrow> uint32 \<Rightarrow> stack \<Rightarrow> stack" where
  "enter TRAPHANDLER num st = push num st"
| "enter TRAPHANDLER_NOEC num st = push num (push 0 st)"

text \<open>The registers of the interrupted code.\<close>

record registers =
  r_edi :: uint32
  r_esi :: uint32
  r_ebp :: uint32
  r_ebx :: uint32
  r_edx :: uint32
  r_ecx :: uint32
  r_eax :: uint32
  r_es :: uint16
  r_ds :: uint16
  r_eip :: uint32
  r_cs :: uint16
  r_eflags :: uint32
  r_esp :: uint32
  r_ss :: uint16

text \<open>\<open>pushal\<close> stores the stack pointer it began with.\<close>

definition alltraps :: "(uint16 \<Rightarrow> uint32) \<Rightarrow> registers \<Rightarrow> stack \<Rightarrow> stack" where
  "alltraps seg r st =
     (let st = push (seg (r_es r)) (push (seg (r_ds r)) st); oesp = fst st in
      push (r_edi r) (push (r_esi r) (push (r_ebp r) (push oesp
        (push (r_ebx r) (push (r_edx r) (push (r_ecx r) (push (r_eax r) st))))))))"

section \<open>The processor\<close>

text \<open>What raises the interrupt: an exception of the processor with its error code, a line of the interrupt
  controller, or the instruction \<open>int n\<close>. Only exceptions push an error code, and only these.\<close>

datatype cause = Exception uint32 | Interrupt_line | Int_instruction

definition pushes_error :: "nat \<Rightarrow> bool" where
  "pushes_error n \<longleftrightarrow> n \<in> {8, 10, 11, 12, 13, 14, 17}"

fun error_code :: "cause \<Rightarrow> nat \<Rightarrow> uint32 option" where
  "error_code (Exception e) n = (if pushes_error n then Some e else None)"
| "error_code Interrupt_line n = None"
| "error_code Int_instruction n = None"

definition from_user :: "registers \<Rightarrow> bool" where
  "from_user r \<longleftrightarrow> r_cs r AND 3 \<noteq> 0"

text \<open>\<open>mem\<close> are the words from the stack pointer on: of the interrupted kernel code, or those above the kernel stack
  when the stack changes. The result is the address of the entry point and the stack it starts with; None if
  the gate is absent or not open to \<open>int\<close>, which raises another exception instead.\<close>

definition interrupt :: "trap_tables \<Rightarrow> (uint16 \<Rightarrow> uint32) \<Rightarrow> cause \<Rightarrow> nat \<Rightarrow> registers \<Rightarrow> uint32 list \<Rightarrow> (uint32 \<times> stack) option" where
  "interrupt tt seg c n r mem =
     (let g = idt tt n in
      if \<not> gd_p g \<or> c = Int_instruction \<and> gd_dpl g < unat (r_cs r AND 3) then None
      else
        let st = (if from_user r then push (r_esp r) (push (seg (r_ss r)) (ts_esp0 tt, mem)) else (r_esp r, mem));
            st = push (r_eip r) (push (seg (r_cs r)) (push (r_eflags r) st));
            st = (case error_code c n of Some e \<Rightarrow> push e st | None \<Rightarrow> st)
        in Some (gd_offset g, st))"

text \<open>From the interrupt to the call of \<open>trap\<close>: the stack whose pointer is the argument of \<open>trap\<close>.\<close>

definition trap_entry :: "(entry_point \<Rightarrow> uint32) \<Rightarrow> (uint16 \<Rightarrow> uint32) \<Rightarrow> cause \<Rightarrow> nat \<Rightarrow> registers \<Rightarrow> uint32 list \<Rightarrow> stack option" where
  "trap_entry label seg c n r mem =
     (case interrupt (idt_init label) seg c n r mem of
        None \<Rightarrow> None
      | Some (target, st) \<Rightarrow>
          (case find (\<lambda>(e, _). label e = target) trapentry of
             None \<Rightarrow> None
           | Some (_, m, num) \<Rightarrow> Some (alltraps seg r (enter m num st))))"

text \<open>The words of the stack read as a \<open>struct Trapframe\<close>, and the words of such a structure.\<close>

definition read_frame :: "uint32 list \<Rightarrow> trapframe" where
  "read_frame ws =
     \<lparr>reg_edi = ws ! 0, reg_esi = ws ! 1, reg_ebp = ws ! 2, reg_oesp = ws ! 3, reg_ebx = ws ! 4, reg_edx = ws ! 5,
      reg_ecx = ws ! 6, reg_eax = ws ! 7, tf_es = ucast (ws ! 8), tf_ds = ucast (ws ! 9), tf_trapno = ws ! 10,
      tf_err = ws ! 11, tf_eip = ws ! 12, tf_cs = ucast (ws ! 13), tf_eflags = ws ! 14, tf_esp = ws ! 15,
      tf_ss = ucast (ws ! 16)\<rparr>"

definition frame_words :: "(uint16 \<Rightarrow> uint32) \<Rightarrow> trapframe \<Rightarrow> uint32 list" where
  "frame_words seg tf =
     [reg_edi tf, reg_esi tf, reg_ebp tf, reg_oesp tf, reg_ebx tf, reg_edx tf, reg_ecx tf, reg_eax tf, seg (tf_es tf),
      seg (tf_ds tf), tf_trapno tf, tf_err tf, tf_eip tf, seg (tf_cs tf), tf_eflags tf, tf_esp tf, seg (tf_ss tf)]"

section \<open>The way back\<close>

text \<open>\<open>env_pop_tf\<close> makes the frame its stack and pops the registers from it; \<open>popal\<close> skips the saved stack pointer,
  \<open>iret\<close> changes the stack when it returns to user code. Afterwards the stack segment is \<open>ss\<close> otherwise.\<close>

definition pop :: "stack \<Rightarrow> uint32 \<times> stack" where
  "pop st = (hd (snd st), fst st + 4, tl (snd st))"

definition env_pop_tf :: "uint16 \<Rightarrow> stack \<Rightarrow> registers" where
  "env_pop_tf ss st =
     (let (edi, st) = pop st; (esi, st) = pop st; (ebp, st) = pop st; (_, st) = pop st; (ebx, st) = pop st;
          (edx, st) = pop st; (ecx, st) = pop st; (eax, st) = pop st;
          (es, st) = pop st; (ds, st) = pop st;
          st = (fst st + 8, drop 2 (snd st));
          (eip, st) = pop st; (cs, st) = pop st; (eflags, st) = pop st;
          (esp, ss) = (if (ucast cs :: uint16) AND 3 \<noteq> 0
                       then let (esp, st) = pop st; (ss, st) = pop st in (esp, ucast ss) else (fst st, ss))
      in \<lparr>r_edi = edi, r_esi = esi, r_ebp = ebp, r_ebx = ebx, r_edx = edx, r_ecx = ecx, r_eax = eax, r_es = ucast es,
          r_ds = ucast ds, r_eip = eip, r_cs = ucast cs, r_eflags = eflags, r_esp = esp, r_ss = ss\<rparr>)"

section \<open>Properties\<close>

lemma gd_offset_split:
  "push_bit 16 (ucast (ucast (drop_bit 16 off) :: uint16)) OR ucast (ucast off :: uint16) = (off :: uint32)"
  by (rule bit_word_eqI) (auto simp: bit_simps)

lemma fold_SETGATE:
  "distinct (map fst ls) \<Longrightarrow>
    fold (\<lambda>(n, istrap, sel, e, dpl). SETGATE n istrap sel (label e) dpl) ls t n =
      (case map_of ls n of
         None \<Rightarrow> t n
       | Some (istrap, sel, e, dpl) \<Rightarrow> SETGATE n istrap sel (label e) dpl t n)"
proof (induction ls arbitrary: t)
  case Nil
  then show ?case by simp
next
  case (Cons l ls)
  obtain m i s e d where l: "l = (m, i, s, e, d)" by (rule prod_cases5)
  have "map_of ls m = None" using Cons.prems l by (simp add: map_of_eq_None_iff)
  then show ?case using Cons.IH [of "SETGATE m i s (label e) d t"] Cons.prems l
    by (auto simp: SETGATE_def split: option.splits)
qed

lemma distinct_gates: "distinct (map fst gate_lines)"
  by (simp add: gate_lines_def)

lemma distinct_entries: "distinct (map fst trapentry)"
  by (simp add: trapentry_def)

text \<open>The lines of both files fit together: the gate of a number leads to an entry point that pushes this number, and
  a zero unless the processor pushes an error code.\<close>

definition line_fits :: "nat \<times> bool \<times> uint16 \<times> entry_point \<times> nat \<Rightarrow> bool" where
  "line_fits = (\<lambda>(n, istrap, sel, e, dpl).
     map_of trapentry e = Some (if pushes_error n then TRAPHANDLER else TRAPHANDLER_NOEC, of_nat n)
     \<and> sel = GD_KT \<and> dpl = (if n = 8 \<or> n = 14 then 0 else 3))"

lemma lines_fit: "list_all line_fits gate_lines"
  by code_simp

lemma gate_numbers: "fst ` set gate_lines = {n. n < 20 \<and> n \<notin> {9, 15}} \<union> {32..48}"
proof -
  have "fst ` set gate_lines = set (map fst gate_lines)" by simp
  also have "\<dots> = set (filter (\<lambda>n. n \<notin> {9, 15}) [0..<20] @ [32..<49])" by code_simp
  finally show ?thesis unfolding set_append set_filter set_upt by (intro set_eqI) (simp, arith)
qed

lemma idt_gate:
  "idt (idt_init label) n =
    (case map_of gate_lines n of
       None \<Rightarrow> idt_empty n
     | Some (istrap, sel, e, dpl) \<Rightarrow> SETGATE n istrap sel (label e) dpl idt_empty n)"
  by (simp add: idt_init_def fold_SETGATE [OF distinct_gates])

lemma find_entry:
  assumes "inj_on label (fst ` set es)" and "map_of es e = Some (m, num)"
  shows "find (\<lambda>(e', _). label e' = label e) es = Some (e, m, num)"
  using assms
proof (induction es)
  case Nil
  then show ?case by simp
next
  case (Cons x es)
  obtain e' m' num' where x: "x = (e', m', num')" by (rule prod_cases3)
  show ?case
  proof (cases "e' = e")
    case True
    then show ?thesis using Cons.prems(2) x by simp
  next
    case False
    then have "e \<in> fst ` set es" using Cons.prems(2) x by (auto simp: rev_image_eqI dest!: map_of_SomeD)
    then have "label e' \<noteq> label e" using False Cons.prems(1) x by (auto simp: inj_on_def)
    then show ?thesis using Cons False x by (simp add: inj_on_def)
  qed
qed

text \<open>The gate of a number that has one.\<close>

definition gated :: "nat \<Rightarrow> bool" where
  "gated n \<longleftrightarrow> n < 20 \<and> n \<notin> {9, 15} \<or> 32 \<le> n \<and> n \<le> 48"

lemma gated_iff: "gated n \<longleftrightarrow> n \<in> fst ` set gate_lines"
  unfolding gate_numbers by (auto simp: gated_def)

lemma gate_of:
  assumes "gated n"
  obtains istrap e where
    "idt (idt_init label) n = \<lparr>gd_off_15_0 = ucast (label e), gd_ss = GD_KT, gd_trap = istrap,
       gd_dpl = (if n = 8 \<or> n = 14 then 0 else 3), gd_p = True, gd_off_31_16 = ucast (drop_bit 16 (label e))\<rparr>"
    and "map_of trapentry e = Some (if pushes_error n then TRAPHANDLER else TRAPHANDLER_NOEC, of_nat n)"
proof -
  obtain istrap sel e dpl where l: "map_of gate_lines n = Some (istrap, sel, e, dpl)"
    using assms unfolding gated_iff by (cases "map_of gate_lines n") (auto simp: map_of_eq_None_iff)
  have "line_fits (n, istrap, sel, e, dpl)"
    using lines_fit map_of_SomeD [OF l] by (auto simp: list_all_iff)
  then show thesis using that [of e istrap] l by (auto simp: line_fits_def idt_gate SETGATE_def)
qed

lemma no_gate: "\<not> gated n \<Longrightarrow> idt (idt_init label) n = idt_empty n"
  unfolding gated_iff idt_gate by (simp add: map_of_eq_None_iff [symmetric])

text \<open>A cause that the hardware can produce: exceptions and interrupt lines have their own numbers.\<close>

fun cause_ok :: "cause \<Rightarrow> nat \<Rightarrow> bool" where
  "cause_ok (Exception e) n \<longleftrightarrow> n < 32"
| "cause_ok Interrupt_line n \<longleftrightarrow> 32 \<le> n \<and> n < 48"
| "cause_ok Int_instruction n \<longleftrightarrow> True"

definition admitted :: "cause \<Rightarrow> nat \<Rightarrow> registers \<Rightarrow> bool" where
  "admitted c n r \<longleftrightarrow> gated n \<and> \<not> (c = Int_instruction \<and> from_user r \<and> n \<in> {8, 14})"

definition entry_frame :: "cause \<Rightarrow> nat \<Rightarrow> registers \<Rightarrow> uint32 \<Rightarrow> uint32 list \<Rightarrow> trapframe" where
  "entry_frame c n r oesp mem =
     \<lparr>reg_edi = r_edi r, reg_esi = r_esi r, reg_ebp = r_ebp r, reg_oesp = oesp, reg_ebx = r_ebx r, reg_edx = r_edx r,
      reg_ecx = r_ecx r, reg_eax = r_eax r, tf_es = r_es r, tf_ds = r_ds r, tf_trapno = of_nat n,
      tf_err = (case error_code c n of Some e \<Rightarrow> e | None \<Rightarrow> 0), tf_eip = r_eip r, tf_cs = r_cs r,
      tf_eflags = r_eflags r, tf_esp = (if from_user r then r_esp r else mem ! 0),
      tf_ss = (if from_user r then r_ss r else ucast (mem ! 1))\<rparr>"

lemma from_user_dpl:
  assumes "r_cs r AND 3 \<in> {0, 3}"
  shows "unat (r_cs r AND 3) = (if from_user r then 3 else 0)"
  using assms by (auto simp: from_user_def)

lemma trap_entry_enters:
  assumes "inj_on label (fst ` set trapentry)" and "r_cs r AND 3 \<in> {0, 3}"
  shows "trap_entry label seg c n r mem =
    (if admitted c n r then
       (let st = (if from_user r then push (r_esp r) (push (seg (r_ss r)) (KERNEL_STACK_TOP, mem)) else (r_esp r, mem));
            st = push (r_eip r) (push (seg (r_cs r)) (push (r_eflags r) st));
            st = (case error_code c n of Some e \<Rightarrow> push e st | None \<Rightarrow> st)
        in Some (alltraps seg r (push (of_nat n) (if pushes_error n then st else push 0 st))))
     else None)"
proof (cases "gated n")
  case True
  obtain istrap e where g: "idt (idt_init label) n = \<lparr>gd_off_15_0 = ucast (label e), gd_ss = GD_KT, gd_trap = istrap,
       gd_dpl = (if n = 8 \<or> n = 14 then 0 else 3), gd_p = True, gd_off_31_16 = ucast (drop_bit 16 (label e))\<rparr>"
    and m: "map_of trapentry e = Some (if pushes_error n then TRAPHANDLER else TRAPHANDLER_NOEC, of_nat n)"
    using gate_of [OF True] by blast
  have o: "gd_offset (idt (idt_init label) n) = label e" unfolding g gd_offset_def by (simp add: gd_offset_split)
  have t: "ts_esp0 (idt_init label) = KERNEL_STACK_TOP" by (simp add: idt_init_def)
  have f: "find (\<lambda>(e', _). label e' = label e) trapentry =
    Some (e, if pushes_error n then TRAPHANDLER else TRAPHANDLER_NOEC, of_nat n)"
    by (rule find_entry [OF assms(1) m])
  have a: "(\<not> gd_p (idt (idt_init label) n) \<or> c = Int_instruction \<and> gd_dpl (idt (idt_init label) n) < unat (r_cs r AND 3))
      \<longleftrightarrow> \<not> admitted c n r"
    using True by (simp add: g from_user_dpl [OF assms(2)] admitted_def)
  show ?thesis
    unfolding trap_entry_def interrupt_def Let_def a o t by (simp add: f)
next
  case False
  then show ?thesis by (simp add: trap_entry_def interrupt_def Let_def admitted_def no_gate idt_empty_def)
qed

lemma env_pop_frame:
  assumes "\<And>x. ucast (seg x) = x"
  shows "env_pop_tf ss (a, frame_words seg tf) =
    \<lparr>r_edi = reg_edi tf, r_esi = reg_esi tf, r_ebp = reg_ebp tf, r_ebx = reg_ebx tf, r_edx = reg_edx tf,
     r_ecx = reg_ecx tf, r_eax = reg_eax tf, r_es = tf_es tf, r_ds = tf_ds tf, r_eip = tf_eip tf, r_cs = tf_cs tf,
     r_eflags = tf_eflags tf, r_esp = (if tf_cs tf AND 3 \<noteq> 0 then tf_esp tf else a + 60),
     r_ss = (if tf_cs tf AND 3 \<noteq> 0 then tf_ss tf else ss)\<rparr>"
  by (simp add: env_pop_tf_def pop_def frame_words_def assms eval_nat_numeral)

lemma entered_frame:
  assumes u: "\<And>x. ucast (seg x) = x" and c: "c = Int_instruction \<Longrightarrow> \<not> pushes_error n" and ok: "cause_ok c n"
    and i: "inj_on label (fst ` set trapentry)" and cs: "r_cs r AND 3 \<in> {0, 3}" and ad: "admitted c n r"
  shows "\<exists>a oesp ws. trap_entry label seg c n r mem = Some (a, ws) \<and> read_frame ws = entry_frame c n r oesp mem
    \<and> a = (if from_user r then KERNEL_STACK_TOP - 68 else r_esp r - 60)"
proof -
  have e: "error_code c n = (if pushes_error n then Some (the (error_code c n)) else None)"
    using c ok by (cases c) (auto simp: pushes_error_def)
  show ?thesis
  proof (cases "pushes_error n")
    case True
    then have "error_code c n = Some (the (error_code c n))" using e by simp
    then obtain d where d: "error_code c n = Some d" by blast
    show ?thesis unfolding trap_entry_enters [OF i cs] using True d ad
      by (simp add: alltraps_def push_def Let_def read_frame_def entry_frame_def u eval_nat_numeral)
  next
    case False
    then have d: "error_code c n = None" using e by simp
    show ?thesis unfolding trap_entry_enters [OF i cs] using False d ad
      by (simp add: alltraps_def push_def Let_def read_frame_def entry_frame_def u eval_nat_numeral)
  qed
qed

lemma shifted_frame:
  assumes u: "\<And>x. ucast (seg x) = x" and c: "c = Int_instruction" "pushes_error n"
    and i: "inj_on label (fst ` set trapentry)" and cs: "r_cs r AND 3 \<in> {0, 3}" and ad: "admitted c n r"
  shows "\<exists>a ws. trap_entry label seg c n r mem = Some (a, ws) \<and> tf_trapno (read_frame ws) = of_nat n
    \<and> tf_err (read_frame ws) = r_eip r \<and> tf_eip (read_frame ws) = seg (r_cs r)
    \<and> tf_cs (read_frame ws) = ucast (r_eflags r)"
  unfolding trap_entry_enters [OF i cs] using c ad
  by (simp add: alltraps_def push_def Let_def read_frame_def u eval_nat_numeral)

text \<open>C35: the way into \<open>trap\<close> and back. An interrupt enters \<open>trap\<close> exactly if its number has a gate, and
  user code cannot raise the double fault and the page fault with \<open>int\<close>. The structure on the stack then has
  the number of the trap, the error code, or 0 for an interrupt without one, and every register of the interrupted
  code, and \<open>env_pop_tf\<close> on that structure, at its address on the stack or saved elsewhere when it
  comes from user code, gives all of them back. The one exception is \<open>int n\<close> for an exception that
  has an error code, which user code may execute for 10 to 13 and 17: the processor pushes none, the entry
  point puts no 0 in its place, and the instruction pointer is read as the error code, the code segment as
  the instruction pointer and the flags as the code segment.\<close>

theorem trap_entry_return:
  assumes "inj_on label (fst ` set trapentry)" and "\<And>x. ucast (seg x) = x"
    and "r_cs r AND 3 \<in> {0, 3}" and "cause_ok c n"
  shows "(trap_entry label seg c n r mem = None \<longleftrightarrow>
      \<not> (n < 20 \<and> n \<notin> {9, 15} \<or> 32 \<le> n \<and> n \<le> 48) \<or> c = Int_instruction \<and> from_user r \<and> n \<in> {8, 14})
    \<and> (\<forall>a ws. trap_entry label seg c n r mem = Some (a, ws) \<longrightarrow>
        (let tf = read_frame ws in
         tf_trapno tf = of_nat n \<and>
         (if c = Int_instruction \<and> n \<in> {8, 10, 11, 12, 13, 14, 17}
          then tf_err tf = r_eip r \<and> tf_eip tf = seg (r_cs r) \<and> tf_cs tf = ucast (r_eflags r)
          else tf_err tf = (case error_code c n of Some e \<Rightarrow> e | None \<Rightarrow> 0)
            \<and> env_pop_tf (if from_user r then GD_KD else r_ss r) (a, frame_words seg tf) = r
            \<and> (from_user r \<longrightarrow> (\<forall>b. env_pop_tf GD_KD (b, frame_words seg tf) = r)))))"
proof (cases "admitted c n r")
  case False
  then have "trap_entry label seg c n r mem = None" unfolding trap_entry_enters [OF assms(1,3)] by simp
  moreover have "\<not> (n < 20 \<and> n \<notin> {9, 15} \<or> 32 \<le> n \<and> n \<le> 48) \<or> c = Int_instruction \<and> from_user r \<and> n \<in> {8, 14}"
    using False by (auto simp: admitted_def gated_def)
  ultimately show ?thesis by simp
next
  case True
  have gate: "\<not> (\<not> (n < 20 \<and> n \<notin> {9, 15} \<or> 32 \<le> n \<and> n \<le> 48) \<or> c = Int_instruction \<and> from_user r \<and> n \<in> {8, 14})"
    using True by (auto simp: admitted_def gated_def)
  have errors: "pushes_error n \<longleftrightarrow> n \<in> {8, 10, 11, 12, 13, 14, 17}" by (simp add: pushes_error_def)
  show ?thesis
  proof (cases "c = Int_instruction \<and> pushes_error n")
    case shift: True
    from shifted_frame [OF assms(2) conjunct1 [OF shift] conjunct2 [OF shift] assms(1,3) True]
    obtain a ws where w: "trap_entry label seg c n r mem = Some (a, ws)" "tf_trapno (read_frame ws) = of_nat n"
      "tf_err (read_frame ws) = r_eip r" "tf_eip (read_frame ws) = seg (r_cs r)"
      "tf_cs (read_frame ws) = ucast (r_eflags r)" by blast
    show ?thesis using w gate shift unfolding errors [symmetric] by (simp add: Let_def)
  next
    case shift: False
    obtain a oesp ws where w: "trap_entry label seg c n r mem = Some (a, ws)" "read_frame ws = entry_frame c n r oesp mem"
      "a = (if from_user r then KERNEL_STACK_TOP - 68 else r_esp r - 60)"
      using entered_frame [OF assms(2) _ assms(4,1,3) True] shift by blast
    have "env_pop_tf (if from_user r then GD_KD else r_ss r) (a, frame_words seg (read_frame ws)) = r"
      "from_user r \<longrightarrow> (\<forall>b. env_pop_tf GD_KD (b, frame_words seg (read_frame ws)) = r)"
      unfolding env_pop_frame [OF assms(2)] w(2,3) by (simp_all add: entry_frame_def from_user_def)
    moreover have "tf_trapno (read_frame ws) = of_nat n"
      "tf_err (read_frame ws) = (case error_code c n of Some e \<Rightarrow> e | None \<Rightarrow> 0)"
      unfolding w(2) by (simp_all add: entry_frame_def)
    ultimately show ?thesis using gate shift unfolding errors [symmetric] w(1) Let_def by force
  qed
qed

text \<open>Entry points 16 bytes apart, and a program that executes \<open>int\<close>.\<close>

definition sample_label :: "entry_point \<Rightarrow> uint32" where
  "sample_label e = (case e of PAGE_FAULT \<Rightarrow> 0xF0103000 | SYSCALL_HANDLER \<Rightarrow> 0xF0103010 | DBL_FAULT \<Rightarrow> 0xF0103020
     | ALL_FAULTS n \<Rightarrow> 0xF0104000 + 16 * of_nat n)"

definition sample_registers :: registers where
  "sample_registers = \<lparr>r_edi = 1, r_esi = 2, r_ebp = 3, r_ebx = 4, r_edx = 5, r_ecx = 6, r_eax = 7, r_es = 0x23,
     r_ds = 0x23, r_eip = 0x800020, r_cs = 0x1B, r_eflags = 0x203, r_esp = 0xEEBFDF00, r_ss = 0x23\<rparr>"

lemma sample_inj: "inj_on sample_label (fst ` set trapentry)"
proof -
  have "distinct (map sample_label (map fst trapentry))" by code_simp
  then show ?thesis unfolding distinct_map by simp
qed

theorem trap_entry_return_witness:
  "\<exists>a ws. trap_entry sample_label ucast Int_instruction 48 sample_registers [0, 0] = Some (a, ws)
    \<and> tf_trapno (read_frame ws) = 48 \<and> tf_err (read_frame ws) = 0
    \<and> env_pop_tf GD_KD (a, frame_words ucast (read_frame ws)) = sample_registers"
proof -
  have u: "from_user sample_registers" "r_cs sample_registers AND 3 \<in> {0, 3}"
    by (simp_all add: from_user_def sample_registers_def)
  have s: "ucast (ucast x :: uint32) = x" for x :: uint16
    by (rule bit_word_eqI) (auto simp: bit_simps)
  note r = trap_entry_return [OF sample_inj s u(2), of Int_instruction 48 "[0, 0]"]
  have "trap_entry sample_label ucast Int_instruction 48 sample_registers [0, 0] \<noteq> None" using r by simp
  then obtain a ws where "trap_entry sample_label ucast Int_instruction 48 sample_registers [0, 0] = Some (a, ws)" by force
  then show ?thesis using r u by (auto simp: Let_def)
qed

end
