(* ===== verification/Interrupt_Controller.thy ===== *)
theory Interrupt_Controller
  imports Clock
begin

text \<open>
  The port writes of \<^verbatim>\<open>kern/picirq.c\<close> and what they do to the two 8259A controllers. A controller is the state
  machine that the comments of the code describe: a byte with bit 4 written to its first port starts the
  initialisation and clears the mask, the next three bytes written to its second port are the vector offset, the
  cascade and the mode, and every later one is the mask.
\<close>

definition IO_PIC1 :: uint16 where "IO_PIC1 = 0x20"
definition IO_PIC2 :: uint16 where "IO_PIC2 = 0xA0"
definition IRQ_SLAVE :: nat where "IRQ_SLAVE = 2"
definition IRQ_OFFSET :: uint8 where "IRQ_OFFSET = 32"

section \<open>The writes\<close>

definition setmask_writes :: "uint16 \<Rightarrow> bool \<Rightarrow> (uint16 \<times> uint8) list" where
  "setmask_writes msk did =
     (if \<not> did then [] else [(IO_PIC1 + 1, ucast msk), (IO_PIC2 + 1, ucast (drop_bit 8 msk))])"

definition pic_init_writes :: "uint16 \<Rightarrow> (uint16 \<times> uint8) list" where
  "pic_init_writes msk =
     [(IO_PIC1 + 1, 0xFF), (IO_PIC2 + 1, 0xFF),
      (IO_PIC1, 0x11), (IO_PIC1 + 1, IRQ_OFFSET), (IO_PIC1 + 1, push_bit IRQ_SLAVE 1), (IO_PIC1 + 1, 0x3),
      (IO_PIC2, 0x11), (IO_PIC2 + 1, IRQ_OFFSET + 8), (IO_PIC2 + 1, of_nat IRQ_SLAVE), (IO_PIC2 + 1, 0x01),
      (IO_PIC1, 0x68), (IO_PIC1, 0x0a), (IO_PIC2, 0x68), (IO_PIC2, 0x0a)] @
     (if msk \<noteq> 0xFFFF then setmask_writes msk True else [])"

section \<open>The controllers\<close>

record pic8259 =
  icw_next :: nat        \<comment> \<open>the initialisation byte that is expected, 0 in operation\<close>
  vector_offset :: uint8
  cascade :: uint8
  pic_mode :: uint8
  imr :: uint8

definition chip_write :: "bool \<Rightarrow> uint8 \<Rightarrow> pic8259 \<Rightarrow> pic8259" where
  "chip_write second b c =
     (if \<not> second then (if bit b 4 then c\<lparr>icw_next := 2, imr := 0\<rparr> else c)
      else if icw_next c = 2 then c\<lparr>icw_next := 3, vector_offset := b\<rparr>
      else if icw_next c = 3 then c\<lparr>icw_next := 4, cascade := b\<rparr>
      else if icw_next c = 4 then c\<lparr>icw_next := 0, pic_mode := b\<rparr>
      else c\<lparr>imr := b\<rparr>)"

definition pics_write :: "uint16 \<times> uint8 \<Rightarrow> pic8259 \<times> pic8259 \<Rightarrow> pic8259 \<times> pic8259" where
  "pics_write w ps =
     (if fst w AND NOT 1 = IO_PIC1 then (chip_write (bit (fst w) 0) (snd w) (fst ps), snd ps)
      else if fst w AND NOT 1 = IO_PIC2 then (fst ps, chip_write (bit (fst w) 0) (snd w) (snd ps))
      else ps)"

definition imr_of :: "pic8259 \<times> pic8259 \<Rightarrow> uint16" where
  "imr_of ps = push_bit 8 (ucast (imr (snd ps))) OR ucast (imr (fst ps))"

text \<open>The controllers after \<open>pic_init\<close>: interrupt 0 raises trap 32, the slave answers on line 2 with traps 40 to 47,
  and the master ends interrupts automatically, so the kernel sends no end of interrupt.\<close>

definition pics_ready :: "pic8259 \<times> pic8259 \<Rightarrow> bool" where
  "pics_ready ps \<longleftrightarrow> icw_next (fst ps) = 0 \<and> vector_offset (fst ps) = 32 \<and> cascade (fst ps) = 4 \<and> pic_mode (fst ps) = 3 \<and>
     icw_next (snd ps) = 0 \<and> vector_offset (snd ps) = 40 \<and> cascade (snd ps) = 2 \<and> pic_mode (snd ps) = 1"

section \<open>Lemmas\<close>

lemma pics_write_ports:
  "pics_write (IO_PIC1, b) (m, s) = (chip_write False b m, s)"
  "pics_write (IO_PIC1 + 1, b) (m, s) = (chip_write True b m, s)"
  "pics_write (IO_PIC2, b) (m, s) = (m, chip_write False b s)"
  "pics_write (IO_PIC2 + 1, b) (m, s) = (m, chip_write True b s)"
  by (simp_all add: pics_write_def IO_PIC1_def IO_PIC2_def)

lemma imr_of_bytes:
  "imr (fst ps) = ucast m \<Longrightarrow> imr (snd ps) = ucast (drop_bit 8 m) \<Longrightarrow> imr_of ps = (m :: uint16)"
proof -
  assume a: "imr (fst ps) = ucast m" "imr (snd ps) = ucast (drop_bit 8 m)"
  show ?thesis unfolding imr_of_def a
  proof (rule bit_word_eqI)
    fix n assume "n < LENGTH(16)"
    then show "bit (push_bit 8 (ucast (ucast (drop_bit 8 m) :: uint8)) OR ucast (ucast m :: uint8) :: uint16) n = bit m n"
      by (cases "n < 8") (auto simp: bit_simps)
  qed
qed

lemma setmask_writes_mask:
  assumes "pics_ready ps"
  shows "imr_of (fold pics_write (setmask_writes msk True) ps) = msk \<and> pics_ready (fold pics_write (setmask_writes msk True) ps)"
proof -
  obtain m s where ps: "ps = (m, s)" by force
  then have "fold pics_write (setmask_writes msk True) ps = (m\<lparr>imr := ucast msk\<rparr>, s\<lparr>imr := ucast (drop_bit 8 msk)\<rparr>)"
    using assms by (simp add: setmask_writes_def pics_write_ports chip_write_def pics_ready_def)
  then show ?thesis using assms by (simp add: imr_of_bytes pics_ready_def ps)
qed

lemma pic_init_writes_ready:
  "\<exists>ps'. pics_ready ps' \<and> imr_of ps' = 0 \<and>
    fold pics_write (pic_init_writes msk) ps = fold pics_write (if msk \<noteq> 0xFFFF then setmask_writes msk True else []) ps'"
proof -
  obtain m s where ps: "ps = (m, s)" by force
  let ?m = "m\<lparr>imr := 0, vector_offset := 32, cascade := 4, icw_next := 0, pic_mode := 3\<rparr>"
  let ?s = "s\<lparr>imr := 0, vector_offset := 40, cascade := 2, icw_next := 0, pic_mode := 1\<rparr>"
  have "fold pics_write (pic_init_writes msk) ps
      = fold pics_write (if msk \<noteq> 0xFFFF then setmask_writes msk True else []) (?m, ?s)"
    by (simp add: ps pic_init_writes_def pics_write_ports chip_write_def IRQ_OFFSET_def IRQ_SLAVE_def)
  moreover have "pics_ready (?m, ?s)" "imr_of (?m, ?s) = 0" by (simp_all add: pics_ready_def imr_of_def)
  ultimately show ?thesis by blast
qed

text \<open>Whatever the controllers held, the initialisation sets them up, and their masks are those of the kernel state.\<close>

theorem pic_init_programs:
  "pics_ready (fold pics_write (pic_init_writes (irq_mask_8259A (clock s))) ps) \<and>
   imr_of (fold pics_write (pic_init_writes (irq_mask_8259A (clock s))) ps) = pic_mask (clock (pic_init s))"
proof -
  obtain ps' where "pics_ready ps'" "imr_of ps' = 0"
    and "fold pics_write (pic_init_writes (irq_mask_8259A (clock s))) ps
      = fold pics_write (if irq_mask_8259A (clock s) \<noteq> 0xFFFF then setmask_writes (irq_mask_8259A (clock s)) True else []) ps'"
    using pic_init_writes_ready by blast
  then show ?thesis
    using setmask_writes_mask [of ps'] by (simp add: pic_init_def Let_def upd_clock_def irq_setmask_8259A_def)
qed

text \<open>With every interrupt masked before, the initialisation leaves none masked: it writes no mask after the
  initialisation bytes, which clear the mask.\<close>

lemma pic_init_unmasks: "irq_mask_8259A (clock s) = 0xFFFF \<Longrightarrow> pic_mask (clock (pic_init s)) = 0"
  by (simp add: pic_init_def Let_def upd_clock_def)

end
