(* ===== verification/Panics.thy ===== *)
theory Panics
  imports Sched
begin

text \<open>
  The panic routines of \<^verbatim>\<open>kern/init.c\<close>. In the other theories a panic is the end of an operation; here is what the
  kernel does then, from the state in which it stopped: \<open>panic\<close> ends the running environment and schedules the
  next one, \<open>kpanic_all\<close>, which a false \<open>assert\<close> calls, ends every runnable one, and \<open>kpanic_into_prompt\<close> stops in the
  command prompt. What they print is left out.
\<close>

text \<open>The part of \<open>_panic\<close> and \<open>_panic_all\<close> after the message; the second calls of the scheduler are reached only if
  the first return.\<close>

definition then_schedule :: "control result \<Rightarrow> control result" where
  "then_schedule r = bindE r (\<lambda>(ctl, s). if ctl = Returns then fos_scheduler s else Inr (ctl, s))"

definition panic_curenv :: "kernel \<Rightarrow> control result" where
  "panic_curenv s =
     then_schedule (case curenv s of
        None \<Rightarrow> Inr (Returns, s)
      | Some c \<Rightarrow> if env_status (envs s c) = ENV_RUNNABLE then env_exit s else Inr (Returns, s))"

definition panic_all :: "kernel \<Rightarrow> control result" where
  "panic_all s =
     bindE (sched_exit_all_ready_envs s) (\<lambda>s.
     then_schedule (case curenv s of
        None \<Rightarrow> Inr (Returns, s)
      | Some c \<Rightarrow> sched_exit_env (env_id (envs s c)) s))"

definition panic_into_prompt :: "kernel \<Rightarrow> control result" where
  "panic_into_prompt s =
     bindE (case curenv s of
        None \<Rightarrow> Inr s
      | Some c \<Rightarrow>
          if env_status (envs s c) = ENV_RUNNABLE
          then bindE (sched_insert_exit (Some c) s) (\<lambda>s. Inr (s\<lparr>curenv := None\<rparr>)) else Inr s) (\<lambda>s.
     Inr (CommandPrompt, s\<lparr>cr3 := phys_page_directory s, scheduler_status := SCH_STOPPED\<rparr>))"

text \<open>What follows a halt of the model: a false assertion is \<open>kpanic_all\<close>, a panic is \<open>panic\<close>.\<close>

definition after_halt :: "halt \<Rightarrow> kernel \<Rightarrow> control result" where
  "after_halt h s = (case h of
     Panic _ \<Rightarrow> panic_curenv s
   | AssertFailed _ \<Rightarrow> panic_all s
   | _ \<Rightarrow> Inl h)"

section \<open>Exiting environments\<close>

lemma insert_exit_unbuffered:
  assumes "EnableBuffering (cfg s) = 0" and "e \<notin> set (env_exit_queue s)"
  shows "sched_insert_exit (Some e) s = Inr (set_status e ENV_EXIT s\<lparr>env_exit_queue := e # env_exit_queue s\<rparr>)"
  using assms by (simp add: sched_insert_exit_def isBufferingEnabled_def enqueue_def)

lemma each_ready_exit:
  assumes "EnableBuffering (cfg s) = 0" and "distinct (env_ready_queue s @ env_exit_queue s)"
  shows "\<exists>t. each_in env_ready_queue (\<lambda>e s. bindE (lst_remove e (env_ready_queue s)) (\<lambda>q.
         sched_insert_exit (Some e) (s\<lparr>env_ready_queue := q\<rparr>))) s = Inr t \<and>
    t = s\<lparr>env_ready_queue := [], env_exit_queue := rev (env_ready_queue s) @ env_exit_queue s, envs := envs t\<rparr> \<and>
    (\<forall>d. env_id (envs t d) = env_id (envs s d) \<and>
       env_status (envs t d) = (if d \<in> set (env_ready_queue s) then ENV_EXIT else env_status (envs s d)))"
proof -
  let ?b = "\<lambda>e s. bindE (lst_remove e (env_ready_queue s)) (\<lambda>q. sched_insert_exit (Some e) (s\<lparr>env_ready_queue := q\<rparr>))"
  have "\<exists>t. foreach n env_ready_queue ?b (first_of vs) s = Inr t \<and>
    t = s\<lparr>env_ready_queue := [], env_exit_queue := rev vs @ env_exit_queue s, envs := envs t\<rparr> \<and>
    (\<forall>d. env_id (envs t d) = env_id (envs s d) \<and> env_status (envs t d) = (if d \<in> set vs then ENV_EXIT else env_status (envs s d)))"
    if "env_ready_queue s = vs" "distinct (vs @ env_exit_queue s)" "length vs \<le> n" "EnableBuffering (cfg s) = 0" for vs n s
    using that
  proof (induction n arbitrary: vs s)
    case 0
    then show ?case by simp
  next
    case (Suc n)
    show ?case
    proof (cases vs)
      case Nil
      then show ?thesis using Suc.prems by simp
    next
      case (Cons e ws)
      let ?t = "set_status e ENV_EXIT (s\<lparr>env_ready_queue := ws\<rparr>)\<lparr>env_exit_queue := e # env_exit_queue s\<rparr>"
      have b: "?b e s = Inr ?t"
        using Suc.prems Cons by (simp add: insert_exit_unbuffered)
      obtain u where u: "foreach n env_ready_queue ?b (first_of ws) ?t = Inr u"
        "u = ?t\<lparr>env_ready_queue := [], env_exit_queue := rev ws @ env_exit_queue ?t, envs := envs u\<rparr>"
        "\<forall>d. env_id (envs u d) = env_id (envs ?t d) \<and> env_status (envs u d) = (if d \<in> set ws then ENV_EXIT else env_status (envs ?t d))"
        using Suc.IH [of ?t ws] Suc.prems Cons by auto
      have "next_of e (env_ready_queue s) = first_of ws"
        using Suc.prems Cons next_of_append [of e "[]" ws] by simp
      moreover have "u = s\<lparr>env_ready_queue := [], env_exit_queue := rev vs @ env_exit_queue s, envs := envs u\<rparr>"
        by (subst u(2)) (simp add: Cons set_status_def upd_env_def)
      ultimately show ?thesis using b u(1,3) Cons by (intro exI [of _ u]) simp
    qed
  qed
  from this [of s "env_ready_queue s" "length (env_ready_queue s)"] show ?thesis using assms unfolding each_in_def by simp
qed

text \<open>The running environment exits: it goes to the exit queue and the scheduler chooses among the ready ones.\<close>

definition leave :: "nat \<Rightarrow> kernel \<Rightarrow> kernel" where
  "leave c s = set_status c ENV_EXIT s\<lparr>env_exit_queue := c # env_exit_queue s, curenv := None\<rparr>"

lemma sched_exit_running:
  assumes "curenv s = Some c" and "num_of_ready_queues s = 1" and "EnableBuffering (cfg s) = 0"
    and "distinct (env_new_queue s)" and "c \<notin> set (env_exit_queue s)"
    and "\<forall>d \<in> set (env_new_queue s @ env_ready_queue s). env_id (envs s d) \<noteq> env_id (envs s c)"
  shows "sched_exit_env (env_id (envs s c)) s = fos_scheduler (leave c s)"
proof -
  let ?i = "env_id (envs s c)"
  have n: "foreach (length (env_new_queue s)) (\<lambda>(_, s). env_new_queue s)
        (\<lambda>e (found, s). if env_id (envs s e) = ?i
           then bindE (sched_remove_new (Some e) s) (\<lambda>s. Inr (True, s)) else Inr (found, s))
        (first_of (env_new_queue s)) (False, s) = Inr (False, s)"
    using kill_matching_none [of env_new_queue s ?i "\<lambda>e. sched_remove_new (Some e)"] assms(4,6)
    by (simp add: kill_matching_def)
  have r: "find (\<lambda>e. env_id (envs s e) = ?i) (env_ready_queue s) = None"
    using assms(6) by (auto simp: find_None_iff)
  have c: "(set_status c ENV_EXIT s)\<lparr>env_exit_queue := c # env_exit_queue s\<rparr>\<lparr>curenv := None\<rparr> = leave c s"
    by (simp add: leave_def)
  show ?thesis
    unfolding sched_exit_env_def n
    using assms(1-3,5) r by (simp add: ready_at_def insert_exit_unbuffered c deref_def)
qed

lemma leave_queues: "queues_ok s \<Longrightarrow> curenv s = Some c \<Longrightarrow> queues_ok (leave c s)"
  by (auto simp: queues_ok_def leave_def rr_list_def)

lemma leave_sel:
  "curenv (leave c s) = None" "env_ready_queue (leave c s) = env_ready_queue s" "env_new_queue (leave c s) = env_new_queue s"
  "env_exit_queue (leave c s) = c # env_exit_queue s" "sched_ok (leave c s) = sched_ok s"
  "env_id (envs (leave c s) d) = env_id (envs s d)"
  "env_status (envs (leave c s) d) = (if d = c then ENV_EXIT else env_status (envs s d))"
  "phys_page_directory (leave c s) = phys_page_directory s"
  by (simp_all add: leave_def sched_ok_def set_status_def upd_env_def)

lemma queues_ok_running:
  assumes "queues_ok s" and "curenv s = Some c"
  shows "distinct (env_new_queue s)" "c \<notin> set (env_exit_queue s)" "env_status (envs s c) = ENV_RUNNABLE"
    "distinct (env_ready_queue s @ env_exit_queue s)"
  using assms by (auto simp: queues_ok_def rr_list_def)

text \<open>The ids of the environments that are queued or run are different.\<close>

definition unique_ids :: "kernel \<Rightarrow> bool" where
  "unique_ids s \<longleftrightarrow> inj_on (\<lambda>e. env_id (envs s e)) (set (rr_list (curenv s) (env_ready_queue s @ env_new_queue s @ env_exit_queue s)))"

lemma unique_ids_running:
  assumes "unique_ids s" and "queues_ok s" and "curenv s = Some c" and "d \<in> set (env_new_queue s @ env_ready_queue s)"
  shows "env_id (envs s d) \<noteq> env_id (envs s c)"
proof -
  have "d \<noteq> c" using assms(2-4) by (auto simp: queues_ok_def rr_list_def)
  moreover have "d \<in> set (rr_list (curenv s) (env_ready_queue s @ env_new_queue s @ env_exit_queue s))"
    "c \<in> set (rr_list (curenv s) (env_ready_queue s @ env_new_queue s @ env_exit_queue s))"
    using assms(3,4) by (auto simp: rr_list_def)
  ultimately show ?thesis using assms(1) unfolding unique_ids_def inj_on_def by blast
qed

lemma env_exit_running:
  assumes "queues_ok s" and "sched_ok s" and "unique_ids s" and "num_of_ready_queues s = 1" and "EnableBuffering (cfg s) = 0"
    and "curenv s = Some c"
  shows "\<exists>ctl s'. env_exit s = Inr (ctl, s') \<and> ctl \<noteq> Returns \<and> fos_scheduler (leave c s) = Inr (ctl, s')"
proof -
  have "sched_exit_env (env_id (envs s c)) s = fos_scheduler (leave c s)"
    using assms queues_ok_running [OF assms(1,6)] unique_ids_running [OF assms(3,1,6)]
    by (intro sched_exit_running) auto
  moreover obtain ctl s' where "fos_scheduler (leave c s) = Inr (ctl, s')" "ctl \<noteq> Returns"
    using fos_scheduler_keeps [OF leave_queues [OF assms(1,6)]] assms(2) by (fastforce simp: leave_sel)
  ultimately show ?thesis using assms(6) by (simp add: env_exit_def deref_def)
qed

section \<open>The panic routines\<close>

text \<open>The scheduler with nothing running takes the environment at the end of the ready queue.\<close>

lemma fos_scheduler_next:
  assumes "queues_ok s" and "sched_ok s" and "curenv s = None"
  shows "\<exists>ctl s'. fos_scheduler s = Inr (ctl, s') \<and> queues_ok s' \<and> env_new_queue s' = env_new_queue s \<and>
    env_exit_queue s' = env_exit_queue s \<and>
    (case ctl of
       Runs e \<Rightarrow> env_ready_queue s = env_ready_queue s' @ [e] \<and> curenv s' = Some e
     | CommandPrompt \<Rightarrow> env_ready_queue s = [] \<and> env_ready_queue s' = [] \<and> curenv s' = None \<and>
         scheduler_status s' = SCH_STOPPED \<and> cr3 s' = phys_page_directory s
     | Returns \<Rightarrow> False)"
proof (cases "env_ready_queue s = []")
  case True
  then obtain t where "fos_scheduler s = Inr (CommandPrompt, s\<lparr>scheduler_status := SCH_STOPPED, env_ready_queue := [],
      clock := t, curenv := None, cr3 := phys_page_directory s\<rparr>)"
    using fos_scheduler_idle [OF assms(2)] assms(3) by (auto simp: rr_list_def)
  then show ?thesis using assms(1,3) True by (auto simp: queues_ok_def rr_list_def)
next
  case False
  then obtain l e where l: "env_ready_queue s = l @ [e]" using list_last_cases by blast
  have "distinct (rr_list (curenv s) (env_ready_queue s))" "rr_list (curenv s) (env_ready_queue s) = l @ [e]"
    using assms(1,3) l by (auto simp: rr_list_def queues_ok_def)
  from fos_scheduler_runs [OF assms(2) this] obtain t where t: "fos_scheduler s =
      Inr (Runs e, env_run e (s\<lparr>scheduler_status := SCH_STARTED, env_ready_queue := l, clock := t\<rparr>))" by blast
  then show ?thesis using fos_scheduler_keeps [OF assms(1,2)] assms(3) l by (auto simp: env_run_sel)
qed

text \<open>C37: a panic ends the running environment: it goes to the exit queue, and the environment that has been ready
  longest runs next, or the command prompt if there is none. No other environment is touched.\<close>

theorem panic_exits_running:
  assumes "queues_ok s" and "sched_ok s" and "unique_ids s" and "num_of_ready_queues s = 1" and "EnableBuffering (cfg s) = 0"
    and "curenv s = Some c"
  shows "\<exists>ctl s'. panic_curenv s = Inr (ctl, s') \<and> queues_ok s' \<and> env_new_queue s' = env_new_queue s \<and>
    env_exit_queue s' = c # env_exit_queue s \<and>
    (case ctl of
       Runs e \<Rightarrow> env_ready_queue s = env_ready_queue s' @ [e] \<and> curenv s' = Some e
     | CommandPrompt \<Rightarrow> env_ready_queue s = [] \<and> curenv s' = None \<and> cr3 s' = phys_page_directory s
     | Returns \<Rightarrow> False)"
proof -
  obtain ctl s' where x: "env_exit s = Inr (ctl, s')" "ctl \<noteq> Returns" "fos_scheduler (leave c s) = Inr (ctl, s')"
    using env_exit_running [OF assms] by blast
  have "panic_curenv s = Inr (ctl, s')"
    using x assms(6) queues_ok_running(3) [OF assms(1,6)] by (simp add: panic_curenv_def then_schedule_def)
  then show ?thesis
    using fos_scheduler_next [OF leave_queues [OF assms(1,6)]] assms(2) x(3)
    by (auto simp: leave_sel split: control.splits)
qed

text \<open>A false assertion ends every running and ready environment and stops in the command prompt, in the kernel's
  address space; environments that were not started stay where they are.\<close>

theorem panic_all_stops:
  assumes "queues_ok s" and "sched_ok s" and "unique_ids s" and "num_of_ready_queues s = 1" and "EnableBuffering (cfg s) = 0"
    and "curenv s = Some c"
  shows "\<exists>s'. panic_all s = Inr (CommandPrompt, s') \<and> queues_ok s' \<and> env_new_queue s' = env_new_queue s \<and>
    env_ready_queue s' = [] \<and> curenv s' = None \<and> cr3 s' = phys_page_directory s \<and> scheduler_status s' = SCH_STOPPED \<and>
    env_exit_queue s' = c # rev (env_ready_queue s) @ env_exit_queue s"
proof -
  note d = queues_ok_running [OF assms(1,6)]
  obtain t where t: "sched_exit_all_ready_envs s = Inr t"
    "t = s\<lparr>env_ready_queue := [], env_exit_queue := rev (env_ready_queue s) @ env_exit_queue s, envs := envs t\<rparr>"
    and st: "\<forall>d. env_id (envs t d) = env_id (envs s d) \<and>
       env_status (envs t d) = (if d \<in> set (env_ready_queue s) then ENV_EXIT else env_status (envs s d))"
    using each_ready_exit [OF assms(5) d(4)] assms(4) by (auto simp: sched_exit_all_ready_envs_def ready_at_def)
  have sel: "curenv t = Some c" "num_of_ready_queues t = 1" "EnableBuffering (cfg t) = 0" "env_new_queue t = env_new_queue s"
    "env_ready_queue t = []" "env_exit_queue t = rev (env_ready_queue s) @ env_exit_queue s" "sched_ok t"
    "phys_page_directory t = phys_page_directory s"
    using assms by (subst t(2), simp add: sched_ok_def)+
  have q: "queues_ok t"
    using assms(1,6) st unfolding queues_ok_def sel by (auto simp: rr_list_def)
  have u: "\<forall>d \<in> set (env_new_queue t @ env_ready_queue t). env_id (envs t d) \<noteq> env_id (envs t c)"
    using unique_ids_running [OF assms(3,1,6)] st by (simp add: sel)
  have x: "sched_exit_env (env_id (envs t c)) t = fos_scheduler (leave c t)"
    using queues_ok_running [OF q sel(1)] sel u by (intro sched_exit_running) auto
  obtain ctl s' where s': "fos_scheduler (leave c t) = Inr (ctl, s')" "queues_ok s'" "env_new_queue s' = env_new_queue t"
    "env_exit_queue s' = c # env_exit_queue t" "ctl = CommandPrompt" "env_ready_queue s' = []" "curenv s' = None"
    "scheduler_status s' = SCH_STOPPED" "cr3 s' = phys_page_directory t"
  proof -
    have "sched_ok (leave c t)" "curenv (leave c t) = None" using sel(7) by (simp_all add: leave_sel)
    from fos_scheduler_next [OF leave_queues [OF q sel(1)] this] obtain ctl s' where
      n: "fos_scheduler (leave c t) = Inr (ctl, s')" "queues_ok s'" "env_new_queue s' = env_new_queue (leave c t)"
        "env_exit_queue s' = env_exit_queue (leave c t)"
      and ctl: "case ctl of Runs e \<Rightarrow> env_ready_queue (leave c t) = env_ready_queue s' @ [e] \<and> curenv s' = Some e
       | CommandPrompt \<Rightarrow> env_ready_queue (leave c t) = [] \<and> env_ready_queue s' = [] \<and> curenv s' = None \<and>
           scheduler_status s' = SCH_STOPPED \<and> cr3 s' = phys_page_directory (leave c t)
       | Returns \<Rightarrow> False" by blast
    show thesis by (rule that [of ctl s']) (use n ctl sel(5) in \<open>cases ctl; simp add: leave_sel\<close>)+
  qed
  then show ?thesis by (simp add: panic_all_def t(1) then_schedule_def sel x)
qed

text \<open>\<open>kpanic_into_prompt\<close> ends the running environment only; the ready ones wait in their queue.\<close>

lemma panic_into_prompt_stops:
  assumes "queues_ok s" and "EnableBuffering (cfg s) = 0" and "curenv s = Some c"
  shows "panic_into_prompt s = Inr (CommandPrompt, leave c s\<lparr>cr3 := phys_page_directory s, scheduler_status := SCH_STOPPED\<rparr>)"
  using assms(2,3) queues_ok_running [OF assms(1,3)]
  by (simp add: panic_into_prompt_def insert_exit_unbuffered leave_def set_status_def upd_env_def)

text \<open>Environment 0 runs, 2 and 1 are ready, 3 is new.\<close>

definition panic_m :: kernel where
  "panic_m = tiny\<lparr>curenv := Some 0, env_ready_queue := [2, 1], env_new_queue := [3], scheduler_status := SCH_STARTED,
     envs := (\<lambda>i. zero_env\<lparr>env_id := 0x1000 OR of_nat i,
       env_status := (if i = 0 then ENV_RUNNABLE else if i = 3 then ENV_NEW else ENV_READY)\<rparr>)\<rparr>"

lemma panic_m_ok:
  "queues_ok panic_m" "sched_ok panic_m" "unique_ids panic_m" "num_of_ready_queues panic_m = 1"
  "EnableBuffering (cfg panic_m) = 0" "curenv panic_m = Some 0"
proof -
  show "sched_ok panic_m" using tiny_sched by (simp add: sched_ok_def panic_m_def)
qed (simp_all add: queues_ok_def unique_ids_def panic_m_def rr_list_def tiny_def status_defs)

lemma panic_m_queues: "env_ready_queue panic_m = [2, 1]" "env_new_queue panic_m = [3]" "env_exit_queue panic_m = []"
  by (simp_all add: panic_m_def tiny_def)

theorem panic_exits_running_witness:
  "\<exists>s'. panic_curenv panic_m = Inr (Runs 1, s') \<and> env_ready_queue s' = [2] \<and> env_exit_queue s' = [0]"
proof -
  from panic_exits_running [OF panic_m_ok, unfolded panic_m_queues] obtain ctl s'
    where p: "panic_curenv panic_m = Inr (ctl, s')" "env_exit_queue s' = [0]"
      and "case ctl of Runs e \<Rightarrow> [2, 1] = env_ready_queue s' @ [e] \<and> curenv s' = Some e
       | CommandPrompt \<Rightarrow> [2, 1 :: nat] = [] \<and> curenv s' = None \<and> cr3 s' = phys_page_directory panic_m
       | Returns \<Rightarrow> False" by blast
  then have "ctl = Runs 1" "env_ready_queue s' = [2]" by (cases ctl; simp add: append_eq_Cons_conv Cons_eq_append_conv)+
  then show ?thesis using p by blast
qed

theorem panic_all_stops_witness:
  "\<exists>s'. panic_all panic_m = Inr (CommandPrompt, s') \<and> env_exit_queue s' = [0, 1, 2] \<and> env_new_queue s' = [3]"
  using panic_all_stops [OF panic_m_ok] by (auto simp: panic_m_queues)

end
