(* ===== verification/Loop_Detection.thy ===== *)
theory Loop_Detection
  imports Linked_List
begin

text \<open>
  \<open>detect_modified_loop\<close> of \<^verbatim>\<open>kern/trap.c\<close>: the search for a cycle in the list of modified frames with a slow and a
  fast pointer, at the level of the links of \<^verbatim>\<open>Linked_List\<close>. The result says whether the message about a loop is
  printed; \<open>None\<close> would be a search that does not end. The list may be damaged in any way: the links of its elements
  need not be those of a list.
\<close>

partial_function (option) detect_loop :: "'p store \<Rightarrow> 'p option \<Rightarrow> 'p option \<Rightarrow> bool option" where
  "detect_loop st slowPtr fastPtr =
     (case slowPtr of None \<Rightarrow> Some False
      | Some slow \<Rightarrow>
     (case fastPtr of None \<Rightarrow> Some False
      | Some fast \<Rightarrow>
          let fastPtr = le_next (st fast) in
          if fastPtr = slowPtr then Some True
          else
            (case fastPtr of None \<Rightarrow> Some False
             | Some fast \<Rightarrow>
                 let fastPtr = le_next (st fast) in
                 if fastPtr = slowPtr then Some True
                 else detect_loop st (le_next (st slow)) fastPtr)))"

definition detect_modified_loop :: "'p lhead \<times> 'p store \<Rightarrow> bool option" where
  "detect_modified_loop = (\<lambda>(h, st). detect_loop st (lh_first h) (lh_first h))"

section \<open>Following the links\<close>

fun nth_link :: "'p store \<Rightarrow> 'p option \<Rightarrow> nat \<Rightarrow> 'p option" where
  "nth_link st p 0 = p"
| "nth_link st p (Suc n) = Option.bind (nth_link st p n) (\<lambda>x. le_next (st x))"

lemma nth_link_add: "nth_link st p a = nth_link st p b \<Longrightarrow> nth_link st p (a + k) = nth_link st p (b + k)"
  by (induction k) simp_all

lemma nth_link_None: "nth_link st p a = None \<Longrightarrow> nth_link st p (a + k) = None"
  by (induction k) simp_all

lemma nth_link_period:
  assumes "nth_link st p a = nth_link st p (a + d)" and "a \<le> i"
  shows "nth_link st p (i + k * d) = nth_link st p i"
proof (induction k)
  case (Suc k)
  obtain j where j: "i = a + j" using assms(2) le_Suc_ex by blast
  have "nth_link st p (a + d + (j + k * d)) = nth_link st p (a + (j + k * d))"
    by (rule nth_link_add) (simp add: assms(1))
  then show ?case using Suc j by (simp add: algebra_simps)
qed simp

text \<open>A list that ends has no element twice.\<close>

lemma nth_link_ends_distinct:
  assumes "nth_link st p n = None" and "nth_link st p a = nth_link st p (a + d)" and "0 < d"
  shows "nth_link st p a = None"
proof -
  have "n \<le> a + n * d" using assms(3) by (cases d) simp_all
  then have "nth_link st p (a + n * d) = None" using nth_link_None [OF assms(1), of "a + n * d - n"] by simp
  then show ?thesis using nth_link_period [OF assms(2), of a n] by simp
qed

lemma nth_link_repeats:
  assumes "finite A" and "\<And>n. \<exists>x \<in> A. nth_link st p n = Some x"
  shows "\<exists>a d. 0 < d \<and> nth_link st p a = nth_link st p (a + d)"
proof -
  have "range (nth_link st p) \<subseteq> Some ` A" using assms(2) by blast
  then have "finite (range (nth_link st p))" using assms(1) by (meson finite_imageI finite_subset)
  then have "\<not> inj (nth_link st p)" using finite_imageD infinite_UNIV_nat by blast
  then obtain a b where "a < b" "nth_link st p a = nth_link st p b"
    unfolding inj_def by (metis linorder_neqE_nat)
  then show ?thesis by (intro exI [of _ a] exI [of _ "b - a"]) simp
qed

section \<open>The search\<close>

lemma detect_loop_step:
  assumes "nth_link st p i = Some x" and "nth_link st p (2 * i) = Some y"
  shows "detect_loop st (nth_link st p i) (nth_link st p (2 * i)) =
    (if nth_link st p (2 * i + 1) = nth_link st p i then Some True
     else if nth_link st p (2 * i + 1) = None then Some False
     else if nth_link st p (2 * i + 2) = nth_link st p i then Some True
     else detect_loop st (nth_link st p (Suc i)) (nth_link st p (2 * Suc i)))"
  using assms by (subst detect_loop.simps) (auto simp: Let_def split: option.splits)

lemma detect_loop_ends:
  assumes "nth_link st p n = None"
  shows "detect_loop st (nth_link st p i) (nth_link st p (2 * i)) = Some False"
proof (induction "n - 2 * i" arbitrary: i rule: less_induct)
  case less
  show ?case
  proof (cases "nth_link st p i = None \<or> nth_link st p (2 * i) = None")
    case True
    then show ?thesis by (subst detect_loop.simps) (auto split: option.splits)
  next
    case False
    then obtain x y where xy: "nth_link st p i = Some x" "nth_link st p (2 * i) = Some y" by auto
    have "2 * i < n" using False assms nth_link_None [of st p n "2 * i - n"] by (metis le_add_diff_inverse not_less)
    then have next_round: "detect_loop st (nth_link st p (Suc i)) (nth_link st p (2 * Suc i)) = Some False" by (intro less) simp
    have "nth_link st p (2 * i + k) \<noteq> nth_link st p i" if "0 < k" for k
      using nth_link_ends_distinct [OF assms, of i "i + k"] that xy(1) by (auto simp: mult_2 add.assoc)
    from this [of 1] this [of 2] have "nth_link st p (2 * i + 1) \<noteq> nth_link st p i" "nth_link st p (2 * i + 2) \<noteq> nth_link st p i"
      by (simp_all del: nth_link.simps)
    then show ?thesis unfolding detect_loop_step [OF xy] next_round by (simp only: if_False if_cancel)
  qed
qed

lemma detect_loop_cycle:
  assumes "\<And>n. nth_link st p n \<noteq> None" and "nth_link st p a = nth_link st p (a + d)" and "0 < d" and "i \<le> d * (a + 1) - 1"
  shows "detect_loop st (nth_link st p i) (nth_link st p (2 * i)) = Some True"
  using assms(4)
proof (induction "d * (a + 1) - 1 - i" arbitrary: i rule: less_induct)
  case less
  obtain x y where xy: "nth_link st p i = Some x" "nth_link st p (2 * i) = Some y" using assms(1) by blast
  show ?case
  proof (cases "i = d * (a + 1) - 1")
    case True
    then have "i + 1 = (a + 1) * d" "a \<le> i" using assms(3) by (cases d; simp)+
    then have "nth_link st p (i + (i + 1)) = nth_link st p i"
      using nth_link_period [OF assms(2), of i "a + 1"] by (simp del: nth_link.simps)
    then have "nth_link st p (2 * i + 1) = nth_link st p i" by (simp only: mult_2 add.assoc)
    then show ?thesis unfolding detect_loop_step [OF xy] by simp
  next
    case False
    then have "detect_loop st (nth_link st p (Suc i)) (nth_link st p (2 * Suc i)) = Some True"
      using less.prems by (intro less) simp_all
    then show ?thesis unfolding detect_loop_step [OF xy] using assms(1) [of "2 * i + 1"] by (simp only: if_False if_cancel)
  qed
qed

text \<open>C38: the search ends on every list of finitely many elements, damaged or not, and reports a loop exactly when
  following the links from the head never reaches the end.\<close>

theorem detect_modified_loop_decides:
  assumes "finite A" and "set_option (lh_first h) \<subseteq> A" and "\<And>x. x \<in> A \<Longrightarrow> set_option (le_next (st x)) \<subseteq> A"
  shows "detect_modified_loop (h, st) = Some (\<forall>n. nth_link st (lh_first h) n \<noteq> None)"
proof (cases "\<exists>n. nth_link st (lh_first h) n = None")
  case True
  then show ?thesis
    using detect_loop_ends [where i = 0] by (force simp: detect_modified_loop_def)
next
  case False
  have "set_option (nth_link st (lh_first h) n) \<subseteq> A" for n
    using assms(2,3) by (induction n) (auto simp: Option.bind_eq_Some_conv split: bind_splits)
  then have "\<exists>x \<in> A. nth_link st (lh_first h) n = Some x" for n using False [simplified] by (metis elem_set not_Some_eq subsetD)
  from nth_link_repeats [OF assms(1) this] obtain a d where "0 < d" "nth_link st (lh_first h) a = nth_link st (lh_first h) (a + d)"
    by blast
  then have "detect_loop st (nth_link st (lh_first h) 0) (nth_link st (lh_first h) (2 * 0)) = Some True"
    using False by (intro detect_loop_cycle) simp_all
  then show ?thesis using False by (simp add: detect_modified_loop_def)
qed


text \<open>A list that the macros of \<^verbatim>\<open>Linked_List\<close> represent has no loop.\<close>

lemma detect_modified_loop_list:
  assumes "dll h st xs"
  shows "detect_modified_loop (h, st) = Some False"
proof -
  have seg: "nth_link st (first_of ys) (length ys) = None" if "dseg st q ys None" for q ys
    using that
  proof (induction ys arbitrary: q)
    case Nil
    then show ?case by simp
  next
    case (Cons y ys)
    have "nth_link st (Some y) (Suc n) = nth_link st (le_next (st y)) n" for n by (induction n) simp_all
    moreover have "le_next (st y) = first_of ys" using Cons.prems by (cases ys) simp_all
    ultimately show ?case using Cons by (cases ys) auto
  qed
  have "dseg st None xs None" "lh_first h = first_of xs" using assms by (simp_all add: dll_def)
  then show ?thesis using detect_loop_ends [OF seg, where i = 0] by (simp add: detect_modified_loop_def)
qed

text \<open>Elements 0 to 3 in a row whose last link leads back to element 1.\<close>

definition lasso :: "nat store" where
  "lasso = (\<lambda>x. \<lparr>le_next = Some (if x < 3 then x + 1 else 1), le_prev = None\<rparr>)"

theorem detect_modified_loop_decides_witness:
  "detect_modified_loop (\<lparr>lh_first = Some 0, lh_last = Some 3, ptr_next = None, lsize = 4\<rparr>, lasso) = Some True"
proof -
  have "nth_link lasso (Some 0) n \<noteq> None" for n by (induction n) (auto simp: lasso_def)
  moreover have "set_option (le_next (lasso x)) \<subseteq> {0..<4}" if "x \<in> {0..<4}" for x using that by (simp add: lasso_def)
  ultimately show ?thesis
    using detect_modified_loop_decides [of "{0..<4}" "\<lparr>lh_first = Some 0, lh_last = Some 3, ptr_next = None, lsize = 4\<rparr>" lasso]
    by simp
qed

end
