(* ===== verification/Sched_Frame.thy ===== *)
theory Sched_Frame
  imports Trap_Dispatch
begin

text \<open>
  What the memory management leaves alone. \<open>same_sched s t\<close> says that two kernel states agree on
  everything that says where an environment is: \<open>curenv\<close>, the three queues, the free list and the status and id
  of every environment. Every operation on frames, page tables, the page file, working sets and user memory keeps it,
  whatever it returns; the lemmas are in the collection \<open>keep\<close>, one per operation, and a proof that an operation
  keeps it is the unfolding of its definition and the rules for sequencing and loops. The invariant of the kernel in
  \<open>Kernel_Invariant\<close> rests on them.
\<close>

named_theorems keep "operations that leave the places of environments alone"

definition same_sched :: "kernel \<Rightarrow> kernel \<Rightarrow> bool" where
  "same_sched s t \<longleftrightarrow> curenv t = curenv s \<and> env_ready_queue t = env_ready_queue s \<and> env_new_queue t = env_new_queue s
     \<and> env_exit_queue t = env_exit_queue s \<and> env_free_list t = env_free_list s
     \<and> (\<forall>e. env_status (envs t e) = env_status (envs s e) \<and> env_id (envs t e) = env_id (envs s e))"

definition keeps :: "kernel \<Rightarrow> halt + 'a \<times> kernel \<Rightarrow> bool" where
  "keeps s r \<longleftrightarrow> okE (\<lambda>(_, t). same_sched s t) r"

definition keepk :: "kernel \<Rightarrow> halt + kernel \<Rightarrow> bool" where
  "keepk s r \<longleftrightarrow> okE (same_sched s) r"

section \<open>Rules\<close>

lemma same_sched_refl [simp]: "same_sched s s"
  by (simp add: same_sched_def)

lemma same_sched_trans: "same_sched s t \<Longrightarrow> same_sched t u \<Longrightarrow> same_sched s u"
  by (simp add: same_sched_def)

lemma same_sched_fields [simp]:
  "same_sched s (t\<lparr>pmem := m\<rparr>) = same_sched s t" "same_sched s (t\<lparr>disk := d\<rparr>) = same_sched s t"
  "same_sched s (t\<lparr>frames_info := fi\<rparr>) = same_sched s t" "same_sched s (t\<lparr>free_frame_list := l\<rparr>) = same_sched s t"
  "same_sched s (t\<lparr>modified_frame_list := l\<rparr>) = same_sched s t"
  "same_sched s (t\<lparr>disk_free_frame_list := l\<rparr>) = same_sched s t" "same_sched s (t\<lparr>cr2 := a\<rparr>) = same_sched s t"
  "same_sched s (t\<lparr>cr3 := a\<rparr>) = same_sched s t" "same_sched s (t\<lparr>cfg := c\<rparr>) = same_sched s t"
  "same_sched s (t\<lparr>semaphores := sm\<rparr>) = same_sched s t" "same_sched s (t\<lparr>shares := sh\<rparr>) = same_sched s t"
  "same_sched s (t\<lparr>clock := k\<rparr>) = same_sched s t" "same_sched s (t\<lparr>chk := ck\<rparr>) = same_sched s t"
  "same_sched s (t\<lparr>scheduler_status := v\<rparr>) = same_sched s t" "same_sched s (t\<lparr>quantum := q\<rparr>) = same_sched s t"
  "same_sched s (t\<lparr>scheduler_method := v\<rparr>) = same_sched s t" "same_sched s (t\<lparr>num_of_ready_queues := n\<rparr>) = same_sched s t"
  "same_sched s (t\<lparr>number_of_frames := n\<rparr>) = same_sched s t"
  by (simp_all add: same_sched_def)

lemma same_sched_mem [simp]:
  "same_sched s (wr f i v t) = same_sched s t" "same_sched s (wr_page f p t) = same_sched s t"
  "same_sched s (upd_fi f g t) = same_sched s t"
  by (simp_all add: wr_def wr_page_def upd_fi_def)

lemma same_sched_upd_env [simp]:
  "(\<And>en. env_status (f en) = env_status en \<and> env_id (f en) = env_id en) \<Longrightarrow> same_sched s (upd_env e f t) = same_sched s t"
  by (auto simp: same_sched_def upd_env_def)

lemma env_sets [simp]:
  "env_id (set_ws i va em en) = env_id en" "env_id (set_tws i va em en) = env_id en"
  "env_id (set_ws_va i va en) = env_id en" "env_id (addTableToTableWorkingSet a en) = env_id en"
  "env_status (set_ws i va em en) = env_status en" "env_status (set_tws i va em en) = env_status en"
  "env_status (set_ws_va i va en) = env_status en" "env_status (addTableToTableWorkingSet a en) = env_status en"
  by (simp_all add: set_ws_def set_tws_def set_ws_va_def addTableToTableWorkingSet_def Let_def)

lemma same_sched_fold:
  "same_sched s t \<Longrightarrow> (\<And>x u. same_sched s u \<Longrightarrow> same_sched s (f x u)) \<Longrightarrow> same_sched s (fold f xs t)"
  by (induction xs arbitrary: t) auto

lemma keeps_simps [simp]:
  "keeps s (Inl h)" "keeps s (Inr (a, t)) = same_sched s t" "keepk s (Inl h)" "keepk s (Inr t) = same_sched s t"
  by (simp_all add: keeps_def keepk_def)

lemma keep_bind:
  "keeps s m \<Longrightarrow> (\<And>a t. same_sched s t \<Longrightarrow> keeps s (f (a, t))) \<Longrightarrow> keeps s (bindE m f)"
  "keepk s k \<Longrightarrow> (\<And>t. same_sched s t \<Longrightarrow> keeps s (g t)) \<Longrightarrow> keeps s (bindE k g)"
  "keeps s m \<Longrightarrow> (\<And>a t. same_sched s t \<Longrightarrow> keepk s (f' (a, t))) \<Longrightarrow> keepk s (bindE m f')"
  "keepk s k \<Longrightarrow> (\<And>t. same_sched s t \<Longrightarrow> keepk s (g' t)) \<Longrightarrow> keepk s (bindE k g')"
  by (auto simp: keeps_def keepk_def okE_bindE elim!: okE_weaken)

text \<open>Binding a value that does not hold a kernel state.\<close>

lemma keep_bind_value: "(\<And>a. keeps s (f a)) \<Longrightarrow> keeps s (bindE r f)" "(\<And>a. keepk s (g a)) \<Longrightarrow> keepk s (bindE r g)"
  by (auto simp: keeps_def keepk_def okE_iff bindE_eq_Inr)

lemmas keep_value =
  keep_bind_value [where 'a = nat] keep_bind_value [where 'a = "nat list"] keep_bind_value [where 'a = uint32]
  keep_bind_value [where 'a = env] keep_bind_value [where 'a = "program_segment option"]
  keep_bind_value [where 'a = "int \<times> (nat \<Rightarrow> uint32)"] keep_bind_value [where 'a = int]
  keep_bind_value [where 'a = string] keep_bind_value [where 'a = bool] keep_bind_value [where 'a = unit]
  keep_bind_value [where 'a = "uint8 list"] keep_bind_value [where 'a = "(uint32 \<times> uint32 \<times> uint32) option"]

lemma keep_foldE:
  "same_sched s t \<Longrightarrow> (\<And>x a u. same_sched s u \<Longrightarrow> keeps s (f x (a, u))) \<Longrightarrow> keeps s (foldE f xs (a, t))"
  "same_sched s t \<Longrightarrow> (\<And>x u. same_sched s u \<Longrightarrow> keepk s (g x u)) \<Longrightarrow> keepk s (foldE g xs t)"
  by (auto simp: keeps_def keepk_def intro!: foldE_inv)

lemma okE_bindI: "okE Q m \<Longrightarrow> (\<And>a. Q a \<Longrightarrow> okE P (f a)) \<Longrightarrow> okE P (bindE m f)"
  by (cases m) auto

lemma okE_bind_value: "(\<And>a. okE P (f a)) \<Longrightarrow> okE P (bindE m f)"
  by (cases m) auto

lemma okE_deref: "(\<And>c. x = Some c \<Longrightarrow> okE P (f c)) \<Longrightarrow> okE P (bindE (deref x) f)"
  by (cases x) auto

lemma foreach_inv:
  assumes "\<And>x s. P s \<Longrightarrow> okE P (body x s)"
  shows "P s \<Longrightarrow> okE P (foreach n get body x s)"
proof (induction n arbitrary: x s)
  case 0
  then show ?case by (cases x) auto
next
  case (Suc n)
  then show ?case using assms by (cases x) (auto intro: okE_bindI [where Q = P])
qed

lemma while_le_inv:
  assumes "\<And>va s. P s \<Longrightarrow> okE P (body va s)"
  shows "P s \<Longrightarrow> okE P (while_le n step va end body s)"
  using assms by (induction n arbitrary: va s) (auto intro: okE_bindI [where Q = P])

lemma for_range_inv:
  assumes "\<And>va s. P s \<Longrightarrow> okE P (body va s)"
  shows "P s \<Longrightarrow> okE P (for_range n step va end body s)"
  using assms by (induction n arbitrary: va s) (auto intro: okE_bindI [where Q = P])

lemma foreach_segment_inv:
  assumes "\<And>seg a. P a \<Longrightarrow> okE P (body seg a)"
  shows "P a \<Longrightarrow> okE P (foreach_segment n start body seg a)"
proof (induction n arbitrary: seg a)
  case 0
  then show ?case by (cases seg) auto
next
  case (Suc n)
  have "okE P (bindE (PROGRAM_SEGMENT_NEXT sg start (snd b)) (\<lambda>nxt. foreach_segment n start body nxt b))" if "P b" for b sg
    by (intro okE_bind_value Suc.IH that)
  from okE_bindI [OF assms [OF Suc.prems] this] show ?case using Suc.prems by (cases seg) auto
qed

lemma keep_loops:
  "same_sched s t \<Longrightarrow> (\<And>x a u. same_sched s u \<Longrightarrow> keeps s (b x (a, u))) \<Longrightarrow> keeps s (foreach n get b y (a, t))"
  "same_sched s t \<Longrightarrow> (\<And>x u. same_sched s u \<Longrightarrow> keepk s (c x u)) \<Longrightarrow> keepk s (foreach n get' c y t)"
  "same_sched s t \<Longrightarrow> (\<And>x u. same_sched s u \<Longrightarrow> keepk s (d x u)) \<Longrightarrow> keepk s (while_le n step va end d t)"
  "same_sched s t \<Longrightarrow> (\<And>x a u. same_sched s u \<Longrightarrow> keeps s (e x (a, u))) \<Longrightarrow> keeps s (for_range n step va end e (a, t))"
  "same_sched s t \<Longrightarrow> (\<And>x a u. same_sched s u \<Longrightarrow> keeps s (h x (a, u))) \<Longrightarrow> keeps s (foreach_segment n va h sg (a, t))"
  by (auto simp: keeps_def keepk_def intro!: foreach_inv while_le_inv for_range_inv foreach_segment_inv)

lemmas keep_rules = keep_bind keep_value keep_foldE keep_loops same_sched_fold

section \<open>Frames, page tables and the page file\<close>

text \<open>One lemma for each operation: unfold it and apply the rules to its calls.\<close>

lemma keep_disk [keep]:
  "same_sched s t \<Longrightarrow> keeps s (write_disk_page dfn p t)" "same_sched s t \<Longrightarrow> keeps s (allocate_disk_frame dfn t)"
  "same_sched s t \<Longrightarrow> keeps s (free_disk_frame dfn t)"
  by (auto simp: write_disk_page_def ide_write_def allocate_disk_frame_def free_disk_frame_def
      intro!: keep_rules split: option.splits prod.splits)

lemma keep_pf_read_env_table [keep]: "same_sched s t \<Longrightarrow> keeps s (pf_read_env_table e va f t)"
  by (auto simp: pf_read_env_table_def Let_def intro!: keep_rules keep split: option.splits)

lemma keep_with_alloc:
  assumes "same_sched s t" and "\<And>u. same_sched s u \<Longrightarrow> keeps s (alloc u)"
  shows "keeps s (get_disk_table_directory_with alloc e t)" "keeps s (pf_write_env_table_with alloc e va f t)"
    "keeps s (pt_clear_page_table_entry_with alloc e va t)"
proof -
  have d: "keeps s (get_disk_table_directory_with alloc e u)" if "same_sched s u" for u
    using assms(2) that
    by (auto simp: get_disk_table_directory_with_def Let_def intro!: keep_rules split: option.splits)
  have w: "keeps s (pf_write_env_table_with alloc e va f u)" if "same_sched s u" for u f
    using that by (auto simp: pf_write_env_table_with_def Let_def intro!: keep_rules keep d)
  then show "keeps s (get_disk_table_directory_with alloc e t)" "keeps s (pf_write_env_table_with alloc e va f t)"
    using assms(1) by (simp_all add: d)
  show "keeps s (pt_clear_page_table_entry_with alloc e va t)"
    using assms(1) by (auto simp: pt_clear_page_table_entry_with_def Let_def intro!: keep_rules keep w)
qed

lemma keep_allocate_frame [keep]: "same_sched s t \<Longrightarrow> keeps s (allocate_frame t)"
proof -
  have "keeps s (allocate_frame_n n t)" if "same_sched s t" for n t
    using that
    by (induction n arbitrary: t)
      (auto simp: initialize_frame_info_def Let_def intro!: keep_rules keep_with_alloc split: option.splits)
  then show "same_sched s t \<Longrightarrow> keeps s (allocate_frame t)" by (simp only: allocate_frame_def)
qed

lemma keep_tables [keep]:
  "same_sched s t \<Longrightarrow> keeps s (get_disk_table_directory e t)" "same_sched s t \<Longrightarrow> keeps s (pf_write_env_table e va f t)"
  "same_sched s t \<Longrightarrow> keeps s (pt_clear_page_table_entry e va t)"
  by (auto simp: get_disk_table_directory_def pf_write_env_table_def pt_clear_page_table_entry_def
      intro!: keep_with_alloc keep)

lemma keep_free_frame [keep]: "same_sched s t \<Longrightarrow> keeps s (free_frame f t)"
  by (auto simp: free_frame_def initialize_frame_info_def Let_def intro!: keep_rules)

lemma keep_decrement_references [keep]: "same_sched s t \<Longrightarrow> keeps s (decrement_references f t)"
  by (auto simp: decrement_references_def Let_def intro!: keep)

lemma keep_get_page_table [keep]: "same_sched s t \<Longrightarrow> keeps s (get_page_table pd va t)"
  by (auto simp: get_page_table_def Let_def intro!: keep_rules)

lemma keep_static_cpt [keep]: "same_sched s t \<Longrightarrow> keeps s (static_cpt pd va t)"
  by (auto simp: static_cpt_def Let_def intro!: keep_rules keep)

lemma keep_get_frame_info [keep]: "same_sched s t \<Longrightarrow> keeps s (get_frame_info pd va t)"
  by (auto simp: get_frame_info_def Let_def intro!: keep_rules keep split: option.splits)

lemma keep_unmap_frame [keep]: "same_sched s t \<Longrightarrow> keeps s (unmap_frame pd va t)"
  by (auto simp: unmap_frame_def Let_def intro!: keep_rules keep split: option.splits)

lemma keep_map_frame [keep]:
  "same_sched s t \<Longrightarrow> keeps s (map_frame pd f va perm t)" "same_sched s t \<Longrightarrow> keeps s (loadtime_map_frame pd f va perm t)"
  by (auto simp: map_frame_def loadtime_map_frame_def Let_def intro!: keep_rules keep)

lemma keep_flags [keep]:
  "same_sched s t \<Longrightarrow> keeps s (pd_clear_page_dir_entry e va t)"
  "same_sched s t \<Longrightarrow> keeps s (pt_set_page_permissions e va p c t)"
  "same_sched s t \<Longrightarrow> keeps s (pt_get_page_permissions e va t)"
  by (auto simp: pd_clear_page_dir_entry_def pt_set_page_permissions_def pt_get_page_permissions_def Let_def
      intro!: keep_rules keep)

lemma keep_calculate_required_frames [keep]: "same_sched s t \<Longrightarrow> keeps s (calculate_required_frames pd va sz t)"
  by (auto simp: calculate_required_frames_def intro!: keep_rules keep)

lemma keep_disk_tables [keep]:
  "same_sched s t \<Longrightarrow> keeps s (get_disk_page_directory e t)" "same_sched s t \<Longrightarrow> keeps s (get_disk_page_table dd va c t)"
  by (auto simp: get_disk_page_directory_def get_disk_page_table_def Let_def intro!: keep_rules keep split: option.splits)

lemma keep_pf_get_dfn [keep]: "same_sched s t \<Longrightarrow> keeps s (pf_get_dfn e va t)"
  by (auto simp: pf_get_dfn_def Let_def intro!: keep_rules keep)

lemma keep_pf_add [keep]:
  "same_sched s t \<Longrightarrow> keeps s (pf_add_env_page e va p t)" "same_sched s t \<Longrightarrow> keeps s (pf_add_empty_env_page e va z t)"
  by (auto simp: pf_add_env_page_def pf_add_empty_env_page_def intro!: keep_rules keep split: option.splits)

lemma keep_cpu_page [keep]: "same_sched s t \<Longrightarrow> keeps s (cpu_write_page va p t)"
  by (auto simp: cpu_write_page_def Let_def)

lemma keep_pf_pages [keep]:
  "same_sched s t \<Longrightarrow> keeps s (pf_update_env_page e va f t)" "same_sched s t \<Longrightarrow> keeps s (pf_read_env_page e va t)"
  "same_sched s t \<Longrightarrow> keeps s (pf_remove_env_page e va t)"
  by (auto simp: pf_update_env_page_def pf_read_env_page_def pf_remove_env_page_def Let_def intro!: keep_rules keep
      split: option.splits)

lemma keep_pf_free [keep]:
  "same_sched s t \<Longrightarrow> keeps s (pf_remove_env_all_tables e t)" "same_sched s t \<Longrightarrow> keepk s (pf_free_table dd i t)"
  by (auto simp: pf_remove_env_all_tables_def pf_free_table_def Let_def intro!: keep_rules keep split: option.splits)

lemma keep_pf_free_env [keep]: "same_sched s t \<Longrightarrow> keeps s (pf_free_env e t)"
  by (auto simp: pf_free_env_def Let_def intro!: keep_rules keep)

lemma keep_pf_count [keep]: "same_sched s t \<Longrightarrow> keeps s (pf_calculate_allocated_pages e t)"
  by (auto simp: pf_calculate_allocated_pages_def intro!: keep_rules)

section \<open>Faults and user memory\<close>

lemma keep_chage_PRESENT [keep]: "same_sched s t \<Longrightarrow> keeps s (chage_PRESENT e va v t)"
  by (auto simp: chage_PRESENT_def Let_def intro!: keep_rules keep split: option.splits)

lemma keep_enter_active [keep]: "same_sched s t \<Longrightarrow> keeps s (enter_active e w t)"
  by (auto simp: enter_active_def Let_def intro!: keep_rules keep)

lemma keep_Placement [keep]: "same_sched s t \<Longrightarrow> keeps s (Placement e va t)"
  by (auto simp: Placement_def Let_def intro!: keep_rules keep)

lemma keep_save_victim [keep]: "same_sched s t \<Longrightarrow> keeps s (save_victim e v t)"
  by (auto simp: save_victim_def Let_def intro!: keep_rules keep)

lemma keep_page_fault_handler [keep]: "same_sched s t \<Longrightarrow> keeps s (page_fault_handler e va t)"
  by (auto simp: page_fault_handler_def Let_def intro!: keep_rules keep split: option.splits)

lemma keep_fault_handler [keep]: "same_sched s t \<Longrightarrow> keeps s (fault_handler cs t)"
  by (auto simp: fault_handler_def table_fault_handler_def page_fault_handler_with_buffering_def Let_def
      intro!: keep_rules keep)

lemma keep_allocateMem [keep]: "same_sched s t \<Longrightarrow> keeps s (allocateMem e va sz t)"
  by (auto simp: allocateMem_def Let_def intro!: keep_rules keep)

lemma keep_free_second [keep]: "same_sched s t \<Longrightarrow> keeps s (free_second e va w (a, t))"
  by (auto simp: free_second_def Let_def intro!: keep_rules keep)

lemma keep_free_active [keep]: "same_sched s t \<Longrightarrow> keeps s (free_active e va w (a, t))"
  by (auto simp: free_active_def Let_def intro!: keep_rules keep split: option.splits)

lemma keep_freeMem_page [keep]: "same_sched s t \<Longrightarrow> keepk s (freeMem_page e va t)"
  by (auto simp: freeMem_page_def Let_def intro!: keep_rules keep)

lemma keep_freeMem_table [keep]: "same_sched s t \<Longrightarrow> keepk s (freeMem_table e va t)"
  by (auto simp: freeMem_table_def Let_def intro!: keep_rules keep split: option.splits)

lemma keep_freeMem [keep]: "same_sched s t \<Longrightarrow> keeps s (freeMem e va sz t)"
  by (auto simp: freeMem_def Let_def intro!: keep_rules keep)

section \<open>Loading programs and releasing environments\<close>

lemma keep_cpu_store_byte [keep]: "same_sched s t \<Longrightarrow> keepk s (cpu_store_byte va b t)"
  by (auto simp: cpu_store_byte_def Let_def)

lemma keep_stores [keep]:
  "same_sched s t \<Longrightarrow> keepk s (store_image n d a t)" "same_sched s t \<Longrightarrow> keepk s (store_zeros n d t)"
  by (induction n arbitrary: d a t) (auto intro!: keep_rules keep)

lemma keep_enter_lists [keep]: "same_sched s t \<Longrightarrow> keepk s (enter_lists e i room t)"
  by (auto simp: enter_lists_def Let_def intro!: keep_rules)

lemma keep_next_ws_index [keep]: "same_sched s t \<Longrightarrow> keepk s (next_ws_index e t)"
  by (auto simp: next_ws_index_def)

lemma keep_load_page [keep]: "same_sched s t \<Longrightarrow> keeps s (load_page e va (l, t))"
  by (auto simp: load_page_def Let_def intro!: keep_rules keep)

lemma keep_program_segment [keep]:
  "same_sched s t \<Longrightarrow> keeps s (program_segment_alloc_map_copy_workingset e seg r l t)"
  unfolding program_segment_alloc_map_copy_workingset_def Let_def
  by (intro keep_bind keep_foldE keep | simp only: prod.case keeps_simps)+

lemma keep_write_segment_page [keep]: "same_sched s t \<Longrightarrow> keepk s (write_segment_page e x t)"
  by (auto simp: write_segment_page_def Let_def intro!: keep_rules keep split: prod.splits page_source.splits)

lemma keep_load_segment [keep]: "same_sched s t \<Longrightarrow> keeps s (load_segment e seg (x, t))"
  by (auto simp: load_segment_def Let_def intro!: keep_rules keep split: prod.splits)

lemma keep_clear_modified [keep]: "same_sched s t \<Longrightarrow> keepk s (clear_modified e i t)"
  by (auto simp: clear_modified_def Let_def intro!: keep_rules keep)

lemma keep_hide_second_list [keep]: "same_sched s t \<Longrightarrow> keepk s (hide_second_list e t)"
  by (auto simp: hide_second_list_def intro!: keep_rules keep)

lemma keep_set_entry_point [keep]: "same_sched s t \<Longrightarrow> keeps s (set_environment_entry_point e p t)"
  by (auto simp: set_environment_entry_point_def)

lemma env_page_ws_set_entry_status:
  "env_page_ws_set_entry i va en = Inr en' \<Longrightarrow> env_status en' = env_status en \<and> env_id en' = env_id en"
  by (auto simp: env_page_ws_set_entry_def split: if_splits)

lemma keep_set_entry:
  assumes "same_sched s t" and "\<And>u. same_sched s u \<Longrightarrow> keepk s (f u)"
  shows "keepk s (bindE (env_page_ws_set_entry i va (envs t e)) (\<lambda>en. f (upd_env e (\<lambda>_. en) t)))"
proof (cases "env_page_ws_set_entry i va (envs t e)")
  case (Inr en)
  then have "same_sched s (upd_env e (\<lambda>_. en) t)"
    using assms(1) env_page_ws_set_entry_status [OF Inr] by (auto simp: same_sched_def upd_env_def)
  then show ?thesis using Inr assms(2) by simp
qed simp

lemma keep_create_stack_page [keep]: "same_sched s t \<Longrightarrow> keepk s (create_stack_page e t)"
  unfolding create_stack_page_def Let_def
  by (intro keep_bind keep_value keep keep_set_entry | simp only: prod.case keeps_simps)+

lemma keep_cleanup_buffers [keep]: "same_sched s t \<Longrightarrow> keeps s (cleanup_buffers e t)"
  by (auto simp: cleanup_buffers_def bufferlist_remove_page_def Let_def intro!: keep_rules keep)

text \<open>The steps that do move an environment: to the free list, out of it, and into the exit queue.\<close>

definition released :: "nat \<Rightarrow> kernel \<Rightarrow> kernel" where
  "released e s = upd_env e (\<lambda>en. en\<lparr>env_status := ENV_FREE, env_id := 0\<rparr>) (s\<lparr>env_free_list := e # env_free_list s\<rparr>)"

definition taken :: "nat \<Rightarrow> kernel \<Rightarrow> kernel" where
  "taken e s = upd_env e (\<lambda>en. en\<lparr>env_status := ENV_NEW, env_id := next_env_id (env_id en) e\<rparr>)
     (s\<lparr>env_free_list := remove1 e (env_free_list s)\<rparr>)"

definition exited :: "nat \<Rightarrow> kernel \<Rightarrow> kernel" where
  "exited e s = set_status e ENV_EXIT (s\<lparr>env_exit_queue := e # env_exit_queue s\<rparr>)"

lemma keep_then:
  "keeps s m \<Longrightarrow> (\<And>a t. same_sched s t \<Longrightarrow> okE P (f (a, t))) \<Longrightarrow> okE P (bindE m f)"
  "keepk s k \<Longrightarrow> (\<And>t. same_sched s t \<Longrightarrow> okE P (g t)) \<Longrightarrow> okE P (bindE k g)"
  by (auto simp: keeps_def keepk_def okE_bindE elim!: okE_weaken)

lemma keep_env_free_parts [keep]:
  "same_sched s t \<Longrightarrow> keepk s (release_element e w l (\<lambda>l en. en\<lparr>ActiveList := l\<rparr>) t)"
  "same_sched s t \<Longrightarrow> keepk s (release_element e w l (\<lambda>l en. en\<lparr>SecondList := l\<rparr>) t)"
  "same_sched s t \<Longrightarrow> keepk s (free_table pd i t)"
  by (auto simp: release_element_def free_table_def Let_def intro!: keep_rules keep)

definition releases :: "nat \<Rightarrow> kernel \<Rightarrow> unit \<times> kernel \<Rightarrow> bool" where
  "releases e s = (\<lambda>(_, u). e \<notin> set (env_free_list s) \<and> same_sched (released e s) u)"

lemma free_environment_releases: "same_sched s t \<Longrightarrow> okE (releases e s) (free_environment e t)"
  by (auto simp: free_environment_def Let_def okE_iff bindE_eq_Inr same_sched_def releases_def released_def upd_env_def
      zero_env_def)

lemma start_env_free_releases:
  assumes "same_sched s t"
  shows "okE (releases e s) (start_env_free e t)"
proof -
  have "okE (releases e s) (env_free e t)"
    unfolding env_free_def free_active_element_def free_second_element_def
    using assms
    by (auto intro!: keep_then keep_rules keep okE_bind_value [where 'a = nat] free_environment_releases)
  then show ?thesis
    by (simp add: start_env_free_def env_free_with_buffering_def remove_pws_user_pages_def)
qed

definition takes :: "nat \<Rightarrow> kernel \<Rightarrow> unit \<times> kernel \<Rightarrow> bool" where
  "takes e s = (\<lambda>(_, u). e \<in> set (env_free_list s) \<and> same_sched (taken e s) u)"

lemma complete_env_frame:
  assumes "complete_environment_initialization e s = Inr (a, u)"
  shows "curenv u = curenv s" "env_ready_queue u = env_ready_queue s" "env_new_queue u = env_new_queue s"
    "env_exit_queue u = env_exit_queue s" "e \<in> set (env_free_list s)"
    "x \<noteq> e \<Longrightarrow> env_status (envs u x) = env_status (envs s x)" "x \<noteq> e \<Longrightarrow> env_id (envs u x) = env_id (envs s x)"
  using assms
  by (auto simp: complete_environment_initialization_def bindE_eq_Inr Let_def upd_env_def wr_def split: option.splits)

lemma complete_initialization_takes:
  assumes "same_sched s t"
  shows "okE (takes e s) (complete_environment_initialization e t)"
proof (cases "complete_environment_initialization e t")
  case (Inr p)
  then obtain u where u: "complete_environment_initialization e t = Inr ((), u)" by (cases p) auto
  note f = complete_env_frame [OF u] complete_env_Inr [OF u]
  have "env_status (envs u x) = env_status (envs (taken e s) x)" "env_id (envs u x) = env_id (envs (taken e s) x)" for x
    using f assms by (cases "x = e"; simp add: taken_def upd_env_def same_sched_def)+
  then show ?thesis
    using u f assms by (simp add: takes_def same_sched_def) (simp add: taken_def upd_env_def)
qed simp

lemma initialize_environment_takes:
  "same_sched s t \<Longrightarrow> okE (takes e s) (initialize_environment e pd pa t)"
  unfolding initialize_environment_def Let_def
  by (intro keep_then(2))
    (auto intro!: keep_rules complete_initialization_takes same_sched_fold)

text \<open>The result of creating an environment: nothing moved, or \<open>e\<close> left the free list.\<close>

definition creates :: "kernel \<Rightarrow> nat option \<times> kernel \<Rightarrow> bool" where
  "creates s = (\<lambda>(ep, u). case ep of None \<Rightarrow> same_sched s u
     | Some e \<Rightarrow> e \<in> set (env_free_list s) \<and> same_sched (taken e s) u)"

lemma taken_unknown: "same_sched (taken e s) u" if "same_sched (taken e (set_status e v s)) u"
  using that by (auto simp: same_sched_def taken_def set_status_def upd_env_def split: if_splits)

lemma allocate_environment_cases:
  "allocate_environment s = (case env_free_list s of [] \<Rightarrow> Inr ((E_NO_FREE_ENV, None), s)
     | e # _ \<Rightarrow> Inr ((0, Some e), set_status e ENV_UNKNOWN s))"
  by (simp add: allocate_environment_def set_status_def split: list.splits)

lemma env_create_creates: "okE (creates s) (env_create name ws second pct s)"
proof (cases "get_user_program_info name s")
  case None
  then show ?thesis by (simp add: env_create_def creates_def)
next
  case (Some pr)
  obtain nm start where pr: "pr = (nm, start)" by (cases pr)
  show ?thesis
  proof (cases "env_free_list s")
    case Nil
    then show ?thesis by (simp add: env_create_def Some pr allocate_environment_cases creates_def E_NO_FREE_ENV_def)
  next
    case (Cons e es)
    define s1 where "s1 = set_status e ENV_UNKNOWN s"
    have e: "e \<in> set (env_free_list s)" using Cons by simp
    have fin: "okE (creates s) (Inr (Some e, u\<lparr>cr3 := c\<rparr>))" if "same_sched (taken e s1) u" for u c
      using that e taken_unknown by (simp add: creates_def s1_def)
    note init = okE_bindI [OF initialize_environment_takes [of s1]]
    show ?thesis
      unfolding env_create_def Some pr allocate_environment_cases Cons s1_def [symmetric] option.case prod.case list.case
        bindE_Inr deref_simps Let_def
      apply (simp only: less_irrefl if_False)
      apply (rule keep_then(1) [OF keep_allocate_frame [of s1]], simp)
      apply (simp only: prod.case, rule okE_bind_value, rule init, simp)
      by (auto simp: takes_def intro!: keep_then keep_rules keep okE_bind_value [where 'a = "program_segment option"] fin)
  qed
qed

section \<open>System calls that do not move environments\<close>

lemma keep_cpu_load_byte [keep]: "same_sched s t \<Longrightarrow> keeps s (cpu_load_byte va t)"
  by (auto simp: cpu_load_byte_def Let_def)

lemma keep_cpu_words [keep]:
  "same_sched s t \<Longrightarrow> keeps s (cpu_load_word va t)" "same_sched s t \<Longrightarrow> keepk s (cpu_store_word va v t)"
  by (auto simp: cpu_load_word_def cpu_store_word_def simp del: foldE.simps intro!: keep_rules keep)

lemma keep_user_string [keep]: "same_sched s t \<Longrightarrow> keeps s (user_string va t)"
proof -
  have "keeps s (load_string n va t)" if "same_sched s t" for n va t
    using that by (induction n arbitrary: va t) (auto intro!: keep_rules keep)
  then show "same_sched s t \<Longrightarrow> keeps s (user_string va t)" by (simp add: user_string_def)
qed

lemma keep_drop_frames [keep]: "same_sched s t \<Longrightarrow> keepk s (drop_frames n t)"
  by (induction n arbitrary: t) (auto intro!: keep_rules keep)

lemma keep_list_checks [keep]:
  "same_sched s t \<Longrightarrow> keeps s (list_matches en a ws t)" "same_sched s t \<Longrightarrow> keeps s (in_user_array va a n t)"
  by (induction ws arbitrary: a t; auto intro!: keep_rules keep)
    (induction n arbitrary: a t; auto intro!: keep_rules keep)

lemma keep_any_in_user_array [keep]: "same_sched s t \<Longrightarrow> keeps s (any_in_user_array en ws a n t)"
  by (induction ws arbitrary: t) (auto intro!: keep_rules keep)

lemma keep_check_list [keep]: "same_sched s t \<Longrightarrow> keeps s (check_list en c ws n t)"
  by (auto simp: check_list_def intro!: keep_rules keep)

lemma keep_calls_reading [keep]:
  "keeps s (sys_cputs a l p s)" "keeps s (sys_cputc ch s)" "keeps s (sys_cgetc hw s)" "keeps s (sys_getenvid s)"
  "keeps s (sys_getenvindex s)" "keeps s (sys_getparentenvid s)" "keeps s (sys_map_frame a1 a2 a3 a4 a5 s)"
  "keeps s (sys_unmap_frame a1 a2 s)" "keeps s (sys_calculate_free_frames s)" "keeps s (sys_calculate_modified_frames s)"
  "keeps s (sys_calculate_notmod_frames s)" "keeps s (sys_rcr2 s)" "keeps s (tst n v1 v2 ch neg s)" "keeps s (chktst n s)"
  by (auto simp: sys_cputs_def sys_cputc_def sys_cgetc_def sys_getenvid_def sys_getenvindex_def sys_getparentenvid_def
      sys_map_frame_def sys_unmap_frame_def sys_calculate_free_frames_def sys_calculate_modified_frames_def
      sys_calculate_notmod_frames_def sys_rcr2_def tst_def inctst_def upd_cfg_def chktst_def Let_def intro!: keep_rules)

lemma keep_calls_memory [keep]:
  "keeps s (sys_allocate_page a perm s)" "keeps s (sys_calculate_required_frames a sz s)"
  "keeps s (sys_pf_calculate_allocated_pages s)" "keeps s (scarce_memory s)" "keeps s (sys_freeMem a sz s)"
  "keeps s (sys_allocateMem a sz s)" "keeps s (sys_moveMem a b sz s)" "keeps s (set_eflags f s)" "keeps s (sys_clearFFL s)"
  by (auto simp: sys_allocate_page_def sys_calculate_required_frames_def sys_pf_calculate_allocated_pages_def
      scarce_memory_def sys_freeMem_def sys_allocateMem_def sys_moveMem_def set_eflags_def sys_clearFFL_def
      freeMem_with_buffering_def moveMem_def Let_def intro!: keep_rules keep)

lemma keep_calls_objects [keep]:
  "keeps s (sys_createSemaphore a n s)" "keeps s (sys_waitSemaphore i a s)" "keeps s (sys_signalSemaphore i a s)"
  "keeps s (sys_getSemaphoreValue i a s)" "keeps s (sys_createSharedObject a sz w va s)"
  "keeps s (sys_getSizeOfSharedObject i a s)" "keeps s (sys_getSharedObject i a va s)" "keeps s (sys_freeSharedObject j va s)"
  "keeps s (sys_check_LRU_lists a b n k s)" "keeps s (sys_check_LRU_lists_free a n s)"
  by (auto simp: sys_createSemaphore_def sys_waitSemaphore_def sys_signalSemaphore_def sys_getSemaphoreValue_def
      sys_createSharedObject_def sys_getSizeOfSharedObject_def sys_getSharedObject_def sys_freeSharedObject_def
      createSemaphore_def waitSemaphore_def signalSemaphore_def createSharedObject_def getSizeOfSharedObject_def
      getSharedObject_def freeSharedObject_def sys_check_LRU_lists_def sys_check_LRU_lists_free_def Let_def
      intro!: keep_rules keep)

end
