(* ===== verification/Kernel_Invariant.thy ===== *)
theory Kernel_Invariant
  imports Sched_Frame
begin

text \<open>
  Where environments are: \<open>kernel_ok\<close> says that each is in at most one place, running, in one of the three queues, or
  on the free list, and that its status fits the place. Every operation of the scheduler that moves an environment
  keeps it, and so does every system call and every trap. Between leaving one place and entering another an
  environment is \<open>away\<close>.
\<close>

section \<open>The invariant\<close>

definition places :: "kernel \<Rightarrow> nat list" where
  "places s = rr_list (curenv s) (env_ready_queue s @ env_new_queue s @ env_exit_queue s @ env_free_list s)"

definition kernel_ok :: "kernel \<Rightarrow> bool" where
  "kernel_ok s \<longleftrightarrow> queues_ok s \<and> distinct (places s) \<and> set (places s) \<subseteq> {..<NENV}
     \<and> (\<forall>e \<in> set (env_free_list s). env_status (envs s e) = ENV_FREE \<or> env_status (envs s e) = ENV_UNKNOWN)"

text \<open>An environment in none of the places, as between leaving one queue and entering another.\<close>

definition away :: "nat \<Rightarrow> kernel \<Rightarrow> bool" where
  "away e s \<longleftrightarrow> kernel_ok s \<and> e < NENV \<and> e \<notin> set (places s)"

lemma set_places:
  "set (places s) = set_option (curenv s) \<union> set (env_ready_queue s) \<union> set (env_new_queue s) \<union> set (env_exit_queue s)
     \<union> set (env_free_list s)"
  by (auto simp: places_def rr_list_def split: option.splits)

lemma kernel_ok_same: "kernel_ok s \<Longrightarrow> same_sched s t \<Longrightarrow> kernel_ok t"
  by (simp add: kernel_ok_def queues_ok_def places_def same_sched_def)

lemma away_same: "away e s \<Longrightarrow> same_sched s t \<Longrightarrow> away e t"
  using kernel_ok_same by (auto simp: away_def places_def same_sched_def)

lemma awayD [dest]: "away e s \<Longrightarrow> kernel_ok s"
  by (simp add: away_def)

lemmas ok_defs = away_def kernel_ok_def queues_ok_def places_def rr_list_def

lemma away_enters:
  assumes "away e s"
  shows "kernel_ok (released e s)" "kernel_ok (exited e s)"
    "kernel_ok (set_status e ENV_READY s\<lparr>env_ready_queue := e # env_ready_queue s\<rparr>)"
    "kernel_ok (set_status e ENV_NEW s\<lparr>env_new_queue := e # env_new_queue s\<rparr>)"
  using assms
  by (auto simp: ok_defs released_def exited_def set_status_def upd_env_def split: option.splits)

lemma leaves_away:
  assumes "kernel_ok s"
  shows "e \<in> set (env_ready_queue s) \<Longrightarrow> away e (s\<lparr>env_ready_queue := remove1 e (env_ready_queue s)\<rparr>)"
    "e \<in> set (env_new_queue s) \<Longrightarrow> away e (s\<lparr>env_new_queue := remove1 e (env_new_queue s)\<rparr>)"
    "e \<in> set (env_exit_queue s) \<Longrightarrow> away e (s\<lparr>env_exit_queue := remove1 e (env_exit_queue s)\<rparr>)"
    "curenv s = Some e \<Longrightarrow> away e (s\<lparr>curenv := None\<rparr>)"
  using assms by (auto simp: ok_defs split: option.splits dest: notin_set_remove1 in_set_remove1 [THEN iffD1])

lemma kernel_ok_cong:
  assumes "kernel_ok s" and "curenv t = curenv s" "env_ready_queue t = env_ready_queue s" "env_new_queue t = env_new_queue s"
    "env_exit_queue t = env_exit_queue s" "env_free_list t = env_free_list s"
    and "\<And>d. d \<in> set (places s) \<Longrightarrow> env_status (envs t d) = env_status (envs s d)"
  shows "kernel_ok t" and "places t = places s"
proof -
  show p: "places t = places s" using assms(2-6) by (simp add: places_def)
  have st: "env_status (envs t d) = env_status (envs s d)"
    if "curenv s = Some d \<or> d \<in> set (env_ready_queue s) \<or> d \<in> set (env_new_queue s) \<or> d \<in> set (env_exit_queue s)
      \<or> d \<in> set (env_free_list s)" for d
    using that assms(7) [of d] unfolding set_places by auto
  then show "kernel_ok t"
    using assms(1) unfolding kernel_ok_def queues_ok_def p assms(2-6) by simp
qed

lemma away_upd_env:
  assumes "away e s"
  shows "away e (upd_env e f s)"
proof -
  have "env_status (envs (upd_env e f s) d) = env_status (envs s d)" if "d \<in> set (places s)" for d
    using that assms by (auto simp: upd_env_def away_def)
  then have "kernel_ok (upd_env e f s)" "places (upd_env e f s) = places s"
    using kernel_ok_cong [OF awayD [OF assms], of "upd_env e f s"] by (simp_all add: upd_env_def)
  then show ?thesis using assms by (simp add: away_def)
qed

lemma taken_away: "kernel_ok s \<Longrightarrow> e \<in> set (env_free_list s) \<Longrightarrow> away e (taken e s)"
  unfolding taken_def by (rule away_upd_env) (auto simp: ok_defs split: option.splits)

section \<open>Moving environments\<close>

lemma ok_remove:
  assumes "kernel_ok s"
  shows "okE (away e) (sched_remove_new (Some e) s)" "okE (away e) (sched_remove_exit (Some e) s)"
  using leaves_away [OF assms, of e]
  by (auto simp: sched_remove_new_def sched_remove_exit_def okE_iff bindE_eq_Inr set_status_def intro!: away_upd_env)

lemma ok_insert:
  assumes "away e s"
  shows "okE kernel_ok (sched_insert_ready (Some e) s)" "okE kernel_ok (sched_insert_new (Some e) s)"
  using away_enters [OF assms]
  by (auto simp: sched_insert_ready_def sched_insert_new_def enqueue_def okE_iff bindE_eq_Inr Let_def set_status_def
      upd_env_def)

text \<open>Entering the exit queue, also for the running environment before \<open>curenv\<close> is cleared.\<close>

lemma insert_exit_exited: "okE (same_sched (exited e s)) (sched_insert_exit (Some e) s)"
proof -
  have "same_sched (exited e s) ((set_status e ENV_EXIT t)\<lparr>env_exit_queue := e # env_exit_queue t\<rparr>)" if "same_sched s t" for t
    using that by (auto simp: same_sched_def exited_def set_status_def upd_env_def)
  then have "okE (same_sched (exited e s)) (bindE (lst_insert_head e (env_exit_queue t))
      (\<lambda>q. Inr (set_status e ENV_EXIT t\<lparr>env_exit_queue := q\<rparr>)))" if "same_sched s t" for t
    using that by (simp add: lst_insert_head_def)
  then show ?thesis
    by (auto simp: sched_insert_exit_def enqueue_def Let_def intro!: keep_then keep)
qed

lemma ok_insert_exit: "away e s \<Longrightarrow> okE kernel_ok (sched_insert_exit (Some e) s)"
  using insert_exit_exited by (rule okE_weaken) (blast intro: kernel_ok_same away_enters)

lemma ok_insert_exit_running:
  assumes "kernel_ok s" and "curenv s = Some c"
  shows "okE (\<lambda>t. kernel_ok (t\<lparr>curenv := None\<rparr>) \<and> same_sched (exited c s) t) (sched_insert_exit (Some c) s)"
proof (rule okE_weaken [OF insert_exit_exited])
  fix t assume t: "same_sched (exited c s) t"
  then have "same_sched (exited c (s\<lparr>curenv := None\<rparr>)) (t\<lparr>curenv := None\<rparr>)"
    by (auto simp: same_sched_def exited_def set_status_def upd_env_def)
  then show "kernel_ok (t\<lparr>curenv := None\<rparr>) \<and> same_sched (exited c s) t"
    using t away_enters(2) [OF leaves_away(4) [OF assms]] kernel_ok_same by blast
qed

lemma ok_start_env_free: "away e s \<Longrightarrow> okE (\<lambda>(_, t). kernel_ok t) (start_env_free e s)"
  using start_env_free_releases [OF same_sched_refl] by (rule okE_weaken) (auto simp: releases_def intro: kernel_ok_same away_enters)

lemma ok_free_running:
  assumes "kernel_ok s" and "curenv s = Some c"
  shows "okE (\<lambda>(_, t). kernel_ok (t\<lparr>curenv := None\<rparr>)) (start_env_free c s)"
proof (rule okE_weaken [OF start_env_free_releases [OF same_sched_refl]])
  fix a assume "releases c s a"
  then have "same_sched (released c s) (snd a)" by (auto simp: releases_def)
  then have "same_sched (released c (s\<lparr>curenv := None\<rparr>)) (snd a\<lparr>curenv := None\<rparr>)"
    by (auto simp: same_sched_def released_def upd_env_def)
  then show "case a of (_, t) \<Rightarrow> kernel_ok (t\<lparr>curenv := None\<rparr>)"
    using away_enters(1) [OF leaves_away(4) [OF assms]] kernel_ok_same by (auto split: prod.splits)
qed

section \<open>The scheduler\<close>

text \<open>Where control goes fits \<open>curenv\<close>.\<close>

definition control_ok :: "control \<Rightarrow> kernel \<Rightarrow> bool" where
  "control_ok c s = (case c of Returns \<Rightarrow> True | Runs e \<Rightarrow> curenv s = Some e | CommandPrompt \<Rightarrow> curenv s = None)"

definition runs_ok :: "control \<times> kernel \<Rightarrow> bool" where
  "runs_ok = (\<lambda>(c, s). kernel_ok s \<and> control_ok c s)"

lemma env_run_rest:
  "env_free_list (env_run e s) = env_free_list s"
  "env_status (envs (env_run e s) d) = (if d = e then ENV_RUNNABLE else env_status (envs s d))"
proof -
  obtain t where t: "env_run e s = upd_env e (\<lambda>en. en\<lparr>env_status := ENV_RUNNABLE\<rparr>)
    (if curenv s \<noteq> Some e then
       let s = upd_env e (\<lambda>en. en\<lparr>env_runs := env_runs en + 1\<rparr>) (s\<lparr>curenv := Some e\<rparr>)
       in s\<lparr>cr3 := env_cr3 (envs s e)\<rparr> else s)\<lparr>clock := t\<rparr>"
    using kclock_resume_frame by (auto simp: env_run_def Let_def)
  show "env_free_list (env_run e s) = env_free_list s"
    "env_status (envs (env_run e s) d) = (if d = e then ENV_RUNNABLE else env_status (envs s d))"
    unfolding t by (simp_all add: Let_def upd_env_def)
qed

lemma kernel_ok_cleared: "kernel_ok s \<Longrightarrow> kernel_ok (s\<lparr>curenv := None\<rparr>)"
  by (auto simp: ok_defs split: option.splits)

lemma kernel_ok_scheduled:
  assumes ok: "kernel_ok s" and l: "rr_list (curenv s) (env_ready_queue s) = l @ [e]"
    and t: "same_sched (s\<lparr>env_ready_queue := l\<rparr>) t"
  shows "runs_ok (Runs e, env_run e t)"
proof -
  let ?r = "env_run e t" and ?rest = "env_new_queue s @ env_exit_queue s @ env_free_list s"
  have f: "env_ready_queue ?r = l" "env_new_queue ?r = env_new_queue s" "env_exit_queue ?r = env_exit_queue s"
    "env_free_list ?r = env_free_list s" "curenv ?r = Some e"
    using t by (simp_all add: env_run_sel env_run_rest same_sched_def)
  have st: "env_status (envs ?r d) = (if d = e then ENV_RUNNABLE else env_status (envs s d))" for d
    using t by (simp add: env_run_rest same_sched_def)
  have pl: "places s = l @ e # ?rest" "places ?r = e # l @ ?rest"
    unfolding places_def f using l by (auto simp: rr_list_def split: option.splits)
  then have d: "distinct (places ?r)" "set (places ?r) = set (places s)" using ok by (auto simp: kernel_ok_def)
  have e: "e \<notin> set l" "e \<notin> set ?rest" using ok pl(1) by (auto simp: kernel_ok_def)
  have ls: "env_status (envs s x) = ENV_READY \<or> env_status (envs s x) = ENV_RUNNABLE" if "x \<in> set l" for x
  proof -
    have "x \<in> set (rr_list (curenv s) (env_ready_queue s))" using that l by simp
    then show ?thesis using ok by (auto simp: kernel_ok_def queues_ok_def rr_list_def split: option.splits)
  qed
  have "queues_ok ?r"
    using d(1) e ok ls unfolding queues_ok_def f st pl(2) rr_list_def kernel_ok_def option.case by auto
  then have "kernel_ok ?r" using d ok e unfolding kernel_ok_def f st by auto
  then show ?thesis using f(5) by (simp add: runs_ok_def control_ok_def)
qed

lemma keep_kclock_set_quantum [keep]: "same_sched s t \<Longrightarrow> keeps s (kclock_set_quantum q t)"
proof (cases "IS_VALID_QUANTUM q \<and> q \<noteq> 0")
  case True
  then obtain c where "kclock_set_quantum q t = Inr ((), t\<lparr>clock := c\<rparr>)" using kclock_set_quantum_frame by blast
  then show "same_sched s t \<Longrightarrow> keeps s (kclock_set_quantum q t)" by simp
qed (auto simp: kclock_set_quantum_def)

lemma same_sched_chk1: "same_sched s (chk1 s)"
  by (simp add: chk1_def schenv_def Let_def split: prod.split)

lemma enqueue_rr_list: "enqueue q c = Inr q' \<Longrightarrow> q' = rr_list c q"
  by (auto simp: enqueue_def rr_list_def split: option.splits)

text \<open>What the choice of the next environment gives: none, or the last one of the list.\<close>

definition chosen :: "kernel \<Rightarrow> nat option \<times> kernel \<Rightarrow> bool" where
  "chosen s = (\<lambda>(next_env, t). case next_env of None \<Rightarrow> kernel_ok t
     | Some e \<Rightarrow> \<exists>l. rr_list (curenv s) (env_ready_queue s) = l @ [e] \<and> same_sched (s\<lparr>env_ready_queue := l\<rparr>) t)"

lemma chosen_RR:
  assumes "kernel_ok s"
  shows "okE (chosen s) (bindE (enqueue (env_ready_queue s) (curenv s)) (\<lambda>q.
     bindE (dequeue q) (\<lambda>(next_env, q).
     bindE (kclock_set_quantum (quantum s) (s\<lparr>env_ready_queue := q\<rparr>)) (\<lambda>(_, s). Inr (next_env, s)))))"
proof (cases "enqueue (env_ready_queue s) (curenv s)")
  case (Inr q)
  note q = enqueue_rr_list [OF Inr]
  have d: "distinct q" using assms by (auto simp: q ok_defs split: option.splits)
  have c: "okE (chosen s) (bindE (kclock_set_quantum v (s\<lparr>env_ready_queue := l\<rparr>)) (\<lambda>(_, s). Inr (n, s)))"
    if "\<And>t. same_sched (s\<lparr>env_ready_queue := l\<rparr>) t \<Longrightarrow> chosen s (n, t)" for v l n
    using that by (intro keep_then(1) [OF keep_kclock_set_quantum [OF same_sched_refl]]) simp
  show ?thesis
  proof (cases q rule: rev_cases)
    case Nil
    then have "kernel_ok (s\<lparr>env_ready_queue := []\<rparr>)" using assms by (auto simp: ok_defs split: option.splits)
    then show ?thesis using Nil Inr c [of "[]" None] by (auto simp: dequeue_def chosen_def dest: kernel_ok_same)
  next
    case (snoc l e)
    then have "dequeue q = Inr (Some e, l)" using d by (simp add: dequeue_def remove1_append_notin)
    then show ?thesis using snoc Inr q c [of l "Some e"] by (auto simp: chosen_def)
  qed
qed simp

lemma ok_fos_scheduler:
  assumes "kernel_ok s"
  shows "okE runs_ok (fos_scheduler s)"
proof -
  define s1 where "s1 = chk1 s\<lparr>scheduler_status := SCH_STARTED\<rparr>"
  have same: "same_sched s s1" using same_sched_chk1 by (simp add: s1_def)
  have ok: "kernel_ok s1" using assms same by (rule kernel_ok_same)
  have prompt: "runs_ok (CommandPrompt, t\<lparr>curenv := None, cr3 := a, scheduler_status := b\<rparr>)" if "kernel_ok t" for t a b
    using kernel_ok_same [OF kernel_ok_cleared [OF that], of "t\<lparr>curenv := None, cr3 := a, scheduler_status := b\<rparr>"]
    by (simp add: runs_ok_def control_ok_def same_sched_def)
  have rest: "okE runs_ok (bindE r (\<lambda>_. case n of Some e \<Rightarrow> Inr (Runs e, env_run e t)
      | None \<Rightarrow> Inr (CommandPrompt, t\<lparr>curenv := None, cr3 := a, scheduler_status := b\<rparr>)))"
    if "chosen s1 (n, t)" for r :: "halt + unit" and n t a b
    using that prompt kernel_ok_scheduled [OF ok] by (cases n; cases r) (auto simp: chosen_def)
  have "okE (chosen s1) (if scheduler_method s1 = SCH_RR then
               bindE (enqueue (env_ready_queue s1) (curenv s1)) (\<lambda>q.
               bindE (dequeue q) (\<lambda>(next_env, q).
               bindE (kclock_set_quantum (quantum s1) (s1\<lparr>env_ready_queue := q\<rparr>)) (\<lambda>(_, s).
               Inr (next_env, s))))
             else if scheduler_method s1 = SCH_MLFQ then fos_scheduler_MLFQ s1 else Inr (None, s1))"
    using chosen_RR [OF ok] ok by (simp add: fos_scheduler_MLFQ_def chosen_def)
  then show ?thesis
    unfolding fos_scheduler_def Let_def s1_def [symmetric]
    by (rule okE_bindI) (auto intro: rest)
qed

lemma runs_ok_returns: "kernel_ok s \<Longrightarrow> runs_ok (Returns, s)"
  by (simp add: runs_ok_def control_ok_def)

lemma ok_new_to_ready: "kernel_ok s \<Longrightarrow> okE kernel_ok (bindE (sched_remove_new (Some e) s) (sched_insert_ready (Some e)))"
  by (rule okE_bindI [OF ok_remove(1) ok_insert(1)])

lemma ok_then_schedule: "kernel_ok s \<Longrightarrow> okE runs_ok (if scheduler_status s = v then fos_scheduler s else Inr (Returns, s))"
  by (simp add: ok_fos_scheduler runs_ok_returns)

lemma ok_sched_run_all: "kernel_ok s \<Longrightarrow> okE runs_ok (sched_run_all s)"
  unfolding sched_run_all_def each_in_def
  by (rule okE_bindI [OF foreach_inv ok_then_schedule]) (simp_all add: ok_new_to_ready)

lemma ok_sched_run_env: "kernel_ok s \<Longrightarrow> okE runs_ok (sched_run_env i s)"
  unfolding sched_run_env_def
  by (auto simp: runs_ok_returns split: option.split
      intro!: okE_bindI [OF ok_remove(1)] okE_bindI [OF ok_insert(1)] ok_then_schedule)

lemma ok_kills:
  assumes "kernel_ok s"
  shows "okE kernel_ok (kill_new e s)" "okE kernel_ok (kill_ready e s)" "okE kernel_ok (kill_exit e s)"
proof -
  have free: "okE kernel_ok (bindE (start_env_free e t) (\<lambda>(_, s). Inr s))" if "away e t" for t
    by (rule okE_bindI [OF ok_start_env_free [OF that]]) auto
  show "okE kernel_ok (kill_new e s)" "okE kernel_ok (kill_exit e s)"
    unfolding kill_new_def kill_exit_def
    by (rule okE_bindI [OF ok_remove(1) [OF assms] free], assumption)
      (rule okE_bindI [OF ok_remove(2) [OF assms] free], assumption)
  show "okE kernel_ok (kill_ready e s)"
    using leaves_away(1) [OF assms, of e] free by (cases "e \<in> set (env_ready_queue s)") (auto simp: kill_ready_def lst_remove_def)
qed

lemma ok_sched_kill_all: "kernel_ok s \<Longrightarrow> okE runs_ok (sched_kill_all s)"
  unfolding sched_kill_all_def each_in_def
  by (intro okE_bindI [where Q = kernel_ok] foreach_inv foldE_inv okE_bind_value [where 'a = "nat list"] ok_kills
      ok_fos_scheduler kernel_ok_cleared)

lemma ok_kill_matching:
  assumes "kernel_ok s" and "\<And>e s. kernel_ok s \<Longrightarrow> okE kernel_ok (kill e s)"
  shows "okE (\<lambda>(_, t). kernel_ok t) (kill_matching queue kill i s)"
  unfolding kill_matching_def using assms
  by (intro foreach_inv) (auto intro!: okE_bindI [OF assms(2)])

lemma ok_sched_kill_env:
  assumes "kernel_ok s"
  shows "okE runs_ok (sched_kill_env i s)"
proof -
  let ?P = "\<lambda>(_ :: bool, t). kernel_ok t"
  have ready: "okE ?P (foldE (\<lambda>k (found, s). if found then Inr (found, s)
        else bindE (ready_at k s) (\<lambda>q. case find (\<lambda>e. env_id (envs s e) = i) q of
               None \<Rightarrow> Inr (False, s) | Some e \<Rightarrow> bindE (kill_ready e s) (\<lambda>s. Inr (True, s)))) ks (False, t))"
    if "kernel_ok t" for ks t
    using that by (intro foldE_inv)
      (auto intro!: okE_bind_value [where 'a = "nat list"] okE_bindI [OF ok_kills(2)] split: option.split)
  have run: "okE runs_ok (bindE (start_env_free c t) (\<lambda>(_, s). fos_scheduler (s\<lparr>cr3 := phys_page_directory s, curenv := None\<rparr>)))"
    if "kernel_ok t" "curenv t = Some c" for t c
    by (rule okE_bindI [OF ok_free_running [OF that]])
      (auto intro!: ok_fos_scheduler elim!: kernel_ok_same simp: same_sched_def)
  show ?thesis
    unfolding sched_kill_env_def
    by (rule okE_bindI [OF ok_kill_matching [OF assms ok_kills(1)]], assumption)
      (auto intro!: okE_bindI [OF ready] okE_bindI [OF ok_kill_matching] ok_kills okE_deref run
        simp: runs_ok_returns)
qed

lemma ok_exit_new:
  assumes "kernel_ok s"
  shows "okE (\<lambda>(_ :: bool, t). kernel_ok t) (foreach n (\<lambda>(_, s). env_new_queue s)
     (\<lambda>e (found, s). if env_id (envs s e) = i
        then bindE (sched_remove_new (Some e) s) (\<lambda>s. Inr (True, s)) else Inr (found, s)) x (found, s))"
  using assms by (intro foreach_inv) (auto intro!: okE_bindI [OF ok_remove(1)] dest!: awayD)

text \<open>The search in the ready queues ends with the environment out of its queue.\<close>

definition exit_found :: "bool \<times> nat option \<times> kernel \<Rightarrow> bool" where
  "exit_found = (\<lambda>(found, p, s). case p of None \<Rightarrow> kernel_ok s | Some e \<Rightarrow> found \<and> away e s)"

lemma ok_exit_ready:
  assumes "kernel_ok s"
  shows "okE exit_found (foldE (\<lambda>k (found, p, s). if found then Inr (found, p, s)
      else bindE (ready_at k s) (\<lambda>q. case find (\<lambda>e. env_id (envs s e) = i) q of
             None \<Rightarrow> Inr (False, None, s)
           | Some e \<Rightarrow> bindE (lst_remove e q) (\<lambda>q. Inr (True, Some e, s\<lparr>env_ready_queue := q\<rparr>)))) ks (False, None, s))"
proof (rule foldE_inv)
  show "exit_found (False, None, s)" using assms by (simp add: exit_found_def)
next
  fix k :: nat and a assume "exit_found a"
  then show "okE exit_found ((\<lambda>(found, p, s). if found then Inr (found, p, s)
      else bindE (ready_at k s) (\<lambda>q. case find (\<lambda>e. env_id (envs s e) = i) q of
             None \<Rightarrow> Inr (False, None, s)
           | Some e \<Rightarrow> bindE (lst_remove e q) (\<lambda>q. Inr (True, Some e, s\<lparr>env_ready_queue := q\<rparr>)))) a)"
    by (cases a) (auto simp: exit_found_def ready_at_def lst_remove_def leaves_away split: option.split option.split_asm)
qed

lemma ok_sched_exit_env:
  assumes "kernel_ok s"
  shows "okE runs_ok (sched_exit_env i s)"
proof -
  have last: "okE runs_ok (bindE (deref (curenv t)) (\<lambda>c.
      if env_id (envs t c) = i then fos_scheduler (t\<lparr>curenv := None\<rparr>) else Inr (Returns, t)))" if "kernel_ok t" for t
    using that by (auto intro!: okE_deref ok_fos_scheduler kernel_ok_cleared simp: runs_ok_returns)
  have found: "okE runs_ok (bindE (sched_insert_exit p t) (\<lambda>s. bindE (deref (curenv s)) (\<lambda>c.
      if env_id (envs s c) = i then fos_scheduler (s\<lparr>curenv := None\<rparr>) else Inr (Returns, s))))"
    if "exit_found (True, p, t)" for p t
    using that last by (cases p) (auto simp: exit_found_def sched_insert_exit_def [of None] intro: okE_bindI [OF ok_insert_exit])
  have running: "okE runs_ok (bindE (sched_insert_exit (Some c) t) (\<lambda>s. bindE (deref (curenv s)) (\<lambda>c.
      if env_id (envs s c) = j then fos_scheduler (s\<lparr>curenv := None\<rparr>) else Inr (Returns, s))))"
    if "kernel_ok t" "curenv t = Some c" "env_id (envs t c) = j" for t c j
    by (rule okE_bindI [OF ok_insert_exit_running [OF that(1,2)]])
      (use that in \<open>auto simp: same_sched_def exited_def intro: ok_fos_scheduler\<close>)
  show ?thesis
    unfolding sched_exit_env_def
    by (rule okE_bindI [OF ok_exit_new [OF assms]])
      (auto intro!: okE_bindI [OF ok_exit_ready] okE_deref found running
        simp: bindE_assoc exit_found_def runs_ok_returns split: option.splits if_splits)
qed

lemma ok_env_exit: "kernel_ok s \<Longrightarrow> okE runs_ok (env_exit s)"
  unfolding env_exit_def
  by (intro okE_deref okE_bindI [OF ok_sched_exit_env])
    (auto simp: runs_ok_def intro: ok_fos_scheduler [unfolded runs_ok_def])

section \<open>System calls and traps\<close>

definition calls_ok :: "'a outcome \<times> kernel \<Rightarrow> bool" where
  "calls_ok = (\<lambda>(r, s). kernel_ok s \<and> (case r of Ret _ \<Rightarrow> True | Away c \<Rightarrow> control_ok c s))"

lemma calls_ok_simps [simp]:
  "calls_ok (Ret v, s) = kernel_ok s" "calls_ok (Away c, s) \<longleftrightarrow> kernel_ok s \<and> control_ok c s"
  by (simp_all add: calls_ok_def)

lemma ok_keeps: "keeps s r \<Longrightarrow> kernel_ok s \<Longrightarrow> (\<And>a t. kernel_ok t \<Longrightarrow> okE P (f (a, t))) \<Longrightarrow> okE P (bindE r f)"
  by (rule keep_then(1)) (auto intro: kernel_ok_same)

lemma ok_ret:
  assumes "kernel_ok s"
  shows "keeps s r \<Longrightarrow> okE calls_ok (ret_0 r)" "keeps s v \<Longrightarrow> okE calls_ok (ret_val v)" "keeps s i \<Longrightarrow> okE calls_ok (ret_int i)"
  unfolding ret_0_def ret_val_def ret_int_def
  by (erule ok_keeps [OF _ assms], simp add: calls_ok_def)+

lemma ok_ret_out: "okE calls_ok r \<Longrightarrow> okE calls_ok (ret_out f r)"
  unfolding ret_out_def by (erule okE_bindI) (auto simp: calls_ok_def split: outcome.splits)

lemma ok_continue_with: "okE runs_ok r \<Longrightarrow> okE calls_ok (continue_with v r)"
  unfolding continue_with_def by (erule okE_bindI) (auto simp: runs_ok_def)

lemma keep_envid2env [keep]: "same_sched s t \<Longrightarrow> keeps s (envid2env i b t)"
  by (auto simp: envid2env_def Let_def intro!: keep_rules)

text \<open>After creating an environment, it is in none of the places.\<close>

definition created_ok :: "nat option \<times> kernel \<Rightarrow> bool" where
  "created_ok = (\<lambda>(ep, t). case ep of None \<Rightarrow> kernel_ok t | Some e \<Rightarrow> away e t)"

lemma created_ok_simps [simp]: "created_ok (None, s) = kernel_ok s" "created_ok (Some e, s) = away e s"
  by (simp_all add: created_ok_def)

lemma ok_env_create:
  assumes "kernel_ok s"
  shows "okE created_ok (env_create name ws second pct s)"
  by (rule okE_weaken [OF env_create_creates])
    (use assms in \<open>auto simp: creates_def created_ok_def split: option.splits intro: kernel_ok_same away_same taken_away\<close>)

lemma ok_sys_create_env: "kernel_ok s \<Longrightarrow> okE calls_ok (ret_val (sys_create_env a ws second pct s))"
  unfolding sys_create_env_def ret_val_def bindE_assoc
  by (erule ok_keeps [OF keep_user_string [OF same_sched_refl]], simp add: bindE_assoc, rule okE_bindI [OF ok_env_create], assumption)
    (auto simp: sched_new_env_def created_ok_def bindE_assoc split: option.splits intro!: okE_bindI [OF ok_insert(2)])

lemma ok_sys_env_destroy: "kernel_ok s \<Longrightarrow> okE calls_ok (sys_env_destroy i s)"
  unfolding sys_env_destroy_def
  by (erule ok_keeps [OF keep_envid2env [OF same_sched_refl]])
    (auto intro!: okE_deref ok_continue_with ok_sched_kill_env)

lemma ok_call:
  assumes "kernel_ok s"
  shows "okE calls_ok (call hw n a1 a2 a3 a4 a5 s)"
proof -
  have times: "okE calls_ok (bindE (cpu_store_word a1 (fst v) s) (\<lambda>s. bindE (cpu_store_word a2 (snd v) s) (\<lambda>s. Inr (Ret 0, s))))" for v :: "uint32 \<times> uint32"
    using assms by (auto simp: calls_ok_def intro!: keep_then(2) [OF keep_cpu_words(2)] elim: kernel_ok_same)
  have settings: "okE calls_ok (Inr (Ret v, upd_cfg f s))" for v :: uint32 and f
    using kernel_ok_same [OF assms, of "upd_cfg f s"] by (simp add: calls_ok_def upd_cfg_def)
  have same: "okE calls_ok (Inr (Ret v, s))" for v :: uint32 using assms by (simp add: calls_ok_def)
  have count: "okE calls_ok (bindE r (\<lambda>v. Inr (Ret v, s)))" for r :: "halt + uint32"
    using same by (cases r) simp_all
  note calls = ok_ret [OF assms] keep ok_ret_out ok_continue_with ok_sys_create_env [OF assms] ok_sys_env_destroy [OF assms]
    ok_env_exit [OF assms] ok_sched_run_env [OF assms] ok_sched_kill_env [OF assms] times settings same count
  show ?thesis
    by (cases n; simp only: call_def sysno.case sys_disable_interrupt_def sys_enable_interrupt_def sys_env_exit_def
        sys_run_env_def sys_free_env_def sys_bypassPageFault_def rsttst_def inctst_def sys_set_uheap_strategy_def;
      (intro calls same_sched_refl)?)
qed

lemma ok_syscall: "kernel_ok s \<Longrightarrow> okE calls_ok (syscall hw no a1 a2 a3 a4 a5 s)"
  by (simp add: syscall_def ok_call)

lemma same_sched_kclock:
  "same_sched s (kclock_stop s)" "same_sched s (kclock_resume s)"
  using kclock_stop_frame [of s] kclock_resume_frame [of s] by (metis same_sched_fields(12) same_sched_refl)+

text \<open>The state after a trap: the environment whose user code runs is the current one, and the prompt has none.\<close>

definition resumed_ok :: "resumed \<times> kernel \<Rightarrow> bool" where
  "resumed_ok = (\<lambda>(k, s). kernel_ok s
     \<and> (case k of User e \<Rightarrow> curenv s = Some e | Kernel _ \<Rightarrow> True | Prompt \<Rightarrow> curenv s = None))"

lemma ok_run_cur: "kernel_ok s \<Longrightarrow> okE resumed_ok (run_cur s)"
proof -
  assume ok: "kernel_ok s"
  have "resumed_ok (User c, env_run c s)" if c: "curenv s = Some c" for c
  proof -
    have "env_status (envs s c) = ENV_RUNNABLE" using ok c by (simp add: kernel_ok_def queues_ok_def)
    then have "same_sched s (env_run c s)" using c by (simp add: same_sched_def env_run_sel env_run_rest)
    then show ?thesis using kernel_ok_same [OF ok] by (simp add: resumed_ok_def env_run_sel)
  qed
  then show ?thesis unfolding run_cur_def by (intro okE_deref) simp
qed

lemma upd_frame_same: "upd_frame f p s = (p', t) \<Longrightarrow> same_sched s t"
  by (auto simp: upd_frame_def split: frame_place.splits)

lemma ok_trap_dispatch: "kernel_ok s \<Longrightarrow> okE calls_ok (trap_dispatch hw p s)"
proof -
  assume ok: "kernel_ok s"
  have set_eax: "okE calls_ok (let (p, s) = upd_frame f q t in Inr (Ret p, s))" if "kernel_ok t" for f q t
    using kernel_ok_same [OF that upd_frame_same] by (auto simp: Let_def split: prod.split)
  have sys: "okE calls_ok (bindE r (\<lambda>(r, s). case r of Away c \<Rightarrow> Inr (Away c, s)
      | Ret v \<Rightarrow> (let (p, s) = upd_frame (f v) p s in Inr (Ret p, s))))" if r: "okE calls_ok r"
    for r :: "uint32 outcome result" and f
  proof (rule okE_bindI [OF r])
    fix a :: "uint32 outcome \<times> kernel" assume a: "calls_ok a"
    obtain o' t where o': "a = (o', t)" by (cases a)
    show "okE calls_ok (case a of (r, s) \<Rightarrow> (case r of Away c \<Rightarrow> Inr (Away c, s)
      | Ret v \<Rightarrow> (let (p, s) = upd_frame (f v) p s in Inr (Ret p, s))))"
      using a set_eax [of t] unfolding o' by (cases o') simp_all
  qed
  show ?thesis
    unfolding trap_dispatch_def Let_def [of "frame_at p s"] clock_interrupt_handler_def
    using ok
    by (auto intro!: ok_keeps keep_fault_handler sys ok_syscall ok_continue_with ok_fos_scheduler)
qed

lemma ok_bypass: "kernel_ok s \<Longrightarrow> okE resumed_ok (bypass p s)"
proof -
  assume ok: "kernel_ok s"
  have "okE resumed_ok (case q of Saved c \<Rightarrow> run_cur t | Stacked tf \<Rightarrow> Inr (Kernel tf, kclock_resume t))"
    if "upd_frame f p s = (q, t)" for f q t
  proof -
    have t: "kernel_ok t" by (rule kernel_ok_same [OF ok upd_frame_same [OF that]])
    then have "kernel_ok (kclock_resume t)" using same_sched_kclock(2) by (rule kernel_ok_same)
    then show ?thesis using ok_run_cur [OF t] by (simp add: resumed_ok_def split: frame_place.split)
  qed
  then show ?thesis unfolding bypass_def Let_def by (simp split: prod.split)
qed

lemma ok_resume_of: "calls_ok (Away c :: frame_place outcome, s) \<Longrightarrow> okE resumed_ok (bindE (resume_of c) (\<lambda>k. Inr (k, s)))"
  by (cases c) (simp_all add: resume_of_def resumed_ok_def control_ok_def)

text \<open>A trap keeps the invariant, whatever the registers are and wherever it comes from.\<close>

lemma ok_trap:
  assumes "kernel_ok s"
  shows "okE resumed_ok (trap hw tf s)"
proof -
  have start: "kernel_ok (kclock_stop s)" by (rule kernel_ok_same [OF assms same_sched_kclock(1)])
  have saved: "kernel_ok (upd_env c f t)" if "kernel_ok t" "\<And>en. env_status (f en) = env_status en \<and> env_id (f en) = env_id en" for c f t
    using that by (intro kernel_ok_same [OF that(1)]) simp
  have fin: "okE resumed_ok (case r of Away c \<Rightarrow> bindE (resume_of c) (\<lambda>k. Inr (k, t))
        | Ret (Stacked tf) \<Rightarrow> Inr (Kernel tf, t)
        | Ret (Saved _) \<Rightarrow> (case curenv t of None \<Rightarrow> Inl h
           | Some c \<Rightarrow> if env_status (envs t c) = ENV_RUNNABLE then run_cur t else Inl h))"
    if "calls_ok (r, t)" for r t h
    using that ok_run_cur [of t] ok_resume_of
    by (auto simp: resumed_ok_def split: outcome.split frame_place.split option.split)
  have rest: "okE resumed_ok (if b then bypass p t else bindE (trap_dispatch hw p t) (\<lambda>(r, s).
        case r of Away c \<Rightarrow> bindE (resume_of c) (\<lambda>k. Inr (k, s))
        | Ret (Stacked tf) \<Rightarrow> Inr (Kernel tf, s)
        | Ret (Saved _) \<Rightarrow> (case curenv s of None \<Rightarrow> Inl h
           | Some c \<Rightarrow> if env_status (envs s c) = ENV_RUNNABLE then run_cur s else Inl h)))"
    if "kernel_ok t" for b p t h
    using ok_bypass [OF that] by (auto intro!: okE_bindI [OF ok_trap_dispatch [OF that]] fin split: prod.split)
  show ?thesis
    unfolding trap_def Let_def
  proof (rule okE_bindI [where Q = "\<lambda>(_, t). kernel_ok t"], goal_cases)
    case 1
    then show ?case using start saved by (simp split: option.split)
  next
    case (2 a)
    then obtain p t where a: "a = (p, t)" and t: "kernel_ok t" by (cases a) auto
    show ?case
      unfolding a prod.case by (rule rest) (use t saved in \<open>simp split: frame_place.split\<close>)
  qed
qed

end
