(* ===== verification/Kernel_Runs.thy ===== *)
theory Kernel_Runs
  imports Kernel_Invariant Command_Prompt Kernel_Start Panics
begin

text \<open>
  The kernel as a whole: from the command prompt that \<open>FOS_initialize\<close> reaches, through commands, user code, traps
  and system calls, and the panics that user code and commands cause. Every command keeps the invariant of \<open>Kernel_Invariant\<close>, so it holds in every state that the
  kernel reaches.
\<close>

section \<open>Commands\<close>

text \<open>Commands on memory return and move no environment.\<close>

definition returns_same :: "kernel \<Rightarrow> control \<times> kernel \<Rightarrow> bool" where
  "returns_same s = (\<lambda>(c, t). c = Returns \<and> same_sched s t)"

lemma returns_same_ok: "okE (returns_same s) r \<Longrightarrow> kernel_ok s \<Longrightarrow> okE runs_ok r"
  by (erule okE_weaken) (auto simp: returns_same_def runs_ok_def control_ok_def intro: kernel_ok_same)

lemma returns_returns [simp]: "okE (returns_same s) (returns t) = same_sched s t"
  by (simp add: returns_def returns_same_def)

lemmas returns_then = keep_then [where P = "returns_same s" and s = s for s]
  okE_bind_value [where 'a = int] okE_bind_value [where 'a = uint32] okE_bind_value [where 'a = nat]

lemma keep_load_bytes [keep]: "same_sched s t \<Longrightarrow> keeps s (load_bytes n (a, t))"
  by (auto simp: load_bytes_def intro!: keep_rules keep)

lemma memory_commands:
  "okE (returns_same s) (command_writeusermem pe m args s)" "okE (returns_same s) (command_writemem_k pe m args s)"
  "okE (returns_same s) (command_readusermem pe m args s)" "okE (returns_same s) (command_readmem_k pe m args s)"
  "okE (returns_same s) (command_readuserblock pe m args s)" "okE (returns_same s) (command_remove_table pe m args s)"
  "okE (returns_same s) (command_allocuserpage pe m args s)" "okE (returns_same s) (command_prints pe m args s)"
  by (auto simp: command_writeusermem_def command_writemem_k_def command_readusermem_def command_readmem_k_def
      command_readuserblock_def command_remove_table_def command_allocuserpage_def command_prints_def Let_def
      intro!: returns_then keep_rules keep split: option.split)

lemma ok_CreateEnv:
  assumes "kernel_ok s"
  shows "okE created_ok (CreateEnv m args s)"
  unfolding CreateEnv_def Let_def
  by (rule okE_bind_value) (use assms in \<open>auto intro!: okE_bind_value [where 'a = string] ok_env_create split: option.split prod.split\<close>)

lemma ok_created:
  assumes "kernel_ok s" and "\<And>e t. kernel_ok t \<Longrightarrow> okE runs_ok (f e t)"
  shows "okE runs_ok (bindE (CreateEnv m args s) (\<lambda>(env, s). case env of None \<Rightarrow> returns s
     | Some e \<Rightarrow> bindE (sched_new_env (Some e) s) (f e)))"
  by (rule okE_bindI [OF ok_CreateEnv [OF assms(1)]])
    (auto simp: returns_def sched_new_env_def created_ok_def runs_ok_returns split: option.splits intro!: okE_bindI [OF ok_insert(2)] assms(2))

lemma ok_environment_commands:
  assumes "kernel_ok s"
  shows "okE runs_ok (command_run_program pe m args s)" "okE runs_ok (command_kill_program pe m args s)"
    "okE runs_ok (commnad_load_env pe m args s)" "okE runs_ok (command_run_all pe m args s)"
    "okE runs_ok (command_kill_all pe m args s)" "okE runs_ok (command_test_sc_MLFQ pe m args s)"
  unfolding command_run_program_def command_kill_program_def commnad_load_env_def command_run_all_def command_kill_all_def
    command_test_sc_MLFQ_def
  using assms
  by (auto intro!: ok_created ok_sched_run_env okE_bind_value [where 'a = int] ok_sched_kill_env ok_sched_run_all
      ok_sched_kill_all simp: returns_def runs_ok_returns)

lemma ok_settings:
  assumes "kernel_ok s"
  shows "runs_ok (Returns, s\<lparr>cfg := c\<rparr>)" "runs_ok (Returns, s\<lparr>chk := k\<rparr>)"
  using kernel_ok_same [OF assms] by (simp_all add: runs_ok_returns)

lemma ok_setting_commands:
  assumes "kernel_ok s"
  shows "okE runs_ok (command_set_page_rep_LRU pe m args s)" "okE runs_ok (command_set_page_rep_CLOCK pe m args s)"
    "okE runs_ok (command_set_page_rep_FIFO pe m args s)" "okE runs_ok (command_set_page_rep_ModifiedCLOCK pe m args s)"
    "okE runs_ok (command_sch_test pe m args s)"
    "okE runs_ok (command_set_uheap_plac_FIRSTFIT pe m args s)" "okE runs_ok (command_set_uheap_plac_BESTFIT pe m args s)"
    "okE runs_ok (command_set_uheap_plac_NEXTFIT pe m args s)" "okE runs_ok (command_set_uheap_plac_WORSTFIT pe m args s)"
    "okE runs_ok (command_set_kheap_plac_CONTALLOC pe m args s)" "okE runs_ok (command_set_kheap_plac_FIRSTFIT pe m args s)"
    "okE runs_ok (command_set_kheap_plac_BESTFIT pe m args s)" "okE runs_ok (command_set_kheap_plac_NEXTFIT pe m args s)"
    "okE runs_ok (command_set_kheap_plac_WORSTFIT pe m args s)"
    "okE runs_ok (command_disable_modified_buffer pe m args s)" "okE runs_ok (command_enable_modified_buffer pe m args s)"
    "okE runs_ok (command_disable_buffering pe m args s)" "okE runs_ok (command_enable_buffering pe m args s)"
    "okE runs_ok (command_set_modified_buffer_length pe m args s)"
  using assms ok_settings [OF assms]
  by (auto simp: command_set_page_rep_LRU_def command_set_page_rep_CLOCK_def command_set_page_rep_FIFO_def
      command_set_page_rep_ModifiedCLOCK_def command_sch_test_def command_set_uheap_plac_FIRSTFIT_def
      command_set_uheap_plac_BESTFIT_def command_set_uheap_plac_NEXTFIT_def command_set_uheap_plac_WORSTFIT_def
      command_set_kheap_plac_CONTALLOC_def command_set_kheap_plac_FIRSTFIT_def command_set_kheap_plac_BESTFIT_def
      command_set_kheap_plac_NEXTFIT_def command_set_kheap_plac_WORSTFIT_def command_disable_modified_buffer_def
      command_enable_modified_buffer_def command_disable_buffering_def command_enable_buffering_def
      command_set_modified_buffer_length_def setPageReplacmentAlgorithmLRU_def setPageReplacmentAlgorithmCLOCK_def
      setPageReplacmentAlgorithmFIFO_def setPageReplacmentAlgorithmModifiedCLOCK_def set_algo_def chksch_def
      setUHeapPlacementStrategyFIRSTFIT_def setUHeapPlacementStrategyBESTFIT_def setUHeapPlacementStrategyNEXTFIT_def
      setUHeapPlacementStrategyWORSTFIT_def setKHeapPlacementStrategyCONTALLOC_def setKHeapPlacementStrategyFIRSTFIT_def
      setKHeapPlacementStrategyBESTFIT_def setKHeapPlacementStrategyNEXTFIT_def setKHeapPlacementStrategyWORSTFIT_def
      set_UHP_def set_KHP_def enableModifiedBuffer_def enableBuffering_def setModifiedBufferLength_def Let_def
      returns_def runs_ok_returns intro!: okE_bind_value [where 'a = int] split: option.split)

lemma ok_sch_commands:
  assumes "kernel_ok s"
  shows "okE runs_ok (command_sch_RR pe m args s)" "okE runs_ok (command_sch_MLFQ pe m args s)"
proof -
  have init: "okE (\<lambda>(_, t). kernel_ok t) (sched_init_RR q s)" for q
    unfolding sched_init_RR_def Let_def
  proof (rule keep_then(1) [OF keep_kclock_set_quantum])
    show "same_sched s (s\<lparr>scheduler_status := SCH_STOPPED, scheduler_method := SCH_RR, num_of_ready_queues := 1, quantum := q\<rparr>)"
      by simp
    fix a :: unit and t assume "same_sched s t"
    then have "kernel_ok t" by (rule kernel_ok_same [OF assms])
    then show "okE (\<lambda>(_, t). kernel_ok t) (case (a, t) of (_, s) \<Rightarrow> Inr ((), s\<lparr>env_ready_queue := []\<rparr>))"
      by (auto simp: ok_defs split: option.splits)
  qed
  show "okE runs_ok (command_sch_RR pe m args s)"
    unfolding command_sch_RR_def
    by (intro okE_bind_value [where 'a = int] okE_bindI [OF init]) (auto simp: returns_def runs_ok_returns)
  show "okE runs_ok (command_sch_MLFQ pe m args s)"
    unfolding command_sch_MLFQ_def by (simp add: sched_init_MLFQ_def sched_delete_ready_queues_def okE_iff bindE_eq_Inr)
qed

text \<open>The kernel tests are not modelled: a command keeps the invariant if the tests it runs do.\<close>

definition tests_ok :: "prompt_env \<Rightarrow> bool" where
  "tests_ok pe \<longleftrightarrow> (\<forall>name s. kernel_ok s \<longrightarrow> okE runs_ok (ktest pe name s))"

lemma ok_test_commands:
  assumes "kernel_ok s" and "tests_ok pe"
  shows "okE runs_ok (command_test_kmalloc pe m args s)" "okE runs_ok (command_test_kfree pe m args s)"
    "okE runs_ok (command_test_krealloc pe m args s)" "okE runs_ok (command_test name pe m args s)"
  unfolding command_test_kmalloc_def command_test_kfree_def command_test_krealloc_def command_test_def
  using assms by (auto simp: tests_ok_def returns_def runs_ok_returns intro!: okE_bind_value [where 'a = int])

lemma list_all_table:
  "list_all (\<lambda>(_, f). P f) []" "P f \<Longrightarrow> list_all (\<lambda>(_, f). P f) xs \<Longrightarrow> list_all (\<lambda>(_, f). P f) ((n, f) # xs)"
  by simp_all

lemma ok_commands:
  assumes "kernel_ok s" and "tests_ok pe" and "(name, f) \<in> set commands"
  shows "okE runs_ok (f pe m args s)"
proof -
  have "list_all (\<lambda>(_, f). okE runs_ok (f pe m args s)) commands"
    unfolding commands_def
    by (intro list_all_table [where P = "\<lambda>f. okE runs_ok (f pe m args s)"] memory_commands [THEN returns_same_ok, OF assms(1)]
        ok_environment_commands [OF assms(1)] ok_setting_commands [OF assms(1)] ok_sch_commands [OF assms(1)]
        ok_test_commands [OF assms(1,2)])
  then show ?thesis using assms(3) unfolding list_all_iff by fast
qed

lemma find_in_set: "find P xs = Some x \<Longrightarrow> x \<in> set xs"
  by (auto simp: find_Some_iff)

lemma ok_execute_command:
  assumes "kernel_ok s" and "tests_ok pe"
  shows "okE runs_ok (execute_command pe m p s)"
proof -
  have "okE runs_ok (f pe m' args s)" if "find P commands = Some (name, f)" for P name f m' args
    by (rule ok_commands [OF assms find_in_set [OF that]])
  then show ?thesis
    using assms(1) unfolding execute_command_def
    by (auto simp: returns_def runs_ok_returns split: option.split)
qed

section \<open>Panics\<close>

lemma ok_exit_all_ready: "kernel_ok s \<Longrightarrow> okE kernel_ok (sched_exit_all_ready_envs s)"
proof -
  have "okE kernel_ok (bindE (lst_remove e (env_ready_queue t)) (\<lambda>q. sched_insert_exit (Some e) (t\<lparr>env_ready_queue := q\<rparr>)))"
    if "kernel_ok t" for e t
    using ok_insert_exit leaves_away(1) [OF that, of e] by (simp add: lst_remove_def)
  then show "kernel_ok s \<Longrightarrow> okE kernel_ok (sched_exit_all_ready_envs s)"
    unfolding sched_exit_all_ready_envs_def each_in_def
    by (elim foldE_inv, intro okE_bind_value, elim foreach_inv [rotated])
qed

lemma ok_after_halt: "kernel_ok s \<Longrightarrow> okE runs_ok (after_halt h s)"
proof -
  assume ok: "kernel_ok s"
  have schedule: "okE runs_ok (then_schedule r)" if "okE runs_ok r" for r
    unfolding then_schedule_def
    by (rule okE_bindI [OF that]) (auto simp: runs_ok_def intro: ok_fos_scheduler [unfolded runs_ok_def])
  have exits: "okE runs_ok (case curenv t of None \<Rightarrow> Inr (Returns, t) | Some c \<Rightarrow> sched_exit_env (env_id (envs t c)) t)"
    if "kernel_ok t" for t
    using that by (simp add: runs_ok_returns ok_sched_exit_env split: option.split)
  have "okE runs_ok (panic_curenv s)"
    unfolding panic_curenv_def using ok by (intro schedule) (simp add: runs_ok_returns ok_env_exit split: option.split)
  moreover have "okE runs_ok (panic_all s)"
    unfolding panic_all_def by (rule okE_bindI [OF ok_exit_all_ready [OF ok]]) (rule schedule [OF exits])
  ultimately show ?thesis by (simp add: after_halt_def split: halt.split)
qed

section \<open>The start\<close>

text \<open>Until \<open>env_init\<close> no environment is in any place.\<close>

definition unplaced :: "kernel \<Rightarrow> bool" where
  "unplaced s \<longleftrightarrow> curenv s = None \<and> env_free_list s = []"

lemma unplaced_fields [simp]:
  "unplaced (s\<lparr>pmem := m\<rparr>) = unplaced s" "unplaced (s\<lparr>frames_info := fi\<rparr>) = unplaced s" "unplaced (s\<lparr>envs := es\<rparr>) = unplaced s"
  "unplaced (s\<lparr>cr3 := a\<rparr>) = unplaced s" "unplaced (s\<lparr>cfg := c\<rparr>) = unplaced s" "unplaced (s\<lparr>free_frame_list := l\<rparr>) = unplaced s"
  "unplaced (s\<lparr>modified_frame_list := l\<rparr>) = unplaced s" "unplaced (s\<lparr>disk_free_frame_list := l\<rparr>) = unplaced s"
  "unplaced (s\<lparr>number_of_frames := n\<rparr>) = unplaced s" "unplaced (s\<lparr>ptr_page_directory := pd, phys_page_directory := pa\<rparr>) = unplaced s"
  "unplaced (wr f i v s) = unplaced s" "unplaced (wr_page f p s) = unplaced s" "unplaced (upd_fi f g s) = unplaced s"
  by (simp_all add: unplaced_def wr_def wr_page_def upd_fi_def)

lemma unplaced_fold: "unplaced s \<Longrightarrow> (\<And>x t. unplaced t \<Longrightarrow> unplaced (f x t)) \<Longrightarrow> unplaced (fold f xs s)"
  by (induction xs arbitrary: s) auto

definition unplaced_snd :: "'a \<times> kernel \<Rightarrow> bool" where
  "unplaced_snd = (\<lambda>(_, s). unplaced s)"

lemma unplaced_snd_simps [simp]: "unplaced_snd (a, s) = unplaced s"
  by (simp add: unplaced_snd_def)

lemma unplaced_get_page_table:
  "unplaced_snd st \<Longrightarrow> okE (\<lambda>(_, st). unplaced_snd st) (boot_get_page_table eok pd va c st)"
  by (cases st) (auto simp: boot_get_page_table_def boot_allocate_space_def Let_def
      intro!: okE_bind_value [where 'a = nat] okE_bind_value [where 'a = uint32])

lemma unplaced_boot_map:
  assumes "unplaced_snd st"
  shows "okE unplaced_snd (boot_map_range eok pd va n pa perm st)" "okE unplaced_snd (boot_tables eok pd st)"
proof -
  have "okE unplaced_snd (boot_map_pages k eok pd va pa perm st)" if "unplaced_snd st" for k va pa and st :: "uint32 \<times> kernel"
    using that
    by (induction k arbitrary: va pa st)
      (auto intro!: okE_bindI [OF unplaced_get_page_table] okE_bind_value [where 'a = nat])
  then show "okE unplaced_snd (boot_map_range eok pd va n pa perm st)" using assms by (simp add: boot_map_range_def)
  show "okE unplaced_snd (boot_tables eok pd st)"
    unfolding boot_tables_def using assms by (intro foldE_inv) (auto intro!: okE_bindI [OF unplaced_get_page_table])
qed

lemma unplaced_kernel_VM:
  assumes "unplaced s"
  shows "okE unplaced_snd (initialize_kernel_VM eok stack s)"
proof -
  have paging: "unplaced (turn_on_paging fm t)" if "unplaced t" for fm t
    unfolding turn_on_paging_def copy_kernel_entries_def Let_def using that by (auto intro!: unplaced_fold)
  have listing: "okE unplaced (setup_listing_to_all_page_tables_entries p t)" if "unplaced t" for p t
    using that by (auto simp: setup_listing_to_all_page_tables_entries_def Let_def intro!: okE_bind_value [where 'a = uint32])
  show ?thesis
    unfolding initialize_kernel_VM_def boot_allocate_space_def Let_def prod.case
    using assms
    by (auto intro!: okE_bind_value [where 'a = uint32] okE_bind_value [where 'a = unit] okE_bindI [OF unplaced_boot_map(1)]
        okE_bindI [OF unplaced_boot_map(2)] okE_bindI [OF listing] paging split: prod.split)
qed

lemma unplaced_paging:
  assumes "unplaced s"
  shows "okE unplaced_snd (initialize_paging fm s)"
proof -
  have put: "okE unplaced (put_free i t)" "okE unplaced (mark_used i t)" if "unplaced t" for i t
    using that by (auto simp: put_free_def mark_used_def initialize_frame_info_def Let_def intro!: okE_bind_value [where 'a = "nat list"])
  have clear: "unplaced (clear_1024_bytes f t)" if "unplaced t" for f t
    unfolding clear_1024_bytes_def using that by (auto intro!: unplaced_fold)
  have puts: "okE unplaced (foldE put_free xs t)" "okE unplaced (foldE mark_used xs t)" if "unplaced t" for xs t
    using that put by (auto intro!: foldE_inv)
  show ?thesis
    unfolding initialize_paging_def initialize_disk_page_file_def Let_def
    using assms
    by (intro okE_bindI [OF puts(1)] okE_bindI [OF puts(2)] okE_bind_value [where 'a = uint32]
        okE_bind_value [where 'a = "nat list"]) (simp_all add: clear)
qed

lemma kernel_ok_start:
  assumes "curenv s = None" and "env_ready_queue s = []" "env_new_queue s = []" "env_exit_queue s = []"
    and "env_free_list s = [0..<NENV]" and "\<forall>i<NENV. env_status (envs s i) = ENV_FREE"
  shows "kernel_ok s"
  using assms by (auto simp: ok_defs)

lemma ok_FOS_initialize:
  assumes "unplaced s" and run: "FOS_initialize nvram eok stack s = Some (Inr s')"
  shows "kernel_ok s' \<and> curenv s' = None"
proof -
  obtain s0 fm s1 s2 s3 where s0: "detect_memory nvram s = Some s0" "initialize_kernel_VM eok stack s0 = Inr (fm, s1)"
    "initialize_paging fm s1 = Inr ((), s2)" "env_init s2 = Inr ((), s3)"
    using run by (auto simp: FOS_initialize_def bindE_eq_Inr split: option.splits)
  have "unplaced s0" using assms(1) detect_memory_bound [OF s0(1)] by auto
  then have "unplaced s1" using unplaced_kernel_VM s0(2) by (fastforce simp: okE_iff)
  then have "unplaced s2" using unplaced_paging s0(3) by (fastforce simp: okE_iff)
  then have s3: "s3 = s2\<lparr>envs := (\<lambda>i. if i < NENV then (envs s2 i)\<lparr>env_status := ENV_FREE, env_id := 0\<rparr> else envs s2 i),
      env_free_list := [0..<NENV]\<rparr>" and c: "curenv s2 = None"
    using env_init_eq [of s2] s0(4) by (simp_all add: unplaced_def)
  define s4 where "s4 = pic_init (setModifiedBufferLength 1000 (enableModifiedBuffer 0 (enableBuffering 0
     (setKHeapPlacementStrategyFIRSTFIT (setUHeapPlacementStrategyBESTFIT (set_algo PG_REP_LRU_LISTS_APPROX s3))))))"
  obtain cl where "sched_init s4 = Inr ((), s4\<lparr>scheduler_status := SCH_STOPPED, scheduler_method := SCH_RR, num_of_ready_queues := 1,
     quantum := CLOCK_INTERVAL_IN_MS, clock := cl, env_ready_queue := [], env_new_queue := [], env_exit_queue := []\<rparr>)"
    using sched_init_eq by blast
  then have "s' = s4\<lparr>scheduler_status := SCH_STOPPED, scheduler_method := SCH_RR, num_of_ready_queues := 1,
     quantum := CLOCK_INTERVAL_IN_MS, clock := cl, env_ready_queue := [], env_new_queue := [], env_exit_queue := []\<rparr>"
    using run s0 by (simp add: FOS_initialize_def setPageReplacmentAlgorithmLRU_def s4_def Let_def)
  moreover have "envs s4 = envs s3" "curenv s4 = curenv s3" "env_free_list s4 = env_free_list s3"
    by (simp_all add: s4_def pic_init_def Let_def upd_clock_def irq_setmask_8259A_def setModifiedBufferLength_def
        enableModifiedBuffer_def enableBuffering_def setKHeapPlacementStrategyFIRSTFIT_def set_KHP_def
        setUHeapPlacementStrategyBESTFIT_def set_UHP_def set_algo_def)
  ultimately show ?thesis using c s3 by (intro conjI kernel_ok_start) simp_all
qed

section \<open>Runs\<close>

text \<open>
  A halt can come in the middle of an operation: an environment has left its place and not entered the next one, as in
  \<open>env_create\<close>, which panics on a full page file after \<open>initialize_environment\<close> took the environment off the free list,
  or several have moved, as in the loops of the scheduler commands. \<open>env_moves s u\<close> says that \<open>u\<close> is \<open>s\<close> after
  any such moves; the rest of the state is arbitrary.
\<close>

inductive env_moves :: "kernel \<Rightarrow> kernel \<Rightarrow> bool" where
  stay: "same_sched s t \<Longrightarrow> env_moves s t"
| move_same: "env_moves s t \<Longrightarrow> same_sched t u \<Longrightarrow> env_moves s u"
| leave_running: "env_moves s t \<Longrightarrow> env_moves s (t\<lparr>curenv := None\<rparr>)"
| leave_ready: "env_moves s t \<Longrightarrow> e \<in> set (env_ready_queue t) \<Longrightarrow> env_moves s (t\<lparr>env_ready_queue := remove1 e (env_ready_queue t)\<rparr>)"
| leave_new: "env_moves s t \<Longrightarrow> e \<in> set (env_new_queue t) \<Longrightarrow> env_moves s (t\<lparr>env_new_queue := remove1 e (env_new_queue t)\<rparr>)"
| leave_exit: "env_moves s t \<Longrightarrow> e \<in> set (env_exit_queue t) \<Longrightarrow> env_moves s (t\<lparr>env_exit_queue := remove1 e (env_exit_queue t)\<rparr>)"
| leave_free: "env_moves s t \<Longrightarrow> e \<in> set (env_free_list t) \<Longrightarrow> env_moves s (taken e t)"
| moving: "env_moves s t \<Longrightarrow> e < NENV \<Longrightarrow> e \<notin> set (places t) \<Longrightarrow> env_moves s (upd_env e f t)"
| enter_ready: "env_moves s t \<Longrightarrow> e < NENV \<Longrightarrow> e \<notin> set (places t) \<Longrightarrow>
    env_moves s (set_status e ENV_READY t\<lparr>env_ready_queue := e # env_ready_queue t\<rparr>)"
| enter_new: "env_moves s t \<Longrightarrow> e < NENV \<Longrightarrow> e \<notin> set (places t) \<Longrightarrow>
    env_moves s (set_status e ENV_NEW t\<lparr>env_new_queue := e # env_new_queue t\<rparr>)"
| enter_exit: "env_moves s t \<Longrightarrow> e < NENV \<Longrightarrow> e \<notin> set (places t) \<Longrightarrow> env_moves s (exited e t)"
| enter_free: "env_moves s t \<Longrightarrow> e < NENV \<Longrightarrow> e \<notin> set (places t) \<Longrightarrow> env_moves s (released e t)"

lemma env_moves_ok: "env_moves s u \<Longrightarrow> kernel_ok s \<Longrightarrow> kernel_ok u"
proof (induction rule: env_moves.induct)
  case (stay s t)
  then show ?case by (blast intro: kernel_ok_same)
next
  case (move_same s t u)
  then show ?case by (blast intro: kernel_ok_same)
next
  case (leave_running s t)
  show ?case
  proof (cases "curenv t")
    case None
    then have "same_sched t (t\<lparr>curenv := None\<rparr>)" by (simp add: same_sched_def)
    then show ?thesis using leave_running by (blast intro: kernel_ok_same)
  next
    case (Some e)
    then show ?thesis using leave_running leaves_away(4) awayD by blast
  qed
next
  case (leave_ready s t e)
  then show ?case using leaves_away(1) awayD by blast
next
  case (leave_new s t e)
  then show ?case using leaves_away(2) awayD by blast
next
  case (leave_exit s t e)
  then show ?case using leaves_away(3) awayD by blast
next
  case (leave_free s t e)
  then show ?case using taken_away awayD by blast
next
  case (moving s t e f)
  then show ?case using away_upd_env [of e t f] awayD by (auto simp: away_def)
next
  case (enter_ready s t e)
  then show ?case using away_enters(3) [of e t] by (simp add: away_def)
next
  case (enter_new s t e)
  then show ?case using away_enters(4) [of e t] by (simp add: away_def)
next
  case (enter_exit s t e)
  then show ?case using away_enters(2) [of e t] by (simp add: away_def)
next
  case (enter_free s t e)
  then show ?case using away_enters(1) [of e t] by (simp add: away_def)
qed

text \<open>
  The kernel as a machine between traps. While user code of an environment runs it changes memory, here in any way,
  and the processor sets \<open>CR2\<close>; it ends with a trap from user mode with any registers. At the prompt a command line is
  executed, or a trap interrupts the prompt, which goes on when the trap returns to it. A trap and a command can
  halt: the panic routines then run in the state in which the operation stopped, and go on to the scheduler. A halt
  inside the scheduler itself, for a quantum that is too large or another method than round robin, is followed by
  the same halt in the panic routine and so on, and there is no next step. A run also ends with a halt that is
  neither a panic nor a false assertion, and when a command runs one of the kernel tests, which are not modelled.
\<close>

definition no_tests :: "string \<Rightarrow> kernel \<Rightarrow> control result" where
  "no_tests name s = Inl (Panic ''kernel test'')"

definition after_command :: "control \<Rightarrow> resumed" where
  "after_command c = (case c of Runs e \<Rightarrow> User e | _ \<Rightarrow> Prompt)"

definition back_to_prompt :: "resumed \<Rightarrow> resumed" where
  "back_to_prompt k = (case k of User e \<Rightarrow> User e | _ \<Rightarrow> Prompt)"

inductive kernel_step :: "resumed \<times> kernel \<Rightarrow> resumed \<times> kernel \<Rightarrow> bool" where
  user_trap: "tf_cs tf AND 3 = 3 \<Longrightarrow> trap hw tf (s\<lparr>pmem := m, cr2 := a\<rparr>) = Inr (k, t) \<Longrightarrow> kernel_step (User e, s) (k, t)"
| prompt_trap: "tf_cs tf AND 3 \<noteq> 3 \<Longrightarrow> trap hw tf (s\<lparr>cr2 := a\<rparr>) = Inr (k, t) \<Longrightarrow> kernel_step (Prompt, s) (back_to_prompt k, t)"
| user_panic: "tf_cs tf AND 3 = 3 \<Longrightarrow> trap hw tf (s\<lparr>pmem := m, cr2 := a\<rparr>) = Inl h \<Longrightarrow> env_moves s u \<Longrightarrow>
    after_halt h u = Inr (c, t) \<Longrightarrow> kernel_step (User e, s) (after_command c, t)"
| prompt_panic: "tf_cs tf AND 3 \<noteq> 3 \<Longrightarrow> trap hw tf (s\<lparr>cr2 := a\<rparr>) = Inl h \<Longrightarrow> env_moves s u \<Longrightarrow>
    after_halt h u = Inr (c, t) \<Longrightarrow> kernel_step (Prompt, s) (after_command c, t)"
| command: "execute_command (pe\<lparr>ktest := no_tests\<rparr>) m p s = Inr (c, t) \<Longrightarrow> kernel_step (Prompt, s) (after_command c, t)"
| command_panic: "execute_command (pe\<lparr>ktest := no_tests\<rparr>) m p s = Inl h \<Longrightarrow> h \<noteq> Panic ''kernel test'' \<Longrightarrow> env_moves s u \<Longrightarrow>
    after_halt h u = Inr (c, t) \<Longrightarrow> kernel_step (Prompt, s) (after_command c, t)"

text \<open>Where control is, the invariant holds, and the environment whose code runs is the current one.\<close>

definition running_ok :: "resumed \<times> kernel \<Rightarrow> bool" where
  "running_ok = (\<lambda>(k, s). kernel_ok s \<and> (\<forall>e. k = User e \<longrightarrow> curenv s = Some e))"

lemma no_tests_ok: "tests_ok (pe\<lparr>ktest := no_tests\<rparr>)"
  by (simp add: tests_ok_def no_tests_def)

lemma panic_step_ok:
  assumes "kernel_ok s" and "env_moves s u" and "after_halt h u = Inr (c, t)"
  shows "running_ok (after_command c, t)"
  using okE_D [OF ok_after_halt [OF env_moves_ok [OF assms(2,1)]] assms(3)]
  by (cases c) (simp_all add: runs_ok_def running_ok_def control_ok_def after_command_def)

lemma kernel_step_ok:
  assumes "kernel_step ks kt" and "running_ok ks"
  shows "running_ok kt"
  using assms
proof (induction rule: kernel_step.induct)
  case (user_trap tf hw a m s k t e)
  have "same_sched s (s\<lparr>pmem := m, cr2 := a\<rparr>)" by simp
  then have "kernel_ok (s\<lparr>pmem := m, cr2 := a\<rparr>)" using user_trap.prems by (auto simp: running_ok_def intro: kernel_ok_same)
  from okE_D [OF ok_trap [OF this] user_trap.hyps(2)] show ?case
    by (cases k) (simp_all add: resumed_ok_def running_ok_def)
next
  case (prompt_trap tf hw a s k t)
  have "same_sched s (s\<lparr>cr2 := a\<rparr>)" by simp
  then have "kernel_ok (s\<lparr>cr2 := a\<rparr>)" using prompt_trap.prems by (auto simp: running_ok_def intro: kernel_ok_same)
  from okE_D [OF ok_trap [OF this] prompt_trap.hyps(2)] show ?case
    by (cases k) (simp_all add: resumed_ok_def running_ok_def back_to_prompt_def)
next
  case (user_panic tf hw a m s h u c t e)
  then show ?case by (intro panic_step_ok) (auto simp: running_ok_def)
next
  case (prompt_panic tf hw a s h u c t)
  then show ?case by (intro panic_step_ok) (auto simp: running_ok_def)
next
  case (command_panic pe m p s h u c t)
  then show ?case by (intro panic_step_ok) (auto simp: running_ok_def)
next
  case (command pe m p s c t)
  then have "kernel_ok s" by (simp add: running_ok_def)
  from okE_D [OF ok_execute_command [OF this no_tests_ok] command.hyps] show ?case
    by (cases c) (simp_all add: runs_ok_def running_ok_def control_ok_def after_command_def)
qed

lemma kernel_steps_ok: "kernel_step\<^sup>*\<^sup>* ks kt \<Longrightarrow> running_ok ks \<Longrightarrow> running_ok kt"
  by (induction rule: rtranclp_induct) (auto intro: kernel_step_ok)

text \<open>C2: from the boot on, through commands, user code, page faults, clock interrupts, system calls and panics, every
  environment is in at most one place: running, in one of the three queues, or on the free list; each is one of the
  slots of \<open>envs\<close>, its status fits its place, and the environment whose code runs is the current one, with status
  \<open>ENV_RUNNABLE\<close>, which is what the assertion at the end of \<open>trap\<close> asks for.\<close>

theorem kernel_runs_ok:
  assumes "FOS_initialize nvram end_of_kernel ptr_stack_bottom s = Some (Inr s0)"
    and "curenv s = None" and "env_free_list s = []" and "kernel_step\<^sup>*\<^sup>* (Prompt, s0) (k, t)"
  shows "distinct (rr_list (curenv t) (env_ready_queue t @ env_new_queue t @ env_exit_queue t @ env_free_list t))
    \<and> set (rr_list (curenv t) (env_ready_queue t @ env_new_queue t @ env_exit_queue t @ env_free_list t)) \<subseteq> {..<NENV}
    \<and> queues_ok t
    \<and> (\<forall>e. k = User e \<longrightarrow> curenv t = Some e \<and> env_status (envs t e) = ENV_RUNNABLE)"
proof -
  have "running_ok (Prompt, s0)"
    using ok_FOS_initialize [OF _ assms(1)] assms(2,3) by (simp add: running_ok_def unplaced_def)
  then have "running_ok (k, t)" using kernel_steps_ok [OF assms(4)] by simp
  then show ?thesis by (auto simp: running_ok_def kernel_ok_def places_def queues_ok_def)
qed

text \<open>A clock interrupt at the prompt of a kernel without environments leads back to the prompt.\<close>

lemma prompt_clock:
  fixes tf :: trapframe
  assumes "sched_ok s" and "curenv s = None" and "env_ready_queue s = []"
    and tf: "tf_cs tf AND 3 \<noteq> 3" "tf_trapno tf = IRQ0_Clock"
  shows "\<exists>t. kernel_step (Prompt, s) (Prompt, t)"
proof -
  obtain c where c: "kclock_stop (s\<lparr>cr2 := 0\<rparr>) = s\<lparr>cr2 := 0, clock := c\<rparr>" using kclock_stop_frame [of "s\<lparr>cr2 := 0\<rparr>"] by auto
  let ?s = "s\<lparr>cr2 := 0, clock := c, scheduler_status := SCH_STARTED\<rparr>"
  obtain d where d: "kclock_set_quantum (quantum s) (?s\<lparr>env_ready_queue := []\<rparr>) = Inr ((), ?s\<lparr>env_ready_queue := [], clock := d\<rparr>)"
    using kclock_set_quantum_frame assms(1) unfolding sched_ok_def by blast
  have f: "\<exists>t. fos_scheduler (s\<lparr>cr2 := 0, clock := c\<rparr>) = Inr (CommandPrompt, t)"
    using assms(1-3) d by (simp add: fos_scheduler_def sched_ok_def chk1_def chk2_def enqueue_def dequeue_def)
  have n: "IRQ0_Clock \<noteq> T_PGFLT" "IRQ0_Clock \<noteq> T_SYSCALL" "IRQ0_Clock \<noteq> T_DBLFLT"
    by (simp_all add: IRQ0_Clock_def T_PGFLT_def T_SYSCALL_def T_DBLFLT_def)
  fix hw
  obtain t where "trap_dispatch hw (Stacked tf) (s\<lparr>cr2 := 0, clock := c\<rparr>) = Inr (Away CommandPrompt, t)"
    using f tf n by (auto simp: trap_dispatch_def frame_at_def clock_interrupt_handler_def continue_with_def)
  then have "trap hw tf (s\<lparr>cr2 := 0\<rparr>) = Inr (Prompt, t)"
    using tf n c by (simp add: trap_def resume_of_def)
  from kernel_step.prompt_trap [OF tf(1) this] show ?thesis by (auto simp: back_to_prompt_def)
qed

theorem kernel_runs_ok_witness:
  "\<exists>s0 t. FOS_initialize nvram_64MB 0xF0200000 0xF0110000 (tiny\<lparr>env_free_list := []\<rparr>) = Some (Inr s0)
    \<and> kernel_step (Prompt, s0) (Prompt, t) \<and> queues_ok t
    \<and> distinct (rr_list (curenv t) (env_ready_queue t @ env_new_queue t @ env_exit_queue t @ env_free_list t))"
proof -
  let ?s = "tiny\<lparr>env_free_list := []\<rparr>"
  have n: "nvram_read nvram_64MB 0x34 = 0x300" by (simp add: nvram_read_def mc146818_read_def nvram_64MB_def)
  have d: "detect_memory nvram_64MB ?s = Some boot_example"
    by (simp add: detect_memory_def n Let_def ROUNDDOWN_def PAGE_SIZE_def KERNEL_BASE_def boot_example_def)
  have b: "number_of_frames boot_example = 16384" by (simp add: boot_example_def)
  have c: "curenv ?s = None" "env_free_list ?s = []" by (simp_all add: tiny_def)
  obtain s0 where s0: "FOS_initialize nvram_64MB 0xF0200000 0xF0110000 ?s = Some (Inr s0)" "env_ready_queue s0 = []"
    "curenv s0 = None" "chk s0 = chk tiny" "scheduler_method s0 = SCH_RR" "quantum s0 = CLOCK_INTERVAL_IN_MS"
    using FOS_initialize_state [OF d c(2) boot_example_room(2-4)] boot_example_room(1) b c(1) unfolding Let_def by auto
  have "sched_ok s0"
    using s0(4-6) tiny_sched by (simp add: sched_ok_def CLOCK_INTERVAL_IN_MS_def tiny_def)
  moreover have "tf_cs (zero_tf\<lparr>tf_trapno := IRQ0_Clock\<rparr>) AND 3 \<noteq> 3" by (simp add: zero_tf_def)
  ultimately obtain t where t: "kernel_step (Prompt, s0) (Prompt, t)"
    using prompt_clock [of s0 "zero_tf\<lparr>tf_trapno := IRQ0_Clock\<rparr>"] s0(2,3) by auto
  from kernel_runs_ok [OF s0(1) c r_into_rtranclp [of kernel_step, OF t]] show ?thesis using s0(1) t by blast
qed

end
