(* ===== verification/Spec2Isabelle.thy ===== *)
theory Spec2Isabelle
  imports Linked_List Trap_Dispatch Kernel_Start Boot_Loader Command_Line Kernel_Heap Debug_Info User_Heap User_Library Console User_Programs
    Trap_Entry Ide_Driver Interrupt_Controller Panics Loop_Detection Kernel_Runs
begin

text \<open>
  This library models the kernel of FOS, a teaching operating system for the i386 (\<^verbatim>\<open>src/kern\<close>,
  \<^verbatim>\<open>src/inc\<close>, \<^verbatim>\<open>src/lib\<close>), as definitions that follow the C functions one by one, under the names
  the functions have, and proves what the operations promise.

  \<^bold>\<open>The program.\<close> The kernel keeps one table of physical frames and their lists, a page directory and
  page tables per environment, for every environment a working set of pages in memory and a page
  file on disk, and queues of environments. A user address that is not mapped raises a page fault; the
  handler places the page or replaces one of the working set, reading from and writing to the page
  file. System calls reserve, free and move user memory, and create, run and kill environments; the
  clock interrupt runs the scheduler, which sets the timer for the next slice.

  \<^bold>\<open>Theories\<close>, in the order of their imports:
  \<^item> \<open>Prelude\<close>: the error monad \<open>bindE\<close>, the halts of the kernel (\<open>halt\<close>: a panic, a failed assertion, a
    fault of the kernel, an access outside an array, exhausted fuel), list operations, word lemmas.
  \<^item> \<open>Mmu\<close>: \<^verbatim>\<open>inc/mmu.h\<close>, \<^verbatim>\<open>inc/memlayout.h\<close>, \<^verbatim>\<open>inc/types.h\<close>: page numbers, rounding, entries, the layout.
  \<^item> \<open>Linked_List\<close>: \<^verbatim>\<open>inc/queue.h\<close> at the level of pointers, on a store of links, with the list a head
    represents; each macro refines an operation on that list. The other theories use the lists.
  \<^item> \<open>C_String\<close>: \<^verbatim>\<open>lib/string.c\<close> on a memory of bytes.
  \<^item> \<open>Kernel_State\<close>: the record \<open>kernel\<close>, with the globals of the kernel as fields: physical memory as
    frames of 1024 words, \<open>frames_info\<close>, \<open>envs\<close>, the lists and queues, the disk, the clock, the registers
    \<open>CR2\<close> and \<open>CR3\<close>; how the CPU translates and accesses an address.
  \<^item> \<open>Disk_Pages\<close>, \<open>Frames\<close>, \<open>Paging\<close>, \<open>Address_Space\<close>: \<^verbatim>\<open>kern/memory_manager.c\<close> and the lower half of
    \<^verbatim>\<open>kern/file_manager.c\<close>: disk frames, frames and buffering, page tables; \<open>Address_Space\<close> has the
    invariant of an address space and the properties of \<open>map_frame\<close> and \<open>unmap_frame\<close>.
  \<^item> \<open>Ide_Driver\<close>: \<^verbatim>\<open>lib/disk.c\<close> with its port instructions: on every device that follows the protocol of the
    locale \<open>ata_drive\<close> the driver makes the transfers of \<open>Disk_Pages\<close>, but does not see that the last sector of a
    write was not written; a drive with any contents, failures and delays is an interpretation.
  \<^item> \<open>Working_Set\<close>, \<open>Page_File\<close>, \<open>Page_File_Inv\<close>, \<open>Page_Fault\<close>, \<open>Page_Fault_Inv\<close>: the working set, the
    page file (\<^verbatim>\<open>kern/file_manager.c\<close>) with its invariant, the fault handlers of \<^verbatim>\<open>kern/trap.c\<close>
    and the policy they implement.
  \<^item> \<open>User_Memory\<close>: \<open>allocateMem\<close>, \<open>freeMem\<close>, \<open>moveMem\<close>.
  \<^item> \<open>Clock\<close>, \<open>Interrupt_Controller\<close>: \<^verbatim>\<open>kern/kclock.c\<close>, \<^verbatim>\<open>kern/picirq.c\<close>: the timer and its interrupt mask; the
    port writes to the interrupt controllers and the state they leave.
  \<^item> \<open>Env_Manager\<close>, \<open>Program_Loader\<close>: \<^verbatim>\<open>kern/user_environment.c\<close>: environments, ELF images, \<open>env_create\<close>.
  \<^item> \<open>Kernel_Objects\<close>: semaphores and shared objects.
  \<^item> \<open>Sched\<close>: \<^verbatim>\<open>kern/sched.c\<close> and the clock handler.
  \<^item> \<open>Panics\<close>: the panic routines of \<^verbatim>\<open>kern/init.c\<close>: what the kernel does after a halt of the model.
  \<^item> \<open>Loop_Detection\<close>: \<open>detect_modified_loop\<close> of \<^verbatim>\<open>kern/trap.c\<close>, on the links of \<open>Linked_List\<close>.
  \<^item> \<open>Utilities\<close>: \<open>scarce_memory\<close> and the count of pages to free (\<^verbatim>\<open>kern/utilities.c\<close>).
  \<^item> \<open>Syscalls\<close>: \<^verbatim>\<open>kern/syscall.c\<close>: the system calls and their dispatcher.
  \<^item> \<open>Trap_Dispatch\<close>: the rest of \<^verbatim>\<open>kern/trap.c\<close>: \<open>trap\<close>, which saves the registers of the environment, the
    dispatcher, and the environment that runs next.
  \<^item> \<open>Trap_Entry\<close>: the way into \<open>trap\<close> and back: the descriptor table line by line, the entry points of
    \<^verbatim>\<open>kern/trapentry.S\<close> with the stack that the processor and they build, and \<open>env_pop_tf\<close>.
  \<^item> \<open>Sched_Frame\<close>, \<open>Kernel_Invariant\<close>: that memory management leaves the queues and the status of environments
    alone, one lemma per operation; where environments are, as an invariant of the scheduler, the system calls and traps.
  \<^item> \<open>Printfmt\<close>: \<^verbatim>\<open>lib/printfmt.c\<close>, \<^verbatim>\<open>lib/printf.c\<close>, \<^verbatim>\<open>kern/printf.c\<close>: formatted output.
  \<^item> \<open>Console\<close>: \<^verbatim>\<open>kern/console.c\<close> and \<^verbatim>\<open>lib/readline.c\<close>: the text screen, the keyboard map, the input
    buffer and the line editor.
  \<^item> \<open>Command_Prompt\<close>, \<open>Command_Line\<close>: \<^verbatim>\<open>kern/command_prompt.c\<close>: the table of commands with the function of
    every command and the dispatcher; the line editor of the prompt with its history and completion.
  \<^item> \<open>Boot_Loader\<close>: \<^verbatim>\<open>boot/main.c\<close>: loading the kernel image from the disk.
  \<^item> \<open>Kernel_Boot\<close>, \<open>Kernel_Start\<close>: \<^verbatim>\<open>kern/init.c\<close>, \<^verbatim>\<open>kern/helpers.c\<close> and the boot part of
    \<^verbatim>\<open>kern/memory_manager.c\<close>: memory detection, the boot allocator, the page tables of the kernel and their
    check, and the whole start-up sequence.
  \<^item> \<open>Kernel_Runs\<close>: the kernel as a machine of commands, user code, traps and panics, and the invariant in every state
    that it reaches from the boot.
  \<^item> \<open>Debug_Info\<close>: \<^verbatim>\<open>kern/kdebug.c\<close>: the search for the function that contains an address.
  \<^item> \<open>User_Heap\<close>: \<^verbatim>\<open>lib/uheap.c\<close>: \<open>malloc\<close> and \<open>free\<close> of the user library, on top of the system calls.
  \<^item> \<open>User_Library\<close>: \<^verbatim>\<open>lib/syscall.c\<close>, \<^verbatim>\<open>lib/libmain.c\<close>, \<^verbatim>\<open>lib/exit.c\<close>, \<^verbatim>\<open>lib/panic.c\<close>, \<^verbatim>\<open>lib/concurrency.c\<close>:
    the stubs of the system calls as seen by a program, which go through \<open>trap\<close> of \<open>Trap_Dispatch\<close> to the
    dispatcher of \<open>Syscalls\<close> and back.
  \<^item> \<open>Kernel_Heap\<close>: \<^verbatim>\<open>kern/kheap.c\<close>, \<^verbatim>\<open>kern/priority_manager.c\<close>, \<^verbatim>\<open>lib/ubuddy.c\<close>, which panic in this commit.
  \<^item> \<open>Sorting_Programs\<close>: the algorithms of \<^verbatim>\<open>user/quicksort.c\<close>, \<^verbatim>\<open>user/mergesort_leakage.c\<close> and
    \<^verbatim>\<open>user/arrayOperations_stats.c\<close>, with the statistics of the last.
  \<^item> \<open>Example_Programs\<close>: the functions of \<^verbatim>\<open>user/fos_factorial.c\<close> and \<^verbatim>\<open>user/fos_fibonacci.c\<close>.
  \<^item> \<open>User_Programs\<close>: the main functions of \<^verbatim>\<open>quicksort.c\<close>, \<^verbatim>\<open>mergesort_leakage.c\<close>, \<^verbatim>\<open>fos_factorial.c\<close> and
    \<^verbatim>\<open>fos_fibonacci.c\<close>, over the line editor of \<open>Console\<close> and \<open>strtol\<close> of \<open>C_String\<close>. The limits of the machine
    are ends of a run: a line longer than its buffer, an array whose size in bytes wraps, a recursion deeper than
    the stack has room for.

  \<^bold>\<open>Correspondence.\<close> An operation takes the kernel and gives \<open>halt + value \<times> kernel\<close> (\<open>value result\<close>): a
  \<open>panic\<close>, a failed \<open>assert\<close> or a fault in the kernel is \<open>Inl\<close>. A pointer to a structure of an array is
  its index, a null pointer \<open>None\<close>; out parameters are part of the result. \<open>LIST_HEAD\<close> lists are lists of
  indices, whose macros are those of \<open>Prelude\<close>, justified by \<open>Linked_List\<close>. \<open>uint32\<close> is \<open>32 word\<close> with its
  wrap-around, \<open>int\<close> is \<open>int\<close> where the values cannot reach its bounds and a signed reading of a word
  where they can; the counts and widths of formatted output and the last subscript of an array wrap with \<open>wrap32\<close>.
  What the kernel reads from devices is the argument \<open>hw\<close>; whether the drive refuses a sector is the field
  \<open>ide_fail\<close>, and sectors whose data the drive takes but cannot write appear in \<open>Ide_Driver\<close> only. A string that a system call gets is read from user memory before the call.
  A page fault of the kernel is a halt: the handler that it would run is not nested in the model.
  Operations that may schedule and so do not return have the result type \<open>control\<close>.

  \<^bold>\<open>Properties.\<close> Refinement of abstract lists by \<^verbatim>\<open>queue.h\<close>; the effect of mapping, unmapping and
  allocating frames under the address-space invariant; the page file as a map from pages to contents;
  the fault handler as the segmented FIFO policy; fairness and the invariant of round robin; the ids
  of environments; the timer values of a quantum; allocation and release of semaphores and shared
  objects; the disk driver at its ports as a refinement of the sector transfers; the trap frame that an interrupt
  builds and the registers that come back from it; what a panic leaves of the
  environments; the place of every environment in every state the kernel reaches; the search for a loop in a damaged list; the string functions; the image that the loader leaves in the page file; that preemption
  is invisible to the environments; the system call that allocates a page, and one that a
  program makes, through the trap and back; formatted output as the
  inverse of \<open>strtol\<close> and within the bounds of its buffer; the cursor on the screen, the input buffer
  as a queue of characters and the line editor as a fold over the keys; the history of commands as a
  list, the dispatch of a command and the command that maps a user page; the image that the boot loader leaves
  in memory; the state that start-up leaves, with the mappings of the kernel and the exact list of free frames; the lookup of debug information; blocks of the user heap
  that never overlap; total correctness of the sorting and selection programs, and of the
  dialogues of the programs that use them.

  \<^bold>\<open>Fuel.\<close> \<open>foreach_segment\<close> and the list loops over pointers take fuel: the number of program headers
  (\<open>foreach_segment_all\<close>) and the length of the list (\<open>LIST_FOREACH_moves_all\<close>) are enough. The strings that
  system calls read have \<open>2 ^ 32\<close>, the number of addresses, and the loop over page tables in \<open>freeMem\<close> has 1026,
  more than there are tables. String loops that stop at a terminator, the loops of the boot loader and
  of the sorting programs and their recursion are \<open>partial_function (option)\<close>, and the properties state that
  they return. \<open>readline\<close> and \<open>prompt_loop\<close> recurse over the characters that arrive, and \<open>None\<close> means that
  they wait for more. The rounds of the sorting programs have one unit of fuel more than there are characters, and
  more changes nothing (\<open>sort_rounds_fuel\<close>). The polls of the disk driver are \<open>partial_function (option)\<close>; they
  end on every drive whose waiting time is a number (\<open>ata_drive\<close>). The parameter \<open>frames\<close> of the user programs is not
  fuel but the room on the stack: running out of it is an end of the run.

  \<^bold>\<open>Panics.\<close> A halt ends the operation and drops its state. \<open>Kernel_Runs\<close> goes on with the panic routines from any
  state that moves of environments lead to (\<open>env_moves\<close>), so also from one in which the operation had moved some of them
  or was about to place one; halts inside the scheduler repeat in the panic routines and end a run.

  \<^bold>\<open>Not modelled.\<close> What the kernel prints, the TLB, time itself, the registers of devices other than the
  timer, the interrupt controllers and the disk; the
  assembly of \<^verbatim>\<open>boot/boot.S\<close> and \<^verbatim>\<open>kern/entry.S\<close>; the tests of the kernel heap and of priorities, which the prompt
  runs through the parameter \<open>ktest\<close>; the other user programs, examples and tests that run on the
  kernel. The kernel heap, priorities and the MLFQ scheduler are empty in this commit:
  their definitions panic. The build has \<open>USE_KHEAP\<close> 0, and the model follows the
  branches of that build.
\<close>

end
